(* ===== verification/Orbit_Prelude.thy ===== *)
theory Orbit_Prelude
  imports Complex_Main "HOL-Library.Word" "HOL-Library.Monad_Syntax"
begin

text \<open>
  Shared vocabulary of the development.

  \<^item> Machine integers: \<open>u8\<close>, \<open>u16\<close>, \<open>u32\<close>, \<open>u64\<close> name the C types
    \<open>uint8_t\<close> to \<open>uint64_t\<close>; arithmetic on them wraps around as it does in C.  Signed
    quantities are \<open>int\<close> and are brought back to their width where the code can overflow.
  \<^item> Memory: the code overlays C structs on byte arrays with \<open>reinterpret_cast\<close>.  A byte
    array is a list of bytes; a field access is a read or a write at the field's offset.
    A read or write outside of the array is undefined behaviour in C; it is \<open>None\<close> here, so
    a theorem whose conclusion is \<open>Some\<close> also says that the code stays inside of its buffer.
  \<^item> Byte order: the host is little-endian (x86-64, the only target of the build files).
    Multi-byte fields are read and written little-endian and pass through \<open>ntohs\<close>,
    \<open>ntohl\<close>, \<open>htons\<close>, \<open>htonl\<close> exactly where the source calls them.
  \<^item> Pointers the code compares with \<open>NULL\<close> are options, with \<open>None\<close> for \<open>NULL\<close>.
\<close>

unbundle bit_operations_syntax

named_theorems buf_simps "rewrite rules for reads after writes on byte arrays"
named_theorems field_defs "definitions of the struct field accessors"

type_synonym u8 = "8 word"
type_synonym u16 = "16 word"
type_synonym u32 = "32 word"
type_synonym u64 = "64 word"
type_synonym buffer = "u8 list"

section \<open>Bytes of machine words\<close>

definition le16 :: "u8 \<Rightarrow> u8 \<Rightarrow> u16" where
  "le16 b0 b1 = ucast b0 OR push_bit 8 (ucast b1)"

definition le32 :: "u8 \<Rightarrow> u8 \<Rightarrow> u8 \<Rightarrow> u8 \<Rightarrow> u32" where
  "le32 b0 b1 b2 b3 =
     ucast b0 OR push_bit 8 (ucast b1) OR push_bit 16 (ucast b2) OR push_bit 24 (ucast b3)"

definition byte :: "nat \<Rightarrow> 'a::len word \<Rightarrow> u8" where
  "byte k w = ucast (drop_bit (8 * k) w)"

lemma u8_no_bit: "8 \<le> n \<Longrightarrow> \<not> bit (a :: u8) n"
  using bit_imp_le_length [of a n] by auto

lemma u8_no_bit_add [simp]:
  "\<not> bit (a :: u8) (8 + n)" "\<not> bit (a :: u8) (16 + n)" "\<not> bit (a :: u8) (24 + n)"
  by (simp_all add: u8_no_bit)

lemma byte_le16 [simp]:
  "byte 0 (le16 a b) = a" "byte (Suc 0) (le16 a b) = b" "byte 1 (le16 a b) = b"
  by (auto intro!: bit_word_eqI simp: byte_def le16_def bit_simps)

lemma byte_le32 [simp]:
  "byte 0 (le32 a b c d) = a" "byte (Suc 0) (le32 a b c d) = b" "byte 1 (le32 a b c d) = b"
  "byte 2 (le32 a b c d) = c" "byte 3 (le32 a b c d) = d"
  by (auto intro!: bit_word_eqI simp: byte_def le32_def bit_simps)

lemma le16_bytes [simp]: "le16 (byte 0 w) (byte (Suc 0) w) = w"
proof (rule bit_word_eqI)
  fix n assume "n < LENGTH(16)"
  then have "n < 8 \<or> (\<exists>k<8. n = 8 + k)" by simp presburger
  then show "bit (le16 (byte 0 w) (byte (Suc 0) w)) n = bit w n"
    by (auto simp: byte_def le16_def bit_simps)
qed

lemma le32_bytes [simp]: "le32 (byte 0 w) (byte (Suc 0) w) (byte 2 w) (byte 3 w) = w"
proof (rule bit_word_eqI)
  fix n assume "n < LENGTH(32)"
  then have "n < 8 \<or> (\<exists>k<8. n = 8 + k) \<or> (\<exists>k<8. n = 16 + k) \<or> (\<exists>k<8. n = 24 + k)"
    by simp presburger
  then show "bit (le32 (byte 0 w) (byte (Suc 0) w) (byte 2 w) (byte 3 w)) n = bit w n"
    by (elim disjE exE conjE) (simp_all add: byte_def le32_def bit_simps)
qed

definition ntohs :: "u16 \<Rightarrow> u16" where
  "ntohs w = le16 (byte 1 w) (byte 0 w)"

definition ntohl :: "u32 \<Rightarrow> u32" where
  "ntohl w = le32 (byte 3 w) (byte 2 w) (byte 1 w) (byte 0 w)"

abbreviation htons :: "u16 \<Rightarrow> u16" where "htons \<equiv> ntohs"
abbreviation htonl :: "u32 \<Rightarrow> u32" where "htonl \<equiv> ntohl"

lemma ntohs_ntohs [simp]: "ntohs (ntohs w) = w"
  by (simp add: ntohs_def)

lemma ntohl_ntohl [simp]: "ntohl (ntohl w) = w"
  by (simp add: ntohl_def)

lemma byte_ntohs [simp]: "byte 0 (ntohs w) = byte (Suc 0) w" "byte (Suc 0) (ntohs w) = byte 0 w"
  by (simp_all add: ntohs_def)

lemma byte_ntohl [simp]:
  "byte 0 (ntohl w) = byte 3 w" "byte (Suc 0) (ntohl w) = byte 2 w"
  "byte 2 (ntohl w) = byte (Suc 0) w" "byte 3 (ntohl w) = byte 0 w"
  by (simp_all add: ntohl_def)

lemma ntohs_le16 [simp]: "ntohs (le16 a b) = le16 b a"
  by (simp add: ntohs_def)

lemma ntohl_le32 [simp]: "ntohl (le32 a b c d) = le32 d c b a"
  by (simp add: ntohl_def)

text \<open>Shifts as arithmetic on the unsigned value.\<close>

lemma unat_push_bit_small:
  "unat w * 2 ^ n < 2 ^ LENGTH('a) \<Longrightarrow> unat (push_bit n (w :: 'a::len word)) = unat w * 2 ^ n"
  by (subst unsigned_push_bit_eq) (simp add: take_bit_eq_mod push_bit_eq_mult)

lemma unat_drop_bit_div: "unat (drop_bit n (w :: 'a::len word)) = unat w div 2 ^ n"
  by (subst unat_drop_bit_eq) (simp add: drop_bit_eq_div)

lemma unat_take_bit_mod: "unat (take_bit n (w :: 'a::len word)) = unat w mod 2 ^ n"
  by (subst unsigned_take_bit_eq) (simp add: take_bit_eq_mod)

lemma unat_ucast_mod: "unat (ucast (w :: 'a::len word) :: 'b::len word) = unat w mod 2 ^ LENGTH('b)"
  by (subst unsigned_ucast_eq) (simp add: take_bit_eq_mod)

section \<open>Byte arrays\<close>

definition rd8 :: "buffer \<Rightarrow> nat \<Rightarrow> u8 option" where
  "rd8 m i = (if i < length m then Some (m ! i) else None)"

definition wr8 :: "buffer \<Rightarrow> nat \<Rightarrow> u8 \<Rightarrow> buffer option" where
  "wr8 m i v = (if i < length m then Some (m[i := v]) else None)"

definition rd16 :: "buffer \<Rightarrow> nat \<Rightarrow> u16 option" where
  "rd16 m i = (if i + 1 < length m then Some (le16 (m ! i) (m ! (i + 1))) else None)"

definition wr16 :: "buffer \<Rightarrow> nat \<Rightarrow> u16 \<Rightarrow> buffer option" where
  "wr16 m i w = (if i + 1 < length m then Some (m[i := byte 0 w, i + 1 := byte 1 w]) else None)"

definition rd32 :: "buffer \<Rightarrow> nat \<Rightarrow> u32 option" where
  "rd32 m i =
     (if i + 3 < length m then Some (le32 (m ! i) (m ! (i + 1)) (m ! (i + 2)) (m ! (i + 3)))
      else None)"

definition wr32 :: "buffer \<Rightarrow> nat \<Rightarrow> u32 \<Rightarrow> buffer option" where
  "wr32 m i w =
     (if i + 3 < length m
      then Some (m[i := byte 0 w, i + 1 := byte 1 w, i + 2 := byte 2 w, i + 3 := byte 3 w])
      else None)"

text \<open>Network-order accesses, as the code writes them: \<open>ntohs (field)\<close>, \<open>field = htons (v)\<close>.\<close>

definition rdn16 :: "buffer \<Rightarrow> nat \<Rightarrow> u16 option" where
  "rdn16 m i = map_option ntohs (rd16 m i)"

definition wrn16 :: "buffer \<Rightarrow> nat \<Rightarrow> u16 \<Rightarrow> buffer option" where
  "wrn16 m i v = wr16 m i (htons v)"

definition rdn32 :: "buffer \<Rightarrow> nat \<Rightarrow> u32 option" where
  "rdn32 m i = map_option ntohl (rd32 m i)"

definition wrn32 :: "buffer \<Rightarrow> nat \<Rightarrow> u32 \<Rightarrow> buffer option" where
  "wrn32 m i v = wr32 m i (htonl v)"

lemmas buf_defs = rd8_def wr8_def rd16_def wr16_def rd32_def wr32_def
  rdn16_def wrn16_def rdn32_def wrn32_def

lemma wr_length:
  "wr8 m i v8 = Some m' \<Longrightarrow> length m' = length m"
  "wr16 m i v16 = Some m' \<Longrightarrow> length m' = length m"
  "wr32 m i v32 = Some m' \<Longrightarrow> length m' = length m"
  "wrn16 m i v16 = Some m' \<Longrightarrow> length m' = length m"
  "wrn32 m i v32 = Some m' \<Longrightarrow> length m' = length m"
  by (auto simp: buf_defs split: if_splits)

lemma rd_wr_same [buf_simps]:
  "wr8 m i v8 = Some m' \<Longrightarrow> rd8 m' i = Some v8"
  "wr16 m i v16 = Some m' \<Longrightarrow> rd16 m' i = Some v16"
  "wr32 m i v32 = Some m' \<Longrightarrow> rd32 m' i = Some v32"
  "wrn16 m i v16 = Some m' \<Longrightarrow> rdn16 m' i = Some v16"
  "wrn32 m i v32 = Some m' \<Longrightarrow> rdn32 m' i = Some v32"
  by (auto simp: buf_defs nth_list_update split: if_splits)

text \<open>A write leaves every byte outside of the field alone.\<close>

lemma wr_frame [buf_simps]:
  "wr8 m i v8 = Some m' \<Longrightarrow> j \<noteq> i \<Longrightarrow> m' ! j = m ! j"
  "wr16 m i v16 = Some m' \<Longrightarrow> j < i \<or> i + 2 \<le> j \<Longrightarrow> m' ! j = m ! j"
  "wr32 m i v32 = Some m' \<Longrightarrow> j < i \<or> i + 4 \<le> j \<Longrightarrow> m' ! j = m ! j"
  "wrn16 m i v16 = Some m' \<Longrightarrow> j < i \<or> i + 2 \<le> j \<Longrightarrow> m' ! j = m ! j"
  "wrn32 m i v32 = Some m' \<Longrightarrow> j < i \<or> i + 4 \<le> j \<Longrightarrow> m' ! j = m ! j"
  by (auto simp: buf_defs nth_list_update split: if_splits)

lemma rd_defined [simp]:
  "i < length m \<Longrightarrow> rd8 m i = Some (m ! i)"
  "i + 1 < length m \<Longrightarrow> rdn16 m i = Some (le16 (m ! (i + 1)) (m ! i))"
  "i + 3 < length m \<Longrightarrow> rdn32 m i = Some (le32 (m ! (i + 3)) (m ! (i + 2)) (m ! (i + 1)) (m ! i))"
  by (simp_all add: buf_defs ntohs_def ntohl_def)

lemma wr_defined:
  "i < length m \<Longrightarrow> wr8 m i v8 = Some (m[i := v8])"
  "i + 1 < length m \<Longrightarrow> wrn16 m i v16 = Some (m[i := byte 1 v16, i + 1 := byte 0 v16])"
  "i + 3 < length m \<Longrightarrow>
     wrn32 m i v32 = Some (m[i := byte 3 v32, i + 1 := byte 2 v32, i + 2 := byte 1 v32, i + 3 := byte 0 v32])"
  by (simp_all add: buf_defs)

lemma rd_undefined [simp]:
  "rd8 m i = None \<longleftrightarrow> length m \<le> i"
  "rdn16 m i = None \<longleftrightarrow> length m \<le> i + 1"
  "rdn32 m i = None \<longleftrightarrow> length m \<le> i + 3"
  by (auto simp: buf_defs)

text \<open>\<open>memset(m + off, 0, n)\<close> and the byte loop \<open>m[dst + i] = src[i]\<close>.\<close>

definition memset0 :: "buffer \<Rightarrow> nat \<Rightarrow> nat \<Rightarrow> buffer option" where
  "memset0 m off n =
     (if off + n \<le> length m then Some (take off m @ replicate n 0 @ drop (off + n) m) else None)"

fun put_bytes :: "buffer \<Rightarrow> nat \<Rightarrow> u8 list \<Rightarrow> buffer option" where
  "put_bytes m off [] = Some m"
| "put_bytes m off (b # bs) = do { m \<leftarrow> wr8 m off b; put_bytes m (off + 1) bs }"

lemma put_bytes_Some:
  "off + length bs \<le> length m \<Longrightarrow> put_bytes m off bs = Some (take off m @ bs @ drop (off + length bs) m)"
proof (induction bs arbitrary: m off)
  case (Cons b bs)
  then have "put_bytes m off (b # bs) = put_bytes (m[off := b]) (off + 1) bs"
    by (simp add: wr_defined)
  also have "\<dots> = Some (take (off + 1) (m[off := b]) @ bs @ drop (off + 1 + length bs) (m[off := b]))"
    using Cons.prems by (intro Cons.IH) simp
  finally show ?case
    using Cons.prems by (simp add: take_Suc_conv_app_nth)
qed simp

section \<open>Lists\<close>

lemma rev_butlast_tl: "rev (butlast xs) = tl (rev xs)"
  by (induction xs rule: rev_induct) simp_all

end
