(* ===== verification/Rtp_Headers.thy ===== *)
theory Rtp_Headers
  imports Orbit_Prelude
begin

text \<open>
  The packet header overlays of \<open>src/orbit/rtp/rtp_headers.h\<close>: \<open>RtpHeader\<close>, \<open>RtcpHeader\<close>
  and \<open>RedHeader\<close>.  The code never builds these objects on their own, it casts a packet
  buffer to them; so every accessor is a function of the buffer that starts at the header.
  Bit fields are laid out from the least significant bit, as the compiler does on x86-64.
  The lemmas show that a getter reads what its setter wrote, that a setter leaves the other
  fields alone, and what the derived values (header length, NTP time, REMB bitrate) are.
\<close>

section \<open>Bit fields\<close>

definition bits :: "nat \<Rightarrow> nat \<Rightarrow> 'a::len word \<Rightarrow> 'a word" where
  "bits lo n w = take_bit n (drop_bit lo w)"

definition set_bits :: "nat \<Rightarrow> nat \<Rightarrow> 'a::len word \<Rightarrow> 'a word \<Rightarrow> 'a word" where
  "set_bits lo n v w = (w AND NOT (push_bit lo (mask n))) OR push_bit lo (take_bit n v)"

lemma bits_set_bits_same:
  assumes "lo + n \<le> LENGTH('a)"
  shows "bits lo n (set_bits lo n v (w :: 'a::len word)) = take_bit n v"
  using assms by (auto intro!: bit_word_eqI simp: bits_def set_bits_def bit_simps)

lemma bits_set_bits_disjoint:
  assumes "lo + n \<le> lo' \<or> lo' + n' \<le> lo"
  shows "bits lo' n' (set_bits lo n v (w :: 'a::len word)) = bits lo' n' w"
proof (rule bit_word_eqI)
  fix k
  have "k < n' \<Longrightarrow> \<not> (lo \<le> lo' + k \<and> lo' + k - lo < n)"
    using assms by linarith
  then show "bit (bits lo' n' (set_bits lo n v w)) k = bit (bits lo' n' w) k"
    by (auto simp: bits_def set_bits_def bit_simps dest: bit_imp_le_length)
qed

definition upd8 :: "(u8 \<Rightarrow> u8) \<Rightarrow> buffer \<Rightarrow> nat \<Rightarrow> buffer option" where
  "upd8 f m i = do { b \<leftarrow> rd8 m i; wr8 m i (f b) }"

lemma upd8_Some: "upd8 f m i = Some m' \<longleftrightarrow> i < length m \<and> m' = m[i := f (m ! i)]"
  by (auto simp: upd8_def buf_defs bind_eq_Some_conv)

section \<open>RtpHeader\<close>

definition MIN_SIZE :: nat where "MIN_SIZE = 12"

definition rtp_cc :: "buffer \<Rightarrow> u8 option" where
  "rtp_cc m = map_option (bits 0 4) (rd8 m 0)"

definition getExtension :: "buffer \<Rightarrow> u8 option" where
  "getExtension m = map_option (bits 4 1) (rd8 m 0)"

definition setExtension :: "buffer \<Rightarrow> u8 \<Rightarrow> buffer option" where
  "setExtension m ext = upd8 (set_bits 4 1 ext) m 0"

definition hasPadding :: "buffer \<Rightarrow> u8 option" where
  "hasPadding m = map_option (bits 5 1) (rd8 m 0)"

definition getVersion :: "buffer \<Rightarrow> u8 option" where
  "getVersion m = map_option (bits 6 2) (rd8 m 0)"

definition setVersion :: "buffer \<Rightarrow> u8 \<Rightarrow> buffer option" where
  "setVersion m aVersion = upd8 (set_bits 6 2 aVersion) m 0"

definition getPayloadType :: "buffer \<Rightarrow> u8 option" where
  "getPayloadType m = map_option (bits 0 7) (rd8 m 1)"

definition setPayloadType :: "buffer \<Rightarrow> u8 \<Rightarrow> buffer option" where
  "setPayloadType m aType = upd8 (set_bits 0 7 aType) m 1"

definition getMarker :: "buffer \<Rightarrow> u8 option" where
  "getMarker m = map_option (bits 7 1) (rd8 m 1)"

definition setMarker :: "buffer \<Rightarrow> u8 \<Rightarrow> buffer option" where
  "setMarker m aMarker = upd8 (set_bits 7 1 aMarker) m 1"

definition getSeqNumber :: "buffer \<Rightarrow> u16 option" where
  "getSeqNumber m = map_option ntohs (rd16 m 2)"

definition setSeqNumber :: "buffer \<Rightarrow> u16 \<Rightarrow> buffer option" where
  "setSeqNumber m aSeqNumber = wr16 m 2 (htons aSeqNumber)"

definition getTimestamp :: "buffer \<Rightarrow> u32 option" where
  "getTimestamp m = map_option ntohl (rd32 m 4)"

definition setTimestamp :: "buffer \<Rightarrow> u32 \<Rightarrow> buffer option" where
  "setTimestamp m aTimestamp = wr32 m 4 (htonl aTimestamp)"

definition getSSRC :: "buffer \<Rightarrow> u32 option" where
  "getSSRC m = map_option ntohl (rd32 m 8)"

definition setSSRC :: "buffer \<Rightarrow> u32 \<Rightarrow> buffer option" where
  "setSSRC m aSSRC = wr32 m 8 (htonl aSSRC)"

definition getExtId :: "buffer \<Rightarrow> u16 option" where
  "getExtId m = map_option ntohs (rd16 m 12)"

definition setExtId :: "buffer \<Rightarrow> u16 \<Rightarrow> buffer option" where
  "setExtId m extensionId = wr16 m 12 (htons extensionId)"

definition getExtLength :: "buffer \<Rightarrow> u16 option" where
  "getExtLength m = map_option ntohs (rd16 m 14)"

definition setExtLength :: "buffer \<Rightarrow> u16 \<Rightarrow> buffer option" where
  "setExtLength m extensionLength = wr16 m 14 (htons extensionLength)"

text \<open>The C expression reads \<open>extensionlength\<close> whether or not the extension bit is set.\<close>

definition getHeaderLength :: "buffer \<Rightarrow> nat option" where
  "getHeaderLength m = do {
     cc \<leftarrow> rtp_cc m;
     ext \<leftarrow> getExtension m;
     extlen \<leftarrow> getExtLength m;
     Some (MIN_SIZE + unat cc * 4 + unat ext * (4 + unat extlen * 4)) }"

text \<open>The constructor: version 2, everything else zero.\<close>

definition RtpHeader_new :: buffer where
  "RtpHeader_new = 128 # replicate 15 0"

lemmas [field_defs] =
  rtp_cc_def getExtension_def setExtension_def hasPadding_def getVersion_def setVersion_def
  getPayloadType_def setPayloadType_def getMarker_def setMarker_def getSeqNumber_def
  setSeqNumber_def getTimestamp_def setTimestamp_def getSSRC_def setSSRC_def getExtId_def
  setExtId_def getExtLength_def setExtLength_def

lemmas bit_field_rules = bits_set_bits_same bits_set_bits_disjoint

lemma rtp_set_get:
  "setExtension m x = Some m' \<Longrightarrow> getExtension m' = Some (take_bit 1 x)"
  "setVersion m x = Some m' \<Longrightarrow> getVersion m' = Some (take_bit 2 x)"
  "setPayloadType m x = Some m' \<Longrightarrow> getPayloadType m' = Some (take_bit 7 x)"
  "setMarker m x = Some m' \<Longrightarrow> getMarker m' = Some (take_bit 1 x)"
  "setSeqNumber m s = Some m' \<Longrightarrow> getSeqNumber m' = Some s"
  "setTimestamp m t = Some m' \<Longrightarrow> getTimestamp m' = Some t"
  "setSSRC m t = Some m' \<Longrightarrow> getSSRC m' = Some t"
  "setExtId m s = Some m' \<Longrightarrow> getExtId m' = Some s"
  "setExtLength m s = Some m' \<Longrightarrow> getExtLength m' = Some s"
  by (auto simp: field_defs upd8_Some bit_field_rules buf_simps)

lemma marker_payload_frame:
  "setMarker m x = Some m' \<Longrightarrow> getPayloadType m' = getPayloadType m"
  "setPayloadType m x = Some m' \<Longrightarrow> getMarker m' = getMarker m"
  by (auto simp: field_defs upd8_Some bit_field_rules)

section \<open>RtcpHeader\<close>

text \<open>
  Offsets: the fixed part is 8 bytes (bit fields, length, sender SSRC); the report union
  starts at byte 8.  24-bit fields share their word with an 8-bit field in front of them.
\<close>

definition RTCP_Sender_PT :: u8 where "RTCP_Sender_PT = 200"
definition RTCP_Receiver_PT :: u8 where "RTCP_Receiver_PT = 201"
definition RTCP_BYE :: u8 where "RTCP_BYE = 203"
definition RTCP_APP :: u8 where "RTCP_APP = 204"
definition RTCP_RTP_Feedback_PT :: u8 where "RTCP_RTP_Feedback_PT = 205"
definition RTCP_PS_Feedback_PT :: u8 where "RTCP_PS_Feedback_PT = 206"

definition le24 :: "u8 \<Rightarrow> u8 \<Rightarrow> u8 \<Rightarrow> u32" where
  "le24 b0 b1 b2 = ucast b0 OR push_bit 8 (ucast b1) OR push_bit 16 (ucast b2)"

definition rd24 :: "buffer \<Rightarrow> nat \<Rightarrow> u32 option" where
  "rd24 m i = (if i + 2 < length m then Some (le24 (m ! i) (m ! (i + 1)) (m ! (i + 2))) else None)"

definition wr24 :: "buffer \<Rightarrow> nat \<Rightarrow> u32 \<Rightarrow> buffer option" where
  "wr24 m i w =
     (if i + 2 < length m then Some (m[i := byte 0 w, i + 1 := byte 1 w, i + 2 := byte 2 w])
      else None)"

definition getBlockCount :: "buffer \<Rightarrow> u8 option" where
  "getBlockCount m = map_option (bits 0 5) (rd8 m 0)"

definition setBlockCount :: "buffer \<Rightarrow> u8 \<Rightarrow> buffer option" where
  "setBlockCount m count = upd8 (set_bits 0 5 count) m 0"

definition getPacketType :: "buffer \<Rightarrow> u8 option" where
  "getPacketType m = rd8 m 1"

definition setPacketType :: "buffer \<Rightarrow> u8 \<Rightarrow> buffer option" where
  "setPacketType m pt = wr8 m 1 pt"

definition isFeedback :: "buffer \<Rightarrow> bool option" where
  "isFeedback m = do {
     pt \<leftarrow> rd8 m 1;
     Some (pt = RTCP_Receiver_PT \<or> pt = RTCP_PS_Feedback_PT \<or> pt = RTCP_RTP_Feedback_PT) }"

definition isRtcp :: "buffer \<Rightarrow> bool option" where
  "isRtcp m = do {
     pt \<leftarrow> rd8 m 1;
     fb \<leftarrow> isFeedback m;
     Some (pt = RTCP_Sender_PT \<or> pt = RTCP_APP \<or> pt = RTCP_BYE \<or> fb) }"

definition rtcp_getLength :: "buffer \<Rightarrow> u16 option" where
  "rtcp_getLength m = map_option ntohs (rd16 m 2)"

definition rtcp_setLength :: "buffer \<Rightarrow> u16 \<Rightarrow> buffer option" where
  "rtcp_setLength m theLength = wr16 m 2 (htons theLength)"

definition rtcp_getSSRC :: "buffer \<Rightarrow> u32 option" where
  "rtcp_getSSRC m = map_option ntohl (rd32 m 4)"

definition rtcp_setSSRC :: "buffer \<Rightarrow> u32 \<Rightarrow> buffer option" where
  "rtcp_setSSRC m aSsrc = wr32 m 4 (htonl aSsrc)"

definition getSourceSSRC :: "buffer \<Rightarrow> u32 option" where
  "getSourceSSRC m = map_option ntohl (rd32 m 8)"

definition setSourceSSRC :: "buffer \<Rightarrow> u32 \<Rightarrow> buffer option" where
  "setSourceSSRC m sourceSsrc = wr32 m 8 (htonl sourceSsrc)"

definition getFractionLost :: "buffer \<Rightarrow> u8 option" where
  "getFractionLost m = rd8 m 12"

definition setFractionLost :: "buffer \<Rightarrow> u8 \<Rightarrow> buffer option" where
  "setFractionLost m fractionLost = wr8 m 12 fractionLost"

text \<open>\<open>lost\<close> is a signed 24-bit field: its value is sign-extended before the byte swap.\<close>

definition getLostPackets :: "buffer \<Rightarrow> u32 option" where
  "getLostPackets m = do {
     lost \<leftarrow> rd24 m 13;
     Some (drop_bit 8 (ntohl (signed_take_bit 23 lost))) }"

definition setLostPackets :: "buffer \<Rightarrow> u32 \<Rightarrow> buffer option" where
  "setLostPackets m lost = wr24 m 13 (drop_bit 8 (htonl lost))"

definition getHighestSeqnum :: "buffer \<Rightarrow> u32 option" where
  "getHighestSeqnum m = map_option ntohl (rd32 m 16)"

definition setHighestSeqnum :: "buffer \<Rightarrow> u32 \<Rightarrow> buffer option" where
  "setHighestSeqnum m highest = wr32 m 16 (htonl highest)"

definition getJitter :: "buffer \<Rightarrow> u32 option" where
  "getJitter m = map_option ntohl (rd32 m 20)"

definition setJitter :: "buffer \<Rightarrow> u32 \<Rightarrow> buffer option" where
  "setJitter m jitter = wr32 m 20 (htonl jitter)"

definition getLastSr :: "buffer \<Rightarrow> u32 option" where
  "getLastSr m = map_option ntohl (rd32 m 24)"

definition setLastSr :: "buffer \<Rightarrow> u32 \<Rightarrow> buffer option" where
  "setLastSr m lastsr = wr32 m 24 (htonl lastsr)"

definition getDelaySinceLastSr :: "buffer \<Rightarrow> u32 option" where
  "getDelaySinceLastSr m = map_option ntohl (rd32 m 28)"

definition setDelaySinceLastSr :: "buffer \<Rightarrow> u32 \<Rightarrow> buffer option" where
  "setDelaySinceLastSr m delaylastsr = wr32 m 28 (htonl delaylastsr)"

definition getPacketsSent :: "buffer \<Rightarrow> u32 option" where
  "getPacketsSent m = map_option ntohl (rd32 m 20)"

definition setPacketsSent :: "buffer \<Rightarrow> u32 \<Rightarrow> buffer option" where
  "setPacketsSent m packetssent = wr32 m 20 (htonl packetssent)"

definition getOctetsSent :: "buffer \<Rightarrow> u32 option" where
  "getOctetsSent m = map_option ntohl (rd32 m 24)"

definition rd64 :: "buffer \<Rightarrow> nat \<Rightarrow> u64 option" where
  "rd64 m i = do { lo \<leftarrow> rd32 m i; hi \<leftarrow> rd32 m (i + 4); Some (ucast lo OR push_bit 32 (ucast hi)) }"

definition getNtpTimestamp :: "buffer \<Rightarrow> u64 option" where
  "getNtpTimestamp m = do {
     ntp \<leftarrow> rd64 m 8;
     Some (push_bit 32 (ucast (htonl (ucast ntp))) + ucast (htonl (ucast (drop_bit 32 ntp)))) }"

definition getNackPid :: "buffer \<Rightarrow> u16 option" where
  "getNackPid m = map_option ntohs (rd16 m 12)"

definition setNackPid :: "buffer \<Rightarrow> u16 \<Rightarrow> buffer option" where
  "setNackPid m pid = wr16 m 12 (htons pid)"

definition getNackBlp :: "buffer \<Rightarrow> u16 option" where
  "getNackBlp m = map_option ntohs (rd16 m 14)"

definition setNackBlp :: "buffer \<Rightarrow> u16 \<Rightarrow> buffer option" where
  "setNackBlp m blp = wr16 m 14 (htons blp)"

text \<open>
  The loop of \<open>setREMBBitRate\<close>.  A shift by 64 of a 64-bit value is undefined in C, so the
  setter is \<open>None\<close> when the loop leaves with \<open>exp = 64\<close>.
\<close>

function remb_exp_loop :: "u64 \<Rightarrow> u64 \<Rightarrow> nat \<Rightarrow> nat" where
  "remb_exp_loop bitRate max_v ex =
     (if max_v \<le> bitRate \<and> ex < 64 then remb_exp_loop bitRate (push_bit 1 max_v) (ex + 1) else ex)"
  by pat_completeness auto
termination
  by (relation "measure (\<lambda>(_, _, ex). 64 - ex)") auto

declare remb_exp_loop.simps [simp del]

definition remb_line :: "u64 \<Rightarrow> u32 option" where
  "remb_line bitRate =
     (let ex = remb_exp_loop bitRate 0x3FFFF 0 in
      if 64 \<le> ex then None
      else let mantissa = drop_bit ex bitRate AND 0x3FFFF;
               e = word_of_nat ex AND (0x3F :: u64)
           in Some (ucast (mantissa + push_bit 18 e)))"

definition setREMBBitRate :: "buffer \<Rightarrow> u64 \<Rightarrow> buffer option" where
  "setREMBBitRate m bitRate = do {
     line \<leftarrow> remb_line bitRate;
     wr24 m 17 (drop_bit 8 (htonl line)) }"

definition getBrExp :: "buffer \<Rightarrow> u32 option" where
  "getBrExp m = do { brLength \<leftarrow> rd24 m 17; Some (drop_bit 26 (ntohl brLength)) }"

definition getBrMantis :: "buffer \<Rightarrow> u32 option" where
  "getBrMantis m = do { brLength \<leftarrow> rd24 m 17; Some (drop_bit 8 (ntohl brLength) AND 0x3ffff) }"

definition getREMBNumSSRC :: "buffer \<Rightarrow> u8 option" where
  "getREMBNumSSRC m = rd8 m 16"

definition setREMBNumSSRC :: "buffer \<Rightarrow> u8 \<Rightarrow> buffer option" where
  "setREMBNumSSRC m num = wr8 m 16 num"

definition getREMBFeedSSRC :: "buffer \<Rightarrow> u32 option" where
  "getREMBFeedSSRC m = map_option ntohl (rd32 m 20)"

definition setREMBFeedSSRC :: "buffer \<Rightarrow> u32 \<Rightarrow> buffer option" where
  "setREMBFeedSSRC m ssrc = wr32 m 20 (htonl ssrc)"

definition getFCI :: "buffer \<Rightarrow> u32 option" where
  "getFCI m = map_option ntohl (rd32 m 12)"

definition setFCI :: "buffer \<Rightarrow> u32 \<Rightarrow> buffer option" where
  "setFCI m fci = wr32 m 12 (htonl fci)"

section \<open>RedHeader\<close>

definition red_tsLength :: "buffer \<Rightarrow> u32 option" where
  "red_tsLength m = rd24 m 1"

definition red_getTS :: "buffer \<Rightarrow> u32 option" where
  "red_getTS m = do { ts \<leftarrow> red_tsLength m; Some (drop_bit 18 (ntohl ts AND 0xfffc0000)) }"

definition red_getLength :: "buffer \<Rightarrow> u32 option" where
  "red_getLength m = do { ts \<leftarrow> red_tsLength m; Some (ntohl ts AND 0x3ff00) }"

lemmas [field_defs] =
  getBlockCount_def setBlockCount_def getPacketType_def setPacketType_def rtcp_getLength_def
  rtcp_setLength_def rtcp_getSSRC_def rtcp_setSSRC_def getSourceSSRC_def setSourceSSRC_def
  getFractionLost_def setFractionLost_def getHighestSeqnum_def setHighestSeqnum_def
  getJitter_def setJitter_def getLastSr_def setLastSr_def getDelaySinceLastSr_def
  setDelaySinceLastSr_def getPacketsSent_def setPacketsSent_def getOctetsSent_def
  getNackPid_def setNackPid_def getNackBlp_def setNackBlp_def getREMBNumSSRC_def
  setREMBNumSSRC_def getREMBFeedSSRC_def setREMBFeedSSRC_def getFCI_def setFCI_def

section \<open>Lemmas\<close>

subsection \<open>24-bit fields\<close>

lemma le24_no_bit [simp]: "\<not> bit (le24 a b c) (24 + n)"
  by (simp add: le24_def bit_simps u8_no_bit)

lemma le24_eq_le32: "le24 a b c = le32 a b c 0"
  by (simp add: le24_def le32_def)

lemma wr24_length: "wr24 m i w = Some m' \<Longrightarrow> length m' = length m"
  by (auto simp: wr24_def split: if_splits)

lemma rd24_wr24: "wr24 m i w = Some m' \<Longrightarrow> rd24 m' i = Some (take_bit 24 w)"
proof -
  have "le24 (byte 0 w) (byte (Suc 0) w) (byte 2 w) = take_bit 24 w" (is "?l = ?r")
  proof (rule bit_word_eqI)
    fix n assume "n < LENGTH(32)"
    then have "n < 8 \<or> (\<exists>k<8. n = 8 + k) \<or> (\<exists>k<8. n = 16 + k) \<or> (\<exists>k<8. n = 24 + k)"
      by simp presburger
    then show "bit ?l n = bit ?r n"
      by (elim disjE exE conjE) (simp_all add: byte_def le24_def bit_simps)
  qed
  moreover assume "wr24 m i w = Some m'"
  ultimately show ?thesis
    by (auto simp: wr24_def rd24_def nth_list_update split: if_splits)
qed

text \<open>The sign extension of \<open>lost\<close> lands in the byte that the shift discards.\<close>

lemma swap_signed_24: "drop_bit 8 (ntohl (signed_take_bit 23 (le24 a b c))) = le24 c b a"
proof -
  let ?w = "signed_take_bit 23 (le24 a b c)"
  have "byte 0 ?w = a" "byte 1 ?w = b" "byte 2 ?w = c"
    by (auto intro!: bit_word_eqI simp: byte_def le24_def bit_simps u8_no_bit)
  then show ?thesis
    by (auto intro!: bit_word_eqI simp: ntohl_def le32_def le24_def bit_simps u8_no_bit)
qed

subsection \<open>The REMB exponent loop\<close>

lemma remb_exp_loop_spec:
  assumes "ex \<le> 64" and "max_v = push_bit ex 0x3FFFF"
  shows "ex \<le> remb_exp_loop b max_v ex \<and> remb_exp_loop b max_v ex \<le> 64
    \<and> (\<forall>i. ex \<le> i \<and> i < remb_exp_loop b max_v ex \<longrightarrow> push_bit i 0x3FFFF \<le> b)
    \<and> (remb_exp_loop b max_v ex < 64 \<longrightarrow> b < push_bit (remb_exp_loop b max_v ex) 0x3FFFF)"
  using assms
proof (induction b max_v ex rule: remb_exp_loop.induct)
  case (1 b max_v ex)
  show ?case
  proof (cases "max_v \<le> b \<and> ex < 64")
    case True
    let ?r = "remb_exp_loop b (push_bit 1 max_v) (ex + 1)"
    have IH: "ex + 1 \<le> ?r \<and> ?r \<le> 64 \<and> (\<forall>i. ex + 1 \<le> i \<and> i < ?r \<longrightarrow> push_bit i 0x3FFFF \<le> b)
        \<and> (?r < 64 \<longrightarrow> b < push_bit ?r 0x3FFFF)"
      using True 1 by (simp add: push_bit_push_bit add.commute)
    have all: "\<forall>i. ex \<le> i \<and> i < ?r \<longrightarrow> push_bit i 0x3FFFF \<le> b"
    proof (intro allI impI)
      fix i assume "ex \<le> i \<and> i < ?r"
      then show "push_bit i 0x3FFFF \<le> b"
        using IH True 1(3) by (cases "i = ex") simp_all
    qed
    have "remb_exp_loop b max_v ex = ?r" using True by (subst remb_exp_loop.simps) simp
    with IH all show ?thesis by simp
  next
    case False
    then have "remb_exp_loop b max_v ex = ex" by (subst remb_exp_loop.simps) auto
    moreover have "ex < 64 \<Longrightarrow> b < push_bit ex 0x3FFFF"
      using False 1(3) by (simp add: linorder_not_le)
    ultimately show ?thesis using 1(2) by simp
  qed
qed

abbreviation remb_exp :: "u64 \<Rightarrow> nat" where
  "remb_exp b \<equiv> remb_exp_loop b 0x3FFFF 0"

lemmas remb_exp_facts = remb_exp_loop_spec [of 0 "0x3FFFF", simplified]

lemma unat_push_max: "ex \<le> 46 \<Longrightarrow> unat (push_bit ex (0x3FFFF :: u64)) = 0x3FFFF * 2 ^ ex"
proof -
  assume "ex \<le> 46"
  then have "(0x3FFFF :: nat) * 2 ^ ex \<le> 0x3FFFF * 2 ^ 46"
    by (intro mult_le_mono power_increasing) auto
  then show ?thesis
    using unat_push_bit_small [of "0x3FFFF :: u64" ex] by simp
qed

lemma remb_exp_le_46:
  assumes "unat b < 0x3FFFF * 2 ^ 46"
  shows "remb_exp b \<le> 46"
proof (rule ccontr)
  assume "\<not> remb_exp b \<le> 46"
  then have "push_bit 46 0x3FFFF \<le> b" using remb_exp_facts [of b] by (metis linorder_not_le)
  then have "unat (push_bit 46 (0x3FFFF :: u64)) \<le> unat b" by (simp only: word_le_nat_alt)
  then show False using assms by (simp only: unat_push_max [OF order_refl])
qed

lemma remb_exp_bounds:
  assumes "unat b < 0x3FFFF * 2 ^ 46"
  shows "unat b < 0x3FFFF * 2 ^ remb_exp b"
    and "remb_exp b \<noteq> 0 \<Longrightarrow> 0x3FFFF * 2 ^ (remb_exp b - 1) \<le> unat b"
proof -
  have le: "remb_exp b \<le> 46" by (rule remb_exp_le_46 [OF assms])
  then have "b < push_bit (remb_exp b) 0x3FFFF" using remb_exp_facts [of b] by auto
  then show "unat b < 0x3FFFF * 2 ^ remb_exp b"
    using le by (simp add: word_less_nat_alt unat_push_max)
  assume "remb_exp b \<noteq> 0"
  then have "push_bit (remb_exp b - 1) 0x3FFFF \<le> b" using remb_exp_facts [of b] by auto
  moreover have "unat (push_bit (remb_exp b - 1) (0x3FFFF :: u64)) = 0x3FFFF * 2 ^ (remb_exp b - 1)"
    using le by (intro unat_push_max) simp
  ultimately show "0x3FFFF * 2 ^ (remb_exp b - 1) \<le> unat b"
    by (simp add: word_le_nat_alt)
qed

lemma unat_and_mask18: "unat ((x :: u64) AND 0x3FFFF) = unat x mod 2 ^ 18"
  using unat_take_bit_mod [of 18 x] by (simp add: take_bit_eq_mask mask_eq_exp_minus_1)

lemma unat_and_mask6: "unat ((x :: u64) AND 0x3F) = unat x mod 2 ^ 6"
  using unat_take_bit_mod [of 6 x] by (simp add: take_bit_eq_mask mask_eq_exp_minus_1)

text \<open>The packed word: six bits of exponent above eighteen bits of mantissa.\<close>

lemma remb_line_value:
  assumes "unat b < 0x3FFFF * 2 ^ 46"
  shows "\<exists>line. remb_line b = Some line
    \<and> unat line = unat b div 2 ^ remb_exp b + 2 ^ 18 * remb_exp b
    \<and> unat b div 2 ^ remb_exp b < 2 ^ 18"
proof -
  let ?e = "remb_exp b" and ?m = "unat b div 2 ^ remb_exp b"
  have e: "?e \<le> 46" by (rule remb_exp_le_46 [OF assms])
  have m: "?m < 0x3FFFF"
    using remb_exp_bounds(1) [OF assms] by (simp add: less_mult_imp_div_less)
  let ?M = "drop_bit ?e b AND 0x3FFFF" and ?E = "word_of_nat ?e AND (0x3F :: u64)"
  have uM: "unat ?M = ?m" using m by (simp add: unat_and_mask18 unat_drop_bit_div)
  have "unat (word_of_nat ?e :: u64) = ?e" using e by (simp add: unat_of_nat)
  then have uE: "unat ?E = ?e" using e by (simp add: unat_and_mask6)
  have uP: "unat (push_bit 18 ?E) = ?e * 2 ^ 18"
    using unat_push_bit_small [of ?E 18] uE e by simp
  have "unat (?M + push_bit 18 ?E) = ?m + ?e * 2 ^ 18"
    using uM uP m e by (simp add: unat_word_ariths)
  then have "unat (ucast (?M + push_bit 18 ?E) :: u32) = ?m + 2 ^ 18 * ?e"
    using m e by (simp add: unat_ucast_mod)
  moreover have "remb_line b = Some (ucast (?M + push_bit 18 ?E))"
    using e by (simp add: remb_line_def Let_def)
  ultimately show ?thesis using m by auto
qed

lemma swap24_push: "ntohl (take_bit 24 (drop_bit 8 (ntohl w))) = push_bit 8 w"
proof -
  have drop: "take_bit 24 (drop_bit 8 (le32 d c b a)) = le32 c b a 0"
    and push: "push_bit 8 (le32 a b c d) = le32 0 a b c" for a b c d
    by (auto intro!: bit_word_eqI simp: le32_def bit_simps u8_no_bit less_diff_conv2)
  let ?b = "\<lambda>k. byte k w"
  have "w = le32 (?b 0) (?b (Suc 0)) (?b 2) (?b 3)" by simp
  then obtain a b c d where w: "w = le32 a b c d" by blast
  show ?thesis by (simp add: w drop push)
qed

lemma remb_fields:
  assumes "setREMBBitRate m b = Some m'" and "remb_line b = Some line"
  shows "getBrExp m' = Some (take_bit 6 (drop_bit 18 line))"
    and "getBrMantis m' = Some (take_bit 18 line)"
proof -
  have rd: "rd24 m' 17 = Some (take_bit 24 (drop_bit 8 (ntohl line)))"
    using assms by (auto simp: setREMBBitRate_def intro: rd24_wr24)
  have "drop_bit 26 (push_bit 8 line) = take_bit 6 (drop_bit 18 line)"
    by (auto intro!: bit_word_eqI simp: bit_simps dest: bit_imp_le_length)
  then show "getBrExp m' = Some (take_bit 6 (drop_bit 18 line))"
    by (simp add: getBrExp_def rd swap24_push)
  have "drop_bit 8 (push_bit 8 line) AND mask 18 = take_bit 18 line"
    by (auto intro!: bit_word_eqI simp: bit_simps dest: bit_imp_le_length)
  then show "getBrMantis m' = Some (take_bit 18 line)"
    by (simp add: getBrMantis_def rd swap24_push mask_eq_exp_minus_1)
qed

text \<open>
  \<open>setREMBBitRate\<close> followed by the getters \<open>getBrExp\<close> and \<open>getBrMantis\<close>: for
  every bitrate below 0x3FFFF * 2^46 the call is defined, the decoded pair brackets the
  bitrate within one unit of the mantissa (the encoding rounds down), and the exponent is
  the smallest one that makes the mantissa fit.
\<close>

theorem remb_bitrate_roundtrip:
  assumes "20 \<le> length m" and "unat b < 0x3FFFF * 2 ^ 46"
  shows "\<exists>m' e mant. setREMBBitRate m b = Some m' \<and> getBrExp m' = Some e \<and> getBrMantis m' = Some mant
    \<and> unat mant * 2 ^ unat e \<le> unat b \<and> unat b < (unat mant + 1) * 2 ^ unat e
    \<and> (unat e = 0 \<or> 0x3FFFF * 2 ^ (unat e - 1) \<le> unat b)"
proof -
  let ?e = "remb_exp b"
  obtain line where line: "remb_line b = Some line"
    and ul: "unat line = unat b div 2 ^ ?e + 2 ^ 18 * ?e" and small: "unat b div 2 ^ ?e < 2 ^ 18"
    using remb_line_value [OF assms(2)] by blast
  have e46: "?e \<le> 46" by (rule remb_exp_le_46 [OF assms(2)])
  have "wr24 m 17 (drop_bit 8 (ntohl line)) \<noteq> None"
    using assms(1) by (simp add: wr24_def)
  then obtain m' where m': "setREMBBitRate m b = Some m'"
    using line by (auto simp: setREMBBitRate_def)
  have e: "unat (take_bit 6 (drop_bit 18 line)) = ?e"
    using small e46 by (simp only: unat_take_bit_mod unat_drop_bit_div ul) simp
  have mant: "unat (take_bit 18 line) = unat b div 2 ^ ?e"
    using small by (simp only: unat_take_bit_mod ul) simp
  have "unat b < (unat b div 2 ^ ?e + 1) * 2 ^ ?e"
    using dividend_less_div_times [of "2 ^ ?e" "unat b"] by (simp add: algebra_simps)
  then show ?thesis
    using m' remb_fields [OF m' line] e mant remb_exp_bounds(2) [OF assms(2)]
    by (auto simp: div_times_less_eq_dividend)
qed

theorem remb_bitrate_roundtrip_witness:
  "\<exists>m' e mant. setREMBBitRate (replicate 24 0) 512000 = Some m' \<and> getBrExp m' = Some e
    \<and> getBrMantis m' = Some mant \<and> unat mant * 2 ^ unat e \<le> 512000
    \<and> 512000 < (unat mant + 1) * 2 ^ unat e
    \<and> (unat e = 0 \<or> 0x3FFFF * 2 ^ (unat e - 1) \<le> (512000 :: nat))"
  using remb_bitrate_roundtrip [of "replicate 24 0" 512000] by simp

subsection \<open>Derived header values\<close>

text \<open>
  RFC 3550, section 5.3.1: the extension header follows the CSRC list; its length field
  counts 32-bit words and is the second half of its first word.
\<close>

definition rfc3550_header_length :: "buffer \<Rightarrow> nat" where
  "rfc3550_header_length m =
     (let csrcs = unat (bits 0 4 (m ! 0)); ext_at = 12 + 4 * csrcs
      in if bits 4 1 (m ! 0) = 0 then ext_at
         else ext_at + 4 + 4 * unat (le16 (m ! (ext_at + 3)) (m ! (ext_at + 2))))"

lemma bits_1_cases: "bits lo 1 w = 0 \<or> bits lo 1 w = 1"
  by (simp add: bits_def take_bit_eq_mod mod_2_eq_odd)

lemma getHeaderLength_Some:
  assumes "16 \<le> length m"
  shows "getHeaderLength m = Some (12 + unat (bits 0 4 (m ! 0)) * 4
    + unat (bits 4 1 (m ! 0)) * (4 + unat (le16 (m ! 15) (m ! 14)) * 4))"
proof -
  have "rd8 m 0 = Some (m ! 0)" using assms by (intro rd_defined) linarith
  then show ?thesis
    using assms by (simp add: getHeaderLength_def field_defs MIN_SIZE_def rd16_def)
qed

text \<open>
  For a packet without CSRC entries \<open>RtpHeader::getHeaderLength\<close> is the header
  length that RFC 3550 defines, with and without a header extension.
\<close>

theorem header_length_rfc3550:
  assumes "16 \<le> length m" and "rtp_cc m = Some 0"
  shows "getHeaderLength m = Some (rfc3550_header_length m)"
proof -
  have "rd8 m 0 = Some (m ! 0)" using assms(1) by (intro rd_defined) linarith
  then have "bits 0 4 (m ! 0) = 0" using assms(2) by (simp add: rtp_cc_def)
  then show ?thesis
    using assms(1) bits_1_cases [of 4 "m ! 0"]
    by (auto simp: getHeaderLength_Some rfc3550_header_length_def Let_def)
qed

theorem header_length_rfc3550_witness:
  "getHeaderLength (0x90 # replicate 14 0 @ [1]) = Some (rfc3550_header_length (0x90 # replicate 14 0 @ [1]))"
  by (rule header_length_rfc3550) (simp_all add: rtp_cc_def bits_def)

text \<open>
  With CSRC entries the extension length is read at the fixed offset 14, which then lies
  inside of the CSRC list: here the first CSRC is 0x00000005 and the extension is empty.
\<close>

theorem header_length_csrc_mismatch:
  "getHeaderLength ([0x91, 96] @ replicate 13 0 @ [5] @ replicate 4 0) = Some 40
   \<and> rfc3550_header_length ([0x91, 96] @ replicate 13 0 @ [5] @ replicate 4 0) = 20"
  by code_simp

text \<open>
  The cumulative loss counter: \<open>setLostPackets\<close> then \<open>getLostPackets\<close> returns the
  low 24 bits of the value, whatever its sign bit, and the fraction byte in front of the
  field keeps its value.
\<close>

theorem lost_packets_roundtrip:
  assumes "setLostPackets m lost = Some m'"
  shows "getLostPackets m' = Some (take_bit 24 lost) \<and> getFractionLost m' = getFractionLost m"
proof -
  have m': "16 \<le> length m" "m' = m[13 := byte 0 (drop_bit 8 (ntohl lost)),
      14 := byte 1 (drop_bit 8 (ntohl lost)), 15 := byte 2 (drop_bit 8 (ntohl lost))]"
    using assms by (auto simp: setLostPackets_def wr24_def split: if_splits)
  have bytes: "byte 0 (drop_bit 8 (ntohl lost)) = byte 2 lost"
    "byte 1 (drop_bit 8 (ntohl lost)) = byte 1 lost" "byte 2 (drop_bit 8 (ntohl lost)) = byte 0 lost"
    by (auto intro!: bit_word_eqI simp: byte_def ntohl_def le32_def bit_simps u8_no_bit)
  have "le24 (byte 0 lost) (byte 1 lost) (byte 2 lost) = take_bit 24 lost"
    using rd24_wr24 [of "[0, 0, 0]" 0 lost] by (simp add: wr24_def rd24_def numeral_nat)
  then show ?thesis
    using m'(1) unfolding m'(2) bytes
    by (simp add: getLostPackets_def rd24_def swap_signed_24 getFractionLost_def)
qed

theorem lost_packets_roundtrip_witness:
  "getLostPackets ((replicate 32 0)[13 := 0x80, 14 := 1, 15 := 2]) = Some (take_bit 24 0xFF800102)
   \<and> getFractionLost ((replicate 32 0)[13 := 0x80, 14 := 1, 15 := 2]) = getFractionLost (replicate 32 0)"
proof -
  have "setLostPackets (replicate 32 0) 0xFF800102 = Some ((replicate 32 0)[13 := 0x80, 14 := 1, 15 := 2])"
    by code_simp
  from lost_packets_roundtrip [OF this] show ?thesis by simp
qed

text \<open>
  The RED block length is the low ten bits of the 24-bit field (RFC 2198).  The getter
  masks the byte-swapped word but does not shift it back, so its result is 256 times the
  block length; \<open>getTS\<close> does shift.
\<close>

definition red_block_length :: "buffer \<Rightarrow> nat" where
  "red_block_length m = unat (le16 (m ! 3) (m ! 2)) mod 2 ^ 10"

theorem red_getLength_not_shifted:
  "red_getLength [0x80, 0, 0, 5] = Some 1280 \<and> red_block_length [0x80, 0, 0, 5] = 5"
  by code_simp

end
