(* ===== verification/Seq_Number.thy ===== *)
theory Seq_Number
  imports Orbit_Prelude
begin

text \<open>
  Sequence numbers are 16-bit counters that wrap around.  The code has three tests on them:
  \<open>RtpPacketQueue::rtpSequenceLessThan\<close>, the comparator of \<open>RtpPacketBuffer\<close>'s priority queue
  and \<open>janus_seq_in_range\<close>.  The theory shows that each is the modular distance test it means
  to be, and proves once, in the locale \<open>serial_window\<close>, what such a test is good for: it is
  not an order on all sequence numbers, but it is a strict linear order on every window of
  0x8000 consecutive numbers.
\<close>

section \<open>The three tests\<close>

definition rtpSequenceLessThan :: "u16 \<Rightarrow> u16 \<Rightarrow> bool" where
  "rtpSequenceLessThan x y =
     (let diff = uint y - uint x
      in if diff > 0 then diff < 0x8000
         else if diff < 0 then diff < - 0x8000
         else False)"

definition dataPacketComparator :: "u16 \<Rightarrow> u16 \<Rightarrow> bool" where
  "dataPacketComparator x y =
     (let diff = uint x - uint y
      in if diff > 0 then diff < 0x8000
         else if diff < 0 then diff < - 0x8000
         else False)"

definition janus_seq_in_range :: "u16 \<Rightarrow> u16 \<Rightarrow> u16 \<Rightarrow> bool" where
  "janus_seq_in_range seqn start len =
     (let n = uint seqn; nh = 2 ^ 16 + n; s = uint start; e = s + uint len
      in (s \<le> n \<and> n < e) \<or> (s \<le> nh \<and> nh < e))"

text \<open>
  \<open>SEQ_MISSING_WAIT\<close> of \<open>janus_rtcp_defines.h\<close>, in microseconds: how long a gap may be a
  reordering before it counts as a loss.
\<close>

definition SEQ_MISSING_WAIT :: int where "SEQ_MISSING_WAIT = 12000"

section \<open>Modular distance\<close>

text \<open>\<open>ahead x y\<close>: how many increments lead from \<open>x\<close> to \<open>y\<close>.\<close>

definition ahead :: "u16 \<Rightarrow> u16 \<Rightarrow> nat" where
  "ahead x y = unat (y - x)"

lemma ahead_int: "int (ahead x y) = (uint y - uint x) mod 2 ^ 16"
  by (simp add: ahead_def uint_word_ariths flip: uint_nat)

lemma uint_u16_bounds: "0 \<le> uint (x :: u16)" "uint (x :: u16) < 65536"
  using uint_lt2p [of x] by simp_all

lemma mod_diff_65536:
  "0 \<le> a \<Longrightarrow> a < 65536 \<Longrightarrow> 0 \<le> b \<Longrightarrow> b < (65536 :: int) \<Longrightarrow>
    (b - a) mod 65536 = (if a \<le> b then b - a else b - a + 65536)"
proof (cases "a \<le> b")
  case False
  assume "0 \<le> a" "a < 65536" "0 \<le> b" "b < 65536"
  then have "(b - a + 65536) mod 65536 = b - a + 65536"
    using False by (intro mod_pos_pos_trivial) linarith+
  then show ?thesis using False by simp
qed (simp add: mod_pos_pos_trivial)

lemma ahead_cases:
  "int (ahead x y) = (if uint x \<le> uint y then uint y - uint x else uint y - uint x + 65536)"
  using mod_diff_65536 [OF uint_u16_bounds uint_u16_bounds] by (simp add: ahead_int)

lemma ahead_lt: "ahead x y < 65536"
proof -
  have "int (ahead x y) < 65536" by (simp add: ahead_int)
  then show ?thesis by linarith
qed

lemma ahead_self [simp]: "ahead x x = 0"
  by (simp add: ahead_def)

lemma ahead_eq_0 [simp]: "ahead x y = 0 \<longleftrightarrow> x = y"
  by (auto simp: ahead_def unat_eq_0)

lemma ahead_inj: "ahead b x = ahead b y \<longleftrightarrow> x = y"
proof
  assume "ahead b x = ahead b y"
  then have "x - b = y - b" by (simp add: ahead_def word_unat_eq_iff)
  then show "x = y" by simp
qed simp

lemma in_range_arith:
  "0 \<le> n \<Longrightarrow> n < 65536 \<Longrightarrow> 0 \<le> s \<Longrightarrow> s < 65536 \<Longrightarrow> 0 \<le> l \<Longrightarrow> l < (65536 :: int) \<Longrightarrow>
   ((s \<le> n \<and> n < s + l) \<or> (s \<le> 2 ^ 16 + n \<and> 2 ^ 16 + n < s + l)) =
   ((if s \<le> n then n - s else n - s + 65536) < l)"
  by auto

lemma seq_in_range_iff: "janus_seq_in_range seqn start len \<longleftrightarrow> ahead start seqn < unat len"
proof -
  have "janus_seq_in_range seqn start len \<longleftrightarrow> int (ahead start seqn) < uint len"
    unfolding janus_seq_in_range_def Let_def ahead_cases
    by (rule in_range_arith) (rule uint_u16_bounds)+
  then show ?thesis by (simp only: uint_nat of_nat_less_iff)
qed

text \<open>
  \<open>janus_seq_in_range\<close> holds exactly for the \<open>len\<close> sequence numbers that follow
  from \<open>start\<close> on, wrap-around included.
\<close>

theorem seq_in_range_ahead: "janus_seq_in_range seqn start len \<longleftrightarrow> ahead start seqn < unat len"
  by (rule seq_in_range_iff)

section \<open>The order on a window\<close>

text \<open>
  \<open>lt x y\<close> is the test of a component; \<open>in_window b x\<close> says that \<open>x\<close> is one of the 0x8000
  numbers from \<open>b\<close> on.
\<close>

definition in_window :: "u16 \<Rightarrow> u16 \<Rightarrow> bool" where
  "in_window b x \<longleftrightarrow> ahead b x < 0x8000"

locale serial_window =
  fixes lt :: "u16 \<Rightarrow> u16 \<Rightarrow> bool"
  assumes lt_serial: "lt x y \<longleftrightarrow> 0 < ahead x y \<and> ahead x y < 0x8000"
begin

lemma lt_irrefl: "\<not> lt x x"
  by (simp add: lt_serial)

lemma ahead_swap: "x \<noteq> y \<Longrightarrow> ahead x y + ahead y x = 65536"
proof -
  assume "x \<noteq> y"
  then have "uint x \<noteq> uint y" by (simp add: word_uint_eq_iff)
  then have "int (ahead x y) + int (ahead y x) = 65536"
    by (simp add: ahead_cases)
  then show ?thesis by linarith
qed

lemma lt_asym: "lt x y \<Longrightarrow> \<not> lt y x"
  using ahead_swap [of x y] by (auto simp: lt_serial)

lemma ahead_window:
  assumes "in_window b x" "in_window b y"
  shows "int (ahead x y) = (if ahead b x \<le> ahead b y then int (ahead b y) - int (ahead b x)
           else int (ahead b y) - int (ahead b x) + 65536)"
proof -
  have "0 \<le> uint x" "uint x < 65536" "0 \<le> uint y" "uint y < 65536" "0 \<le> uint b" "uint b < 65536"
    by (rule uint_u16_bounds)+
  then show ?thesis
    using assms ahead_cases [of b x] ahead_cases [of b y] ahead_cases [of x y]
    unfolding in_window_def
    by (cases "uint b \<le> uint x"; cases "uint b \<le> uint y"; cases "uint x \<le> uint y";
        cases "ahead b x \<le> ahead b y"; simp only: if_True if_False; linarith)
qed

lemma lt_window:
  assumes "in_window b x" "in_window b y"
  shows "lt x y \<longleftrightarrow> ahead b x < ahead b y"
  using ahead_window [OF assms] assms
  by (auto simp: lt_serial in_window_def split: if_splits)

lemma lt_window_linear:
  "in_window b x \<Longrightarrow> in_window b y \<Longrightarrow> lt x y \<or> x = y \<or> lt y x"
  using ahead_inj [of b x y] by (auto simp: lt_window)

lemma lt_window_trans:
  "in_window b x \<Longrightarrow> in_window b y \<Longrightarrow> in_window b z \<Longrightarrow> lt x y \<Longrightarrow> lt y z \<Longrightarrow> lt x z"
  by (simp add: lt_window)

end

lemma less_than_serial:
  "rtpSequenceLessThan x y \<longleftrightarrow> 0 < ahead x y \<and> ahead x y < 0x8000"
proof -
  have "rtpSequenceLessThan x y \<longleftrightarrow> 0 < int (ahead x y) \<and> int (ahead x y) < 0x8000"
    using uint_u16_bounds [of x] uint_u16_bounds [of y]
    unfolding rtpSequenceLessThan_def Let_def ahead_cases
    by (cases "uint x \<le> uint y"; simp only: if_True if_False; simp split: if_splits; linarith)
  then show ?thesis by simp
qed

lemma comparator_flip: "dataPacketComparator x y = rtpSequenceLessThan y x"
  by (simp add: dataPacketComparator_def rtpSequenceLessThan_def)

interpretation rq: serial_window rtpSequenceLessThan
  by unfold_locales (rule less_than_serial)

interpretation pb: serial_window "\<lambda>x y. dataPacketComparator y x"
  by unfold_locales (simp add: comparator_flip less_than_serial)

text \<open>
  On any 0x8000 consecutive sequence numbers, starting from any base and across
  the wrap-around, \<open>rtpSequenceLessThan\<close> is the order by distance from the base.
\<close>

theorem less_than_on_window:
  "in_window b x \<Longrightarrow> in_window b y \<Longrightarrow> rtpSequenceLessThan x y \<longleftrightarrow> ahead b x < ahead b y"
  by (rule rq.lt_window)

theorem less_than_on_window_witness:
  "rtpSequenceLessThan 65535 3 \<longleftrightarrow> ahead 65530 65535 < ahead 65530 3"
  by (rule less_than_on_window) (simp_all add: in_window_def ahead_def)

end
