(* ===== verification/Media_Definitions.thy ===== *)
theory Media_Definitions
  imports Orbit_Prelude
begin

text \<open>
  \<open>src/orbit/media_definitions.h\<close>: the packet types and the packet record that the RTP and
  RTCP components exchange.  \<open>data\<close> is an array of 1500 bytes; copying a payload into it
  with \<open>memcpy\<close> is undefined when the length is negative or does not fit.
\<close>

datatype packetType =
  VIDEO_PACKET | AUDIO_PACKET | VIDEO_RTX_PACKET | OTHER_PACKET | RETRANSMIT_PACKET | REMB_PACKET

record dataPacket =
  comp :: int
  data :: buffer
  pkt_length :: int
  pkt_type :: packetType
  remote_ntp_time_ms :: int
  arrival_time_ms :: int
  rtp_timestamp :: u32

definition DATA_SIZE :: nat where "DATA_SIZE = 1500"

text \<open>\<open>memcpy (dst, src, n)\<close> into an array: defined only inside of both objects.\<close>

definition memcpy :: "buffer \<Rightarrow> buffer \<Rightarrow> int \<Rightarrow> buffer option" where
  "memcpy dst src n =
     (if 0 \<le> n \<and> nat n \<le> length dst \<and> nat n \<le> length src
      then Some (take (nat n) src @ drop (nat n) dst) else None)"

text \<open>\<open>new dataPacket ()\<close>: zero-initialised storage, then the member initialisers.\<close>

definition dataPacket_new :: dataPacket where
  "dataPacket_new = \<lparr>comp = 0, data = replicate DATA_SIZE 0, pkt_length = 0, pkt_type = VIDEO_PACKET,
     remote_ntp_time_ms = -1, arrival_time_ms = -1, rtp_timestamp = -1\<rparr>"

lemma memcpy_Some:
  "memcpy dst src n = Some d \<longleftrightarrow>
    0 \<le> n \<and> nat n \<le> length dst \<and> nat n \<le> length src \<and> d = take (nat n) src @ drop (nat n) dst"
  by (auto simp: memcpy_def)

lemma memcpy_length: "memcpy dst src n = Some d \<Longrightarrow> length d = length dst"
  by (auto simp: memcpy_Some)

lemma memcpy_nth: "memcpy dst src n = Some d \<Longrightarrow> i < nat n \<Longrightarrow> d ! i = src ! i"
  by (auto simp: memcpy_Some nth_append)

end
