(* ===== verification/Reorder_Buffer.thy ===== *)
theory Reorder_Buffer
  imports Orbit_Prelude
begin

text \<open>
  The contract of a reordering buffer.  Clients push packets in the order in which the
  network delivers them and pop them in sequence order.  \<open>keys q\<close> lists the sort keys of
  the stored packets, next one to pop first.  \<open>filling q\<close> is the phase before the first pop:
  afterwards a buffer may refuse packets that come too late.  The client's lemma
  \<open>reorder\<close> is proved once from the laws; the packet queue and the video frame queue
  interpret the locale.
\<close>

fun push_all :: "('q \<Rightarrow> 'd \<Rightarrow> 'q option) \<Rightarrow> 'q \<Rightarrow> 'd list \<Rightarrow> 'q option" where
  "push_all push q [] = Some q"
| "push_all push q (d # ds) = do { q' \<leftarrow> push q d; push_all push q' ds }"

fun pop_all :: "('q \<Rightarrow> ('p option \<times> 'q) option) \<Rightarrow> nat \<Rightarrow> 'q \<Rightarrow> 'p list option" where
  "pop_all pop 0 q = Some []"
| "pop_all pop (Suc n) q =
     (case pop q of
        None \<Rightarrow> None
      | Some (None, q') \<Rightarrow> Some []
      | Some (Some p, q') \<Rightarrow> map_option ((#) p) (pop_all pop n q'))"

locale reorder_buffer =
  fixes push :: "'q \<Rightarrow> 'd \<Rightarrow> 'q option"
    and pop :: "'q \<Rightarrow> ('p option \<times> 'q) option"
    and invar :: "'q \<Rightarrow> bool"
    and filling :: "'q \<Rightarrow> bool"
    and keys :: "'q \<Rightarrow> nat list"
    and pkey :: "'p \<Rightarrow> nat"
    and dkey :: "'d \<Rightarrow> nat"
    and accepted :: "'d \<Rightarrow> bool"
  assumes push_law: "invar q \<Longrightarrow> filling q \<Longrightarrow> accepted d \<Longrightarrow>
      \<exists>q'. push q d = Some q' \<and> invar q' \<and> filling q' \<and> set (keys q') = insert (dkey d) (set (keys q))"
    and keys_sorted: "invar q \<Longrightarrow> sorted_wrt (<) (keys q)"
    and pop_law: "invar q \<Longrightarrow> keys q \<noteq> [] \<Longrightarrow>
      \<exists>p q'. pop q = Some (Some p, q') \<and> invar q' \<and> pkey p = hd (keys q) \<and> keys q' = tl (keys q)"
    and pop_empty: "invar q \<Longrightarrow> keys q = [] \<Longrightarrow> \<exists>q'. pop q = Some (None, q')"
begin

lemma push_all_keys:
  assumes "invar q" "filling q" "\<forall>d \<in> set ds. accepted d"
  shows "\<exists>q'. push_all push q ds = Some q' \<and> invar q' \<and> filling q'
    \<and> set (keys q') = dkey ` set ds \<union> set (keys q)"
  using assms
proof (induction ds arbitrary: q)
  case Nil
  then show ?case by simp
next
  case (Cons d ds)
  then obtain q1 where q1: "push q d = Some q1" "invar q1" "filling q1"
    "set (keys q1) = insert (dkey d) (set (keys q))"
    using push_law [of q d] by auto
  from Cons.IH [OF q1(2,3)] Cons.prems(3) obtain q2 where
    "push_all push q1 ds = Some q2" "invar q2" "filling q2" "set (keys q2) = dkey ` set ds \<union> set (keys q1)"
    by auto
  then show ?case using q1 by auto
qed

lemma pop_all_keys:
  assumes "invar q" "length (keys q) \<le> n"
  shows "\<exists>ps. pop_all pop n q = Some ps \<and> map pkey ps = keys q"
  using assms
proof (induction n arbitrary: q)
  case 0
  then show ?case by simp
next
  case (Suc n)
  show ?case
  proof (cases "keys q = []")
    case True
    then obtain q' where "pop q = Some (None, q')" using pop_empty Suc.prems(1) by blast
    then show ?thesis using True by simp
  next
    case False
    then obtain p q' where pq: "pop q = Some (Some p, q')" "invar q'" "pkey p = hd (keys q)"
      "keys q' = tl (keys q)"
      using pop_law Suc.prems(1) by blast
    have "length (keys q') \<le> n" using Suc.prems(2) pq(4) by simp
    from Suc.IH [OF pq(2) this] obtain ps where "pop_all pop n q' = Some ps" "map pkey ps = keys q'"
      by blast
    then show ?thesis using pq False by simp
  qed
qed

theorem reorder:
  assumes "invar q" "filling q" "keys q = []" "\<forall>d \<in> set ds. accepted d" "length ds \<le> n"
  shows "\<exists>q' ps. push_all push q ds = Some q' \<and> pop_all pop n q' = Some ps
    \<and> map pkey ps = sorted_list_of_set (dkey ` set ds)"
proof -
  obtain q' where q': "push_all push q ds = Some q'" "invar q'" "set (keys q') = dkey ` set ds"
    using push_all_keys [OF assms(1,2,4)] assms(3) by auto
  have srt: "sorted_wrt (<) (keys q')" by (rule keys_sorted [OF q'(2)])
  then have dist: "distinct (keys q')" by (simp add: strict_sorted_iff)
  then have len: "length (keys q') = card (dkey ` set ds)"
    using q'(3) distinct_card by metis
  moreover have "card (dkey ` set ds) \<le> card (set ds)" by (rule card_image_le) simp
  moreover have "card (set ds) \<le> length ds" by (rule card_length)
  ultimately have "length (keys q') \<le> n" using assms(5) by linarith
  then obtain ps where "pop_all pop n q' = Some ps" "map pkey ps = keys q'"
    using pop_all_keys [OF q'(2)] by blast
  moreover have "keys q' = sorted_list_of_set (dkey ` set ds)"
    using srt q'(3) by (metis sorted_list_of_set.idem_if_sorted_distinct strict_sorted_iff)
  ultimately show ?thesis using q'(1) by auto
qed

end

end
