(* ===== verification/Rtp_Packet_Queue.thy ===== *)
theory Rtp_Packet_Queue
  imports Seq_Number Rtp_Headers Media_Definitions Reorder_Buffer
begin

text \<open>
  \<open>RtpPacketQueue\<close> (\<open>src/orbit/rtp/rtp_packet_queue.{h,cc}\<close>): a reordering queue of RTP
  packets, newest sequence number at the front, oldest at the back.  Every public method
  holds the queue's mutex, so a method is one atomic step on the state.

  Queue depths are \<open>double\<close> values: the quotient of two 32-bit integers, rounded.  The
  rounding of the division is the parameter \<open>rnd\<close> of the definitions; every theorem holds
  for every \<open>rnd\<close>.  Removing from an empty \<open>std::list\<close> is undefined, hence \<open>None\<close>.
\<close>

record rtp_queue =
  queue :: "dataPacket list"
  lastSequenceNumberGiven :: int
  timebase :: u32
  depthInSeconds :: real
  maxDepthInSeconds :: real

definition DEFAULT_DEPTH :: real where "DEFAULT_DEPTH = 3"
definition DEFAULT_MAX :: real where "DEFAULT_MAX = 5"

definition RtpPacketQueue_new :: "real \<Rightarrow> real \<Rightarrow> rtp_queue" where
  "RtpPacketQueue_new depth max_depth =
     (let q = \<lparr>queue = [], lastSequenceNumberGiven = -1, timebase = 0,
               depthInSeconds = depth, maxDepthInSeconds = max_depth\<rparr>
      in if depth \<ge> max_depth
         then q\<lparr>depthInSeconds := DEFAULT_DEPTH, maxDepthInSeconds := DEFAULT_MAX\<rparr> else q)"

definition IsEmpty :: "rtp_queue \<Rightarrow> bool" where
  "IsEmpty q = (queue q = [])"

definition getSize :: "rtp_queue \<Rightarrow> nat" where
  "getSize q = length (queue q)"

definition setTimebase :: "rtp_queue \<Rightarrow> u32 \<Rightarrow> rtp_queue" where
  "setTimebase q tb = q\<lparr>timebase := tb\<rparr>"

definition getDepthInSeconds :: "(real \<Rightarrow> real) \<Rightarrow> rtp_queue \<Rightarrow> real option" where
  "getDepthInSeconds rnd q =
     (if timebase q > 0 \<and> length (queue q) > 1
      then do {
        oldest \<leftarrow> getTimestamp (data (last (queue q)));
        newest \<leftarrow> getTimestamp (data (hd (queue q)));
        Some (rnd (real (unat (newest - oldest)) / real (unat (timebase q)))) }
      else Some 0)"

definition hasData :: "(real \<Rightarrow> real) \<Rightarrow> rtp_queue \<Rightarrow> bool option" where
  "hasData rnd q = map_option (\<lambda>d. d > depthInSeconds q) (getDepthInSeconds rnd q)"

definition depth_reached :: "(real \<Rightarrow> real) \<Rightarrow> rtp_queue \<Rightarrow> bool \<Rightarrow> bool option" where
  "depth_reached rnd q ignore_depth =
     (if ignore_depth then Some True
      else map_option (\<lambda>d. d > depthInSeconds q) (getDepthInSeconds rnd q))"

text \<open>The scan of \<open>pushPacket\<close>: stop at a duplicate, insert before the first older packet,
  append when the end is reached.\<close>

fun push_scan :: "u16 \<Rightarrow> dataPacket \<Rightarrow> dataPacket list \<Rightarrow> dataPacket list option" where
  "push_scan cur p [] = Some [p]"
| "push_scan cur p (h # t) = do {
     sequenceNumber \<leftarrow> getSeqNumber (data h);
     if sequenceNumber = cur then Some (h # t)
     else if rtpSequenceLessThan sequenceNumber cur then Some (p # h # t)
     else map_option ((#) h) (push_scan cur p t) }"

text \<open>\<open>while (getDepthInSeconds () > maxDepthInSeconds_) queue_.pop_back ()\<close>.\<close>

function enforce_max :: "(real \<Rightarrow> real) \<Rightarrow> rtp_queue \<Rightarrow> rtp_queue option" where
  "enforce_max rnd q =
     (case getDepthInSeconds rnd q of None \<Rightarrow> None
      | Some d \<Rightarrow>
          if d > maxDepthInSeconds q
          then if queue q = [] then None else enforce_max rnd (q\<lparr>queue := butlast (queue q)\<rparr>)
          else Some q)"
  by pat_completeness auto
termination
  by (relation "measure (\<lambda>(_, q). length (queue q))") auto

declare enforce_max.simps [simp del]

text \<open>The guard of \<open>pushPacket\<close>; the C expression \<open>(uint16_t) last - 50\<close> is an \<open>int\<close> that the
  call converts back to 16 bits.\<close>

definition too_late :: "rtp_queue \<Rightarrow> u16 \<Rightarrow> bool" where
  "too_late q cur \<longleftrightarrow>
     lastSequenceNumberGiven q \<ge> 0
     \<and> (rtpSequenceLessThan cur (word_of_int (uint (word_of_int (lastSequenceNumberGiven q) :: u16) - 50))
        \<or> uint cur = lastSequenceNumberGiven q)"

definition pushPacket :: "(real \<Rightarrow> real) \<Rightarrow> rtp_queue \<Rightarrow> buffer \<Rightarrow> int \<Rightarrow> rtp_queue option" where
  "pushPacket rnd q dat len = do {
     cur \<leftarrow> getSeqNumber dat;
     if too_late q cur then Some q
     else do {
       bytes \<leftarrow> memcpy (data dataPacket_new) dat len;
       q' \<leftarrow> push_scan cur (dataPacket_new\<lparr>data := bytes, pkt_length := len\<rparr>) (queue q);
       enforce_max rnd (q\<lparr>queue := q'\<rparr>) } }"

definition popPacket ::
    "(real \<Rightarrow> real) \<Rightarrow> rtp_queue \<Rightarrow> bool \<Rightarrow> bool \<Rightarrow> (dataPacket option \<times> rtp_queue) option" where
  "popPacket rnd q ignore_depth ignore_old_packet =
     (if length (queue q) > 0
      then do {
        ready \<leftarrow> depth_reached rnd q ignore_depth;
        if ready
        then let packet = last (queue q); q' = q\<lparr>queue := butlast (queue q)\<rparr> in do {
          s \<leftarrow> getSeqNumber (data packet);
          if ignore_old_packet
             \<and> rtpSequenceLessThan s (word_of_int (lastSequenceNumberGiven q))
          then Some (None, q')
          else Some (Some packet, q'\<lparr>lastSequenceNumberGiven := uint s\<rparr>) }
        else Some (None, q) }
      else Some (None, q))"

definition getNextPacket ::
    "(real \<Rightarrow> real) \<Rightarrow> rtp_queue \<Rightarrow> bool \<Rightarrow> (dataPacket option \<times> rtp_queue) option" where
  "getNextPacket rnd q ignore_depth =
     (if length (queue q) > 0
      then do {
        ready \<leftarrow> depth_reached rnd q ignore_depth;
        if ready
        then do {
          s \<leftarrow> getSeqNumber (data (last (queue q)));
          Some (Some (last (queue q)), q\<lparr>lastSequenceNumberGiven := uint s\<rparr>) }
        else Some (None, q) }
      else Some (None, q))"

section \<open>Well-formed queues\<close>

definition seq_of :: "dataPacket \<Rightarrow> u16" where
  "seq_of p = le16 (data p ! 3) (data p ! 2)"

definition pkt_wf :: "dataPacket \<Rightarrow> bool" where
  "pkt_wf p \<longleftrightarrow> length (data p) = DATA_SIZE"

definition queue_wf :: "rtp_queue \<Rightarrow> bool" where
  "queue_wf q \<longleftrightarrow> (\<forall>p \<in> set (queue q). pkt_wf p)"

lemma getSeqNumber_bytes: "4 \<le> length m \<Longrightarrow> getSeqNumber m = Some (le16 (m ! 3) (m ! 2))"
  by (simp add: getSeqNumber_def rd16_def)

lemma getSeqNumber_wf: "pkt_wf p \<Longrightarrow> getSeqNumber (data p) = Some (seq_of p)"
  by (simp add: pkt_wf_def DATA_SIZE_def seq_of_def getSeqNumber_bytes)

lemma getTimestamp_wf: "pkt_wf p \<Longrightarrow> \<exists>t. getTimestamp (data p) = Some t"
  by (simp add: pkt_wf_def DATA_SIZE_def getTimestamp_def rd32_def)

lemma pushed_packet:
  assumes "memcpy (data dataPacket_new) dat len = Some bytes" and "4 \<le> len"
  shows "pkt_wf (dataPacket_new\<lparr>data := bytes, pkt_length := len\<rparr>)"
    and "seq_of (dataPacket_new\<lparr>data := bytes, pkt_length := len\<rparr>) = le16 (dat ! 3) (dat ! 2)"
  using assms memcpy_length [OF assms(1)] memcpy_nth [OF assms(1), of 2] memcpy_nth [OF assms(1), of 3]
  by (simp_all add: pkt_wf_def seq_of_def dataPacket_new_def)

lemma depth_defined:
  assumes "queue_wf q"
  shows "\<exists>d. getDepthInSeconds rnd q = Some d"
proof (cases "queue q = []")
  case False
  then have "pkt_wf (last (queue q))" "pkt_wf (hd (queue q))" using assms by (auto simp: queue_wf_def)
  then obtain t1 t2 where "getTimestamp (data (last (queue q))) = Some t1"
    "getTimestamp (data (hd (queue q))) = Some t2" using getTimestamp_wf by metis
  then show ?thesis by (simp add: getDepthInSeconds_def)
qed (simp add: getDepthInSeconds_def)

text \<open>
  The scan either finds the sequence number and changes nothing, or puts the packet in
  front of the first older one.
\<close>

lemma push_scan_wf:
  assumes "\<forall>h \<in> set xs. pkt_wf h"
  shows "\<exists>ys. push_scan (seq_of p) p xs = Some ys
    \<and> (ys = xs \<and> seq_of p \<in> seq_of ` set xs
       \<or> (\<exists>us vs. xs = us @ vs \<and> ys = us @ p # vs
            \<and> (\<forall>u \<in> set us. seq_of u \<noteq> seq_of p \<and> \<not> rtpSequenceLessThan (seq_of u) (seq_of p))
            \<and> (vs \<noteq> [] \<longrightarrow> rtpSequenceLessThan (seq_of (hd vs)) (seq_of p) \<and> seq_of (hd vs) \<noteq> seq_of p)))"
  using assms
proof (induction xs)
  case Nil
  then show ?case by simp
next
  case (Cons h t)
  then have h: "getSeqNumber (data h) = Some (seq_of h)" by (simp add: getSeqNumber_wf)
  consider "seq_of h = seq_of p" | "seq_of h \<noteq> seq_of p" "rtpSequenceLessThan (seq_of h) (seq_of p)"
    | "seq_of h \<noteq> seq_of p" "\<not> rtpSequenceLessThan (seq_of h) (seq_of p)" by blast
  then show ?case
  proof cases
    case 1
    then show ?thesis using h by force
  next
    case 2
    then show ?thesis using h
      by (intro exI [of _ "p # h # t"] conjI disjI2 exI [of _ "[]"] exI [of _ "h # t"]) simp_all
  next
    case 3
    obtain ys where ys: "push_scan (seq_of p) p t = Some ys"
      and alt: "ys = t \<and> seq_of p \<in> seq_of ` set t
       \<or> (\<exists>us vs. t = us @ vs \<and> ys = us @ p # vs
            \<and> (\<forall>u \<in> set us. seq_of u \<noteq> seq_of p \<and> \<not> rtpSequenceLessThan (seq_of u) (seq_of p))
            \<and> (vs \<noteq> [] \<longrightarrow> rtpSequenceLessThan (seq_of (hd vs)) (seq_of p) \<and> seq_of (hd vs) \<noteq> seq_of p))"
      using Cons by auto
    have eq: "push_scan (seq_of p) p (h # t) = Some (h # ys)" using 3 h ys by simp
    from alt show ?thesis
    proof (elim disjE exE conjE)
      assume "ys = t" "seq_of p \<in> seq_of ` set t"
      then show ?thesis using eq by auto
    next
      fix us vs
      assume "t = us @ vs" "ys = us @ p # vs"
        "\<forall>u \<in> set us. seq_of u \<noteq> seq_of p \<and> \<not> rtpSequenceLessThan (seq_of u) (seq_of p)"
        "vs \<noteq> [] \<longrightarrow> rtpSequenceLessThan (seq_of (hd vs)) (seq_of p) \<and> seq_of (hd vs) \<noteq> seq_of p"
      then show ?thesis
        using eq 3 by (intro exI [of _ "h # ys"] conjI disjI2 exI [of _ "h # us"] exI [of _ vs]) auto
    qed
  qed
qed

section \<open>Sorted queues\<close>

text \<open>
  While the sequence numbers in play stay inside of one window of 0x8000 numbers, the queue is
  strictly sorted, newest first; \<open>key b\<close> is the distance from the start of the window.
\<close>

abbreviation key :: "u16 \<Rightarrow> dataPacket \<Rightarrow> nat" where
  "key b p \<equiv> ahead b (seq_of p)"

definition sorted_queue :: "u16 \<Rightarrow> dataPacket list \<Rightarrow> bool" where
  "sorted_queue b xs \<longleftrightarrow>
     (\<forall>p \<in> set xs. pkt_wf p \<and> in_window b (seq_of p)) \<and> sorted_wrt (\<lambda>x y. key b y < key b x) xs"

lemma sorted_queue_insert:
  assumes "sorted_queue b (us @ vs)" and "pkt_wf p" "in_window b (seq_of p)"
    and us: "\<forall>u \<in> set us. seq_of u \<noteq> seq_of p \<and> \<not> rtpSequenceLessThan (seq_of u) (seq_of p)"
    and vs: "vs \<noteq> [] \<longrightarrow> rtpSequenceLessThan (seq_of (hd vs)) (seq_of p) \<and> seq_of (hd vs) \<noteq> seq_of p"
  shows "sorted_queue b (us @ p # vs)"
proof -
  have win: "\<And>x. x \<in> set us \<union> set vs \<Longrightarrow> in_window b (seq_of x)"
    and srt: "sorted_wrt (\<lambda>x y. key b y < key b x) (us @ vs)"
    using assms(1) by (auto simp: sorted_queue_def)
  have before: "key b p < key b u" if "u \<in> set us" for u
  proof -
    have "rtpSequenceLessThan (seq_of p) (seq_of u)"
      using us that rq.lt_window_linear [OF assms(3) win, of u] by auto
    then show ?thesis using rq.lt_window [OF assms(3) win, of u] that by simp
  qed
  have after: "key b v < key b p" if v: "v \<in> set vs" for v
  proof -
    have ne: "vs \<noteq> []" using v by auto
    then have "key b (hd vs) < key b p"
      using vs rq.lt_window [OF win assms(3), of "hd vs"] by simp
    moreover have "key b v \<le> key b (hd vs)"
      using v ne srt by (cases vs) (auto simp: sorted_wrt_append)
    ultimately show ?thesis by simp
  qed
  show ?thesis
    using assms(1-3) before after by (auto simp: sorted_queue_def sorted_wrt_append)
qed

lemma push_scan_sorted:
  assumes "sorted_queue b xs" and "pkt_wf p" "in_window b (seq_of p)"
  shows "\<exists>ys. push_scan (seq_of p) p xs = Some ys \<and> sorted_queue b ys
    \<and> seq_of ` set ys = insert (seq_of p) (seq_of ` set xs) \<and> set ys \<subseteq> insert p (set xs)"
proof -
  have "\<forall>h \<in> set xs. pkt_wf h" using assms(1) by (simp add: sorted_queue_def)
  from push_scan_wf [OF this, of p] obtain ys where ys: "push_scan (seq_of p) p xs = Some ys"
    and alt: "ys = xs \<and> seq_of p \<in> seq_of ` set xs
       \<or> (\<exists>us vs. xs = us @ vs \<and> ys = us @ p # vs
            \<and> (\<forall>u \<in> set us. seq_of u \<noteq> seq_of p \<and> \<not> rtpSequenceLessThan (seq_of u) (seq_of p))
            \<and> (vs \<noteq> [] \<longrightarrow> rtpSequenceLessThan (seq_of (hd vs)) (seq_of p) \<and> seq_of (hd vs) \<noteq> seq_of p))"
    by blast
  from alt show ?thesis
  proof (elim disjE exE conjE)
    assume "ys = xs" "seq_of p \<in> seq_of ` set xs"
    then show ?thesis using ys assms(1) by auto
  next
    fix us vs
    assume split: "xs = us @ vs" "ys = us @ p # vs"
      and rest: "\<forall>u \<in> set us. seq_of u \<noteq> seq_of p \<and> \<not> rtpSequenceLessThan (seq_of u) (seq_of p)"
        "vs \<noteq> [] \<longrightarrow> rtpSequenceLessThan (seq_of (hd vs)) (seq_of p) \<and> seq_of (hd vs) \<noteq> seq_of p"
    have "sorted_queue b ys"
      using sorted_queue_insert [OF _ assms(2,3) rest] assms(1) split by simp
    then show ?thesis using ys split by auto
  qed
qed

lemma enforce_max_prefix:
  assumes "queue_wf q" and "0 \<le> maxDepthInSeconds q"
  shows "\<exists>n d. enforce_max rnd q = Some (q\<lparr>queue := take n (queue q)\<rparr>)
    \<and> getDepthInSeconds rnd (q\<lparr>queue := take n (queue q)\<rparr>) = Some d \<and> d \<le> maxDepthInSeconds q"
  using assms
proof (induction rnd q rule: enforce_max.induct)
  case (1 rnd q)
  obtain d where d: "getDepthInSeconds rnd q = Some d" using depth_defined [OF 1(2)] by blast
  show ?case
  proof (cases "d > maxDepthInSeconds q")
    case False
    then have "enforce_max rnd q = Some q" by (subst enforce_max.simps) (simp add: d)
    then show ?thesis using d False by (intro exI [of _ "length (queue q)"]) auto
  next
    case True
    have ne: "queue q \<noteq> []"
    proof
      assume "queue q = []"
      then have "d = 0" using d by (simp add: getDepthInSeconds_def)
      then show False using True 1(3) by simp
    qed
    let ?q = "q\<lparr>queue := butlast (queue q)\<rparr>"
    have "queue_wf ?q" using 1(2) by (auto simp: queue_wf_def dest: in_set_butlastD)
    then obtain n d' where IH: "enforce_max rnd ?q = Some (?q\<lparr>queue := take n (queue ?q)\<rparr>)"
      "getDepthInSeconds rnd (?q\<lparr>queue := take n (queue ?q)\<rparr>) = Some d'" "d' \<le> maxDepthInSeconds ?q"
      using 1(1) [OF d True ne] 1(3) by auto
    have tk: "take n (butlast (queue q)) = take (min n (length (queue q) - 1)) (queue q)"
      by (simp add: butlast_conv_take)
    have "enforce_max rnd q = enforce_max rnd ?q" using True ne by (subst enforce_max.simps) (simp add: d)
    then show ?thesis using IH by (intro exI [of _ "min n (length (queue q) - 1)"]) (simp add: tk)
  qed
qed

section \<open>The reordering contract\<close>

definition rpq_inv :: "u16 \<Rightarrow> rtp_queue \<Rightarrow> bool" where
  "rpq_inv b q \<longleftrightarrow> sorted_queue b (queue q) \<and> timebase q = 0 \<and> 0 \<le> maxDepthInSeconds q"

definition packet_ok :: "u16 \<Rightarrow> buffer \<Rightarrow> bool" where
  "packet_ok b d \<longleftrightarrow> 4 \<le> length d \<and> length d \<le> DATA_SIZE \<and> in_window b (le16 (d ! 3) (d ! 2))"

lemma push_accepted:
  assumes "queue_wf q" "0 \<le> maxDepthInSeconds q" "4 \<le> len" "nat len \<le> DATA_SIZE" "nat len \<le> length dat"
  shows "\<exists>p. pkt_wf p \<and> seq_of p = le16 (dat ! 3) (dat ! 2) \<and> pkt_length p = len
    \<and> take (nat len) (data p) = take (nat len) dat
    \<and> pushPacket rnd q dat len =
       (if too_late q (seq_of p) then Some q
        else do { xs \<leftarrow> push_scan (seq_of p) p (queue q); enforce_max rnd (q\<lparr>queue := xs\<rparr>) })"
proof -
  obtain bytes where mc: "memcpy (data dataPacket_new) dat len = Some bytes"
    using assms(3-5) by (simp add: memcpy_def dataPacket_new_def)
  let ?p = "dataPacket_new\<lparr>data := bytes, pkt_length := len\<rparr>"
  have "getSeqNumber dat = Some (seq_of ?p)"
    using assms(3,5) pushed_packet(2) [OF mc assms(3)] by (simp add: getSeqNumber_bytes)
  moreover have "take (nat len) bytes = take (nat len) dat"
    using mc assms(5) by (auto simp: memcpy_Some)
  ultimately show ?thesis
    using pushed_packet [OF mc assms(3)] mc by (intro exI [of _ ?p]) (simp add: pushPacket_def)
qed

lemma rpq_push:
  assumes "rpq_inv b q" "lastSequenceNumberGiven q = -1" "packet_ok b d"
  shows "\<exists>q'. pushPacket rnd q d (int (length d)) = Some q' \<and> rpq_inv b q'
    \<and> lastSequenceNumberGiven q' = -1
    \<and> set (map (key b) (rev (queue q'))) = insert (ahead b (le16 (d ! 3) (d ! 2))) (set (map (key b) (rev (queue q))))"
proof -
  have wf: "queue_wf q" and mx: "0 \<le> maxDepthInSeconds q" and tb: "timebase q = 0"
    and late: "\<And>s. \<not> too_late q s"
    using assms(1,2) by (auto simp: rpq_inv_def sorted_queue_def queue_wf_def too_late_def)
  obtain p where p: "pkt_wf p" "seq_of p = le16 (d ! 3) (d ! 2)"
    "pushPacket rnd q d (int (length d)) = do { xs \<leftarrow> push_scan (seq_of p) p (queue q); enforce_max rnd (q\<lparr>queue := xs\<rparr>) }"
    using push_accepted [OF wf mx, of "int (length d)" d rnd] assms(3) late by (auto simp: packet_ok_def)
  have "in_window b (seq_of p)" using p(2) assms(3) by (simp add: packet_ok_def)
  then obtain ys where ys: "push_scan (seq_of p) p (queue q) = Some ys" "sorted_queue b ys"
    "seq_of ` set ys = insert (seq_of p) (seq_of ` set (queue q))"
    using push_scan_sorted [of b "queue q" p] p(1) assms(1) by (auto simp: rpq_inv_def)
  have "enforce_max rnd (q\<lparr>queue := ys\<rparr>) = Some (q\<lparr>queue := ys\<rparr>)"
    using tb mx by (subst enforce_max.simps) (simp add: getDepthInSeconds_def)
  then have push: "pushPacket rnd q d (int (length d)) = Some (q\<lparr>queue := ys\<rparr>)"
    using p(3) ys(1) by simp
  have "ahead b ` seq_of ` set ys = insert (ahead b (seq_of p)) (ahead b ` seq_of ` set (queue q))"
    unfolding ys(3) by simp
  then have "set (map (key b) (rev ys)) = insert (ahead b (le16 (d ! 3) (d ! 2))) (set (map (key b) (rev (queue q))))"
    by (simp add: image_image p(2))
  then show ?thesis using push ys(2) assms by (simp add: rpq_inv_def)
qed

lemma rpq_pop:
  assumes "rpq_inv b q" "queue q \<noteq> []"
  shows "\<exists>q'. popPacket rnd q True False = Some (Some (last (queue q)), q') \<and> rpq_inv b q'
    \<and> queue q' = butlast (queue q)"
proof -
  have "pkt_wf (last (queue q))" using assms by (simp add: rpq_inv_def sorted_queue_def)
  moreover have "sorted_queue b (butlast (queue q))"
    using assms(1) by (auto simp: rpq_inv_def sorted_queue_def butlast_conv_take intro: sorted_wrt_take
        dest: in_set_takeD)
  ultimately show ?thesis
    using assms by (simp add: popPacket_def depth_reached_def getSeqNumber_wf rpq_inv_def Let_def)
qed

interpretation rpq: reorder_buffer
  "\<lambda>q d. pushPacket rnd q d (int (length d))" "\<lambda>q. popPacket rnd q True False" "rpq_inv b"
  "\<lambda>q. lastSequenceNumberGiven q = -1" "\<lambda>q. map (key b) (rev (queue q))" "key b"
  "\<lambda>d. ahead b (le16 (d ! 3) (d ! 2))" "packet_ok b"
  for rnd b
proof (unfold_locales, goal_cases)
  case (1 q d)
  then show ?case by (rule rpq_push)
next
  case (2 q)
  then show ?case by (simp add: rpq_inv_def sorted_queue_def sorted_wrt_map sorted_wrt_rev)
next
  case (3 q)
  then have "queue q \<noteq> []" by simp
  moreover have "hd (map (key b) (rev (queue q))) = key b (last (queue q))"
    using calculation by (simp add: hd_map hd_rev)
  ultimately show ?case
    using rpq_pop [OF 3(1), of rnd] by (auto simp: map_tl rev_butlast_tl)
next
  case (4 q)
  then show ?case by (simp add: popPacket_def)
qed

text \<open>
  Property C1. The queue reorders: packets of one window of 0x8000 sequence numbers, pushed
  in any order and with any duplicates into a new queue, come out sorted by sequence number
  and without duplicates, and no call leaves its buffers.
\<close>

theorem packet_queue_reorders:
  assumes "\<forall>d \<in> set ds. packet_ok b d" and "max_depth \<le> depth \<or> 0 \<le> max_depth"
  shows "\<exists>q ps. push_all (\<lambda>q d. pushPacket rnd q d (int (length d))) (RtpPacketQueue_new depth max_depth) ds = Some q
    \<and> pop_all (\<lambda>q. popPacket rnd q True False) (length ds) q = Some ps
    \<and> map (key b) ps = sorted_list_of_set ((\<lambda>d. ahead b (le16 (d ! 3) (d ! 2))) ` set ds)"
proof -
  have "rpq_inv b (RtpPacketQueue_new depth max_depth)"
    "lastSequenceNumberGiven (RtpPacketQueue_new depth max_depth) = -1"
    "map (key b) (rev (queue (RtpPacketQueue_new depth max_depth))) = []"
    using assms(2)
    by (auto simp: rpq_inv_def RtpPacketQueue_new_def sorted_queue_def DEFAULT_MAX_def Let_def)
  from rpq.reorder [OF this assms(1) order_refl] show ?thesis .
qed

definition seq_packet :: "u16 \<Rightarrow> buffer" where
  "seq_packet s = [0x80, 96, byte 1 s, byte 0 s] @ replicate 8 0"

theorem packet_queue_reorders_witness:
  "\<exists>q ps. push_all (\<lambda>q d. pushPacket (\<lambda>x. x) q d (int (length d))) (RtpPacketQueue_new 3 5)
       [seq_packet 2, seq_packet 65535, seq_packet 2, seq_packet 0] = Some q
    \<and> pop_all (\<lambda>q. popPacket (\<lambda>x. x) q True False)
         (length [seq_packet 2, seq_packet 65535, seq_packet 2, seq_packet 0]) q = Some ps
    \<and> map (key 65000) ps = sorted_list_of_set ((\<lambda>d. ahead 65000 (le16 (d ! 3) (d ! 2)))
         ` set [seq_packet 2, seq_packet 65535, seq_packet 2, seq_packet 0])"
proof -
  have "\<forall>d \<in> set [seq_packet 2, seq_packet 65535, seq_packet 2, seq_packet 0]. packet_ok 65000 d"
    by (simp add: packet_ok_def DATA_SIZE_def seq_packet_def in_window_def ahead_def)
  then show ?thesis by (rule packet_queue_reorders) simp
qed

text \<open>
  A push into a well-formed queue always returns, keeps the queue well-formed and,
  unless it refuses the packet as late, leaves at most \<open>maxDepthInSeconds\<close> of media queued.
\<close>

theorem push_bounds_depth:
  assumes "queue_wf q" "0 \<le> maxDepthInSeconds q" "4 \<le> len" "len \<le> int DATA_SIZE" "len \<le> int (length dat)"
  shows "\<exists>q'. pushPacket rnd q dat len = Some q' \<and> queue_wf q'
    \<and> (q' = q \<or> (\<exists>d. getDepthInSeconds rnd q' = Some d \<and> d \<le> maxDepthInSeconds q'))"
proof -
  have "nat len \<le> DATA_SIZE" "nat len \<le> length dat" using assms(4,5) by linarith+
  then obtain p where p: "pkt_wf p"
    "pushPacket rnd q dat len =
       (if too_late q (seq_of p) then Some q
        else do { xs \<leftarrow> push_scan (seq_of p) p (queue q); enforce_max rnd (q\<lparr>queue := xs\<rparr>) })"
    using push_accepted [OF assms(1-3), of dat rnd] by blast
  show ?thesis
  proof (cases "too_late q (seq_of p)")
    case True
    then show ?thesis using p(2) assms(1) by simp
  next
    case False
    obtain ys where ys: "push_scan (seq_of p) p (queue q) = Some ys" "set ys \<subseteq> insert p (set (queue q))"
      using push_scan_wf [of "queue q" p] assms(1) by (auto simp: queue_wf_def)
    let ?q = "q\<lparr>queue := ys\<rparr>"
    have "queue_wf ?q" using ys(2) p(1) assms(1) by (auto simp: queue_wf_def)
    moreover from this obtain n d where "enforce_max rnd ?q = Some (?q\<lparr>queue := take n (queue ?q)\<rparr>)"
      "getDepthInSeconds rnd (?q\<lparr>queue := take n (queue ?q)\<rparr>) = Some d" "d \<le> maxDepthInSeconds ?q"
      using enforce_max_prefix [of ?q rnd] assms(2) by auto
    ultimately show ?thesis
      using p(2) False ys(1) by (auto simp: queue_wf_def dest: in_set_takeD)
  qed
qed

theorem push_bounds_depth_witness:
  "\<exists>q'. pushPacket (\<lambda>x. x) (setTimebase (RtpPacketQueue_new 1 2) 90000) (seq_packet 7) 12 = Some q' \<and> queue_wf q'
    \<and> (q' = setTimebase (RtpPacketQueue_new 1 2) 90000
       \<or> (\<exists>d. getDepthInSeconds (\<lambda>x. x) q' = Some d \<and> d \<le> maxDepthInSeconds q'))"
  by (rule push_bounds_depth)
    (simp_all add: queue_wf_def setTimebase_def RtpPacketQueue_new_def DATA_SIZE_def seq_packet_def)

text \<open>
  A new queue has handed out nothing and records that as -1, but \<open>popPacket\<close> with
  \<open>ignore_old_packet\<close> converts the -1 to sequence number 65535: every packet with a sequence
  number in 0x8000 .. 0xFFFE is removed and not returned, although nothing came before it.
\<close>

theorem pop_ignore_old_drops_first:
  assumes "queue q \<noteq> []" "pkt_wf (last (queue q))" "lastSequenceNumberGiven q = -1"
    and "0x8000 \<le> unat (seq_of (last (queue q)))" "unat (seq_of (last (queue q))) < 0xFFFF"
  shows "popPacket rnd q True True = Some (None, q\<lparr>queue := butlast (queue q)\<rparr>)"
proof -
  let ?s = "seq_of (last (queue q))"
  have "uint (-1 :: u16) = 65535" by (simp add: unsigned_minus_1_eq_mask mask_eq_exp_minus_1)
  then have "int (ahead ?s (-1)) = 65535 - uint ?s"
    using uint_u16_bounds(2) [of ?s] by (simp add: ahead_cases)
  then have "int (ahead ?s (-1)) = 65535 - int (unat ?s)" by (simp only: uint_nat)
  then have "0 < ahead ?s (-1)" "ahead ?s (-1) < 0x8000" using assms(4,5) by linarith+
  then have "rtpSequenceLessThan ?s (-1)" by (simp only: less_than_serial)
  then show ?thesis
    using assms(1-3) by (simp add: popPacket_def depth_reached_def getSeqNumber_wf Let_def)
qed

theorem pop_ignore_old_drops_first_witness:
  "popPacket (\<lambda>x. x) ((RtpPacketQueue_new 3 5)\<lparr>queue := [dataPacket_new\<lparr>data := seq_packet 0x9000 @ replicate 1488 0\<rparr>]\<rparr>)
     True True = Some (None, (RtpPacketQueue_new 3 5)\<lparr>queue := butlast [dataPacket_new\<lparr>data := seq_packet 0x9000 @ replicate 1488 0\<rparr>]\<rparr>)"
proof -
  have "seq_of (dataPacket_new\<lparr>data := seq_packet 0x9000 @ replicate 1488 0\<rparr>) = 0x9000"
    by (simp add: seq_of_def seq_packet_def)
  then show ?thesis
    using pop_ignore_old_drops_first
      [of "(RtpPacketQueue_new 3 5)\<lparr>queue := [dataPacket_new\<lparr>data := seq_packet 0x9000 @ replicate 1488 0\<rparr>]\<rparr>" "\<lambda>x. x"]
    by (simp add: RtpPacketQueue_new_def pkt_wf_def DATA_SIZE_def seq_packet_def)
qed

end
