(* ===== verification/Janus_Context.thy ===== *)
theory Janus_Context
  imports Rtp_Headers Seq_Number
begin

text \<open>
  The receiver statistics of \<open>src/orbit/rtp/janus_rtcp_processor.{h,cc}\<close>: the struct
  \<open>rtcp_context\<close>, its update by every incoming RTP packet, and the report block of a receiver
  report that is computed from it.

  The jitter estimate is a \<open>double\<close>; \<open>rnd\<close> is the rounding of the \<open>double\<close> operations and
  every theorem holds for every \<open>rnd\<close>.  A reading of the monotonic clock is an argument
  (\<open>now\<close>, in microseconds).  \<open>None\<close> is undefined behaviour: a read outside of the packet,
  a signed overflow, a shift or a conversion out of range.
\<close>

record rtcp_context =
  enabled :: bool
  last_seq_nr :: u16
  seq_cycle :: u16
  base_seq :: u16
  pt :: u16
  transit :: u64
  jitter :: real
  tb :: u32
  lsr :: u32
  lsr_ts :: int
  last_sent :: int
  received :: u32
  received_prior :: u32
  expected :: u32
  expected_prior :: u32
  lost :: int

definition DEFAULT_MAX_NACK_QUEUE :: int where "DEFAULT_MAX_NACK_QUEUE = 300"

text \<open>\<open>RtcpProcessor::InitializeAudioAndVideoContext\<close>: a zeroed context with its clock rate.\<close>

definition init_context :: "u32 \<Rightarrow> rtcp_context" where
  "init_context rate =
     \<lparr>enabled = False, last_seq_nr = 0, seq_cycle = 0, base_seq = 0, pt = 0, transit = 0, jitter = 0,
      tb = rate, lsr = 0, lsr_ts = 0, last_sent = 0, received = 0, received_prior = 0,
      expected = 0, expected_prior = 0, lost = 0\<rparr>"

text \<open>Sequence bookkeeping: lines up to \<open>ctx->expected = rtp_expected\<close>.\<close>

definition track_sequence :: "rtcp_context \<Rightarrow> u16 \<Rightarrow> int \<Rightarrow> rtcp_context" where
  "track_sequence ctx seq_number max_nack_queue =
     (let base = (if base_seq ctx = 0 \<and> seq_cycle ctx = 0 then seq_number else base_seq ctx);
          cycle = (if max_nack_queue + uint seq_number < uint (last_seq_nr ctx)
                   then seq_cycle ctx + 1 else seq_cycle ctx);
          recv = received ctx + 1;
          rtp_expected = (if cycle > 0 then push_bit 16 (ucast cycle) else 0 :: u32)
                         + 1 + ucast seq_number - ucast base
      in ctx\<lparr>enabled := True, base_seq := base, seq_cycle := cycle, last_seq_nr := seq_number,
             received := recv,
             lost := (if rtp_expected - recv > 0 then sint (rtp_expected - recv) else 0),
             expected := rtp_expected\<rparr>)"

definition int64_ok :: "int \<Rightarrow> bool" where
  "int64_ok x \<longleftrightarrow> - (2 ^ 63) \<le> x \<and> x < 2 ^ 63"

text \<open>Interarrival jitter, RFC 3550 A.8.\<close>

definition track_jitter :: "(real \<Rightarrow> real) \<Rightarrow> int \<Rightarrow> rtcp_context \<Rightarrow> u32 \<Rightarrow> rtcp_context option" where
  "track_jitter rnd now ctx ts =
     (if \<not> int64_ok (now * uint (tb ctx)) then None
      else let arrival = word_of_int (sgn now * (\<bar>now * uint (tb ctx)\<bar> div 1000000)) :: u64;
               tr = arrival - ucast ts;
               d = word_of_int \<bar>sint (tr - transit ctx)\<bar> :: u64;
               jit = (if transit ctx = 0 then 0
                      else rnd (jitter ctx + rnd ((1 / 16) * rnd (rnd (real (unat d)) - jitter ctx))))
           in Some (ctx\<lparr>jitter := jit, transit := tr\<rparr>))"

definition janus_rtcp_process_incoming_rtp ::
    "(real \<Rightarrow> real) \<Rightarrow> int \<Rightarrow> rtcp_context option \<Rightarrow> buffer option \<Rightarrow> int \<Rightarrow> int
     \<Rightarrow> (int \<times> rtcp_context option) option" where
  "janus_rtcp_process_incoming_rtp rnd now ctx packet len max_nack_queue =
     (case (ctx, packet) of
        (Some c, Some m) \<Rightarrow>
          if len < 1 then Some (-1, ctx)
          else do {
            seq_number \<leftarrow> rdn16 m 2;
            ts \<leftarrow> rdn32 m 4;
            c' \<leftarrow> track_jitter rnd now (track_sequence c seq_number max_nack_queue) ts;
            Some (0, Some c') }
      | _ \<Rightarrow> Some (-1, ctx))"

definition janus_rtcp_context_get_lost :: "rtcp_context option \<Rightarrow> u32" where
  "janus_rtcp_context_get_lost ctx =
     (case ctx of None \<Rightarrow> 0
      | Some c \<Rightarrow> if lost c > 0x7FFFFF then 0x7FFFFF else word_of_int (lost c))"

text \<open>
  \<open>lost_interval << 8\<close> shifts a signed value: undefined from 2^24 on.  The quotient is
  computed on 32-bit unsigned values.
\<close>

definition fraction_of :: "u32 \<Rightarrow> u32 \<Rightarrow> u32 option" where
  "fraction_of expected_interval received_interval =
     (let lost_interval = sint (expected_interval - received_interval)
      in if expected_interval = 0 \<or> lost_interval \<le> 0 then Some 0
         else if 2 ^ 24 \<le> lost_interval then None
         else Some (word_of_int (lost_interval * 256) div expected_interval))"

definition janus_rtcp_context_get_lost_fraction :: "rtcp_context option \<Rightarrow> u32 option" where
  "janus_rtcp_context_get_lost_fraction ctx =
     (case ctx of None \<Rightarrow> Some 0
      | Some c \<Rightarrow>
          map_option (push_bit 24)
            (fraction_of (expected c - expected_prior c) (received c - received_prior c)))"

definition janus_rtcp_context_get_lost_promille :: "rtcp_context option \<Rightarrow> u32 option" where
  "janus_rtcp_context_get_lost_promille ctx =
     (case ctx of None \<Rightarrow> Some 0
      | Some c \<Rightarrow> do {
          f \<leftarrow> fraction_of (expected c - expected_prior c) (received c - received_prior c);
          let fraction = push_bit 24 f in
          Some (drop_bit 8 (drop_bit 24 fraction * 1000)) })"

text \<open>
  The report block at offset \<open>rb\<close>: ssrc (untouched), loss word, extended highest sequence
  number, jitter, last SR, delay since last SR.  The clock is read twice.
\<close>

definition janus_rtcp_report_block ::
    "int \<Rightarrow> int \<Rightarrow> rtcp_context option \<Rightarrow> buffer \<Rightarrow> nat \<Rightarrow> (int \<times> rtcp_context option \<times> buffer) option" where
  "janus_rtcp_report_block now now2 ctx m rb =
     (case ctx of None \<Rightarrow> Some (-1, ctx, m)
      | Some c \<Rightarrow>
          if \<not> (0 \<le> jitter c \<and> jitter c < 2 ^ 32) then None
          else if \<not> int64_ok ((now - lsr_ts c) * 2 ^ 16) \<or> now < lsr_ts c then None
          else do {
            m \<leftarrow> wrn32 m (rb + 12) (word_of_int \<lfloor>jitter c\<rfloor>);
            m \<leftarrow> wrn32 m (rb + 8) (push_bit 16 (ucast (seq_cycle c)) + ucast (last_seq_nr c));
            let lost_w = janus_rtcp_context_get_lost ctx in do {
            fraction \<leftarrow> janus_rtcp_context_get_lost_fraction ctx;
            m \<leftarrow> wrn32 m (rb + 4) (lost_w OR fraction);
            m \<leftarrow> wrn32 m (rb + 16) (lsr c);
            m \<leftarrow> wrn32 m (rb + 20) (word_of_int ((now - lsr_ts c) * 2 ^ 16 div 1000000));
            Some (0, Some (c\<lparr>expected_prior := expected c, received_prior := received c,
                             last_sent := now2\<rparr>), m) } })"

text \<open>An incoming sender report: middle 32 bits of its NTP time and the arrival time.\<close>

definition janus_rtcp_incoming_sr ::
    "int \<Rightarrow> rtcp_context option \<Rightarrow> buffer \<Rightarrow> nat \<Rightarrow> rtcp_context option option" where
  "janus_rtcp_incoming_sr now ctx m sr =
     (case ctx of None \<Rightarrow> Some None
      | Some c \<Rightarrow> do {
          msw \<leftarrow> rdn32 m (sr + 8);
          lsw \<leftarrow> rdn32 m (sr + 12);
          let ntp = push_bit 32 (ucast msw) OR (ucast lsw :: u64) in
          Some (Some (c\<lparr>lsr_ts := now, lsr := ucast (drop_bit 16 ntp)\<rparr>)) })"

section \<open>Sequence bookkeeping of an ordered stream\<close>

text \<open>
  The reference: a stream is a list of extended sequence numbers (cycle times 65536 plus the 16
  bits in the packet).  The context after a prefix of the stream that starts at \<open>s\<close>,
  ends at \<open>x\<close> and has \<open>n\<close> packets:
\<close>

definition tracks :: "nat \<Rightarrow> nat \<Rightarrow> nat \<Rightarrow> rtcp_context \<Rightarrow> bool" where
  "tracks s x n c \<longleftrightarrow>
     base_seq c = of_nat s \<and> last_seq_nr c = of_nat x \<and> seq_cycle c = of_nat (x div 65536) \<and>
     received c = of_nat n \<and> expected c = of_nat (x - s + 1) \<and> lost c = int (x - s + 1) - int n"

fun ascending :: "nat \<Rightarrow> nat \<Rightarrow> nat list \<Rightarrow> bool" where
  "ascending gap x [] = True"
| "ascending gap x (y # ys) \<longleftrightarrow> x < y \<and> y < x + gap \<and> ascending gap y ys"

fun receive_all ::
    "(real \<Rightarrow> real) \<Rightarrow> rtcp_context \<Rightarrow> (int \<times> buffer) list \<Rightarrow> rtcp_context option" where
  "receive_all rnd c [] = Some c"
| "receive_all rnd c ((now, m) # ps) =
     (case janus_rtcp_process_incoming_rtp rnd now (Some c) (Some m) (int (length m))
             DEFAULT_MAX_NACK_QUEUE of
        Some (_, Some c') \<Rightarrow> receive_all rnd c' ps
      | _ \<Rightarrow> None)"

text \<open>Packet \<open>m\<close>, received at \<open>now\<close>, is the one with extended number \<open>x\<close>.\<close>

definition carries :: "u32 \<Rightarrow> int \<times> buffer \<Rightarrow> nat \<Rightarrow> bool" where
  "carries rate p x \<longleftrightarrow>
     (case p of (now, m) \<Rightarrow> 12 \<le> length m \<and> rdn16 m 2 = Some (of_nat x) \<and>
        int64_ok (now * uint rate))"

lemma ascending_last: "ascending gap x ys \<Longrightarrow> x \<le> last (x # ys)"
  by (induction ys arbitrary: x) force+

lemma ascending_length: "ascending gap x ys \<Longrightarrow> length ys \<le> last (x # ys) - x"
proof (induction ys arbitrary: x)
  case (Cons y ys)
  then show ?case using ascending_last [of gap y ys] by fastforce
qed simp

lemma uint_of_nat_u16: "uint (of_nat x :: u16) = int (x mod 65536)"
  by (simp add: unsigned_of_nat take_bit_eq_mod)

lemma of_nat_u16_eq_0: "0 < x \<Longrightarrow> x < 65536 \<Longrightarrow> (of_nat x :: u16) \<noteq> 0"
  by (simp add: word_of_nat_eq_0_iff take_bit_nat_eq_self nat_dvd_not_less)

lemma unat_of_nat_u32: "x \<le> 2 ^ 31 \<Longrightarrow> unat (of_nat x :: u32) = x"
  by (simp add: unsigned_of_nat take_bit_nat_eq_self)

lemma ucast_of_nat_small:
  "x < 65536 \<Longrightarrow> (ucast (of_nat x :: u16) :: u32) = of_nat x"
  by (rule word_unat_eq_iff [THEN iffD2]) (simp add: unat_ucast_mod unsigned_of_nat take_bit_eq_mod)

lemma cycle_aux:
  fixes a b c d :: nat
  assumes "65536 * a + b < 65536 * c + d" "65536 * c + d < 65536 * a + b + 65236" "b < 65536" "d < 65536"
  shows "c = (if 300 + d < b then a + 1 else a)"
proof -
  have "a \<le> c" "c \<le> a + 1" using assms by linarith+
  then consider "c = a" | "c = a + 1" by linarith
  then show ?thesis using assms by cases auto
qed

lemma cycle_step:
  fixes x y :: nat
  assumes "x < y" "y < x + 65236"
  shows "y div 65536 = (if 300 + y mod 65536 < x mod 65536
                        then x div 65536 + 1 else x div 65536)"
  by (rule cycle_aux) (use assms in simp_all)

lemma extended_expected:
  assumes "s < 65536" "s \<le> y" "y < 2 ^ 31"
  defines "cyc \<equiv> of_nat (y div 65536) :: u16"
  shows "(if cyc > 0 then push_bit 16 (ucast cyc) else 0 :: u32) + 1 + ucast (of_nat y :: u16)
           - ucast (of_nat s :: u16) = of_nat (y - s + 1)"
proof -
  have c: "ucast cyc = (of_nat (y div 65536) :: u32)"
    using assms by (simp add: cyc_def ucast_of_nat_small)
  have y: "ucast (of_nat y :: u16) = (of_nat (y mod 65536) :: u32)"
    by (rule word_unat_eq_iff [THEN iffD2])
      (simp add: unat_ucast_mod unsigned_of_nat take_bit_eq_mod)
  have "(if cyc > 0 then push_bit 16 (ucast cyc) else 0 :: u32) = of_nat (65536 * (y div 65536))"
    using c by (cases "cyc = 0") (simp_all add: push_bit_eq_mult word_gt_0 flip: c)
  moreover have "of_nat (65536 * (y div 65536)) + of_nat (y mod 65536) = (of_nat y :: u32)"
    by (simp only: of_nat_add [symmetric] mult_div_mod_eq)
  ultimately show ?thesis
    using assms(1,2) y
    by (simp add: ucast_of_nat_small of_nat_diff algebra_simps)
qed

lemma sint_small_u32: "x < 2 ^ 31 \<Longrightarrow> sint (of_nat x :: u32) = int x"
  by (simp add: signed_of_nat signed_take_bit_int_eq_self)

lemma sint_or_zero:
  "k < 2 ^ 31 \<Longrightarrow> (if (0 :: u32) < of_nat k then sint (of_nat k :: u32) else 0) = int k"
  using sint_small_u32 [of k] by (cases "(of_nat k :: u32) = 0") (auto simp: word_gt_0 simp del: word_of_nat_eq_0_iff)

lemma tracks_step:
  assumes t: "tracks s x n c" and s: "0 < s" "s < 65536" "s \<le> x" and n: "n \<le> x - s + 1"
    and y: "x < y" "y < x + 65236" "y < 2 ^ 31"
  shows "tracks s y (n + 1) (track_sequence c (of_nat y) DEFAULT_MAX_NACK_QUEUE)"
proof -
  have base: "(if base_seq c = 0 \<and> seq_cycle c = 0 then of_nat y else base_seq c) = of_nat s"
    using t s by (auto simp: tracks_def of_nat_u16_eq_0)
  have cyc: "(if DEFAULT_MAX_NACK_QUEUE + uint (of_nat y :: u16) < uint (last_seq_nr c)
              then seq_cycle c + 1 else seq_cycle c) = of_nat (y div 65536)"
    using t cycle_step [OF y(1,2)]
    by (auto simp: tracks_def uint_of_nat_u16 DEFAULT_MAX_NACK_QUEUE_def)
  have e: "of_nat (y - s + 1) - (received c + 1) = (of_nat (y - s + 1 - (n + 1)) :: u32)"
    using t n s y by (simp add: tracks_def of_nat_diff)
  have l: "(if (0 :: u32) < of_nat (y - s + 1 - (n + 1))
             then sint (of_nat (y - s + 1 - (n + 1)) :: u32) else 0) = int (y - s + 1) - int (n + 1)"
    using n s y by (subst sint_or_zero) simp_all
  have x: "(if 0 < (of_nat (y div 65536) :: u16) then push_bit 16 (ucast (of_nat (y div 65536) :: u16))
            else 0 :: u32) + 1 + ucast (of_nat y :: u16) - ucast (of_nat s :: u16) = of_nat (y - s + 1)"
    using s y by (intro extended_expected) simp_all
  show ?thesis
    unfolding tracks_def track_sequence_def Let_def base cyc x e l using t
    by (simp add: tracks_def)
qed

lemma tracks_first:
  assumes "0 < s" "s < 65536"
  shows "tracks s s 1 (track_sequence (init_context rate) (of_nat s) DEFAULT_MAX_NACK_QUEUE)"
  using assms extended_expected [of s s]
  by (simp add: tracks_def track_sequence_def init_context_def Let_def DEFAULT_MAX_NACK_QUEUE_def
      uint_of_nat_u16 ucast_of_nat_small)

lemma track_jitter_tracks:
  assumes "int64_ok (now * uint (tb c))"
  shows "\<exists>c'. track_jitter rnd now c ts = Some c' \<and> tb c' = tb c \<and>
    (\<forall>s x n. tracks s x n c' = tracks s x n c)"
  using assms by (simp add: track_jitter_def Let_def tracks_def)

lemma tb_track_sequence [simp]: "tb (track_sequence c q mx) = tb c"
  by (simp add: track_sequence_def Let_def)

lemma process_carried:
  assumes p: "carries (tb c) (now, m) y"
  shows "\<exists>c'. janus_rtcp_process_incoming_rtp rnd now (Some c) (Some m) (int (length m))
                DEFAULT_MAX_NACK_QUEUE = Some (0, Some c') \<and> tb c' = tb c \<and>
    (\<forall>s x n. tracks s x n c' = tracks s x n (track_sequence c (of_nat y) DEFAULT_MAX_NACK_QUEUE))"
proof -
  let ?t = "track_sequence c (of_nat y) DEFAULT_MAX_NACK_QUEUE"
  have m: "12 \<le> length m" "rdn16 m 2 = Some (of_nat y)" "int64_ok (now * uint (tb ?t))"
    using p by (simp_all add: carries_def del: rd_defined)
  then obtain ts where "rdn32 m 4 = Some ts" by simp
  moreover obtain c' where "track_jitter rnd now ?t ts = Some c'" "tb c' = tb ?t"
    "\<And>s x n. tracks s x n c' = tracks s x n ?t"
    using track_jitter_tracks [OF m(3), of rnd ts] by blast
  moreover have "\<not> int (length m) < 1" using m(1) by linarith
  ultimately show ?thesis
    using m(2) by (intro exI [of _ c']) (simp add: janus_rtcp_process_incoming_rtp_def del: rd_defined)
qed

lemma receive_all_tracks:
  assumes "list_all2 (carries (tb c)) ps xs" "ascending 65236 x xs" "tracks s x n c"
    "0 < s" "s < 65536" "s \<le> x" "n \<le> x - s + 1" "last (x # xs) < 2 ^ 31"
  shows "\<exists>c'. receive_all rnd c ps = Some c' \<and> tracks s (last (x # xs)) (n + length xs) c'"
  using assms
proof (induction xs arbitrary: c ps x n rule: list.induct)
  case Nil
  then show ?case by simp
next
  case (Cons y ys)
  then obtain now m qs where ps: "ps = (now, m) # qs" and p: "carries (tb c) (now, m) y"
    and qs: "list_all2 (carries (tb c)) qs ys"
    by (auto simp: list_all2_Cons2)
  have "y \<le> last (y # ys)"
    using Cons.prems(2) by (intro ascending_last [of 65236]) simp
  then have y: "x < y" "y < x + 65236" "y < 2 ^ 31" "ascending 65236 y ys" using Cons.prems(2,8) by simp_all
  obtain c' where c': "janus_rtcp_process_incoming_rtp rnd now (Some c) (Some m) (int (length m))
      DEFAULT_MAX_NACK_QUEUE = Some (0, Some c')" "tb c' = tb c"
    "\<And>s x n. tracks s x n c' = tracks s x n (track_sequence c (of_nat y) DEFAULT_MAX_NACK_QUEUE)"
    using process_carried [OF p, of rnd] by blast
  have "tracks s y (n + 1) c'"
    using tracks_step [of s x n c y] Cons.prems y by (simp add: c'(3))
  then show ?case
    using Cons.IH [of c' qs y "n + 1"] qs y Cons.prems ps c' by simp
qed

text \<open>
  C6. A stream whose packets arrive in order, starting at a sequence number other than 0 and
  with fewer than 65236 packets missing between two arrivals, is accounted for exactly:
  \<open>janus_rtcp_process_incoming_rtp\<close> accepts every packet, the extended highest sequence
  number follows the wrap-around, \<open>received\<close> counts the packets, \<open>expected\<close> is the length
  of the range covered so far and \<open>lost\<close> their difference.
\<close>

theorem in_order_stream_statistics:
  assumes "list_all2 (carries rate) ps (s # xs)" "0 < s" "s < 65536"
    and "ascending 65236 s xs" "last (s # xs) < 2 ^ 31"
  shows "\<exists>c. receive_all rnd (init_context rate) ps = Some c \<and>
           unat (seq_cycle c) * 65536 + unat (last_seq_nr c) = last (s # xs) \<and>
           unat (received c) = length ps \<and> unat (expected c) = last (s # xs) - s + 1 \<and>
           lost c = int (last (s # xs) - s + 1) - int (length ps)"
proof -
  obtain now m qs where ps: "ps = (now, m) # qs" and p: "carries rate (now, m) s"
    and qs: "list_all2 (carries rate) qs xs"
    using assms(1) by (auto simp: list_all2_Cons2)
  have tb: "tb (init_context rate) = rate" by (simp add: init_context_def)
  obtain c' where c': "janus_rtcp_process_incoming_rtp rnd now (Some (init_context rate)) (Some m)
      (int (length m)) DEFAULT_MAX_NACK_QUEUE = Some (0, Some c')" "tb c' = tb (init_context rate)"
    "\<And>s' x n. tracks s' x n c' =
       tracks s' x n (track_sequence (init_context rate) (of_nat s) DEFAULT_MAX_NACK_QUEUE)"
    using process_carried [of "init_context rate" now m s rnd] p tb by auto
  have "tracks s s 1 c'" using tracks_first assms(2,3) by (simp only: c'(3))
  then obtain c where c: "receive_all rnd c' qs = Some c" "tracks s (last (s # xs)) (1 + length xs) c"
    using receive_all_tracks [of c' qs xs s s 1 rnd] qs assms c'(2) tb by auto
  have len: "length qs = length xs" "length xs \<le> last (s # xs) - s" "s \<le> last (s # xs)"
    using qs ascending_length [OF assms(4)] ascending_last [OF assms(4)] by (auto dest: list_all2_lengthD)
  define L where "L = last (s # xs)"
  have L: "L < 2 ^ 31" "length xs \<le> L - s" "s \<le> L" "tracks s L (1 + length xs) c"
    using assms(5) len c(2) by (simp_all only: L_def)
  have "unat (seq_cycle c) * 65536 + unat (last_seq_nr c) = L"
    using L(1,4) by (simp add: tracks_def unsigned_of_nat take_bit_eq_mod)
  moreover have "unat (received c) = 1 + length xs" "unat (expected c) = L - s + 1"
    "lost c = int (L - s + 1) - int (1 + length xs)"
    using L by (simp_all only: tracks_def) (simp_all only: unat_of_nat_u32)
  ultimately show ?thesis
    using c(1) c'(1) ps len(1) by (intro exI [of _ c]) (simp only: flip: L_def, simp)
qed

theorem in_order_stream_statistics_witness:
  "\<exists>c. receive_all id (init_context 90000)
         [(1000, [0x80, 96, 0xFF, 0xFE, 0, 0, 0, 0, 0, 0, 0, 1]),
          (2000, [0x80, 96, 0, 3, 0, 0, 0, 90, 0, 0, 0, 1])] = Some c \<and>
       unat (seq_cycle c) * 65536 + unat (last_seq_nr c) = 65539 \<and>
       unat (received c) = 2 \<and> unat (expected c) = 6 \<and> lost c = 4"
  using in_order_stream_statistics
    [of 90000 "[(1000, [0x80, 96, 0xFF, 0xFE, 0, 0, 0, 0, 0, 0, 0, 1]),
                (2000, [0x80, 96, 0, 3, 0, 0, 0, 90, 0, 0, 0, 1])]" 65534 "[65539]" id]
  by (simp add: carries_def int64_ok_def le16_def del: receive_all.simps flip: numeral_2_eq_2)

section \<open>The report block\<close>

lemma fraction_of_nat:
  assumes "r < e" "e < 2 ^ 24"
  shows "fraction_of (of_nat e) (of_nat r) = Some (of_nat ((e - r) * 256 div e))"
proof -
  have s: "sint (of_nat e - of_nat r :: u32) = int (e - r)"
    using assms sint_small_u32 [of "e - r"] by (simp add: of_nat_diff)
  have "(of_nat e :: u32) \<noteq> 0"
    using assms sint_small_u32 [of e] by auto
  moreover have "word_of_int (int (e - r) * 256) div of_nat e = (of_nat ((e - r) * 256 div e) :: u32)"
  proof (rule word_unat_eq_iff [THEN iffD2])
    have "(e - r) * 256 < 2 ^ 32" using assms by simp
    moreover have "(e - r) * 256 div e < 2 ^ 32"
      using calculation by (meson div_le_dividend le_less_trans)
    moreover have "word_of_int (int (e - r) * 256) = (of_nat ((e - r) * 256) :: u32)" by simp
    ultimately show "unat (word_of_int (int (e - r) * 256) div of_nat e :: u32)
        = unat (of_nat ((e - r) * 256 div e) :: u32)"
      using assms by (simp only: unat_div unsigned_of_nat take_bit_eq_mod) simp
  qed
  ultimately show ?thesis
    using assms by (simp add: fraction_of_def s Let_def)
qed

lemma loss_word_split:
  assumes "f < 256" "0 \<le> l" "l < 2 ^ 24"
  defines "w \<equiv> word_of_int l OR push_bit 24 (of_nat f) :: u32"
  shows "unat (drop_bit 24 w) = f" and "uint (take_bit 24 w) = l"
proof -
  have l: "\<not> bit l n" if "24 \<le> n" for n
    using assms(2,3) that by (metis bit_take_bit_iff not_less take_bit_int_eq_self)
  have "drop_bit 24 w = (of_nat f :: u32)"
  proof (rule bit_word_eqI)
    fix n assume "n < LENGTH(32)"
    moreover have "take_bit 8 f = f" using assms(1) by (simp add: take_bit_nat_eq_self)
    then have "bit f n \<Longrightarrow> n < 8" by (metis bit_take_bit_iff)
    ultimately show "bit (drop_bit 24 w) n = bit (of_nat f :: u32) n"
      by (auto simp: w_def bit_simps l)
  qed
  then show "unat (drop_bit 24 w) = f" using assms(1) by (simp add: unat_of_nat_u32)
  have "take_bit 24 w = (word_of_int l :: u32)"
    by (rule bit_word_eqI) (auto simp: w_def bit_simps l)
  then show "uint (take_bit 24 w) = l"
    using assms(2,3) by (simp add: uint_word_of_int)
qed

text \<open>A receiver report written from a context whose interval since the last report expected
  \<open>e\<close> packets and received \<open>r\<close> of them (\<open>0 < r < e\<close>): the block carries the extended
  highest sequence number, the fraction \<open>(e - r) * 256 / e\<close> in its upper byte and the cumulative
  loss, capped at 0x7FFFFF, below it; the interval restarts, and no byte outside of the five
  words changes.
\<close>

theorem report_block_fields:
  assumes j: "0 \<le> jitter c" "jitter c < 2 ^ 32"
    and t: "lsr_ts c \<le> now" "int64_ok ((now - lsr_ts c) * 2 ^ 16)"
    and b: "rb + 24 \<le> length m"
    and i: "expected c = expected_prior c + of_nat e" "received c = received_prior c + of_nat r"
    and r: "0 < r" "r < e" "e < 2 ^ 24" and l: "0 \<le> lost c"
  shows "\<exists>c' m' w. janus_rtcp_report_block now now2 (Some c) m rb = Some (0, Some c', m') \<and>
    rdn32 m' (rb + 8) = Some (push_bit 16 (ucast (seq_cycle c)) + ucast (last_seq_nr c)) \<and>
    rdn32 m' (rb + 4) = Some w \<and> unat (drop_bit 24 w) = (e - r) * 256 div e \<and>
    uint (take_bit 24 w) = min (lost c) 0x7FFFFF \<and>
    rdn32 m' (rb + 12) = Some (word_of_int \<lfloor>jitter c\<rfloor>) \<and> rdn32 m' (rb + 16) = Some (lsr c) \<and>
    expected_prior c' = expected c \<and> received_prior c' = received c \<and> length m' = length m \<and>
    (\<forall>k. k < rb + 4 \<or> rb + 24 \<le> k \<longrightarrow> m' ! k = m ! k)"
proof -
  have f: "janus_rtcp_context_get_lost_fraction (Some c) = Some (push_bit 24 (of_nat ((e - r) * 256 div e)))"
    using fraction_of_nat [OF r(2,3)] i by (simp add: janus_rtcp_context_get_lost_fraction_def)
  have g: "janus_rtcp_context_get_lost (Some c) = word_of_int (min (lost c) 0x7FFFFF)"
    by (simp add: janus_rtcp_context_get_lost_def min_def)
  have "(e - r) * 256 div e < 256" using r by (simp add: div_less_iff_less_mult)
  then show ?thesis
    using j t b f l loss_word_split [of "(e - r) * 256 div e" "min (lost c) 0x7FFFFF"]
    by (simp add: janus_rtcp_report_block_def g wr_defined)
qed

theorem report_block_fields_witness:
  "\<exists>c' m' w. janus_rtcp_report_block 5000 5001
      (Some ((init_context 90000)\<lparr>expected := 8, received := 6, lost := 2\<rparr>)) (replicate 32 0) 8
      = Some (0, Some c', m') \<and> rdn32 m' 12 = Some w \<and> unat (drop_bit 24 w) = 64 \<and>
      uint (take_bit 24 w) = 2 \<and> expected_prior c' = 8"
proof -
  have "int64_ok ((5000 - lsr_ts (init_context 90000)) * 2 ^ 16)"
    by (simp add: int64_ok_def init_context_def)
  then show ?thesis
    using report_block_fields [of "(init_context 90000)\<lparr>expected := 8, received := 6, lost := 2\<rparr>"
        5000 8 "replicate 32 0" 8 6 5001]
    by (simp add: init_context_def del: rd_defined) blast
qed

text \<open>
  When every packet of an interval is lost the code reports a loss fraction of 0: the
  quotient is 256 and \<open>fraction << 24\<close> shifts it out of the word.
\<close>

theorem total_loss_reported_as_zero:
  assumes "expected c = expected_prior c + of_nat e" "received c = received_prior c"
    and "0 < e" "e < 2 ^ 24"
  shows "janus_rtcp_context_get_lost_fraction (Some c) = Some 0"
proof -
  have "(256 :: u32) = push_bit 8 1" by simp
  then have "push_bit 24 (of_nat (e * 256 div e) :: u32) = 0"
    using assms(3) by simp
  then show ?thesis
    using fraction_of_nat [of 0 e] assms by (simp add: janus_rtcp_context_get_lost_fraction_def)
qed

theorem total_loss_reported_as_zero_witness:
  "janus_rtcp_context_get_lost_fraction
     (Some ((init_context 90000)\<lparr>expected := 50, received := 20, expected_prior := 40, received_prior := 20\<rparr>))
   = Some 0"
  using total_loss_reported_as_zero
    [of "(init_context 90000)\<lparr>expected := 50, received := 20, expected_prior := 40, received_prior := 20\<rparr>" 10]
  by (simp add: init_context_def)

text \<open>
  A duplicated packet makes the cumulative loss negative, and \<open>get_lost\<close> turns it into
  \<open>0xFFFFFFFF\<close>, whose upper byte then overwrites the loss fraction of the report block.
\<close>

theorem duplicate_makes_loss_huge:
  fixes rate :: u32
  assumes "0 < s" "s < 65536"
  defines "c \<equiv> track_sequence (init_context rate) (of_nat s) DEFAULT_MAX_NACK_QUEUE"
  shows "janus_rtcp_context_get_lost (Some (track_sequence c (of_nat s) DEFAULT_MAX_NACK_QUEUE)) = 0xFFFFFFFF"
proof -
  have c: "base_seq c = of_nat s" "last_seq_nr c = of_nat s" "seq_cycle c = 0" "received c = 1"
    using tracks_first [OF assms(1,2), of rate] assms by (simp_all add: c_def tracks_def)
  then have "lost (track_sequence c (of_nat s) DEFAULT_MAX_NACK_QUEUE) = -1"
    using of_nat_u16_eq_0 assms(1,2)
    by (simp add: track_sequence_def Let_def DEFAULT_MAX_NACK_QUEUE_def word_gt_0)
  then show ?thesis by (simp add: janus_rtcp_context_get_lost_def)
qed

theorem duplicate_makes_loss_huge_witness:
  "janus_rtcp_context_get_lost (Some (track_sequence
      (track_sequence (init_context 90000) (of_nat 7) DEFAULT_MAX_NACK_QUEUE) (of_nat 7) DEFAULT_MAX_NACK_QUEUE))
   = 0xFFFFFFFF"
  by (rule duplicate_makes_loss_huge) simp_all

end
