(* ===== verification/Rtcp_Walk.thy ===== *)
theory Rtcp_Walk
  imports Rtp_Headers
begin

text \<open>
  The common header of an RTCP packet at some position of a datagram
  (\<open>rtcp_header\<close> of \<open>src/orbit/rtp/janus_rtcp_defines.h\<close>), and the loop over the packets of
  a compound datagram that \<open>janus_rtcp_processor.cc\<close> repeats in seven functions:

    \<open>while(rtcp) { ...; length = ntohs(rtcp->length); if(length == 0) break;\<close>
    \<open>total -= length*4+4; if(total <= 0) break; rtcp += length + 1; }\<close>

  The bodies differ, so the loop takes its body as an argument.  The locale at the end gives
  the loop its meaning on a well-formed compound datagram: it visits every packet once, in order.
\<close>

section \<open>The common header\<close>

definition hdr_version :: "buffer \<Rightarrow> nat \<Rightarrow> u8 option" where
  "hdr_version m pos = map_option (bits 6 2) (rd8 m pos)"

definition hdr_rc :: "buffer \<Rightarrow> nat \<Rightarrow> u8 option" where
  "hdr_rc m pos = map_option (bits 0 5) (rd8 m pos)"

definition hdr_type :: "buffer \<Rightarrow> nat \<Rightarrow> u8 option" where
  "hdr_type m pos = rd8 m (pos + 1)"

definition hdr_length :: "buffer \<Rightarrow> nat \<Rightarrow> u16 option" where
  "hdr_length m pos = rdn16 m (pos + 2)"

definition RTCP_FIR :: u8 where "RTCP_FIR = 192"
definition RTCP_SR :: u8 where "RTCP_SR = 200"
definition RTCP_RR :: u8 where "RTCP_RR = 201"
definition RTCP_SDES :: u8 where "RTCP_SDES = 202"
definition RTCP_BYE :: u8 where "RTCP_BYE = 203"
definition RTCP_APP :: u8 where "RTCP_APP = 204"
definition RTCP_RTPFB :: u8 where "RTCP_RTPFB = 205"
definition RTCP_PSFB :: u8 where "RTCP_PSFB = 206"

lemmas rtcp_type_defs = RTCP_FIR_def RTCP_SR_def RTCP_RR_def RTCP_SDES_def RTCP_BYE_def
  RTCP_APP_def RTCP_RTPFB_def RTCP_PSFB_def

lemmas hdr_defs = hdr_version_def hdr_rc_def hdr_type_def hdr_length_def

section \<open>The loop\<close>

text \<open>
  The state is the datagram and whatever the body keeps.  The body gets the position of the
  packet and its number; \<open>Inl r\<close> is a \<open>return r\<close> from inside of the loop.
\<close>

function rtcp_walk ::
    "(nat \<Rightarrow> nat \<Rightarrow> buffer \<times> 's \<Rightarrow> ('r + buffer \<times> 's) option) \<Rightarrow> nat \<Rightarrow> nat \<Rightarrow> int
     \<Rightarrow> buffer \<times> 's \<Rightarrow> ('r + buffer \<times> 's) option" where
  "rtcp_walk body pos pno tot ms =
     (case body pos (pno + 1) ms of
        None \<Rightarrow> None
      | Some (Inl r) \<Rightarrow> Some (Inl r)
      | Some (Inr ms') \<Rightarrow>
          (case hdr_length (fst ms') pos of
             None \<Rightarrow> None
           | Some w \<Rightarrow>
               if w = 0 then Some (Inr ms')
               else if tot - (uint w * 4 + 4) \<le> 0 then Some (Inr ms')
               else rtcp_walk body (pos + 4 * unat w + 4) (pno + 1) (tot - (uint w * 4 + 4)) ms'))"
  by pat_completeness auto
termination
proof (relation "measure (\<lambda>(_, _, _, tot, _). nat tot)")
  show "((body, pos + 4 * unat w + 4, pno + 1, tot - (uint w * 4 + 4), ms'), body, pos, pno, tot, ms)
      \<in> measure (\<lambda>(_, _, _, tot, _). nat tot)"
    if "\<not> tot - (uint w * 4 + 4) \<le> 0"
    for body :: "nat \<Rightarrow> nat \<Rightarrow> buffer \<times> 's \<Rightarrow> ('r + buffer \<times> 's) option" and pos pno tot ms ms' and w :: u16
  proof -
    have "0 \<le> uint w" by (rule unsigned_greater_eq)
    with that have "nat (tot - (uint w * 4 + 4)) < nat tot" by linarith
    then show ?thesis by simp
  qed
qed simp

declare rtcp_walk.simps [simp del]

section \<open>Compound datagrams\<close>

text \<open>
  A packet as RFC 3550 has it: at least a header and one more word, with a length field that
  counts its words minus one.
\<close>

definition wf_packet :: "buffer \<Rightarrow> bool" where
  "wf_packet p \<longleftrightarrow> 8 \<le> length p \<and> (case hdr_length p 0 of None \<Rightarrow> False | Some w \<Rightarrow> length p = 4 * unat w + 4)"

text \<open>
  What a loop over the packets is meant to compute: \<open>step\<close> gets the offset and the number of
  the packet.
\<close>

fun scan :: "(nat \<Rightarrow> nat \<Rightarrow> buffer \<Rightarrow> 's \<Rightarrow> 'r + buffer \<times> 's) \<Rightarrow> nat \<Rightarrow> nat \<Rightarrow> buffer list \<Rightarrow> 's
     \<Rightarrow> 'r + buffer list \<times> 's" where
  "scan step off pno [] s = Inr ([], s)"
| "scan step off pno (p # ps) s =
     (case step off (pno + 1) p s of
        Inl r \<Rightarrow> Inl r
      | Inr (q, s') \<Rightarrow> map_sum id (map_prod ((#) q) id) (scan step (off + length p) (pno + 1) ps s'))"

text \<open>A step that only reads, and a search for the first packet that satisfies \<open>P\<close>.\<close>

lemma scan_fold:
  "scan (\<lambda>off pno p s. Inr (p, f p s)) off pno ps s = Inr (ps, fold f ps s)"
  by (induction ps arbitrary: off pno s) simp_all

lemma scan_find:
  "scan (\<lambda>off pno p s. if P p then Inl (g off p) else Inr (p, s)) off pno ps s =
     (case dropWhile (\<lambda>p. \<not> P p) ps of
        [] \<Rightarrow> Inr (ps, s)
      | p # _ \<Rightarrow> Inl (g (off + length (concat (takeWhile (\<lambda>p. \<not> P p) ps))) p))"
  by (induction ps arbitrary: off pno s) (simp_all add: add.assoc split: list.split del: dropWhile_eq_Nil_conv)

lemma nth_middle [simp]: "i < length p \<Longrightarrow> (pre @ p @ post) ! (length pre + i) = p ! i"
  by (simp add: nth_append)

lemma rd_middle:
  "i < length p \<Longrightarrow> rd8 (pre @ p @ post) (length pre + i) = rd8 p i"
  "i + 1 < length p \<Longrightarrow> rdn16 (pre @ p @ post) (length pre + i) = rdn16 p i"
  "i + 3 < length p \<Longrightarrow> rdn32 (pre @ p @ post) (length pre + i) = rdn32 p i"
  by (simp_all add: buf_defs nth_append)

lemma rd8_middle_0: "p \<noteq> [] \<Longrightarrow> rd8 (pre @ p @ post) (length pre) = rd8 p 0"
  using rd_middle(1) [of 0 p pre post] by simp

lemma hdr_middle:
  assumes "8 \<le> length p"
  shows "hdr_version (pre @ p @ post) (length pre) = hdr_version p 0"
    "hdr_rc (pre @ p @ post) (length pre) = hdr_rc p 0"
    "hdr_type (pre @ p @ post) (length pre) = hdr_type p 0"
    "hdr_length (pre @ p @ post) (length pre) = hdr_length p 0"
proof -
  have "p \<noteq> []" using assms by auto
  then show "hdr_version (pre @ p @ post) (length pre) = hdr_version p 0"
    "hdr_rc (pre @ p @ post) (length pre) = hdr_rc p 0"
    "hdr_type (pre @ p @ post) (length pre) = hdr_type p 0"
    "hdr_length (pre @ p @ post) (length pre) = hdr_length p 0"
    using assms rd8_middle_0 [of p pre post] rd_middle(1) [of 1 p pre post] rd_middle(2) [of 2 p pre post]
    by (simp_all add: hdr_defs numeral_2_eq_2 del: rd_defined)
qed

lemma wf_packetE:
  assumes "wf_packet p"
  obtains w where "8 \<le> length p" "hdr_length p 0 = Some w" "length p = 4 * unat w + 4" "w \<noteq> 0"
  using assms by (force simp: wf_packet_def split: option.splits)

locale rtcp_scan =
  fixes body :: "nat \<Rightarrow> nat \<Rightarrow> buffer \<times> 's \<Rightarrow> ('r + buffer \<times> 's) option"
    and step :: "nat \<Rightarrow> nat \<Rightarrow> buffer \<Rightarrow> 's \<Rightarrow> 'r + buffer \<times> 's"
    and fits :: "buffer \<Rightarrow> bool"
  assumes body_step: "wf_packet p \<Longrightarrow> fits p \<Longrightarrow>
      body (length pre) pno (pre @ p @ post, s) =
        Some (map_sum id (map_prod (\<lambda>q. pre @ q @ post) id) (step (length pre) pno p s))"
    and step_length: "wf_packet p \<Longrightarrow> fits p \<Longrightarrow> step off pno p s = Inr (q, s') \<Longrightarrow>
      length q = length p \<and> hdr_length q 0 = hdr_length p 0"
begin

theorem walk_scan:
  assumes "ps \<noteq> []" "\<forall>p\<in>set ps. wf_packet p \<and> fits p"
  shows "rtcp_walk body (length pre) pno (int (length (concat ps))) (pre @ concat ps @ post, s) =
         Some (map_sum id (map_prod (\<lambda>qs. pre @ concat qs @ post) id) (scan step (length pre) pno ps s))"
  using assms
proof (induction ps arbitrary: pre pno s rule: list.induct)
  case (Cons p ps)
  then have p: "wf_packet p" "fits p" by simp_all
  obtain w where w: "8 \<le> length p" "hdr_length p 0 = Some w" "length p = 4 * unat w + 4" "w \<noteq> 0"
    using p(1) by (rule wf_packetE)
  let ?tot = "int (length (concat (p # ps)))"
  have body: "body (length pre) (pno + 1) (pre @ concat (p # ps) @ post, s) =
      Some (map_sum id (map_prod (\<lambda>q. pre @ q @ concat ps @ post) id) (step (length pre) (pno + 1) p s))"
    using body_step [OF p] by simp
  show ?case
  proof (cases "step (length pre) (pno + 1) p s")
    case (Inl r)
    then show ?thesis using body by (subst rtcp_walk.simps) simp
  next
    case (Inr qs)
    then obtain q s' where q: "step (length pre) (pno + 1) p s = Inr (q, s')" by (cases qs) simp
    have q': "length q = length p" "hdr_length q 0 = Some w"
      using step_length [OF p q] w by simp_all
    have h: "hdr_length (pre @ q @ concat ps @ post) (length pre) = Some w"
      using hdr_middle(4) [of q pre "concat ps @ post"] q' w(1) by simp
    have t: "?tot - (uint w * 4 + 4) = int (length (concat ps))"
      using w(3) by simp
    have walk: "rtcp_walk body (length pre) pno ?tot (pre @ concat (p # ps) @ post, s) =
        (if ps = [] then Some (Inr (pre @ q @ concat ps @ post, s'))
         else rtcp_walk body (length (pre @ q)) (pno + 1) (int (length (concat ps))) (pre @ q @ concat ps @ post, s'))"
    proof -
      have "ps \<noteq> [] \<Longrightarrow> length (concat ps) > 0"
        using Cons.prems(2) by (cases ps) (auto simp: wf_packet_def)
      then show ?thesis
        using body q h t w(3,4) q'(1) by (subst rtcp_walk.simps) (auto simp: add.commute add.left_commute)
    qed
    show ?thesis
    proof (cases "ps = []")
      case True
      then show ?thesis using walk q by simp
    next
      case False
      have "rtcp_walk body (length (pre @ q)) (pno + 1) (int (length (concat ps))) ((pre @ q) @ concat ps @ post, s') =
          Some (map_sum id (map_prod (\<lambda>qs. (pre @ q) @ concat qs @ post) id) (scan step (length (pre @ q)) (pno + 1) ps s'))"
        using False Cons.prems by (intro Cons.IH) simp_all
      then show ?thesis
        using walk False q q'(1) by (cases "scan step (length (pre @ q)) (pno + 1) ps s'") auto
    qed
  qed
qed simp

corollary walk_datagram:
  assumes "ps \<noteq> []" "\<forall>p\<in>set ps. wf_packet p \<and> fits p"
  shows "rtcp_walk body 0 0 (int (length (concat ps))) (concat ps, s) =
         Some (map_sum id (map_prod concat id) (scan step 0 0 ps s))"
  using walk_scan [OF assms, of "[]" 0 "[]"] by simp

text \<open>The same inside of a larger buffer.\<close>

corollary walk_buffer:
  assumes "ps \<noteq> []" "\<forall>p\<in>set ps. wf_packet p \<and> fits p"
  shows "rtcp_walk body 0 0 (int (length (concat ps))) (concat ps @ post, s) =
         Some (map_sum id (map_prod (\<lambda>qs. concat qs @ post) id) (scan step 0 0 ps s))"
  using walk_scan [OF assms, of "[]" 0 post] by simp

end

end
