(* ===== verification/Janus_Rtcp.thy ===== *)
theory Janus_Rtcp
  imports Rtcp_Walk Janus_Context
begin

text \<open>
  The RTCP message functions of \<open>src/orbit/rtp/janus_rtcp_processor.cc\<close>, NACKs apart: the
  queries on a compound datagram, the in-place SSRC rewrite, the REMB read, write and cap, the
  removal of a NACK and the generators of SDES, REMB, FIR, PLI and BYE.

  \<open>packet\<close> is the datagram buffer (\<open>None\<close> for \<open>NULL\<close>) and \<open>len\<close> the length argument, which
  the code does not relate to the size of the buffer.  Offsets are those of the structs in
  \<open>janus_rtcp_defines.h\<close>: sender SSRC 4, media SSRC and first report block of an RR 8, FCI 12,
  report block of an SR 28.
\<close>

section \<open>Queries\<close>

definition fbnack_body :: "nat \<Rightarrow> nat \<Rightarrow> buffer \<times> unit \<Rightarrow> (u32 + buffer \<times> unit) option" where
  "fbnack_body pos pno ms = (case ms of (m, _) \<Rightarrow> do {
     ty \<leftarrow> hdr_type m pos;
     fmt \<leftarrow> hdr_rc m pos;
     if ty = RTCP_RTPFB \<and> fmt = 1 then map_option Inl (rdn32 m (pos + 8)) else Some (Inr ms) })"

definition janus_rtcp_get_fbnack_media_ssrc :: "buffer option \<Rightarrow> int \<Rightarrow> u32 option" where
  "janus_rtcp_get_fbnack_media_ssrc packet len =
     (case packet of None \<Rightarrow> Some (-1)
      | Some m \<Rightarrow>
          if len \<le> 0 then Some (-1)
          else do {
            version \<leftarrow> hdr_version m 0;
            if version \<noteq> 2 then Some (-2)
            else do {
              r \<leftarrow> rtcp_walk fbnack_body 0 0 len (m, ());
              Some (case r of Inl media \<Rightarrow> media | Inr _ \<Rightarrow> 0) } })"

definition has_fir_body :: "nat \<Rightarrow> nat \<Rightarrow> buffer \<times> bool \<Rightarrow> (unit + buffer \<times> bool) option" where
  "has_fir_body pos pno ms = (case ms of (m, got_fir) \<Rightarrow> do {
     ty \<leftarrow> hdr_type m pos;
     Some (Inr (m, if ty = RTCP_FIR then True else got_fir)) })"

definition janus_rtcp_has_fir :: "buffer \<Rightarrow> int \<Rightarrow> bool option" where
  "janus_rtcp_has_fir m len = do {
     version \<leftarrow> hdr_version m 0;
     if version \<noteq> 2 then Some False
     else do {
       r \<leftarrow> rtcp_walk has_fir_body 0 0 len (m, False);
       Some (case r of Inl _ \<Rightarrow> False | Inr (_, got_fir) \<Rightarrow> got_fir) } }"

definition has_pli_body :: "nat \<Rightarrow> nat \<Rightarrow> buffer \<times> bool \<Rightarrow> (unit + buffer \<times> bool) option" where
  "has_pli_body pos pno ms = (case ms of (m, got_pli) \<Rightarrow> do {
     ty \<leftarrow> hdr_type m pos;
     fmt \<leftarrow> hdr_rc m pos;
     Some (Inr (m, if ty = RTCP_PSFB \<and> fmt = 1 then True else got_pli)) })"

definition janus_rtcp_has_pli :: "buffer \<Rightarrow> int \<Rightarrow> bool option" where
  "janus_rtcp_has_pli m len = do {
     version \<leftarrow> hdr_version m 0;
     if version \<noteq> 2 then Some False
     else do {
       r \<leftarrow> rtcp_walk has_pli_body 0 0 len (m, False);
       Some (case r of Inl _ \<Rightarrow> False | Inr (_, got_pli) \<Rightarrow> got_pli) } }"

section \<open>REMB\<close>

fun has_id :: "u8 list \<Rightarrow> buffer \<Rightarrow> nat \<Rightarrow> bool option" where
  "has_id [] m off = Some True"
| "has_id (c # cs) m off = do { b \<leftarrow> rd8 m off; if b = c then has_id cs m (off + 1) else Some False }"

definition REMB_ID :: "u8 list" where "REMB_ID = [0x52, 0x45, 0x4D, 0x42]"

text \<open>
  The bitrate of the REMB whose four bitrate bytes start at \<open>d\<close>.  \<open>brMantissa << brExp\<close> is a
  32-bit shift, undefined from 32 on.
\<close>

definition remb_bitrate :: "buffer \<Rightarrow> nat \<Rightarrow> u64 option" where
  "remb_bitrate m d = do {
     d1 \<leftarrow> rd8 m (d + 1);
     d2 \<leftarrow> rd8 m (d + 2);
     d3 \<leftarrow> rd8 m (d + 3);
     let brExp = unat (drop_bit 2 d1 AND 0x3F);
         brMantissa = push_bit 16 (ucast (d1 AND 3)) + push_bit 8 (ucast d2) + ucast d3 :: u32
     in if 32 \<le> brExp then None else Some (ucast (push_bit brExp brMantissa)) }"

text \<open>\<open>for(b=0; b<64; b++) if(bitrate <= (0x3FFFF << b)) break;\<close>\<close>

function brexp_loop :: "u64 \<Rightarrow> nat \<Rightarrow> nat" where
  "brexp_loop bitrate b =
     (if b < 64 \<and> \<not> bitrate \<le> push_bit b 0x3FFFF then brexp_loop bitrate (b + 1) else b)"
  by pat_completeness auto
termination
  by (relation "measure (\<lambda>(_, b). 64 - b)") auto

declare brexp_loop.simps [simp del]

text \<open>Exponent and mantissa bytes; \<open>bitrate >> 64\<close> (no exponent found) is undefined.\<close>

definition put_bitrate :: "buffer \<Rightarrow> nat \<Rightarrow> u64 \<Rightarrow> buffer option" where
  "put_bitrate m d bitrate =
     (let b = brexp_loop bitrate 0 in
      if 64 \<le> b then None
      else let newbrmantissa = ucast (drop_bit b bitrate) :: u32 in
        put_bytes m (d + 1)
          [ucast (push_bit 2 (of_nat b) + (drop_bit 16 newbrmantissa AND 3)),
           ucast (drop_bit 8 newbrmantissa), ucast newbrmantissa])"

definition get_remb_body :: "nat \<Rightarrow> nat \<Rightarrow> buffer \<times> unit \<Rightarrow> (u64 + buffer \<times> unit) option" where
  "get_remb_body pos pno ms = (case ms of (m, _) \<Rightarrow> do {
     ty \<leftarrow> hdr_type m pos;
     fmt \<leftarrow> hdr_rc m pos;
     if ty = RTCP_PSFB \<and> fmt = 15 then do {
       remb \<leftarrow> has_id REMB_ID m (pos + 12);
       if remb then map_option Inl (remb_bitrate m (pos + 16)) else Some (Inr ms) }
     else Some (Inr ms) })"

definition janus_rtcp_get_remb :: "buffer option \<Rightarrow> int \<Rightarrow> u64 option" where
  "janus_rtcp_get_remb packet len =
     (case packet of None \<Rightarrow> Some 0
      | Some m \<Rightarrow>
          if len = 0 then Some 0
          else do {
            version \<leftarrow> hdr_version m 0;
            if version \<noteq> 2 then Some 0
            else do {
              r \<leftarrow> rtcp_walk get_remb_body 0 0 len (m, ());
              Some (case r of Inl bitrate \<Rightarrow> bitrate | Inr _ \<Rightarrow> 0) } })"

definition cap_remb_body :: "u64 \<Rightarrow> nat \<Rightarrow> nat \<Rightarrow> buffer \<times> unit \<Rightarrow> (unit + buffer \<times> unit) option" where
  "cap_remb_body bitrate pos pno ms = (case ms of (m, _) \<Rightarrow> do {
     ty \<leftarrow> hdr_type m pos;
     fmt \<leftarrow> hdr_rc m pos;
     if ty = RTCP_PSFB \<and> fmt = 15 then do {
       remb \<leftarrow> has_id REMB_ID m (pos + 12);
       if remb then do {
         origbitrate \<leftarrow> remb_bitrate m (pos + 16);
         if origbitrate > bitrate
         then map_option (\<lambda>m. Inr (m, ())) (put_bitrate m (pos + 16) bitrate)
         else Some (Inr ms) }
       else Some (Inr ms) }
     else Some (Inr ms) })"

definition janus_rtcp_cap_remb :: "buffer option \<Rightarrow> int \<Rightarrow> u64 \<Rightarrow> (int \<times> buffer option) option" where
  "janus_rtcp_cap_remb packet len bitrate =
     (case packet of None \<Rightarrow> Some (-1, None)
      | Some m \<Rightarrow>
          if len = 0 then Some (-1, packet)
          else do {
            version \<leftarrow> hdr_version m 0;
            if version \<noteq> 2 then Some (-2, packet)
            else if bitrate = 0 then Some (0, packet)
            else do {
              r \<leftarrow> rtcp_walk (cap_remb_body bitrate) 0 0 len (m, ());
              Some (case r of Inl _ \<Rightarrow> (0, packet) | Inr (m', _) \<Rightarrow> (0, Some m')) } })"

section \<open>Generators\<close>

text \<open>\<open>version = 2; type = ty; rc = rc\<close>: the padding bit keeps its value.\<close>

definition put_header :: "buffer \<Rightarrow> u8 \<Rightarrow> u8 \<Rightarrow> buffer option" where
  "put_header m ty rc = do {
     m \<leftarrow> upd8 (set_bits 6 2 2) m 0;
     m \<leftarrow> wr8 m 1 ty;
     upd8 (set_bits 0 5 rc) m 0 }"

definition janus_rtcp_remb :: "buffer option \<Rightarrow> int \<Rightarrow> u64 \<Rightarrow> (int \<times> buffer option) option" where
  "janus_rtcp_remb packet len bitrate =
     (case packet of None \<Rightarrow> Some (-1, None)
      | Some m \<Rightarrow>
          if len \<noteq> 24 then Some (-1, packet)
          else do {
            m \<leftarrow> put_header m RTCP_PSFB 15;
            m \<leftarrow> wrn16 m 2 5;
            m \<leftarrow> put_bytes m 12 REMB_ID;
            m \<leftarrow> wr8 m 16 1;
            m \<leftarrow> put_bitrate m 16 bitrate;
            Some (24, Some m) })"

definition janus_rtcp_sdes :: "buffer option \<Rightarrow> int \<Rightarrow> u8 list option \<Rightarrow> int \<Rightarrow> (int \<times> buffer option) option" where
  "janus_rtcp_sdes packet len cname cnamelen =
     (case (packet, cname) of
        (Some m, Some cn) \<Rightarrow>
          if len \<le> 0 \<or> cnamelen \<le> 0 then Some (-1, packet)
          else do {
            m \<leftarrow> memset0 m 0 (nat len);
            m \<leftarrow> put_header m RTCP_SDES 1;
            let plen = 12 + (cnamelen + 2) + (if (cnamelen + 2) mod 4 \<noteq> 0 then 4 else 0) in
            if len < plen then Some (-1, Some m)
            else do {
              m \<leftarrow> wrn16 m 2 (word_of_int (plen div 4 - 1));
              m \<leftarrow> wr8 m 12 1;
              m \<leftarrow> wr8 m 13 (word_of_int cnamelen);
              m \<leftarrow> (if nat cnamelen \<le> length cn then put_bytes m 14 (take (nat cnamelen) cn) else None);
              Some (plen, Some m) } }
      | _ \<Rightarrow> Some (-1, packet))"

text \<open>\<open>*seqnr = *seqnr + 1\<close>, reset outside of 0..255; the increment of \<open>INT_MAX\<close> is undefined.\<close>

definition next_seqnr :: "int \<Rightarrow> int option" where
  "next_seqnr seqnr =
     (if seqnr = 2 ^ 31 - 1 then None
      else Some (if seqnr + 1 < 0 \<or> 256 \<le> seqnr + 1 then 0 else seqnr + 1))"

definition put_fir :: "u8 \<Rightarrow> buffer option \<Rightarrow> int \<Rightarrow> int option \<Rightarrow> (int \<times> buffer option \<times> int option) option" where
  "put_fir ty packet len seqnr =
     (case (packet, seqnr) of
        (Some m, Some n) \<Rightarrow>
          if len \<noteq> 20 then Some (-1, packet, seqnr)
          else do {
            n \<leftarrow> next_seqnr n;
            m \<leftarrow> put_header m ty 4;
            m \<leftarrow> wrn16 m 2 4;
            m \<leftarrow> wrn32 m 16 (push_bit 24 (word_of_int n));
            Some (20, Some m, Some n) }
      | _ \<Rightarrow> Some (-1, packet, seqnr))"

definition janus_rtcp_fir :: "buffer option \<Rightarrow> int \<Rightarrow> int option \<Rightarrow> (int \<times> buffer option \<times> int option) option" where
  "janus_rtcp_fir = put_fir RTCP_PSFB"

definition janus_rtcp_fir_legacy :: "buffer option \<Rightarrow> int \<Rightarrow> int option \<Rightarrow> (int \<times> buffer option \<times> int option) option" where
  "janus_rtcp_fir_legacy = put_fir RTCP_FIR"

definition put_short :: "u8 \<Rightarrow> buffer option \<Rightarrow> int \<Rightarrow> (int \<times> buffer option) option" where
  "put_short ty packet len =
     (case packet of None \<Rightarrow> Some (-1, None)
      | Some m \<Rightarrow>
          if len \<noteq> 12 then Some (-1, packet)
          else do {
            m \<leftarrow> put_header m ty 1;
            m \<leftarrow> wrn16 m 2 2;
            Some (12, Some m) })"

definition janus_rtcp_pli :: "buffer option \<Rightarrow> int \<Rightarrow> (int \<times> buffer option) option" where
  "janus_rtcp_pli = put_short RTCP_PSFB"

definition janus_rtcp_bye :: "buffer option \<Rightarrow> int \<Rightarrow> (int \<times> buffer option) option" where
  "janus_rtcp_bye = put_short RTCP_BYE"

section \<open>Removal of a NACK\<close>

text \<open>
  The loop looks for the first generic NACK and leaves with its position and its size in bytes
  (0 when its length field is 0).
\<close>

definition find_nack_body :: "nat \<Rightarrow> nat \<Rightarrow> buffer \<times> unit \<Rightarrow> (nat \<times> nat + buffer \<times> unit) option" where
  "find_nack_body pos pno ms = (case ms of (m, _) \<Rightarrow> do {
     ty \<leftarrow> hdr_type m pos;
     fmt \<leftarrow> hdr_rc m pos;
     if ty = RTCP_RTPFB \<and> fmt = 1 then do {
       w \<leftarrow> hdr_length m pos;
       Some (Inl (pos, if w = 0 then 0 else 4 * unat w + 4)) }
     else Some (Inr ms) })"

text \<open>\<open>for(i=0; i<total; i++) *(dst+i) = *(src+i);\<close>\<close>

fun move_down :: "buffer \<Rightarrow> nat \<Rightarrow> nat \<Rightarrow> nat \<Rightarrow> buffer option" where
  "move_down m dst src 0 = Some m"
| "move_down m dst src (Suc n) = do { b \<leftarrow> rd8 m src; m \<leftarrow> wr8 m dst b; move_down m (dst + 1) (src + 1) n }"

definition janus_rtcp_remove_nacks :: "buffer option \<Rightarrow> int \<Rightarrow> (int \<times> buffer option) option" where
  "janus_rtcp_remove_nacks packet len =
     (case packet of None \<Rightarrow> Some (len, None)
      | Some m \<Rightarrow>
          if len = 0 then Some (len, packet)
          else do {
            version \<leftarrow> hdr_version m 0;
            if version \<noteq> 2 then Some (len, packet)
            else do {
              r \<leftarrow> rtcp_walk find_nack_body 0 0 len (m, ());
              (case r of
                 Inr _ \<Rightarrow> Some (len, packet)
               | Inl (nacks, nacks_len) \<Rightarrow>
                   let rest = len - int (nacks + nacks_len) in
                   if rest < 0 then Some (len, packet)
                   else if rest = 0 then Some (len - int nacks_len, packet)
                   else do {
                     m \<leftarrow> move_down m nacks (nacks + nacks_len) (nat rest);
                     Some (len - int nacks_len, Some m) }) } })"

section \<open>SSRC rewrite\<close>

text \<open>
  \<open>janus_rtcp_fix_ssrc\<close> visits every packet, rewrites SSRCs in place when asked to, and feeds
  sender reports to the context.  One definition per case of the switch; \<open>nl\<close> and \<open>nr\<close> are the
  new local and remote SSRC, 0 for "leave alone".  The clock is read once per sender report,
  so its readings are a function of the packet's number.
\<close>

definition put_if :: "bool \<Rightarrow> buffer \<Rightarrow> nat \<Rightarrow> u32 \<Rightarrow> buffer option" where
  "put_if c m off v = (if c then wrn32 m off v else Some m)"

definition fix_sr ::
    "bool \<Rightarrow> u32 \<Rightarrow> u32 \<Rightarrow> int \<Rightarrow> nat \<Rightarrow> buffer \<times> rtcp_context option \<Rightarrow> (buffer \<times> rtcp_context option) option" where
  "fix_sr fixssrc nl nr now pos ms = (case ms of (m, ctx) \<Rightarrow> do {
     ctx \<leftarrow> janus_rtcp_incoming_sr now ctx m pos;
     m \<leftarrow> put_if (fixssrc \<and> nl \<noteq> 0) m (pos + 4) nl;
     rc \<leftarrow> hdr_rc m pos;
     m \<leftarrow> put_if (fixssrc \<and> nr \<noteq> 0 \<and> rc > 0) m (pos + 28) nr;
     Some (m, ctx) })"

definition fix_rr :: "bool \<Rightarrow> u32 \<Rightarrow> u32 \<Rightarrow> nat \<Rightarrow> buffer \<Rightarrow> buffer option" where
  "fix_rr fixssrc nl nr pos m = do {
     m \<leftarrow> put_if (fixssrc \<and> nl \<noteq> 0) m (pos + 4) nl;
     rc \<leftarrow> hdr_rc m pos;
     put_if (fixssrc \<and> nr \<noteq> 0 \<and> rc > 0) m (pos + 8) nr }"

definition fix_sdes :: "bool \<Rightarrow> u32 \<Rightarrow> nat \<Rightarrow> buffer \<Rightarrow> buffer option" where
  "fix_sdes fixssrc nl pos m = put_if (fixssrc \<and> nl \<noteq> 0) m (pos + 8) nl"

definition fix_bye_app :: "bool \<Rightarrow> u32 \<Rightarrow> nat \<Rightarrow> buffer \<Rightarrow> buffer option" where
  "fix_bye_app fixssrc nl pos m = put_if (fixssrc \<and> nl \<noteq> 0) m (pos + 4) nl"

definition fix_fir :: "bool \<Rightarrow> u32 \<Rightarrow> nat \<Rightarrow> buffer \<Rightarrow> buffer option" where
  "fix_fir fixssrc nr pos m = do {
     w \<leftarrow> hdr_length m pos;
     m \<leftarrow> put_if (fixssrc \<and> nr \<noteq> 0 \<and> 20 \<le> w) m (pos + 8) nr;
     put_if (fixssrc \<and> nr \<noteq> 0) m (pos + 12) nr }"

text \<open>The \<open>pid\<close> and \<open>blp\<close> fields of \<open>n\<close> NACK blocks.\<close>

fun nack_fields :: "buffer \<Rightarrow> nat \<Rightarrow> nat \<Rightarrow> (u16 \<times> u16) list option" where
  "nack_fields m off 0 = Some []"
| "nack_fields m off (Suc n) = do {
     pid \<leftarrow> rdn16 m off;
     blp \<leftarrow> rdn16 m (off + 2);
     rest \<leftarrow> nack_fields m (off + 4) n;
     Some ((pid, blp) # rest) }"

definition fix_rtpfb :: "bool \<Rightarrow> u32 \<Rightarrow> u32 \<Rightarrow> nat \<Rightarrow> buffer \<Rightarrow> buffer option" where
  "fix_rtpfb fixssrc nl nr pos m = do {
     fmt \<leftarrow> hdr_rc m pos;
     m \<leftarrow> (if fmt = 1 then do {
             m \<leftarrow> put_if (fixssrc \<and> nr \<noteq> 0) m (pos + 8) nr;
             w \<leftarrow> hdr_length m pos;
             _ \<leftarrow> nack_fields m (pos + 12) (nat (uint w - 2));
             Some m }
           else if fmt = 3 then put_if (fixssrc \<and> nr \<noteq> 0) m (pos + 12) nr
           else Some m);
     put_if (fixssrc \<and> nl \<noteq> 0) m (pos + 4) nl }"

definition fix_psfb :: "bool \<Rightarrow> u32 \<Rightarrow> u32 \<Rightarrow> nat \<Rightarrow> buffer \<Rightarrow> buffer option" where
  "fix_psfb fixssrc nl nr pos m = do {
     fmt \<leftarrow> hdr_rc m pos;
     m \<leftarrow> (if fmt = 1 then put_if (fixssrc \<and> nr \<noteq> 0) m (pos + 8) nr
           else if fmt = 4 then do {
             m \<leftarrow> put_if (fixssrc \<and> nr \<noteq> 0) m (pos + 8) nr;
             put_if (fixssrc \<and> nr \<noteq> 0) m (pos + 12) nr }
           else if fmt = 5 then put_if (fixssrc \<and> nr \<noteq> 0) m (pos + 12) nr
           else if fmt = 15 then do {
             remb \<leftarrow> has_id REMB_ID m (pos + 12);
             if remb then do {
               m \<leftarrow> put_if (fixssrc \<and> nr \<noteq> 0) m (pos + 20) nr;
               _ \<leftarrow> rd8 m (pos + 16);
               _ \<leftarrow> remb_bitrate m (pos + 16);
               _ \<leftarrow> rdn32 m (pos + 20);
               Some m }
             else Some m }
           else Some m);
     put_if (fixssrc \<and> nl \<noteq> 0) m (pos + 4) nl }"

definition fix_ssrc_body ::
    "bool \<Rightarrow> u32 \<Rightarrow> u32 \<Rightarrow> (nat \<Rightarrow> int) \<Rightarrow> nat \<Rightarrow> nat \<Rightarrow> buffer \<times> rtcp_context option
     \<Rightarrow> (unit + buffer \<times> rtcp_context option) option" where
  "fix_ssrc_body fixssrc nl nr now pos pno ms = (case ms of (m, ctx) \<Rightarrow> do {
     ty \<leftarrow> hdr_type m pos;
     let keep = map_option (\<lambda>m. Inr (m, ctx)) in
     if ty = RTCP_SR then map_option Inr (fix_sr fixssrc nl nr (now pno) pos ms)
     else if ty = RTCP_RR then keep (fix_rr fixssrc nl nr pos m)
     else if ty = RTCP_SDES then keep (fix_sdes fixssrc nl pos m)
     else if ty = RTCP_BYE \<or> ty = RTCP_APP then keep (fix_bye_app fixssrc nl pos m)
     else if ty = RTCP_FIR then keep (fix_fir fixssrc nr pos m)
     else if ty = RTCP_RTPFB then keep (fix_rtpfb fixssrc nl nr pos m)
     else if ty = RTCP_PSFB then keep (fix_psfb fixssrc nl nr pos m)
     else Some (Inr ms) })"

definition janus_rtcp_fix_ssrc ::
    "(nat \<Rightarrow> int) \<Rightarrow> rtcp_context option \<Rightarrow> buffer option \<Rightarrow> int \<Rightarrow> bool \<Rightarrow> u32 \<Rightarrow> u32
     \<Rightarrow> (int \<times> buffer option \<times> rtcp_context option) option" where
  "janus_rtcp_fix_ssrc now ctx packet len fixssrc newssrcl newssrcr =
     (case packet of None \<Rightarrow> Some (-1, None, ctx)
      | Some m \<Rightarrow>
          if len \<le> 0 then Some (-1, packet, ctx)
          else do {
            version \<leftarrow> hdr_version m 0;
            if version \<noteq> 2 then Some (-2, packet, ctx)
            else do {
              r \<leftarrow> rtcp_walk (fix_ssrc_body fixssrc newssrcl newssrcr now) 0 0 len (m, ctx);
              Some (case r of Inl _ \<Rightarrow> (0, packet, ctx) | Inr (m', ctx') \<Rightarrow> (0, Some m', ctx')) } })"

definition janus_rtcp_parse ::
    "(nat \<Rightarrow> int) \<Rightarrow> rtcp_context option \<Rightarrow> buffer option \<Rightarrow> int
     \<Rightarrow> (int \<times> buffer option \<times> rtcp_context option) option" where
  "janus_rtcp_parse now ctx packet len = janus_rtcp_fix_ssrc now ctx packet len False 0 0"

section \<open>Queries on compound datagrams\<close>

definition pkt_type :: "buffer \<Rightarrow> u8" where "pkt_type p = p ! 1"
definition pkt_fmt :: "buffer \<Rightarrow> u8" where "pkt_fmt p = bits 0 5 (p ! 0)"

definition is_nack :: "buffer \<Rightarrow> bool" where
  "is_nack p \<longleftrightarrow> pkt_type p = RTCP_RTPFB \<and> pkt_fmt p = 1"

lemma hdr_of_packet:
  assumes "wf_packet p"
  shows "hdr_type (pre @ p @ post) (length pre) = Some (pkt_type p)"
    "hdr_rc (pre @ p @ post) (length pre) = Some (pkt_fmt p)"
    "hdr_length (pre @ p @ post) (length pre) = Some (of_nat (length p div 4 - 1))"
proof -
  obtain w where w: "8 \<le> length p" "hdr_length p 0 = Some w" "length p = 4 * unat w + 4"
    using assms by (rule wf_packetE)
  then have "p \<noteq> []" "Suc 0 < length p" by auto
  then show "hdr_type (pre @ p @ post) (length pre) = Some (pkt_type p)"
    "hdr_rc (pre @ p @ post) (length pre) = Some (pkt_fmt p)"
    "hdr_length (pre @ p @ post) (length pre) = Some (of_nat (length p div 4 - 1))"
    using hdr_middle [OF w(1), of pre post] w
    by (simp_all add: hdr_type_def hdr_rc_def pkt_type_def pkt_fmt_def del: word_of_nat_eq_iff)
qed

interpretation fir: rtcp_scan has_fir_body
  "\<lambda>off pno p got. Inr (p, if pkt_type p = RTCP_FIR then True else got)" "\<lambda>p. True"
  by unfold_locales (simp_all add: has_fir_body_def hdr_of_packet)

interpretation pli: rtcp_scan has_pli_body
  "\<lambda>off pno p got. Inr (p, if pkt_type p = RTCP_PSFB \<and> pkt_fmt p = 1 then True else got)" "\<lambda>p. True"
  by unfold_locales (simp_all add: has_pli_body_def hdr_of_packet)

lemma version_of_datagram:
  assumes "wf_packet p"
  shows "hdr_version (concat (p # ps)) 0 = hdr_version p 0"
  using assms hdr_middle(1) [of p "[]"] by (simp add: wf_packet_def)

lemma fold_exists: "fold (\<lambda>p got. if P p then True else got) ps b \<longleftrightarrow> b \<or> (\<exists>p\<in>set ps. P p)"
  by (induction ps arbitrary: b) auto

text \<open>On a well-formed compound datagram \<open>janus_rtcp_has_fir\<close> tells whether some packet of it
  is a (RFC 2032) FIR, and \<open>janus_rtcp_has_pli\<close> whether some packet of it is a picture loss
  indication; neither reads outside of the datagram.
\<close>

theorem has_fir_has_pli_compound:
  assumes "\<forall>p\<in>set ps. wf_packet p" "ps \<noteq> []" "hdr_version (hd ps) 0 = Some 2"
  shows "janus_rtcp_has_fir (concat ps) (int (length (concat ps))) = Some (\<exists>p\<in>set ps. pkt_type p = RTCP_FIR) \<and>
    janus_rtcp_has_pli (concat ps) (int (length (concat ps))) =
      Some (\<exists>p\<in>set ps. pkt_type p = RTCP_PSFB \<and> pkt_fmt p = 1)"
proof -
  have "hdr_version (concat ps) 0 = Some 2"
    using assms version_of_datagram [of "hd ps" "tl ps"] by simp
  then show ?thesis
    using fir.walk_datagram [of ps False] pli.walk_datagram [of ps False] assms(1,2)
    by (simp add: janus_rtcp_has_fir_def janus_rtcp_has_pli_def scan_fold fold_exists)
qed

theorem has_fir_has_pli_compound_witness:
  "janus_rtcp_has_pli [0x80, 200, 0, 1, 0, 0, 0, 7, 0x81, 206, 0, 2, 0, 0, 0, 7, 0, 0, 0, 9] 20 = Some True"
  using has_fir_has_pli_compound
    [of "[[0x80, 200, 0, 1, 0, 0, 0, 7], [0x81, 206, 0, 2, 0, 0, 0, 7, 0, 0, 0, 9]]"]
  by (simp add: wf_packet_def hdr_length_def hdr_version_def bits_def le16_def pkt_type_def pkt_fmt_def
      rtcp_type_defs)

section \<open>Removal of the first NACK\<close>

interpretation nk: rtcp_scan find_nack_body
  "\<lambda>off pno p s. if is_nack p then Inl (off, length p) else Inr (p, s)" "\<lambda>p. True"
proof unfold_locales
  show "find_nack_body (length pre) pno (pre @ p @ post, s) =
      Some (map_sum id (map_prod (\<lambda>q. pre @ q @ post) id)
        (if is_nack p then Inl (length pre, length p) else Inr (p, s)))"
    if wf: "wf_packet p" for pre pno p post s
  proof -
    obtain w where w: "8 \<le> length p" "hdr_length p 0 = Some w" "length p = 4 * unat w + 4" "w \<noteq> 0"
      using wf by (rule wf_packetE)
    then show ?thesis
      using hdr_of_packet [OF wf] hdr_middle(4) [OF w(1)] by (simp add: find_nack_body_def is_nack_def)
  qed
qed (simp split: if_splits)

lemma move_down_spec:
  assumes "dst \<le> src" "src + n \<le> length m"
  shows "\<exists>m'. move_down m dst src n = Some m' \<and> length m' = length m \<and>
    take (dst + n) m' = take dst m @ take n (drop src m)"
  using assms
proof (induction n arbitrary: m dst src)
  case (Suc n)
  let ?m = "m[dst := m ! src]"
  obtain m' where m': "move_down ?m (dst + 1) (src + 1) n = Some m'" "length m' = length ?m"
    "take (dst + 1 + n) m' = take (dst + 1) ?m @ take n (drop (src + 1) ?m)"
    using Suc.IH [of "dst + 1" "src + 1" ?m] Suc.prems by auto
  moreover have "take (dst + 1) ?m = take dst m @ [m ! src]"
    using Suc.prems by (simp add: take_Suc_conv_app_nth)
  moreover have "take (Suc n) (drop src m) = m ! src # take n (drop (Suc src) m)"
    using Suc.prems by (simp add: Cons_nth_drop_Suc [symmetric])
  ultimately show ?case using Suc.prems by (simp add: wr_defined)
qed simp

text \<open>
  \<open>janus_rtcp_remove_nacks\<close> on a well-formed compound datagram: the first generic NACK is cut
  out, the other packets stay in order, the returned length is that of what is left; a datagram
  without NACK is returned as it is.  The loop that moves the tail stays inside of the datagram.
\<close>

theorem remove_nacks_first:
  assumes "\<forall>p\<in>set ps. wf_packet p" "ps \<noteq> []" "hdr_version (hd ps) 0 = Some 2"
  defines "rest \<equiv> takeWhile (\<lambda>p. \<not> is_nack p) ps @ tl (dropWhile (\<lambda>p. \<not> is_nack p) ps)"
  shows "\<exists>m. janus_rtcp_remove_nacks (Some (concat ps)) (int (length (concat ps))) =
      Some (int (length (concat rest)), Some m) \<and> take (length (concat rest)) m = concat rest"
proof -
  have v: "hdr_version (concat ps) 0 = Some 2"
    using assms version_of_datagram [of "hd ps" "tl ps"] by simp
  have walk: "rtcp_walk find_nack_body 0 0 (int (length (concat ps))) (concat ps, ()) =
      Some (map_sum id (map_prod concat id) (case dropWhile (\<lambda>p. \<not> is_nack p) ps of
        [] \<Rightarrow> Inr (ps, ())
      | p # _ \<Rightarrow> Inl (length (concat (takeWhile (\<lambda>p. \<not> is_nack p) ps)), length p)))"
    using nk.walk_datagram [of ps "()"] assms(1,2)
    by (cases "dropWhile (\<lambda>p. \<not> is_nack p) ps")
      (simp_all add: scan_find del: dropWhile_eq_Nil_conv)
  have ne: "concat ps \<noteq> []" using assms(1,2) by (cases ps) (auto simp: wf_packet_def)
  show ?thesis
  proof (cases "dropWhile (\<lambda>p. \<not> is_nack p) ps")
    case Nil
    then have "rest = ps" by (metis rest_def list.sel(2) takeWhile_dropWhile_id)
    then show ?thesis
      using walk v Nil ne by (simp add: janus_rtcp_remove_nacks_def)
  next
    case (Cons p qs)
    define a b where "a = concat (takeWhile (\<lambda>p. \<not> is_nack p) ps)" and "b = concat qs"
    have split: "concat ps = a @ p @ b" unfolding a_def b_def
      by (metis Cons concat.simps(2) concat_append takeWhile_dropWhile_id)
    have r: "concat rest = a @ b" using Cons by (simp add: rest_def a_def b_def)
    obtain m where m: "move_down (a @ p @ b) (length a) (length a + length p) (length b) = Some m"
      "take (length a + length b) m = a @ b"
      using move_down_spec [of "length a" "length a + length p" "length b" "a @ p @ b"] by auto
    have w: "rtcp_walk find_nack_body 0 0 (int (length (a @ p @ b))) (a @ p @ b, ()) = Some (Inl (length a, length p))"
      using walk Cons split by (simp add: a_def)
    show ?thesis
    proof (cases "b = []")
      case True
      moreover have "int (length a) + int (length p) \<noteq> 0"
        using ne True unfolding split by (cases a; cases p) auto
      ultimately show ?thesis
        using v w r unfolding split by (simp add: janus_rtcp_remove_nacks_def)
    next
      case False
      moreover from False have "int (length a) + (int (length p) + int (length b)) \<noteq> 0"
        by (cases b) auto
      ultimately show ?thesis
        using v w r m unfolding split by (simp add: janus_rtcp_remove_nacks_def)
    qed
  qed
qed

theorem remove_nacks_first_witness:
  "\<exists>m. janus_rtcp_remove_nacks
      (Some [0x81, 205, 0, 3, 0, 0, 0, 7, 0, 0, 0, 9, 1, 2, 0, 0, 0x80, 200, 0, 1, 0, 0, 0, 7]) 24 =
      Some (8, Some m) \<and> take (length [0x80, 200, 0, 1, 0, 0, 0, 7 :: u8]) m = [0x80, 200, 0, 1, 0, 0, 0, 7]"
  using remove_nacks_first
    [of "[[0x81, 205, 0, 3, 0, 0, 0, 7, 0, 0, 0, 9, 1, 2, 0, 0], [0x80, 200, 0, 1, 0, 0, 0, 7]]"]
  by (simp add: wf_packet_def hdr_length_def hdr_version_def bits_def le16_def pkt_type_def pkt_fmt_def
      is_nack_def rtcp_type_defs)

section \<open>REMB round trip and cap\<close>

lemma brexp_loop_spec:
  assumes "b \<le> 64" "\<And>i. i < b \<Longrightarrow> push_bit i 0x3FFFF < r"
  shows "brexp_loop r b \<le> 64 \<and> (\<forall>i < brexp_loop r b. push_bit i 0x3FFFF < r) \<and>
    (brexp_loop r b < 64 \<longrightarrow> r \<le> push_bit (brexp_loop r b) 0x3FFFF)"
  using assms
proof (induction r b rule: brexp_loop.induct)
  case (1 r b)
  show ?case
  proof (cases "b < 64 \<and> \<not> r \<le> push_bit b 0x3FFFF")
    case True
    have "brexp_loop r b = brexp_loop r (b + 1)" using True by (subst brexp_loop.simps) simp
    moreover have "push_bit i 0x3FFFF < r" if "i < b + 1" for i
      using that True 1(3) by (cases "i = b") auto
    ultimately show ?thesis using 1(1) [OF True] True by simp
  next
    case False
    then have "brexp_loop r b = b" by (subst brexp_loop.simps) auto
    then show ?thesis using False 1(2,3) by auto
  qed
qed

lemma brexp_bounds:
  assumes "unat r < 2 ^ 32"
  shows "brexp_loop r 0 \<le> 15" "unat r div 2 ^ brexp_loop r 0 < 2 ^ 18"
proof -
  have spec: "\<forall>i < brexp_loop r 0. push_bit i 0x3FFFF < r"
    "brexp_loop r 0 < 64 \<longrightarrow> r \<le> push_bit (brexp_loop r 0) 0x3FFFF"
    using brexp_loop_spec [of 0 r] by auto
  show b: "brexp_loop r 0 \<le> 15"
  proof (rule ccontr)
    assume "\<not> brexp_loop r 0 \<le> 15"
    then have "push_bit 15 0x3FFFF < r" using spec(1) by (meson linorder_not_le)
    then have "unat (push_bit 15 (0x3FFFF :: u64)) < unat r" by (simp only: word_less_nat_alt)
    moreover have "unat (push_bit 15 (0x3FFFF :: u64)) = 0x3FFFF * 2 ^ 15" by (rule unat_push_max) simp
    ultimately show False using assms by simp
  qed
  then have "r \<le> push_bit (brexp_loop r 0) 0x3FFFF" using spec(2) by simp
  then have "unat r \<le> unat (push_bit (brexp_loop r 0) (0x3FFFF :: u64))" by (simp only: word_le_nat_alt)
  also have "\<dots> = 0x3FFFF * 2 ^ brexp_loop r 0" using b by (intro unat_push_max) simp
  finally have "unat r < 2 ^ 18 * 2 ^ brexp_loop r 0"
    by (rule order_le_less_trans) simp
  then show "unat r div 2 ^ brexp_loop r 0 < 2 ^ 18" by (rule less_mult_imp_div_less)
qed

lemma unat_and_3: "unat ((x :: 'a::len word) AND 3) = unat x mod 4"
  using unat_take_bit_mod [of 2 x] by (simp add: take_bit_eq_mask mask_eq_exp_minus_1)

lemma unat_and_63: "unat ((x :: u8) AND 0x3F) = unat x mod 64"
  using unat_take_bit_mod [of 6 x] by (simp add: take_bit_eq_mask mask_eq_exp_minus_1)

lemma bytes_split: "n div 65536 * 65536 + n div 256 mod 256 * 256 + n mod 256 = (n :: nat)"
proof -
  have "n div 65536 = n div 256 div 256" using div_mult2_eq [of n 256 256] by simp
  then show ?thesis
    using div_mult_mod_eq [of n 256] div_mult_mod_eq [of "n div 256" 256] by linarith
qed

lemma remb_bytes:
  fixes M :: u32
  assumes "b < 32" "unat M < 2 ^ 18"
  defines "d1 \<equiv> ucast (push_bit 2 (of_nat b) + (drop_bit 16 M AND 3)) :: u8"
  shows "unat (drop_bit 2 d1 AND 0x3F) = b"
    and "push_bit 16 (ucast (d1 AND 3)) + push_bit 8 (ucast (ucast (drop_bit 8 M) :: u8)) + ucast (ucast M :: u8) = M"
proof -
  have hi: "unat (drop_bit 16 M AND 3) = unat M div 65536"
    using assms(2) by (simp add: unat_and_3 unat_drop_bit_div)
  have p2: "unat (push_bit 2 (of_nat b :: u32)) = 4 * b"
    using assms(1) by (subst unat_push_bit_small) (simp_all add: unat_of_nat_u32)
  have d1: "unat d1 = 4 * b + unat M div 65536"
    using assms by (simp add: d1_def unat_ucast_mod unat_word_ariths hi p2)
  then show "unat (drop_bit 2 d1 AND 0x3F) = b"
    using assms(1,2) by (simp add: unat_and_63 unat_drop_bit_div)
  have a: "unat (push_bit 16 (ucast (d1 AND 3) :: u32)) = unat M div 65536 * 65536"
    using assms(2) by (subst unat_push_bit_small) (simp_all add: unat_ucast_mod unat_and_3 d1)
  have c: "unat (push_bit 8 (ucast (ucast (drop_bit 8 M) :: u8) :: u32)) = unat M div 256 mod 256 * 256"
    using assms(2) by (subst unat_push_bit_small) (simp_all add: unat_ucast_mod unat_drop_bit_div)
  have d: "unat (ucast (ucast M :: u8) :: u32) = unat M mod 256"
    by (simp add: unat_ucast_mod)
  have "unat M div 65536 * 65536 + unat M div 256 mod 256 * 256 + unat M mod 256 = unat M"
    by (rule bytes_split)
  then show "push_bit 16 (ucast (d1 AND 3)) + push_bit 8 (ucast (ucast (drop_bit 8 M) :: u8))
      + ucast (ucast M :: u8) = M"
    using assms(2) by (intro word_unat_eq_iff [THEN iffD2]) (simp only: unat_word_ariths a c d, simp)
qed

text \<open>What is read back is the mantissa times the power of two.\<close>

lemma put_bitrate_read:
  assumes r: "unat r < 2 ^ 32" and d: "d + 4 \<le> length m"
  shows "\<exists>m'. put_bitrate m d r = Some m' \<and> length m' = length m \<and>
    (\<forall>k. k \<le> d \<or> d + 4 \<le> k \<longrightarrow> m' ! k = m ! k) \<and>
    (\<exists>v. remb_bitrate m' d = Some v \<and>
         unat v = unat r div 2 ^ brexp_loop r 0 * 2 ^ brexp_loop r 0)"
proof -
  let ?b = "brexp_loop r 0" and ?M = "ucast (drop_bit (brexp_loop r 0) r) :: u32"
  have b: "?b \<le> 15" "unat r div 2 ^ ?b < 2 ^ 18" using brexp_bounds [OF r] by auto
  have M: "unat ?M = unat r div 2 ^ ?b"
    using b(2) by (simp add: unat_ucast_mod unat_drop_bit_div)
  let ?bs = "[ucast (push_bit 2 (of_nat ?b) + (drop_bit 16 ?M AND 3)), ucast (drop_bit 8 ?M), ucast ?M] :: u8 list"
  let ?m = "take (d + 1) m @ ?bs @ drop (d + 4) m"
  have put: "put_bitrate m d r = Some ?m"
  proof -
    have "put_bytes m (d + 1) ?bs = Some ?m"
      using d put_bytes_Some [of "d + 1" ?bs m] by (simp add: numeral_eq_Suc del: put_bytes.simps)
    then show ?thesis using b by (simp add: put_bitrate_def Let_def del: put_bytes.simps)
  qed
  have rd: "?m ! (d + 1) = ?bs ! 0" "?m ! (d + 2) = ?bs ! 1" "?m ! (d + 3) = ?bs ! 2"
    using d by (simp_all add: nth_append)
  have le: "unat r div 2 ^ ?b * 2 ^ ?b \<le> unat r" by (rule div_times_less_eq_dividend)
  then have lt: "unat r div 2 ^ ?b * 2 ^ ?b < 2 ^ 32" using r by (rule order_le_less_trans)
  then have v: "unat (push_bit ?b ?M) = unat r div 2 ^ ?b * 2 ^ ?b"
    by (subst unat_push_bit_small) (simp_all add: M)
  have "remb_bitrate ?m d = Some (ucast (push_bit ?b ?M))"
    using b M d rd remb_bytes [of ?b ?M] by (simp add: remb_bitrate_def Let_def)
  moreover have "unat (ucast (push_bit ?b ?M) :: u64) = unat r div 2 ^ ?b * 2 ^ ?b"
  proof -
    have "unat r div 2 ^ ?b * 2 ^ ?b < 2 ^ 64" using lt by (rule order_less_trans) simp
    then show ?thesis using v by (simp add: unat_ucast_mod)
  qed
  moreover have "?m ! k = m ! k" if "k \<le> d \<or> d + 4 \<le> k" for k
    using that d by (auto simp: nth_append)
  moreover have "length ?m = length m" using d by simp
  ultimately show ?thesis using put by blast
qed

lemma put_header_Some:
  "2 \<le> length m \<Longrightarrow> put_header m ty rc = Some (m[0 := set_bits 0 5 rc (set_bits 6 2 2 (m ! 0)), 1 := ty])"
proof -
  assume "2 \<le> length m"
  then have "m \<noteq> []" "Suc 0 < length m" by auto
  then show ?thesis
    by (simp add: put_header_def upd8_def wr_defined list_update_swap nth_list_update)
qed

lemma header_bits:
  "bits 6 2 (set_bits 0 5 rc (set_bits 6 2 2 (b :: u8))) = 2"
  "bits 0 5 (set_bits 0 5 rc (b :: u8)) = take_bit 5 rc"
  by (simp_all add: bits_set_bits_disjoint bits_set_bits_same)

text \<open>
  A REMB message built by \<open>janus_rtcp_remb\<close> for a bitrate below 2^32 is read back by
  \<open>janus_rtcp_get_remb\<close> as that bitrate with its low bits cut: 18 significant bits survive.
\<close>

theorem remb_roundtrip:
  assumes r: "unat r < 2 ^ 32" and m: "24 \<le> length m"
  shows "\<exists>m' v. janus_rtcp_remb (Some m) 24 r = Some (24, Some m') \<and>
    janus_rtcp_get_remb (Some m') 24 = Some v \<and> unat v \<le> unat r \<and>
    unat r < unat v + 2 ^ brexp_loop r 0 \<and> (unat r < 2 ^ 18 - 1 \<longrightarrow> v = r)"
proof -
  let ?h = "m[0 := set_bits 0 5 15 (set_bits 6 2 2 (m ! 0)), 1 := RTCP_PSFB, 2 := 0, 3 := 5,
     12 := 0x52, 13 := 0x45, 14 := 0x4D, 15 := 0x42, 16 := 1]"
  have ne: "m \<noteq> []" using m by auto
  obtain m' v where put: "put_bitrate ?h 16 r = Some m'" "length m' = length ?h"
    "\<forall>k. k \<le> 16 \<or> 20 \<le> k \<longrightarrow> m' ! k = ?h ! k"
    and v: "remb_bitrate m' 16 = Some v" "unat v = unat r div 2 ^ brexp_loop r 0 * 2 ^ brexp_loop r 0"
    using put_bitrate_read [OF r, of 16 ?h] m by auto
  have gen: "janus_rtcp_remb (Some m) 24 r = Some (24, Some m')"
    using m put(1)
    by (simp add: janus_rtcp_remb_def put_header_Some wr_defined REMB_ID_def byte_def)
  have h: "m' ! 0 = set_bits 0 5 15 (set_bits 6 2 2 (m ! 0))" "m' ! 1 = RTCP_PSFB"
    "m' ! 12 = 0x52" "m' ! 13 = 0x45" "m' ! 14 = 0x4D" "m' ! 15 = 0x42" "24 \<le> length m'"
    using put(2,3) m ne by simp_all
  moreover from this have "m' \<noteq> []" by auto
  ultimately have "get_remb_body 0 (Suc 0) (m', ()) = Some (Inl v)"
    using v by (simp add: get_remb_body_def hdr_type_def hdr_rc_def header_bits REMB_ID_def)
  then have "rtcp_walk get_remb_body 0 0 24 (m', ()) = Some (Inl v)"
    by (subst rtcp_walk.simps) simp
  then have get: "janus_rtcp_get_remb (Some m') 24 = Some v"
    using h by (cases m') (simp_all add: janus_rtcp_get_remb_def hdr_version_def header_bits)
  have "unat r < unat v + 2 ^ brexp_loop r 0"
    using dividend_less_div_times [of "2 ^ brexp_loop r 0" "unat r"] v(2) by simp
  moreover have "v = r" if "unat r < 2 ^ 18 - 1"
  proof -
    have "r \<le> 0x3FFFF" using that by (simp add: word_le_nat_alt)
    then have "brexp_loop r 0 = 0" by (subst brexp_loop.simps) simp
    then show ?thesis using v(2) by (simp add: word_unat_eq_iff)
  qed
  ultimately show ?thesis using gen get v(2) by (auto simp: div_times_less_eq_dividend)
qed

theorem remb_roundtrip_witness:
  "\<exists>m' v. janus_rtcp_remb (Some (replicate 24 0)) 24 256000 = Some (24, Some m') \<and>
    janus_rtcp_get_remb (Some m') 24 = Some v \<and> v = 256000"
  using remb_roundtrip [of 256000 "replicate 24 0"] by auto

text \<open>
  A bitrate of exactly 2^32 is written with mantissa 2^17 and exponent 15, and
  \<open>janus_rtcp_get_remb\<close> reads it back as 0: \<open>brMantissa << brExp\<close> is computed in 32 bits before it
  is assigned to the 64-bit result.
\<close>

theorem remb_four_gigabit_reads_zero:
  assumes "24 \<le> length m"
  shows "\<exists>m'. janus_rtcp_remb (Some m) 24 0x100000000 = Some (24, Some m') \<and>
    janus_rtcp_get_remb (Some m') 24 = Some 0"
proof -
  have b: "brexp_loop 0x100000000 0 = 15"
    by (simp add: brexp_loop.simps)
  have z: "(512 :: u8) = 0" "(131072 :: u8) = 0" by simp_all
  have ne: "m \<noteq> []" using assms by auto
  let ?m = "m[0 := set_bits 0 5 15 (set_bits 6 2 2 (m ! 0)), 1 := RTCP_PSFB, 2 := 0, 3 := 5,
     12 := 0x52, 13 := 0x45, 14 := 0x4D, 15 := 0x42, 16 := 1, 17 := 62, 18 := 0, 19 := 0]"
  have gen: "janus_rtcp_remb (Some m) 24 0x100000000 = Some (24, Some ?m)"
    using assms b ne
    by (simp add: z janus_rtcp_remb_def put_header_Some wr_defined REMB_ID_def byte_def put_bitrate_def)
  have "get_remb_body 0 (Suc 0) (?m, ()) = Some (Inl 0)"
    using assms ne by (simp add: get_remb_body_def hdr_type_def hdr_rc_def header_bits REMB_ID_def remb_bitrate_def)
  then have "rtcp_walk get_remb_body 0 0 24 (?m, ()) = Some (Inl 0)"
    by (subst rtcp_walk.simps) simp
  then have "janus_rtcp_get_remb (Some ?m) 24 = Some 0"
    using assms ne by (simp add: janus_rtcp_get_remb_def hdr_version_def header_bits)
  with gen show ?thesis by blast
qed

theorem remb_four_gigabit_reads_zero_witness:
  "\<exists>m'. janus_rtcp_remb (Some (replicate 24 0)) 24 0x100000000 = Some (24, Some m') \<and>
    janus_rtcp_get_remb (Some m') 24 = Some 0"
  by (rule remb_four_gigabit_reads_zero) simp

section \<open>The REMB cap on compound datagrams\<close>

definition is_remb :: "buffer \<Rightarrow> bool" where
  "is_remb p \<longleftrightarrow> pkt_type p = RTCP_PSFB \<and> pkt_fmt p = 15 \<and> has_id REMB_ID p 12 = Some True"

text \<open>Application-layer feedback has room for its REMB fields and an exponent below 32.\<close>

definition remb_fits :: "buffer \<Rightarrow> bool" where
  "remb_fits p \<longleftrightarrow> (pkt_type p = RTCP_PSFB \<and> pkt_fmt p = 15 \<longrightarrow>
     20 \<le> length p \<and> unat (drop_bit 2 (p ! 17) AND 0x3F) < 32)"

definition capped :: "u64 \<Rightarrow> buffer \<Rightarrow> buffer" where
  "capped r p =
     (if is_remb p \<and> (\<exists>v. remb_bitrate p 16 = Some v \<and> r < v)
      then (case put_bitrate p 16 r of Some q \<Rightarrow> q | None \<Rightarrow> p) else p)"

lemma has_id_middle:
  "off + length cs \<le> length p \<Longrightarrow> has_id cs (pre @ p @ post) (length pre + off) = has_id cs p off"
proof (induction cs arbitrary: off)
  case (Cons c cs)
  then show ?case using Cons.IH [of "off + 1"] rd_middle(1) [of off p pre post]
    by (cases "rd8 p off") (simp_all add: add.assoc del: rd_defined)
qed simp

lemma has_id_defined: "off + length cs \<le> length p \<Longrightarrow> has_id cs p off \<noteq> None"
  by (induction cs arbitrary: off) auto

lemma put_bytes_middle:
  "off + length bs \<le> length p \<Longrightarrow>
   put_bytes (pre @ p @ post) (length pre + off) bs = map_option (\<lambda>q. pre @ q @ post) (put_bytes p off bs)"
  by (simp add: put_bytes_Some)

lemma remb_bitrate_middle:
  "d + 4 \<le> length p \<Longrightarrow> remb_bitrate (pre @ p @ post) (length pre + d) = remb_bitrate p d"
  using rd_middle(1) [of "d + 1" p pre post] rd_middle(1) [of "d + 2" p pre post]
    rd_middle(1) [of "d + 3" p pre post]
  by (simp add: remb_bitrate_def add.assoc del: rd_defined)

lemma put_bitrate_middle:
  "d + 4 \<le> length p \<Longrightarrow>
   put_bitrate (pre @ p @ post) (length pre + d) r = map_option (\<lambda>q. pre @ q @ post) (put_bitrate p d r)"
  using put_bytes_middle [of "d + 1" _ p pre post]
  by (simp add: put_bitrate_def Let_def add.assoc del: put_bytes.simps)

lemma capped_frame:
  assumes "unat r < 2 ^ 32" "wf_packet p" "remb_fits p"
  shows "length (capped r p) = length p" "k \<le> 16 \<or> 20 \<le> k \<Longrightarrow> capped r p ! k = p ! k"
    "is_remb p \<Longrightarrow> \<exists>v. remb_bitrate (capped r p) 16 = Some v \<and> v \<le> r"
proof -
  have fits: "is_remb p \<Longrightarrow> 20 \<le> length p" "is_remb p \<Longrightarrow> \<exists>v. remb_bitrate p 16 = Some v"
    using assms(3) by (auto simp: remb_fits_def is_remb_def remb_bitrate_def Let_def)
  have put: "\<exists>q. put_bitrate p 16 r = Some q \<and> length q = length p \<and>
    (\<forall>k. k \<le> 16 \<or> 20 \<le> k \<longrightarrow> q ! k = p ! k) \<and> (\<exists>v. remb_bitrate q 16 = Some v \<and> v \<le> r)" if "is_remb p"
    using put_bitrate_read [OF assms(1), of 16 p] fits(1) [OF that]
    by (auto simp: word_le_nat_alt div_times_less_eq_dividend)
  show "length (capped r p) = length p" "k \<le> 16 \<or> 20 \<le> k \<Longrightarrow> capped r p ! k = p ! k"
    using put by (auto simp: capped_def)
  show "\<exists>v. remb_bitrate (capped r p) 16 = Some v \<and> v \<le> r" if "is_remb p"
    using put [OF that] fits(2) [OF that] that by (auto simp: capped_def not_less)
qed

lemma cap_body:
  assumes "unat r < 2 ^ 32" "wf_packet p" "remb_fits p"
  shows "cap_remb_body r (length pre) pno (pre @ p @ post, ()) = Some (Inr (pre @ capped r p @ post, ()))"
proof (cases "pkt_type p = RTCP_PSFB \<and> pkt_fmt p = 15")
  case True
  then have p: "20 \<le> length p" "unat (drop_bit 2 (p ! 17) AND 0x3F) < 32"
    using assms(3) by (auto simp: remb_fits_def)
  obtain i where i: "has_id REMB_ID p 12 = Some i"
    using has_id_defined [of 12 REMB_ID p] p by (auto simp: REMB_ID_def)
  obtain v where v: "remb_bitrate p 16 = Some v" using p by (auto simp: remb_bitrate_def Let_def)
  obtain q where q: "put_bitrate p 16 r = Some q" using put_bitrate_read [OF assms(1), of 16 p] p by auto
  have "cap_remb_body r (length pre) pno (pre @ p @ post, ()) =
      (if i then if v > r then Some (Inr (pre @ q @ post, ())) else Some (Inr (pre @ p @ post, ()))
       else Some (Inr (pre @ p @ post, ())))"
    using True i v q p has_id_middle [of 12 REMB_ID p pre post]
    by (simp add: cap_remb_body_def hdr_of_packet assms(2) remb_bitrate_middle put_bitrate_middle REMB_ID_def)
  then show ?thesis using True i v q by (auto simp: capped_def is_remb_def)
next
  case False
  then show ?thesis by (auto simp: cap_remb_body_def hdr_of_packet assms(2) capped_def is_remb_def)
qed

interpretation cap: rtcp_scan "cap_remb_body r" "\<lambda>off pno p s. Inr (capped r p, s)"
  "\<lambda>p. unat r < 2 ^ 32 \<and> remb_fits p" for r
proof unfold_locales
  fix p pre post :: buffer and pno off s q s'
  assume p: "wf_packet p" "unat r < 2 ^ 32 \<and> remb_fits p"
  show "cap_remb_body r (length pre) pno (pre @ p @ post, s) =
      Some (map_sum id (map_prod (\<lambda>q. pre @ q @ post) id) (Inr (capped r p, s)))"
    using cap_body [of r p pre pno post] p by simp
  assume "Inr (capped r p, s) = Inr (q, s')"
  then have q: "q = capped r p" by simp
  have l: "length q = length p" using capped_frame(1) [of r p] p q by simp
  moreover have "8 \<le> length p" using p(1) by (simp add: wf_packet_def)
  ultimately show "length q = length p \<and> hdr_length q 0 = hdr_length p 0"
    using capped_frame(2) [of r p] p q by (simp add: hdr_length_def)
qed

lemma scan_map: "scan (\<lambda>off pno p s. Inr (f p, ())) off pno ps () = Inr (map f ps, ())"
  by (induction ps arbitrary: off pno) simp_all



section \<open>Parsing does not write\<close>

lemma walk_invariant:
  assumes "rtcp_walk body pos pno tot ms = Some (Inr ms')" "P ms"
    "\<And>pos pno ms ms'. P ms \<Longrightarrow> body pos pno ms = Some (Inr ms') \<Longrightarrow> P ms'"
  shows "P ms'"
  using assms
proof (induction body pos pno tot ms rule: rtcp_walk.induct)
  case (1 body pos pno tot ms)
  note walk = 1(2) [unfolded rtcp_walk.simps [of body pos pno tot ms]]
  then obtain b where b: "body pos (pno + 1) ms = Some (Inr b)"
    by (auto split: option.splits sum.splits)
  then have "P b" using 1(3,4) by blast
  then show ?case using walk b 1(1) [OF b refl] 1(4)
    by (auto split: option.splits if_splits)
qed

lemma walk_result_cases:
  fixes x :: "('r + buffer \<times> 's) option"
  obtains "x = None" | r where "x = Some (Inl r)" | m s where "x = Some (Inr (m, s))"
  by (cases x; cases "the x") auto

lemma put_if_False [simp]: "put_if False m off v = Some m"
  by (simp add: put_if_def)

lemma parse_body_keeps:
  "fix_ssrc_body False nl nr now pos pno (m, ctx) = Some (Inr (m', ctx')) \<Longrightarrow> m' = m"
  by (auto simp: fix_ssrc_body_def fix_sr_def fix_rr_def fix_sdes_def fix_bye_app_def fix_fir_def
      fix_rtpfb_def fix_psfb_def Let_def bind_eq_Some_conv split: if_splits)

text \<open>
  \<open>janus_rtcp_parse\<close> only reads: whatever the datagram and the length argument, a call that
  returns hands the datagram back byte for byte.
\<close>

theorem parse_keeps_datagram:
  assumes "janus_rtcp_parse now ctx packet len = Some (r, packet', ctx')"
  shows "packet' = packet"
proof -
  have "m' = m" if "rtcp_walk (fix_ssrc_body False 0 0 now) 0 0 len (m, ctx) = Some (Inr (m', c))" for m m' c
    using walk_invariant [where P = "\<lambda>ms. fst ms = m", OF that] parse_body_keeps by fastforce
  note walk = this
  show ?thesis
  proof (cases packet)
    case (Some m)
    then show ?thesis
      using assms walk
      by (cases "rtcp_walk (fix_ssrc_body False 0 0 now) 0 0 len (m, ctx)" rule: walk_result_cases)
        (auto simp: janus_rtcp_parse_def janus_rtcp_fix_ssrc_def bind_eq_Some_conv split: if_splits)
  qed (use assms in \<open>simp add: janus_rtcp_parse_def janus_rtcp_fix_ssrc_def\<close>)
qed

theorem parse_keeps_datagram_witness:
  "janus_rtcp_parse (\<lambda>_. 5) None (Some [0x80, 201, 0, 1, 0, 0, 0, 7]) 8
    = Some (0, Some [0x80, 201, 0, 1, 0, 0, 0, 7], None)"
proof -
  have "\<exists>p c. janus_rtcp_parse (\<lambda>_. 5) None (Some [0x80, 201, 0, 1, 0, 0, 0, 7]) 8 = Some (0, p, c) \<and> c = None"
    by (simp add: janus_rtcp_parse_def janus_rtcp_fix_ssrc_def hdr_defs bits_def rtcp_walk.simps
        fix_ssrc_body_def fix_rr_def rtcp_type_defs le16_def Let_def)
  then show ?thesis using parse_keeps_datagram by blast
qed

section \<open>Source descriptions\<close>

text \<open>
  The length field that \<open>janus_rtcp_sdes\<close> writes agrees with the number of bytes it returns
  exactly when \<open>cnamelen + 2\<close> is a multiple of 4; otherwise the padding of four bytes leaves a
  message that is not a whole number of words.
\<close>

theorem sdes_length_field:
  assumes "0 < cnamelen" "cnamelen < 256" "nat cnamelen \<le> length cn" "nat len \<le> length m"
    and "12 + (cnamelen + 2) + 4 \<le> len"
  shows "\<exists>m' plen w. janus_rtcp_sdes (Some m) len (Some cn) cnamelen = Some (plen, Some m') \<and>
    hdr_length m' 0 = Some w \<and> (4 * (uint w + 1) = plen \<longleftrightarrow> 4 dvd cnamelen + 2)"
proof -
  define plen where "plen = 12 + (cnamelen + 2) + (if (cnamelen + 2) mod 4 \<noteq> 0 then 4 else 0)"
  have plen: "plen \<le> len" "12 < plen" "plen < 300" using assms(1,2,5) by (auto simp: plen_def)
  define z where "z = replicate (nat len) (0 :: u8) @ drop (nat len) m"
  have z: "memset0 m 0 (nat len) = Some z" "z \<noteq> []" "18 < length z" "14 + nat cnamelen \<le> length z"
    using assms by (auto simp: memset0_def z_def)
  let ?w = "word_of_int (plen div 4 - 1) :: u16"
  define h where "h = z[0 := set_bits 0 5 1 (set_bits 6 2 2 (z ! 0)), 1 := RTCP_SDES, 2 := byte 1 ?w, 3 := byte 0 ?w,
    12 := 1, 13 := word_of_int cnamelen]"
  have h: "length h = length z" "h ! 2 = byte 1 ?w" "h ! 3 = byte 0 ?w"
    using z(3) by (simp_all add: h_def)
  define c where "c = take (nat cnamelen) cn"
  have c: "14 + length c \<le> length h" using assms z(4) h(1) by (simp add: c_def)
  define m' where "m' = take 14 h @ c @ drop (14 + length c) h"
  have put: "put_bytes h 14 c = Some m'" using put_bytes_Some [OF c] by (simp only: m'_def)
  have sd: "janus_rtcp_sdes (Some m) len (Some cn) cnamelen = Some (plen, Some m')"
    unfolding janus_rtcp_sdes_def Let_def plen_def [symmetric]
    using assms z(1-3) put plen(1) by (simp add: put_header_Some wr_defined h_def c_def)
  have "hdr_length m' 0 = Some ?w"
    using z(3) h by (simp add: hdr_length_def nth_append m'_def numeral_2_eq_2 numeral_3_eq_3)
  moreover have "uint ?w = plen div 4 - 1"
    using plen by (subst uint_word_of_int) (intro mod_pos_pos_trivial; simp)
  moreover have "4 * (plen div 4 - 1 + 1) = plen \<longleftrightarrow> 4 dvd cnamelen + 2" unfolding plen_def by presburger
  ultimately show ?thesis using sd by auto
qed

theorem sdes_length_field_witness:
  "\<exists>m' plen w. janus_rtcp_sdes (Some (replicate 40 0)) 40 (Some [0x61]) 1 = Some (plen, Some m') \<and>
    hdr_length m' 0 = Some w \<and> 4 * (uint w + 1) \<noteq> plen"
  using sdes_length_field [of 1 "[0x61]" 40 "replicate 40 0"] by simp

end
