(* ===== verification/Janus_Nack.thy ===== *)
theory Janus_Nack
  imports Janus_Rtcp "HOL-Library.Multiset"
begin

text \<open>
  Generic NACK messages (RFC 4585, 6.2.1) in \<open>src/orbit/rtp/janus_rtcp_processor.cc\<close>:
  \<open>janus_rtcp_nacks\<close> packs a list of missing sequence numbers into blocks of a packet id and a
  16-bit mask of the ids that follow it, \<open>janus_rtcp_get_nacks\<close> unpacks them.  A \<open>GSList\<close> of
  \<open>GUINT_TO_POINTER\<close> values is a list of 32-bit words.

  The packing loop is refined: on bytes it does what \<open>pack\<close> does on a list of blocks, and
  unpacking the result of \<open>pack\<close> gives the sorted list of the requested numbers.
\<close>

section \<open>The code\<close>

definition sort_asc :: "u32 \<Rightarrow> u32 \<Rightarrow> int" where
  "sort_asc p1 p2 = (let a = sint p1; b = sint p2 in if a > b then 1 else if a = b then 0 else -1)"

text \<open>
  The loop over the sorted list: \<open>nack\<close> is the offset of the current block, \<open>words\<close> the number
  of words so far.  The first result is \<open>None\<close> when the buffer is too small.
\<close>

fun nacks_loop :: "int \<Rightarrow> u32 list \<Rightarrow> buffer \<Rightarrow> nat \<Rightarrow> u16 \<Rightarrow> nat \<Rightarrow> (nat option \<times> buffer) option" where
  "nacks_loop len [] m nack pid words = Some (Some words, m)"
| "nacks_loop len (d # nacks) m nack pid words =
     (let npid = ucast d :: u16; diff = uint npid - uint pid in
      if diff < 1 then nacks_loop len nacks m nack pid words
      else if diff > 16 then
        (if len < int (words + 1) * 4 + 4 then Some (None, m)
         else do {
           m \<leftarrow> wrn16 m ((words + 1) * 4) npid;
           nacks_loop len nacks m ((words + 1) * 4) npid (words + 1) })
      else do {
        blp \<leftarrow> rdn16 m (nack + 2);
        m \<leftarrow> wrn16 m (nack + 2) (blp OR push_bit (nat (diff - 1)) 1);
        nacks_loop len nacks m nack pid words })"

text \<open>
  \<open>g_slist_sort\<close> belongs to GLib; it is the argument \<open>g_sort\<close>.  Its documentation promises the
  same elements, in ascending order of the comparison function:
\<close>

definition slist_sort_spec :: "((u32 \<Rightarrow> u32 \<Rightarrow> int) \<Rightarrow> u32 list \<Rightarrow> u32 list) \<Rightarrow> bool" where
  "slist_sort_spec g_sort \<longleftrightarrow>
     (\<forall>xs. mset (g_sort sort_asc xs) = mset xs \<and> sorted_wrt (\<lambda>a b. sort_asc a b \<le> 0) (g_sort sort_asc xs))"

definition janus_rtcp_nacks ::
    "((u32 \<Rightarrow> u32 \<Rightarrow> int) \<Rightarrow> u32 list \<Rightarrow> u32 list) \<Rightarrow> buffer option \<Rightarrow> int \<Rightarrow> u32 list \<Rightarrow> (int \<times> buffer option) option" where
  "janus_rtcp_nacks g_sort packet len nacks =
     (case packet of None \<Rightarrow> Some (-1, None)
      | Some m \<Rightarrow>
          if len < 16 \<or> nacks = [] then Some (-1, packet)
          else let sorted_nacks = g_sort sort_asc nacks; pid = ucast (hd sorted_nacks) :: u16 in do {
            m \<leftarrow> memset0 m 0 (nat len);
            m \<leftarrow> put_header m RTCP_RTPFB 1;
            m \<leftarrow> wrn16 m 12 pid;
            (w, m) \<leftarrow> nacks_loop len (tl sorted_nacks) m 12 pid 3;
            (case w of
               None \<Rightarrow> Some (-1, Some m)
             | Some words \<Rightarrow> do {
                 m \<leftarrow> wrn16 m 2 (of_nat words);
                 Some (int words * 4 + 4, Some m) }) })"

definition nack_items :: "u16 \<times> u16 \<Rightarrow> u32 list" where
  "nack_items b = (case b of (pid, blp) \<Rightarrow>
     ucast pid # map (\<lambda>j. ucast pid + of_nat j + 1) (filter (\<lambda>j. bit blp j) [0..<16]))"

definition get_nacks_body :: "nat \<Rightarrow> nat \<Rightarrow> buffer \<times> u32 list \<Rightarrow> (unit + buffer \<times> u32 list) option" where
  "get_nacks_body pos pno ms = (case ms of (m, acc) \<Rightarrow> do {
     ty \<leftarrow> hdr_type m pos;
     fmt \<leftarrow> hdr_rc m pos;
     if ty = RTCP_RTPFB \<and> fmt = 1 then do {
       w \<leftarrow> hdr_length m pos;
       blocks \<leftarrow> nack_fields m (pos + 12) (nat (uint w - 2));
       Some (Inr (m, acc @ concat (map nack_items blocks))) }
     else Some (Inr ms) })"

definition janus_rtcp_get_nacks :: "buffer option \<Rightarrow> int \<Rightarrow> u32 list option" where
  "janus_rtcp_get_nacks packet len =
     (case packet of None \<Rightarrow> Some []
      | Some m \<Rightarrow>
          if len = 0 then Some []
          else do {
            version \<leftarrow> hdr_version m 0;
            if version \<noteq> 2 then Some []
            else do {
              r \<leftarrow> rtcp_walk get_nacks_body 0 0 len (m, []);
              Some (case r of Inl _ \<Rightarrow> [] | Inr (_, acc) \<Rightarrow> acc) } })"

section \<open>Blocks\<close>

definition enc_block :: "u16 \<times> u16 \<Rightarrow> u8 list" where
  "enc_block b = (case b of (pid, blp) \<Rightarrow> [byte 1 pid, byte 0 pid, byte 1 blp, byte 0 blp])"

lemma length_enc [simp]: "length (enc_block b) = 4"
  by (cases b) (simp add: enc_block_def)

lemma length_enc_all [simp]: "length (concat (map enc_block bs)) = 4 * length bs"
  by (induction bs) simp_all

lemma nack_fields_enc:
  "nack_fields (pre @ concat (map enc_block bs) @ post) (length pre) (length bs) = Some bs"
proof (induction bs arbitrary: pre)
  case (Cons b bs)
  obtain pid blp where b: "b = (pid, blp)" by (cases b)
  have "rdn16 (pre @ enc_block b @ concat (map enc_block bs) @ post) (length pre) = Some pid"
    "rdn16 (pre @ enc_block b @ concat (map enc_block bs) @ post) (length pre + 2) = Some blp"
    using rd_middle(2) [of 0 "enc_block b" pre "concat (map enc_block bs) @ post"]
      rd_middle(2) [of 2 "enc_block b" pre "concat (map enc_block bs) @ post"]
    by (simp_all add: b enc_block_def buf_defs)
  then show ?case
    using Cons.IH [of "pre @ enc_block b"] by (simp add: b)
qed simp

text \<open>The packing on lists of blocks: finished blocks, then the block being filled.\<close>

fun pack :: "u16 list \<Rightarrow> (u16 \<times> u16) list \<Rightarrow> u16 \<Rightarrow> u16 \<Rightarrow> (u16 \<times> u16) list" where
  "pack [] bs pid blp = bs @ [(pid, blp)]"
| "pack (n # ns) bs pid blp =
     (let diff = uint n - uint pid in
      if diff < 1 then pack ns bs pid blp
      else if diff > 16 then pack ns (bs @ [(pid, blp)]) n 0
      else pack ns bs pid (blp OR push_bit (nat (diff - 1)) 1))"

lemma wr_middle:
  assumes "i + 1 < length p"
  shows "wrn16 (pre @ p @ post) (length pre + i) v = map_option (\<lambda>q. pre @ q @ post) (wrn16 p i v)"
  using assms by (simp add: wr_defined list_update_append)

text \<open>
  The loop on bytes follows \<open>pack\<close> as long as there is room: at most one block per number.
\<close>

lemma nacks_loop_pack:
  assumes "length hdr = 12" "length bs + 3 = words" "4 * length ns \<le> z" "int (12 + 4 * length bs + 4 + z) \<le> len"
  shows "\<exists>z'. nacks_loop len ns (hdr @ concat (map enc_block (bs @ [(pid, blp)])) @ replicate z 0 @ post)
        (4 * words) pid words =
      Some (Some (length (pack (map ucast ns) bs pid blp) + 2),
            hdr @ concat (map enc_block (pack (map ucast ns) bs pid blp)) @ replicate z' 0 @ post) \<and>
      4 * length (pack (map ucast ns) bs pid blp) + z' = 4 * length bs + 4 + z"
  using assms
proof (induction ns arbitrary: bs pid blp words z)
  case Nil
  then show ?case by (auto intro!: exI [of _ z])
next
  case (Cons d ns)
  let ?n = "ucast d :: u16" and ?pre = "hdr @ concat (map enc_block bs)"
  let ?diff = "uint ?n - uint pid"
  have pos: "4 * words = length ?pre" using Cons.prems by simp
  consider "?diff < 1" | "?diff > 16" | "\<not> ?diff < 1" "\<not> ?diff > 16" by linarith
  then show ?case
  proof cases
    case 1
    then show ?thesis using Cons.IH [of bs words z pid blp] Cons.prems by simp
  next
    case 2
    obtain z2 where z: "z = 4 + z2" using Cons.prems(3) by (metis le_add_diff_inverse le_trans
        length_Cons mult_Suc_right le_add1)
    have wr: "wrn16 (?pre @ enc_block (pid, blp) @ replicate z 0 @ post) (4 * words + 4) ?n =
        Some (?pre @ enc_block (pid, blp) @ enc_block (?n, 0) @ replicate z2 0 @ post)"
      using wr_middle [of 0 "replicate 4 0" "?pre @ enc_block (pid, blp)" "replicate z2 0 @ post" ?n] pos
      by (simp add: z replicate_add enc_block_def wr_defined numeral_eq_Suc byte_def)
    obtain z' where "nacks_loop len ns (hdr @ concat (map enc_block ((bs @ [(pid, blp)]) @ [(?n, 0)])) @ replicate z2 0 @ post)
          (4 * (words + 1)) ?n (words + 1) =
        Some (Some (length (pack (map ucast ns) (bs @ [(pid, blp)]) ?n 0) + 2),
              hdr @ concat (map enc_block (pack (map ucast ns) (bs @ [(pid, blp)]) ?n 0)) @ replicate z' 0 @ post)"
      "4 * length (pack (map ucast ns) (bs @ [(pid, blp)]) ?n 0) + z' = 4 * length (bs @ [(pid, blp)]) + 4 + z2"
      using Cons.IH [of "bs @ [(pid, blp)]" "words + 1" z2 ?n 0] Cons.prems z by auto
    then show ?thesis
      using 2 Cons.prems wr z
      by (intro exI [of _ z']) (simp add: add.commute Let_def mult.commute [of words])
  next
    case 3
    let ?b = "blp OR push_bit (nat (?diff - 1)) 1"
    have rd: "rdn16 (?pre @ enc_block (pid, blp) @ replicate z 0 @ post) (4 * words + 2) = Some blp"
      using rd_middle(2) [of 2 "enc_block (pid, blp)" ?pre "replicate z 0 @ post"] pos
      by (simp add: enc_block_def buf_defs)
    have wr: "wrn16 (?pre @ enc_block (pid, blp) @ replicate z 0 @ post) (4 * words + 2) ?b =
        Some (?pre @ enc_block (pid, ?b) @ replicate z 0 @ post)"
      using wr_middle [of 2 "enc_block (pid, blp)" ?pre "replicate z 0 @ post" ?b] pos
      by (simp add: enc_block_def wr_defined)
    show ?thesis
      using 3 Cons.IH [of bs words z pid ?b] Cons.prems rd wr
      by (simp add: Let_def)
  qed
qed

section \<open>Unpacking what was packed\<close>

text \<open>The numbers of a block, as natural numbers.\<close>

definition block_nats :: "u16 \<times> u16 \<Rightarrow> nat list" where
  "block_nats b = (case b of (pid, blp) \<Rightarrow>
     unat pid # map (\<lambda>j. unat pid + j + 1) (filter (\<lambda>j. bit blp j) [0..<16]))"

lemma unat_u16_less: "unat (x :: u16) < 65536"
  using unsigned_less [where ?'a = nat, of x] by simp

lemma unat_nack_items: "map unat (nack_items b) = block_nats b"
proof -
  have "unat (ucast pid + of_nat j + 1 :: u32) = unat pid + j + 1" if "j < 16" for pid :: u16 and j
  proof -
    have "unat pid < 65536" by (rule unat_u16_less)
    then have u: "unat (ucast pid :: u32) = unat pid" by (simp add: unat_ucast_mod)
    then show ?thesis using \<open>unat pid < 65536\<close> that by (simp add: unat_word_ariths unat_of_nat_u32)
  qed
  moreover have "unat (ucast pid :: u32) = unat pid" for pid :: u16
    by (simp add: unat_ucast_mod less_trans [OF unat_u16_less])
  ultimately show ?thesis
    by (cases b) (auto simp: nack_items_def block_nats_def)
qed

lemma filter_set_bit:
  fixes blp :: u16
  assumes "k < 16" "\<And>j. j < 16 \<Longrightarrow> bit blp j \<Longrightarrow> j < k"
  shows "filter (\<lambda>j. bit (blp OR push_bit k 1) j) [0..<16] = filter (\<lambda>j. bit blp j) [0..<16] @ [k]"
proof -
  have up: "[0..<16] = [0..<k] @ [k] @ [Suc k..<16]"
    using assms(1) by (metis append_Cons append_Nil le_add_same_cancel1 less_imp_le_nat upt_add_eq_append
        upt_conv_Cons zero_le le_add_diff_inverse)
  have b: "bit (blp OR push_bit k 1) j \<longleftrightarrow> bit blp j \<or> j = k" if "j < 16" for j
    using that assms(1) by (auto simp: bit_simps)
  have above: "\<not> bit blp j" if "Suc k \<le> j" "j < 16" for j
    using assms(2) [of j] that by auto
  have "filter (\<lambda>j. bit (blp OR push_bit k 1) j) [0..<k] = filter (\<lambda>j. bit blp j) [0..<k]"
    using b assms(1) by (intro filter_cong) auto
  moreover have "filter (\<lambda>j. bit (blp OR push_bit k 1) j) [Suc k..<16] = []"
    "filter (\<lambda>j. bit blp j) [Suc k..<16] = []"
    using b above by (auto simp: filter_empty_conv simp del: push_bit_of_1)
  moreover have "\<not> bit blp k" using assms by blast
  moreover have "bit (blp OR push_bit k 1) k" using b assms(1) by blast
  ultimately show ?thesis unfolding up by simp
qed

lemma block_nats_set_bit:
  fixes blp :: u16
  assumes k: "k < 16" and below: "\<forall>x\<in>set (block_nats (pid, blp)). x \<le> unat pid + k + 1"
  shows "block_nats (pid, blp OR push_bit k 1) =
    (if bit blp k then block_nats (pid, blp) else block_nats (pid, blp) @ [unat pid + k + 1])"
proof (cases "bit blp k")
  case True
  then have "blp OR push_bit k 1 = blp"
    by (intro bit_word_eqI) (auto simp: bit_simps)
  then show ?thesis using True by simp
next
  case False
  have "j < k" if "j < 16" "bit blp j" for j
  proof -
    have "unat pid + j + 1 \<in> set (block_nats (pid, blp))" using that by (auto simp: block_nats_def)
    then have "unat pid + j + 1 \<le> unat pid + k + 1" using below by blast
    moreover have "j \<noteq> k" using that False by blast
    ultimately show ?thesis by simp
  qed
  then have "filter (\<lambda>j. bit (blp OR push_bit k 1) j) [0..<16] = filter (\<lambda>j. bit blp j) [0..<16] @ [k]"
    by (intro filter_set_bit [OF k])
  then show ?thesis using False by (simp add: block_nats_def)
qed

abbreviation nats :: "(u16 \<times> u16) list \<Rightarrow> nat list" where
  "nats bs \<equiv> concat (map block_nats bs)"

lemma nats_bound:
  assumes "sorted_wrt (<) (nats (bs @ [(pid, blp)]))" "x \<in> set (nats (bs @ [(pid, blp)]))"
  shows "x \<le> unat pid + 16" "x = unat pid + k + 1 \<Longrightarrow> k < 16 \<Longrightarrow> bit blp k"
proof -
  have "x < unat pid \<or> x = unat pid \<or> (\<exists>j<16. bit blp j \<and> x = unat pid + j + 1)"
    using assms by (auto simp: sorted_wrt_append block_nats_def)
  then show "x \<le> unat pid + 16" "x = unat pid + k + 1 \<Longrightarrow> k < 16 \<Longrightarrow> bit blp k" by auto
qed

lemma pack_sorted:
  assumes "sorted_wrt (<) (nats (bs @ [(pid, blp)]))"
    and "\<forall>n\<in>set ns. \<forall>x\<in>set (nats (bs @ [(pid, blp)])). x \<le> unat n"
    and "sorted (map unat ns)"
  shows "sorted_wrt (<) (nats (pack ns bs pid blp)) \<and>
    set (nats (pack ns bs pid blp)) = set (nats (bs @ [(pid, blp)])) \<union> unat ` set ns"
  using assms
proof (induction ns arbitrary: bs pid blp)
  case (Cons n ns)
  let ?D = "nats (bs @ [(pid, blp)])"
  have le: "\<forall>x\<in>set ?D. x \<le> unat n" and rest: "\<forall>n'\<in>set ns. unat n \<le> unat n'" "sorted (map unat ns)"
    using Cons.prems(2,3) by auto
  have pid: "unat pid \<in> set ?D" by (simp add: block_nats_def)
  then have ple: "unat pid \<le> unat n" using le by blast
  have d: "uint n - uint pid = int (unat n - unat pid)"
    using ple by (simp add: of_nat_diff)
  have step: ?case
    if "pack (n # ns) bs pid blp = pack ns bs' pid' blp'"
      and "set (nats (bs' @ [(pid', blp')])) = insert (unat n) (set ?D)"
      and "sorted_wrt (<) (nats (bs' @ [(pid', blp')]))" for bs' pid' blp'
  proof -
    have "\<forall>n\<in>set ns. \<forall>x\<in>set (nats (bs' @ [(pid', blp')])). x \<le> unat n"
      unfolding that(2) using rest(1) le by (fastforce intro: order_trans)
    then have "sorted_wrt (<) (nats (pack ns bs' pid' blp')) \<and>
        set (nats (pack ns bs' pid' blp')) = set (nats (bs' @ [(pid', blp')])) \<union> unat ` set ns"
      by (intro Cons.IH that(3) rest(2))
    then show ?thesis unfolding that(1) that(2) by simp
  qed
  have "unat n - unat pid < 1 \<or> 16 < unat n - unat pid \<or> (\<exists>k<16. unat n = unat pid + k + 1)"
    using ple by presburger
  then consider "unat n = unat pid" | "16 < unat n - unat pid"
    | k where "unat n = unat pid + k + 1" "k < 16" using ple by force
  then show ?case
  proof cases
    case 1
    then show ?thesis
      using Cons.prems(1) pid d by (intro step [of bs pid blp]) (simp_all add: insert_absorb)
  next
    case 2
    moreover have "x < unat n" if "x \<in> set ?D" for x
      using nats_bound(1) [OF Cons.prems(1) that] 2 by linarith
    moreover have "block_nats (n, 0) = [unat n]" by (simp add: block_nats_def)
    moreover have "16 < uint n - uint pid" unfolding d using 2 by (metis of_nat_less_iff of_nat_numeral)
    ultimately show ?thesis
      using Cons.prems(1)
      by (intro step [of "bs @ [(pid, blp)]" n 0]) (auto simp: sorted_wrt_append Let_def)
  next
    case (3 k)
    let ?b = "blp OR push_bit k 1"
    have k: "uint n - uint pid = int k + 1" using d 3(1) by simp
    have b: "block_nats (pid, ?b) =
        (if bit blp k then block_nats (pid, blp) else block_nats (pid, blp) @ [unat n])"
      using block_nats_set_bit [OF 3(2), of pid blp] le 3(1) by simp
    have "x < unat n" if "x \<in> set ?D" "\<not> bit blp k" for x
      using nats_bound(2) [OF Cons.prems(1) that(1)] that 3 le by (metis order_le_less)
    moreover have "unat n \<in> set ?D" if "bit blp k"
      using that 3 by (simp add: block_nats_def)
    ultimately show ?thesis
      using Cons.prems(1) k 3(2) b
      by (intro step [of bs pid ?b]) (auto simp: sorted_wrt_append Let_def)
  qed
qed simp

section \<open>Round trip\<close>

lemma nack_count: "nat (int n - 2) = (4 * n + 4) div 4 - 3"
proof -
  have "(4 * n + 4) div 4 - 3 = n - 2" by simp
  moreover have "nat (int n - 2) = n - 2" by (simp add: nat_diff_distrib')
  ultimately show ?thesis by simp
qed

interpretation gn: rtcp_scan get_nacks_body
  "\<lambda>off pno p acc. Inr (p, if is_nack p
      then acc @ concat (map nack_items (the (nack_fields p 12 (length p div 4 - 3)))) else acc)"
  "\<lambda>p. is_nack p \<longrightarrow> 12 \<le> length p"
proof unfold_locales
  show "get_nacks_body (length pre) pno (pre @ p @ post, s) =
      Some (map_sum id (map_prod (\<lambda>q. pre @ q @ post) id) (Inr (p, if is_nack p
        then s @ concat (map nack_items (the (nack_fields p 12 (length p div 4 - 3)))) else s)))"
    if wf: "wf_packet p" and l: "is_nack p \<longrightarrow> 12 \<le> length p" for p pre post pno s
  proof (cases "is_nack p")
    case True
    obtain w where w: "8 \<le> length p" "hdr_length p 0 = Some w" "length p = 4 * unat w + 4"
      using wf by (rule wf_packetE)
    have n: "nat (uint w - 2) = length p div 4 - 3"
      unfolding w(3) uint_nat by (rule nack_count)
    have "nack_fields (pre @ p @ post) (length pre + off) k = nack_fields p off k \<and> nack_fields p off k \<noteq> None"
      if "off + 4 * k \<le> length p" for off k
      using that
    proof (induction k arbitrary: off)
      case (Suc k)
      obtain bs where "nack_fields (pre @ p @ post) (length pre + (off + 4)) k = Some bs"
        "nack_fields p (off + 4) k = Some bs"
        using Suc.IH [of "off + 4"] Suc.prems by auto
      moreover obtain v1 v2 where "rdn16 p off = Some v1" "rdn16 p (off + 2) = Some v2"
        using Suc.prems by simp
      ultimately show ?case
        using Suc.prems rd_middle(2) [of off p pre post] rd_middle(2) [of "off + 2" p pre post]
        by (simp add: add.assoc del: rd_defined)
    qed simp
    moreover have "12 + 4 * (length p div 4 - 3) \<le> length p" using l True w(3) by simp
    ultimately obtain bs where "nack_fields (pre @ p @ post) (length pre + 12) (length p div 4 - 3) = Some bs"
      "nack_fields p 12 (length p div 4 - 3) = Some bs" by fastforce
    then show ?thesis
      using True w(2) n hdr_of_packet [OF wf] hdr_middle(4) [OF w(1)]
      by (simp add: get_nacks_body_def is_nack_def)
  next
    case False
    then show ?thesis using hdr_of_packet [OF wf] by (auto simp: get_nacks_body_def is_nack_def)
  qed
qed simp

lemma strict_sorted_list_of_set:
  "sorted_wrt (<) xs \<Longrightarrow> sorted_list_of_set (set xs) = (xs :: nat list)"
  by (simp add: strict_sorted_iff sorted_list_of_set_sort_remdups distinct_remdups_id sorted_sort_id)

lemma sort_asc_le: "sort_asc a b \<le> 0 \<longleftrightarrow> sint a \<le> sint b"
  by (simp add: sort_asc_def Let_def)

lemma slist_sort_spec_sort_key: "slist_sort_spec (\<lambda>_. sort_key sint)"
  using sorted_sort_key [of "sint :: u32 \<Rightarrow> int"] by (simp add: slist_sort_spec_def sort_asc_le sorted_map)

lemma sorted_nacks:
  assumes "\<forall>n\<in>set ns. unat n < 65536" "sorted_wrt (\<lambda>a b. sort_asc a b \<le> 0) xs" "set xs = set ns"
  shows "sorted (map (unat \<circ> (ucast :: u32 \<Rightarrow> u16)) xs)"
    "unat ` (ucast :: u32 \<Rightarrow> u16) ` set ns = unat ` set ns"
proof -
  have u: "unat (ucast n :: u16) = unat n" if "n \<in> set ns" for n
    using assms that by (simp add: unat_ucast_mod)
  then show "unat ` (ucast :: u32 \<Rightarrow> u16) ` set ns = unat ` set ns"
    by (simp add: image_image cong: image_cong)
  have si: "sint n = int (unat n)" if "n \<in> set ns" for n
    using assms that sint_small_u32 [of "unat n"] by fastforce
  have mono: "sint a \<le> sint b \<Longrightarrow> unat (ucast a :: u16) \<le> unat (ucast b :: u16)"
    if "a \<in> set ns" "b \<in> set ns" for a b
    using u that si by (metis of_nat_le_iff)
  from assms(2) have "sorted_wrt (\<lambda>a b. unat (ucast a :: u16) \<le> unat (ucast b :: u16)) xs"
    by (rule sorted_wrt_mono_rel [rotated]) (simp add: mono sort_asc_le assms(3))
  then show "sorted (map (unat \<circ> (ucast :: u32 \<Rightarrow> u16)) xs)"
    by (simp add: sorted_map)
qed

lemma length_pack:
  "1 \<le> length (pack ns bs pid blp)" "length (pack ns bs pid blp) \<le> length bs + 1 + length ns"
proof (induction ns arbitrary: bs pid blp)
  case (Cons n ns)
  case 1
  then show ?case using Cons.IH by (simp add: Let_def)
  case 2
  then show ?case using Cons.IH(2) [of bs] Cons.IH(2) [of "bs @ [(pid, blp)]" n 0]
    by (simp add: Let_def le_SucI)
qed simp_all

text \<open>A finished message is one well-formed NACK packet.\<close>

definition nack_message :: "(u16 \<times> u16) list \<Rightarrow> buffer" where
  "nack_message B = (let w = of_nat (length B + 2) :: u16 in
     [0x81, RTCP_RTPFB, byte 1 w, byte 0 w] @ replicate 8 0 @ concat (map enc_block B))"

lemma nack_message_packet:
  assumes "length B < 65000"
  shows "length (nack_message B) = 12 + 4 * length B" "wf_packet (nack_message B)" "is_nack (nack_message B)"
    "hdr_version (nack_message B) 0 = Some 2" "nack_fields (nack_message B) 12 (length B) = Some B"
proof -
  show len: "length (nack_message B) = 12 + 4 * length B" by (simp add: nack_message_def Let_def)
  have "hdr_length (nack_message B) 0 = Some (of_nat (length B + 2))"
    by (simp add: hdr_length_def nack_message_def Let_def)
  moreover have "unat (of_nat (length B + 2) :: u16) = length B + 2"
    using assms by (simp only: unsigned_of_nat) (simp add: take_bit_nat_eq_self)
  ultimately show "wf_packet (nack_message B)" using len by (simp add: wf_packet_def)
  show "is_nack (nack_message B)" "hdr_version (nack_message B) 0 = Some 2"
    by (simp_all add: is_nack_def pkt_type_def pkt_fmt_def nack_message_def hdr_version_def Let_def bits_def)
  show "nack_fields (nack_message B) 12 (length B) = Some B"
    using nack_fields_enc [of "take 12 (nack_message B)" B "[]"] by (simp add: nack_message_def Let_def)
qed

lemma get_nacks_message:
  assumes "length B < 65000" "B \<noteq> []"
  shows "janus_rtcp_get_nacks (Some (nack_message B @ post)) (int (12 + 4 * length B)) = Some (concat (map nack_items B))"
proof -
  note p = nack_message_packet [OF assms(1)]
  have v: "hdr_version (nack_message B @ post) 0 = Some 2"
    using p(1,4) hdr_middle(1) [of "nack_message B" "[]" post] by simp
  have l: "length (nack_message B) div 4 - 3 = length B" "12 \<le> length (nack_message B)"
    using p(1) by simp_all
  then have "rtcp_walk get_nacks_body 0 0 (int (12 + 4 * length B)) (nack_message B @ post, []) =
      Some (Inr (nack_message B @ post, concat (map nack_items B)))"
    using gn.walk_buffer [of "[nack_message B]" post "[]"] p by simp
  then show ?thesis using v by (simp add: janus_rtcp_get_nacks_def)
qed

text \<open>The first lines of \<open>janus_rtcp_nacks\<close> produce an empty message with one block.\<close>

lemma nacks_prologue:
  assumes "16 \<le> n" "n \<le> length m"
  shows "do { m \<leftarrow> memset0 m 0 n; m \<leftarrow> put_header m RTCP_RTPFB 1; wrn16 m 12 pid } =
    Some (([0x81, RTCP_RTPFB] @ replicate 10 0) @ concat (map enc_block ([] @ [(pid, 0)])) @ replicate (n - 16) 0 @ drop n m)"
proof -
  obtain k where n: "n = 16 + k" using assms(1) by (metis le_add_diff_inverse)
  have "memset0 m 0 n = Some (replicate 16 0 @ replicate k 0 @ drop n m)"
    using assms by (simp add: memset0_def n replicate_add)
  moreover have "set_bits 0 5 1 (set_bits 6 2 2 (0 :: u8)) = 0x81"
    by code_simp
  ultimately show ?thesis
    by (simp add: put_header_Some wr_defined enc_block_def n numeral_eq_Suc byte_def)
qed

lemma nack_message_roundtrip:
  assumes g: "slist_sort_spec g_sort" and ns: "ns \<noteq> []" "\<forall>n\<in>set ns. unat n < 65536" "length ns < 60000"
    and len: "12 + 4 * int (length ns) \<le> len" "nat len \<le> length m"
  shows "\<exists>m' r xs. janus_rtcp_nacks g_sort (Some m) len ns = Some (r, Some m') \<and> 16 \<le> r \<and> r \<le> len \<and>
    janus_rtcp_get_nacks (Some m') r = Some xs \<and> map unat xs = sorted_list_of_set (unat ` set ns)"
proof -
  let ?sn = "g_sort sort_asc ns" and ?hdr = "[0x81, RTCP_RTPFB] @ replicate 10 0"
  have gs: "mset ?sn = mset ns" "sorted_wrt (\<lambda>a b. sort_asc a b \<le> 0) ?sn"
    using g by (auto simp: slist_sort_spec_def)
  then have st: "set ?sn = set ns" "length ?sn = length ns" by (metis set_mset_mset, metis size_mset)
  then obtain d ds where sn: "?sn = d # ds" using ns(1) by (metis list.exhaust list.size(3) length_0_conv)
  have lds: "length ns = length ds + 1" using st(2) sn by simp
  define pid where "pid = (ucast d :: u16)"
  define B where "B = pack (map ucast ds) [] pid 0"
  have room: "4 * length ds \<le> nat len - 16" "16 \<le> nat len" "16 \<le> len" using len(1) lds by auto
  obtain z' where loop: "nacks_loop len ds (?hdr @ concat (map enc_block ([] @ [(pid, 0)])) @ replicate (nat len - 16) 0 @ drop (nat len) m)
        12 pid 3 = Some (Some (length B + 2), ?hdr @ concat (map enc_block B) @ replicate z' 0 @ drop (nat len) m)"
    "4 * length B + z' = 4 + (nat len - 16)"
    using nacks_loop_pack [of ?hdr "[]" 3 ds "nat len - 16" len pid 0 "drop (nat len) m"] room
    by (auto simp: B_def)
  have B: "1 \<le> length B" "length B < 65000"
    using length_pack [of "map ucast ds" "[]" pid 0] ns(3) lds by (simp_all add: B_def)
  define r where "r = int (12 + 4 * length B)"
  let ?m' = "nack_message B @ replicate z' 0 @ drop (nat len) m"
  have "wrn16 (?hdr @ concat (map enc_block B) @ replicate z' 0 @ drop (nat len) m) 2 (of_nat (length B + 2)) = Some ?m'"
    by (simp add: wr_defined nack_message_def Let_def numeral_eq_Suc)
  moreover obtain m1 m2 where "memset0 m 0 (nat len) = Some m1" "put_header m1 RTCP_RTPFB 1 = Some m2"
    "wrn16 m2 12 pid = Some (?hdr @ concat (map enc_block ([] @ [(pid, 0)])) @ replicate (nat len - 16) 0 @ drop (nat len) m)"
    using nacks_prologue [OF room(2) len(2), of pid] by (auto simp: bind_eq_Some_conv)
  ultimately have gen: "janus_rtcp_nacks g_sort (Some m) len ns = Some (r, Some ?m')"
    using room(3) ns(1) sn loop(1) by (simp add: janus_rtcp_nacks_def r_def pid_def)
  have get: "janus_rtcp_get_nacks (Some ?m') r = Some (concat (map nack_items B))"
    unfolding r_def using B by (intro get_nacks_message) auto
  have srt: "sorted (map unat (map (ucast :: u32 \<Rightarrow> u16) (d # ds)))" "unat ` (ucast :: u32 \<Rightarrow> u16) ` set (d # ds) = unat ` set ns"
    using sorted_nacks [OF ns(2) gs(2) st(1)] sn st(1) by simp_all
  have "sorted_wrt (<) (nats B) \<and> set (nats B) = set (nats ([] @ [(pid, 0)])) \<union> unat ` set (map (ucast :: u32 \<Rightarrow> u16) ds)"
    unfolding B_def using srt(1) by (intro pack_sorted) (auto simp: block_nats_def pid_def)
  then have "sorted_wrt (<) (nats B)" "set (nats B) = unat ` set ns"
    using srt(2) by (simp_all add: block_nats_def pid_def)
  then have "nats B = sorted_list_of_set (unat ` set ns)" using strict_sorted_list_of_set [of "nats B"] by simp
  moreover have "map unat (concat (map nack_items B)) = nats B" by (simp add: map_concat unat_nack_items comp_def)
  moreover have "16 \<le> r" "r \<le> len" using B(1) loop(2) room by (simp_all add: r_def)
  ultimately show ?thesis using gen get by auto
qed

text \<open>
  C2. NACK round trip.  For a list of 16-bit sequence numbers, in any order and with repetitions,
  and a buffer with room for one block per number, \<open>janus_rtcp_nacks\<close> produces a message from
  which \<open>janus_rtcp_get_nacks\<close> reads back every number once, in ascending order.
\<close>

theorem nack_roundtrip:
  assumes g: "slist_sort_spec g_sort" and ns: "ns \<noteq> []" "\<forall>n\<in>set ns. unat n < 65536" "length ns < 60000"
    and len: "12 + 4 * int (length ns) \<le> len" "nat len \<le> length m"
  shows "\<exists>m' r xs. janus_rtcp_nacks g_sort (Some m) len ns = Some (r, Some m') \<and> 16 \<le> r \<and> r \<le> len \<and>
    janus_rtcp_get_nacks (Some m') r = Some xs \<and> map unat xs = sorted_list_of_set (unat ` set ns)"
  using assms by (rule nack_message_roundtrip)

theorem nack_roundtrip_witness:
  "\<exists>m' r xs. janus_rtcp_nacks (\<lambda>_. sort_key sint) (Some (replicate 100 0)) 100 [65535, 7, 9, 7, 40] = Some (r, Some m') \<and>
    janus_rtcp_get_nacks (Some m') r = Some xs \<and> map unat xs = [7, 9, 40, 65535]"
proof -
  have "unat ` set [65535, 7, 9, 7, 40 :: u32] = set [7, 9, 40, 65535]" by auto
  then have "sorted_list_of_set (unat ` set [65535, 7, 9, 7, 40 :: u32]) = [7, 9, 40, 65535]"
    using strict_sorted_list_of_set [of "[7, 9, 40, 65535]"] by simp
  then show ?thesis
    using nack_roundtrip [OF slist_sort_spec_sort_key, of "[65535, 7, 9, 7, 40]" 100 "replicate 100 0"] by auto
qed

text \<open>On a well-formed compound datagram \<open>janus_rtcp_get_nacks\<close> collects the blocks of every
  generic NACK, in the order of the packets; a datagram without NACK gives the empty list.
\<close>

theorem get_nacks_compound:
  assumes "\<forall>p\<in>set ps. wf_packet p \<and> (is_nack p \<longrightarrow> 12 \<le> length p)" "ps \<noteq> []" "hdr_version (hd ps) 0 = Some 2"
  shows "janus_rtcp_get_nacks (Some (concat ps)) (int (length (concat ps))) =
    Some (concat (map (\<lambda>p. concat (map nack_items (the (nack_fields p 12 (length p div 4 - 3)))))
      (filter is_nack ps)))"
proof -
  have v: "hdr_version (concat ps) 0 = Some 2"
    using assms version_of_datagram [of "hd ps" "tl ps"] by simp
  have ne: "concat ps \<noteq> []" using assms(1,2) by (cases ps) (auto simp: wf_packet_def)
  let ?f = "\<lambda>p. concat (map nack_items (the (nack_fields p 12 (length p div 4 - 3))))"
  have "fold (\<lambda>p acc. if is_nack p then acc @ ?f p else acc) ps acc = acc @ concat (map ?f (filter is_nack ps))" for acc
    by (induction ps arbitrary: acc) simp_all
  then show ?thesis
    using gn.walk_datagram [of ps "[]"] assms(1,2) v ne
    by (simp add: janus_rtcp_get_nacks_def scan_fold del: concat_eq_Nil_conv)
qed

theorem get_nacks_compound_witness:
  "janus_rtcp_get_nacks (Some [0x80, 200, 0, 1, 0, 0, 0, 7, 0x81, 205, 0, 3, 0, 0, 0, 7, 0, 0, 0, 9, 0, 5, 0, 3]) 24
    = Some [5, 6, 7]"
  using get_nacks_compound
    [of "[[0x80, 200, 0, 1, 0, 0, 0, 7], [0x81, 205, 0, 3, 0, 0, 0, 7, 0, 0, 0, 9, 0, 5, 0, 3]]"]
  by (simp add: wf_packet_def hdr_length_def hdr_version_def bits_def le16_def pkt_type_def pkt_fmt_def
      is_nack_def rtcp_type_defs nack_items_def upt_rec bit_numeral_rec)

text \<open>
  The ids after a packet id near the end of the sequence space are not wrapped: the block
  \<open>(65535, 1)\<close>, which asks for 65535 and 0, is read as 65535 and 65536.
\<close>

theorem get_nacks_does_not_wrap:
  "map unat (nack_items (65535, 1)) = [65535, 65536]"
  by (simp add: nack_items_def upt_rec bit_1_iff)

section \<open>The packing loop stays in its buffer\<close>

lemma nacks_loop_in_buffer:
  assumes "nack = 4 * words" "int (4 * words) + 4 \<le> len" "len \<le> int (length m)"
  shows "\<exists>w m'. nacks_loop len ns m nack pid words = Some (w, m') \<and> length m' = length m \<and>
    (\<forall>k. w = Some k \<longrightarrow> words \<le> k \<and> int (4 * k) + 4 \<le> len)"
  using assms
proof (induction ns arbitrary: m nack pid words)
  case (Cons d ns)
  let ?n = "ucast d :: u16"
  let ?diff = "uint ?n - uint pid"
  consider "?diff < 1" | "?diff > 16" "len < int (words + 1) * 4 + 4" | "?diff > 16" "\<not> len < int (words + 1) * 4 + 4"
    | "\<not> ?diff < 1" "\<not> ?diff > 16" by linarith
  then show ?case
  proof cases
    case 1
    then show ?thesis using Cons by simp
  next
    case 2
    then show ?thesis by (simp add: Let_def)
  next
    case 3
    define m1 where "m1 = m[(words + 1) * 4 := byte 1 ?n, (words + 1) * 4 + 1 := byte 0 ?n]"
    have "(words + 1) * 4 + 1 < length m" using 3(2) Cons.prems(3) by linarith
    then have "wrn16 m ((words + 1) * 4) ?n = Some m1" unfolding m1_def by (rule wr_defined)
    moreover obtain w m' where "nacks_loop len ns m1 ((words + 1) * 4) ?n (words + 1) = Some (w, m')"
      "length m' = length m1" "\<forall>k. w = Some k \<longrightarrow> words + 1 \<le> k \<and> int (4 * k) + 4 \<le> len"
      using Cons.IH [of "(words + 1) * 4" "words + 1" m1 ?n] 3(2) Cons.prems(3) by (auto simp: m1_def)
    ultimately show ?thesis using 3 by (auto simp: Let_def m1_def)
  next
    case 4
    obtain blp where rd: "rdn16 m (nack + 2) = Some blp" using Cons.prems by simp
    define v where "v = blp OR push_bit (nat (?diff - 1)) 1"
    define m1 where "m1 = m[nack + 2 := byte 1 v, nack + 2 + 1 := byte 0 v]"
    have "nack + 2 + 1 < length m" using Cons.prems by linarith
    then have "wrn16 m (nack + 2) v = Some m1" unfolding m1_def by (rule wr_defined)
    moreover obtain w m' where "nacks_loop len ns m1 nack pid words = Some (w, m')"
      "length m' = length m1" "\<forall>k. w = Some k \<longrightarrow> words \<le> k \<and> int (4 * k) + 4 \<le> len"
      using Cons.IH [of nack words m1 pid] Cons.prems by (auto simp: m1_def)
    ultimately show ?thesis using 4 rd by (auto simp: Let_def m1_def v_def simp del: rd_defined)
  qed
qed simp

lemma janus_nacks_defined:
  assumes "slist_sort_spec g_sort" "ns \<noteq> []" "16 \<le> len" "nat len \<le> length m"
  shows "\<exists>r m'. janus_rtcp_nacks g_sort (Some m) len ns = Some (r, Some m') \<and> length m' = length m \<and>
    (r = -1 \<or> 16 \<le> r \<and> r \<le> len)"
proof -
  have "mset (g_sort sort_asc ns) = mset ns" using assms(1) by (simp add: slist_sort_spec_def)
  then have "g_sort sort_asc ns \<noteq> []" using assms(2) by (metis mset_zero_iff)
  then obtain d ds where sn: "g_sort sort_asc ns = d # ds" by (cases "g_sort sort_asc ns") auto
  define pid where "pid = (ucast d :: u16)"
  have n16: "16 \<le> nat len" using assms(3) by simp
  obtain m1 m2 m3 where pro: "memset0 m 0 (nat len) = Some m1" "put_header m1 RTCP_RTPFB 1 = Some m2"
    "wrn16 m2 12 pid = Some m3" "length m3 = length m"
    using nacks_prologue [OF n16 assms(4), of pid] assms(4) n16 by (auto simp: bind_eq_Some_conv)
  have "len \<le> int (length m3)" using assms(4) pro(4) by linarith
  then obtain w m4 where loop: "nacks_loop len ds m3 12 pid 3 = Some (w, m4)" "length m4 = length m3"
    "\<forall>k. w = Some k \<longrightarrow> 3 \<le> k \<and> int (4 * k) + 4 \<le> len"
    using nacks_loop_in_buffer [of 12 3 len m3 ds pid] assms(3,4) pro(4) by auto
  have l4: "3 < length m4" using loop(2) pro(4) assms(4) n16 by linarith
  then have wr: "wrn16 m4 2 v = Some (m4[2 := byte 1 v, 2 + 1 := byte 0 v])" for v
    by (intro wr_defined) simp
  show ?thesis
    using assms(2,3) sn pro(1-3) loop l4 wr pro(4)
    by (cases w) (auto simp: janus_rtcp_nacks_def pid_def Let_def)
qed

text \<open>
  \<open>janus_rtcp_nacks\<close> never reads or writes outside of the \<open>len\<close> bytes it is given, for any
  list of numbers: it either reports failure or returns a length between 16 and \<open>len\<close>.
\<close>

theorem nacks_in_buffer:
  assumes "slist_sort_spec g_sort" "ns \<noteq> []" "16 \<le> len" "nat len \<le> length m"
  shows "\<exists>r m'. janus_rtcp_nacks g_sort (Some m) len ns = Some (r, Some m') \<and> length m' = length m \<and>
    (r = -1 \<or> 16 \<le> r \<and> r \<le> len)"
  using assms by (rule janus_nacks_defined)

theorem nacks_in_buffer_witness:
  "\<exists>r m'. janus_rtcp_nacks (\<lambda>_. sort_key sint) (Some (replicate 16 0)) 16 [5, 100] = Some (r, Some m') \<and>
    length m' = 16 \<and> (r = -1 \<or> 16 \<le> r \<and> r \<le> 16)"
  using nacks_in_buffer [OF slist_sort_spec_sort_key, of "[5, 100]" 16 "replicate 16 0"] by simp

end
