(* ===== verification/Seq_List.thy ===== *)
theory Seq_List
  imports Orbit_Prelude
begin

text \<open>
  The circular doubly linked list of \<open>seq_info_t\<close> nodes in
  \<open>src/orbit/rtp/janus_rtcp_processor.cc\<close>, on an explicit heap: \<open>janus_seq_append\<close>,
  \<open>janus_seq_pop_head\<close> and \<open>janus_seq_list_free\<close> with their pointer updates in program order.
  A dereference of an address that is not allocated is undefined behaviour (\<open>None\<close>).

  The refinement lemmas say that on a well-formed ring the three operations are \<open>as @ [n]\<close>,
  \<open>tl as\<close> and \<open>[]\<close> on the list of its nodes, that the links stay a ring, that payloads and
  nodes outside of the ring do not change, and that the loop of the last one ends and frees every node once.
\<close>

type_synonym addr = nat

record seq_info =
  ts :: int
  seq :: u16
  state :: u16
  times :: u16
  next_seq :: addr
  prev_seq :: addr

type_synonym seq_heap = "addr \<Rightarrow> seq_info option"

definition upd_node :: "seq_heap \<Rightarrow> addr \<Rightarrow> (seq_info \<Rightarrow> seq_info) \<Rightarrow> seq_heap option" where
  "upd_node h a f = (case h a of None \<Rightarrow> None | Some v \<Rightarrow> Some (h(a \<mapsto> f v)))"

abbreviation set_prev :: "addr \<Rightarrow> seq_info \<Rightarrow> seq_info" where "set_prev p \<equiv> prev_seq_update (\<lambda>_. p)"
abbreviation set_next :: "addr \<Rightarrow> seq_info \<Rightarrow> seq_info" where "set_next p \<equiv> next_seq_update (\<lambda>_. p)"

definition janus_seq_append :: "seq_heap \<Rightarrow> addr option \<Rightarrow> addr \<Rightarrow> (seq_heap \<times> addr option) option" where
  "janus_seq_append h head new_seq =
     (case head of
        None \<Rightarrow> do {
          h \<leftarrow> upd_node h new_seq (set_prev new_seq);
          h \<leftarrow> upd_node h new_seq (set_next new_seq);
          Some (h, Some new_seq) }
      | Some hd_seq \<Rightarrow> do {
          hv \<leftarrow> h hd_seq;
          let last_seq = prev_seq hv in do {
          h \<leftarrow> upd_node h new_seq (set_prev last_seq);
          h \<leftarrow> upd_node h new_seq (set_next hd_seq);
          h \<leftarrow> upd_node h hd_seq (set_prev new_seq);
          h \<leftarrow> upd_node h last_seq (set_next new_seq);
          Some (h, head) } })"

definition janus_seq_pop_head :: "seq_heap \<Rightarrow> addr option \<Rightarrow> (seq_heap \<times> addr option \<times> addr option) option" where
  "janus_seq_pop_head h head =
     (case head of
        None \<Rightarrow> Some (h, None, None)
      | Some pop_seq \<Rightarrow> do {
          pv \<leftarrow> h pop_seq;
          let new_head = next_seq pv in
          if pop_seq = new_head then Some (h, None, Some pop_seq)
          else do {
            h \<leftarrow> upd_node h new_head (set_prev (prev_seq pv));
            nv \<leftarrow> h new_head;
            h \<leftarrow> upd_node h (prev_seq nv) (set_next new_head);
            Some (h, Some new_head, Some pop_seq) } })"

text \<open>The \<open>do ... while(cur != *head)\<close> loop; \<open>g_free\<close> removes the node from the heap.\<close>

partial_function (option) free_loop :: "addr \<Rightarrow> seq_heap \<Rightarrow> addr \<Rightarrow> seq_heap option" where
  "free_loop head h cur =
     (case h cur of
        None \<Rightarrow> None
      | Some v \<Rightarrow>
          (let h' = h(cur := None) in
           if next_seq v = head then Some h' else free_loop head h' (next_seq v)))"

definition janus_seq_list_free :: "seq_heap \<Rightarrow> addr option \<Rightarrow> (seq_heap \<times> addr option) option" where
  "janus_seq_list_free h head =
     (case head of
        None \<Rightarrow> Some (h, None)
      | Some a \<Rightarrow> do { h \<leftarrow> free_loop a h a; Some (h, None) })"

section \<open>Rings\<close>

text \<open>The nodes \<open>as\<close> are linked in both directions, between predecessor \<open>p\<close> and successor \<open>e\<close>.\<close>

fun dchain :: "seq_heap \<Rightarrow> addr \<Rightarrow> addr list \<Rightarrow> addr \<Rightarrow> bool" where
  "dchain h p [] e \<longleftrightarrow> True"
| "dchain h p (a # as) e \<longleftrightarrow>
     (\<exists>v. h a = Some v \<and> prev_seq v = p \<and> next_seq v = hd (as @ [e])) \<and> dchain h a as e"

definition ring :: "seq_heap \<Rightarrow> addr option \<Rightarrow> addr list \<Rightarrow> bool" where
  "ring h head as \<longleftrightarrow> distinct as \<and>
     (case head of None \<Rightarrow> as = [] | Some a \<Rightarrow> as \<noteq> [] \<and> hd as = a \<and> dchain h (last as) as a)"

definition payload :: "seq_heap \<Rightarrow> addr \<Rightarrow> (int \<times> u16 \<times> u16 \<times> u16) option" where
  "payload h a = map_option (\<lambda>v. (ts v, seq v, state v, times v)) (h a)"

lemma dchain_append:
  "dchain h p (xs @ ys) e \<longleftrightarrow> dchain h p xs (hd (ys @ [e])) \<and> dchain h (last (p # xs)) ys e"
  by (induction xs arbitrary: p) auto

lemma dchain_frame: "(\<And>a. a \<in> set as \<Longrightarrow> h' a = h a) \<Longrightarrow> dchain h' p as e = dchain h p as e"
  by (induction as arbitrary: p) auto

lemma dchain_alloc: "dchain h p as e \<Longrightarrow> a \<in> set as \<Longrightarrow> h a \<noteq> None"
  by (induction as arbitrary: p) auto

lemma payload_upd [simp]:
  "payload (h(a \<mapsto> set_prev p v)) b = payload (h(a \<mapsto> v)) b"
  "payload (h(a \<mapsto> set_next p v)) b = payload (h(a \<mapsto> v)) b"
  by (simp_all add: payload_def)

lemma ring_append:
  assumes r: "ring h head as" and n: "n \<notin> set as" "h n \<noteq> None"
  shows "\<exists>h'. janus_seq_append h head n = Some (h', Some (hd (as @ [n]))) \<and>
    ring h' (Some (hd (as @ [n]))) (as @ [n]) \<and> payload h' = payload h \<and>
    (\<forall>b. b \<notin> set (as @ [n]) \<longrightarrow> h' b = h b)"
proof (cases as)
  case Nil
  then show ?thesis
    using r n by (auto simp: ring_def janus_seq_append_def upd_node_def payload_def split: option.splits)
next
  case (Cons a rest)
  then have hd: "head = Some a" and dc: "dchain h (last as) as a" and dist: "distinct as"
    using r by (auto simp: ring_def split: option.splits)
  show ?thesis
  proof (cases rest rule: rev_cases)
    case Nil
    obtain av nv where av: "h a = Some av" "prev_seq av = a" and nv: "h n = Some nv" "n \<noteq> a"
      using dc n Cons Nil by auto
    let ?h = "h(n \<mapsto> set_next a (set_prev a nv), a \<mapsto> set_next n (set_prev n av))"
    have "janus_seq_append h head n = Some (?h, head)"
      using hd av nv by (simp add: janus_seq_append_def upd_node_def)
    moreover have "payload ?h = payload h"
      using av nv by (auto simp: payload_def fun_eq_iff)
    ultimately show ?thesis
      using Cons Nil hd nv(2) by (auto simp: ring_def)
  next
    case (snoc mid l)
    have "dchain h l (a # mid @ [l]) a" using dc Cons snoc by simp
    then obtain av lv where av: "h a = Some av" "prev_seq av = l" "next_seq av = hd (mid @ [l])"
      and lv: "h l = Some lv" "prev_seq lv = last (a # mid)" "next_seq lv = a"
      and mid: "dchain h a mid l"
      by (auto simp: dchain_append hd_append split: if_splits)
    obtain nv where nv: "h n = Some nv" using n(2) by blast
    have ne: "a \<noteq> l" "n \<noteq> a" "n \<noteq> l" "a \<notin> set mid" "l \<notin> set mid" "n \<notin> set mid"
      using dist n(1) Cons snoc by auto
    let ?h = "h(n \<mapsto> set_next a (set_prev l nv), a \<mapsto> set_prev n av, l \<mapsto> set_next n lv)"
    have run: "janus_seq_append h head n = Some (?h, head)"
      using hd av nv lv ne by (simp add: janus_seq_append_def upd_node_def)
    have "dchain ?h a mid l" using mid dchain_frame [of mid ?h h a l] ne by fastforce
    then have "ring ?h head (as @ [n])"
      using Cons snoc hd dist n av lv ne by (simp add: ring_def dchain_append hd_append)
    moreover have "payload ?h = payload h"
      using av nv lv ne by (auto simp: payload_def fun_eq_iff)
    ultimately show ?thesis using run hd Cons snoc by auto
  qed
qed

lemma ring_pop_head:
  assumes r: "ring h (Some a) (a # as)"
  shows "\<exists>h'. janus_seq_pop_head h (Some a) = Some (h', (if as = [] then None else Some (hd as)), Some a) \<and>
    ring h' (if as = [] then None else Some (hd as)) as \<and> payload h' = payload h \<and>
    (\<forall>b. b \<notin> set as \<longrightarrow> h' b = h b)"
proof (cases as)
  case Nil
  then show ?thesis using r by (auto simp: ring_def janus_seq_pop_head_def)
next
  case (Cons b rest)
  have dc: "dchain h (last as) (a # as) a" and dist: "distinct (a # as)"
    using r Cons by (auto simp: ring_def)
  then obtain av where av: "h a = Some av" "prev_seq av = last as" "next_seq av = b"
    using Cons by auto
  show ?thesis
  proof (cases rest rule: rev_cases)
    case Nil
    then obtain bv where bv: "h b = Some bv" "prev_seq bv = a" "next_seq bv = a"
      using dc Cons by auto
    let ?h = "h(b \<mapsto> set_next b (set_prev b bv))"
    have "janus_seq_pop_head h (Some a) = Some (?h, Some b, Some a)"
      using av bv dist Cons Nil by (auto simp: janus_seq_pop_head_def upd_node_def)
    moreover have "payload ?h = payload h" using bv by (auto simp: payload_def fun_eq_iff)
    ultimately show ?thesis using Cons Nil by (auto simp: ring_def)
  next
    case (snoc mid l)
    have "dchain h a (b # mid @ [l]) a" using dc Cons snoc by simp
    then obtain bv lv where bv: "h b = Some bv" "prev_seq bv = a" "next_seq bv = hd (mid @ [l])"
      and lv: "h l = Some lv" "prev_seq lv = last (b # mid)" "next_seq lv = a"
      and mid: "dchain h b mid l"
      by (auto simp: dchain_append hd_append split: if_splits)
    have ne: "a \<noteq> b" "b \<noteq> l" "a \<noteq> l" "b \<notin> set mid" "l \<notin> set mid" "distinct mid"
      using dist Cons snoc by auto
    let ?h = "h(b \<mapsto> set_prev l bv, l \<mapsto> set_next b lv)"
    have run: "janus_seq_pop_head h (Some a) = Some (?h, Some b, Some a)"
      using av bv lv ne Cons snoc by (simp add: janus_seq_pop_head_def upd_node_def)
    have "dchain ?h b mid l" using mid dchain_frame [of mid ?h h b l] ne by fastforce
    then have "ring ?h (Some b) as"
      using Cons snoc dist bv lv ne by (simp add: ring_def dchain_append hd_append)
    moreover have "payload ?h = payload h" using bv lv ne by (auto simp: payload_def fun_eq_iff)
    ultimately show ?thesis using run Cons snoc by auto
  qed
qed

lemma free_loop_chain:
  assumes "dchain h p (a # as) e" "distinct (a # as)" "e \<notin> set as"
  shows "free_loop e h a = Some (\<lambda>b. if b \<in> set (a # as) then None else h b)"
  using assms
proof (induction as arbitrary: h p a)
  case Nil
  then obtain v where "h a = Some v" "next_seq v = e" by auto
  then show ?case by (subst free_loop.simps) (auto simp: fun_eq_iff)
next
  case (Cons b as)
  then obtain v where v: "h a = Some v" "next_seq v = b" and dc: "dchain h a (b # as) e" by auto
  have "dchain (h(a := None)) a (b # as) e = dchain h a (b # as) e"
    by (rule dchain_frame) (use Cons.prems(2) in auto)
  with dc have dc': "dchain (h(a := None)) a (b # as) e" by simp
  have "free_loop e (h(a := None)) b = Some (\<lambda>x. if x \<in> set (b # as) then None else (h(a := None)) x)"
    by (rule Cons.IH [OF dc']) (use Cons.prems(2,3) in auto)
  then show ?case
    using v Cons.prems(3) by (subst free_loop.simps) (auto simp: fun_eq_iff Let_def)
qed

lemma ring_free:
  assumes "ring h head as"
  shows "janus_seq_list_free h head = Some (\<lambda>b. if b \<in> set as then None else h b, None)"
proof (cases as)
  case Nil
  then show ?thesis using assms by (auto simp: ring_def janus_seq_list_free_def split: option.splits)
next
  case (Cons a rest)
  then have "head = Some a" "dchain h (last as) (a # rest) a" "distinct (a # rest)"
    using assms by (auto simp: ring_def split: option.splits)
  then show ?thesis
    using free_loop_chain [of h "last as" a rest a] Cons by (simp add: janus_seq_list_free_def)
qed

section \<open>The ring is a queue\<close>

fun append_nodes :: "seq_heap \<Rightarrow> addr option \<Rightarrow> addr list \<Rightarrow> (seq_heap \<times> addr option) option" where
  "append_nodes h head [] = Some (h, head)"
| "append_nodes h head (n # ns) = do { (h, head) \<leftarrow> janus_seq_append h head n; append_nodes h head ns }"

fun pop_nodes :: "nat \<Rightarrow> seq_heap \<Rightarrow> addr option \<Rightarrow> (addr option list \<times> seq_heap \<times> addr option) option" where
  "pop_nodes 0 h head = Some ([], h, head)"
| "pop_nodes (Suc k) h head = do {
     (h, head, n) \<leftarrow> janus_seq_pop_head h head;
     (ns, h, head) \<leftarrow> pop_nodes k h head;
     Some (n # ns, h, head) }"

lemma append_nodes_ring:
  assumes "ring h head as" "distinct (as @ ns)" "\<forall>n\<in>set ns. h n \<noteq> None"
  shows "\<exists>h' head'. append_nodes h head ns = Some (h', head') \<and> ring h' head' (as @ ns) \<and> payload h' = payload h"
  using assms
proof (induction ns arbitrary: h head as)
  case (Cons n ns)
  obtain h1 where h1: "janus_seq_append h head n = Some (h1, Some (hd (as @ [n])))"
    "ring h1 (Some (hd (as @ [n]))) (as @ [n])" "payload h1 = payload h" "\<forall>b. b \<notin> set (as @ [n]) \<longrightarrow> h1 b = h b"
    using ring_append [OF Cons.prems(1), of n] Cons.prems by auto
  moreover have "\<forall>n\<in>set ns. h1 n \<noteq> None" using h1(4) Cons.prems by auto
  ultimately show ?case
    using Cons.IH [OF h1(2)] Cons.prems by auto
qed auto

lemma pop_nodes_ring:
  assumes "ring h head as"
  shows "\<exists>h'. pop_nodes (length as) h head = Some (map Some as, h', None) \<and> payload h' = payload h"
  using assms
proof (induction as arbitrary: h head)
  case Nil
  then show ?case by (auto simp: ring_def split: option.splits)
next
  case (Cons a as)
  then have hd: "head = Some a" by (auto simp: ring_def split: option.splits)
  obtain h1 where h1: "janus_seq_pop_head h (Some a) = Some (h1, (if as = [] then None else Some (hd as)), Some a)"
    "ring h1 (if as = [] then None else Some (hd as)) as" "payload h1 = payload h"
    using ring_pop_head [of h a as] Cons.prems hd by auto
  then show ?case using Cons.IH [OF h1(2)] hd by auto
qed

text \<open>
  C32. The ring keeps a queue.  Distinct allocated nodes appended one after the other to an empty
  list come out of \<open>janus_seq_pop_head\<close> in the same order and with their payloads, after which
  the list is empty; no pointer update touches an unallocated node on the way.
\<close>

theorem seq_ring_fifo:
  assumes "distinct ns" "\<forall>n\<in>set ns. h n \<noteq> None"
  shows "\<exists>h1 head h2. append_nodes h None ns = Some (h1, head) \<and>
    pop_nodes (length ns) h1 head = Some (map Some ns, h2, None) \<and> payload h2 = payload h"
proof -
  have "ring h None []" by (simp add: ring_def)
  then obtain h1 head where h1: "append_nodes h None ns = Some (h1, head)" "ring h1 head ns" "payload h1 = payload h"
    using append_nodes_ring [of h None "[]" ns] assms by auto
  then show ?thesis using pop_nodes_ring [OF h1(2)] by auto
qed

theorem seq_ring_fifo_witness:
  "\<exists>h1 head h2. append_nodes (\<lambda>a. if a < 5 then Some \<lparr>ts = 0, seq = of_nat a, state = 0, times = 0,
        next_seq = 0, prev_seq = 0\<rparr> else None) None [3, 1, 4] = Some (h1, head) \<and>
    pop_nodes 3 h1 head = Some ([Some 3, Some 1, Some 4], h2, None)"
  using seq_ring_fifo [of "[3, 1, 4]" "\<lambda>a. if a < 5 then Some \<lparr>ts = 0, seq = of_nat a, state = 0, times = 0,
        next_seq = 0, prev_seq = 0\<rparr> else None"]
  by (simp add: numeral_3_eq_3 del: append_nodes.simps pop_nodes.simps) blast

text \<open>
  \<open>janus_seq_list_free\<close> on a well-formed ring terminates, frees every node of it exactly once
  (a second free or a use after free would be undefined) and touches nothing else.
\<close>

theorem seq_list_free_frees_all:
  assumes "distinct ns" "\<forall>n\<in>set ns. h n \<noteq> None"
  shows "\<exists>h1 head h2. append_nodes h None ns = Some (h1, head) \<and>
    janus_seq_list_free h1 head = Some (h2, None) \<and> (\<forall>b. h2 b = (if b \<in> set ns then None else h1 b))"
proof -
  have "ring h None []" by (simp add: ring_def)
  then obtain h1 head where h1: "append_nodes h None ns = Some (h1, head)" "ring h1 head ns"
    using append_nodes_ring [of h None "[]" ns] assms by auto
  then show ?thesis using ring_free [OF h1(2)] by auto
qed

theorem seq_list_free_frees_all_witness:
  "\<exists>h1 head h2. append_nodes (\<lambda>a. if a < 5 then Some \<lparr>ts = 0, seq = of_nat a, state = 0, times = 0,
        next_seq = 0, prev_seq = 0\<rparr> else None) None [3, 1] = Some (h1, head) \<and>
    janus_seq_list_free h1 head = Some (h2, None) \<and> h2 3 = None \<and> h2 1 = None"
proof -
  let ?h = "\<lambda>a. if a < 5 then Some \<lparr>ts = 0, seq = of_nat a, state = 0, times = 0,
        next_seq = 0, prev_seq = 0\<rparr> else (None :: seq_info option)"
  obtain h1 head h2 where "append_nodes ?h None [3, 1] = Some (h1, head)"
    "janus_seq_list_free h1 head = Some (h2, None)" "\<forall>b. h2 b = (if b \<in> set [3, 1] then None else h1 b)"
    using seq_list_free_frees_all [of "[3, 1]" ?h] by (auto simp del: append_nodes.simps)
  then show ?thesis by (auto simp del: append_nodes.simps)
qed

end
