(* ===== verification/Nack_Processor.thy ===== *)
theory Nack_Processor
  imports Janus_Nack Seq_Number Media_Definitions
begin

text \<open>
  \<open>src/orbit/rtp/nack_processor.{h,cc}\<close>: the retransmission buffer of the sending side (packets
  are kept so that they can be sent again when the peer asks for them) and the tracking of
  received sequence numbers on the receiving side (missing packets are asked for).

  The list \<open>last_seqs_video_\<close> is modelled as a list of its payloads, head first; the theory
  \<open>Seq_List\<close> shows that the pointer operations on it are append, tail and clear.  Calls to
  \<open>TransportDelegate::RelayPacket\<close> and \<open>RtcpProcessor::SendRTCP\<close> are returned as a list of
  effects.  Clock readings and the outcome of \<open>try_lock\<close> are arguments.
\<close>

section \<open>State\<close>

datatype seq_state = SEQ_MISSING | SEQ_NACKED | SEQ_GIVEUP | SEQ_RECVED

record seq_entry =
  e_ts :: int
  e_seq :: u16
  e_state :: seq_state
  e_times :: u16

record RtpRetransmitPacket =
  seqn :: u16
  buf :: buffer
  buf_size :: int
  rts :: int
  retries :: int

record nack_processor =
  retransmit_list :: "RtpRetransmitPacket list"
  last_seqs_video :: "seq_entry list"
  fir_seq :: int
  get_fir :: bool
  last_fir_request :: int

datatype nack_effect = RelayPacket dataPacket | SendRTCP packetType "u8 list" int

definition NackProcessor_new :: nack_processor where
  "NackProcessor_new = \<lparr>retransmit_list = [], last_seqs_video = [], fir_seq = 0, get_fir = True,
     last_fir_request = 0\<rparr>"

definition LAST_SEQS_MAX_LEN :: nat where "LAST_SEQS_MAX_LEN = 160"
definition MAX_TIMES_OF_RESEND :: u16 where "MAX_TIMES_OF_RESEND = 10"
definition SEQ_NACKED_WAIT :: int where "SEQ_NACKED_WAIT = 155000"
definition KEY_FRAME_INTERVAL :: int where "KEY_FRAME_INTERVAL = 3000"
definition MAX_RETRANSMIT_QUEUE_SIZE :: nat where "MAX_RETRANSMIT_QUEUE_SIZE = 300"
definition RETRANSMIT_PACKETS_LIMIT :: nat where "RETRANSMIT_PACKETS_LIMIT = 100"

lemmas nack_consts = LAST_SEQS_MAX_LEN_def MAX_TIMES_OF_RESEND_def SEQ_MISSING_WAIT_def
  SEQ_NACKED_WAIT_def KEY_FRAME_INTERVAL_def MAX_RETRANSMIT_QUEUE_SIZE_def RETRANSMIT_PACKETS_LIMIT_def

section \<open>Retransmission buffer\<close>

definition GetRetransmitListSize :: "nack_processor \<Rightarrow> nat" where
  "GetRetransmitListSize s = length (retransmit_list s)"

definition PushPacket :: "int \<Rightarrow> nack_processor \<Rightarrow> buffer \<Rightarrow> int \<Rightarrow> nack_processor option" where
  "PushPacket now s b len =
     (if len < 0 then None
      else do {
        rbuf \<leftarrow> memcpy (replicate (nat len) 0) b len;
        sq \<leftarrow> getSeqNumber b;
        let rp = \<lparr>seqn = sq, buf = rbuf, buf_size = len, rts = now, retries = 0\<rparr>;
            l = retransmit_list s @ [rp]
        in Some (s\<lparr>retransmit_list := drop (length l - MAX_RETRANSMIT_QUEUE_SIZE) l\<rparr>) })"

definition GetRtcpNackPackets :: "buffer option \<Rightarrow> int \<Rightarrow> nat option" where
  "GetRtcpNackPackets b buflen = map_option length (janus_rtcp_get_nacks b buflen)"

text \<open>The packet that the code assembles on the stack before it relays it.\<close>

definition packet_of :: "packetType \<Rightarrow> buffer \<Rightarrow> int \<Rightarrow> dataPacket option" where
  "packet_of ty b len = do {
     d \<leftarrow> memcpy (data dataPacket_new) b len;
     Some (dataPacket_new\<lparr>comp := 0, pkt_type := ty, pkt_length := len, data := d\<rparr>) }"

text \<open>The search from the back of the list.\<close>

definition find_packet :: "u32 \<Rightarrow> RtpRetransmitPacket list \<Rightarrow> nat option" where
  "find_packet sq l = find (\<lambda>i. sq = ucast (seqn (l ! i))) (rev [0..<length l])"

text \<open>
  One turn of the loop over the requested numbers: the list, the number of packets sent for
  the first time, the packets relayed.
\<close>

definition retransmit_one ::
    "int \<Rightarrow> int \<Rightarrow> u32 \<Rightarrow> RtpRetransmitPacket list
     \<Rightarrow> (RtpRetransmitPacket list \<times> nat \<times> nack_effect list) option" where
  "retransmit_one now now2 sq l =
     (case find_packet sq l of
        None \<Rightarrow> Some (l, 0, [])
      | Some i \<Rightarrow>
          let rp = l ! i in
          if retries rp < 5 then
            (if retries rp = 0 \<or> now - rts rp > 30 then do {
               p \<leftarrow> packet_of RETRANSMIT_PACKET (buf rp) (buf_size rp);
               Some (l[i := rp\<lparr>rts := now2, retries := retries rp + 1\<rparr>],
                     if retries rp = 0 then 1 else 0, [RelayPacket p]) }
             else Some (l, 0, []))
          else Some (l, 0, []))"

fun retransmit_all ::
    "int \<Rightarrow> (nat \<Rightarrow> int) \<Rightarrow> nat \<Rightarrow> u32 list \<Rightarrow> RtpRetransmitPacket list
     \<Rightarrow> (RtpRetransmitPacket list \<times> nat \<times> nack_effect list) option" where
  "retransmit_all now clk k [] l = Some (l, 0, [])"
| "retransmit_all now clk k (sq # nacks) l = do {
     (l, n, es) \<leftarrow> retransmit_one now (clk k) sq l;
     (l, n', es') \<leftarrow> retransmit_all now clk (k + 1) nacks l;
     Some (l, n + n', es @ es') }"

definition ProcessRtcpNackPackets ::
    "int \<Rightarrow> (nat \<Rightarrow> int) \<Rightarrow> nack_processor \<Rightarrow> buffer option \<Rightarrow> int
     \<Rightarrow> (nat \<times> nack_processor \<times> nack_effect list) option" where
  "ProcessRtcpNackPackets now clk s b buflen = do {
     nacks \<leftarrow> janus_rtcp_get_nacks b buflen;
     if nacks = [] then Some (0, s, [])
     else do {
       (l, lost_not_retrans, es) \<leftarrow> retransmit_all now clk 0 nacks (retransmit_list s);
       Some (lost_not_retrans, s\<lparr>retransmit_list := l\<rparr>, es) } }"

section \<open>Tracking of received sequence numbers\<close>

text \<open>\<open>while (cur_seqn != new_seqn)\<close>: one entry per number up to the new one.\<close>

function add_forward :: "int \<Rightarrow> u16 \<Rightarrow> u16 \<Rightarrow> seq_entry list" where
  "add_forward now new_seqn cur_seqn =
     (if cur_seqn = new_seqn then []
      else \<lparr>e_ts = now, e_seq = cur_seqn + 1,
            e_state = (if cur_seqn + 1 = new_seqn then SEQ_RECVED else SEQ_MISSING), e_times = 0\<rparr>
           # add_forward now new_seqn (cur_seqn + 1))"
  by pat_completeness auto
termination
proof (relation "measure (\<lambda>(_, new_seqn, cur_seqn). unat (new_seqn - cur_seqn))")
  show "((now, new_seqn, cur_seqn + 1), now, new_seqn, cur_seqn)
      \<in> measure (\<lambda>(_, new_seqn, cur_seqn). unat (new_seqn - cur_seqn))"
    if "cur_seqn \<noteq> new_seqn" for now and new_seqn cur_seqn :: u16
  proof -
    have "new_seqn - cur_seqn \<noteq> 0" using that by auto
    then have "unat (new_seqn - cur_seqn - 1) < unat (new_seqn - cur_seqn)"
      by (simp add: unat_minus_one unat_gt_0)
    then show ?thesis by (simp add: diff_diff_add)
  qed
qed simp

declare add_forward.simps [simp del]

text \<open>One turn of the backward scan: the entry and whether its number is asked for.\<close>

definition scan_entry :: "int \<Rightarrow> u16 \<Rightarrow> seq_entry \<Rightarrow> seq_entry \<times> bool" where
  "scan_entry now new_seqn e =
     (if e_seq e = new_seqn then (e\<lparr>e_state := SEQ_RECVED\<rparr>, False)
      else if e_state e = SEQ_MISSING \<and> now - e_ts e > SEQ_MISSING_WAIT
      then (e\<lparr>e_state := SEQ_NACKED, e_ts := now, e_times := e_times e + 1\<rparr>, True)
      else if e_state e = SEQ_NACKED \<and> now - e_ts e > SEQ_NACKED_WAIT \<and> e_times e \<le> MAX_TIMES_OF_RESEND
      then (e\<lparr>e_ts := now, e_times := e_times e + 1,
              e_state := (if e_times e + 1 > MAX_TIMES_OF_RESEND then SEQ_GIVEUP else e_state e)\<rparr>, True)
      else (e, False))"

definition scan_back :: "int \<Rightarrow> u16 \<Rightarrow> seq_entry list \<Rightarrow> seq_entry list \<times> u32 list" where
  "scan_back now new_seqn old =
     (let r = map (scan_entry now new_seqn) (rev old)
      in (rev (map fst r), map (\<lambda>(e, _). ucast (e_seq e)) (filter snd r)))"

definition RtcpNackCreate ::
    "((u32 \<Rightarrow> u32 \<Rightarrow> int) \<Rightarrow> u32 list \<Rightarrow> u32 list) \<Rightarrow> u32 list \<Rightarrow> buffer \<Rightarrow> (int \<times> buffer) option" where
  "RtcpNackCreate g_sort nacks nackbuf =
     (if nacks = [] then Some (0, nackbuf)
      else do {
        (res, b) \<leftarrow> janus_rtcp_nacks g_sort (Some nackbuf) 120 (rev nacks);
        b \<leftarrow> b;
        Some (res, b) })"

definition SendFirPacket :: "nack_processor \<Rightarrow> (nack_processor \<times> nack_effect list) option" where
  "SendFirPacket s = do {
     (len, b, fir_tmp) \<leftarrow> janus_rtcp_fir (Some (replicate 20 0)) 20 (Some (fir_seq s));
     b \<leftarrow> b;
     fir_tmp \<leftarrow> fir_tmp;
     p \<leftarrow> packet_of VIDEO_PACKET b len;
     b \<leftarrow> memset0 b 0 12;
     (len2, b2) \<leftarrow> janus_rtcp_pli (Some b) 12;
     b2 \<leftarrow> b2;
     d2 \<leftarrow> memcpy (data p) b2 len2;
     Some (s\<lparr>fir_seq := fir_tmp\<rparr>,
           [RelayPacket p, RelayPacket (p\<lparr>pkt_length := len2, data := d2\<rparr>)]) }"

definition jump_too_big :: "u16 \<Rightarrow> u16 \<Rightarrow> bool" where
  "jump_too_big new_seqn cur_seqn \<longleftrightarrow>
     \<not> janus_seq_in_range new_seqn cur_seqn (of_nat LAST_SEQS_MAX_LEN) \<and>
     \<not> janus_seq_in_range cur_seqn new_seqn 1000"

text \<open>The list after the packet, and the numbers to ask for.\<close>

definition track_seqs :: "int \<Rightarrow> u16 \<Rightarrow> seq_entry list \<Rightarrow> seq_entry list \<times> u32 list" where
  "track_seqs now new_seqn last_seqs =
     (let cur_seqn = (if last_seqs = [] then new_seqn - 1 else e_seq (last last_seqs));
          big = jump_too_big new_seqn cur_seqn;
          old = (if big then [] else last_seqs);
          cur_seqn = (if big then new_seqn - 1 else cur_seqn);
          added = (if janus_seq_in_range new_seqn cur_seqn (of_nat LAST_SEQS_MAX_LEN)
                   then add_forward now new_seqn cur_seqn else []);
          (old', nacks) = scan_back now new_seqn old;
          l = old' @ added
      in (drop (length l - LAST_SEQS_MAX_LEN) l, nacks))"

definition KeepTrackRtpSequenceNumber ::
    "((u32 \<Rightarrow> u32 \<Rightarrow> int) \<Rightarrow> u32 list \<Rightarrow> u32 list) \<Rightarrow> bool \<Rightarrow> bool \<Rightarrow> int \<Rightarrow> int \<Rightarrow> nack_processor \<Rightarrow> u16 \<Rightarrow> buffer
     \<Rightarrow> (int \<times> nack_processor \<times> buffer \<times> nack_effect list) option" where
  "KeepTrackRtpSequenceNumber g_sort FLAGS_enable_nack_request_fir locked now current_time s new_seqn nackbuf =
     (if \<not> locked then Some (0, s, nackbuf, [])
      else let (l, nacks) = track_seqs now new_seqn (last_seqs_video s) in
        if length nacks > RETRANSMIT_PACKETS_LIMIT \<and> current_time - last_fir_request s \<ge> KEY_FRAME_INTERVAL then
          (if FLAGS_enable_nack_request_fir then do {
             (s, es) \<leftarrow> SendFirPacket (s\<lparr>last_seqs_video := []\<rparr>);
             Some (0, s\<lparr>last_fir_request := current_time, get_fir := False\<rparr>, nackbuf, es) }
           else Some (0, s\<lparr>last_seqs_video := []\<rparr>, nackbuf, []))
        else do {
          (res, nackbuf) \<leftarrow> RtcpNackCreate g_sort nacks nackbuf;
          Some (res, s\<lparr>last_seqs_video := l\<rparr>, nackbuf, []) })"

definition SendNackByCondition ::
    "((u32 \<Rightarrow> u32 \<Rightarrow> int) \<Rightarrow> u32 list \<Rightarrow> u32 list) \<Rightarrow> bool \<Rightarrow> bool \<Rightarrow> int \<Rightarrow> int \<Rightarrow> nack_processor \<Rightarrow> u16 \<Rightarrow> packetType
     \<Rightarrow> (int \<times> nack_processor \<times> nack_effect list) option" where
  "SendNackByCondition g_sort flag locked now current_time s seqnumber media_type = do {
     (res, s, nackbuf, es) \<leftarrow>
       KeepTrackRtpSequenceNumber g_sort flag locked now current_time s seqnumber (replicate 120 0);
     Some (res, s, es @ (if res > 0 then [SendRTCP media_type nackbuf res] else [])) }"

definition SendRtcpNackList ::
    "((u32 \<Rightarrow> u32 \<Rightarrow> int) \<Rightarrow> u32 list \<Rightarrow> u32 list) \<Rightarrow> u16 list \<Rightarrow> packetType \<Rightarrow> nack_effect list option" where
  "SendRtcpNackList g_sort nack_list packet_type = do {
     (res, nackbuf) \<leftarrow> RtcpNackCreate g_sort (map ucast nack_list) (replicate 120 0);
     p \<leftarrow> packet_of packet_type nackbuf res;
     Some [RelayPacket p] }"

section \<open>The retransmission buffer is bounded and rate limited\<close>

definition retransmit_inv :: "nack_processor \<Rightarrow> bool" where
  "retransmit_inv s \<longleftrightarrow> length (retransmit_list s) \<le> MAX_RETRANSMIT_QUEUE_SIZE \<and>
     (\<forall>rp\<in>set (retransmit_list s). 0 \<le> retries rp \<and> retries rp \<le> 5 \<and>
        0 \<le> buf_size rp \<and> nat (buf_size rp) = length (buf rp) \<and> buf_size rp \<le> 1500 \<and>
        getSeqNumber (buf rp) = Some (seqn rp))"

lemma find_packet_Some:
  "find_packet sq l = Some i \<Longrightarrow> i < length l \<and> sq = ucast (seqn (l ! i))"
  by (auto simp: find_packet_def find_Some_iff rev_nth)

lemma find_packet_None: "find_packet sq l = None \<longleftrightarrow> (\<forall>rp\<in>set l. sq \<noteq> ucast (seqn rp))"
  by (auto simp: find_packet_def find_None_iff all_set_conv_all_nth)

lemma packet_of_defined:
  assumes "0 \<le> n" "n \<le> 1500" "nat n \<le> length b"
  shows "\<exists>p. packet_of ty b n = Some p \<and> pkt_type p = ty \<and> pkt_length p = n \<and> take (nat n) (data p) = take (nat n) b"
  using assms by (simp add: packet_of_def memcpy_def dataPacket_new_def DATA_SIZE_def)

text \<open>
  \<open>PushPacket\<close> stores a copy of any packet of at most 1500 bytes that has an RTP header,
  keeps the buffer well-formed and never holds more than 300 packets; the newest packet is always kept.
\<close>

theorem push_packet_bounded:
  assumes "retransmit_inv s" "0 \<le> len" "len \<le> 1500" "nat len = length b" "12 \<le> length b"
  shows "\<exists>s' rp. PushPacket now s b len = Some s' \<and> retransmit_inv s' \<and>
    last (retransmit_list s') = rp \<and> buf rp = b \<and> getSeqNumber b = Some (seqn rp) \<and> retries rp = 0"
proof -
  obtain sq where sq: "getSeqNumber b = Some sq"
    using assms(5) by (auto simp: getSeqNumber_def rd16_def)
  define rp where "rp = \<lparr>seqn = sq, buf = b, buf_size = len, rts = now, retries = 0\<rparr>"
  define l where "l = retransmit_list s @ [rp]"
  have push: "PushPacket now s b len = Some (s\<lparr>retransmit_list := drop (length l - MAX_RETRANSMIT_QUEUE_SIZE) l\<rparr>)"
    using assms sq by (simp add: PushPacket_def memcpy_def rp_def l_def)
  have "\<forall>x\<in>set (drop (length l - MAX_RETRANSMIT_QUEUE_SIZE) l). x = rp \<or> x \<in> set (retransmit_list s)"
    by (auto simp: l_def dest: in_set_dropD)
  then have inv: "retransmit_inv (s\<lparr>retransmit_list := drop (length l - MAX_RETRANSMIT_QUEUE_SIZE) l\<rparr>)"
    using assms sq by (auto simp: retransmit_inv_def rp_def)
  have "last (drop (length l - MAX_RETRANSMIT_QUEUE_SIZE) l) = rp"
    by (simp add: l_def MAX_RETRANSMIT_QUEUE_SIZE_def)
  then show ?thesis using push inv sq by (auto simp: rp_def)
qed

theorem push_packet_bounded_witness:
  "\<exists>s' rp. PushPacket 5 NackProcessor_new [0x80, 96, 1, 2, 0, 0, 0, 0, 0, 0, 0, 1] 12 = Some s' \<and>
    last (retransmit_list s') = rp \<and> buf rp = [0x80, 96, 1, 2, 0, 0, 0, 0, 0, 0, 0, 1]"
proof -
  have "retransmit_inv NackProcessor_new" by (simp add: retransmit_inv_def NackProcessor_new_def)
  then show ?thesis
    using push_packet_bounded [of NackProcessor_new 12 "[0x80, 96, 1, 2, 0, 0, 0, 0, 0, 0, 0, 1]" 5] by auto
qed

definition good_packet :: "RtpRetransmitPacket \<Rightarrow> bool" where
  "good_packet rp \<longleftrightarrow> 0 \<le> retries rp \<and> retries rp \<le> 5 \<and> 0 \<le> buf_size rp \<and>
     nat (buf_size rp) = length (buf rp) \<and> buf_size rp \<le> 1500 \<and> getSeqNumber (buf rp) = Some (seqn rp)"

lemma retransmit_inv_alt:
  "retransmit_inv s \<longleftrightarrow> length (retransmit_list s) \<le> MAX_RETRANSMIT_QUEUE_SIZE \<and> list_all good_packet (retransmit_list s)"
  by (auto simp: retransmit_inv_def good_packet_def list_all_iff)

definition relays :: "buffer \<Rightarrow> nack_effect \<Rightarrow> bool" where
  "relays b e \<longleftrightarrow> (case e of
     RelayPacket p \<Rightarrow> pkt_type p = RETRANSMIT_PACKET \<and> pkt_length p = int (length b) \<and>
       take (length b) (data p) = b
   | SendRTCP _ _ _ \<Rightarrow> False)"

abbreviation stored :: "RtpRetransmitPacket list \<Rightarrow> (u16 \<times> buffer) list" where
  "stored l \<equiv> map (\<lambda>rp. (seqn rp, buf rp)) l"

text \<open>The effect of handling the requests \<open>A\<close> on the buffer.\<close>

definition retransmitted ::
    "u32 set \<Rightarrow> RtpRetransmitPacket list \<Rightarrow> RtpRetransmitPacket list \<Rightarrow> nack_effect list \<Rightarrow> bool" where
  "retransmitted A l l' es \<longleftrightarrow> list_all good_packet l' \<and> stored l' = stored l \<and>
     sum_list (map retries l') = sum_list (map retries l) + int (length es) \<and>
     (\<forall>e\<in>set es. \<exists>(sn, b) \<in> set (stored l). ucast sn \<in> A \<and> relays b e)"

lemma retransmitted_trans:
  assumes "retransmitted A l l1 es1" "retransmitted B l1 l2 es2"
  shows "retransmitted (A \<union> B) l l2 (es1 @ es2)"
proof -
  have st: "stored l1 = stored l" using assms(1) by (simp only: retransmitted_def)
  have "\<exists>(sn, b) \<in> set (stored l). ucast sn \<in> A \<union> B \<and> relays b e" if "e \<in> set es1 \<or> e \<in> set es2" for e
  proof -
    from that have "(\<exists>(sn, b) \<in> set (stored l). ucast sn \<in> A \<and> relays b e) \<or>
        (\<exists>(sn, b) \<in> set (stored l). ucast sn \<in> B \<and> relays b e)"
      using assms unfolding retransmitted_def st by blast
    then show ?thesis by blast
  qed
  then show ?thesis using assms st unfolding retransmitted_def by simp
qed

lemma sum_list_increment: "i < length xs \<Longrightarrow> sum_list (xs[i := xs ! i + 1]) = sum_list xs + (1 :: int)"
proof (induction xs arbitrary: i)
  case (Cons x xs)
  then show ?case by (cases i) auto
qed simp

lemma retransmit_one_spec:
  assumes "list_all good_packet l"
  shows "\<exists>l' n es. retransmit_one now now2 sq l = Some (l', n, es) \<and> retransmitted {sq} l l' es"
proof (cases "find_packet sq l")
  case None
  then show ?thesis using assms by (simp add: retransmit_one_def retransmitted_def)
next
  case (Some i)
  then have i: "i < length l" "sq = ucast (seqn (l ! i))" by (auto dest: find_packet_Some)
  have g: "good_packet (l ! i)" using assms i(1) by (simp add: list_all_length)
  show ?thesis
  proof (cases "retries (l ! i) < 5 \<and> (retries (l ! i) = 0 \<or> now - rts (l ! i) > 30)")
    case True
    obtain p where p: "packet_of RETRANSMIT_PACKET (buf (l ! i)) (buf_size (l ! i)) = Some p"
      "relays (buf (l ! i)) (RelayPacket p)"
      using packet_of_defined [of "buf_size (l ! i)" "buf (l ! i)" RETRANSMIT_PACKET] g
      by (auto simp: good_packet_def relays_def)
    let ?rp = "(l ! i)\<lparr>rts := now2, retries := retries (l ! i) + 1\<rparr>"
    have run: "retransmit_one now now2 sq l = Some (l[i := ?rp], if retries (l ! i) = 0 then 1 else 0, [RelayPacket p])"
      using Some True p by (auto simp: retransmit_one_def Let_def)
    have "good_packet ?rp" using g True by (auto simp: good_packet_def)
    then have "list_all good_packet (l[i := ?rp])"
      using assms i(1) by (auto simp: list_all_length nth_list_update)
    moreover have "map (\<lambda>rp. (seqn rp, buf rp)) (l[i := ?rp]) = map (\<lambda>rp. (seqn rp, buf rp)) l"
      using i(1) by (simp add: list_eq_iff_nth_eq nth_list_update)
    moreover have "sum_list (map retries (l[i := ?rp])) = sum_list (map retries l) + 1"
      using i(1) sum_list_increment [of i "map retries l"] by (simp add: map_update)
    moreover have "(seqn (l ! i), buf (l ! i)) \<in> set (map (\<lambda>rp. (seqn rp, buf rp)) l)" using i(1) by auto
    ultimately have "retransmitted {sq} l (l[i := ?rp]) [RelayPacket p]"
      using p(2) i(2) unfolding retransmitted_def by (simp only: set_simps) auto
    with run show ?thesis by blast
  next
    case False
    then show ?thesis using Some assms by (auto simp: retransmit_one_def Let_def retransmitted_def)
  qed
qed

lemma retransmit_all_spec:
  assumes "list_all good_packet l"
  shows "\<exists>l' n es. retransmit_all now clk k nacks l = Some (l', n, es) \<and> retransmitted (set nacks) l l' es"
  using assms
proof (induction nacks arbitrary: l k)
  case Nil
  then show ?case by (simp add: retransmitted_def)
next
  case (Cons sq nacks)
  obtain l1 n1 es1 where one: "retransmit_one now (clk k) sq l = Some (l1, n1, es1)" "retransmitted {sq} l l1 es1"
    using retransmit_one_spec [OF Cons.prems] by blast
  then have "list_all good_packet l1" by (simp add: retransmitted_def)
  then obtain l2 n2 es2 where all: "retransmit_all now clk (k + 1) nacks l1 = Some (l2, n2, es2)"
    "retransmitted (set nacks) l1 l2 es2"
    using Cons.IH by blast
  then show ?case using one retransmitted_trans [OF one(2) all(2)] by simp
qed

lemma process_nacks_spec:
  assumes inv: "retransmit_inv s" and nacks: "janus_rtcp_get_nacks b buflen = Some nacks"
  shows "\<exists>n s' es. ProcessRtcpNackPackets now clk s b buflen = Some (n, s', es) \<and> retransmit_inv s' \<and>
    stored (retransmit_list s') = stored (retransmit_list s) \<and>
    sum_list (map retries (retransmit_list s')) = sum_list (map retries (retransmit_list s)) + int (length es) \<and>
    (\<forall>e\<in>set es. \<exists>(sn, b) \<in> set (stored (retransmit_list s)). ucast sn \<in> set nacks \<and> relays b e)"
proof (cases "nacks = []")
  case True
  then show ?thesis using inv nacks by (simp add: ProcessRtcpNackPackets_def)
next
  case False
  have g: "list_all good_packet (retransmit_list s)" "length (retransmit_list s) \<le> MAX_RETRANSMIT_QUEUE_SIZE"
    using inv by (auto simp: retransmit_inv_alt)
  obtain l n es where r: "retransmit_all now clk 0 nacks (retransmit_list s) = Some (l, n, es)"
    "retransmitted (set nacks) (retransmit_list s) l es"
    using retransmit_all_spec [OF g(1)] by blast
  then have l: "stored l = stored (retransmit_list s)" "list_all good_packet l" by (simp_all only: retransmitted_def)
  have "length l = length (retransmit_list s)" using l(1) by (rule map_eq_imp_length_eq)
  then have "retransmit_inv (s\<lparr>retransmit_list := l\<rparr>)" using l(2) g(2) by (simp add: retransmit_inv_alt)
  moreover have "ProcessRtcpNackPackets now clk s b buflen = Some (n, s\<lparr>retransmit_list := l\<rparr>, es)"
    using False nacks r(1) by (simp add: ProcessRtcpNackPackets_def)
  ultimately show ?thesis
    using r(2) unfolding retransmitted_def
    by (intro exI [of _ n] exI [of _ "s\<lparr>retransmit_list := l\<rparr>"] exI [of _ es]) simp
qed



section \<open>Received sequence numbers\<close>

definition due :: "int \<Rightarrow> u16 \<Rightarrow> seq_entry \<Rightarrow> bool" where
  "due now new_seqn e \<longleftrightarrow> e_seq e \<noteq> new_seqn \<and>
     (e_state e = SEQ_MISSING \<and> now - e_ts e > 12000 \<or>
      e_state e = SEQ_NACKED \<and> now - e_ts e > 155000 \<and> e_times e \<le> 10)"

text \<open>A missing entry was never asked for; after the eleventh NACK an entry is given up.\<close>

definition entry_ok :: "seq_entry \<Rightarrow> bool" where
  "entry_ok e \<longleftrightarrow> (case e_state e of
     SEQ_MISSING \<Rightarrow> e_times e = 0 | SEQ_NACKED \<Rightarrow> 1 \<le> unat (e_times e) \<and> unat (e_times e) \<le> 10
   | SEQ_GIVEUP \<Rightarrow> unat (e_times e) = 11 | SEQ_RECVED \<Rightarrow> unat (e_times e) \<le> 11)"

abbreviation follows :: "seq_entry \<Rightarrow> seq_entry \<Rightarrow> bool" where
  "follows x y \<equiv> e_seq y = e_seq x + 1"

definition track_inv :: "seq_entry list \<Rightarrow> bool" where
  "track_inv l \<longleftrightarrow> successively follows l \<and> list_all entry_ok l \<and> length l \<le> LAST_SEQS_MAX_LEN"

lemma scan_entry_facts:
  "e_seq (fst (scan_entry now n e)) = e_seq e"
  "snd (scan_entry now n e) \<longleftrightarrow> due now n e"
  "e_times (fst (scan_entry now n e)) = e_times e + (if due now n e then 1 else 0)"
  "e_seq e = n \<Longrightarrow> e_state (fst (scan_entry now n e)) = SEQ_RECVED"
  by (auto simp: scan_entry_def due_def nack_consts)

lemma snd_scan: "snd \<circ> scan_entry now n = due now n"
  by (simp add: fun_eq_iff scan_entry_facts(2))

lemma unat_inc_u16: "unat (x :: u16) < 1000 \<Longrightarrow> unat (x + 1) = unat x + 1"
  by (simp add: unat_word_ariths)

lemma scan_entry_ok: "entry_ok e \<Longrightarrow> entry_ok (fst (scan_entry now n e))"
proof -
  assume ok: "entry_ok e"
  have t: "unat (e_times e) \<le> 11" using ok by (auto simp: entry_ok_def split: seq_state.splits)
  then have "unat (e_times e + 1) = unat (e_times e) + 1" by (intro unat_inc_u16) simp
  then show ?thesis
    using ok by (auto simp: scan_entry_def entry_ok_def nack_consts word_less_nat_alt word_le_nat_alt
        split: seq_state.splits)
qed

lemma scan_back_facts:
  "map e_seq (fst (scan_back now n old)) = map e_seq old"
  "fst (scan_back now n old) = map (fst \<circ> scan_entry now n) old"
  "set (snd (scan_back now n old)) = (\<lambda>e. ucast (e_seq e)) ` {e \<in> set old. due now n e}"
proof -
  show "fst (scan_back now n old) = map (fst \<circ> scan_entry now n) old"
    by (simp add: scan_back_def Let_def rev_map)
  then show "map e_seq (fst (scan_back now n old)) = map e_seq old"
    by (simp add: scan_entry_facts)
  show "set (snd (scan_back now n old)) = (\<lambda>e. ucast (e_seq e)) ` {e \<in> set old. due now n e}"
    by (auto simp: scan_back_def Let_def filter_map split_beta comp_def scan_entry_facts)
qed

lemma successively_map_seq: "map e_seq xs = map e_seq ys \<Longrightarrow> successively follows xs = successively follows ys"
proof -
  have "successively follows zs = successively (\<lambda>a b. b = a + 1) (map e_seq zs)" for zs
    by (simp add: successively_map)
  then show "map e_seq xs = map e_seq ys \<Longrightarrow> ?thesis" by simp
qed

lemma successively_drop: "successively P xs \<Longrightarrow> successively P (drop n xs)"
  by (metis append_take_drop_id successively_append_iff)

lemma add_forward_spec:
  "length (add_forward now n c) = unat (n - c)"
  "successively follows (add_forward now n c)"
  "list_all entry_ok (add_forward now n c)"
  "c \<noteq> n \<Longrightarrow> e_seq (hd (add_forward now n c)) = c + 1"
  "c \<noteq> n \<Longrightarrow> e_seq (last (add_forward now n c)) = n \<and> e_state (last (add_forward now n c)) = SEQ_RECVED"
  "\<forall>e \<in> set (butlast (add_forward now n c)). e_state e = SEQ_MISSING \<and> e_ts e = now"
proof (induction now n c rule: add_forward.induct)
  case (1 now n c)
  note IH = this
  let ?t = "add_forward now n (c + 1)"
  have eq: "add_forward now n c = (if c = n then [] else
      \<lparr>e_ts = now, e_seq = c + 1, e_state = (if c + 1 = n then SEQ_RECVED else SEQ_MISSING), e_times = 0\<rparr> # ?t)"
    by (subst add_forward.simps) simp
  have nil: "?t = [] \<longleftrightarrow> c + 1 = n" by (subst add_forward.simps) simp
  have len: "unat (n - c) = unat (n - (c + 1)) + 1" if "c \<noteq> n"
  proof -
    have "n - c \<noteq> 0" using that by auto
    then have "unat (n - c - 1) = unat (n - c) - 1" "unat (n - c) > 0" by (simp_all add: unat_minus_one unat_gt_0)
    then show ?thesis by (simp add: diff_diff_add)
  qed
  {
    case 1
    show ?case using IH(1) len by (simp add: eq)
  next
    case 2
    show ?case using IH(2,4) nil by (auto simp: eq successively_Cons)
  next
    case 3
    show ?case using IH(3) by (simp add: eq entry_ok_def)
  next
    case 4
    then show ?case by (simp add: eq)
  next
    case 5
    then show ?case using IH(5) nil by (auto simp: eq)
  next
    case 6
    show ?case using IH(6) nil by (auto simp: eq)
  }
qed

lemma in_range_ahead160:
  "janus_seq_in_range n c (of_nat LAST_SEQS_MAX_LEN) \<longleftrightarrow> unat (n - c) < 160"
  using seq_in_range_iff [of n c "of_nat LAST_SEQS_MAX_LEN"]
  by (simp add: ahead_def LAST_SEQS_MAX_LEN_def word_less_nat_alt)

lemma track_seqs_shape:
  assumes "track_inv l"
  obtains old added where
    "track_seqs now n l = (drop (length (map (fst \<circ> scan_entry now n) old @ added) - LAST_SEQS_MAX_LEN)
       (map (fst \<circ> scan_entry now n) old @ added), snd (scan_back now n old))"
    "old = (if l \<noteq> [] \<and> jump_too_big n (e_seq (last l)) then [] else l)"
    "successively follows (old @ added)" "list_all entry_ok added" "length added < 160"
    "\<forall>e\<in>set (butlast added). e_state e = SEQ_MISSING"
    "added \<noteq> [] \<Longrightarrow> e_seq (last added) = n \<and> e_state (last added) = SEQ_RECVED"
proof -
  let ?cur = "if l = [] then n - 1 else e_seq (last l)"
  have first: "janus_seq_in_range n (n - 1) (of_nat LAST_SEQS_MAX_LEN)" by (simp add: in_range_ahead160)
  then have nil: "\<not> jump_too_big n (n - 1)" by (simp add: jump_too_big_def)
  define big where "big = jump_too_big n ?cur"
  define old where "old = (if big then [] else l)"
  define cur where "cur = (if big then n - 1 else ?cur)"
  define added where "added = (if janus_seq_in_range n cur (of_nat LAST_SEQS_MAX_LEN) then add_forward now n cur else [])"
  have s1: "track_seqs now n l = (drop (length (map (fst \<circ> scan_entry now n) old @ added) - LAST_SEQS_MAX_LEN)
       (map (fst \<circ> scan_entry now n) old @ added), snd (scan_back now n old))"
    by (simp add: track_seqs_def Let_def split_beta scan_back_facts(2) old_def added_def cur_def big_def)
  have s2: "old = (if l \<noteq> [] \<and> jump_too_big n (e_seq (last l)) then [] else l)"
    using nil by (auto simp: old_def big_def)
  have ad: "added = add_forward now n cur \<and> cur \<noteq> n" if "added \<noteq> []"
    using that add_forward_spec(1) [of now n cur] by (auto simp: added_def split: if_splits)
  have "follows (last old) (hd added)" if "old \<noteq> []" "added \<noteq> []"
    using that ad add_forward_spec(4) [of cur n now] by (auto simp: old_def cur_def split: if_splits)
  moreover have "successively follows old" "successively follows added"
    using assms by (simp_all add: track_inv_def old_def added_def add_forward_spec(2))
  ultimately have s3: "successively follows (old @ added)"
    by (auto simp: successively_append_iff)
  have s4: "list_all entry_ok added" by (simp add: added_def add_forward_spec(3))
  have s5: "length added < 160" by (simp add: added_def add_forward_spec(1) in_range_ahead160)
  have s6: "\<forall>e\<in>set (butlast added). e_state e = SEQ_MISSING" by (simp add: added_def add_forward_spec(6))
  have s7: "e_seq (last added) = n \<and> e_state (last added) = SEQ_RECVED" if "added \<noteq> []"
    using ad [OF that] add_forward_spec(5) [of cur n now] by simp
  show thesis by (rule that [OF s1 s2 s3 s4 s5 s6 s7])
qed

lemma track_inv_drop:
  "successively follows xs \<Longrightarrow> list_all entry_ok xs \<Longrightarrow> track_inv (drop (length xs - LAST_SEQS_MAX_LEN) xs)"
  by (auto simp: track_inv_def list_all_iff intro: successively_drop dest: in_set_dropD)

lemma track_seqs_inv:
  assumes "track_inv l"
  shows "track_inv (fst (track_seqs now n l))"
proof -
  obtain old added where t: "fst (track_seqs now n l) =
      drop (length (map (fst \<circ> scan_entry now n) old @ added) - LAST_SEQS_MAX_LEN) (map (fst \<circ> scan_entry now n) old @ added)"
    and o: "set old \<subseteq> set l" "successively follows (old @ added)" "list_all entry_ok added"
    using track_seqs_shape [OF assms, of now n] by (metis (no_types, lifting) empty_subsetI fst_conv list.set(1) order_refl)
  have "map e_seq (map (fst \<circ> scan_entry now n) old @ added) = map e_seq (old @ added)"
    by (simp add: scan_entry_facts)
  then have "successively follows (map (fst \<circ> scan_entry now n) old @ added)"
    using o(2) successively_map_seq by blast
  moreover have "list_all entry_ok (map (fst \<circ> scan_entry now n) old @ added)"
    using o(1,3) assms by (auto simp: list_all_iff track_inv_def intro!: scan_entry_ok)
  ultimately show ?thesis unfolding t by (rule track_inv_drop)
qed

lemma SendFirPacket_defined:
  assumes "0 \<le> fir_seq s" "fir_seq s \<le> 255"
  shows "\<exists>s' es. SendFirPacket s = Some (s', es) \<and> 0 \<le> fir_seq s' \<and> fir_seq s' \<le> 255 \<and>
    last_seqs_video s' = last_seqs_video s \<and> length es = 2"
  using assms
  by (simp add: SendFirPacket_def janus_rtcp_fir_def put_fir_def next_seqnr_def put_header_Some wr_defined
      packet_of_def memcpy_def dataPacket_new_def DATA_SIZE_def memset0_def janus_rtcp_pli_def put_short_def)

definition tracker_ok :: "nack_processor \<Rightarrow> bool" where
  "tracker_ok s \<longleftrightarrow> track_inv (last_seqs_video s) \<and> 0 \<le> fir_seq s \<and> fir_seq s \<le> 255"

lemma RtcpNackCreate_defined:
  assumes "slist_sort_spec g_sort" "length nackbuf = 120"
  shows "\<exists>res b. RtcpNackCreate g_sort nacks nackbuf = Some (res, b) \<and> res \<le> 120 \<and> length b = 120"
  using janus_nacks_defined [OF assms(1), of "rev nacks" 120 nackbuf] assms(2)
  by (auto simp: RtcpNackCreate_def)

text \<open>
  C4. Tracking never gets stuck and stays bounded.  For every incoming sequence number
  \<open>KeepTrackRtpSequenceNumber\<close> returns, inside of its 120-byte buffer; the list of tracked numbers
  stays a run of consecutive 16-bit numbers of at most 160 entries, and no entry is ever asked for
  more than eleven times.
\<close>

theorem keep_track_invariant:
  assumes "slist_sort_spec g_sort" "tracker_ok s" "length nackbuf = 120"
  shows "\<exists>res s' b es. KeepTrackRtpSequenceNumber g_sort flag locked now current_time s n nackbuf = Some (res, s', b, es) \<and>
    tracker_ok s' \<and> res \<le> 120 \<and> length b = 120"
proof -
  obtain l nacks where t: "track_seqs now n (last_seqs_video s) = (l, nacks)" by fastforce
  then have l: "track_inv l" using track_seqs_inv [of "last_seqs_video s" now n] assms(2) by (simp add: tracker_ok_def)
  obtain res b where c: "RtcpNackCreate g_sort nacks nackbuf = Some (res, b)" "res \<le> 120" "length b = 120"
    using RtcpNackCreate_defined [OF assms(1,3)] by blast
  obtain s' es where f: "SendFirPacket (s\<lparr>last_seqs_video := []\<rparr>) = Some (s', es)"
    "0 \<le> fir_seq s'" "fir_seq s' \<le> 255" "last_seqs_video s' = []"
    using SendFirPacket_defined [of "s\<lparr>last_seqs_video := []\<rparr>"] assms(2) by (auto simp: tracker_ok_def)
  have "track_inv []" by (simp add: track_inv_def)
  then show ?thesis
    using t l c f assms(2,3) by (simp add: KeepTrackRtpSequenceNumber_def tracker_ok_def)
qed

theorem keep_track_invariant_witness:
  "\<exists>res s' b es. KeepTrackRtpSequenceNumber (\<lambda>_. sort_key sint) True True 20000 5000
      (NackProcessor_new\<lparr>last_seqs_video := [\<lparr>e_ts = 0, e_seq = 65534, e_state = SEQ_MISSING, e_times = 0\<rparr>,
         \<lparr>e_ts = 0, e_seq = 65535, e_state = SEQ_RECVED, e_times = 0\<rparr>]\<rparr>) 2 (replicate 120 0)
      = Some (res, s', b, es) \<and> tracker_ok s'"
proof -
  let ?s = "NackProcessor_new\<lparr>last_seqs_video := [\<lparr>e_ts = 0, e_seq = 65534, e_state = SEQ_MISSING, e_times = 0\<rparr>,
         \<lparr>e_ts = 0, e_seq = 65535, e_state = SEQ_RECVED, e_times = 0\<rparr>]\<rparr>"
  have "tracker_ok ?s"
    by (simp add: tracker_ok_def track_inv_def NackProcessor_new_def entry_ok_def LAST_SEQS_MAX_LEN_def)
  then show ?thesis
    using keep_track_invariant [OF slist_sort_spec_sort_key, of ?s "replicate 120 0" True True 20000 5000 2] by auto
qed

text \<open>
  C3. A NACK asks for exactly what is overdue.  When a packet with number \<open>n\<close> arrives that is no
  big jump and at most 27 tracked entries are overdue (missing for more than 12 ms, or asked for
  more than 155 ms ago and not yet eleven times), the message built by
  \<open>KeepTrackRtpSequenceNumber\<close>, read back, lists exactly the overdue numbers, and \<open>n\<close> is not
  among them.
\<close>

theorem nack_asks_for_overdue:
  fixes now :: int
  assumes "slist_sort_spec g_sort" "tracker_ok s" "length nackbuf = 120"
    and "last_seqs_video s \<noteq> []" "\<not> jump_too_big n (e_seq (last (last_seqs_video s)))"
  defines "D \<equiv> filter (due now n) (last_seqs_video s)"
  assumes "D \<noteq> []" "length D \<le> 27"
  shows "\<exists>res s' b xs. KeepTrackRtpSequenceNumber g_sort flag True now current_time s n nackbuf = Some (res, s', b, []) \<and>
    janus_rtcp_get_nacks (Some b) res = Some xs \<and> set (map unat xs) = unat ` e_seq ` set D \<and> unat n \<notin> set (map unat xs)"
proof -
  have inv: "track_inv (last_seqs_video s)" using assms(2) by (simp add: tracker_ok_def)
  obtain old added where t: "track_seqs now n (last_seqs_video s) =
      (drop (length (map (fst \<circ> scan_entry now n) old @ added) - LAST_SEQS_MAX_LEN)
       (map (fst \<circ> scan_entry now n) old @ added), snd (scan_back now n old))" and old': "old =
        (if last_seqs_video s \<noteq> [] \<and> jump_too_big n (e_seq (last (last_seqs_video s))) then [] else last_seqs_video s)"
    using track_seqs_shape [OF inv, of now n] by blast
  then have old: "old = last_seqs_video s" using assms(5) by simp
  define nacks where "nacks = snd (scan_back now n old)"
  have nk: "set nacks = (\<lambda>e. ucast (e_seq e)) ` set D"
    using scan_back_facts(3) [of now n old] by (simp add: nacks_def old D_def)
  have len: "length nacks = length D"
    by (simp add: nacks_def old D_def scan_back_def Let_def filter_map snd_scan rev_filter [symmetric])
  then have ne: "nacks \<noteq> []" using assms(7) by auto
  have un: "unat (ucast x :: u32) = unat x" for x :: u16
    by (simp add: unat_ucast_mod less_trans [OF unat_u16_less])
  have small: "\<forall>x\<in>set (rev nacks). unat x < 65536" using nk un unat_u16_less by auto
  obtain b r xs where m: "janus_rtcp_nacks g_sort (Some nackbuf) 120 (rev nacks) = Some (r, Some b)"
    "janus_rtcp_get_nacks (Some b) r = Some xs" "map unat xs = sorted_list_of_set (unat ` set (rev nacks))"
    using nack_message_roundtrip [OF assms(1) _ small, of 120 nackbuf] assms(3,8) len ne by auto
  have "KeepTrackRtpSequenceNumber g_sort flag True now current_time s n nackbuf = Some (r, s\<lparr>last_seqs_video :=
      drop (length (map (fst \<circ> scan_entry now n) old @ added) - LAST_SEQS_MAX_LEN) (map (fst \<circ> scan_entry now n) old @ added)\<rparr>, b, [])"
    using t m(1) len assms(7,8)
    by (auto simp: KeepTrackRtpSequenceNumber_def RtcpNackCreate_def RETRANSMIT_PACKETS_LIMIT_def nacks_def)
  moreover have "set (map unat xs) = unat ` e_seq ` set D"
    unfolding m(3) by (simp add: nk image_image un)
  moreover have "unat n \<notin> unat ` e_seq ` set D" by (auto simp: D_def due_def word_unat_eq_iff)
  ultimately show ?thesis using m(2) by (intro exI conjI) (assumption, assumption, simp_all)
qed

theorem nack_asks_for_overdue_witness:
  "\<exists>res s' b xs. KeepTrackRtpSequenceNumber (\<lambda>_. sort_key sint) False True 20000 5000
      (NackProcessor_new\<lparr>last_seqs_video := [\<lparr>e_ts = 0, e_seq = 65534, e_state = SEQ_MISSING, e_times = 0\<rparr>,
         \<lparr>e_ts = 0, e_seq = 65535, e_state = SEQ_RECVED, e_times = 0\<rparr>]\<rparr>) 2 (replicate 120 0)
      = Some (res, s', b, []) \<and> janus_rtcp_get_nacks (Some b) res = Some xs \<and> set (map unat xs) = {65534}"
proof -
  let ?s = "NackProcessor_new\<lparr>last_seqs_video := [\<lparr>e_ts = 0, e_seq = 65534, e_state = SEQ_MISSING, e_times = 0\<rparr>,
         \<lparr>e_ts = 0, e_seq = 65535, e_state = SEQ_RECVED, e_times = 0\<rparr>]\<rparr>"
  have "tracker_ok ?s"
    by (simp add: tracker_ok_def track_inv_def NackProcessor_new_def entry_ok_def LAST_SEQS_MAX_LEN_def)
  moreover have "\<not> jump_too_big 2 65535"
    by (simp add: jump_too_big_def janus_seq_in_range_def LAST_SEQS_MAX_LEN_def Let_def)
  moreover have "filter (due 20000 2) (last_seqs_video ?s) = [\<lparr>e_ts = 0, e_seq = 65534, e_state = SEQ_MISSING, e_times = 0\<rparr>]"
    by (simp add: due_def)
  ultimately show ?thesis
    using nack_asks_for_overdue [OF slist_sort_spec_sort_key, of ?s "replicate 120 0" 2 20000 False 5000]
    by (simp del: set_map) blast
qed

text \<open>
  \<open>SendRtcpNackList\<close> with 28 numbers that are more than 16 apart: the 120-byte buffer has no
  room for 28 blocks, \<open>janus_rtcp_nacks\<close> returns -1, and the code copies -1 bytes (undefined
  behaviour) instead of checking the result.
\<close>

theorem nack_list_too_long_is_undefined:
  "SendRtcpNackList (\<lambda>_. sort_key sint) (map (\<lambda>i. of_nat (20 * i)) [0..<28]) VIDEO_PACKET = None"
  by code_simp

end
