(* ===== verification/Std_Map.thy ===== *)
theory Std_Map
  imports Orbit_Prelude
begin

text \<open>
  \<open>std::map\<close> as the components use it: an association list kept sorted by the comparison
  \<open>lt\<close> of the key type, so that iteration visits the keys in the order of the C++ container.
  Two keys are the same key when neither is less than the other.

  The locale \<open>key_order\<close> holds what a comparison must satisfy (a strict total order) and
  derives from it, through \<open>dictionary\<close>, the laws of a finite map.  The comparison of 32-bit
  keys is an instance here; \<open>operator<\<close> of \<open>NetworkStatusManager::Key\<close> is one in
  \<open>Network_Status\<close>.
\<close>

type_synonym ('k, 'v) std_map = "('k \<times> 'v) list"

fun sm_find :: "('k \<Rightarrow> 'k \<Rightarrow> bool) \<Rightarrow> 'k \<Rightarrow> ('k, 'v) std_map \<Rightarrow> 'v option" where
  "sm_find lt k [] = None"
| "sm_find lt k ((k', v) # m) =
     (if lt k' k then sm_find lt k m else if lt k k' then None else Some v)"

text \<open>\<open>m[k] = v\<close>\<close>

fun sm_set :: "('k \<Rightarrow> 'k \<Rightarrow> bool) \<Rightarrow> 'k \<Rightarrow> 'v \<Rightarrow> ('k, 'v) std_map \<Rightarrow> ('k, 'v) std_map" where
  "sm_set lt k v [] = [(k, v)]"
| "sm_set lt k v ((k', v') # m) =
     (if lt k' k then (k', v') # sm_set lt k v m
      else if lt k k' then (k, v) # (k', v') # m else (k', v) # m)"

fun sm_erase :: "('k \<Rightarrow> 'k \<Rightarrow> bool) \<Rightarrow> 'k \<Rightarrow> ('k, 'v) std_map \<Rightarrow> ('k, 'v) std_map" where
  "sm_erase lt k [] = []"
| "sm_erase lt k ((k', v') # m) =
     (if lt k' k then (k', v') # sm_erase lt k m else if lt k k' then (k', v') # m else m)"

text \<open>Reading \<open>m[k]\<close> inserts the value-initialised \<open>d\<close> when the key is missing.\<close>

definition sm_at :: "('k \<Rightarrow> 'k \<Rightarrow> bool) \<Rightarrow> 'v \<Rightarrow> 'k \<Rightarrow> ('k, 'v) std_map \<Rightarrow> 'v \<times> ('k, 'v) std_map" where
  "sm_at lt d k m = (case sm_find lt k m of Some v \<Rightarrow> (v, m) | None \<Rightarrow> (d, sm_set lt k d m))"

definition sm_sorted :: "('k \<Rightarrow> 'k \<Rightarrow> bool) \<Rightarrow> ('k, 'v) std_map \<Rightarrow> bool" where
  "sm_sorted lt m \<longleftrightarrow> sorted_wrt lt (map fst m)"

section \<open>The contract of a map\<close>

locale dictionary =
  fixes empty :: 'm
    and find :: "'k \<Rightarrow> 'm \<Rightarrow> 'v option"
    and upd :: "'k \<Rightarrow> 'v \<Rightarrow> 'm \<Rightarrow> 'm"
    and erase :: "'k \<Rightarrow> 'm \<Rightarrow> 'm"
    and inv :: "'m \<Rightarrow> bool"
  assumes inv_empty: "inv empty"
    and inv_upd: "inv m \<Longrightarrow> inv (upd k v m)"
    and inv_erase: "inv m \<Longrightarrow> inv (erase k m)"
    and find_empty: "find k empty = None"
    and find_upd: "inv m \<Longrightarrow> find j (upd k v m) = (if j = k then Some v else find j m)"
    and find_erase: "inv m \<Longrightarrow> find j (erase k m) = (if j = k then None else find j m)"
begin

lemma inv_fold_upd: "inv m \<Longrightarrow> inv (fold (\<lambda>k. upd k (f k)) ks m)"
  by (induction ks arbitrary: m) (simp_all add: inv_upd)

lemma find_fold_upd:
  "inv m \<Longrightarrow> find j (fold (\<lambda>k. upd k (f k)) ks m) = (if j \<in> set ks then Some (f j) else find j m)"
  by (induction ks arbitrary: m) (auto simp: inv_upd find_upd)

lemma inv_fold_erase: "inv m \<Longrightarrow> inv (fold erase ks m)"
  by (induction ks arbitrary: m) (simp_all add: inv_erase)

lemma find_fold_erase:
  "inv m \<Longrightarrow> find j (fold erase ks m) = (if j \<in> set ks then None else find j m)"
  by (induction ks arbitrary: m) (auto simp: inv_erase find_erase)

end

section \<open>A strict total order of the keys gives a map\<close>

locale key_order =
  fixes lt :: "'k \<Rightarrow> 'k \<Rightarrow> bool"
  assumes lt_irrefl: "\<not> lt a a"
    and lt_trans: "lt a b \<Longrightarrow> lt b c \<Longrightarrow> lt a c"
    and lt_total: "a \<noteq> b \<Longrightarrow> lt a b \<or> lt b a"
begin

lemma lt_asym: "lt a b \<Longrightarrow> \<not> lt b a"
  using lt_irrefl lt_trans by blast

lemma three_cases:
  obtains "lt a b" "\<not> lt b a" "a \<noteq> b" | "lt b a" "\<not> lt a b" "a \<noteq> b" | "a = b" "\<not> lt a b" "\<not> lt b a"
  using lt_asym lt_total lt_irrefl by metis

lemma sm_sorted_Cons: "sm_sorted lt ((k, v) # m) \<longleftrightarrow> sm_sorted lt m \<and> (\<forall>j\<in>fst ` set m. lt k j)"
  by (auto simp: sm_sorted_def)

lemma keys_set: "fst ` set (sm_set lt k v m) = insert k (fst ` set m)"
proof (induction m)
  case (Cons e m)
  then show ?case by (cases e; cases k "fst e" rule: three_cases) auto
qed simp

lemma keys_erase: "j \<in> fst ` set (sm_erase lt k m) \<Longrightarrow> j \<in> fst ` set m"
proof (induction m)
  case (Cons e m)
  then show ?case by (cases e; cases k "fst e" rule: three_cases) auto
qed simp

lemma sorted_set: "sm_sorted lt m \<Longrightarrow> sm_sorted lt (sm_set lt k v m)"
proof (induction m)
  case (Cons e m)
  obtain k' v' where e: "e = (k', v')" by (cases e)
  have s: "sm_sorted lt m" "\<forall>j\<in>fst ` set m. lt k' j"
    using Cons.prems by (simp_all add: e sm_sorted_Cons)
  have below: "\<forall>j\<in>fst ` set m. lt k j" if "lt k k'"
    using s(2) that lt_trans by blast
  show ?case
    using Cons.IH [OF s(1)] s below
    by (cases k k' rule: three_cases) (simp_all add: e sm_sorted_Cons keys_set del: ball_simps(9))
qed (simp add: sm_sorted_def)

lemma sorted_erase: "sm_sorted lt m \<Longrightarrow> sm_sorted lt (sm_erase lt k m)"
proof (induction m)
  case (Cons e m)
  obtain k' v' where e: "e = (k', v')" by (cases e)
  have s: "sm_sorted lt m" "\<forall>j\<in>fst ` set m. lt k' j"
    using Cons.prems by (simp_all add: e sm_sorted_Cons)
  have "\<forall>j\<in>fst ` set (sm_erase lt k m). lt k' j"
    using s(2) keys_erase by blast
  then show ?case
    using Cons.IH [OF s(1)] s
    by (cases k k' rule: three_cases) (simp_all add: e sm_sorted_Cons)
qed simp

lemma find_below:
  assumes "\<forall>j\<in>fst ` set m. lt k j"
  shows "sm_find lt k m = None"
  using assms lt_asym by (cases m) auto

lemma find_map_of: "sm_sorted lt m \<Longrightarrow> sm_find lt k m = map_of m k"
proof (induction m)
  case (Cons e m)
  obtain k' v' where e: "e = (k', v')" by (cases e)
  have s: "sm_sorted lt m" "\<forall>j\<in>fst ` set m. lt k' j"
    using Cons.prems by (simp_all add: e sm_sorted_Cons)
  have none: "map_of m k = None" if "lt k k'"
    using s(2) that lt_asym by (force simp: map_of_eq_None_iff)
  show ?case
    using Cons.IH [OF s(1)] none by (cases k k' rule: three_cases) (simp_all add: e)
qed simp

lemma find_set: "sm_sorted lt m \<Longrightarrow> sm_find lt j (sm_set lt k v m) = (if j = k then Some v else sm_find lt j m)"
proof (induction m)
  case Nil
  show ?case by (cases j k rule: three_cases) simp_all
next
  case (Cons e m)
  obtain k' v' where e: "e = (k', v')" by (cases e)
  have s: "sm_sorted lt m" using Cons.prems by (simp add: e sm_sorted_Cons)
  have t: "lt j k \<Longrightarrow> lt k k' \<Longrightarrow> lt j k'" by (rule lt_trans)
  show ?case
    using Cons.IH [OF s] t
    by (cases k k' rule: three_cases; cases j k' rule: three_cases; cases j k rule: three_cases)
      (simp_all add: e)
qed

lemma find_erase: "sm_sorted lt m \<Longrightarrow> sm_find lt j (sm_erase lt k m) = (if j = k then None else sm_find lt j m)"
proof (induction m)
  case (Cons e m)
  obtain k' v' where e: "e = (k', v')" by (cases e)
  have s: "sm_sorted lt m" "\<forall>j\<in>fst ` set m. lt k' j"
    using Cons.prems by (simp_all add: e sm_sorted_Cons)
  have none: "sm_find lt j m = None" if "lt j k' \<or> j = k'"
    using that s(2) lt_trans by (intro find_below) blast
  show ?case
    using Cons.IH [OF s(1)] none
    by (cases k k' rule: three_cases; cases j k' rule: three_cases) (auto simp: e)
qed simp

lemma keys_distinct: "sm_sorted lt m \<Longrightarrow> distinct (map fst m)"
  using lt_irrefl by (induction m) (auto simp: sm_sorted_def)

lemma find_elem: "sm_sorted lt m \<Longrightarrow> sm_find lt k m = Some v \<longleftrightarrow> (k, v) \<in> set m"
  using keys_distinct [of m] by (simp add: find_map_of)

end

sublocale key_order \<subseteq> dict: dictionary "[]" "sm_find lt" "sm_set lt" "sm_erase lt" "sm_sorted lt"
  by unfold_locales (simp_all add: sorted_set sorted_erase find_set find_erase, simp add: sm_sorted_def)

interpretation um: key_order "(<) :: u32 \<Rightarrow> u32 \<Rightarrow> bool"
  by unfold_locales auto

interpretation intk: key_order "(<) :: int \<Rightarrow> int \<Rightarrow> bool"
  by unfold_locales auto

end
