(* ===== verification/Network_Counters.thy ===== *)
theory Network_Counters
  imports Std_Map Seq_Number
begin

text \<open>
  The per-source counters of \<open>src/orbit/network_status.{h,cc}\<close>: round-trip times
  (\<open>RttStatus\<close>), what was sent per synchronisation source (\<open>SendPacketsStatus\<close>), bitrates
  (\<open>BitrateStatus\<close>) and the loss statistics of one received medium (the video and the audio
  half of \<open>NetworkStatus\<close> have the same fields and the same code).

  Every reading of the clock is an argument, in milliseconds.  Unsigned fields are words; signed
  ones are \<open>int\<close> and an operation that leaves the range of its C type is \<open>None\<close>.
\<close>

definition UPDATE_INTERVAL :: int where "UPDATE_INTERVAL = 3000"

definition int32_ok :: "int \<Rightarrow> bool" where
  "int32_ok x \<longleftrightarrow> - (2 ^ 31) \<le> x \<and> x < 2 ^ 31"

text \<open>Signed 32-bit addition; overflow is undefined.\<close>

definition add32s :: "int \<Rightarrow> int \<Rightarrow> int option" where
  "add32s a b = (if int32_ok (a + b) then Some (a + b) else None)"

section \<open>Round-trip times\<close>

record RttStatus =
  total_rtt :: u64
  last_time_of_rtt_update :: int
  number_of_rtt :: u16
  avg_rtt :: int
  rtt :: int

definition RttStatus_new :: "int \<Rightarrow> RttStatus" where
  "RttStatus_new now =
     \<lparr>total_rtt = 0, last_time_of_rtt_update = now, number_of_rtt = 0, avg_rtt = 0, rtt = 0\<rparr>"

definition RttStatus_UpdateRTT :: "int \<Rightarrow> int \<Rightarrow> RttStatus \<Rightarrow> RttStatus" where
  "RttStatus_UpdateRTT now r s =
     (let s = (if r > 0
               then s\<lparr>total_rtt := total_rtt s + word_of_int r, number_of_rtt := number_of_rtt s + 1, rtt := r\<rparr>
               else s)
      in if now - last_time_of_rtt_update s > UPDATE_INTERVAL
         then s\<lparr>avg_rtt := (if number_of_rtt s > 0 then sint (total_rtt s div ucast (number_of_rtt s)) else -1),
                last_time_of_rtt_update := now, number_of_rtt := 0, total_rtt := 0\<rparr>
         else s)"

section \<open>What was sent\<close>

record SendPacketsStatus =
  last_update_time :: int
  current_highest_seqnumber :: u32
  last_cumulative_lost :: u32
  send_fraction_lost :: u32
  sent_packets :: int
  sent_bytes :: int
  last_ts :: u32
  expect_send_packets :: u32
  send_lost :: u32

definition SendPacketsStatus_new :: SendPacketsStatus where
  "SendPacketsStatus_new =
     \<lparr>last_update_time = 0, current_highest_seqnumber = 0, last_cumulative_lost = 0,
      send_fraction_lost = 0, sent_packets = 0, sent_bytes = 0, last_ts = 0,
      expect_send_packets = 0, send_lost = 0\<rparr>"

definition set_send_packets :: "int \<Rightarrow> SendPacketsStatus \<Rightarrow> SendPacketsStatus option" where
  "set_send_packets n s = map_option (\<lambda>v. s\<lparr>sent_packets := v\<rparr>) (add32s (sent_packets s) n)"

definition set_send_bytes :: "int \<Rightarrow> SendPacketsStatus \<Rightarrow> SendPacketsStatus option" where
  "set_send_bytes n s = map_option (\<lambda>v. s\<lparr>sent_bytes := v\<rparr>) (add32s (sent_bytes s) n)"

definition set_last_ts :: "u32 \<Rightarrow> SendPacketsStatus \<Rightarrow> SendPacketsStatus" where
  "set_last_ts ts s = s\<lparr>last_ts := last_ts s + ts\<rparr>"

text \<open>
  The differences are computed on 32-bit unsigned values and read as signed; the product with
  100 is a signed product.
\<close>

definition CalculateSendFractionLost ::
    "int \<Rightarrow> u32 \<Rightarrow> u32 \<Rightarrow> SendPacketsStatus \<Rightarrow> SendPacketsStatus option" where
  "CalculateSendFractionLost now highest_seqnumber cumulative_lost s =
     (let s = (if last_update_time s = 0 then s\<lparr>last_update_time := now\<rparr> else s)
      in if now - last_update_time s < UPDATE_INTERVAL then Some s
         else let seq_duration = highest_seqnumber - current_highest_seqnumber s;
                  lost_count = cumulative_lost - last_cumulative_lost s;
                  counts = (sint seq_duration > 0 \<and> sint lost_count \<ge> 0)
              in if counts \<and> \<not> int32_ok (sint lost_count * 100) then None
                 else Some (s\<lparr>send_fraction_lost :=
                                (if counts then word_of_int (sint lost_count * 100 div sint seq_duration)
                                 else send_fraction_lost s),
                              last_update_time := now,
                              current_highest_seqnumber := highest_seqnumber,
                              last_cumulative_lost := cumulative_lost,
                              expect_send_packets := seq_duration,
                              send_lost := lost_count\<rparr>))"

section \<open>Bitrates\<close>

record BitrateStatus =
  send_bitrate :: u32
  recv_bitrate :: u32
  audio_target_bitrate :: int
  video_target_bitrate :: int

definition BitrateStatus_new :: BitrateStatus where
  "BitrateStatus_new =
     \<lparr>send_bitrate = 0, recv_bitrate = 0, audio_target_bitrate = -1, video_target_bitrate = -1\<rparr>"

section \<open>Loss statistics of one received medium\<close>

record recv_stat =
  max_recv_seqn :: u32
  min_recv_seqn :: u32
  number_received :: u32
  last_time_of_fraction_update :: int
  recv_seqn_vector :: "u32 list"
  lost_of_recv_map :: "(u32, int) std_map"
  recv_fraction_lost_of :: u32
  recv_cumulative_lost :: u32
  expect_recv_packets :: u32
  lost_of_recv :: u32

definition recv_stat_new :: recv_stat where
  "recv_stat_new =
     \<lparr>max_recv_seqn = 0, min_recv_seqn = 0, number_received = 0, last_time_of_fraction_update = 0,
      recv_seqn_vector = [], lost_of_recv_map = [], recv_fraction_lost_of = 0,
      recv_cumulative_lost = 0, expect_recv_packets = 0, lost_of_recv = 0\<rparr>"

text \<open>\<open>while (lost_counter > 0) lost_map[seqnumber - lost_counter] = tm\<close>\<close>

fun record_lost :: "nat \<Rightarrow> u32 \<Rightarrow> int \<Rightarrow> (u32, int) std_map \<Rightarrow> (u32, int) std_map" where
  "record_lost 0 seqnumber tm m = m"
| "record_lost (Suc n) seqnumber tm m =
     record_lost n seqnumber tm (sm_set (<) (seqnumber - of_nat (Suc n)) tm m)"

text \<open>The initialisations before the packet is classified.\<close>

definition stat_init :: "int \<Rightarrow> u32 \<Rightarrow> recv_stat \<Rightarrow> recv_stat" where
  "stat_init now seqnumber s =
     (let s = (if last_time_of_fraction_update s = 0 then s\<lparr>last_time_of_fraction_update := now\<rparr> else s);
          s = (if max_recv_seqn s = 0 then s\<lparr>max_recv_seqn := seqnumber\<rparr> else s)
      in if min_recv_seqn s = 0
         then s\<lparr>min_recv_seqn := seqnumber, recv_seqn_vector := recv_seqn_vector s @ [seqnumber],
                number_received := number_received s + 1\<rparr>
         else s)"

text \<open>
  A packet ahead of the maximum is counted and the gap recorded; an older one is counted only if
  it was recorded as lost at most 12 ms (\<open>SEQ_MISSING_WAIT / 1000\<close>) ago.  \<open>None\<close> is the early
  return.
\<close>

definition stat_classify :: "int \<Rightarrow> int \<Rightarrow> u32 \<Rightarrow> recv_stat \<Rightarrow> recv_stat option" where
  "stat_classify t_lost t_late seqnumber s =
     (let new_lost = sint (seqnumber - max_recv_seqn s)
      in if new_lost > 0
         then Some (s\<lparr>lost_of_recv_map :=
                        (if new_lost > 1
                         then record_lost (nat (new_lost - 1)) seqnumber t_lost (lost_of_recv_map s)
                         else lost_of_recv_map s),
                      max_recv_seqn := seqnumber\<rparr>)
         else if seqnumber \<in> set (recv_seqn_vector s) then None
         else case sm_find (<) seqnumber (lost_of_recv_map s) of
                None \<Rightarrow> None
              | Some t \<Rightarrow> if t_late > t + SEQ_MISSING_WAIT div 1000 then None else Some s)"

text \<open>
  Counting the packet and, every three seconds, closing the period.  The second component is the
  reported pair (packets lost, time) of a period that was closed.
\<close>

definition stat_count :: "int \<Rightarrow> u32 \<Rightarrow> recv_stat \<Rightarrow> recv_stat \<times> (u32 \<times> int) option" where
  "stat_count now seqnumber s =
     (let s = s\<lparr>recv_seqn_vector := recv_seqn_vector s @ [seqnumber], number_received := number_received s + 1\<rparr>
      in if now - last_time_of_fraction_update s > UPDATE_INTERVAL
         then let expected = max_recv_seqn s - min_recv_seqn s + 1;
                  seq_lost = expected - number_received s
              in (s\<lparr>recv_fraction_lost_of :=
                      (if expected > 0 then seq_lost * 100 div expected else recv_fraction_lost_of s),
                    max_recv_seqn := 0, min_recv_seqn := 0, number_received := 0,
                    last_time_of_fraction_update := now,
                    recv_seqn_vector := [], lost_of_recv_map := [],
                    recv_cumulative_lost := recv_cumulative_lost s + seq_lost,
                    expect_recv_packets := expected, lost_of_recv := seq_lost\<rparr>,
                  Some (seq_lost, now))
         else (s, None))"

text \<open>
  The body that \<open>StatisticRecvFractionOfVideo\<close> and \<open>StatisticRecvFractionOfAudio\<close> share;
  \<open>clk i\<close> is the i-th reading of the clock.
\<close>

definition statistic_recv :: "(nat \<Rightarrow> int) \<Rightarrow> u32 \<Rightarrow> recv_stat \<Rightarrow> recv_stat \<times> (u32 \<times> int) option" where
  "statistic_recv clk seqnumber s =
     (let s = stat_init (clk 0) seqnumber s
      in case stat_classify (clk 1) (clk 1) seqnumber s of
           None \<Rightarrow> (s, None)
         | Some s \<Rightarrow> stat_count (clk 2) seqnumber s)"


section \<open>Correctness of the loss statistics\<close>

fun statistic_all :: "recv_stat \<Rightarrow> ((nat \<Rightarrow> int) \<times> u32) list \<Rightarrow> recv_stat" where
  "statistic_all s [] = s"
| "statistic_all s ((clk, n) # ps) = statistic_all (fst (statistic_recv clk n s)) ps"

text \<open>The figures of the last closed period.\<close>

definition closed_ok :: "recv_stat \<Rightarrow> bool" where
  "closed_ok s \<longleftrightarrow> unat (lost_of_recv s) \<le> unat (expect_recv_packets s) - 1 \<and>
     unat (expect_recv_packets s) < 65536 \<and>
     unat (recv_fraction_lost_of s) = unat (lost_of_recv s) * 100 div unat (expect_recv_packets s)"

text \<open>
  Between two packets: the counted numbers are distinct and lie between the minimum and the
  maximum, the recorded gaps lie strictly between them.
\<close>

definition recv_inv :: "recv_stat \<Rightarrow> bool" where
  "recv_inv s \<longleftrightarrow> closed_ok s \<and> distinct (recv_seqn_vector s) \<and>
     unat (number_received s) = length (recv_seqn_vector s) \<and> max_recv_seqn s < 65536 \<and>
     (if recv_seqn_vector s = [] then max_recv_seqn s = 0 \<and> min_recv_seqn s = 0 \<and> lost_of_recv_map s = []
      else 0 < min_recv_seqn s \<and> min_recv_seqn s \<le> max_recv_seqn s) \<and>
     set (recv_seqn_vector s) \<subseteq> {min_recv_seqn s .. max_recv_seqn s} \<and>
     sm_sorted (<) (lost_of_recv_map s) \<and>
     fst ` set (lost_of_recv_map s) \<subseteq> {min_recv_seqn s .. max_recv_seqn s}"

lemma closed_ok_update [simp]:
  "closed_ok (s\<lparr>max_recv_seqn := a\<rparr>) = closed_ok s" "closed_ok (s\<lparr>min_recv_seqn := a\<rparr>) = closed_ok s"
  "closed_ok (s\<lparr>number_received := a\<rparr>) = closed_ok s" "closed_ok (s\<lparr>recv_seqn_vector := v\<rparr>) = closed_ok s"
  "closed_ok (s\<lparr>lost_of_recv_map := l\<rparr>) = closed_ok s"
  "closed_ok (s\<lparr>last_time_of_fraction_update := t\<rparr>) = closed_ok s"
  by (simp_all add: closed_ok_def)

lemma distinct_range_length:
  assumes "distinct (v :: u32 list)" "set v \<subseteq> {a..b}"
  shows "length v \<le> Suc (unat b) - unat a"
proof -
  have "length v = card (unat ` set v)"
    using assms(1) by (simp add: card_image distinct_card inj_on_def flip: word_unat_eq_iff)
  also have "\<dots> \<le> card {unat a..unat b}"
    using assms(2) by (intro card_mono) (auto simp: word_le_nat_alt)
  finally show ?thesis by simp
qed

lemma u32_less: "unat (w :: u32) < 2 ^ 32"
proof -
  have "unat w < 2 ^ LENGTH(32)" by (rule unsigned_less)
  then show ?thesis by simp
qed

lemma unat_of_nat_small: "n < 2 ^ 32 \<Longrightarrow> unat (of_nat n :: u32) = n"
  by (simp add: unsigned_of_nat take_bit_nat_eq_self)

lemma record_lost_sorted: "sm_sorted (<) m \<Longrightarrow> sm_sorted (<) (record_lost n sq tm m)"
  by (induction n arbitrary: m) (simp_all add: um.sorted_set)

lemma record_lost_keys:
  "fst ` set (record_lost n sq tm m) \<subseteq> fst ` set m \<union> (\<lambda>k. sq - of_nat k) ` {1..n}"
proof (induction n arbitrary: m)
  case (Suc n)
  have "{1..Suc n} = insert (Suc n) {1..n}" by auto
  then show ?case using Suc.IH [of "sm_set (<) (sq - of_nat (Suc n)) tm m"]
    by (simp only: record_lost.simps um.keys_set image_insert) blast
qed simp

lemma sint_diff_small:
  assumes "a < 65536" "b < (65536 :: u32)"
  shows "sint (a - b) = int (unat a) - int (unat b)"
proof -
  have "unat a < 65536" "unat b < 65536"
    using assms by (simp_all add: word_less_nat_alt)
  moreover have "- (2 ^ 31) \<le> int x - int y" "int x - int y < 2 ^ 31" if "x < 65536" "y < 65536" for x y :: nat
    using that by simp_all
  ultimately have "- (2 ^ 31) \<le> int (unat a) - int (unat b)" "int (unat a) - int (unat b) < 2 ^ 31"
    by blast+
  then have "signed_take_bit 31 (int (unat a) - int (unat b)) = int (unat a) - int (unat b)"
    by (rule signed_take_bit_int_eq_self)
  moreover have "a - b = word_of_int (int (unat a) - int (unat b))" by simp
  ultimately show ?thesis by (simp only: signed_of_int) simp
qed

lemma in_gap:
  fixes sq mx :: u32
  assumes "unat sq - unat mx = Suc n" "k \<in> {1..n}"
  shows "mx \<le> sq - of_nat k" "sq - of_nat k \<le> sq"
proof -
  have le: "k \<le> unat sq" "unat mx \<le> unat sq - k" using assms by auto
  have k: "unat (of_nat k :: u32) = k"
    using assms u32_less [of sq] by (intro unat_of_nat_small) auto
  then have "unat (sq - of_nat k) = unat sq - k"
    using le by (subst unat_sub) (simp_all add: word_le_nat_alt)
  then show "mx \<le> sq - of_nat k" "sq - of_nat k \<le> sq"
    using le by (simp_all add: word_le_nat_alt)
qed

lemma stat_init_inv:
  assumes "recv_inv s" "0 < sq" "sq < 65536"
  shows "recv_inv (stat_init now sq s)" "recv_seqn_vector (stat_init now sq s) \<noteq> []"
  using assms by (auto simp: stat_init_def recv_inv_def Let_def sm_sorted_def unat_eq_0)

lemma stat_classify_inv:
  assumes inv: "recv_inv s" "recv_seqn_vector s \<noteq> []" and sq: "sq < 65536"
    and c: "stat_classify t1 t2 sq s = Some s'"
  shows "recv_inv s' \<and> recv_seqn_vector s' = recv_seqn_vector s \<and> number_received s' = number_received s \<and>
    min_recv_seqn s' = min_recv_seqn s \<and> min_recv_seqn s \<le> sq \<and> sq \<le> max_recv_seqn s' \<and>
    sq \<notin> set (recv_seqn_vector s) \<and> last_time_of_fraction_update s' = last_time_of_fraction_update s"
proof (cases "sint (sq - max_recv_seqn s) > 0")
  case True
  have mx: "max_recv_seqn s < 65536" using inv by (simp add: recv_inv_def)
  have lt: "unat (max_recv_seqn s) < unat sq"
    using True sint_diff_small [OF sq mx] by linarith
  define n where "n = unat sq - unat (max_recv_seqn s) - 1"
  have n: "nat (sint (sq - max_recv_seqn s) - 1) = n" "unat sq - unat (max_recv_seqn s) = Suc n"
    using lt sint_diff_small [OF sq mx] unfolding n_def by linarith+
  have keys: "fst ` set (record_lost n sq t1 (lost_of_recv_map s)) \<subseteq> {min_recv_seqn s .. sq}"
  proof -
    have m: "min_recv_seqn s \<le> max_recv_seqn s"
      using inv by (simp add: recv_inv_def)
    have "fst ` set (lost_of_recv_map s) \<subseteq> {min_recv_seqn s .. sq}"
      using inv lt by (auto simp: recv_inv_def word_le_nat_alt)
    moreover have "(\<lambda>k. sq - of_nat k) ` {1..n} \<subseteq> {min_recv_seqn s .. sq}"
      using in_gap [OF n(2)] order_trans [OF m] by (intro image_subsetI) (simp only: atLeastAtMost_iff)
    ultimately show ?thesis
      by (intro subset_trans [OF record_lost_keys] Un_least)
  qed
  define l where "l = (if sint (sq - max_recv_seqn s) > 1 then record_lost n sq t1 (lost_of_recv_map s)
    else lost_of_recv_map s)"
  have facts: "sq \<notin> set (recv_seqn_vector s)" "set (recv_seqn_vector s) \<subseteq> {min_recv_seqn s .. sq}"
    "min_recv_seqn s \<le> sq" "fst ` set (lost_of_recv_map s) \<subseteq> {min_recv_seqn s .. sq}"
    using inv lt by (auto simp: recv_inv_def word_le_nat_alt)
  have l: "sm_sorted (<) l" "fst ` set l \<subseteq> {min_recv_seqn s .. sq}"
    using facts(4) keys inv by (simp_all add: l_def recv_inv_def record_lost_sorted)
  have "s' = s\<lparr>lost_of_recv_map := l, max_recv_seqn := sq\<rparr>"
    using c True unfolding stat_classify_def Let_def n(1) l_def by simp
  then show ?thesis
    using inv l facts sq by (simp add: recv_inv_def)
next
  case False
  then obtain t where t: "sm_find (<) sq (lost_of_recv_map s) = Some t" "s' = s" "sq \<notin> set (recv_seqn_vector s)"
    using c by (auto simp: stat_classify_def Let_def split: if_splits option.splits)
  then have "sq \<in> fst ` set (lost_of_recv_map s)"
    using inv by (force simp: recv_inv_def um.find_elem)
  then show ?thesis using inv t by (auto simp: recv_inv_def)
qed

lemma close_period:
  assumes "0 < c" "c \<le> b - a + 1" "0 < a" "a \<le> b" "b < (65536 :: nat)"
  shows "unat (of_nat b - of_nat a + 1 - of_nat c :: u32) = b - a + 1 - c"
    "unat (of_nat b - of_nat a + 1 :: u32) = b - a + 1"
    "unat ((of_nat b - of_nat a + 1 - of_nat c :: u32) * 100) = (b - a + 1 - c) * 100"
proof -
  have e: "of_nat b - of_nat a + 1 = (of_nat (b - a + 1) :: u32)" using assms by (simp add: of_nat_diff)
  have l: "of_nat b - of_nat a + 1 - of_nat c = (of_nat (b - a + 1 - c) :: u32)"
    using assms by (simp add: of_nat_diff)
  show "unat (of_nat b - of_nat a + 1 - of_nat c :: u32) = b - a + 1 - c"
    unfolding l using assms by (intro unat_of_nat_small) simp
  show "unat (of_nat b - of_nat a + 1 :: u32) = b - a + 1"
    unfolding e using assms by (intro unat_of_nat_small) simp
  have "(of_nat b - of_nat a + 1 - of_nat c :: u32) * 100 = of_nat ((b - a + 1 - c) * 100)"
    unfolding l by simp
  also have "unat \<dots> = (b - a + 1 - c) * 100"
    using assms by (intro unat_of_nat_small) simp
  finally show "unat ((of_nat b - of_nat a + 1 - of_nat c :: u32) * 100) = (b - a + 1 - c) * 100" .
qed

text \<open>Counting a packet, and what closing the period leaves.\<close>

lemma stat_count_open:
  assumes "recv_inv s" "recv_seqn_vector s \<noteq> []" "min_recv_seqn s \<le> sq" "sq \<le> max_recv_seqn s"
    "sq \<notin> set (recv_seqn_vector s)" "now - last_time_of_fraction_update s \<le> UPDATE_INTERVAL"
  shows "recv_inv (fst (stat_count now sq s))" "snd (stat_count now sq s) = None"
    "recv_seqn_vector (fst (stat_count now sq s)) = recv_seqn_vector s @ [sq]"
    "min_recv_seqn (fst (stat_count now sq s)) = min_recv_seqn s"
    "max_recv_seqn (fst (stat_count now sq s)) = max_recv_seqn s"
    "last_time_of_fraction_update (fst (stat_count now sq s)) = last_time_of_fraction_update s"
proof -
  have "length (recv_seqn_vector s) \<le> Suc (unat (max_recv_seqn s)) - unat (min_recv_seqn s)"
    using assms(1) by (intro distinct_range_length) (simp_all add: recv_inv_def)
  moreover have "unat (max_recv_seqn s) < 65536"
    using assms(1) by (simp add: recv_inv_def word_less_nat_alt)
  ultimately have "unat (number_received s) < 65537"
    using assms(1) by (simp add: recv_inv_def)
  then have "unat (number_received s + 1) = Suc (unat (number_received s))"
    by (simp add: unat_word_ariths)
  then show "recv_inv (fst (stat_count now sq s))"
    using assms by (simp add: stat_count_def recv_inv_def)
qed (use assms in \<open>simp_all add: stat_count_def\<close>)

lemma stat_count_close:
  assumes s: "recv_inv s" "recv_seqn_vector s \<noteq> []" "min_recv_seqn s \<le> sq" "sq \<le> max_recv_seqn s"
    "sq \<notin> set (recv_seqn_vector s)" and t: "now - last_time_of_fraction_update s > UPDATE_INTERVAL"
  defines "e \<equiv> unat (max_recv_seqn s) - unat (min_recv_seqn s) + 1" and "c \<equiv> Suc (length (recv_seqn_vector s))"
    and "s' \<equiv> fst (stat_count now sq s)"
  shows "recv_inv s' \<and> recv_seqn_vector s' = [] \<and> c \<le> e \<and> unat (expect_recv_packets s') = e \<and>
    unat (lost_of_recv s') = e - c \<and> unat (recv_fraction_lost_of s') = (e - c) * 100 div e \<and>
    recv_cumulative_lost s' = recv_cumulative_lost s + lost_of_recv s' \<and>
    last_time_of_fraction_update s' = now \<and> snd (stat_count now sq s) = Some (lost_of_recv s', now)"
proof -
  define a b where "a = unat (min_recv_seqn s)" and "b = unat (max_recv_seqn s)"
  have w: "min_recv_seqn s = of_nat a" "max_recv_seqn s = of_nat b" by (simp_all add: a_def b_def)
  have r: "0 < a" "a \<le> b" "b < 65536"
    using s(1,2) by (auto simp: recv_inv_def a_def b_def word_less_nat_alt word_le_nat_alt)
  have "length (recv_seqn_vector s @ [sq]) \<le> Suc (unat (max_recv_seqn s)) - unat (min_recv_seqn s)"
    using s by (intro distinct_range_length) (simp_all add: recv_inv_def)
  then have c: "c \<le> b - a + 1" "e = b - a + 1"
    using r by (simp_all add: c_def e_def a_def b_def)
  have n: "unat (number_received s) = length (recv_seqn_vector s)"
    using s(1) by (simp add: recv_inv_def)
  have num: "number_received s + 1 = of_nat c"
    by (simp add: c_def flip: n)
  have p: "0 < c" by (simp add: c_def)
  define E L where "E = max_recv_seqn s - min_recv_seqn s + 1" and "L = E - (number_received s + 1)"
  have u: "unat E = e" "unat L = e - c" "unat (L * 100) = (e - c) * 100"
    using close_period [OF p c(1) r] unfolding E_def L_def w num c(2) by blast+
  have nz: "E > 0" using u(1) c(2) by (simp add: word_less_nat_alt)
  have f: "unat (L * 100 div E) = (e - c) * 100 div e"
    by (simp add: unat_div_distrib u)
  have s': "s' = s\<lparr>recv_seqn_vector := [], number_received := 0, recv_fraction_lost_of := L * 100 div E,
      max_recv_seqn := 0, min_recv_seqn := 0, last_time_of_fraction_update := now, lost_of_recv_map := [],
      recv_cumulative_lost := recv_cumulative_lost s + L, expect_recv_packets := E, lost_of_recv := L\<rparr>"
    and snd: "snd (stat_count now sq s) = Some (L, now)"
    using t nz unfolding s'_def stat_count_def Let_def L_def E_def by simp_all
  have "e - c \<le> e - 1" "e < 65536" using p c r by linarith+
  then have "closed_ok s'"
    by (simp add: s' closed_ok_def f) (simp add: u)
  then show ?thesis
    using c f u snd by (simp add: s' recv_inv_def sm_sorted_def)
qed

lemma statistic_recv_inv:
  assumes "recv_inv s" "0 < sq" "sq < 65536"
  shows "recv_inv (fst (statistic_recv clk sq s))"
proof (cases "stat_classify (clk 1) (clk 1) sq (stat_init (clk 0) sq s)")
  case None
  then show ?thesis using stat_init_inv [OF assms] by (simp add: statistic_recv_def)
next
  case (Some s')
  have inv: "recv_inv (stat_init (clk 0) sq s)" "recv_seqn_vector (stat_init (clk 0) sq s) \<noteq> []"
    using stat_init_inv [OF assms] by blast+
  note c = stat_classify_inv [OF inv assms(3) Some]
  have "recv_inv (fst (stat_count (clk 2) sq s'))"
  proof (cases "clk 2 - last_time_of_fraction_update s' \<le> UPDATE_INTERVAL")
    case True
    show ?thesis using c inv(2) True by (intro stat_count_open(1)) simp_all
  next
    case False
    then show ?thesis using c inv(2) stat_count_close [of s' sq "clk 2"] by simp
  qed
  then show ?thesis using Some by (simp add: statistic_recv_def)
qed

text \<open>
  Whatever order the packets of a stream arrive in, and however late: as long as no packet
  carries sequence number 0, the packets lost in the last closed period are fewer than those
  expected, the published percentage is their exact quotient, and so never exceeds 99.
\<close>

theorem recv_loss_bounded:
  assumes "\<forall>(clk, n) \<in> set ps. 0 < n \<and> n < 65536"
  shows "let s = statistic_all recv_stat_new ps in
    unat (lost_of_recv s) \<le> unat (expect_recv_packets s) - 1 \<and>
    unat (recv_fraction_lost_of s) = unat (lost_of_recv s) * 100 div unat (expect_recv_packets s) \<and>
    unat (recv_fraction_lost_of s) \<le> 99"
proof -
  have "recv_inv (statistic_all s ps)" if "recv_inv s" for s
    using that assms by (induction s ps rule: statistic_all.induct) (auto intro: statistic_recv_inv)
  moreover have "recv_inv recv_stat_new"
    by (simp add: recv_inv_def recv_stat_new_def closed_ok_def sm_sorted_def)
  ultimately have ok: "closed_ok (statistic_all recv_stat_new ps)" by (simp add: recv_inv_def)
  have "l * 100 div e \<le> 99" if "l \<le> e - 1" for l e :: nat
  proof (cases "e = 0")
    case False
    then have "l * 100 < 100 * e" using that by simp
    then have "l * 100 div e < 100" using False by (simp add: div_less_iff_less_mult)
    then show ?thesis by simp
  qed simp
  then show ?thesis using ok by (simp add: closed_ok_def Let_def)
qed

definition demo_clock :: "int \<Rightarrow> nat \<Rightarrow> int" where
  "demo_clock t i = t + int i"

lemma recv_loss_bounded_witness:
  "(let s = statistic_all recv_stat_new
      [(demo_clock 1000, 7), (demo_clock 1010, 9), (demo_clock 1015, 8), (demo_clock 4100, 12)] in
    unat (lost_of_recv s) \<le> unat (expect_recv_packets s) - 1 \<and>
    unat (recv_fraction_lost_of s) = unat (lost_of_recv s) * 100 div unat (expect_recv_packets s) \<and>
    unat (recv_fraction_lost_of s) \<le> 99)"
  by (rule recv_loss_bounded) simp

text \<open>A period in progress: \<open>c\<close> packets counted between \<open>a\<close> and \<open>b\<close>.\<close>

definition open_period :: "int \<Rightarrow> u32 \<Rightarrow> u32 \<Rightarrow> nat \<Rightarrow> recv_stat \<Rightarrow> bool" where
  "open_period t0 a b c s \<longleftrightarrow> recv_inv s \<and> recv_seqn_vector s \<noteq> [] \<and> min_recv_seqn s = a \<and>
     max_recv_seqn s = b \<and> length (recv_seqn_vector s) = c \<and> last_time_of_fraction_update s = t0 \<and> t0 \<noteq> 0"

lemma open_period_ahead:
  assumes "open_period t0 a b c s" "b < sq" "sq < 65536"
  obtains s' where "statistic_recv clk sq s = stat_count (clk 2) sq s'" "recv_inv s'" "recv_seqn_vector s' \<noteq> []"
    "min_recv_seqn s' = a" "max_recv_seqn s' = sq" "sq \<notin> set (recv_seqn_vector s')" "a \<le> sq"
    "length (recv_seqn_vector s') = c" "last_time_of_fraction_update s' = t0"
    "recv_cumulative_lost s' = recv_cumulative_lost s"
proof -
  have nz: "min_recv_seqn s \<noteq> 0" "max_recv_seqn s \<noteq> 0" "max_recv_seqn s < 65536"
    using assms(1) by (auto simp: open_period_def recv_inv_def)
  then have i: "stat_init (clk 0) sq s = s"
    using assms(1) by (simp add: open_period_def stat_init_def)
  have "sint (sq - max_recv_seqn s) > 0"
    using assms nz sint_diff_small [of sq "max_recv_seqn s"]
    by (simp add: open_period_def word_less_def)
  then obtain s' where s': "stat_classify (clk 1) (clk 1) sq s = Some s'" "max_recv_seqn s' = sq"
      "recv_cumulative_lost s' = recv_cumulative_lost s"
    by (simp add: stat_classify_def Let_def)
  have "recv_inv s" "recv_seqn_vector s \<noteq> []" using assms(1) by (simp_all add: open_period_def)
  note c = stat_classify_inv [OF this assms(3) s'(1)]
  show ?thesis
    using that [of s'] assms(1) c s' i by (simp add: open_period_def statistic_recv_def)
qed

lemma period_first:
  assumes "recv_inv s" "recv_seqn_vector s = []" "last_time_of_fraction_update s = t0" "t0 \<noteq> 0"
    and "0 < sq" "sq < 65536"
  shows "open_period t0 sq sq 1 (fst (statistic_recv clk sq s)) \<and>
    recv_cumulative_lost (fst (statistic_recv clk sq s)) = recv_cumulative_lost s"
proof -
  define s1 where "s1 = stat_init (clk 0) sq s"
  have inv: "recv_inv s1" using stat_init_inv assms by (simp add: s1_def)
  have s1: "max_recv_seqn s1 = sq" "min_recv_seqn s1 = sq" "recv_seqn_vector s1 = [sq]"
    "last_time_of_fraction_update s1 = t0" "recv_cumulative_lost s1 = recv_cumulative_lost s"
    using assms by (simp_all add: s1_def stat_init_def recv_inv_def)
  have "statistic_recv clk sq s = (s1, None)"
    using s1 by (simp add: statistic_recv_def stat_classify_def flip: s1_def)
  then show ?thesis using inv s1 assms by (simp add: open_period_def)
qed

lemma in_order_period:
  assumes "open_period t0 a b c s" "sorted_wrt (<) (b # map snd ps)" "\<forall>n\<in>set (map snd ps). n < 65536"
    and "\<forall>(clk, n)\<in>set ps. clk 2 - t0 \<le> UPDATE_INTERVAL"
  shows "open_period t0 a (last (b # map snd ps)) (c + length ps) (statistic_all s ps) \<and>
    recv_cumulative_lost (statistic_all s ps) = recv_cumulative_lost s"
  using assms
proof (induction ps arbitrary: b c s)
  case (Cons p ps)
  obtain clk sq where p: "p = (clk, sq)" by (cases p)
  have lt: "b < sq" "sq < 65536" using Cons.prems by (simp_all add: p)
  obtain s' where s': "statistic_recv clk sq s = stat_count (clk 2) sq s'" "recv_inv s'" "recv_seqn_vector s' \<noteq> []"
    "min_recv_seqn s' = a" "max_recv_seqn s' = sq" "sq \<notin> set (recv_seqn_vector s')" "a \<le> sq"
    "length (recv_seqn_vector s') = c" "last_time_of_fraction_update s' = t0"
    "recv_cumulative_lost s' = recv_cumulative_lost s"
    by (rule open_period_ahead [OF Cons.prems(1) lt])
  have t: "clk 2 - last_time_of_fraction_update s' \<le> UPDATE_INTERVAL"
    using Cons.prems(4) s' by (simp add: p)
  have "recv_cumulative_lost (fst (stat_count (clk 2) sq s')) = recv_cumulative_lost s'"
    using t by (simp add: stat_count_def)
  moreover have "open_period t0 a sq (Suc c) (fst (statistic_recv clk sq s))"
    using stat_count_open [OF s'(2,3) _ _ s'(6) t] s' Cons.prems(1) by (simp add: open_period_def)
  ultimately show ?case
    using Cons.IH [of sq "Suc c" "fst (statistic_recv clk sq s)"] Cons.prems s' by (simp add: p)
qed simp

lemma statistic_all_append: "statistic_all s (ps @ qs) = statistic_all (statistic_all s ps) qs"
  by (induction s ps rule: statistic_all.induct) simp_all

text \<open>A period whose packets arrive in order is accounted for exactly.  When \<open>a\<close> is the first
  packet after a period was closed, further packets arrive with increasing 16-bit numbers, and
  \<open>z\<close> is the first one more than three seconds after the period began, then the period is closed
  with \<open>z - a + 1\<close> packets expected and as many lost as numbers are missing; the total grows by
  that.
\<close>

theorem recv_loss_of_period:
  fixes clka clkz :: "nat \<Rightarrow> int"
  assumes s: "recv_inv s" "recv_seqn_vector s = []" "last_time_of_fraction_update s = t0" "t0 \<noteq> 0"
    and a: "0 < a" and asc: "sorted_wrt (<) (a # map snd ps @ [z])" and z: "z < 65536"
    and early: "\<forall>(clk, n)\<in>set ps. clk 2 \<le> t0 + UPDATE_INTERVAL" and late: "t0 + UPDATE_INTERVAL < clkz 2"
  defines "s' \<equiv> statistic_all s ((clka, a) # ps @ [(clkz, z)])" and "e \<equiv> unat z - unat a + 1"
  shows "unat (expect_recv_packets s') = e \<and> unat (lost_of_recv s') = e - (length ps + 2) \<and>
    length ps + 2 \<le> e \<and> unat (recv_fraction_lost_of s') = (e - (length ps + 2)) * 100 div e \<and>
    recv_cumulative_lost s' = recv_cumulative_lost s + lost_of_recv s' \<and> recv_seqn_vector s' = []"
proof -
  define s1 s2 where "s1 = fst (statistic_recv clka a s)" and "s2 = statistic_all s1 ps"
  have lt: "a < z" "\<forall>n\<in>set (map snd ps). n < z" using asc by (auto simp: sorted_wrt_append)
  then have small: "a < 65536" "\<forall>n\<in>set (map snd ps). n < 65536" using z by (auto intro: order.strict_trans)
  have "open_period t0 a a 1 s1" "recv_cumulative_lost s1 = recv_cumulative_lost s"
    using period_first [OF s a small(1)] by (simp_all add: s1_def)
  moreover have "sorted_wrt (<) (a # map snd ps)" using asc by (simp add: sorted_wrt_append)
  moreover have "\<forall>(clk, n)\<in>set ps. clk 2 - t0 \<le> UPDATE_INTERVAL" using early by force
  ultimately have p: "open_period t0 a (last (a # map snd ps)) (1 + length ps) s2"
      "recv_cumulative_lost s2 = recv_cumulative_lost s"
    using in_order_period [of t0 a a 1 s1 ps] small by (simp_all add: s2_def)
  have "last (a # map snd ps) < z" using lt last_in_set [of "a # map snd ps"] by auto
  then obtain s3 where s3: "statistic_recv clkz z s2 = stat_count (clkz 2) z s3" "recv_inv s3"
    "recv_seqn_vector s3 \<noteq> []" "min_recv_seqn s3 = a" "max_recv_seqn s3 = z" "z \<notin> set (recv_seqn_vector s3)"
    "a \<le> z" "length (recv_seqn_vector s3) = 1 + length ps" "last_time_of_fraction_update s3 = t0"
    "recv_cumulative_lost s3 = recv_cumulative_lost s2"
    using open_period_ahead [OF p(1) _ z] by blast
  have s': "s' = fst (stat_count (clkz 2) z s3)"
    by (simp add: s'_def statistic_all_append s3(1) flip: s1_def s2_def)
  show ?thesis
    using stat_count_close [of s3 z "clkz 2"] s3 late p(2) by (simp add: s' e_def)
qed

lemma recv_loss_of_period_witness:
  "unat (lost_of_recv (statistic_all (recv_stat_new\<lparr>last_time_of_fraction_update := 100\<rparr>)
      [(demo_clock 1000, 7), (demo_clock 1010, 9), (demo_clock 4100, 12)])) = 3"
  using recv_loss_of_period [of "recv_stat_new\<lparr>last_time_of_fraction_update := 100\<rparr>" 100 7
      "[(demo_clock 1010, 9)]" 12 "demo_clock 4100" "demo_clock 1000"]
  by (simp add: recv_inv_def recv_stat_new_def closed_ok_def sm_sorted_def demo_clock_def UPDATE_INTERVAL_def)

text \<open>The statistics do not follow the wrap-around of sequence numbers.  Once the highest number
  65535 has been counted and the recorded gaps are more than 12 ms old, no packet with any 16-bit
  number changes the statistics any more: the period is never closed again.
\<close>

theorem recv_statistics_freeze:
  assumes "max_recv_seqn s = 65535" "min_recv_seqn s \<noteq> 0" "last_time_of_fraction_update s \<noteq> 0"
    and "recv_inv s" "\<forall>(clk, n)\<in>set ps. n < 65536 \<and> (\<forall>(k, t)\<in>set (lost_of_recv_map s). clk 1 > t + 12)"
  shows "statistic_all s ps = s"
proof -
  have "fst (statistic_recv clk n s) = s"
    if n: "n < 65536" and old: "\<forall>(k, t)\<in>set (lost_of_recv_map s). clk 1 > t + 12" for clk n
  proof -
    have "sint (n - max_recv_seqn s) \<le> 0"
      using n sint_diff_small [of n 65535] assms(1) by (simp add: word_less_def)
    moreover have "clk 1 > t + 12" if "sm_find (<) n (lost_of_recv_map s) = Some t" for t
      using that old assms(4) by (auto simp: recv_inv_def um.find_elem)
    ultimately have "stat_classify (clk 1) (clk 1) n s = None"
      by (force simp: stat_classify_def SEQ_MISSING_WAIT_def Let_def split: option.splits)
    moreover have "stat_init (clk 0) n s = s" using assms(1-3) by (simp add: stat_init_def)
    ultimately show ?thesis by (simp add: statistic_recv_def)
  qed
  then show ?thesis using assms(5) by (induction ps rule: list.induct) auto
qed

lemma recv_statistics_freeze_witness:
  "(let s = statistic_all recv_stat_new [(demo_clock 1000, 65534), (demo_clock 1010, 65535)] in
     statistic_all s [(demo_clock 5000, 0), (demo_clock 6000, 1), (demo_clock 9000, 2)] = s)"
proof -
  define s where "s = statistic_all recv_stat_new [(demo_clock 1000, 65534), (demo_clock 1010, 65535)]"
  have "max_recv_seqn s = 65535" "min_recv_seqn s \<noteq> 0" "last_time_of_fraction_update s \<noteq> 0"
      "lost_of_recv_map s = []" unfolding s_def by code_simp+
  moreover have "recv_inv s" unfolding s_def
    by (simp, intro statistic_recv_inv) (simp_all add: recv_inv_def recv_stat_new_def closed_ok_def sm_sorted_def)
  ultimately show ?thesis
    using recv_statistics_freeze [of s "[(demo_clock 5000, 0), (demo_clock 6000, 1), (demo_clock 9000, 2)]"]
    unfolding s_def [symmetric] Let_def by simp
qed

text \<open>
  A period that starts with sequence number 0 counts one packet too many: the minimum is
  taken again from the next packet.  When 0, 1 and 2 arrive in order the loss comes out as
  4294967295 packets, and the percentage as 2147483598.
\<close>

theorem period_starting_at_zero:
  "(let s = statistic_all recv_stat_new [(demo_clock 1000, 0), (demo_clock 1020, 1), (demo_clock 4100, 2)] in
     (lost_of_recv s, recv_fraction_lost_of s))
   = (4294967295, 2147483598)"
  by code_simp

end
