(* ===== verification/Network_Status.thy ===== *)
theory Network_Status
  imports Network_Counters
begin

text \<open>
  \<open>src/orbit/network_status.{h,cc}\<close>: the class \<open>NetworkStatus\<close>, which collects the
  counters of one stream and grades its network, and \<open>NetworkStatusManager\<close>, the process-wide
  table of them.

  What a method publishes through \<open>SessionInfo\<close> is a list of \<open>custom_info\<close> calls in its
  result; the argument \<open>session\<close> tells whether \<open>GetSessionInfoById\<close> found the session.  A
  reading of the clock is an argument.
\<close>

datatype NETWORK_STATUS =
  NET_UNKNOWN | NET_GREAT | NET_GOOD | NET_NOT_GOOD | NET_BAD | NET_VERY_BAD | NET_CANT_CONNECT

datatype REPORT_SOURCE = SERVER_REPORT | CLIENT_REPORT

text \<open>The integer of an enumerator; the code compares statuses with \<open>>\<close>.\<close>

fun status_int :: "NETWORK_STATUS \<Rightarrow> nat" where
  "status_int NET_UNKNOWN = 0"
| "status_int NET_GREAT = 1"
| "status_int NET_GOOD = 2"
| "status_int NET_NOT_GOOD = 3"
| "status_int NET_BAD = 4"
| "status_int NET_VERY_BAD = 5"
| "status_int NET_CANT_CONNECT = 6"

lemma status_int_inj: "status_int a = status_int b \<longleftrightarrow> a = b"
  by (cases a; cases b) simp_all

instantiation NETWORK_STATUS :: linorder
begin

definition "a \<le> b \<longleftrightarrow> status_int a \<le> status_int b"
definition "a < b \<longleftrightarrow> status_int a < status_int b"

instance
  by standard (auto simp: less_eq_NETWORK_STATUS_def less_NETWORK_STATUS_def simp flip: status_int_inj)

end

section \<open>Published information\<close>

fun digits :: "nat \<Rightarrow> string" where
  "digits n = (if n < 10 then [char_of (48 + n)] else digits (n div 10) @ [char_of (48 + n mod 10)])"

declare digits.simps [simp del]

text \<open>\<open>std::to_string\<close> of an unsigned and of a signed value.\<close>

definition to_string_u :: "u32 \<Rightarrow> string" where
  "to_string_u w = digits (unat w)"

definition to_string :: "int \<Rightarrow> string" where
  "to_string i = (if i < 0 then CHR ''-'' # digits (nat (- i)) else digits (nat i))"

datatype custom_info =
  AppendStreamCustomInfo u32 string string | SetStreamCustomInfo u32 string string

section \<open>The state of one stream\<close>

record NetworkStatus =
  network_status :: NETWORK_STATUS
  map_rtt_status :: "(u32, RttStatus) std_map"
  bitrate_status :: BitrateStatus
  audio_local_ssrc :: u32
  send_packets :: u32
  recv_packets :: u32
  recv_packets_audio :: u32
  recv_packets_video :: u32
  recv_rtcp_packets_audio :: u32
  recv_rtcp_packets_video :: u32
  audio_send_packets :: u32
  video_send_packets :: u32
  send_rtcp_packets_audio :: u32
  send_rtcp_packets_video :: u32
  recv_packets_audio_old :: u32
  recv_packets_video_old :: u32
  last_recv_update_time :: int
  recv_rtcp_packets_audio_old :: u32
  recv_rtcp_packets_video_old :: u32
  last_recv_rtcp_update_time :: int
  audio_send_packets_old :: u32
  video_send_packets_old :: u32
  last_send_update_time :: int
  send_rtcp_packets_audio_old :: u32
  send_rtcp_packets_video_old :: u32
  last_send_rtcp_update_time :: int
  cumulate_send_lost :: u32
  cumulate_recv_lost :: u32
  server_report_audio_jitter :: u32
  server_report_video_jitter :: u32
  client_report_audio_jitter :: u32
  client_report_video_jitters :: "(u32, u32) std_map"
  session_id :: u32
  stream_id :: u32
  send_nack_count :: int
  recv_nack_count :: int
  video_stat :: recv_stat
  audio_stat :: recv_stat
  recv_fraction_lost :: u32
  total_send_fraction_lost :: u32
  map_send_packets_status :: "(u32, SendPacketsStatus) std_map"
  map_stream_energy :: "(u32, int) std_map"

text \<open>
  The constructor.  \<open>audio_local_ssrc_\<close> has no initialiser: its value is the argument
  \<open>garbage\<close> until \<open>InitWithSsrcs\<close> sets it.
\<close>

definition NetworkStatus_new :: "u32 \<Rightarrow> u32 \<Rightarrow> u32 \<Rightarrow> NetworkStatus" where
  "NetworkStatus_new garbage sid stid =
     \<lparr>network_status = NET_GREAT, map_rtt_status = [], bitrate_status = BitrateStatus_new,
      audio_local_ssrc = garbage, send_packets = 0, recv_packets = 0, recv_packets_audio = 0,
      recv_packets_video = 0, recv_rtcp_packets_audio = 0, recv_rtcp_packets_video = 0,
      audio_send_packets = 0, video_send_packets = 0, send_rtcp_packets_audio = 0,
      send_rtcp_packets_video = 0, recv_packets_audio_old = 0, recv_packets_video_old = 0,
      last_recv_update_time = 0, recv_rtcp_packets_audio_old = 0, recv_rtcp_packets_video_old = 0,
      last_recv_rtcp_update_time = 0, audio_send_packets_old = 0, video_send_packets_old = 0,
      last_send_update_time = 0, send_rtcp_packets_audio_old = 0, send_rtcp_packets_video_old = 0,
      last_send_rtcp_update_time = 0, cumulate_send_lost = 0, cumulate_recv_lost = 0,
      server_report_audio_jitter = 0, server_report_video_jitter = 0, client_report_audio_jitter = 0,
      client_report_video_jitters = [], session_id = sid, stream_id = stid, send_nack_count = 0,
      recv_nack_count = 0, video_stat = recv_stat_new, audio_stat = recv_stat_new,
      recv_fraction_lost = 0, total_send_fraction_lost = 0, map_send_packets_status = [],
      map_stream_energy = []\<rparr>"

section \<open>Packet counters\<close>

definition ReceivingPacket :: "int \<Rightarrow> bool \<Rightarrow> bool \<Rightarrow> NetworkStatus \<Rightarrow> NetworkStatus \<times> custom_info list" where
  "ReceivingPacket now session is_video s =
     (let s = s\<lparr>recv_packets := recv_packets s + 1\<rparr>;
          s = (if is_video then s\<lparr>recv_packets_video := recv_packets_video s + 1\<rparr>
               else s\<lparr>recv_packets_audio := recv_packets_audio s + 1\<rparr>)
      in if now - last_recv_update_time s > UPDATE_INTERVAL
         then (s\<lparr>recv_packets_audio_old := recv_packets_audio s, recv_packets_video_old := recv_packets_video s,
                 last_recv_update_time := now\<rparr>,
               if session then
                 [AppendStreamCustomInfo (stream_id s) ''recv_packets_audio''
                    (to_string_u (recv_packets_audio s - recv_packets_audio_old s)),
                  AppendStreamCustomInfo (stream_id s) ''recv_packets_video''
                    (to_string_u (recv_packets_video s - recv_packets_video_old s)),
                  SetStreamCustomInfo (stream_id s) ''recv_packets_last_update'' (to_string now)]
               else [])
         else (s, []))"

definition ReceivingRTCPPacket :: "int \<Rightarrow> bool \<Rightarrow> bool \<Rightarrow> NetworkStatus \<Rightarrow> NetworkStatus \<times> custom_info list" where
  "ReceivingRTCPPacket now session is_video s =
     (let s = (if is_video then s\<lparr>recv_rtcp_packets_video := recv_rtcp_packets_video s + 1\<rparr>
               else s\<lparr>recv_rtcp_packets_audio := recv_rtcp_packets_audio s + 1\<rparr>)
      in if now - last_recv_rtcp_update_time s > UPDATE_INTERVAL
         then (s\<lparr>recv_rtcp_packets_audio_old := recv_rtcp_packets_audio s,
                 recv_rtcp_packets_video_old := recv_rtcp_packets_video s,
                 last_recv_rtcp_update_time := now\<rparr>,
               if session then
                 [AppendStreamCustomInfo (stream_id s) ''recv_rtcp_packets_audio''
                    (to_string_u (recv_rtcp_packets_audio s - recv_rtcp_packets_audio_old s)),
                  AppendStreamCustomInfo (stream_id s) ''recv_rtcp_packets_video''
                    (to_string_u (recv_rtcp_packets_video s - recv_rtcp_packets_video_old s)),
                  SetStreamCustomInfo (stream_id s) ''recv_rtcp_packets_last_update'' (to_string now)]
               else [])
         else (s, []))"

text \<open>The update of the source's entry inside of \<open>SendingPacket\<close>.\<close>

definition note_sent :: "u32 \<Rightarrow> int \<Rightarrow> u32 \<Rightarrow> NetworkStatus \<Rightarrow> NetworkStatus option" where
  "note_sent ssrc len timestamp s =
     (case sm_find (<) ssrc (map_send_packets_status s) of
        None \<Rightarrow> Some s
      | Some p \<Rightarrow> do {
          p \<leftarrow> set_send_packets 1 p;
          p \<leftarrow> set_send_bytes len p;
          Some (s\<lparr>map_send_packets_status :=
                   sm_set (<) ssrc (set_last_ts timestamp p) (map_send_packets_status s)\<rparr>) })"

definition count_sent :: "bool \<Rightarrow> NetworkStatus \<Rightarrow> NetworkStatus" where
  "count_sent is_video s =
     (let s = s\<lparr>send_packets := send_packets s + 1\<rparr>
      in if is_video then s\<lparr>video_send_packets := video_send_packets s + 1\<rparr>
         else s\<lparr>audio_send_packets := audio_send_packets s + 1\<rparr>)"

definition publish_sent :: "int \<Rightarrow> bool \<Rightarrow> NetworkStatus \<Rightarrow> NetworkStatus \<times> custom_info list" where
  "publish_sent now session s =
     (if now - last_send_update_time s > UPDATE_INTERVAL
      then (s\<lparr>audio_send_packets_old := audio_send_packets s,
              video_send_packets_old := video_send_packets s, last_send_update_time := now\<rparr>,
            if session then
              [AppendStreamCustomInfo (stream_id s) ''send_packets_audio''
                 (to_string_u (audio_send_packets s - audio_send_packets_old s)),
               AppendStreamCustomInfo (stream_id s) ''send_packets_video''
                 (to_string_u (video_send_packets s - video_send_packets_old s)),
               SetStreamCustomInfo (stream_id s) ''send_packets_last_update'' (to_string now)]
            else [])
      else (s, []))"

definition SendingPacket ::
    "int \<Rightarrow> bool \<Rightarrow> bool \<Rightarrow> u32 \<Rightarrow> int \<Rightarrow> u32 \<Rightarrow> NetworkStatus \<Rightarrow> (NetworkStatus \<times> custom_info list) option" where
  "SendingPacket now session is_video ssrc len timestamp s =
     map_option (publish_sent now session) (note_sent ssrc len timestamp (count_sent is_video s))"

definition SendingRTCPPacket :: "int \<Rightarrow> bool \<Rightarrow> bool \<Rightarrow> NetworkStatus \<Rightarrow> NetworkStatus \<times> custom_info list" where
  "SendingRTCPPacket now session is_video s =
     (let s = (if is_video then s\<lparr>send_rtcp_packets_video := send_rtcp_packets_video s + 1\<rparr>
               else s\<lparr>send_rtcp_packets_audio := send_rtcp_packets_audio s + 1\<rparr>)
      in if now - last_send_rtcp_update_time s > UPDATE_INTERVAL
         then (s\<lparr>send_rtcp_packets_audio_old := send_rtcp_packets_audio s,
                 send_rtcp_packets_video_old := send_rtcp_packets_video s,
                 last_send_rtcp_update_time := now\<rparr>,
               if session then
                 [AppendStreamCustomInfo (stream_id s) ''send_rtcp_packets_audio''
                    (to_string_u (send_rtcp_packets_audio s - send_rtcp_packets_audio_old s)),
                  AppendStreamCustomInfo (stream_id s) ''send_rtcp_packets_video''
                    (to_string_u (send_rtcp_packets_video s - send_rtcp_packets_video_old s)),
                  SetStreamCustomInfo (stream_id s) ''send_rtcp_packets_last_update'' (to_string now)]
               else [])
         else (s, []))"

definition GetSendFractionLost :: "bool \<Rightarrow> u32 \<Rightarrow> NetworkStatus \<Rightarrow> u32" where
  "GetSendFractionLost is_audio ssrc s =
     (case sm_find (<) (if is_audio then audio_local_ssrc s else ssrc) (map_send_packets_status s) of
        Some p \<Rightarrow> send_fraction_lost p | None \<Rightarrow> 0)"

definition GetSendPackets :: "u32 \<Rightarrow> NetworkStatus \<Rightarrow> int" where
  "GetSendPackets ssrc s =
     (case sm_find (<) ssrc (map_send_packets_status s) of Some p \<Rightarrow> sent_packets p | None \<Rightarrow> -1)"

definition GetSendBytes :: "u32 \<Rightarrow> NetworkStatus \<Rightarrow> int" where
  "GetSendBytes ssrc s =
     (case sm_find (<) ssrc (map_send_packets_status s) of Some p \<Rightarrow> sent_bytes p | None \<Rightarrow> -1)"

definition GetLastTs :: "u32 \<Rightarrow> NetworkStatus \<Rightarrow> u32" where
  "GetLastTs ssrc s =
     (case sm_find (<) ssrc (map_send_packets_status s) of Some p \<Rightarrow> last_ts p | None \<Rightarrow> -1)"

definition IncreaseNackCount :: "bool \<Rightarrow> NetworkStatus \<Rightarrow> NetworkStatus option" where
  "IncreaseNackCount is_send s =
     (if is_send then map_option (\<lambda>n. s\<lparr>send_nack_count := n\<rparr>) (add32s (send_nack_count s) 1)
      else map_option (\<lambda>n. s\<lparr>recv_nack_count := n\<rparr>) (add32s (recv_nack_count s) 1))"

section \<open>Bitrates, jitter and round-trip times\<close>

definition UpdateTargetBitrate :: "bool \<Rightarrow> u32 \<Rightarrow> NetworkStatus \<Rightarrow> NetworkStatus" where
  "UpdateTargetBitrate is_video target_bitrate s =
     s\<lparr>bitrate_status :=
         (if is_video then (bitrate_status s)\<lparr>video_target_bitrate := sint target_bitrate\<rparr>
          else (bitrate_status s)\<lparr>audio_target_bitrate := sint target_bitrate\<rparr>)\<rparr>"

definition GetTargetBitrate :: "NetworkStatus \<Rightarrow> int option" where
  "GetTargetBitrate s =
     (let audio = audio_target_bitrate (bitrate_status s); video = video_target_bitrate (bitrate_status s)
      in if audio = -1 \<and> video = -1 then Some (-1)
         else if audio = -1 then Some video
         else if video = -1 then Some audio
         else add32s audio video)"

definition UpdateBitrate :: "bool \<Rightarrow> u32 \<Rightarrow> NetworkStatus \<Rightarrow> NetworkStatus" where
  "UpdateBitrate is_send bitrate s =
     s\<lparr>bitrate_status :=
         (if is_send then (bitrate_status s)\<lparr>send_bitrate := bitrate\<rparr>
          else (bitrate_status s)\<lparr>recv_bitrate := bitrate\<rparr>)\<rparr>"

definition GetBitrate :: "bool \<Rightarrow> NetworkStatus \<Rightarrow> u32" where
  "GetBitrate is_send s =
     (if is_send then send_bitrate (bitrate_status s) else recv_bitrate (bitrate_status s))"

text \<open>\<open>find\<close> and assignment through the iterator: a missing key stays missing.\<close>

definition sm_modify :: "u32 \<Rightarrow> ('v \<Rightarrow> 'v) \<Rightarrow> (u32, 'v) std_map \<Rightarrow> (u32, 'v) std_map" where
  "sm_modify k f m = (case sm_find (<) k m of Some v \<Rightarrow> sm_set (<) k (f v) m | None \<Rightarrow> m)"

definition UpdateJitters :: "REPORT_SOURCE \<Rightarrow> bool \<Rightarrow> u32 \<Rightarrow> u32 \<Rightarrow> NetworkStatus \<Rightarrow> NetworkStatus" where
  "UpdateJitters report_source is_video jitter_value local_ssrc s =
     (case report_source of
        SERVER_REPORT \<Rightarrow>
          if is_video then s\<lparr>server_report_video_jitter := jitter_value\<rparr>
          else s\<lparr>server_report_audio_jitter := jitter_value\<rparr>
      | CLIENT_REPORT \<Rightarrow>
          if is_video
          then s\<lparr>client_report_video_jitters :=
                   sm_modify local_ssrc (\<lambda>_. jitter_value) (client_report_video_jitters s)\<rparr>
          else s\<lparr>client_report_audio_jitter := jitter_value\<rparr>)"

definition UpdateRTT :: "int \<Rightarrow> int \<Rightarrow> u32 \<Rightarrow> NetworkStatus \<Rightarrow> NetworkStatus" where
  "UpdateRTT now r ssrc s =
     s\<lparr>map_rtt_status := sm_modify ssrc (RttStatus_UpdateRTT now r) (map_rtt_status s)\<rparr>"

text \<open>The average of the positive values, 0 when there is none; sums are 64-bit signed.\<close>

definition average_of :: "int list \<Rightarrow> int option" where
  "average_of rs =
     (let ps = filter (\<lambda>r. r > 0) rs
      in if ps = [] then Some 0
         else if sum_list ps < 2 ^ 63 then Some (sum_list ps div int (length ps)) else None)"

definition GetLastestRttOfSsrcs :: "NetworkStatus \<Rightarrow> int option" where
  "GetLastestRttOfSsrcs s = average_of (map (rtt \<circ> snd) (map_rtt_status s))"

definition GetAllSsrcsAverageRtt :: "NetworkStatus \<Rightarrow> int option" where
  "GetAllSsrcsAverageRtt s = average_of (map (avg_rtt \<circ> snd) (map_rtt_status s))"

text \<open>
  \<open>clk k\<close> is the clock when the entry of \<open>k\<close> is constructed, \<open>now\<close> when that of the two
  defaults is.
\<close>

definition InitWithSsrcs :: "(u32 \<Rightarrow> int) \<Rightarrow> int \<Rightarrow> u32 list \<Rightarrow> u32 \<Rightarrow> u32 \<Rightarrow> NetworkStatus \<Rightarrow> NetworkStatus" where
  "InitWithSsrcs clk now extended_video_ssrcs default_video_ssrc default_audio_ssrc s =
     s\<lparr>map_send_packets_status :=
         sm_set (<) default_video_ssrc SendPacketsStatus_new
           (sm_set (<) default_audio_ssrc SendPacketsStatus_new
             (fold (\<lambda>k. sm_set (<) k SendPacketsStatus_new) extended_video_ssrcs (map_send_packets_status s))),
       map_rtt_status :=
         sm_set (<) default_audio_ssrc (RttStatus_new now)
           (sm_set (<) default_video_ssrc (RttStatus_new now)
             (fold (\<lambda>k. sm_set (<) k (RttStatus_new (clk k))) extended_video_ssrcs (map_rtt_status s))),
       audio_local_ssrc := default_audio_ssrc\<rparr>"

section \<open>Loss\<close>

definition GetNetworkFractionLost :: "NetworkStatus \<Rightarrow> int" where
  "GetNetworkFractionLost s =
     sint (if total_send_fraction_lost s > recv_fraction_lost s then total_send_fraction_lost s
           else recv_fraction_lost s)"

definition UpdateTotalSendFractionLost :: "NetworkStatus \<Rightarrow> NetworkStatus" where
  "UpdateTotalSendFractionLost s =
     (let ps = map snd (map_send_packets_status s);
          total_send = sum_list (map expect_send_packets ps);
          total_send_lost = sum_list (map send_lost ps)
      in s\<lparr>cumulate_send_lost := sum_list (map last_cumulative_lost ps),
           total_send_fraction_lost :=
             (if total_send > 0 then total_send_lost * 100 div total_send else total_send_fraction_lost s)\<rparr>)"

definition StatisticSendFractionLost ::
    "int \<Rightarrow> bool \<Rightarrow> u32 \<Rightarrow> u32 \<Rightarrow> u32 \<Rightarrow> NetworkStatus \<Rightarrow> NetworkStatus option" where
  "StatisticSendFractionLost now is_video highest_seqnumber cumulative_lost ssrc s =
     (case sm_find (<) ssrc (map_send_packets_status s) of
        None \<Rightarrow> Some s
      | Some p \<Rightarrow> do {
          p \<leftarrow> CalculateSendFractionLost now highest_seqnumber cumulative_lost p;
          Some (UpdateTotalSendFractionLost
                  (s\<lparr>map_send_packets_status := sm_set (<) ssrc p (map_send_packets_status s)\<rparr>)) })"

definition period_info :: "bool \<Rightarrow> u32 \<Rightarrow> string \<Rightarrow> string \<Rightarrow> (u32 \<times> int) option \<Rightarrow> custom_info list" where
  "period_info session stid key1 key2 r =
     (case r of
        Some (seq_lost, now) \<Rightarrow>
          if session then [AppendStreamCustomInfo stid key1 (to_string_u seq_lost),
                           SetStreamCustomInfo stid key2 (to_string now)] else []
      | None \<Rightarrow> [])"

definition StatisticRecvFractionOfVideo ::
    "(nat \<Rightarrow> int) \<Rightarrow> bool \<Rightarrow> u32 \<Rightarrow> NetworkStatus \<Rightarrow> NetworkStatus \<times> custom_info list" where
  "StatisticRecvFractionOfVideo clk session seqnumber s =
     (let (st, r) = statistic_recv clk seqnumber (video_stat s)
      in (s\<lparr>video_stat := st\<rparr>,
          period_info session (stream_id s) ''packet_lost_count_recv_video'' ''packet_lost_last_update_video'' r))"

definition StatisticRecvFractionOfAudio ::
    "(nat \<Rightarrow> int) \<Rightarrow> bool \<Rightarrow> u32 \<Rightarrow> NetworkStatus \<Rightarrow> NetworkStatus \<times> custom_info list" where
  "StatisticRecvFractionOfAudio clk session seqnumber s =
     (let (st, r) = statistic_recv clk seqnumber (audio_stat s)
      in (s\<lparr>audio_stat := st\<rparr>,
          period_info session (stream_id s) ''packet_lost_count_recv_audio'' ''packet_lost_last_update_audio'' r))"

definition StatisticRecvFractionLost ::
    "(nat \<Rightarrow> int) \<Rightarrow> bool \<Rightarrow> bool \<Rightarrow> u32 \<Rightarrow> NetworkStatus \<Rightarrow> NetworkStatus \<times> custom_info list" where
  "StatisticRecvFractionLost clk session is_video seqnumber s =
     (let (s, es) = (if is_video then StatisticRecvFractionOfVideo clk session seqnumber s
                     else StatisticRecvFractionOfAudio clk session seqnumber s);
          lost = lost_of_recv (video_stat s) + lost_of_recv (audio_stat s);
          recv_count = expect_recv_packets (video_stat s) + expect_recv_packets (audio_stat s)
      in (s\<lparr>recv_fraction_lost := (if recv_count > 0 then lost * 100 div recv_count else recv_fraction_lost s),
            cumulate_recv_lost := recv_cumulative_lost (video_stat s) + recv_cumulative_lost (audio_stat s)\<rparr>, es))"

section \<open>Grading the network\<close>

definition NetworkStatusLevel :: "int \<Rightarrow> NETWORK_STATUS" where
  "NetworkStatusLevel fraction_lost =
     (if fraction_lost \<le> 1 then NET_GREAT
      else if fraction_lost \<le> 4 then NET_GOOD
      else if fraction_lost \<le> 10 then NET_NOT_GOOD
      else if fraction_lost \<le> 50 then NET_BAD
      else if fraction_lost \<le> 80 then NET_VERY_BAD
      else NET_CANT_CONNECT)"

definition EstimateNetworkStatusByFractionLost :: "NetworkStatus \<Rightarrow> NETWORK_STATUS" where
  "EstimateNetworkStatusByFractionLost s =
     (let send = NetworkStatusLevel (sint (total_send_fraction_lost s));
          recv = NetworkStatusLevel (sint (recv_fraction_lost s))
      in if send = NET_CANT_CONNECT \<or> recv = NET_CANT_CONNECT then NET_CANT_CONNECT
         else if send = NET_VERY_BAD \<or> recv = NET_VERY_BAD then NET_VERY_BAD
         else if send = NET_BAD \<or> recv = NET_BAD then NET_BAD
         else if send = NET_NOT_GOOD \<or> recv = NET_NOT_GOOD then NET_NOT_GOOD
         else if send = NET_GOOD \<or> recv = NET_GOOD then NET_GOOD
         else if send = NET_GREAT \<or> recv = NET_GREAT then NET_GREAT
         else NET_GREAT)"

definition EstimateNetworkStatusByBandwidth :: "NetworkStatus \<Rightarrow> NETWORK_STATUS" where
  "EstimateNetworkStatusByBandwidth s =
     (let audio = audio_target_bitrate (bitrate_status s);
          video = video_target_bitrate (bitrate_status s);
          audio_status = (if audio = -1 then NET_UNKNOWN
                          else if audio \<le> 10 * 1024 then NET_VERY_BAD
                          else if audio \<le> 15 * 1024 then NET_BAD
                          else if audio \<le> 20 * 1024 then NET_NOT_GOOD
                          else NET_GREAT);
          video_status = (if video = -1 then NET_UNKNOWN
                          else if video \<le> 64 * 1024 then NET_VERY_BAD
                          else if video \<le> 128 * 1024 then NET_BAD
                          else if video \<le> 256 * 1024 then NET_NOT_GOOD
                          else NET_GREAT)
      in if audio_status > video_status then audio_status else video_status)"

definition rtt_level :: "int \<Rightarrow> NETWORK_STATUS" where
  "rtt_level avg =
     (if avg = -1 then NET_UNKNOWN
      else if avg \<ge> 400 then NET_VERY_BAD
      else if avg \<ge> 300 then NET_BAD
      else if avg \<ge> 150 then NET_NOT_GOOD
      else if avg \<ge> 80 then NET_GOOD
      else NET_GREAT)"

definition EstimateNetworkStatusByRTT :: "NetworkStatus \<Rightarrow> NETWORK_STATUS option" where
  "EstimateNetworkStatusByRTT s = map_option rtt_level (GetAllSsrcsAverageRtt s)"

definition GetNetworkStatus :: "NetworkStatus \<Rightarrow> NETWORK_STATUS option" where
  "GetNetworkStatus s =
     (let by_fraction = EstimateNetworkStatusByFractionLost s
      in do {
        by_rtt \<leftarrow> EstimateNetworkStatusByRTT s;
        Some (if by_fraction > by_rtt then by_fraction else by_rtt) })"

record ConnectStatus =
  cs_status :: NETWORK_STATUS
  cs_rtt :: int
  cs_targetbitrate :: int
  cs_fractionlost :: int

definition GetConnectStatus :: "NetworkStatus \<Rightarrow> ConnectStatus option" where
  "GetConnectStatus s = do {
     st \<leftarrow> GetNetworkStatus s;
     avg \<leftarrow> GetAllSsrcsAverageRtt s;
     target_bitrate \<leftarrow> GetTargetBitrate s;
     Some \<lparr>cs_status = st, cs_rtt = avg, cs_targetbitrate = target_bitrate,
           cs_fractionlost = GetNetworkFractionLost s\<rparr> }"

definition ConvertNetworkStatusToString :: "NETWORK_STATUS \<Rightarrow> string" where
  "ConvertNetworkStatusToString st = digits (status_int st)"

text \<open>The names that \<open>SessionInfo::SetStreamCustomInfo\<close> gives to a status.\<close>

fun status_name :: "NETWORK_STATUS \<Rightarrow> string" where
  "status_name NET_UNKNOWN = ''Unkown''"
| "status_name NET_GREAT = ''Great''"
| "status_name NET_GOOD = ''Good''"
| "status_name NET_NOT_GOOD = ''Not Good''"
| "status_name NET_BAD = ''Bad''"
| "status_name NET_VERY_BAD = ''Very Bad''"
| "status_name NET_CANT_CONNECT = ''Can'' @ [CHR 0x27] @ ''t connect''"

definition UpdateStatusZ :: "bool \<Rightarrow> NetworkStatus \<Rightarrow> custom_info list option" where
  "UpdateStatusZ session s =
     (if \<not> session then Some []
      else do {
        st \<leftarrow> GetNetworkStatus s;
        let put = (\<lambda>key v. SetStreamCustomInfo (stream_id s) key (to_string_u v)) in
        Some [put ''sender_bitrate'' (send_bitrate (bitrate_status s)),
              put ''receiver_bitrate'' (recv_bitrate (bitrate_status s)),
              put ''sender_packets'' (send_packets s),
              put ''receiver_packets'' (recv_packets s),
              put ''sender_lost'' (cumulate_send_lost s),
              put ''receiver_lost'' (cumulate_recv_lost s),
              put ''sender_unittime_fraction_lost'' (total_send_fraction_lost s),
              put ''receiver_unittime_fraction_lost'' (recv_fraction_lost s),
              SetStreamCustomInfo (stream_id s) ''network_status'' (status_name st),
              AppendStreamCustomInfo (stream_id s) ''network_state'' (ConvertNetworkStatusToString st)] })"

section \<open>Probing a stream\<close>

datatype ProbeStatus = P_GREAT | P_GOOD | P_NOT_GOOD | P_BAD | P_VERY_BAD | P_CANT_CONNECT

record ProbeNetTestResult =
  probe_status :: ProbeStatus
  probe_has_video :: bool
  probe_has_audio :: bool
  probe_network_speed :: u32

definition CheckHasAudioPacket :: "int \<Rightarrow> int \<Rightarrow> u32 \<Rightarrow> NetworkStatus \<Rightarrow> bool \<times> NetworkStatus" where
  "CheckHasAudioPacket mute_time now stid s =
     (let (last_time, m) = sm_at (<) 0 stid (map_stream_energy s)
      in (\<not> (last_time = 0 \<or> now - last_time > mute_time), s\<lparr>map_stream_energy := m\<rparr>))"

definition CheckHasVideoPacket :: "NetworkStatus \<Rightarrow> bool" where
  "CheckHasVideoPacket s = (recv_packets_video_old s > 0)"

definition SetNetworkStatus :: "NetworkStatus \<Rightarrow> ProbeNetTestResult \<Rightarrow> ProbeNetTestResult" where
  "SetNetworkStatus s r =
     (case network_status s of
        NET_GREAT \<Rightarrow> r\<lparr>probe_status := P_GREAT\<rparr>
      | NET_GOOD \<Rightarrow> r\<lparr>probe_status := P_GOOD\<rparr>
      | NET_NOT_GOOD \<Rightarrow> r\<lparr>probe_status := P_NOT_GOOD\<rparr>
      | NET_BAD \<Rightarrow> r\<lparr>probe_status := P_BAD\<rparr>
      | NET_VERY_BAD \<Rightarrow> r\<lparr>probe_status := P_VERY_BAD\<rparr>
      | NET_CANT_CONNECT \<Rightarrow> r\<lparr>probe_status := P_CANT_CONNECT\<rparr>
      | NET_UNKNOWN \<Rightarrow> r)"

definition UpdateHighEnergyTime :: "int \<Rightarrow> u32 \<Rightarrow> NetworkStatus \<Rightarrow> NetworkStatus" where
  "UpdateHighEnergyTime now stid s =
     s\<lparr>map_stream_energy := sm_set (<) stid now (map_stream_energy s)\<rparr>"

section \<open>The table of streams\<close>

datatype Key = Key (key_session: int) (key_stream: int)

definition key_less :: "Key \<Rightarrow> Key \<Rightarrow> bool" where
  "key_less a b =
     (if key_session a < key_session b then True
      else if key_session a > key_session b then False
      else key_stream a < key_stream b)"

interpretation km: key_order key_less
  by unfold_locales (auto simp: key_less_def intro: Key.expand split: if_splits)

record NetworkStatusManager =
  ns_map :: "(Key, NetworkStatus) std_map"
  stream_update_map :: "(Key, int) std_map"

definition NSM_Init :: "int \<Rightarrow> u32 \<Rightarrow> int \<Rightarrow> int \<Rightarrow> NetworkStatusManager \<Rightarrow> NetworkStatusManager" where
  "NSM_Init now garbage sid stid g =
     g\<lparr>ns_map := sm_set key_less (Key sid stid)
                   (NetworkStatus_new garbage (word_of_int sid) (word_of_int stid)) (ns_map g),
       stream_update_map := sm_set key_less (Key sid stid) now (stream_update_map g)\<rparr>"

definition UpdateStreamIncommingTime :: "int \<Rightarrow> int \<Rightarrow> int \<Rightarrow> NetworkStatusManager \<Rightarrow> NetworkStatusManager" where
  "UpdateStreamIncommingTime now sid stid g =
     g\<lparr>stream_update_map := sm_set key_less (Key sid stid) now (stream_update_map g)\<rparr>"

definition GetStreamLastTime :: "int \<Rightarrow> int \<Rightarrow> NetworkStatusManager \<Rightarrow> int \<times> NetworkStatusManager" where
  "GetStreamLastTime sid stid g =
     (let (t, m) = sm_at key_less 0 (Key sid stid) (stream_update_map g) in (t, g\<lparr>stream_update_map := m\<rparr>))"

definition TraverseStreamMap :: "int \<Rightarrow> int \<Rightarrow> NetworkStatusManager \<Rightarrow> Key list \<Rightarrow> Key list" where
  "TraverseStreamMap leave_time now g remove_stream =
     remove_stream @ map fst (filter (\<lambda>(k, t). t \<noteq> 0 \<and> now - t > leave_time) (stream_update_map g))"

definition GetProbeNetResponse ::
    "int \<Rightarrow> int \<Rightarrow> int \<Rightarrow> int \<Rightarrow> NetworkStatusManager \<Rightarrow> ProbeNetTestResult \<Rightarrow> ProbeNetTestResult \<times> NetworkStatusManager" where
  "GetProbeNetResponse mute_time now sid stid g probe_result =
     (case sm_find key_less (Key sid stid) (ns_map g) of
        None \<Rightarrow> (probe_result, g)
      | Some s \<Rightarrow>
          let has_video = CheckHasVideoPacket s;
              (has_audio, s) = CheckHasAudioPacket mute_time now (word_of_int stid) s
          in ((SetNetworkStatus s probe_result)
                \<lparr>probe_has_video := has_video, probe_has_audio := has_audio,
                 probe_network_speed := GetBitrate False s\<rparr>,
              g\<lparr>ns_map := sm_set key_less (Key sid stid) s (ns_map g)\<rparr>))"

definition UpdateTimeOfStreamHighEnergy :: "int \<Rightarrow> int \<Rightarrow> int \<Rightarrow> int \<Rightarrow> NetworkStatusManager \<Rightarrow> NetworkStatusManager" where
  "UpdateTimeOfStreamHighEnergy now sid stid audio_energy g =
     (case sm_find key_less (Key sid stid) (ns_map g) of
        None \<Rightarrow> g
      | Some s \<Rightarrow>
          if audio_energy > 1000000
          then g\<lparr>ns_map := sm_set key_less (Key sid stid) (UpdateHighEnergyTime now (word_of_int stid) s) (ns_map g)\<rparr>
          else g)"

definition NSM_Get :: "int \<Rightarrow> int \<Rightarrow> NetworkStatusManager \<Rightarrow> NetworkStatus option" where
  "NSM_Get sid stid g = sm_find key_less (Key sid stid) (ns_map g)"

definition NSM_Destroy :: "int \<Rightarrow> int \<Rightarrow> NetworkStatusManager \<Rightarrow> NetworkStatusManager" where
  "NSM_Destroy sid stid g =
     g\<lparr>ns_map := sm_erase key_less (Key sid stid) (ns_map g),
       stream_update_map := sm_erase key_less (Key sid stid) (stream_update_map g)\<rparr>"

section \<open>Reachable tables\<close>

text \<open>
  Every call that changes the table: the operations of the manager, and the methods that
  transports and RTCP processors call on the status of one stream.
\<close>

inductive status_step :: "NetworkStatus \<Rightarrow> NetworkStatus \<Rightarrow> bool" where
  recv: "status_step s (fst (ReceivingPacket now session is_video s))"
| recv_rtcp: "status_step s (fst (ReceivingRTCPPacket now session is_video s))"
| sent: "SendingPacket now session is_video ssrc len ts s = Some (s', es) \<Longrightarrow> status_step s s'"
| sent_rtcp: "status_step s (fst (SendingRTCPPacket now session is_video s))"
| nack: "IncreaseNackCount is_send s = Some s' \<Longrightarrow> status_step s s'"
| target: "status_step s (UpdateTargetBitrate is_video bitrate s)"
| bitrate: "status_step s (UpdateBitrate is_send bitrate s)"
| jitter: "status_step s (UpdateJitters source is_video j ssrc s)"
| rtt: "status_step s (UpdateRTT now r ssrc s)"
| ssrcs: "status_step s (InitWithSsrcs clk now vs v a s)"
| recv_loss: "status_step s (fst (StatisticRecvFractionLost clk session is_video n s))"
| send_loss: "StatisticSendFractionLost now is_video h l ssrc s = Some s' \<Longrightarrow> status_step s s'"

inductive manager_step :: "NetworkStatusManager \<Rightarrow> NetworkStatusManager \<Rightarrow> bool" where
  init: "manager_step g (NSM_Init now garbage sid stid g)"
| destroy: "manager_step g (NSM_Destroy sid stid g)"
| alive: "manager_step g (UpdateStreamIncommingTime now sid stid g)"
| last_time: "manager_step g (snd (GetStreamLastTime sid stid g))"
| probe: "manager_step g (snd (GetProbeNetResponse mute_time now sid stid g r))"
| energy: "manager_step g (UpdateTimeOfStreamHighEnergy now sid stid e g)"
| status: "NSM_Get sid stid g = Some s \<Longrightarrow> status_step s s' \<Longrightarrow>
    manager_step g (g\<lparr>ns_map := sm_set key_less (Key sid stid) s' (ns_map g)\<rparr>)"

inductive_cases status_stepE: "status_step s s'"
inductive_cases manager_stepE: "manager_step g g'"

definition manager_empty :: NetworkStatusManager where
  "manager_empty = \<lparr>ns_map = [], stream_update_map = []\<rparr>"

inductive reachable :: "NetworkStatusManager \<Rightarrow> bool" where
  empty: "reachable manager_empty"
| step: "reachable g \<Longrightarrow> manager_step g g' \<Longrightarrow> reachable g'"

text \<open>What identifies a stream's status, and the field that a probe reads.\<close>

definition identity :: "NetworkStatus \<Rightarrow> NETWORK_STATUS \<times> u32 \<times> u32" where
  "identity s = (network_status s, session_id s, stream_id s)"

lemma identity_counters:
  "identity (fst (ReceivingPacket now session is_video s)) = identity s"
  "identity (fst (ReceivingRTCPPacket now session is_video s)) = identity s"
  "identity (fst (SendingRTCPPacket now session is_video s)) = identity s"
  by (simp_all add: identity_def ReceivingPacket_def ReceivingRTCPPacket_def SendingRTCPPacket_def Let_def)

lemma identity_updates:
  "identity (UpdateTargetBitrate is_video bitrate s) = identity s"
  "identity (UpdateBitrate is_send bitrate s) = identity s"
  "identity (UpdateJitters source is_video j ssrc s) = identity s"
  "identity (UpdateRTT now r ssrc s) = identity s"
  "identity (InitWithSsrcs clk now vs v a s) = identity s"
  by (simp_all add: identity_def UpdateTargetBitrate_def UpdateBitrate_def UpdateJitters_def UpdateRTT_def
      InitWithSsrcs_def split: REPORT_SOURCE.split)

lemma identity_recv_loss: "identity (fst (StatisticRecvFractionLost clk session is_video n s)) = identity s"
  by (simp add: identity_def StatisticRecvFractionLost_def StatisticRecvFractionOfVideo_def
        StatisticRecvFractionOfAudio_def Let_def split: prod.split)

lemma identity_note_sent: "note_sent ssrc len ts s = Some s' \<Longrightarrow> identity s' = identity s"
  by (auto simp: identity_def note_sent_def bind_eq_Some_conv split: option.splits)

lemma identity_sent:
  assumes "SendingPacket now session is_video ssrc len ts s = Some (s', es)"
  shows "identity s' = identity s"
proof -
  obtain s2 where s2: "note_sent ssrc len ts (count_sent is_video s) = Some s2" "(s', es) = publish_sent now session s2"
    using assms by (auto simp: SendingPacket_def)
  have "identity (count_sent is_video s) = identity s"
    by (simp add: identity_def count_sent_def Let_def)
  moreover have "identity (fst (publish_sent now session s2)) = identity s2"
    by (simp add: identity_def publish_sent_def)
  ultimately show ?thesis using identity_note_sent [OF s2(1)] by (simp flip: s2(2))
qed

lemma identity_send_loss:
  "StatisticSendFractionLost now is_video h l ssrc s = Some s' \<Longrightarrow> identity s' = identity s"
  by (auto simp: identity_def StatisticSendFractionLost_def UpdateTotalSendFractionLost_def Let_def bind_eq_Some_conv
        split: option.splits)

lemma identity_nack: "IncreaseNackCount is_send s = Some s' \<Longrightarrow> identity s' = identity s"
  by (auto simp: identity_def IncreaseNackCount_def split: if_splits)

lemma status_step_keeps: "status_step s s' \<Longrightarrow> identity s' = identity s"
  by (induction rule: status_step.induct)
    (simp_all only: identity_counters identity_updates identity_recv_loss identity_sent identity_send_loss identity_nack)

lemma identity_audio_check: "identity (snd (CheckHasAudioPacket mute_time now stid s)) = identity s"
  by (simp add: CheckHasAudioPacket_def identity_def split: prod.split)

definition manager_inv :: "NetworkStatusManager \<Rightarrow> bool" where
  "manager_inv g \<longleftrightarrow> sm_sorted key_less (ns_map g) \<and> sm_sorted key_less (stream_update_map g) \<and>
     (\<forall>k s. sm_find key_less k (ns_map g) = Some s \<longrightarrow> network_status s = NET_GREAT)"

lemma manager_inv_set:
  assumes "manager_inv g" "network_status s = NET_GREAT"
  shows "manager_inv (g\<lparr>ns_map := sm_set key_less k s (ns_map g)\<rparr>)"
  using assms by (auto simp: manager_inv_def km.sorted_set km.find_set)

lemma manager_inv_time:
  assumes "manager_inv g"
  shows "manager_inv (g\<lparr>stream_update_map := sm_set key_less k t (stream_update_map g)\<rparr>)"
  using assms by (simp add: manager_inv_def km.sorted_set)

lemma manager_step_inv:
  assumes "manager_inv g" "manager_step g g'"
  shows "manager_inv g'"
  using assms(2)
proof cases
  case (init now garbage sid stid)
  have "network_status (NetworkStatus_new garbage a b) = NET_GREAT" for a b
    by (simp add: NetworkStatus_new_def)
  then show ?thesis
    using manager_inv_time [OF manager_inv_set [OF assms(1)]] by (simp add: init NSM_Init_def)
next
  case (destroy sid stid)
  then show ?thesis
    using assms(1) by (auto simp: manager_inv_def NSM_Destroy_def km.sorted_erase km.find_erase)
next
  case (alive now sid stid)
  then show ?thesis using assms(1) by (simp add: UpdateStreamIncommingTime_def manager_inv_time)
next
  case (last_time sid stid)
  then show ?thesis
    using assms(1) by (auto simp: GetStreamLastTime_def sm_at_def manager_inv_time split: option.splits)
next
  case (probe mute_time now sid stid r)
  show ?thesis
  proof (cases "sm_find key_less (Key sid stid) (ns_map g)")
    case (Some s)
    obtain b s' where c: "CheckHasAudioPacket mute_time now (word_of_int stid) s = (b, s')" by fastforce
    then have "network_status s' = NET_GREAT"
      using identity_audio_check [of mute_time now "word_of_int stid" s] assms(1) Some
      by (auto simp: identity_def manager_inv_def)
    then show ?thesis
      using Some assms(1) by (simp add: probe GetProbeNetResponse_def manager_inv_set c)
  qed (use assms(1) probe in \<open>simp add: GetProbeNetResponse_def\<close>)
next
  case (energy now sid stid e)
  have "network_status (UpdateHighEnergyTime now t s) = NET_GREAT"
    if "sm_find key_less k (ns_map g) = Some s" for k s t
    using that assms(1) by (auto simp: UpdateHighEnergyTime_def manager_inv_def)
  then show ?thesis
    using assms(1) by (simp add: energy UpdateTimeOfStreamHighEnergy_def manager_inv_set split: option.split)
next
  case (status sid stid s s')
  then have "network_status s' = NET_GREAT"
    using assms(1) status_step_keeps [OF status(3)] by (auto simp: manager_inv_def NSM_Get_def identity_def)
  then show ?thesis using assms(1) by (simp add: status manager_inv_set)
qed

lemma reachable_inv: "reachable g \<Longrightarrow> manager_inv g"
  by (induction rule: reachable.induct)
    (simp_all add: manager_step_inv, simp add: manager_inv_def manager_empty_def sm_sorted_def)

text \<open>
  A probe reports a great network whatever happened: in every reachable table, and whatever
  losses and delays were recorded, the status that \<open>GetProbeNetResponse\<close> returns for a known
  stream is GREAT, because the field it reads is only ever set by the constructor.
\<close>

theorem probe_always_great:
  assumes "reachable g" "NSM_Get sid stid g \<noteq> None"
  shows "probe_status (fst (GetProbeNetResponse mute_time now sid stid g r)) = P_GREAT"
proof -
  obtain s where s: "sm_find key_less (Key sid stid) (ns_map g) = Some s"
    using assms(2) by (auto simp: NSM_Get_def)
  obtain b s' where c: "CheckHasAudioPacket mute_time now (word_of_int stid) s = (b, s')" by fastforce
  then have "network_status s' = NET_GREAT"
    using identity_audio_check [of mute_time now "word_of_int stid" s] reachable_inv [OF assms(1)] s
    by (auto simp: identity_def manager_inv_def)
  then show ?thesis
    using s by (simp add: GetProbeNetResponse_def SetNetworkStatus_def c)
qed

definition demo_probe :: ProbeNetTestResult where
  "demo_probe = \<lparr>probe_status = P_BAD, probe_has_video = False, probe_has_audio = False, probe_network_speed = 0\<rparr>"

lemma probe_always_great_witness:
  "probe_status (fst (GetProbeNetResponse 30000 500 1 2 (NSM_Init 100 0 1 2 manager_empty) demo_probe)) = P_GREAT"
proof -
  have "reachable (NSM_Init 100 0 1 2 manager_empty)" by (auto intro: reachable.intros manager_step.init)
  moreover have "NSM_Get 1 2 (NSM_Init 100 0 1 2 manager_empty) \<noteq> None" by code_simp
  ultimately show ?thesis by (rule probe_always_great)
qed

text \<open>
  The streams to remove.  In every reachable table \<open>TraverseStreamMap\<close> adds exactly the
  streams whose last activity is known and more than \<open>leave_time\<close> ago, each once; a stream that
  was just active is not among them, nor is one that was destroyed.
\<close>

theorem idle_streams_listed:
  assumes "reachable g" "0 \<le> leave_time"
  shows "distinct (TraverseStreamMap leave_time now g []) \<and>
    (\<forall>k. k \<in> set (TraverseStreamMap leave_time now g []) \<longleftrightarrow>
      (\<exists>t. sm_find key_less k (stream_update_map g) = Some t \<and> t \<noteq> 0 \<and> now - t > leave_time)) \<and>
    Key sid stid \<notin> set (TraverseStreamMap leave_time now (UpdateStreamIncommingTime now sid stid g) []) \<and>
    Key sid stid \<notin> set (TraverseStreamMap leave_time now (NSM_Destroy sid stid g) [])"
proof -
  have inv: "manager_inv g'" if "reachable g'" for g' using that by (rule reachable_inv)
  have listed: "k \<in> set (TraverseStreamMap leave_time now g' []) \<longleftrightarrow>
      (\<exists>t. sm_find key_less k (stream_update_map g') = Some t \<and> t \<noteq> 0 \<and> now - t > leave_time)"
    if "reachable g'" for g' k
    using inv [OF that] by (force simp: TraverseStreamMap_def manager_inv_def km.find_elem)
  have "distinct (map fst (stream_update_map g))"
    using inv [OF assms(1)] by (simp add: manager_inv_def km.keys_distinct)
  then have "distinct (TraverseStreamMap leave_time now g [])"
    by (simp add: TraverseStreamMap_def distinct_map_filter)
  moreover have "reachable (UpdateStreamIncommingTime now sid stid g)" "reachable (NSM_Destroy sid stid g)"
    using assms(1) by (auto intro: reachable.step manager_step.intros)
  moreover have "sm_find key_less (Key sid stid) (stream_update_map (UpdateStreamIncommingTime now sid stid g)) = Some now"
    "sm_find key_less (Key sid stid) (stream_update_map (NSM_Destroy sid stid g)) = None"
    using inv [OF assms(1)]
    by (simp_all add: UpdateStreamIncommingTime_def NSM_Destroy_def manager_inv_def km.find_set km.find_erase)
  ultimately show ?thesis using listed assms by (simp add: listed)
qed

lemma idle_streams_listed_witness:
  "Key 1 2 \<in> set (TraverseStreamMap 600000 700000 (NSM_Init 100 0 1 2 manager_empty) [])"
proof -
  have "reachable (NSM_Init 100 0 1 2 manager_empty)" by (auto intro: reachable.intros manager_step.init)
  from idle_streams_listed [OF this, of 600000 700000 1 2] show ?thesis
    by (simp add: NSM_Init_def manager_empty_def key_less_def)
qed

section \<open>What the sender reports are built from\<close>

text \<open>A packet handed to the transport: kind, source, length and timestamp; \<open>clk\<close> is the time.\<close>

record sent_packet =
  sp_clk :: int
  sp_video :: bool
  sp_ssrc :: u32
  sp_len :: int
  sp_ts :: u32

fun send_all :: "bool \<Rightarrow> sent_packet list \<Rightarrow> NetworkStatus \<Rightarrow> NetworkStatus option" where
  "send_all session [] s = Some s"
| "send_all session (p # ps) s = do {
     (s, _) \<leftarrow> SendingPacket (sp_clk p) session (sp_video p) (sp_ssrc p) (sp_len p) (sp_ts p) s;
     send_all session ps s }"

definition sent_fits :: "int \<Rightarrow> int \<Rightarrow> (u32, SendPacketsStatus) std_map \<Rightarrow> bool" where
  "sent_fits n b m \<longleftrightarrow> sm_sorted (<) m \<and>
     (\<forall>k p. sm_find (<) k m = Some p \<longrightarrow> 0 \<le> sent_packets p \<and> sent_packets p \<le> n \<and>
       0 \<le> sent_bytes p \<and> sent_bytes p \<le> b)"

definition add_sent :: "int \<Rightarrow> u32 \<Rightarrow> SendPacketsStatus \<Rightarrow> SendPacketsStatus" where
  "add_sent len ts p =
     p\<lparr>sent_packets := sent_packets p + 1, sent_bytes := sent_bytes p + len, last_ts := last_ts p + ts\<rparr>"

lemma note_sent_fits:
  assumes "sent_fits n b (map_send_packets_status s)" "0 \<le> len" "n + 1 < 2 ^ 31" "b + len < 2 ^ 31"
  shows "note_sent ssrc len ts s =
    Some (s\<lparr>map_send_packets_status := sm_modify ssrc (add_sent len ts) (map_send_packets_status s)\<rparr>)"
proof (cases "sm_find (<) ssrc (map_send_packets_status s)")
  case (Some p)
  then have "0 \<le> sent_packets p" "sent_packets p \<le> n" "0 \<le> sent_bytes p" "sent_bytes p \<le> b"
    using assms(1) by (auto simp: sent_fits_def)
  then have "int32_ok (sent_packets p + 1)" "int32_ok (sent_bytes p + len)"
    using assms by (simp_all add: int32_ok_def)
  then show ?thesis
    by (simp add: note_sent_def Some sm_modify_def add_sent_def set_send_packets_def set_send_bytes_def
        set_last_ts_def add32s_def)
qed (simp add: note_sent_def sm_modify_def)

lemma sm_modify_find:
  assumes "sm_sorted (<) m"
  shows "sm_find (<) j (sm_modify k f m) = (if j = k then map_option f (sm_find (<) k m) else sm_find (<) j m)"
  using assms by (auto simp: sm_modify_def um.find_set split: option.split)

lemma sm_modify_sorted: "sm_sorted (<) m \<Longrightarrow> sm_sorted (<) (sm_modify k f m)"
  by (simp add: sm_modify_def um.sorted_set split: option.split)

lemma sent_fits_modify:
  assumes "sent_fits n b m" "0 \<le> len"
  shows "sent_fits (n + 1) (b + len) (sm_modify ssrc (add_sent len ts) m)"
proof -
  have bounds: "0 \<le> sent_packets p \<and> sent_packets p \<le> n \<and> 0 \<le> sent_bytes p \<and> sent_bytes p \<le> b"
    if "sm_find (<) k m = Some p" for k p using that assms(1) by (auto simp: sent_fits_def)
  have "0 \<le> sent_packets p \<and> sent_packets p \<le> n + 1 \<and> 0 \<le> sent_bytes p \<and> sent_bytes p \<le> b + len"
    if "sm_find (<) k (sm_modify ssrc (add_sent len ts) m) = Some p" for k p
    using that bounds assms
    by (fastforce simp: sent_fits_def sm_modify_find add_sent_def split: if_splits)
  then show ?thesis using assms(1) by (simp add: sent_fits_def sm_modify_sorted)
qed

lemma SendingPacket_fits:
  assumes "sent_fits n b (map_send_packets_status s)" "0 \<le> len" "n + 1 < 2 ^ 31" "b + len < 2 ^ 31"
  obtains s' es where "SendingPacket now session is_video ssrc len ts s = Some (s', es)"
    "map_send_packets_status s' = sm_modify ssrc (add_sent len ts) (map_send_packets_status s)"
proof -
  have c: "map_send_packets_status (count_sent is_video s) = map_send_packets_status s"
    by (simp add: count_sent_def Let_def)
  have p: "map_send_packets_status (fst (publish_sent now session t)) = map_send_packets_status t" for t
    by (simp add: publish_sent_def)
  define t where "t = (count_sent is_video s)
      \<lparr>map_send_packets_status := sm_modify ssrc (add_sent len ts) (map_send_packets_status s)\<rparr>"
  have "note_sent ssrc len ts (count_sent is_video s) = Some t"
    using note_sent_fits [of n b "count_sent is_video s"] assms by (simp add: c t_def)
  then have "SendingPacket now session is_video ssrc len ts s = Some (publish_sent now session t)"
    by (simp add: SendingPacket_def)
  then show ?thesis
    using that [of "fst (publish_sent now session t)" "snd (publish_sent now session t)"]
    by (simp add: p) (simp add: t_def)
qed

text \<open>What the counters of a source hold after a run.\<close>

definition of_ssrc :: "u32 \<Rightarrow> sent_packet list \<Rightarrow> sent_packet list" where
  "of_ssrc ssrc ps = filter (\<lambda>p. sp_ssrc p = ssrc) ps"

lemma of_ssrc_simps [simp]:
  "of_ssrc ssrc [] = []"
  "of_ssrc ssrc (p # ps) = (if sp_ssrc p = ssrc then p # of_ssrc ssrc ps else of_ssrc ssrc ps)"
  by (simp_all add: of_ssrc_def)

lemma send_all_counts:
  assumes "sent_fits n b (map_send_packets_status s)" "\<forall>p\<in>set ps. 0 \<le> sp_len p"
    and "n + int (length ps) < 2 ^ 31" "b + sum_list (map sp_len ps) < 2 ^ 31"
    and "sm_find (<) ssrc (map_send_packets_status s) = Some q"
  shows "\<exists>s' q'. send_all session ps s = Some s' \<and> sm_find (<) ssrc (map_send_packets_status s') = Some q' \<and>
    sent_packets q' = sent_packets q + int (length (of_ssrc ssrc ps)) \<and>
    sent_bytes q' = sent_bytes q + sum_list (map sp_len (of_ssrc ssrc ps)) \<and>
    last_ts q' = last_ts q + sum_list (map sp_ts (of_ssrc ssrc ps))"
  using assms
proof (induction ps arbitrary: s n b q)
  case (Cons p ps)
  have nn: "0 \<le> sum_list (map sp_len ps)" using Cons.prems(2) by (intro sum_list_nonneg) auto
  obtain s1 es where s1: "SendingPacket (sp_clk p) session (sp_video p) (sp_ssrc p) (sp_len p) (sp_ts p) s = Some (s1, es)"
    "map_send_packets_status s1 = sm_modify (sp_ssrc p) (add_sent (sp_len p) (sp_ts p)) (map_send_packets_status s)"
    using Cons.prems nn by (elim SendingPacket_fits [of n b s "sp_len p"]) auto
  define q1 where "q1 = (if sp_ssrc p = ssrc then add_sent (sp_len p) (sp_ts p) q else q)"
  have "sm_sorted (<) (map_send_packets_status s)" using Cons.prems(1) by (simp add: sent_fits_def)
  then have q1: "sm_find (<) ssrc (map_send_packets_status s1) = Some q1"
    using Cons.prems(5) by (auto simp: s1(2) sm_modify_find q1_def)
  have fits: "sent_fits (n + 1) (b + sp_len p) (map_send_packets_status s1)"
    using sent_fits_modify [OF Cons.prems(1)] Cons.prems(2) by (simp add: s1(2))
  have "n + 1 + int (length ps) < 2 ^ 31" "b + sp_len p + sum_list (map sp_len ps) < 2 ^ 31"
    using Cons.prems by simp_all
  then obtain s' q' where "send_all session ps s1 = Some s'" "sm_find (<) ssrc (map_send_packets_status s') = Some q'"
    "sent_packets q' = sent_packets q1 + int (length (of_ssrc ssrc ps))"
    "sent_bytes q' = sent_bytes q1 + sum_list (map sp_len (of_ssrc ssrc ps))"
    "last_ts q' = last_ts q1 + sum_list (map sp_ts (of_ssrc ssrc ps))"
    using Cons.IH [OF fits _ _ _ q1] Cons.prems(2) by auto
  moreover have "sent_packets q1 = sent_packets q + (if sp_ssrc p = ssrc then 1 else 0)"
    "sent_bytes q1 = sent_bytes q + (if sp_ssrc p = ssrc then sp_len p else 0)"
    "last_ts q1 = last_ts q + (if sp_ssrc p = ssrc then sp_ts p else 0)"
    by (simp_all add: q1_def add_sent_def)
  ultimately show ?case
    by (intro exI [of _ s'] exI [of _ q']) (simp add: s1(1))
qed simp

lemma init_with_ssrcs_fits:
  assumes "map_send_packets_status s = []"
  shows "sent_fits 0 0 (map_send_packets_status (InitWithSsrcs clk now vs v a s))"
    and "k \<in> set vs \<union> {v, a} \<Longrightarrow>
      sm_find (<) k (map_send_packets_status (InitWithSsrcs clk now vs v a s)) = Some SendPacketsStatus_new"
proof -
  have "sm_sorted (<) ([] :: (u32, SendPacketsStatus) std_map)" by (simp add: sm_sorted_def)
  note srt = um.dict.inv_fold_upd [OF this, of "\<lambda>_. SendPacketsStatus_new" vs]
  note fnd = um.dict.find_fold_upd [OF \<open>sm_sorted (<) []\<close>, of _ "\<lambda>_. SendPacketsStatus_new" vs]
  have find: "sm_find (<) j (map_send_packets_status (InitWithSsrcs clk now vs v a s)) =
      (if j \<in> set vs \<union> {v, a} then Some SendPacketsStatus_new else None)" for j
    using srt by (simp add: InitWithSsrcs_def assms um.find_set um.sorted_set fnd)
  show "sent_fits 0 0 (map_send_packets_status (InitWithSsrcs clk now vs v a s))"
    unfolding sent_fits_def find
    using srt by (simp add: InitWithSsrcs_def assms um.sorted_set SendPacketsStatus_new_def split: if_splits)
  show "k \<in> set vs \<union> {v, a} \<Longrightarrow>
      sm_find (<) k (map_send_packets_status (InitWithSsrcs clk now vs v a s)) = Some SendPacketsStatus_new"
    by (simp add: find)
qed

text \<open>The counters of a sender report.  After \<open>InitWithSsrcs\<close>, when packets of fewer than 2^31
  bytes in all are sent, the entry of each registered source counts exactly its packets and its
  bytes, while its \<open>last_ts\<close> is the sum of their timestamps instead of the last one.
\<close>

theorem sender_counters:
  fixes clk :: "u32 \<Rightarrow> int" and now :: int
  assumes "map_send_packets_status s0 = []" "ssrc \<in> set vs \<union> {v, a}"
    and "\<forall>p\<in>set ps. 0 \<le> sp_len p" "int (length ps) < 2 ^ 31" "sum_list (map sp_len ps) < 2 ^ 31"
  shows "\<exists>s. send_all session ps (InitWithSsrcs clk now vs v a s0) = Some s \<and>
    GetSendPackets ssrc s = int (length (of_ssrc ssrc ps)) \<and>
    GetSendBytes ssrc s = sum_list (map sp_len (of_ssrc ssrc ps)) \<and>
    GetLastTs ssrc s = sum_list (map sp_ts (of_ssrc ssrc ps))"
proof -
  have "\<exists>s' q'. send_all session ps (InitWithSsrcs clk now vs v a s0) = Some s' \<and>
    sm_find (<) ssrc (map_send_packets_status s') = Some q' \<and>
    sent_packets q' = sent_packets SendPacketsStatus_new + int (length (of_ssrc ssrc ps)) \<and>
    sent_bytes q' = sent_bytes SendPacketsStatus_new + sum_list (map sp_len (of_ssrc ssrc ps)) \<and>
    last_ts q' = last_ts SendPacketsStatus_new + sum_list (map sp_ts (of_ssrc ssrc ps))"
    by (rule send_all_counts [OF init_with_ssrcs_fits(1) [OF assms(1)] assms(3) _ _
          init_with_ssrcs_fits(2) [OF assms(1,2)]]) (use assms in simp_all)
  then show ?thesis
    by (auto simp: GetSendPackets_def GetSendBytes_def GetLastTs_def SendPacketsStatus_new_def)
qed

definition demo_sent :: "sent_packet list" where
  "demo_sent = [\<lparr>sp_clk = 10, sp_video = True, sp_ssrc = 5, sp_len = 1000, sp_ts = 90000\<rparr>,
    \<lparr>sp_clk = 20, sp_video = False, sp_ssrc = 7, sp_len = 80, sp_ts = 480\<rparr>,
    \<lparr>sp_clk = 43, sp_video = True, sp_ssrc = 5, sp_len = 900, sp_ts = 93000\<rparr>]"

lemma sender_counters_witness:
  "\<exists>s. send_all True demo_sent (InitWithSsrcs (\<lambda>_. 0) 0 [] 5 7 (NetworkStatus_new 0 1 2)) = Some s \<and>
    GetSendPackets 5 s = 2 \<and> GetSendBytes 5 s = 1900 \<and> GetLastTs 5 s = 183000"
  using sender_counters [of "NetworkStatus_new 0 1 2" 5 "[]" 5 7 demo_sent True "\<lambda>_. 0" 0]
  by (simp add: NetworkStatus_new_def demo_sent_def)

section \<open>Monotonicity of the grade\<close>

lemma NetworkStatusLevel_mono: "a \<le> b \<Longrightarrow> NetworkStatusLevel a \<le> NetworkStatusLevel b"
  by (simp add: NetworkStatusLevel_def less_eq_NETWORK_STATUS_def)

lemma rtt_level_mono: "0 \<le> a \<Longrightarrow> a \<le> b \<Longrightarrow> rtt_level a \<le> rtt_level b"
  by (simp add: rtt_level_def less_eq_NETWORK_STATUS_def)

lemma fraction_grade_max:
  "EstimateNetworkStatusByFractionLost s =
     max (NetworkStatusLevel (sint (total_send_fraction_lost s))) (NetworkStatusLevel (sint (recv_fraction_lost s)))"
proof -
  have "NetworkStatusLevel x \<noteq> NET_UNKNOWN" for x by (simp add: NetworkStatusLevel_def)
  then show ?thesis
    by (cases "NetworkStatusLevel (sint (total_send_fraction_lost s))";
        cases "NetworkStatusLevel (sint (recv_fraction_lost s))")
      (simp_all add: EstimateNetworkStatusByFractionLost_def max_def less_eq_NETWORK_STATUS_def)
qed

lemma network_grade_max:
  "GetNetworkStatus s =
     map_option (\<lambda>r. max (EstimateNetworkStatusByFractionLost s) (rtt_level r)) (GetAllSsrcsAverageRtt s)"
  by (cases "GetAllSsrcsAverageRtt s")
    (auto simp: GetNetworkStatus_def EstimateNetworkStatusByRTT_def max_def Let_def)

lemma average_of_nonneg: "average_of rs = Some r \<Longrightarrow> 0 \<le> r"
  by (auto simp: average_of_def Let_def split: if_splits
      intro!: pos_imp_zdiv_nonneg_iff [THEN iffD2] sum_list_nonneg)

text \<open>
  The grade is the worst of three: send loss, receive loss and round-trip time.  It is
  defined whenever the sum of the averages does not overflow, and a stream whose losses and delay
  are no smaller than another's is never graded better.
\<close>

theorem worse_network_worse_grade:
  assumes "GetAllSsrcsAverageRtt s = Some r" "GetAllSsrcsAverageRtt s' = Some r'" "r \<le> r'"
    and "sint (total_send_fraction_lost s) \<le> sint (total_send_fraction_lost s')"
    and "sint (recv_fraction_lost s) \<le> sint (recv_fraction_lost s')"
  shows "\<exists>g g'. GetNetworkStatus s = Some g \<and> GetNetworkStatus s' = Some g' \<and> g \<le> g' \<and>
    g = max (max (NetworkStatusLevel (sint (total_send_fraction_lost s)))
                 (NetworkStatusLevel (sint (recv_fraction_lost s)))) (rtt_level r)"
proof -
  have "0 \<le> r" using assms(1) average_of_nonneg by (simp add: GetAllSsrcsAverageRtt_def)
  then have "max (EstimateNetworkStatusByFractionLost s) (rtt_level r)
      \<le> max (EstimateNetworkStatusByFractionLost s') (rtt_level r')"
    unfolding fraction_grade_max using assms
    by (intro max.mono NetworkStatusLevel_mono rtt_level_mono)
  then show ?thesis
    using assms(1,2) by (simp add: network_grade_max fraction_grade_max)
qed

lemma worse_network_worse_grade_witness:
  "\<exists>g g'. GetNetworkStatus (NetworkStatus_new 0 1 2) = Some g \<and>
     GetNetworkStatus ((NetworkStatus_new 0 1 2)\<lparr>recv_fraction_lost := 7\<rparr>) = Some g' \<and> g \<le> g'"
  using worse_network_worse_grade [of "NetworkStatus_new 0 1 2" 0
      "(NetworkStatus_new 0 1 2)\<lparr>recv_fraction_lost := 7\<rparr>" 0]
  by (auto simp: NetworkStatus_new_def GetAllSsrcsAverageRtt_def average_of_def)

end
