(* ===== verification/Remb_Processor.thy ===== *)
theory Remb_Processor
  imports Janus_Rtcp Media_Definitions
begin

text \<open>
  \<open>src/orbit/rtp/remb_processor.{h,cc}\<close>: the bitrate cap that is halved when many packets
  are reported lost.  The time stamps are kept in \<open>unsigned int\<close> fields while \<open>now\<close> is a
  64-bit count of microseconds, so that a store truncates and the differences are taken between
  a 64-bit and a zero-extended 32-bit value.  The constructor sets only the bitrate: the other
  fields start with whatever the memory held, the argument of \<open>RembProcessor_new\<close>.
\<close>

record remb_processor =
  remb_cap :: u64
  nack_period_ts :: u32
  last_slowlink_time :: u32
  nack_recent_cnt :: u32

definition USEC_PER_SEC :: u64 where "USEC_PER_SEC = 1000000"
definition SLOW_LINK_NACKS_PER_SEC :: u32 where "SLOW_LINK_NACKS_PER_SEC = 8"

definition RembProcessor_new :: "u32 \<Rightarrow> u32 \<Rightarrow> u32 \<Rightarrow> remb_processor" where
  "RembProcessor_new g1 g2 g3 =
     \<lparr>remb_cap = 0, nack_period_ts = g1, last_slowlink_time = g2, nack_recent_cnt = g3\<rparr>"

definition SetBitrate :: "u64 \<Rightarrow> remb_processor \<Rightarrow> remb_processor" where
  "SetBitrate bitrate s = s\<lparr>remb_cap := bitrate\<rparr>"

text \<open>
  The message is built in a local buffer and packet and then dropped: the call that would relay
  it is commented out.  The result is that packet; \<open>garbage\<close> is the uninitialised buffer.
\<close>

definition SendRembPacket :: "buffer \<Rightarrow> u64 \<Rightarrow> dataPacket option" where
  "SendRembPacket garbage bitrate = do {
     (_, b) \<leftarrow> janus_rtcp_remb (Some garbage) 24 bitrate;
     b \<leftarrow> b;
     d \<leftarrow> memcpy (data dataPacket_new) b 24;
     Some (dataPacket_new\<lparr>comp := 0, pkt_length := 24, dataPacket.pkt_type := REMB_PACKET, data := d\<rparr>) }"

definition VideoCallSlowLink :: "buffer \<Rightarrow> bool \<Rightarrow> bool \<Rightarrow> remb_processor \<Rightarrow> remb_processor option" where
  "VideoCallSlowLink garbage uplink video s =
     (if uplink \<and> \<not> video then Some s
      else if \<not> uplink \<and> video then
        (let b = (if remb_cap s > 0 then remb_cap s else 512 * 1024);
             b = b div 2;
             b = (if b < 64 * 1024 then 64 * 1024 else b)
         in do {
           _ \<leftarrow> SendRembPacket garbage b;
           Some (s\<lparr>remb_cap := b\<rparr>) })
      else Some s)"

definition SlowLinkUpdate :: "buffer \<Rightarrow> u32 \<Rightarrow> bool \<Rightarrow> bool \<Rightarrow> u64 \<Rightarrow> remb_processor \<Rightarrow> remb_processor option" where
  "SlowLinkUpdate garbage nacks video uplink now s =
     (let s = (if now - ucast (nack_period_ts s) > 2 * USEC_PER_SEC
               then s\<lparr>nack_period_ts := ucast now, nack_recent_cnt := 0\<rparr> else s);
          s = s\<lparr>nack_recent_cnt := nack_recent_cnt s + nacks\<rparr>
      in if nack_recent_cnt s \<ge> SLOW_LINK_NACKS_PER_SEC \<and> now - ucast (last_slowlink_time s) > 1 * USEC_PER_SEC
         then do {
           s \<leftarrow> VideoCallSlowLink garbage uplink video s;
           Some (s\<lparr>last_slowlink_time := ucast now, nack_period_ts := ucast now, nack_recent_cnt := 0\<rparr>) }
         else Some s)"

section \<open>The cap\<close>

lemma remb_defined:
  assumes "unat r < 2 ^ 32" "24 \<le> length m"
  shows "\<exists>m'. janus_rtcp_remb (Some m) 24 r = Some (24, Some m') \<and> length m' = length m"
proof -
  let ?h = "m[0 := set_bits 0 5 15 (set_bits 6 2 2 (m ! 0)), 1 := RTCP_PSFB, 2 := 0, 3 := 5,
     12 := 0x52, 13 := 0x45, 14 := 0x4D, 15 := 0x42, 16 := 1]"
  obtain m' where "put_bitrate ?h 16 r = Some m'" "length m' = length ?h"
    using put_bitrate_read [OF assms(1), of 16 ?h] assms(2) by auto
  then show ?thesis
    using assms(2) by (simp add: janus_rtcp_remb_def put_header_Some wr_defined REMB_ID_def byte_def)
qed

lemma SendRembPacket_defined:
  assumes "unat b < 2 ^ 32" "24 \<le> length g"
  shows "\<exists>p. SendRembPacket g b = Some p"
proof -
  obtain m where "janus_rtcp_remb (Some g) 24 b = Some (24, Some m)" "length m = length g"
    using remb_defined [OF assms] by blast
  then show ?thesis using assms(2) by (simp add: SendRembPacket_def memcpy_def dataPacket_new_def DATA_SIZE_def)
qed

text \<open>One slow link on the downlink of a video stream: halve, but not below 64 kbit/s.\<close>

lemma slow_link_halves:
  assumes g: "24 \<le> length g" and s: "unat (remb_cap s) < 2 ^ 32"
  shows "\<exists>s'. VideoCallSlowLink g False True s = Some s' \<and>
    unat (remb_cap s') = max 65536 ((if remb_cap s = 0 then 524288 else unat (remb_cap s)) div 2)"
proof -
  define c where "c = (if remb_cap s > 0 then remb_cap s else 512 * 1024)"
  define b where "b = (if c div 2 < 64 * 1024 then 64 * 1024 else c div 2)"
  have c: "unat c = (if remb_cap s = 0 then 524288 else unat (remb_cap s))" "unat c < 2 ^ 32"
    using s by (auto simp: c_def word_gt_0)
  have u: "unat b = max 65536 (unat c div 2)"
    by (auto simp: b_def unat_div_distrib word_less_nat_alt)
  then have "unat b < 2 ^ 32" using c(2) by simp
  then obtain p where "SendRembPacket g b = Some p" using SendRembPacket_defined g by blast
  then have "VideoCallSlowLink g False True s = Some (s\<lparr>remb_cap := b\<rparr>)"
    unfolding VideoCallSlowLink_def b_def c_def by (simp add: Let_def)
  then show ?thesis using u c by auto
qed

fun slow_links :: "buffer \<Rightarrow> nat \<Rightarrow> remb_processor \<Rightarrow> remb_processor option" where
  "slow_links g 0 s = Some s"
| "slow_links g (Suc n) s = do { s \<leftarrow> VideoCallSlowLink g False True s; slow_links g n s }"

lemma slow_links_cap:
  assumes "24 \<le> length g" "0 < unat (remb_cap s)" "unat (remb_cap s) < 2 ^ 32"
  shows "\<exists>s'. slow_links g n s = Some s' \<and>
    unat (remb_cap s') = (if n = 0 then unat (remb_cap s) else max 65536 (unat (remb_cap s) div 2 ^ n))"
  using assms(2,3)
proof (induction n arbitrary: s)
  case (Suc n)
  obtain s1 where s1: "VideoCallSlowLink g False True s = Some s1"
    "unat (remb_cap s1) = max 65536 (unat (remb_cap s) div 2)"
    using slow_link_halves [OF assms(1) Suc.prems(2)] Suc.prems(1) by (auto simp: unat_gt_0)
  have s1_range: "0 < unat (remb_cap s1)" "unat (remb_cap s1) < 2 ^ 32"
    using Suc.prems(2) unfolding s1(2) by (simp_all add: less_max_iff_disj)
  obtain s' where s': "slow_links g n s1 = Some s'"
    "unat (remb_cap s') = (if n = 0 then unat (remb_cap s1) else max 65536 (unat (remb_cap s1) div 2 ^ n))"
    using Suc.IH [OF s1_range] by blast
  have "max 65536 (max 65536 (c div 2) div 2 ^ n) = max 65536 (c div 2 ^ Suc n)" for c :: nat
  proof (cases "c div 2 \<le> 65536")
    case True
    then have "c div 2 div 2 ^ n \<le> 65536" "65536 div 2 ^ n \<le> (65536 :: nat)"
      by (metis div_le_dividend le_trans, simp)
    then have "max 65536 (65536 div 2 ^ n) = (65536 :: nat)" by (intro max_absorb1)
    then show ?thesis using True \<open>c div 2 div 2 ^ n \<le> 65536\<close> by (simp add: div_mult2_eq max_absorb1)
  next
    case False
    then show ?thesis by (simp add: div_mult2_eq max_def)
  qed
  then show ?case using s1 s' by (cases "n = 0") simp_all
qed simp

text \<open>
  However often a slow link is reported, the handler returns and the cap stays at or above
  64 kbit/s; after sixteen reports any cap below 2^32 bit/s has come down to exactly 64 kbit/s.
\<close>

theorem slow_link_floor:
  assumes "24 \<le> length g" "0 < unat (remb_cap s)" "unat (remb_cap s) < 2 ^ 32" "0 < n"
  shows "\<exists>s'. slow_links g n s = Some s' \<and> 65536 \<le> unat (remb_cap s') \<and>
    unat (remb_cap s') = max 65536 (unat (remb_cap s) div 2 ^ n) \<and>
    (16 \<le> n \<longrightarrow> unat (remb_cap s') = 65536)"
proof -
  have "unat (remb_cap s) div 2 ^ n \<le> 65536" if "16 \<le> n"
  proof -
    have "unat (remb_cap s) div 2 ^ n \<le> unat (remb_cap s) div 2 ^ 16"
      using power_increasing [OF that, of "2 :: nat"] by (intro div_le_mono2) simp_all
    also have "\<dots> \<le> 65536" using assms(3) by simp
    finally show ?thesis .
  qed
  then show ?thesis using slow_links_cap [OF assms(1-3), of n] assms(4) by auto
qed

theorem slow_link_floor_witness:
  "\<exists>s'. slow_links (replicate 24 0) 20 (SetBitrate 2000000 (RembProcessor_new 0 0 0)) = Some s' \<and>
     unat (remb_cap s') = 65536"
  using slow_link_floor [of "replicate 24 0" "SetBitrate 2000000 (RembProcessor_new 0 0 0)" 20]
  by (auto simp: SetBitrate_def RembProcessor_new_def)

text \<open>A sequence of updates: the losses and the time of each call.\<close>

fun slow_link_updates :: "buffer \<Rightarrow> (u32 \<times> u64) list \<Rightarrow> remb_processor \<Rightarrow> remb_processor option" where
  "slow_link_updates g [] s = Some s"
| "slow_link_updates g ((nacks, now) # us) s = do { s \<leftarrow> SlowLinkUpdate g nacks True False now s; slow_link_updates g us s }"

text \<open>
  The window of recent losses does not work once the clock has passed 2^32 microseconds
  (71 minutes): the stored time stamp is cut to 32 bits, every call finds the window expired, and
  updates of fewer than eight losses each never add up to a slow link.
\<close>

theorem losses_never_add_up:
  assumes "\<forall>(nacks, now)\<in>set us. nacks < 8 \<and> now > 2 ^ 32 + 2 * USEC_PER_SEC"
  shows "\<exists>s'. slow_link_updates g us s = Some s' \<and> remb_cap s' = remb_cap s"
  using assms
proof (induction us arbitrary: s)
  case (Cons u us)
  obtain nacks now where u: "u = (nacks, now)" by (cases u)
  have late: "now - ucast (w :: u32) > 2 * USEC_PER_SEC" for w
  proof -
    have w: "unat (ucast w :: u64) < 2 ^ 32"
      using unsigned_less [of w, where ?'a = nat] by (simp add: unat_ucast_mod)
    have n: "unat now > 2 ^ 32 + 2000000"
      using Cons.prems by (simp add: u USEC_PER_SEC_def word_less_nat_alt)
    then have "unat (now - ucast w) = unat now - unat (ucast w :: u64)"
      using w by (intro unat_sub) (simp add: word_le_nat_alt)
    then show ?thesis using w n by (simp add: USEC_PER_SEC_def word_less_nat_alt)
  qed
  have "\<not> 8 \<le> nacks" using Cons.prems by (simp add: u not_le)
  then have "SlowLinkUpdate g nacks True False now s =
      Some (s\<lparr>nack_period_ts := ucast now, nack_recent_cnt := nacks\<rparr>)"
    by (simp add: SlowLinkUpdate_def late SLOW_LINK_NACKS_PER_SEC_def)
  then show ?case using Cons.IH [of "s\<lparr>nack_period_ts := ucast now, nack_recent_cnt := nacks\<rparr>"] Cons.prems
    by (simp add: u)
qed simp

theorem losses_never_add_up_witness:
  "\<exists>s'. slow_link_updates (replicate 24 0) (replicate 50 (7, 5000000000)) (RembProcessor_new 0 0 0) = Some s' \<and>
     remb_cap s' = 0"
  using losses_never_add_up [of "replicate 50 (7, 5000000000)" "replicate 24 0" "RembProcessor_new 0 0 0"]
  by (simp add: USEC_PER_SEC_def RembProcessor_new_def)

end
