(* ===== verification/Rtcp_Sender.thy ===== *)
theory Rtcp_Sender
  imports Nack_Processor Network_Status
begin

text \<open>
  \<open>src/orbit/rtp/rtcp_sender.{h,cc}\<close>: sender and receiver reports, BYE and SDES messages, and
  the history of sent reports from which round-trip times are computed.

  What is handed to \<open>TransportDelegate::RelayPacket\<close> is in the result, as \<open>RelayPacket\<close>
  effects.  Buffers on the stack are not initialised; their content is an argument
  \<open>garbage\<close>.  The transport is an argument: its source numbers and, per source, the counters
  that \<open>NetworkStatus\<close> keeps.  \<open>rnd\<close> rounds the \<open>double\<close> operations of
  \<open>webrtc::Clock::NtpToMs\<close>.
\<close>

definition SEND_RRSR_SLEEP_TIME :: int where "SEND_RRSR_SLEEP_TIME = 10000"
definition DEFAULT_RTCP_SR_INTERVAL :: u64 where "DEFAULT_RTCP_SR_INTERVAL = 500000"
definition DEFAULT_RTCP_RR_INTERVAL :: u64 where "DEFAULT_RTCP_RR_INTERVAL = 1"
definition G_USEC_PER_SEC :: u64 where "G_USEC_PER_SEC = 1000000"

text \<open>\<open>webrtc::RTCP_NUMBER_OF_SR\<close>\<close>

definition RTCP_NUMBER_OF_SR :: nat where "RTCP_NUMBER_OF_SR = 60"

definition NtpToMs :: "(real \<Rightarrow> real) \<Rightarrow> u32 \<Rightarrow> u32 \<Rightarrow> int" where
  "NtpToMs rnd secs fract =
     1000 * uint secs + \<lfloor>rnd (rnd (real (unat fract) / rnd 4294967.296) + 0.5)\<rfloor>"

record SrSendHistory =
  last_send_report :: "u32 list"
  last_rtcp_time :: "int list"

definition SrSendHistory_zero :: SrSendHistory where
  "SrSendHistory_zero =
     \<lparr>last_send_report = replicate (2 * RTCP_NUMBER_OF_SR) 0, last_rtcp_time = replicate (2 * RTCP_NUMBER_OF_SR) 0\<rparr>"

record rtcp_sender =
  audio_rtcp_last_rr :: int
  video_rtcp_last_rr :: int
  audio_rtcp_last_sr :: int
  video_rtcp_last_sr :: int
  sender_audio_jitter :: u32
  sender_video_jitter :: u32
  remote_audio_ssrc :: u32
  remote_video_ssrc :: u32
  sr_send_histories :: "(u32, SrSendHistory) std_map"

definition RtcpSender_new :: rtcp_sender where
  "RtcpSender_new =
     \<lparr>audio_rtcp_last_rr = 0, video_rtcp_last_rr = 0, audio_rtcp_last_sr = 0, video_rtcp_last_sr = 0,
      sender_audio_jitter = 0, sender_video_jitter = 0, remote_audio_ssrc = 0, remote_video_ssrc = 0,
      sr_send_histories = []\<rparr>"

definition sender_SetRemoteSdp :: "u32 \<Rightarrow> u32 \<Rightarrow> rtcp_sender \<Rightarrow> rtcp_sender" where
  "sender_SetRemoteSdp audio video s = s\<lparr>remote_audio_ssrc := audio, remote_video_ssrc := video\<rparr>"

text \<open>The argument of \<open>InitSrSendHistories\<close> is not used: the sources come from the transport.\<close>

record transport =
  AUDIO_SSRC :: u32
  VIDEO_SSRC :: u32
  extended_video_ssrcs :: "u32 list"

definition InitSrSendHistories :: "transport \<Rightarrow> rtcp_sender \<Rightarrow> rtcp_sender" where
  "InitSrSendHistories t s =
     s\<lparr>sr_send_histories :=
         sm_set (<) (AUDIO_SSRC t) SrSendHistory_zero
           (sm_set (<) (VIDEO_SSRC t) SrSendHistory_zero
             (fold (\<lambda>k. sm_set (<) k SrSendHistory_zero) (extended_video_ssrcs t) (sr_send_histories s)))\<rparr>"

definition sender_Init :: "int \<Rightarrow> rtcp_sender \<Rightarrow> rtcp_sender" where
  "sender_Init before s =
     s\<lparr>audio_rtcp_last_rr := before, audio_rtcp_last_sr := before,
       video_rtcp_last_rr := before, video_rtcp_last_sr := before\<rparr>"

section \<open>Messages\<close>

definition RelayRtcpPacket :: "packetType \<Rightarrow> buffer \<Rightarrow> int \<Rightarrow> nack_effect list option" where
  "RelayRtcpPacket media_type b len = do { p \<leftarrow> packet_of media_type b len; Some [RelayPacket p] }"

definition SendBYE :: "nack_effect list option" where
  "SendBYE = do {
     (len, b) \<leftarrow> janus_rtcp_bye (Some (replicate 20 0)) 12;
     b \<leftarrow> b;
     RelayRtcpPacket VIDEO_PACKET b len }"

text \<open>The two names, \<open>orbitvideo\<close> and \<open>orbitaudio\<close>, with their terminating zero.\<close>

definition orbitvideo :: buffer where
  "orbitvideo = [0x6F, 0x72, 0x62, 0x69, 0x74, 0x76, 0x69, 0x64, 0x65, 0x6F, 0]"

definition orbitaudio :: buffer where
  "orbitaudio = [0x6F, 0x72, 0x62, 0x69, 0x74, 0x61, 0x75, 0x64, 0x69, 0x6F, 0]"

definition SendSDES :: "packetType \<Rightarrow> nack_effect list option" where
  "SendSDES media_type = (let len = 20; b = replicate 20 0 in do {
     (_, b) \<leftarrow> (if media_type = VIDEO_PACKET then janus_rtcp_sdes (Some b) len (Some orbitvideo) 10
               else if media_type = AUDIO_PACKET then janus_rtcp_sdes (Some b) len (Some orbitaudio) 10
               else Some (0, Some b));
     b \<leftarrow> b;
     RelayRtcpPacket VIDEO_PACKET b len })"

definition SendRtpFeedback :: "packetType \<Rightarrow> buffer \<Rightarrow> int \<Rightarrow> nack_effect list option" where
  "SendRtpFeedback media_type rtcp_buf len = RelayRtcpPacket media_type rtcp_buf len"

definition sender_SendRTCP :: "u8 \<Rightarrow> packetType \<Rightarrow> buffer \<Rightarrow> int \<Rightarrow> nack_effect list option" where
  "sender_SendRTCP rtcp_type media_type rtcp_buf len =
     (if rtcp_type = RTCP_BYE then SendBYE
      else if rtcp_type = RTCP_SDES then SendSDES media_type
      else if rtcp_type = RTCP_RTP_Feedback_PT then SendRtpFeedback media_type rtcp_buf len
      else Some [])"

text \<open>
  The common header without its padding bit, which the code leaves as it finds it, and the
  sender information; then the source is filled in.
\<close>

definition ConstructAndRelaySrPacket ::
    "buffer \<Rightarrow> (nat \<Rightarrow> int) \<Rightarrow> packetType \<Rightarrow> u32 \<Rightarrow> u32 \<Rightarrow> u32 \<Rightarrow> u32 \<Rightarrow> u32 \<Rightarrow> u32 \<Rightarrow> u32 \<Rightarrow> nack_effect list option" where
  "ConstructAndRelaySrPacket garbage clk packet_type packets bytes ts local_ssrc remote_ssrc ntp_sec ntp_frac =
     do {
       m \<leftarrow> put_header garbage RTCP_SR 0;
       m \<leftarrow> wrn16 m 2 6;
       m \<leftarrow> wrn32 m 8 ntp_sec;
       m \<leftarrow> wrn32 m 12 ntp_frac;
       m \<leftarrow> wrn32 m 16 ts;
       m \<leftarrow> wrn32 m 20 packets;
       m \<leftarrow> wrn32 m 24 bytes;
       (_, b, _) \<leftarrow> janus_rtcp_fix_ssrc clk None (Some m) 28 True local_ssrc remote_ssrc;
       b \<leftarrow> b;
       RelayRtcpPacket packet_type b 28 }"

section \<open>History of sent reports\<close>

text \<open>\<open>for (i = n - 1; i >= 0; i--) a[i + 1] = a[i]\<close>\<close>

fun shift_up :: "nat \<Rightarrow> 'a list \<Rightarrow> 'a list option" where
  "shift_up 0 a = Some a"
| "shift_up (Suc i) a = (if i + 1 < length a then shift_up i (a[i + 1 := a ! i]) else None)"

definition push_history :: "(real \<Rightarrow> real) \<Rightarrow> u32 \<Rightarrow> u32 \<Rightarrow> SrSendHistory \<Rightarrow> SrSendHistory option" where
  "push_history rnd ntp_sec ntp_frac h = do {
     a \<leftarrow> shift_up (RTCP_NUMBER_OF_SR * 2 - 1) (last_send_report h);
     b \<leftarrow> shift_up (RTCP_NUMBER_OF_SR * 2 - 1) (last_rtcp_time h);
     Some \<lparr>last_send_report = a[0 := push_bit 16 ntp_sec + drop_bit 16 ntp_frac],
           last_rtcp_time = b[0 := NtpToMs rnd ntp_sec ntp_frac]\<rparr> }"

definition UpdateLastSendReportAndRtcpTime ::
    "(real \<Rightarrow> real) \<Rightarrow> u32 \<Rightarrow> u32 \<Rightarrow> u32 \<Rightarrow> rtcp_sender \<Rightarrow> rtcp_sender option" where
  "UpdateLastSendReportAndRtcpTime rnd ntp_sec ntp_frac local_ssrc s =
     (case sm_find (<) local_ssrc (sr_send_histories s) of
        None \<Rightarrow> Some s
      | Some h \<Rightarrow> do {
          h \<leftarrow> push_history rnd ntp_sec ntp_frac h;
          Some (s\<lparr>sr_send_histories := sm_set (<) local_ssrc h (sr_send_histories s)\<rparr>) })"

definition GetSendTimeOfSendReport :: "u32 \<Rightarrow> u32 \<Rightarrow> rtcp_sender \<Rightarrow> int" where
  "GetSendTimeOfSendReport sendReport ssrc s =
     (case sm_find (<) ssrc (sr_send_histories s) of
        None \<Rightarrow> 0
      | Some h \<Rightarrow>
          if last_send_report h ! 0 = 0 \<or> sendReport = 0 then 0
          else case find (\<lambda>i. last_send_report h ! i = sendReport) [0..<RTCP_NUMBER_OF_SR] of
                 Some i \<Rightarrow> last_rtcp_time h ! i
               | None \<Rightarrow> 0)"

section \<open>Periodic reports\<close>

text \<open>
  One sender report for \<open>ssrc\<close> when something was sent; \<open>garbage\<close> is the stack buffer, \<open>ntp\<close>
  the reading of the NTP clock and \<open>clk\<close> of the monotonic clock.
\<close>

definition send_report_for ::
    "(real \<Rightarrow> real) \<Rightarrow> buffer \<Rightarrow> (nat \<Rightarrow> int) \<Rightarrow> u32 \<times> u32 \<Rightarrow> packetType \<Rightarrow> int \<Rightarrow> int \<Rightarrow> u32 \<Rightarrow> u32 \<Rightarrow> u32
     \<Rightarrow> rtcp_sender \<Rightarrow> (rtcp_sender \<times> nack_effect list) option" where
  "send_report_for rnd garbage clk ntp ty packets bytes ts ssrc remote_ssrc s =
     (if packets > 0 then do {
        es \<leftarrow> ConstructAndRelaySrPacket garbage clk ty (word_of_int packets) (word_of_int bytes) ts
               ssrc remote_ssrc (fst ntp) (snd ntp);
        s \<leftarrow> UpdateLastSendReportAndRtcpTime rnd (fst ntp) (snd ntp) ssrc s;
        Some (s, es) }
      else Some (s, []))"

text \<open>\<open>now - rtcp_last\<close> is a difference of \<open>unsigned long\<close> values.\<close>

definition elapsed :: "int \<Rightarrow> int \<Rightarrow> u64" where
  "elapsed now before = word_of_int now - word_of_int before"

definition send_audio_sr ::
    "(real \<Rightarrow> real) \<Rightarrow> buffer \<Rightarrow> (nat \<Rightarrow> int) \<Rightarrow> u32 \<times> u32 \<Rightarrow> int \<Rightarrow> transport \<Rightarrow> NetworkStatus \<Rightarrow> rtcp_sender
     \<Rightarrow> (rtcp_sender \<times> nack_effect list) option" where
  "send_audio_sr rnd garbage clk ntp now t ns s =
     (let local_ssrc = AUDIO_SSRC t in
      if elapsed now (audio_rtcp_last_sr s) \<ge> DEFAULT_RTCP_SR_INTERVAL then do {
        (s, es) \<leftarrow> send_report_for rnd garbage clk ntp AUDIO_PACKET (GetSendPackets local_ssrc ns)
                    (GetSendBytes local_ssrc ns) (GetLastTs local_ssrc ns) local_ssrc (remote_audio_ssrc s) s;
        Some (s\<lparr>audio_rtcp_last_sr := now\<rparr>, es) }
      else Some (s, []))"

text \<open>The loop over the extended sources; the i-th turn reads \<open>ntps i\<close>.\<close>

fun send_video_srs ::
    "(real \<Rightarrow> real) \<Rightarrow> buffer \<Rightarrow> (nat \<Rightarrow> int) \<Rightarrow> (nat \<Rightarrow> u32 \<times> u32) \<Rightarrow> nat \<Rightarrow> u32 list \<Rightarrow> NetworkStatus \<Rightarrow> rtcp_sender
     \<Rightarrow> (rtcp_sender \<times> nack_effect list) option" where
  "send_video_srs rnd garbage clk ntps i [] ns s = Some (s, [])"
| "send_video_srs rnd garbage clk ntps i (k # ks) ns s = do {
     (s, es) \<leftarrow> send_report_for rnd garbage clk (ntps i) VIDEO_PACKET (GetSendPackets k ns)
                 (GetSendBytes k ns) (GetLastTs k ns) k (remote_video_ssrc s) s;
     (s, es') \<leftarrow> send_video_srs rnd garbage clk ntps (i + 1) ks ns s;
     Some (s, es @ es') }"

definition send_video_sr ::
    "(real \<Rightarrow> real) \<Rightarrow> buffer \<Rightarrow> (nat \<Rightarrow> int) \<Rightarrow> (nat \<Rightarrow> u32 \<times> u32) \<Rightarrow> int \<Rightarrow> transport \<Rightarrow> NetworkStatus \<Rightarrow> rtcp_sender
     \<Rightarrow> (rtcp_sender \<times> nack_effect list) option" where
  "send_video_sr rnd garbage clk ntps now t ns s =
     (if elapsed now (video_rtcp_last_sr s) < DEFAULT_RTCP_SR_INTERVAL then Some (s, [])
      else do {
        (s, es) \<leftarrow> send_video_srs rnd garbage clk ntps 0
                    (if extended_video_ssrcs t \<noteq> [] then extended_video_ssrcs t else [VIDEO_SSRC t]) ns s;
        Some (s\<lparr>video_rtcp_last_sr := now\<rparr>, es) })"

datatype ReportPacketType = AUDIO_SR | VIDEO_SR | AUDIO_RR | VIDEO_RR

definition SendSrPacketInternal ::
    "(real \<Rightarrow> real) \<Rightarrow> buffer \<Rightarrow> (nat \<Rightarrow> int) \<Rightarrow> (nat \<Rightarrow> u32 \<times> u32) \<Rightarrow> int \<Rightarrow> ReportPacketType \<Rightarrow> transport \<Rightarrow> NetworkStatus
     \<Rightarrow> rtcp_sender \<Rightarrow> (rtcp_sender \<times> nack_effect list) option" where
  "SendSrPacketInternal rnd garbage clk ntps now type t ns s =
     (case type of
        AUDIO_SR \<Rightarrow> send_audio_sr rnd garbage clk (ntps 0) now t ns s
      | VIDEO_SR \<Rightarrow> send_video_sr rnd garbage clk ntps now t ns s
      | _ \<Rightarrow> Some (s, []))"

text \<open>
  A receiver report with one block; the source fields are left as the stack buffer has them.
  The context is shared with the receiver and comes back updated.
\<close>

definition send_rr ::
    "buffer \<Rightarrow> (nat \<Rightarrow> int) \<Rightarrow> packetType \<Rightarrow> rtcp_context \<Rightarrow> (u32 \<times> rtcp_context \<times> nack_effect list) option" where
  "send_rr garbage clk ty ctx = do {
     m \<leftarrow> put_header garbage RTCP_RR 1;
     m \<leftarrow> wrn16 m 2 7;
     (_, ctx, m) \<leftarrow> janus_rtcp_report_block (clk 0) (clk 1) (Some ctx) m 8;
     ctx \<leftarrow> ctx;
     es \<leftarrow> RelayRtcpPacket ty m 32;
     j \<leftarrow> getJitter m;
     Some (j, ctx, es) }"

definition SendRrPacketInternal ::
    "buffer \<Rightarrow> (nat \<Rightarrow> int) \<Rightarrow> int \<Rightarrow> ReportPacketType \<Rightarrow> rtcp_context option \<Rightarrow> rtcp_sender
     \<Rightarrow> (bool \<times> rtcp_context option \<times> rtcp_sender \<times> nack_effect list) option" where
  "SendRrPacketInternal garbage clk now type ctx s =
     (case type of
        AUDIO_RR \<Rightarrow>
          if elapsed now (audio_rtcp_last_rr s) \<ge> DEFAULT_RTCP_RR_INTERVAL * G_USEC_PER_SEC then
            (case ctx of
               None \<Rightarrow> Some (False, ctx, s\<lparr>audio_rtcp_last_rr := now\<rparr>, [])
             | Some c \<Rightarrow> do {
                 (j, c, es) \<leftarrow> send_rr garbage clk AUDIO_PACKET c;
                 Some (True, Some c, s\<lparr>sender_audio_jitter := j, audio_rtcp_last_rr := now\<rparr>, es) })
          else Some (False, ctx, s, [])
      | VIDEO_RR \<Rightarrow>
          if elapsed now (video_rtcp_last_rr s) \<ge> DEFAULT_RTCP_RR_INTERVAL * G_USEC_PER_SEC then
            (case ctx of
               None \<Rightarrow> Some (False, ctx, s\<lparr>video_rtcp_last_rr := now\<rparr>, [])
             | Some c \<Rightarrow> do {
                 (j, c, es) \<leftarrow> send_rr garbage clk VIDEO_PACKET c;
                 Some (True, Some c, s\<lparr>sender_video_jitter := j, video_rtcp_last_rr := now\<rparr>, es) })
          else Some (False, ctx, s, [])
      | _ \<Rightarrow> Some (False, ctx, s, []))"

text \<open>
  One turn of the thread.  \<open>env\<close> holds what it reads from outside: the two stack buffers, the
  monotonic clock at its four checks and inside of the report writers, the NTP clock.
\<close>

record turn_env =
  rr_garbage :: buffer
  sr_garbage :: buffer
  now_audio_rr :: int
  now_video_rr :: int
  now_audio_sr :: int
  now_video_sr :: int
  audio_clk :: "nat \<Rightarrow> int"
  video_clk :: "nat \<Rightarrow> int"
  audio_ntp :: "u32 \<times> u32"
  video_ntps :: "nat \<Rightarrow> u32 \<times> u32"

record report_state =
  rs_sender :: rtcp_sender
  rs_audio_ctx :: "rtcp_context option"
  rs_video_ctx :: "rtcp_context option"
  rs_status :: NetworkStatus

definition rrsr_turn ::
    "(real \<Rightarrow> real) \<Rightarrow> transport \<Rightarrow> turn_env \<Rightarrow> report_state \<Rightarrow> (report_state \<times> nack_effect list) option" where
  "rrsr_turn rnd t env r = do {
     (sent, actx, s, es1) \<leftarrow>
       SendRrPacketInternal (rr_garbage env) (audio_clk env) (now_audio_rr env) AUDIO_RR (rs_audio_ctx r) (rs_sender r);
     let ns = (if sent then UpdateJitters SERVER_REPORT False (sender_audio_jitter s) 0 (rs_status r) else rs_status r) in do {
     (sent, vctx, s, es2) \<leftarrow>
       SendRrPacketInternal (rr_garbage env) (video_clk env) (now_video_rr env) VIDEO_RR (rs_video_ctx r) s;
     let ns = (if sent then UpdateJitters SERVER_REPORT True (sender_video_jitter s) 0 ns else ns) in do {
     (s, es3) \<leftarrow>
       SendSrPacketInternal rnd (sr_garbage env) (audio_clk env) (\<lambda>_. audio_ntp env) (now_audio_sr env) AUDIO_SR t ns s;
     (s, es4) \<leftarrow>
       SendSrPacketInternal rnd (sr_garbage env) (video_clk env) (video_ntps env) (now_video_sr env) VIDEO_SR t ns s;
     Some (\<lparr>rs_sender = s, rs_audio_ctx = actx, rs_video_ctx = vctx, rs_status = ns\<rparr>, es1 @ es2 @ es3 @ es4) } } }"

text \<open>The loop, for the turns in which \<open>isRunning\<close> holds.\<close>

fun SendRrSrPacketLoop ::
    "(real \<Rightarrow> real) \<Rightarrow> transport \<Rightarrow> turn_env list \<Rightarrow> report_state \<Rightarrow> (report_state \<times> nack_effect list) option" where
  "SendRrSrPacketLoop rnd t [] r = Some (r, [])"
| "SendRrSrPacketLoop rnd t (env # envs) r = do {
     (r, es) \<leftarrow> rrsr_turn rnd t env r;
     (r, es') \<leftarrow> SendRrSrPacketLoop rnd t envs r;
     Some (r, es @ es') }"

section \<open>The history is a bounded list of the latest reports\<close>

lemma shift_up_spec:
  "n < length a \<Longrightarrow> shift_up n a = Some (take 1 a @ take n a @ drop (Suc n) a)"
proof (induction n arbitrary: a)
  case 0
  then show ?case by (cases a) simp_all
next
  case (Suc n)
  then have "shift_up (Suc n) a = Some (take 1 (a[Suc n := a ! n]) @ take n (a[Suc n := a ! n]) @ drop (Suc n) (a[Suc n := a ! n]))"
    by simp
  also have "\<dots> = Some (take 1 a @ take (Suc n) a @ drop (Suc (Suc n)) a)"
    using Suc.prems by (simp add: take_Suc_conv_app_nth take_Suc_Cons flip: Cons_nth_drop_Suc)
  finally show ?case .
qed

lemma shift_up_push:
  assumes "0 < length a"
  shows "shift_up (length a - 1) a = Some (take 1 a @ butlast a)" "(take 1 a @ butlast a)[0 := x] = x # butlast a"
proof -
  show "shift_up (length a - 1) a = Some (take 1 a @ butlast a)"
    using assms by (subst shift_up_spec) (simp_all add: butlast_conv_take)
  show "(take 1 a @ butlast a)[0 := x] = x # butlast a"
    using assms by (cases a) simp_all
qed

text \<open>The time and the identifier of a report, as the code computes them.\<close>

definition report_id :: "u32 \<times> u32 \<Rightarrow> u32" where
  "report_id ntp = push_bit 16 (fst ntp) + drop_bit 16 (snd ntp)"

definition report_time :: "(real \<Rightarrow> real) \<Rightarrow> u32 \<times> u32 \<Rightarrow> int" where
  "report_time rnd ntp = NtpToMs rnd (fst ntp) (snd ntp)"

text \<open>
  Abstractly a history is the list of reports sent, newest first: the arrays hold its first 120
  entries, padded with zeros.
\<close>

definition history_of :: "(real \<Rightarrow> real) \<Rightarrow> (u32 \<times> u32) list \<Rightarrow> SrSendHistory" where
  "history_of rnd ns =
     \<lparr>last_send_report = take 120 (map report_id ns @ replicate 120 0),
      last_rtcp_time = take 120 (map (report_time rnd) ns @ replicate 120 0)\<rparr>"

lemma push_take:
  "x # butlast (take (Suc n) (xs @ replicate (Suc n) z)) = take (Suc n) ((x # xs) @ replicate (Suc n) z)"
proof -
  have "butlast (take (Suc n) (xs @ replicate (Suc n) z)) = take n (xs @ replicate (Suc n) z)"
    by (subst butlast_take) (simp_all del: take_append)
  then show ?thesis by simp
qed

lemma push_history_refines:
  "push_history rnd (fst ntp) (snd ntp) (history_of rnd ns) = Some (history_of rnd (ntp # ns))"
proof -
  have push: "\<exists>b. shift_up 119 (take 120 (xs @ replicate 120 z)) = Some b \<and>
      b[0 := x] = take 120 ((x # xs) @ replicate 120 z)" for x z :: 'a and xs
  proof -
    define a where "a = take 120 (xs @ replicate 120 z)"
    have l: "length a = 120" by (simp add: a_def)
    have "(take 1 a @ butlast a)[0 := x] = x # butlast a" using l by (intro shift_up_push) simp
    also have "\<dots> = take 120 ((x # xs) @ replicate 120 z)"
      using push_take [of x 119 xs z] by (simp add: a_def del: take_append)
    finally show ?thesis using shift_up_push(1) [of a] l by (simp add: a_def)
  qed
  show ?thesis
    using push [of "map report_id ns" 0 "report_id ntp"] push [of "map (report_time rnd) ns" 0 "report_time rnd ntp"]
    unfolding push_history_def RTCP_NUMBER_OF_SR_def history_of_def
    by (auto simp: report_id_def report_time_def simp del: take_append)
qed

fun send_reports :: "(real \<Rightarrow> real) \<Rightarrow> u32 \<Rightarrow> (u32 \<times> u32) list \<Rightarrow> rtcp_sender \<Rightarrow> rtcp_sender option" where
  "send_reports rnd ssrc [] s = Some s"
| "send_reports rnd ssrc (ntp # ns) s = do {
     s \<leftarrow> UpdateLastSendReportAndRtcpTime rnd (fst ntp) (snd ntp) ssrc s;
     send_reports rnd ssrc ns s }"

lemma send_reports_history:
  assumes "sm_sorted (<) (sr_send_histories s)" "sm_find (<) ssrc (sr_send_histories s) = Some (history_of rnd old)"
  shows "\<exists>s'. send_reports rnd ssrc ns s = Some s' \<and>
    sm_find (<) ssrc (sr_send_histories s') = Some (history_of rnd (rev ns @ old))"
  using assms
proof (induction ns arbitrary: s old)
  case (Cons ntp ns)
  define s1 where "s1 = s\<lparr>sr_send_histories := sm_set (<) ssrc (history_of rnd (ntp # old)) (sr_send_histories s)\<rparr>"
  have "UpdateLastSendReportAndRtcpTime rnd (fst ntp) (snd ntp) ssrc s = Some s1"
    by (simp add: UpdateLastSendReportAndRtcpTime_def Cons.prems(2) push_history_refines s1_def)
  moreover have "sm_sorted (<) (sr_send_histories s1)"
      "sm_find (<) ssrc (sr_send_histories s1) = Some (history_of rnd (ntp # old))"
    using Cons.prems(1) by (simp_all add: s1_def um.sorted_set um.find_set)
  ultimately show ?case using Cons.IH [of s1 "ntp # old"] by simp
qed simp

lemma find_nth_map:
  assumes "length xs = length ys"
  shows "(case find (\<lambda>i. xs ! i = x) [0..<length xs] of Some i \<Rightarrow> ys ! i | None \<Rightarrow> d) =
    (case map_of (zip xs ys) x of Some y \<Rightarrow> y | None \<Rightarrow> d)"
  using assms
proof (induction xs ys rule: list_induct2)
  case (Cons a xs b ys)
  have upt: "[0..<length (a # xs)] = 0 # map Suc [0..<length xs]"
    by (simp add: map_Suc_upt upt_conv_Cons del: upt_Suc)
  have fm: "find P (map Suc l) = map_option Suc (find (\<lambda>i. P (Suc i)) l)" for P and l :: "nat list"
    by (induction l) simp_all
  have "find (\<lambda>i. (a # xs) ! i = x) [0..<length (a # xs)] =
      (if a = x then Some 0 else map_option Suc (find (\<lambda>i. xs ! i = x) [0..<length xs]))"
    unfolding upt find.simps fm by simp
  then show ?case
    using Cons.IH by (cases "find (\<lambda>i. xs ! i = x) [0..<length xs]") (simp_all del: upt_Suc)
qed simp

lemma zip_maps: "zip (map f xs) (map g xs) = map (\<lambda>x. (f x, g x)) xs"
  by (induction xs) simp_all

text \<open>Padding entries carry time 0, so that finding one is the same as finding nothing.\<close>

lemma lookup_padded:
  assumes "length xs = length ys" "n \<le> length xs + k" "x \<noteq> z"
  shows "(case map_of (zip (take n (xs @ replicate k z)) (take n (ys @ replicate k d))) x of Some y \<Rightarrow> y | None \<Rightarrow> d) =
    (case map_of (zip (take n xs) (take n ys)) x of Some y \<Rightarrow> y | None \<Rightarrow> d)"
proof -
  have "map_of (zip (replicate j z) (replicate j d)) x = None" for j
    using assms(3) by (auto simp: map_of_eq_None_iff dest!: set_zip_leftD)
  moreover have "take n (xs @ replicate k z) = take n xs @ replicate (min (n - length xs) k) z"
    "take n (ys @ replicate k d) = take n ys @ replicate (min (n - length xs) k) d"
    using assms(1) by simp_all
  moreover have "(map_of B ++ map_of A) x = map_of A x" if "map_of B x = None" for A B :: "('a \<times> 'b) list"
    using that by (cases "map_of A x") (simp_all add: map_add_def)
  ultimately have "map_of (zip (take n (xs @ replicate k z)) (take n (ys @ replicate k d))) x =
      map_of (zip (take n xs) (take n ys)) x"
    using assms(1) by (simp only: zip_append length_take map_of_append)
  then show ?thesis by simp
qed

lemma history_lookup:
  assumes "sm_sorted (<) (sr_send_histories s)" "sm_find (<) ssrc (sr_send_histories s) = Some SrSendHistory_zero"
    and "ns \<noteq> []" "report_id (last ns) \<noteq> 0" "i \<noteq> 0"
  shows "\<exists>s'. send_reports rnd ssrc ns s = Some s' \<and> GetSendTimeOfSendReport i ssrc s' =
    (case map_of (map (\<lambda>n. (report_id n, report_time rnd n)) (take 60 (rev ns))) i of Some t \<Rightarrow> t | None \<Rightarrow> 0)"
proof -
  have "SrSendHistory_zero = history_of rnd []"
    by (simp add: SrSendHistory_zero_def history_of_def RTCP_NUMBER_OF_SR_def)
  then obtain s' where s': "send_reports rnd ssrc ns s = Some s'"
      "sm_find (<) ssrc (sr_send_histories s') = Some (history_of rnd (rev ns))"
    using send_reports_history [of s ssrc rnd "[]" ns] assms(1,2) by auto
  define h where "h = history_of rnd (rev ns)"
  have hd: "last_send_report h ! 0 = report_id (last ns)"
    using assms(3) by (simp add: h_def history_of_def nth_append rev_nth last_conv_nth)
  have t: "take 60 (last_send_report h) = take 60 (map report_id (rev ns) @ replicate 120 0)"
    "take 60 (last_rtcp_time h) = take 60 (map (report_time rnd) (rev ns) @ replicate 120 0)"
    by (simp_all add: h_def history_of_def min_def del: take_append)
  have l: "60 \<le> length (last_send_report h)" "60 \<le> length (last_rtcp_time h)"
    by (simp_all add: h_def history_of_def)
  have cong: "find (\<lambda>i. f i = x) [0..<60] = find (\<lambda>i. g i = x) [0..<60]" if "\<forall>i<60. f i = g i" for f g :: "nat \<Rightarrow> u32" and x
    using that by (intro find_cong) auto
  have "GetSendTimeOfSendReport i ssrc s' =
      (case find (\<lambda>j. last_send_report h ! j = i) [0..<60] of Some j \<Rightarrow> last_rtcp_time h ! j | None \<Rightarrow> 0)"
    using assms(4,5) s'(2) hd by (simp add: GetSendTimeOfSendReport_def RTCP_NUMBER_OF_SR_def h_def [symmetric])
  also have "\<dots> = (case find (\<lambda>j. take 60 (last_send_report h) ! j = i) [0..<60] of
      Some j \<Rightarrow> take 60 (last_rtcp_time h) ! j | None \<Rightarrow> 0)"
  proof -
    have "find (\<lambda>j. last_send_report h ! j = i) [0..<60] = find (\<lambda>j. take 60 (last_send_report h) ! j = i) [0..<60]"
      by (rule cong) simp
    moreover have "j < 60" if "find (\<lambda>j. take 60 (last_send_report h) ! j = i) [0..<60] = Some j" for j
      using that by (auto simp: find_Some_iff)
    ultimately show ?thesis by (simp split: option.split)
  qed
  also have "\<dots> = (case map_of (zip (take 60 (last_send_report h)) (take 60 (last_rtcp_time h))) i of Some y \<Rightarrow> y | None \<Rightarrow> 0)"
    using find_nth_map [of "take 60 (last_send_report h)" "take 60 (last_rtcp_time h)" 0 i] l by (simp add: min_absorb2)
  also have "\<dots> = (case map_of (zip (take 60 (map report_id (rev ns))) (take 60 (map (report_time rnd) (rev ns)))) i of
      Some y \<Rightarrow> y | None \<Rightarrow> 0)"
    unfolding t using assms(5) by (intro lookup_padded) simp_all
  finally show ?thesis using s'(1) by (simp add: take_map zip_maps)
qed

text \<open>
  The history of sender reports.  After reports at the NTP times \<open>ns\<close> were sent for a
  source, \<open>GetSendTimeOfSendReport\<close> returns for an identifier the time of the latest report
  among the last 60 that carries it, and 0 when none of those does.
\<close>

theorem sr_history_lookup:
  assumes "sm_sorted (<) (sr_send_histories s)" "sm_find (<) ssrc (sr_send_histories s) = Some SrSendHistory_zero"
    and "ns \<noteq> []" "report_id (last ns) \<noteq> 0" "i \<noteq> 0"
  shows "\<exists>s'. send_reports rnd ssrc ns s = Some s' \<and> GetSendTimeOfSendReport i ssrc s' =
    (case map_of (map (\<lambda>n. (report_id n, report_time rnd n)) (take 60 (rev ns))) i of Some t \<Rightarrow> t | None \<Rightarrow> 0)"
  using assms by (rule history_lookup)

definition demo_sender :: rtcp_sender where
  "demo_sender = InitSrSendHistories \<lparr>AUDIO_SSRC = 44444, VIDEO_SSRC = 55543, extended_video_ssrcs = []\<rparr> RtcpSender_new"

theorem sr_history_lookup_witness:
  "\<exists>s'. send_reports (\<lambda>x. x) 55543 [(100, 0), (101, 0x80000000)] demo_sender = Some s' \<and>
     GetSendTimeOfSendReport (push_bit 16 100) 55543 s' = 100000"
proof -
  have "sm_sorted (<) (sr_send_histories demo_sender)" "sm_find (<) 55543 (sr_send_histories demo_sender) = Some SrSendHistory_zero"
    by (simp_all add: demo_sender_def InitSrSendHistories_def RtcpSender_new_def sm_sorted_def)
  moreover have "report_id (101, 0x80000000) \<noteq> 0" "push_bit 16 100 \<noteq> (0 :: u32)" by code_simp+
  ultimately show ?thesis
    using sr_history_lookup [of demo_sender 55543 "[(100, 0), (101, 0x80000000)]" "push_bit 16 100" "\<lambda>x. x"]
    by (simp add: report_id_def report_time_def NtpToMs_def)
qed

section \<open>Sender reports on the wire\<close>

text \<open>
  Whatever the uninitialised buffer held, the packet that \<open>ConstructAndRelaySrPacket\<close> relays for
  a source other than 0 is 28 bytes long, and the accessors of \<open>RtcpHeader\<close> read back what was
  put in.
\<close>

lemma sender_report_fields:
  assumes g: "length garbage = 28" and l: "local_ssrc \<noteq> 0"
  shows "\<exists>p. ConstructAndRelaySrPacket garbage clk ty packets bytes ts local_ssrc remote_ssrc ntp_sec ntp_frac =
      Some [RelayPacket p] \<and> pkt_length p = 28 \<and> dataPacket.pkt_type p = ty \<and>
    hdr_version (data p) 0 = Some 2 \<and> getPacketType (data p) = Some 200 \<and> getBlockCount (data p) = Some 0 \<and>
    rtcp_getLength (data p) = Some 6 \<and> rtcp_getSSRC (data p) = Some local_ssrc \<and>
    rdn32 (data p) 8 = Some ntp_sec \<and> rdn32 (data p) 12 = Some ntp_frac \<and> rdn32 (data p) 16 = Some ts \<and>
    getPacketsSent (data p) = Some packets \<and> getOctetsSent (data p) = Some bytes \<and> length (data p) = 1500"
proof -
  define m where "m = garbage[0 := set_bits 0 5 0 (set_bits 6 2 2 (garbage ! 0)), 1 := RTCP_SR, 2 := 0, 3 := 6,
    8 := byte 3 ntp_sec, 9 := byte 2 ntp_sec, 10 := byte 1 ntp_sec, 11 := byte 0 ntp_sec,
    12 := byte 3 ntp_frac, 13 := byte 2 ntp_frac, 14 := byte 1 ntp_frac, 15 := byte 0 ntp_frac,
    16 := byte 3 ts, 17 := byte 2 ts, 18 := byte 1 ts, 19 := byte 0 ts,
    20 := byte 3 packets, 21 := byte 2 packets, 22 := byte 1 packets, 23 := byte 0 packets,
    24 := byte 3 bytes, 25 := byte 2 bytes, 26 := byte 1 bytes, 27 := byte 0 bytes]"
  define m' where "m' = m[4 := byte 3 local_ssrc, 5 := byte 2 local_ssrc, 6 := byte 1 local_ssrc, 7 := byte 0 local_ssrc]"
  have len: "length m = 28" "length m' = 28" by (simp_all add: m_def m'_def g)
  then have ne: "m \<noteq> []" "m' \<noteq> []" "garbage \<noteq> []" using g by auto
  have hdr: "m ! 0 = set_bits 0 5 0 (set_bits 6 2 2 (garbage ! 0))" "m ! 1 = RTCP_SR" "m ! 2 = 0" "m ! 3 = 6"
    using ne g by (simp_all add: m_def)
  have same: "m' ! k = m ! k" if "k < 4 \<or> 8 \<le> k" for k
    using that by (auto simp: m'_def)
  have body: "fix_ssrc_body True local_ssrc remote_ssrc clk 0 1 (m, None) = Some (Inr (m', None))"
    using len ne hdr l
    by (simp add: fix_ssrc_body_def fix_sr_def janus_rtcp_incoming_sr_def hdr_type_def hdr_rc_def put_if_def
        wr_defined m'_def RTCP_SR_def header_bits)
  have hl: "hdr_length m' 0 = Some 6"
  proof -
    have "m' ! 2 = 0" "m' ! 3 = 6" using hdr by (simp_all add: same)
    then have "rdn16 m' 2 = Some (le16 6 0)" using rd_defined(2) [of 2 m'] len by (simp del: rd_defined)
    also have "le16 6 0 = 6" by code_simp
    finally show ?thesis by (simp only: hdr_length_def add_0)
  qed
  have "rtcp_walk (fix_ssrc_body True local_ssrc remote_ssrc clk) 0 0 28 (m, None) = Some (Inr (m', None))"
    using body hl by (subst rtcp_walk.simps) simp
  moreover have "hdr_version m 0 = Some 2"
    using len ne hdr by (simp add: hdr_version_def header_bits)
  ultimately have fixed: "janus_rtcp_fix_ssrc clk None (Some m) 28 True local_ssrc remote_ssrc = Some (0, Some m', None)"
    by (simp add: janus_rtcp_fix_ssrc_def)
  have build: "put_header garbage RTCP_SR 0 = Some (garbage[0 := set_bits 0 5 0 (set_bits 6 2 2 (garbage ! 0)), 1 := RTCP_SR])"
    using g by (intro put_header_Some) simp
  define d where "d = m' @ drop 28 (replicate DATA_SIZE 0)"
  define p where "p = dataPacket_new\<lparr>comp := 0, dataPacket.pkt_type := ty, pkt_length := 28, data := d\<rparr>"
  have cp: "packet_of ty m' 28 = Some p"
    using len by (simp add: packet_of_def memcpy_def dataPacket_new_def DATA_SIZE_def p_def d_def)
  have "ConstructAndRelaySrPacket garbage clk ty packets bytes ts local_ssrc remote_ssrc ntp_sec ntp_frac =
      Some [RelayPacket p]"
    using fixed cp g unfolding ConstructAndRelaySrPacket_def RelayRtcpPacket_def build
    by (simp add: wr_defined m_def byte_def)
  moreover have "length d = 1500" "d \<noteq> []" using len by (auto simp: d_def DATA_SIZE_def)
  moreover have nth: "d ! k = m' ! k" if "k < 28" for k using that len by (simp add: d_def nth_append)
  moreover have "m' ! 4 = byte 3 local_ssrc" "m' ! 5 = byte 2 local_ssrc" "m' ! 6 = byte 1 local_ssrc" "m' ! 7 = byte 0 local_ssrc"
    using len by (simp_all add: m'_def)
  moreover have "m' ! 8 = byte 3 ntp_sec" "m' ! 9 = byte 2 ntp_sec" "m' ! 10 = byte 1 ntp_sec" "m' ! 11 = byte 0 ntp_sec"
    "m' ! 12 = byte 3 ntp_frac" "m' ! 13 = byte 2 ntp_frac" "m' ! 14 = byte 1 ntp_frac" "m' ! 15 = byte 0 ntp_frac"
    "m' ! 16 = byte 3 ts" "m' ! 17 = byte 2 ts" "m' ! 18 = byte 1 ts" "m' ! 19 = byte 0 ts"
    using g by (simp_all add: same m_def)
  moreover have "m' ! 20 = byte 3 packets" "m' ! 21 = byte 2 packets" "m' ! 22 = byte 1 packets" "m' ! 23 = byte 0 packets"
    "m' ! 24 = byte 3 bytes" "m' ! 25 = byte 2 bytes" "m' ! 26 = byte 1 bytes" "m' ! 27 = byte 0 bytes"
    using g by (simp_all add: same m_def)
  moreover have "m' ! 0 = set_bits 0 5 0 (set_bits 6 2 2 (garbage ! 0))" "m' ! 1 = RTCP_SR" "m' ! 2 = 0" "m' ! 3 = 6"
    using hdr by (simp_all add: same)
  moreover have len16: "rdn16 d 2 = Some 6"
  proof -
    have "d ! 2 = 0" "d ! 3 = 6" using calculation by simp_all
    then have "rdn16 d 2 = Some (le16 6 0)" using rd_defined(2) [of 2 d] calculation(2) by (simp del: rd_defined)
    also have "le16 6 0 = 6" by code_simp
    finally show ?thesis .
  qed
  moreover have "hdr_version d 0 = Some 2"
    using calculation by (simp add: hdr_version_def header_bits)
  moreover have "getPacketsSent d = rdn32 d 20" "getOctetsSent d = rdn32 d 24" "rtcp_getSSRC d = rdn32 d 4"
      "rtcp_getLength d = rdn16 d 2"
    by (simp_all only: getPacketsSent_def getOctetsSent_def rtcp_getSSRC_def rtcp_getLength_def rdn32_def rdn16_def)
  ultimately show ?thesis
    using len16 by (simp add: p_def getPacketType_def getBlockCount_def RTCP_SR_def header_bits del: rd_defined(2))
qed

text \<open>
  The SDES message is never complete: with the 20-byte buffer that \<open>SendSDES\<close> uses,
  \<open>janus_rtcp_sdes\<close> finds no room for the ten-byte name and returns -1; the code relays the
  buffer all the same, a header with length field 0 and no name, and as video even for audio.
\<close>

lemma sdes_message_incomplete:
  "map_option (map (\<lambda>e. case e of RelayPacket p \<Rightarrow> (dataPacket.pkt_type p, pkt_length p, take 20 (data p)) | _ \<Rightarrow> (OTHER_PACKET, 0, [])))
     (SendSDES AUDIO_PACKET) = Some [(VIDEO_PACKET, 20, [0x81, 202] @ replicate 18 0)]"
  by code_simp

end
