(* ===== verification/Rtcp_Processor.thy ===== *)
theory Rtcp_Processor
  imports Rtcp_Sender Remb_Processor
begin

text \<open>
  \<open>src/orbit/rtp/rtcp_processor.{h,cc}\<close> with \<open>rtcp_receiver.cc\<close> and
  \<open>rtp_format_util.cc\<close>: the object that owns the report contexts, the NACK processors, the
  sender and the bitrate cap of one transport, and dispatches every RTP and RTCP packet to them.

  The components taken from the vendored WebRTC tree are parameters or effects: \<open>depacketize\<close>
  is \<open>RtpDepacketizer_Parse\<close> (\<open>None\<close> for a payload it rejects, otherwise whether it is a
  key frame), \<open>header_parser\<close> is \<open>RtpHeaderParser::Parse\<close>, the packet types of a datagram
  are those that \<open>RTCPParserV2\<close> enumerates, and calls into the NTP and bitrate estimators are
  effects of the result.
\<close>

section \<open>Video payloads\<close>

definition IsValidVideoPacket :: "(u8 \<Rightarrow> buffer \<Rightarrow> int \<Rightarrow> bool option) \<Rightarrow> dataPacket \<Rightarrow> bool option" where
  "IsValidVideoPacket depacketize p = do {
     payload \<leftarrow> getPayloadType (data p);
     Some (depacketize payload (drop 12 (data p)) (pkt_length p - 12) \<noteq> None) }"

definition IsKeyFramePacket :: "(u8 \<Rightarrow> buffer \<Rightarrow> int \<Rightarrow> bool option) \<Rightarrow> dataPacket \<Rightarrow> bool option" where
  "IsKeyFramePacket depacketize p = do {
     payload \<leftarrow> getPayloadType (data p);
     Some (case depacketize payload (drop 12 (data p)) (pkt_length p - 12) of
             None \<Rightarrow> False | Some key \<Rightarrow> key) }"

section \<open>State\<close>

record sync_context =
  NTPseconds :: u32
  NTPfraction :: u32
  RTPtimeStamp :: u32
  sendPacketCount :: u32
  sendOctetCount :: u32
  lastReceivedSRNTPsecs :: u32
  lastReceivedSRNTPfrac :: u32

definition sync_context_zero :: sync_context where
  "sync_context_zero =
     \<lparr>NTPseconds = 0, NTPfraction = 0, RTPtimeStamp = 0, sendPacketCount = 0, sendOctetCount = 0,
      lastReceivedSRNTPsecs = 0, lastReceivedSRNTPfrac = 0\<rparr>"

text \<open>\<open>RtcpSyncContext::RemoteNTP\<close> with the arguments its caller passes.\<close>

definition RemoteNTP :: "sync_context \<Rightarrow> u32 \<times> u32 \<times> u32" where
  "RemoteNTP c = (NTPseconds c, NTPfraction c, RTPtimeStamp c)"

record RttContext =
  ctx_RTT :: int
  minRTT :: int
  maxRTT :: int
  avgRTT :: int
  numAverageCalcs :: u32

definition RttContext_new :: RttContext where
  "RttContext_new = \<lparr>ctx_RTT = 0, minRTT = 0, maxRTT = 0, avgRTT = 0, numAverageCalcs = 0\<rparr>"

record rtcp_processor =
  rp_sender :: rtcp_sender
  rp_audio_ctx :: rtcp_context
  rp_video_ctx :: rtcp_context
  audio_nack_processor :: nack_processor
  default_video_nack_processor :: nack_processor
  extended_video_nack_processors :: "(u32, nack_processor) std_map"
  rp_remb :: remb_processor
  rtt_ctxs :: "(u32, RttContext) std_map"
  video_sync_ctx :: sync_context
  audio_sync_ctx :: sync_context
  rp_status :: NetworkStatus

datatype rtcp_effect =
  Relay nack_effect
| UpdateRtcpTimestamp packetType int u32 u32 u32
| EstimateNtp packetType u32
| IncomingPacket packetType int int
| EstimatorProcess packetType

text \<open>The constructor: \<open>before\<close> is the clock, \<open>ns\<close> the stream's status, \<open>remb\<close> the new cap.\<close>

definition RtcpProcessor_new :: "int \<Rightarrow> NetworkStatus \<Rightarrow> remb_processor \<Rightarrow> rtcp_processor" where
  "RtcpProcessor_new before ns remb =
     \<lparr>rp_sender = sender_Init before RtcpSender_new,
      rp_audio_ctx = init_context 48000, rp_video_ctx = init_context 90000,
      audio_nack_processor = NackProcessor_new, default_video_nack_processor = NackProcessor_new,
      extended_video_nack_processors = [], rp_remb = remb, rtt_ctxs = [],
      video_sync_ctx = sync_context_zero, audio_sync_ctx = sync_context_zero, rp_status = ns\<rparr>"

definition rp_SetRemoteSdp :: "u32 \<Rightarrow> u32 \<Rightarrow> rtcp_processor \<Rightarrow> rtcp_processor" where
  "rp_SetRemoteSdp audio video s = s\<lparr>rp_sender := sender_SetRemoteSdp audio video (rp_sender s)\<rparr>"

definition InitRttContextsWithSsrcs :: "u32 list \<Rightarrow> u32 \<Rightarrow> u32 \<Rightarrow> rtcp_processor \<Rightarrow> rtcp_processor" where
  "InitRttContextsWithSsrcs ext_video_ssrcs default_video_ssrc default_audio_ssrc s =
     s\<lparr>rtt_ctxs :=
         sm_set (<) default_video_ssrc RttContext_new
           (sm_set (<) default_audio_ssrc RttContext_new
             (fold (\<lambda>k. sm_set (<) k RttContext_new) ext_video_ssrcs (rtt_ctxs s)))\<rparr>"

definition GetRttContext :: "u32 \<Rightarrow> rtcp_processor \<Rightarrow> RttContext option" where
  "GetRttContext ssrc s = sm_find (<) ssrc (rtt_ctxs s)"

definition GenerateNackProcessorsByExtendedSsrcs :: "u32 list \<Rightarrow> rtcp_processor \<Rightarrow> rtcp_processor" where
  "GenerateNackProcessorsByExtendedSsrcs ssrcs s =
     s\<lparr>extended_video_nack_processors :=
         fold (\<lambda>k. sm_set (<) k NackProcessor_new) ssrcs (extended_video_nack_processors s)\<rparr>"

definition rp_InitWithSsrcs :: "transport \<Rightarrow> u32 list \<Rightarrow> u32 \<Rightarrow> u32 \<Rightarrow> rtcp_processor \<Rightarrow> rtcp_processor" where
  "rp_InitWithSsrcs t ssrcs default_video_ssrc default_audio_ssrc s =
     (let s = GenerateNackProcessorsByExtendedSsrcs ssrcs s;
          s = InitRttContextsWithSsrcs ssrcs default_video_ssrc default_audio_ssrc s
      in s\<lparr>rp_sender := InitSrSendHistories t (rp_sender s)\<rparr>)"

section \<open>Access to the NACK processor of a source\<close>

definition GetNackProcessor :: "u32 \<Rightarrow> rtcp_processor \<Rightarrow> nack_processor" where
  "GetNackProcessor media_ssrc s =
     (case sm_find (<) media_ssrc (extended_video_nack_processors s) of
        Some n \<Rightarrow> n | None \<Rightarrow> default_video_nack_processor s)"

text \<open>Writing back through the shared pointer that \<open>GetNackProcessor\<close> returned.\<close>

definition put_nack :: "u32 \<Rightarrow> nack_processor \<Rightarrow> rtcp_processor \<Rightarrow> rtcp_processor" where
  "put_nack media_ssrc n s =
     (case sm_find (<) media_ssrc (extended_video_nack_processors s) of
        Some _ \<Rightarrow> s\<lparr>extended_video_nack_processors := sm_set (<) media_ssrc n (extended_video_nack_processors s)\<rparr>
      | None \<Rightarrow> s\<lparr>default_video_nack_processor := n\<rparr>)"

definition GetRtpfbNackMediaSSRC :: "buffer \<Rightarrow> int \<Rightarrow> u32 option" where
  "GetRtpfbNackMediaSSRC b len = janus_rtcp_get_fbnack_media_ssrc (Some b) len"

definition NackPushVideoPacket :: "int \<Rightarrow> buffer \<Rightarrow> int \<Rightarrow> rtcp_processor \<Rightarrow> rtcp_processor option" where
  "NackPushVideoPacket now b len s = do {
     ssrc \<leftarrow> getSSRC b;
     n \<leftarrow> PushPacket now (GetNackProcessor ssrc s) b len;
     Some (put_nack ssrc n s) }"

definition NackPushAudioPacket :: "int \<Rightarrow> buffer \<Rightarrow> int \<Rightarrow> rtcp_processor \<Rightarrow> rtcp_processor option" where
  "NackPushAudioPacket now b len s = do {
     n \<leftarrow> PushPacket now (audio_nack_processor s) b len;
     Some (s\<lparr>audio_nack_processor := n\<rparr>) }"

text \<open>Counting a NACK that was sent or received.\<close>

definition count_nack :: "bool \<Rightarrow> rtcp_processor \<Rightarrow> rtcp_processor option" where
  "count_nack is_send s = map_option (\<lambda>ns. s\<lparr>rp_status := ns\<rparr>) (IncreaseNackCount is_send (rp_status s))"

text \<open>
  A NACK processor sends through \<open>RtcpProcessor::SendRTCP\<close>, which relays the message at once.
\<close>

fun relay_effects :: "nack_effect list \<Rightarrow> rtcp_effect list option" where
  "relay_effects [] = Some []"
| "relay_effects (RelayPacket p # es) = map_option (\<lambda>r. Relay (RelayPacket p) # r) (relay_effects es)"
| "relay_effects (SendRTCP ty b len # es) = do {
     sent \<leftarrow> sender_SendRTCP RTCP_RTP_Feedback_PT ty b len;
     r \<leftarrow> relay_effects es;
     Some (map Relay sent @ r) }"

definition SendVideoNackByCondition ::
    "((u32 \<Rightarrow> u32 \<Rightarrow> int) \<Rightarrow> u32 list \<Rightarrow> u32 list) \<Rightarrow> bool \<Rightarrow> bool \<Rightarrow> int \<Rightarrow> int \<Rightarrow> u32 \<Rightarrow> u16 \<Rightarrow> rtcp_processor
     \<Rightarrow> (rtcp_processor \<times> rtcp_effect list) option" where
  "SendVideoNackByCondition g_sort flag locked now current_time ssrc seqnumber s = do {
     (res, n, es) \<leftarrow> SendNackByCondition g_sort flag locked now current_time (GetNackProcessor ssrc s) seqnumber VIDEO_PACKET;
     es \<leftarrow> relay_effects es;
     s \<leftarrow> (if res \<noteq> 0 then count_nack True (put_nack ssrc n s) else Some (put_nack ssrc n s));
     Some (s, es) }"

definition SendAudioNackByCondition ::
    "((u32 \<Rightarrow> u32 \<Rightarrow> int) \<Rightarrow> u32 list \<Rightarrow> u32 list) \<Rightarrow> bool \<Rightarrow> bool \<Rightarrow> int \<Rightarrow> int \<Rightarrow> u16 \<Rightarrow> rtcp_processor
     \<Rightarrow> (rtcp_processor \<times> rtcp_effect list) option" where
  "SendAudioNackByCondition g_sort flag locked now current_time seqnumber s = do {
     (res, n, es) \<leftarrow> SendNackByCondition g_sort flag locked now current_time (audio_nack_processor s) seqnumber AUDIO_PACKET;
     es \<leftarrow> relay_effects es;
     s \<leftarrow> (if res \<noteq> 0 then count_nack True (s\<lparr>audio_nack_processor := n\<rparr>) else Some (s\<lparr>audio_nack_processor := n\<rparr>));
     Some (s, es) }"

definition HandleNackItem ::
    "int \<Rightarrow> (nat \<Rightarrow> int) \<Rightarrow> packetType \<Rightarrow> buffer \<Rightarrow> int \<Rightarrow> rtcp_processor \<Rightarrow> (rtcp_processor \<times> rtcp_effect list) option" where
  "HandleNackItem now clk packet_type b len s =
     (case packet_type of
        VIDEO_PACKET \<Rightarrow> do {
          media_ssrc \<leftarrow> GetRtpfbNackMediaSSRC b len;
          nacks_count \<leftarrow> GetRtcpNackPackets (Some b) len;
          if nacks_count \<noteq> 0 then do {
            (_, n, es) \<leftarrow> ProcessRtcpNackPackets now clk (GetNackProcessor media_ssrc s) (Some b) len;
            es \<leftarrow> relay_effects es;
            s \<leftarrow> count_nack False (put_nack media_ssrc n s);
            Some (s, es) }
          else Some (s, []) }
      | AUDIO_PACKET \<Rightarrow> do {
          nacks_count \<leftarrow> GetRtcpNackPackets (Some b) len;
          if nacks_count \<noteq> 0 then do {
            (_, n, es) \<leftarrow> ProcessRtcpNackPackets now clk (audio_nack_processor s) (Some b) len;
            es \<leftarrow> relay_effects es;
            s \<leftarrow> count_nack False (s\<lparr>audio_nack_processor := n\<rparr>);
            Some (s, es) }
          else Some (s, []) }
      | _ \<Rightarrow> Some (s, []))"

section \<open>Bitrate cap\<close>

definition rp_SendRembPacket :: "buffer \<Rightarrow> u64 \<Rightarrow> rtcp_processor \<Rightarrow> rtcp_processor option" where
  "rp_SendRembPacket garbage bitrate s = do { _ \<leftarrow> SendRembPacket garbage bitrate; Some s }"

definition rp_UpdateBitrate :: "u64 \<Rightarrow> rtcp_processor \<Rightarrow> rtcp_processor" where
  "rp_UpdateBitrate bitrate s = s\<lparr>rp_remb := SetBitrate bitrate (rp_remb s)\<rparr>"

definition rp_SlowLinkUpdate :: "buffer \<Rightarrow> u32 \<Rightarrow> bool \<Rightarrow> bool \<Rightarrow> u64 \<Rightarrow> rtcp_processor \<Rightarrow> rtcp_processor option" where
  "rp_SlowLinkUpdate garbage nacks video uplink now s =
     map_option (\<lambda>r. s\<lparr>rp_remb := r\<rparr>) (SlowLinkUpdate garbage nacks video uplink now (rp_remb s))"

text \<open>
  The estimators' latest estimates are arguments: \<open>None\<close> when there is none, otherwise the
  bitrate and the sources it covers.
\<close>

definition GetBitrateEstimate ::
    "(u32 \<times> u32 list) option \<Rightarrow> (u32 \<times> u32 list) option \<Rightarrow> packetType \<Rightarrow> (u32 \<times> u32 list) option" where
  "GetBitrateEstimate video audio packet_type =
     (let share = (\<lambda>(target, ssrcs).
            (if ssrcs \<noteq> [] then ucast ((ucast target :: u64) div of_nat (length ssrcs)) else target, ssrcs))
      in case packet_type of
           VIDEO_PACKET \<Rightarrow> map_option share video
         | AUDIO_PACKET \<Rightarrow> map_option share audio
         | _ \<Rightarrow> None)"

section \<open>Round-trip times from receiver reports\<close>

text \<open>The delay since the last sender report, 1/65536 seconds, in milliseconds; 32-bit arithmetic.\<close>

definition delay_ms :: "u32 \<Rightarrow> u32" where
  "delay_ms delay =
     (delay AND 0x0000ffff) * 1000 div 65536 + drop_bit 16 (delay AND 0xffff0000) * 1000"

text \<open>
  The running average is computed in \<open>float\<close>; \<open>rndf\<close> is the rounding of its operations and of
  the conversions from integers.
\<close>

definition float_average :: "(real \<Rightarrow> real) \<Rightarrow> u32 \<Rightarrow> int \<Rightarrow> int \<Rightarrow> int" where
  "float_average rndf n avg r =
     (let ac = rndf (real (unat n));
          new_average = rndf (rndf (rndf (ac / rndf (ac + 1)) * rndf (of_int avg)) + rndf (rndf (1 / rndf (ac + 1)) * rndf (of_int r)))
      in \<lfloor>rndf (new_average + 1 / 2)\<rfloor>)"

definition rtt_sample :: "int \<Rightarrow> u32 \<Rightarrow> int \<Rightarrow> int" where
  "rtt_sample receiveTimeMS d sendTimeMS =
     (let r = receiveTimeMS - uint d - sendTimeMS in if r \<le> 0 then 1 else r)"

definition note_rtt :: "(real \<Rightarrow> real) \<Rightarrow> int \<Rightarrow> RttContext \<Rightarrow> RttContext" where
  "note_rtt rndf r c =
     c\<lparr>maxRTT := (if r > maxRTT c then r else maxRTT c),
       minRTT := (if minRTT c = 0 then r else if r < minRTT c then r else minRTT c),
       ctx_RTT := r,
       avgRTT := (if numAverageCalcs c \<noteq> 0 then float_average rndf (numAverageCalcs c) (avgRTT c) r else r),
       numAverageCalcs := numAverageCalcs c + 1\<rparr>"

definition rp_UpdateRTT ::
    "(real \<Rightarrow> real) \<Rightarrow> (real \<Rightarrow> real) \<Rightarrow> u32 \<times> u32 \<Rightarrow> buffer \<Rightarrow> u32 \<Rightarrow> rtcp_processor \<Rightarrow> rtcp_processor option" where
  "rp_UpdateRTT rnd rndf ntp b local_ssrc s = do {
     ty \<leftarrow> getPacketType b;
     if ty \<noteq> RTCP_Receiver_PT then Some s
     else do {
       delay \<leftarrow> getDelaySinceLastSr b;
       last_sr \<leftarrow> getLastSr b;
       let sendTimeMS = GetSendTimeOfSendReport last_sr local_ssrc (rp_sender s);
           receiveTimeMS = NtpToMs rnd (fst ntp) (snd ntp)
       in case GetRttContext local_ssrc s of
            None \<Rightarrow> Some s
          | Some c \<Rightarrow>
              if sendTimeMS > 0
              then Some (s\<lparr>rtt_ctxs := sm_set (<) local_ssrc
                             (note_rtt rndf (rtt_sample receiveTimeMS (delay_ms delay) sendTimeMS) c) (rtt_ctxs s)\<rparr>)
              else Some s } }"

text \<open>\<open>None\<close> is the result \<open>false\<close>, which leaves the caller's variables as they are.\<close>

definition rp_RTT :: "u32 \<Rightarrow> rtcp_processor \<Rightarrow> (int \<times> int \<times> int \<times> int) option" where
  "rp_RTT ssrc s =
     map_option (\<lambda>c. (ctx_RTT c, avgRTT c, minRTT c, maxRTT c)) (GetRttContext ssrc s)"

record report_env =
  re_now :: int
  re_now2 :: int
  re_ntp :: "u32 \<times> u32"
  re_garbage_rtt :: int
  re_nack_now :: int
  re_nack_clk :: "nat \<Rightarrow> int"

text \<open>
  The variable \<open>rtt\<close> is not initialised: for a source without context the value
  \<open>re_garbage_rtt\<close> is passed on.
\<close>

definition HandleReceiverReport ::
    "(real \<Rightarrow> real) \<Rightarrow> (real \<Rightarrow> real) \<Rightarrow> report_env \<Rightarrow> packetType \<Rightarrow> buffer \<Rightarrow> rtcp_processor \<Rightarrow> rtcp_processor option" where
  "HandleReceiverReport rnd rndf env packet_type b s = do {
     local_ssrc \<leftarrow> getSourceSSRC b;
     cumulative_lost \<leftarrow> getLostPackets b;
     highest_seqnumber \<leftarrow> getHighestSeqnum b;
     jit \<leftarrow> getJitter b;
     s \<leftarrow> rp_UpdateRTT rnd rndf (re_ntp env) b local_ssrc s;
     let r = (case rp_RTT local_ssrc s of Some (r, _) \<Rightarrow> r | None \<Rightarrow> re_garbage_rtt env);
         ns = UpdateRTT (re_now env) r local_ssrc (rp_status s)
     in case packet_type of
          VIDEO_PACKET \<Rightarrow> do {
            ns \<leftarrow> StatisticSendFractionLost (re_now2 env) True highest_seqnumber cumulative_lost local_ssrc
                   (UpdateJitters CLIENT_REPORT True jit local_ssrc ns);
            Some (s\<lparr>rp_status := ns\<rparr>) }
        | AUDIO_PACKET \<Rightarrow> do {
            ns \<leftarrow> StatisticSendFractionLost (re_now2 env) False highest_seqnumber cumulative_lost local_ssrc
                   (UpdateJitters CLIENT_REPORT False jit local_ssrc ns);
            Some (s\<lparr>rp_status := ns\<rparr>) }
        | _ \<Rightarrow> Some (s\<lparr>rp_status := ns\<rparr>) }"

section \<open>Sender reports of the peer\<close>

text \<open>The 64-bit field is read in host order and its halves are swapped one by one.\<close>

definition store_sender_info :: "u32 \<times> u32 \<Rightarrow> buffer \<Rightarrow> sync_context \<Rightarrow> sync_context option" where
  "store_sender_info ntp b c = do {
     stamp \<leftarrow> rd64 b 8;
     rtprts \<leftarrow> rd32 b 16;
     packets \<leftarrow> getPacketsSent b;
     octets \<leftarrow> getOctetsSent b;
     Some (c\<lparr>NTPseconds := htonl (ucast (drop_bit 32 (push_bit 32 stamp))),
             NTPfraction := htonl (ucast (drop_bit 32 stamp)),
             RTPtimeStamp := htonl rtprts, sendPacketCount := packets, sendOctetCount := octets,
             lastReceivedSRNTPsecs := fst ntp, lastReceivedSRNTPfrac := snd ntp\<rparr>) }"

definition UpdateRemoteNTPEstimator ::
    "u32 \<times> u32 \<Rightarrow> packetType \<Rightarrow> buffer \<Rightarrow> rtcp_processor \<Rightarrow> (rtcp_processor \<times> rtcp_effect list) option" where
  "UpdateRemoteNTPEstimator ntp packet_type b s =
     (if packet_type \<noteq> VIDEO_PACKET \<and> packet_type \<noteq> AUDIO_PACKET then Some (s, [])
      else do {
        c \<leftarrow> store_sender_info ntp b (if packet_type = VIDEO_PACKET then video_sync_ctx s else audio_sync_ctx s);
        r \<leftarrow> GetLastestRttOfSsrcs (rp_status s);
        let s = (if packet_type = VIDEO_PACKET then s\<lparr>video_sync_ctx := c\<rparr> else s\<lparr>audio_sync_ctx := c\<rparr>);
            (ntp_secs, ntp_frac, rtp_timestamp) = RemoteNTP c
        in Some (s, if r = 0 then [] else [UpdateRtcpTimestamp packet_type r ntp_secs ntp_frac rtp_timestamp]) })"

definition HandleSenderReport ::
    "u32 \<times> u32 \<Rightarrow> packetType \<Rightarrow> buffer \<Rightarrow> rtcp_processor \<Rightarrow> (rtcp_processor \<times> rtcp_effect list) option" where
  "HandleSenderReport ntp packet_type b s = UpdateRemoteNTPEstimator ntp packet_type b s"

definition EstimateRemoteNTPTimeMS :: "packetType \<Rightarrow> u32 \<Rightarrow> rtcp_effect list" where
  "EstimateRemoteNTPTimeMS packet_type timestamp =
     (if packet_type \<noteq> VIDEO_PACKET \<and> packet_type \<noteq> AUDIO_PACKET then [] else [EstimateNtp packet_type timestamp])"

definition HandleSDES :: "buffer \<Rightarrow> rtcp_processor \<Rightarrow> rtcp_processor option" where
  "HandleSDES b s = do { _ \<leftarrow> rtcp_getSSRC b; Some s }"

section \<open>The receiver's contexts\<close>

definition receiver_IncomingRtp ::
    "(real \<Rightarrow> real) \<Rightarrow> int \<Rightarrow> packetType \<Rightarrow> buffer \<Rightarrow> int \<Rightarrow> rtcp_processor \<Rightarrow> rtcp_processor option" where
  "receiver_IncomingRtp rnd now packet_type b len s =
     (if packet_type = VIDEO_PACKET then do {
        (_, c) \<leftarrow> janus_rtcp_process_incoming_rtp rnd now (Some (rp_video_ctx s)) (Some b) len DEFAULT_MAX_NACK_QUEUE;
        c \<leftarrow> c;
        Some (s\<lparr>rp_video_ctx := c\<rparr>) }
      else do {
        (_, c) \<leftarrow> janus_rtcp_process_incoming_rtp rnd now (Some (rp_audio_ctx s)) (Some b) len DEFAULT_MAX_NACK_QUEUE;
        c \<leftarrow> c;
        Some (s\<lparr>rp_audio_ctx := c\<rparr>) })"

definition receiver_IncomingRtcp ::
    "(nat \<Rightarrow> int) \<Rightarrow> packetType \<Rightarrow> buffer \<Rightarrow> int \<Rightarrow> rtcp_processor \<Rightarrow> rtcp_processor option" where
  "receiver_IncomingRtcp clk packet_type b len s =
     (if packet_type = VIDEO_PACKET then do {
        (_, _, c) \<leftarrow> janus_rtcp_parse clk (Some (rp_video_ctx s)) (Some b) len;
        c \<leftarrow> c;
        Some (s\<lparr>rp_video_ctx := c\<rparr>) }
      else do {
        (_, _, c) \<leftarrow> janus_rtcp_parse clk (Some (rp_audio_ctx s)) (Some b) len;
        c \<leftarrow> c;
        Some (s\<lparr>rp_audio_ctx := c\<rparr>) })"

section \<open>Incoming RTP\<close>

definition FIR_PLI_WAIT :: int where "FIR_PLI_WAIT = 1000"

text \<open>A key frame ends a pending request; any other packet repeats it once a second.\<close>

definition check_key_frame ::
    "(u8 \<Rightarrow> buffer \<Rightarrow> int \<Rightarrow> bool option) \<Rightarrow> int \<Rightarrow> dataPacket \<Rightarrow> nack_processor \<Rightarrow> (nack_processor \<times> nack_effect list) option" where
  "check_key_frame depacketize now p n = do {
     key \<leftarrow> IsKeyFramePacket depacketize p;
     if key then Some (n\<lparr>get_fir := True\<rparr>, [])
     else if \<not> get_fir n \<and> now - last_fir_request n > FIR_PLI_WAIT then do {
       (n, es) \<leftarrow> SendFirPacket n;
       Some (n\<lparr>last_fir_request := now\<rparr>, es) }
     else Some (n, []) }"

record rtp_env =
  rtp_now :: int
  rtp_mono :: int
  rtp_time_ms :: int
  rtp_until :: int

text \<open>
  \<open>header_parser\<close> gives the timestamp and the header length of the packet; \<open>rtp_until\<close> is what
  \<open>TimeUntilNextProcess\<close> returns.
\<close>

definition RtcpProcessIncomingRtp ::
    "(real \<Rightarrow> real) \<Rightarrow> (u8 \<Rightarrow> buffer \<Rightarrow> int \<Rightarrow> bool option) \<Rightarrow> (buffer \<Rightarrow> int \<Rightarrow> u32 \<times> int) \<Rightarrow> rtp_env
     \<Rightarrow> packetType \<Rightarrow> buffer \<Rightarrow> int \<Rightarrow> rtcp_processor \<Rightarrow> (rtcp_processor \<times> rtcp_effect list) option" where
  "RtcpProcessIncomingRtp rnd depacketize header_parser env packet_type b len s = do {
     (s, es) \<leftarrow>
       (if packet_type = VIDEO_PACKET then do {
          p \<leftarrow> packet_of VIDEO_PACKET b len;
          ssrc \<leftarrow> getSSRC b;
          (n, es) \<leftarrow> check_key_frame depacketize (rtp_now env) p (GetNackProcessor ssrc s);
          es \<leftarrow> relay_effects es;
          Some (put_nack ssrc n s, es) }
        else Some (s, []));
     s \<leftarrow> receiver_IncomingRtp rnd (rtp_mono env) packet_type b len s;
     let (ts, header_length) = header_parser b len;
         estimate = EstimateRemoteNTPTimeMS packet_type ts;
         bitrate = (if packet_type = VIDEO_PACKET \<or> packet_type = AUDIO_PACKET
                    then IncomingPacket packet_type (rtp_time_ms env) (len - header_length)
                         # (if rtp_until env \<le> 0 then [EstimatorProcess packet_type] else [])
                    else [])
     in Some (s, es @ estimate @ bitrate) }"

section \<open>Incoming RTCP\<close>

datatype RTCPPacketTypes =
  kInvalid | kRr | kSr | kReportBlockItem | kSdes | kSdesChunk | kBye | kExtendedIj | kExtendedIjItem
| kRtpfbNack | kRtpfbNackItem | kPsfbPli | kPsfbRpsi | kPsfbSli | kPsfbSliItem | kPsfbApp | kPsfbRemb
| kPsfbRembItem | kRtpfbTmmbr | kRtpfbTmmbrItem | kRtpfbTmmbn | kRtpfbTmmbnItem | kPsfbFir | kPsfbFirItem
| kRtpfbSrReq | kXrHeader | kXrReceiverReferenceTime | kXrDlrrReportBlock | kXrDlrrReportBlockItem
| kXrVoipMetric | kApp | kAppItem | kTransportFeedback

text \<open>The types without a \<open>case\<close> label: the parser is advanced twice.\<close>

definition unhandled :: "RTCPPacketTypes \<Rightarrow> bool" where
  "unhandled ty \<longleftrightarrow> ty \<in> set [kReportBlockItem, kSdesChunk, kExtendedIjItem, kPsfbSliItem, kPsfbRemb, kPsfbRembItem,
     kRtpfbTmmbrItem, kRtpfbTmmbnItem, kPsfbFirItem, kXrDlrrReportBlockItem]"

text \<open>One \<open>case\<close>.  Every handler is given the start of the datagram, not of its own packet.\<close>

definition handle_type ::
    "(real \<Rightarrow> real) \<Rightarrow> (real \<Rightarrow> real) \<Rightarrow> report_env \<Rightarrow> packetType \<Rightarrow> buffer \<Rightarrow> int \<Rightarrow> RTCPPacketTypes \<Rightarrow> rtcp_processor
     \<Rightarrow> (rtcp_processor \<times> rtcp_effect list) option" where
  "handle_type rnd rndf env packet_type b len ty s =
     (if ty = kSr then HandleSenderReport (re_ntp env) packet_type b s
      else if ty = kRr then map_option (\<lambda>s. (s, [])) (HandleReceiverReport rnd rndf env packet_type b s)
      else if ty = kSdes then map_option (\<lambda>s. (s, [])) (HandleSDES b s)
      else if ty = kRtpfbNack \<or> ty = kRtpfbNackItem
      then HandleNackItem (re_nack_now env) (re_nack_clk env) packet_type b len s
      else Some (s, []))"

function dispatch_rtcp ::
    "(real \<Rightarrow> real) \<Rightarrow> (real \<Rightarrow> real) \<Rightarrow> (nat \<Rightarrow> report_env) \<Rightarrow> packetType \<Rightarrow> buffer \<Rightarrow> int \<Rightarrow> nat \<Rightarrow> RTCPPacketTypes list
     \<Rightarrow> rtcp_processor \<Rightarrow> (rtcp_processor \<times> rtcp_effect list) option" where
  "dispatch_rtcp rnd rndf env packet_type b len i types s =
     (case types of
        [] \<Rightarrow> Some (s, [])
      | ty # rest \<Rightarrow>
          if ty = kInvalid then Some (s, [])
          else do {
            (s, es) \<leftarrow> handle_type rnd rndf (env i) packet_type b len ty s;
            (s, es') \<leftarrow> dispatch_rtcp rnd rndf env packet_type b len (i + 1) (if unhandled ty then drop 1 rest else rest) s;
            Some (s, es @ es') })"
  by pat_completeness auto
termination
  by (relation "measure (\<lambda>(_, _, _, _, _, _, _, types, _). length types)") auto

declare dispatch_rtcp.simps [simp del]

text \<open>
  \<open>valid\<close> and \<open>types\<close> are what \<open>RTCPParserV2\<close> says of the datagram: whether its header is
  valid, and the packet types up to the end of the iteration.
\<close>

definition RtcpProcessIncomingRtcp ::
    "(real \<Rightarrow> real) \<Rightarrow> (real \<Rightarrow> real) \<Rightarrow> (nat \<Rightarrow> report_env) \<Rightarrow> (nat \<Rightarrow> int) \<Rightarrow> bool \<Rightarrow> RTCPPacketTypes list \<Rightarrow> packetType \<Rightarrow> buffer \<Rightarrow> int
     \<Rightarrow> rtcp_processor \<Rightarrow> (rtcp_processor \<times> rtcp_effect list) option" where
  "RtcpProcessIncomingRtcp rnd rndf env clk valid types packet_type b len s =
     (if \<not> valid then Some (s, [])
      else do {
        (s, es) \<leftarrow> dispatch_rtcp rnd rndf env packet_type b len 0 types s;
        s \<leftarrow> receiver_IncomingRtcp clk packet_type b len s;
        Some (s, es) })"

section \<open>Round-trip times\<close>

lemma delay_exact: "unat (delay_ms delay) = unat delay * 1000 div 65536"
proof -
  define lo hi where "lo = unat delay mod 65536" and "hi = unat delay div 65536"
  have split: "unat delay = hi * 65536 + lo" by (simp add: lo_def hi_def)
  have "delay AND 0x0000ffff = take_bit 16 delay"
    by (simp add: take_bit_eq_mask mask_eq_exp_minus_1)
  then have l: "unat (delay AND 0x0000ffff) = lo" by (simp add: unat_take_bit_mod lo_def)
  have b: "lo < 65536" "hi < 65536"
    using u32_less [of delay] by (simp_all add: lo_def hi_def)
  have "drop_bit 16 (delay AND 0xffff0000) = take_bit 16 (drop_bit 16 delay)"
    by (simp add: take_bit_eq_mask mask_eq_exp_minus_1)
  then have h: "unat (drop_bit 16 (delay AND 0xffff0000)) = hi"
    using b by (simp add: unat_take_bit_mod unat_drop_bit_div hi_def)
  have "unat (delay_ms delay) = lo * 1000 div 65536 + hi * 1000"
    unfolding delay_ms_def using b
    by (simp only: unat_word_ariths unat_div_distrib l h) simp
  also have "\<dots> = unat delay * 1000 div 65536"
    unfolding split by (simp add: algebra_simps)
  finally show ?thesis .
qed

lemma uint_delay: "uint (delay_ms delay) = int (unat delay * 1000 div 65536)"
  by (simp flip: delay_exact)

text \<open>The conversion of the delay field in 32-bit arithmetic loses nothing: it is the exact
  number of milliseconds, rounded down, for every value of the field.
\<close>

theorem delay_ms_exact: "unat (delay_ms delay) = unat delay * 1000 div 65536"
  by (rule delay_exact)

text \<open>What a context says about its samples.\<close>

definition rtt_inv :: "RttContext \<Rightarrow> bool" where
  "rtt_inv c \<longleftrightarrow> (if minRTT c = 0 then maxRTT c = 0 \<and> ctx_RTT c = 0
     else 1 \<le> minRTT c \<and> minRTT c \<le> ctx_RTT c \<and> ctx_RTT c \<le> maxRTT c)"

lemma note_rtt_inv: "rtt_inv c \<Longrightarrow> 1 \<le> r \<Longrightarrow> rtt_inv (note_rtt rndf r c) \<and> ctx_RTT (note_rtt rndf r c) = r \<and>
    minRTT (note_rtt rndf r c) = (if minRTT c = 0 then r else min (minRTT c) r) \<and>
    maxRTT (note_rtt rndf r c) = max (maxRTT c) r"
  by (auto simp: rtt_inv_def note_rtt_def min_def max_def)

lemma rtt_sample_pos: "1 \<le> rtt_sample t d sent"
  by (simp add: rtt_sample_def Let_def)

text \<open>
  C30. Round-trip time from report to report.  When the reports \<open>ns\<close> were sent for a source, a
  receiver report for that source that names one of the last 60 of them (the latest with that
  identifier is \<open>n\<close>) with delay \<open>delay\<close> gives the sample receive time minus delay minus send
  time, at least 1 ms; it becomes the current value of the source's context, which keeps its
  minimum and maximum around it.
\<close>

theorem rtt_from_reports:
  assumes s: "sm_sorted (<) (sr_send_histories (rp_sender s))"
      "sm_find (<) ssrc (sr_send_histories (rp_sender s)) = Some SrSendHistory_zero"
    and ns: "ns \<noteq> []" "report_id (last ns) \<noteq> 0" "report_id n \<noteq> 0" "0 < report_time rnd n"
      "find (\<lambda>m. report_id m = report_id n) (take 60 (rev ns)) = Some n"
    and c: "GetRttContext ssrc s = Some c" "rtt_inv c" "sm_sorted (<) (rtt_ctxs s)"
    and b: "getPacketType b = Some RTCP_Receiver_PT" "getLastSr b = Some (report_id n)" "getDelaySinceLastSr b = Some delay"
  shows "\<exists>snd s' c'. send_reports rnd ssrc ns (rp_sender s) = Some snd \<and>
    rp_UpdateRTT rnd rndf ntp b ssrc (s\<lparr>rp_sender := snd\<rparr>) = Some s' \<and> GetRttContext ssrc s' = Some c' \<and> rtt_inv c' \<and>
    ctx_RTT c' = max 1 (report_time rnd ntp - int (unat delay * 1000 div 65536) - report_time rnd n)"
proof -
  have lookup: "map_of (map (\<lambda>m. (report_id m, report_time rnd m)) ms) (report_id n) = Some (report_time rnd n)"
    if "find (\<lambda>m. report_id m = report_id n) ms = Some n" for ms
    using that by (induction ms) (auto split: if_splits)
  obtain sd where sd: "send_reports rnd ssrc ns (rp_sender s) = Some sd"
      "GetSendTimeOfSendReport (report_id n) ssrc sd = report_time rnd n"
    using history_lookup [OF s ns(1,2,3), of rnd] lookup [OF ns(5)] by auto
  define r where "r = rtt_sample (NtpToMs rnd (fst ntp) (snd ntp)) (delay_ms delay) (report_time rnd n)"
  have r: "r = max 1 (report_time rnd ntp - int (unat delay * 1000 div 65536) - report_time rnd n)"
    by (auto simp: r_def rtt_sample_def report_time_def max_def uint_delay)
  define s' where "s' = s\<lparr>rp_sender := sd, rtt_ctxs := sm_set (<) ssrc (note_rtt rndf r c) (rtt_ctxs s)\<rparr>"
  have "rp_UpdateRTT rnd rndf ntp b ssrc (s\<lparr>rp_sender := sd\<rparr>) = Some s'"
    using b c(1) ns(4) sd(2) by (simp add: rp_UpdateRTT_def GetRttContext_def s'_def r_def Let_def)
  moreover have "GetRttContext ssrc s' = Some (note_rtt rndf r c)"
    using c(3) by (simp add: GetRttContext_def s'_def um.find_set)
  moreover have "rtt_inv (note_rtt rndf r c)" "ctx_RTT (note_rtt rndf r c) = r"
    using note_rtt_inv [OF c(2)] rtt_sample_pos by (simp_all add: r_def)
  ultimately show ?thesis using sd(1) r by blast
qed

definition demo_transport :: transport where
  "demo_transport = \<lparr>AUDIO_SSRC = 44444, VIDEO_SSRC = 55543, extended_video_ssrcs = []\<rparr>"

definition demo_processor :: rtcp_processor where
  "demo_processor = rp_InitWithSsrcs demo_transport [] 55543 44444
     (RtcpProcessor_new 0 (NetworkStatus_new 0 1 2) (RembProcessor_new 0 0 0))"

text \<open>A receiver report that names the report sent at second 100, one second after receiving it.\<close>

definition demo_rr :: buffer where
  "demo_rr = [0x81, 201, 0, 7, 0, 0, 0, 1, 0, 0, 0xD8, 0xF7, 0, 0, 0, 0, 0, 0, 0, 9,
     0, 0, 0, 0, 0, 100, 0, 0, 0, 1, 0, 0]"

theorem rtt_from_reports_witness:
  "\<exists>snd s' c'. send_reports (\<lambda>x. x) 55543 [(100, 0), (101, 0)] (rp_sender demo_processor) = Some snd \<and>
    rp_UpdateRTT (\<lambda>x. x) (\<lambda>x. x) (101, 0x80000000) demo_rr 55543 (demo_processor\<lparr>rp_sender := snd\<rparr>) = Some s' \<and>
    GetRttContext 55543 s' = Some c' \<and> rtt_inv c' \<and> ctx_RTT c' = 500"
proof -
  have "sm_sorted (<) (sr_send_histories (rp_sender demo_processor))"
      "sm_find (<) 55543 (sr_send_histories (rp_sender demo_processor)) = Some SrSendHistory_zero"
      "GetRttContext 55543 demo_processor = Some RttContext_new" "sm_sorted (<) (rtt_ctxs demo_processor)"
    by (simp_all add: demo_processor_def demo_transport_def rp_InitWithSsrcs_def Let_def
        GenerateNackProcessorsByExtendedSsrcs_def InitRttContextsWithSsrcs_def InitSrSendHistories_def
        RtcpProcessor_new_def sender_Init_def RtcpSender_new_def GetRttContext_def sm_sorted_def)
  moreover have "report_id (101, 0) \<noteq> 0" "report_id (100, 0) \<noteq> 0"
      "find (\<lambda>m. report_id m = report_id (100, 0)) (take 60 (rev [(100, 0), (101, 0)])) = Some (100, 0)"
    by code_simp+
  moreover have "getPacketType demo_rr = Some RTCP_Receiver_PT" "getLastSr demo_rr = Some (report_id (100, 0))"
      "getDelaySinceLastSr demo_rr = Some 0x10000"
    by code_simp+
  moreover have "report_time (\<lambda>x. x) (100, 0) = 100000" "report_time (\<lambda>x. x) (101, 0x80000000) = 101500"
    by (simp_all add: report_time_def NtpToMs_def floor_eq_iff)
  moreover have "rtt_inv RttContext_new" by (simp add: rtt_inv_def RttContext_new_def)
  ultimately show ?thesis
    using rtt_from_reports [where s = demo_processor and ssrc = 55543 and ns = "[(100, 0), (101, 0)]" and n = "(100, 0)"
        and rnd = "\<lambda>x. x" and c = RttContext_new and b = demo_rr and delay = "0x10000" and rndf = "\<lambda>x. x"
        and ntp = "(101, 0x80000000)"]
    by (simp del: rev.simps find.simps take.simps)
qed

section \<open>From one transport to the other\<close>

lemma swap_halves:
  fixes hi lo :: u32
  defines "stamp \<equiv> ucast lo OR push_bit 32 (ucast hi) :: u64"
  shows "(ucast (drop_bit 32 (push_bit 32 stamp)) :: u32) = lo" "(ucast (drop_bit 32 stamp) :: u32) = hi"
proof -
  have no: "\<not> bit lo n" if "32 \<le> n" for n using that bit_imp_le_length [of lo n] by auto
  show "(ucast (drop_bit 32 (push_bit 32 stamp)) :: u32) = lo"
    by (intro bit_word_eqI) (auto simp: stamp_def bit_simps)
  show "(ucast (drop_bit 32 stamp) :: u32) = hi"
    by (intro bit_word_eqI) (auto simp: stamp_def bit_simps no)
qed



section \<open>NACK statistics\<close>

lemma handle_audio_nack:
  assumes "retransmit_inv (audio_nack_processor s)" "janus_rtcp_get_nacks (Some b) len = Some nacks" "nacks \<noteq> []"
    and "int32_ok (recv_nack_count (rp_status s) + 1)"
  shows "\<exists>s' es. HandleNackItem now clk AUDIO_PACKET b len s = Some (s', es) \<and>
    retransmit_inv (audio_nack_processor s') \<and> recv_nack_count (rp_status s') = recv_nack_count (rp_status s) + 1"
proof -
  obtain k n es where n: "ProcessRtcpNackPackets now clk (audio_nack_processor s) (Some b) len = Some (k, n, es)"
      "retransmit_inv n" "\<forall>e\<in>set es. \<exists>(sn, b) \<in> set (stored (retransmit_list (audio_nack_processor s))). ucast sn \<in> set nacks \<and> relays b e"
    using process_nacks_spec [OF assms(1,2)] by blast
  have "\<exists>r. relay_effects es = Some r" if "\<forall>e\<in>set es. \<exists>b. relays b e" for es
    using that by (induction es rule: relay_effects.induct) (auto simp: relays_def)
  moreover have "\<forall>e\<in>set es. \<exists>b. relays b e" using n(3) by blast
  ultimately obtain r where "relay_effects es = Some r" by blast
  then show ?thesis
    using n(1,2) assms(2-4)
    by (simp add: HandleNackItem_def GetRtcpNackPackets_def count_nack_def IncreaseNackCount_def add32s_def)
qed

text \<open>
  A received NACK is counted once for its header and once more for every block: for each of
  them the parser reports an item and the handler goes through the whole datagram again, so that
  one message with \<open>n\<close> blocks raises the count of received NACKs by \<open>n + 1\<close>.
\<close>

theorem nack_counted_per_block:
  assumes "retransmit_inv (audio_nack_processor s)" "janus_rtcp_get_nacks (Some b) len = Some nacks" "nacks \<noteq> []"
    and "0 \<le> recv_nack_count (rp_status s)" "recv_nack_count (rp_status s) + int n + 1 < 2 ^ 31"
  shows "\<exists>s' es. dispatch_rtcp rnd rndf env AUDIO_PACKET b len i (kRtpfbNack # replicate n kRtpfbNackItem) s = Some (s', es) \<and>
    recv_nack_count (rp_status s') = recv_nack_count (rp_status s) + int n + 1"
proof -
  have items: "\<exists>s' es. dispatch_rtcp rnd rndf env AUDIO_PACKET b len i (replicate n kRtpfbNackItem) s = Some (s', es) \<and>
      recv_nack_count (rp_status s') = recv_nack_count (rp_status s) + int n"
    if "retransmit_inv (audio_nack_processor s)" "0 \<le> recv_nack_count (rp_status s)"
      "recv_nack_count (rp_status s) + int n < 2 ^ 31" for s i n
    using that
  proof (induction n arbitrary: s i)
    case 0
    then show ?case by (simp add: dispatch_rtcp.simps)
  next
    case (Suc n)
    have "int32_ok (recv_nack_count (rp_status s) + 1)" using Suc.prems by (simp add: int32_ok_def)
    then obtain s1 es1 where s1: "HandleNackItem (re_nack_now (env i)) (re_nack_clk (env i)) AUDIO_PACKET b len s = Some (s1, es1)"
      "retransmit_inv (audio_nack_processor s1)" "recv_nack_count (rp_status s1) = recv_nack_count (rp_status s) + 1"
      using handle_audio_nack [OF Suc.prems(1) assms(2,3)] by blast
    obtain s2 es2 where "dispatch_rtcp rnd rndf env AUDIO_PACKET b len (i + 1) (replicate n kRtpfbNackItem) s1 = Some (s2, es2)"
        "recv_nack_count (rp_status s2) = recv_nack_count (rp_status s1) + int n"
      using Suc.IH [of s1 "i + 1"] s1 Suc.prems by auto
    then show ?case
      using s1 by (subst dispatch_rtcp.simps) (simp add: handle_type_def unhandled_def)
  qed
  have "int32_ok (recv_nack_count (rp_status s) + 1)" using assms(4,5) by (simp add: int32_ok_def)
  then obtain s1 es1 where s1: "HandleNackItem (re_nack_now (env i)) (re_nack_clk (env i)) AUDIO_PACKET b len s = Some (s1, es1)"
    "retransmit_inv (audio_nack_processor s1)" "recv_nack_count (rp_status s1) = recv_nack_count (rp_status s) + 1"
    using handle_audio_nack [OF assms(1-3)] by blast
  obtain s2 es2 where "dispatch_rtcp rnd rndf env AUDIO_PACKET b len (i + 1) (replicate n kRtpfbNackItem) s1 = Some (s2, es2)"
      "recv_nack_count (rp_status s2) = recv_nack_count (rp_status s1) + int n"
    using items [of s1 n "i + 1"] s1 assms(4,5) by auto
  then show ?thesis
    using s1 by (subst dispatch_rtcp.simps) (simp add: handle_type_def unhandled_def)
qed

theorem nack_counted_per_block_witness:
  "\<exists>s' es. dispatch_rtcp (\<lambda>x. x) (\<lambda>x. x)
      (\<lambda>_. \<lparr>re_now = 0, re_now2 = 0, re_ntp = (0, 0), re_garbage_rtt = 0, re_nack_now = 0, re_nack_clk = (\<lambda>_. 0)\<rparr>)
      AUDIO_PACKET [0x81, 205, 0, 3, 0, 0, 0, 7, 0, 0, 0, 9, 1, 2, 0, 0] 16 0 [kRtpfbNack, kRtpfbNackItem] demo_processor =
      Some (s', es) \<and> recv_nack_count (rp_status s') = 2"
proof -
  have "janus_rtcp_get_nacks (Some [0x81, 205, 0, 3, 0, 0, 0, 7, 0, 0, 0, 9, 1, 2, 0, 0]) 16 = Some [258]"
    by (simp add: janus_rtcp_get_nacks_def hdr_defs bits_def rtcp_walk.simps get_nacks_body_def rtcp_type_defs
        le16_def nack_items_def)
  moreover have "retransmit_inv (audio_nack_processor demo_processor)"
    by (simp add: demo_processor_def rp_InitWithSsrcs_def Let_def GenerateNackProcessorsByExtendedSsrcs_def
        InitRttContextsWithSsrcs_def RtcpProcessor_new_def retransmit_inv_def NackProcessor_new_def)
  moreover have "recv_nack_count (rp_status demo_processor) = 0" by code_simp
  ultimately show ?thesis
    using nack_counted_per_block [where s = demo_processor and n = 1 and nacks = "[258]" and len = 16 and i = 0
        and b = "[0x81, 205, 0, 3, 0, 0, 0, 7, 0, 0, 0, 9, 1, 2, 0, 0]" and rnd = "\<lambda>x. x" and rndf = "\<lambda>x. x"]
    by simp
qed

end
