(* ===== verification/Std_Heap.thy ===== *)
theory Std_Heap
  imports Orbit_Prelude "HOL-Library.Multiset"
begin

text \<open>
  \<open>std::priority_queue\<close> over a \<open>std::vector\<close>, as \<open>RtpPacketBuffer\<close> uses it: a binary heap in
  an array, whose root is \<open>top ()\<close>.  \<open>lt a b\<close> is the comparison object: \<open>a\<close> comes after
  \<open>b\<close>.  Pushing appends the element and sifts it up; popping moves the hole at the root down
  to a leaf, always towards the child that comes first, and sifts the last element up from there.

  The comparison of sequence numbers is no order at all, so two things are kept apart: the
  elements are never lost or duplicated, whatever the comparison is; and where the comparison is
  the order of a key (locale \<open>keyed_heap\<close>) the root has the smallest key, so that popping
  yields the keys in ascending order.
\<close>

section \<open>Operations\<close>

abbreviation parent :: "nat \<Rightarrow> nat" where
  "parent i \<equiv> (i - 1) div 2"

function sift_up :: "('a \<Rightarrow> 'a \<Rightarrow> bool) \<Rightarrow> 'a list \<Rightarrow> nat \<Rightarrow> 'a \<Rightarrow> 'a list" where
  "sift_up lt xs hole v =
     (if 0 < hole \<and> lt (xs ! parent hole) v
      then sift_up lt (xs[hole := xs ! parent hole]) (parent hole) v
      else xs[hole := v])"
  by pat_completeness auto
termination
  by (relation "measure (\<lambda>(_, _, hole, _). hole)") auto

text \<open>The child of \<open>hole\<close> that comes first.\<close>

definition first_child :: "('a \<Rightarrow> 'a \<Rightarrow> bool) \<Rightarrow> 'a list \<Rightarrow> nat \<Rightarrow> nat" where
  "first_child lt xs hole =
     (let c = 2 * (hole + 1) in if lt (xs ! c) (xs ! (c - 1)) then c - 1 else c)"

lemma first_child_cases: "first_child lt xs hole = 2 * hole + 1 \<or> first_child lt xs hole = 2 * hole + 2"
  by (simp add: first_child_def Let_def)

lemma first_child_less: "hole < first_child lt xs hole"
  using first_child_cases [of lt xs hole] by auto

lemma first_child_bound: "hole < (length xs - 1) div 2 \<Longrightarrow> first_child lt xs hole < length xs"
  using first_child_cases [of lt xs hole] by auto

function sift_down :: "('a \<Rightarrow> 'a \<Rightarrow> bool) \<Rightarrow> 'a list \<Rightarrow> nat \<Rightarrow> 'a list \<times> nat" where
  "sift_down lt xs hole =
     (if hole < (length xs - 1) div 2
      then sift_down lt (xs[hole := xs ! first_child lt xs hole]) (first_child lt xs hole)
      else if even (length xs) \<and> 2 \<le> length xs \<and> hole = (length xs - 2) div 2
      then (xs[hole := xs ! (2 * hole + 1)], 2 * hole + 1)
      else (xs, hole))"
  by pat_completeness auto
termination
  by (relation "measure (\<lambda>(_, xs, hole). length xs - hole)") (auto intro!: diff_less_mono2 simp: first_child_less)

declare sift_up.simps [simp del] sift_down.simps [simp del]

definition pq_push :: "('a \<Rightarrow> 'a \<Rightarrow> bool) \<Rightarrow> 'a \<Rightarrow> 'a list \<Rightarrow> 'a list" where
  "pq_push lt v xs = sift_up lt (xs @ [v]) (length xs) v"

definition pq_top :: "'a list \<Rightarrow> 'a option" where
  "pq_top xs = (if xs = [] then None else Some (xs ! 0))"

text \<open>Popping from an empty queue is undefined.\<close>

definition pq_pop :: "('a \<Rightarrow> 'a \<Rightarrow> bool) \<Rightarrow> 'a list \<Rightarrow> 'a list option" where
  "pq_pop lt xs =
     (if xs = [] then None
      else if length xs = 1 then Some []
      else let (ys, hole) = sift_down lt (butlast xs) 0 in Some (sift_up lt ys hole (last xs)))"

section \<open>No element is lost\<close>

lemma mset_move:
  assumes "i < length xs" "j < length xs" "i \<noteq> j"
  shows "mset (xs[i := xs ! j, j := v]) = mset (xs[i := v])"
proof -
  have "mset ((xs[i := v])[j := xs[i := v] ! i, i := xs[i := v] ! j]) = mset (xs[i := v])"
    using assms by (intro mset_swap) simp_all
  moreover have "(xs[i := v])[j := xs[i := v] ! i, i := xs[i := v] ! j] = xs[i := xs ! j, j := v]"
    using assms by (simp add: list_update_swap [of j i])
  ultimately show ?thesis by simp
qed

lemma parent_less: "0 < i \<Longrightarrow> parent i < i"
  by auto

lemma sift_up_mset: "hole < length xs \<Longrightarrow> mset (sift_up lt xs hole v) = mset (xs[hole := v])"
proof (induction lt xs hole v rule: sift_up.induct)
  case (1 lt xs hole v)
  show ?case
  proof (cases "0 < hole \<and> lt (xs ! parent hole) v")
    case True
    then have p: "parent hole < length xs" "parent hole \<noteq> hole" using 1(2) by auto
    then show ?thesis
      using 1 True mset_move [of hole xs "parent hole" v] by (subst sift_up.simps) simp
  next
    case False
    then show ?thesis by (subst sift_up.simps) auto
  qed
qed

lemma sift_down_spec:
  assumes "hole < length xs" "sift_down lt xs hole = (ys, h)"
  shows "h < length ys \<and> length ys = length xs \<and> length xs \<le> 2 * h + 1 \<and> mset (ys[h := v]) = mset (xs[hole := v])"
  using assms
proof (induction lt xs hole rule: sift_down.induct)
  case (1 lt xs hole)
  consider "hole < (length xs - 1) div 2"
    | "\<not> hole < (length xs - 1) div 2" "even (length xs)" "2 \<le> length xs" "hole = (length xs - 2) div 2"
    | "\<not> hole < (length xs - 1) div 2" "\<not> (even (length xs) \<and> 2 \<le> length xs \<and> hole = (length xs - 2) div 2)"
    by blast
  then show ?case
  proof cases
    case 1
    define c where "c = first_child lt xs hole"
    have c: "c < length xs" "hole \<noteq> c" using first_child_bound [OF 1, of lt] first_child_less [of hole lt xs] by (simp_all add: c_def)
    have "sift_down lt (xs[hole := xs ! c]) c = (ys, h)"
      using "1.prems"(2) 1 by (subst (asm) sift_down.simps) (simp add: c_def)
    then have "h < length ys \<and> length ys = length xs \<and> length xs \<le> 2 * h + 1 \<and> mset (ys[h := v]) = mset (xs[hole := xs ! c, c := v])"
      using "1.IH" [OF 1] c(1) by (simp add: c_def)
    then show ?thesis using mset_move [OF "1.prems"(1) c] by simp
  next
    case 2
    then have "ys = xs[hole := xs ! (2 * hole + 1)]" "h = 2 * hole + 1"
      using "1.prems"(2) by (subst (asm) sift_down.simps; simp)+
    moreover have "2 * hole + 1 < length xs" using 2 by auto
    moreover have "length xs \<le> 2 * (2 * hole + 1) + 1" using 2 by auto
    ultimately show ?thesis using mset_move [OF "1.prems"(1), of "2 * hole + 1" v] by simp
  next
    case 3
    then have e: "ys = xs" "h = hole" using "1.prems"(2) by (subst (asm) sift_down.simps; auto)+
    have "length xs \<le> 2 * hole + 1" using 3 "1.prems"(1) by (cases "even (length xs)") (auto elim!: evenE oddE)
    then show ?thesis using e "1.prems"(1) by simp
  qed
qed

lemma pq_push_mset: "mset (pq_push lt v xs) = add_mset v (mset xs)"
  by (simp add: pq_push_def sift_up_mset)

lemma pq_pop_defined: "xs \<noteq> [] \<Longrightarrow> \<exists>ys. pq_pop lt xs = Some ys"
  by (simp add: pq_pop_def split: prod.splits)

lemma pq_pop_mset:
  assumes "pq_pop lt xs = Some ys"
  shows "mset xs = add_mset (xs ! 0) (mset ys)"
proof (cases "length xs = 1")
  case True
  then show ?thesis using assms by (cases xs) (auto simp: pq_pop_def)
next
  case False
  have ne: "xs \<noteq> []" using assms by (auto simp: pq_pop_def)
  then have len: "0 < length (butlast xs)" using False by (cases xs rule: rev_cases) auto
  obtain zs h where z: "sift_down lt (butlast xs) 0 = (zs, h)" by fastforce
  have "mset ys = mset ((butlast xs)[0 := last xs])"
    using assms False ne sift_down_spec [OF len z, of "last xs"] by (auto simp: pq_pop_def z sift_up_mset)
  also have "add_mset (xs ! 0) \<dots> = mset (butlast xs @ [last xs])"
    using len by (cases "butlast xs") (auto simp: nth_butlast [of 0 xs, symmetric])
  also have "butlast xs @ [last xs] = xs" using ne by simp
  finally show ?thesis by simp
qed

lemma pq_pop_length: "pq_pop lt xs = Some ys \<Longrightarrow> length ys < length xs"
  using arg_cong [OF pq_pop_mset, of lt xs ys size] by simp

section \<open>The order of the keys\<close>

text \<open>
  The invariants speak of the function \<open>k\<close> from the \<open>n\<close> positions to keys.  While an element
  rises from \<open>h\<close>, only the edge above \<open>h\<close> may be wrong; while a hole sinks, the edges at
  the hole are ignored.  In both cases the neighbours of \<open>h\<close> are in order across it.
\<close>

definition across :: "(nat \<Rightarrow> nat) \<Rightarrow> nat \<Rightarrow> nat \<Rightarrow> bool" where
  "across k n h \<longleftrightarrow> (0 < h \<longrightarrow> (\<forall>c<n. 0 < c \<longrightarrow> parent c = h \<longrightarrow> k (parent h) \<le> k c))"

definition rising :: "(nat \<Rightarrow> nat) \<Rightarrow> nat \<Rightarrow> nat \<Rightarrow> bool" where
  "rising k n h \<longleftrightarrow> (\<forall>i<n. 0 < i \<longrightarrow> i \<noteq> h \<longrightarrow> k (parent i) \<le> k i) \<and> across k n h"

definition sinking :: "(nat \<Rightarrow> nat) \<Rightarrow> nat \<Rightarrow> nat \<Rightarrow> bool" where
  "sinking k n h \<longleftrightarrow> (\<forall>i<n. 0 < i \<longrightarrow> i \<noteq> h \<longrightarrow> parent i \<noteq> h \<longrightarrow> k (parent i) \<le> k i) \<and> across k n h"

definition heap_ordered :: "(nat \<Rightarrow> nat) \<Rightarrow> nat \<Rightarrow> bool" where
  "heap_ordered k n \<longleftrightarrow> (\<forall>i<n. 0 < i \<longrightarrow> k (parent i) \<le> k i)"

lemma rising_step:
  assumes "rising k n h" "0 < h" "h < n" "k h < k (parent h)"
  shows "rising (k(h := k (parent h), parent h := k h)) n (parent h)"
proof -
  define p where "p = parent h"
  have p: "p < h" "p < n" using assms(2,3) by (auto simp: p_def)
  have e: "k (parent i) \<le> k i" if "i < n" "0 < i" "i \<noteq> h" for i
    using assms(1) that by (simp add: rising_def)
  have a: "k p \<le> k c" if "c < n" "0 < c" "parent c = h" for c
    using assms(1,2) that by (simp add: rising_def across_def p_def)
  have less: "k h < k p" using assms(4) by (simp add: p_def)
  define k' where "k' = k(h := k p, p := k h)"
  have k': "k' h = k p" "k' p = k h" "\<And>i. i \<noteq> h \<Longrightarrow> i \<noteq> p \<Longrightarrow> k' i = k i"
    using p by (simp_all add: k'_def)
  have edge: "k' (parent i) \<le> k' i" if i: "i < n" "0 < i" "i \<noteq> p" for i
  proof -
    consider "i = h" | "i \<noteq> h" "parent i = h" | "i \<noteq> h" "parent i = p" | "i \<noteq> h" "parent i \<noteq> h" "parent i \<noteq> p"
      by blast
    then show ?thesis
    proof cases
      case 1
      then have "parent i = p" by (simp only: p_def)
      then show ?thesis using 1 less by (simp only: k' less_imp_le)
    next
      case 2
      then show ?thesis using a [OF i(1,2)] i by (simp only: k' not_False_eq_True)
    next
      case 3
      then have "k p \<le> k i" using e [OF i(1,2)] by (simp only: not_False_eq_True)
      then have "k h \<le> k i" using less by (rule order.strict_implies_order [OF order.strict_trans2, rotated])
      then show ?thesis using 3 i by (simp only: k' not_False_eq_True)
    next
      case 4
      then show ?thesis using e [OF i(1,2)] i by (simp only: k' not_False_eq_True)
    qed
  qed
  have "across k' n p"
    unfolding across_def
  proof (intro impI allI)
    fix c assume c: "0 < p" "c < n" "0 < c" "parent c = p"
    have pp: "parent p < p" using c(1) by (rule parent_less)
    then have up: "k (parent p) \<le> k p" "k' (parent p) = k (parent p)"
      using e [of p] c(1) p k'(3) [of "parent p"] by (simp_all del: One_nat_def)
    show "k' (parent p) \<le> k' c"
    proof (cases "c = h")
      case True
      then show ?thesis using up k'(1) by (simp only:)
    next
      case False
      moreover have "c \<noteq> p" using parent_less [OF c(3)] c(4) by (simp del: One_nat_def)
      ultimately have "k p \<le> k c" "k' c = k c" using e [OF c(2,3)] c(4) k'(3) by (simp_all only: not_False_eq_True)
      then show ?thesis using up by (simp only: order.trans)
    qed
  qed
  then show ?thesis
    using edge unfolding rising_def p_def [symmetric] k'_def by blast
qed

lemma sinking_step:
  assumes "sinking k n h" "c < n" "0 < c" "parent c = h"
    and "\<forall>d<n. 0 < d \<longrightarrow> parent d = h \<longrightarrow> k c \<le> k d"
  shows "sinking (k(h := k c)) n c"
proof -
  have h: "h < c" using parent_less [OF assms(3)] assms(4) by simp
  have e: "k (parent i) \<le> k i" if "i < n" "0 < i" "i \<noteq> h" "parent i \<noteq> h" for i
    using assms(1) that by (simp add: sinking_def)
  have a: "0 < h \<Longrightarrow> k (parent h) \<le> k c"
    using assms(1-4) by (simp add: sinking_def across_def)
  have "k' (parent i) \<le> k' i" if "k' = k(h := k c)" "i < n" "0 < i" "i \<noteq> c" "parent i \<noteq> c" for k' i
    using e [OF that(2,3)] a that assms(5) parent_less [OF that(3)]
    by (cases "i = h"; cases "parent i = h") auto
  moreover have "across k' n c" if "k' = k(h := k c)" for k'
    unfolding across_def
  proof (intro impI allI)
    fix d assume d: "d < n" "0 < d" "parent d = c"
    have "c < d" using parent_less [OF d(2)] d(3) by (simp only:)
    then have "k c \<le> k d" using e [OF d(1,2)] d(3) h by (simp del: One_nat_def)
    then show "k' (parent c) \<le> k' d" using that assms(4) h \<open>c < d\<close> by (simp del: One_nat_def)
  qed
  ultimately show ?thesis by (simp add: sinking_def)
qed

lemma rising_leaf:
  assumes "sinking k n h" "n \<le> 2 * h + 1"
  shows "rising (k(h := v)) n h"
proof -
  have leaf: "parent i \<noteq> h" if "i < n" "0 < i" for i using that assms(2) by auto
  then show ?thesis using assms(1) by (auto simp: rising_def sinking_def across_def)
qed

lemma heap_root:
  assumes "heap_ordered k n" "i < n"
  shows "k 0 \<le> k i"
  using assms(2)
proof (induction i rule: less_induct)
  case (less i)
  show ?case
  proof (cases "i = 0")
    case False
    then have "k 0 \<le> k (parent i)" using less parent_less [of i] by simp
    also have "k (parent i) \<le> k i" using assms(1) less.prems False by (simp add: heap_ordered_def)
    finally show ?thesis .
  qed simp
qed

lemma rising_cong: "(\<And>i. i < n \<Longrightarrow> k i = k' i) \<Longrightarrow> h < n \<Longrightarrow> rising k n h \<longleftrightarrow> rising k' n h"
proof -
  assume k: "\<And>i. i < n \<Longrightarrow> k i = k' i" and h: "h < n"
  have "parent i < n" if "i < n" for i using that by auto
  then show ?thesis using k h by (simp add: rising_def across_def)
qed

lemma sinking_cong: "(\<And>i. i < n \<Longrightarrow> k i = k' i) \<Longrightarrow> h < n \<Longrightarrow> sinking k n h \<longleftrightarrow> sinking k' n h"
proof -
  assume k: "\<And>i. i < n \<Longrightarrow> k i = k' i" and h: "h < n"
  have "parent i < n" if "i < n" for i using that by auto
  then show ?thesis using k h by (simp add: sinking_def across_def)
qed

locale keyed_heap =
  fixes lt :: "'a \<Rightarrow> 'a \<Rightarrow> bool"
    and key :: "'a \<Rightarrow> nat"
    and ok :: "'a \<Rightarrow> bool"
  assumes lt_key: "ok x \<Longrightarrow> ok y \<Longrightarrow> lt x y \<longleftrightarrow> key y < key x"
begin

definition heap :: "'a list \<Rightarrow> bool" where
  "heap xs \<longleftrightarrow> (\<forall>x\<in>set xs. ok x) \<and> heap_ordered (\<lambda>i. key (xs ! i)) (length xs)"

lemma sift_up_ordered:
  assumes "hole < length xs" "\<forall>x\<in>set (xs[hole := v]). ok x"
    and "rising (\<lambda>i. key (xs[hole := v] ! i)) (length xs) hole"
  shows "heap_ordered (\<lambda>i. key (sift_up lt xs hole v ! i)) (length xs)"
  using assms
proof (induction hole arbitrary: xs rule: less_induct)
  case (less hole)
  let ?p = "parent hole"
  have ok: "ok (xs ! ?p)" "ok v" if "0 < hole"
    using less.prems(1,2) nth_mem [of ?p "xs[hole := v]"] nth_mem [of hole "xs[hole := v]"] parent_less [OF that] by auto
  show ?case
  proof (cases "0 < hole \<and> lt (xs ! ?p) v")
    case True
    let ?ys = "xs[hole := xs ! ?p]"
    have k: "key v < key (xs ! ?p)" and p: "?p < hole" using ok lt_key True by auto
    have m: "mset (?ys[?p := v]) = mset (xs[hole := v])"
      using less.prems(1) p by (intro mset_move) auto
    have "rising (\<lambda>i. key (?ys[?p := v] ! i)) (length xs) ?p"
      using rising_step [OF less.prems(3)] True less.prems(1) p k
      by (subst rising_cong) (auto simp: nth_list_update)
    then have "heap_ordered (\<lambda>i. key (sift_up lt ?ys ?p v ! i)) (length xs)"
      using less.IH [OF p, of ?ys] less.prems(1,2) p mset_eq_setD [OF m] by simp
    then show ?thesis using True by (subst sift_up.simps) simp
  next
    case False
    then have "0 < hole \<Longrightarrow> key (xs ! ?p) \<le> key v" using ok lt_key by auto
    then have "key (xs[hole := v] ! parent i) \<le> key (xs[hole := v] ! i)" if "i < length xs" "0 < i" for i
      using less.prems(1,3) that parent_less [OF that(2)] by (cases "i = hole") (simp_all add: rising_def)
    moreover have "sift_up lt xs hole v = xs[hole := v]" using False by (subst sift_up.simps) (rule if_not_P)
    ultimately show ?thesis by (simp add: heap_ordered_def)
  qed
qed

lemma sift_down_sinking:
  assumes "sift_down lt xs hole = (ys, h)" "hole < length xs"
    and "\<forall>i<length xs. i \<noteq> hole \<longrightarrow> ok (xs ! i)"
    and "sinking (\<lambda>i. key (xs ! i)) (length xs) hole"
  shows "sinking (\<lambda>i. key (ys ! i)) (length xs) h \<and> (\<forall>i<length xs. i \<noteq> h \<longrightarrow> ok (ys ! i))"
  using assms
proof (induction "length xs - hole" arbitrary: xs hole rule: less_induct)
  case less
  have step: "sinking (\<lambda>i. key (xs[hole := xs ! c] ! i)) (length xs) c \<and>
      (\<forall>i<length xs. i \<noteq> c \<longrightarrow> ok (xs[hole := xs ! c] ! i))"
    if c: "c < length xs" "0 < c" "parent c = hole"
      and m: "\<forall>d<length xs. 0 < d \<longrightarrow> parent d = hole \<longrightarrow> key (xs ! c) \<le> key (xs ! d)" for c
  proof
    show "sinking (\<lambda>i. key (xs[hole := xs ! c] ! i)) (length xs) c"
      using sinking_step [OF less.prems(4) c m] c(1) less.prems(2)
      by (subst sinking_cong) (auto simp: nth_list_update)
    show "\<forall>i<length xs. i \<noteq> c \<longrightarrow> ok (xs[hole := xs ! c] ! i)"
      using less.prems(2,3) c parent_less [OF c(2)] by (simp add: nth_list_update)
  qed
  consider "hole < (length xs - 1) div 2"
    | "\<not> hole < (length xs - 1) div 2" "even (length xs)" "2 \<le> length xs" "hole = (length xs - 2) div 2"
    | "\<not> hole < (length xs - 1) div 2" "\<not> (even (length xs) \<and> 2 \<le> length xs \<and> hole = (length xs - 2) div 2)"
    by blast
  then show ?case
  proof cases
    case 1
    define c where "c = first_child lt xs hole"
    have c: "c < length xs" "hole < c" "0 < c" "parent c = hole"
      using first_child_bound [OF 1, of lt] first_child_less [of hole lt xs] first_child_cases [of lt xs hole]
      by (auto simp: c_def)
    have "ok (xs ! (2 * hole + 1))" "ok (xs ! (2 * hole + 2))" using less.prems(3) 1 by auto
    then have "key (xs ! c) \<le> key (xs ! (2 * hole + 1))" "key (xs ! c) \<le> key (xs ! (2 * hole + 2))"
      by (auto simp: c_def first_child_def lt_key)
    moreover have "d = 2 * hole + 1 \<or> d = 2 * hole + 2" if "0 < d" "parent d = hole" for d
      using that by auto
    ultimately have m: "\<forall>d<length xs. 0 < d \<longrightarrow> parent d = hole \<longrightarrow> key (xs ! c) \<le> key (xs ! d)" by metis
    have "sift_down lt (xs[hole := xs ! c]) c = (ys, h)"
      using less.prems(1) 1 by (subst (asm) sift_down.simps) (simp add: c_def)
    moreover have "length (xs[hole := xs ! c]) - c < length xs - hole"
      using c by simp
    ultimately show ?thesis
      using less.hyps [of "xs[hole := xs ! c]" c] step [OF c(1,3,4) m] c(1) by simp
  next
    case 2
    then have e: "ys = xs[hole := xs ! (2 * hole + 1)]" "h = 2 * hole + 1"
      using less.prems(1) by (subst (asm) sift_down.simps; simp)+
    have len: "length xs = 2 * hole + 2" using 2 by (auto elim!: evenE)
    have "d = h" if "0 < d" "parent d = hole" "d < length xs" for d
      using that e(2) len by auto
    then have "\<forall>d<length xs. 0 < d \<longrightarrow> parent d = hole \<longrightarrow> key (xs ! h) \<le> key (xs ! d)" by blast
    then show ?thesis using step [of h] e len by simp
  next
    case 3
    then have "ys = xs" "h = hole" using less.prems(1) by (subst (asm) sift_down.simps; auto)+
    then show ?thesis using less.prems by simp
  qed
qed

lemma heap_push:
  assumes "heap xs" "ok v"
  shows "heap (pq_push lt v xs)"
proof -
  let ?n = "length xs"
  have "rising (\<lambda>i. key ((xs @ [v])[?n := v] ! i)) (length (xs @ [v])) ?n"
    using assms(1) by (auto simp: heap_def heap_ordered_def rising_def across_def nth_append)
  then have "heap_ordered (\<lambda>i. key (pq_push lt v xs ! i)) (length (xs @ [v]))"
    unfolding pq_push_def using assms by (intro sift_up_ordered) (auto simp: heap_def)
  moreover have "length (pq_push lt v xs) = length (xs @ [v])" "set (pq_push lt v xs) = set (xs @ [v])"
    using pq_push_mset [of lt v xs] mset_eq_length [of "pq_push lt v xs" "v # xs"] mset_eq_setD [of "pq_push lt v xs" "v # xs"]
    by simp_all
  ultimately show ?thesis using assms by (simp add: heap_def)
qed

lemma heap_pop:
  assumes "heap xs" "pq_pop lt xs = Some ys"
  shows "heap ys"
proof (cases "length xs = 1")
  case True
  then show ?thesis using assms(2) by (auto simp: pq_pop_def heap_def heap_ordered_def split: if_splits)
next
  case False
  let ?b = "butlast xs" and ?v = "last xs"
  have ne: "xs \<noteq> []" using assms(2) by (auto simp: pq_pop_def)
  then have len: "0 < length ?b" using False by (cases xs rule: rev_cases) auto
  obtain zs h where z: "sift_down lt ?b 0 = (zs, h)" by fastforce
  have ys: "ys = sift_up lt zs h ?v" using assms(2) False ne by (simp add: pq_pop_def z)
  note sp = sift_down_spec [OF len z, of ?v]
  have ok: "\<forall>x\<in>set xs. ok x" using assms(1) by (simp add: heap_def)
  have "sinking (\<lambda>i. key (?b ! i)) (length ?b) 0"
  proof -
    have "parent i < length ?b" if "i < length ?b" for i using that by auto
    then show ?thesis
      using assms(1) by (auto simp: sinking_def across_def heap_def heap_ordered_def nth_butlast)
  qed
  moreover have "\<forall>i<length ?b. i \<noteq> 0 \<longrightarrow> ok (?b ! i)" using ok by (simp add: nth_butlast)
  ultimately have "sinking (\<lambda>i. key (zs ! i)) (length ?b) h" using sift_down_sinking [OF z len] by blast
  then have "rising ((\<lambda>i. key (zs ! i))(h := key ?v)) (length zs) h" using sp by (intro rising_leaf) simp_all
  then have r: "rising (\<lambda>i. key (zs[h := ?v] ! i)) (length zs) h"
    using sp by (subst rising_cong) (auto simp: nth_list_update)
  have m: "mset (zs[h := ?v]) = mset (?b[0 := ?v])" using sp by blast
  have s: "set (zs[h := ?v]) \<subseteq> set xs"
    using mset_eq_setD [OF m] set_update_subset_insert [of ?b 0 ?v] ne by (auto dest: in_set_butlastD)
  have "heap_ordered (\<lambda>i. key (ys ! i)) (length zs)"
    unfolding ys using sp s ok r by (intro sift_up_ordered) auto
  moreover have "mset ys = mset (zs[h := ?v])" unfolding ys using sp by (intro sift_up_mset) simp
  then have "length ys = length zs" "set ys \<subseteq> set xs"
    using s mset_eq_length mset_eq_setD by (fastforce, blast)
  ultimately show ?thesis using ok by (auto simp: heap_def)
qed

lemma heap_top_least:
  assumes "heap xs" "pq_top xs = Some x" "y \<in> set xs"
  shows "key x \<le> key y"
proof -
  obtain i where "i < length xs" "y = xs ! i" using assms(3) by (metis in_set_conv_nth)
  then show ?thesis
    using assms(1,2) heap_root [of "\<lambda>i. key (xs ! i)" "length xs" i] by (auto simp: heap_def pq_top_def split: if_splits)
qed

text \<open>Popping \<open>n\<close> times yields the \<open>n\<close> smallest keys in ascending order.\<close>

lemma sort_pop:
  assumes "heap xs" "pq_pop lt xs = Some ys"
  shows "sort (map key xs) = key (xs ! 0) # sort (map key ys)"
proof (rule properties_for_sort)
  have m: "mset xs = add_mset (xs ! 0) (mset ys)" by (rule pq_pop_mset [OF assms(2)])
  then show "mset (key (xs ! 0) # sort (map key ys)) = mset (map key xs)" by simp
  have "set ys \<subseteq> set xs" using mset_eq_setD [of xs "xs ! 0 # ys"] m by auto
  moreover have "xs \<noteq> []" using assms(2) by (auto simp: pq_pop_def)
  ultimately have "\<forall>y\<in>set ys. key (xs ! 0) \<le> key y"
    using heap_top_least [OF assms(1)] by (auto simp: pq_top_def)
  then show "sorted (key (xs ! 0) # sort (map key ys))" by simp
qed

end

end
