(* ===== verification/Rtp_Packet_Buffer.thy ===== *)
theory Rtp_Packet_Buffer
  imports Std_Heap Rtp_Packet_Queue
begin

text \<open>
  \<open>src/orbit/modules/rtp_packet_buffer.{h,cc}\<close>: the jitter buffer \<open>RtpPacketBuffer\<close>, a
  priority queue of packets ordered by sequence number that gives nothing out before more than
  \<open>prebuffering_size\<close> packets are stored, and \<open>VideoAwareFrameBuffer\<close>, which in its storage
  mode keeps the packets from the latest key frame on.  Each public method holds a mutex and is
  one step on the state.

  \<open>depacketize\<close> stands for \<open>RtpDepacketizer_Parse\<close> of the vendored WebRTC code: \<open>None\<close> for a
  payload it rejects, otherwise whether the payload starts a key frame.
\<close>

section \<open>RtpPacketBuffer\<close>

record rtp_packet_buffer =
  pb_queue :: "dataPacket list"
  prebuffering_size :: int

definition RtpPacketBuffer_new :: "int \<Rightarrow> rtp_packet_buffer" where
  "RtpPacketBuffer_new psize = \<lparr>pb_queue = [], prebuffering_size = psize\<rparr>"

text \<open>The comparison object; a stored packet has its 1500 bytes, so both headers are readable.\<close>

definition comes_after :: "dataPacket \<Rightarrow> dataPacket \<Rightarrow> bool" where
  "comes_after a b =
     (case (getSeqNumber (data a), getSeqNumber (data b)) of
        (Some x, Some y) \<Rightarrow> dataPacketComparator x y | _ \<Rightarrow> False)"

definition buffer_PushPacket :: "buffer \<Rightarrow> int \<Rightarrow> rtp_packet_buffer \<Rightarrow> rtp_packet_buffer option" where
  "buffer_PushPacket dat len q = do {
     bytes \<leftarrow> memcpy (data dataPacket_new) dat len;
     Some (q\<lparr>pb_queue := pq_push comes_after (dataPacket_new\<lparr>data := bytes, pkt_length := len\<rparr>) (pb_queue q)\<rparr>) }"

text \<open>The overload for packets also takes over the three time stamps, but not the type.\<close>

definition buffer_PushDataPacket :: "dataPacket \<Rightarrow> rtp_packet_buffer \<Rightarrow> rtp_packet_buffer option" where
  "buffer_PushDataPacket packet q = do {
     bytes \<leftarrow> memcpy (data dataPacket_new) (data packet) (pkt_length packet);
     Some (q\<lparr>pb_queue := pq_push comes_after
        (dataPacket_new\<lparr>data := bytes, pkt_length := pkt_length packet,
           remote_ntp_time_ms := remote_ntp_time_ms packet, arrival_time_ms := arrival_time_ms packet,
           rtp_timestamp := rtp_timestamp packet\<rparr>) (pb_queue q)\<rparr>) }"

text \<open>\<open>queue_.size () > prebuffering_size_\<close>: the \<open>int\<close> is converted to an unsigned 64-bit value.\<close>

definition ready_to_pop :: "rtp_packet_buffer \<Rightarrow> bool" where
  "ready_to_pop q \<longleftrightarrow> uint (word_of_int (prebuffering_size q) :: u64) < int (length (pb_queue q))"

definition buffer_PopPacket :: "rtp_packet_buffer \<Rightarrow> (dataPacket option \<times> rtp_packet_buffer) option" where
  "buffer_PopPacket q =
     (if ready_to_pop q then do {
        p \<leftarrow> pq_top (pb_queue q);
        rest \<leftarrow> pq_pop comes_after (pb_queue q);
        Some (Some p, q\<lparr>pb_queue := rest\<rparr>) }
      else Some (None, q))"

definition buffer_TopPacket :: "rtp_packet_buffer \<Rightarrow> dataPacket option option" where
  "buffer_TopPacket q =
     (if ready_to_pop q then map_option Some (pq_top (pb_queue q)) else Some None)"

definition buffer_GetSize :: "rtp_packet_buffer \<Rightarrow> int" where
  "buffer_GetSize q = int (length (pb_queue q))"

definition buffer_IsEmpty :: "rtp_packet_buffer \<Rightarrow> bool" where
  "buffer_IsEmpty q \<longleftrightarrow> buffer_GetSize q = 0"

definition buffer_PrebufferingDone :: "rtp_packet_buffer \<Rightarrow> bool" where
  "buffer_PrebufferingDone q \<longleftrightarrow> buffer_GetSize q > prebuffering_size q"

text \<open>\<open>while (!IsEmpty ()) queue_.pop ()\<close>\<close>

function CleanBuffer :: "rtp_packet_buffer \<Rightarrow> rtp_packet_buffer option" where
  "CleanBuffer q =
     (if buffer_IsEmpty q then Some q
      else case pq_pop comes_after (pb_queue q) of
             None \<Rightarrow> None
           | Some rest \<Rightarrow> CleanBuffer (q\<lparr>pb_queue := rest\<rparr>))"
  by pat_completeness auto
termination
  by (relation "measure (\<lambda>q. length (pb_queue q))") (auto dest: pq_pop_length)

declare CleanBuffer.simps [simp del]

definition SetPrebufferingSize :: "int \<Rightarrow> rtp_packet_buffer \<Rightarrow> rtp_packet_buffer" where
  "SetPrebufferingSize psize q = q\<lparr>prebuffering_size := psize\<rparr>"

section \<open>VideoAwareFrameBuffer\<close>

datatype BufferType = NORMAL_BUFFER | STORAGE_BUFFER | PLAY_BUFFER

definition GetBufferTypeAsString :: "BufferType \<Rightarrow> string" where
  "GetBufferTypeAsString ty =
     (case ty of NORMAL_BUFFER \<Rightarrow> ''NORMAL_BUFFER'' | STORAGE_BUFFER \<Rightarrow> ''STORAGE_BUFFER''
      | PLAY_BUFFER \<Rightarrow> ''PLAY_BUFFER'')"

record video_aware_buffer =
  va_buffer :: rtp_packet_buffer
  buffer_type :: BufferType
  has_key_frame :: bool
  key_frame_seq :: int

definition VideoAwareFrameBuffer_new :: "int \<Rightarrow> video_aware_buffer" where
  "VideoAwareFrameBuffer_new psize =
     \<lparr>va_buffer = RtpPacketBuffer_new psize, buffer_type = NORMAL_BUFFER, has_key_frame = False, key_frame_seq = 0\<rparr>"

definition SetBufferType :: "BufferType \<Rightarrow> video_aware_buffer \<Rightarrow> video_aware_buffer" where
  "SetBufferType ty s = s\<lparr>buffer_type := ty\<rparr>"

definition ResetBuffer :: "video_aware_buffer \<Rightarrow> video_aware_buffer option" where
  "ResetBuffer s = do {
     q \<leftarrow> CleanBuffer (va_buffer s);
     Some (s\<lparr>has_key_frame := False, va_buffer := q\<rparr>) }"

definition IsKeyFramePacketStatic :: "(u8 \<Rightarrow> buffer \<Rightarrow> int \<Rightarrow> bool option) \<Rightarrow> buffer \<Rightarrow> int \<Rightarrow> bool option" where
  "IsKeyFramePacketStatic depacketize b len = do {
     payload \<leftarrow> getPayloadType b;
     Some (case depacketize payload (drop 12 b) (len - 12) of None \<Rightarrow> False | Some is_key \<Rightarrow> is_key) }"

definition va_PushPacket ::
    "(u8 \<Rightarrow> buffer \<Rightarrow> int \<Rightarrow> bool option) \<Rightarrow> buffer \<Rightarrow> int \<Rightarrow> video_aware_buffer \<Rightarrow> video_aware_buffer option" where
  "va_PushPacket depacketize dat len s = do {
     cur \<leftarrow> getSeqNumber dat;
     case buffer_type s of
       NORMAL_BUFFER \<Rightarrow> do { q \<leftarrow> CleanBuffer (va_buffer s); Some (s\<lparr>va_buffer := q\<rparr>) }
     | STORAGE_BUFFER \<Rightarrow> do {
         is_key \<leftarrow> IsKeyFramePacketStatic depacketize dat len;
         if is_key then do {
           q \<leftarrow> CleanBuffer (va_buffer s);
           q \<leftarrow> buffer_PushPacket dat len q;
           Some (s\<lparr>va_buffer := q, key_frame_seq := uint cur, has_key_frame := True\<rparr>) }
         else if has_key_frame s \<and> uint cur > key_frame_seq s then do {
           q \<leftarrow> buffer_PushPacket dat len (va_buffer s);
           Some (s\<lparr>va_buffer := q\<rparr>) }
         else Some s }
     | PLAY_BUFFER \<Rightarrow> do { q \<leftarrow> buffer_PushPacket dat len (va_buffer s); Some (s\<lparr>va_buffer := q\<rparr>) } }"

definition va_PopPacket :: "video_aware_buffer \<Rightarrow> (dataPacket option \<times> video_aware_buffer) option" where
  "va_PopPacket s =
     (if buffer_type s = PLAY_BUFFER then do {
        (p, q) \<leftarrow> buffer_PopPacket (va_buffer s);
        Some (p, s\<lparr>va_buffer := q\<rparr>) }
      else Some (None, s))"

section \<open>Order of the popped packets\<close>

definition in_play :: "u16 \<Rightarrow> dataPacket \<Rightarrow> bool" where
  "in_play b p \<longleftrightarrow> pkt_wf p \<and> in_window b (seq_of p)"

lemma comes_after_wf: "pkt_wf x \<Longrightarrow> pkt_wf y \<Longrightarrow> comes_after x y \<longleftrightarrow> dataPacketComparator (seq_of x) (seq_of y)"
  by (simp add: comes_after_def getSeqNumber_wf)

interpretation ph: keyed_heap comes_after "\<lambda>p. ahead b (seq_of p)" "in_play b" for b
  by unfold_locales (simp add: in_play_def comes_after_wf pb.lt_window)

lemma clean_empties: "CleanBuffer q = Some (q\<lparr>pb_queue := []\<rparr>)"
proof (induction q rule: CleanBuffer.induct)
  case (1 q)
  show ?case
  proof (cases "pb_queue q = []")
    case True
    then show ?thesis by (subst CleanBuffer.simps) (simp add: buffer_IsEmpty_def buffer_GetSize_def)
  next
    case False
    then obtain rest where "pq_pop comes_after (pb_queue q) = Some rest" using pq_pop_defined by blast
    moreover have "\<not> buffer_IsEmpty q" using False by (simp add: buffer_IsEmpty_def buffer_GetSize_def)
    ultimately show ?thesis using 1 by (subst CleanBuffer.simps) simp
  qed
qed

text \<open>A datagram that can be stored: it has a header, fits into a packet and is complete.\<close>

definition storable :: "buffer \<times> int \<Rightarrow> bool" where
  "storable d \<longleftrightarrow> 12 \<le> snd d \<and> snd d \<le> 1500 \<and> nat (snd d) \<le> length (fst d)"

abbreviation dgram_seq :: "buffer \<times> int \<Rightarrow> u16" where
  "dgram_seq d \<equiv> le16 (fst d ! 3) (fst d ! 2)"

lemma push_spec:
  assumes "storable d"
  shows "\<exists>p. (\<forall>q. buffer_PushPacket (fst d) (snd d) q = Some (q\<lparr>pb_queue := pq_push comes_after p (pb_queue q)\<rparr>)) \<and>
    pkt_wf p \<and> seq_of p = dgram_seq d"
proof -
  have "0 \<le> snd d \<and> nat (snd d) \<le> length (data dataPacket_new) \<and> nat (snd d) \<le> length (fst d)"
    using assms by (simp add: storable_def dataPacket_new_def DATA_SIZE_def nat_le_iff)
  then obtain bytes where m: "memcpy (data dataPacket_new) (fst d) (snd d) = Some bytes" by (simp add: memcpy_def)
  show ?thesis
    using pushed_packet [OF m] assms
    by (intro exI [of _ "dataPacket_new\<lparr>data := bytes, pkt_length := snd d\<rparr>"])
      (simp add: buffer_PushPacket_def m storable_def)
qed

lemma push_all_heap:
  assumes "ph.heap b (pb_queue q)" "\<forall>d\<in>set ds. storable d \<and> in_window b (dgram_seq d)"
  shows "\<exists>xs. push_all (\<lambda>q d. buffer_PushPacket (fst d) (snd d) q) q ds = Some (q\<lparr>pb_queue := xs\<rparr>) \<and> ph.heap b xs \<and>
    mset (map seq_of xs) = mset (map seq_of (pb_queue q)) + mset (map dgram_seq ds)"
  using assms
proof (induction ds arbitrary: q)
  case Nil
  then show ?case by (intro exI [of _ "pb_queue q"]) simp
next
  case (Cons d ds)
  obtain p where p: "buffer_PushPacket (fst d) (snd d) q = Some (q\<lparr>pb_queue := pq_push comes_after p (pb_queue q)\<rparr>)"
      "pkt_wf p" "seq_of p = dgram_seq d"
    using push_spec Cons.prems(2) by (metis list.set_intros(1))
  have h: "ph.heap b (pq_push comes_after p (pb_queue q))"
    using ph.heap_push [OF Cons.prems(1)] p(2,3) Cons.prems(2) by (simp add: in_play_def)
  then obtain xs where "push_all (\<lambda>q d. buffer_PushPacket (fst d) (snd d) q) (q\<lparr>pb_queue := pq_push comes_after p (pb_queue q)\<rparr>) ds =
      Some (q\<lparr>pb_queue := xs\<rparr>)" "ph.heap b xs"
      "mset (map seq_of xs) = mset (map seq_of (pq_push comes_after p (pb_queue q))) + mset (map dgram_seq ds)"
    using Cons.IH [of "q\<lparr>pb_queue := pq_push comes_after p (pb_queue q)\<rparr>"] Cons.prems(2) by auto
  then show ?case using p by (intro exI [of _ xs]) (simp add: pq_push_mset)
qed

lemma pop_all_sorted:
  assumes "ph.heap b (pb_queue q)" "0 \<le> prebuffering_size q" "prebuffering_size q < 2 ^ 31" "length (pb_queue q) \<le> n"
  shows "\<exists>ps. pop_all buffer_PopPacket n q = Some ps \<and>
    map (\<lambda>p. ahead b (seq_of p)) ps =
      take (length (pb_queue q) - nat (prebuffering_size q)) (sort (map (\<lambda>p. ahead b (seq_of p)) (pb_queue q)))"
  using assms
proof (induction n arbitrary: q)
  case 0
  then show ?case by simp
next
  case (Suc n)
  have r: "ready_to_pop q \<longleftrightarrow> nat (prebuffering_size q) < length (pb_queue q)"
    using Suc.prems(2,3) by (simp add: ready_to_pop_def uint_word_of_int mod_pos_pos_trivial) linarith
  show ?case
  proof (cases "ready_to_pop q")
    case False
    then show ?thesis using r by (simp add: buffer_PopPacket_def)
  next
    case True
    then have ne: "pb_queue q \<noteq> []" using r by auto
    then obtain rest where rest: "pq_pop comes_after (pb_queue q) = Some rest" using pq_pop_defined by blast
    have pop: "buffer_PopPacket q = Some (Some (pb_queue q ! 0), q\<lparr>pb_queue := rest\<rparr>)"
      using True ne rest by (simp add: buffer_PopPacket_def pq_top_def)
    have len: "length (pb_queue q) = Suc (length rest)"
      using arg_cong [OF pq_pop_mset [OF rest], of size] by simp
    obtain ps where ps: "pop_all buffer_PopPacket n (q\<lparr>pb_queue := rest\<rparr>) = Some ps"
        "map (\<lambda>p. ahead b (seq_of p)) ps = take (length rest - nat (prebuffering_size q)) (sort (map (\<lambda>p. ahead b (seq_of p)) rest))"
      using Suc.IH [of "q\<lparr>pb_queue := rest\<rparr>"] Suc.prems ph.heap_pop [OF Suc.prems(1) rest] len by auto
    have "length (pb_queue q) - nat (prebuffering_size q) = Suc (length rest - nat (prebuffering_size q))"
      using True r len by simp
    then show ?thesis using pop ps ph.sort_pop [OF Suc.prems(1) rest] by simp
  qed
qed

text \<open>
  C22. The jitter buffer reorders.  Packets whose sequence numbers lie in one window of 0x8000
  numbers, pushed in any order and with duplicates, are popped in ascending order, duplicates
  included; exactly the last \<open>prebuffering_size\<close> of them stay in the buffer.
\<close>

theorem packet_buffer_reorders:
  assumes "0 \<le> psize" "psize < 2 ^ 31" "\<forall>d\<in>set ds. storable d \<and> in_window b (dgram_seq d)"
  shows "\<exists>q ps. push_all (\<lambda>q d. buffer_PushPacket (fst d) (snd d) q) (RtpPacketBuffer_new psize) ds = Some q \<and>
    pop_all buffer_PopPacket (length ds) q = Some ps \<and>
    map (\<lambda>p. ahead b (seq_of p)) ps = take (length ds - nat psize) (sort (map (\<lambda>d. ahead b (dgram_seq d)) ds))"
proof -
  have "ph.heap b (pb_queue (RtpPacketBuffer_new psize))"
    by (simp add: ph.heap_def RtpPacketBuffer_new_def heap_ordered_def)
  then obtain xs where xs:
      "push_all (\<lambda>q d. buffer_PushPacket (fst d) (snd d) q) (RtpPacketBuffer_new psize) ds = Some ((RtpPacketBuffer_new psize)\<lparr>pb_queue := xs\<rparr>)"
      "ph.heap b xs" "mset (map seq_of xs) = mset (map dgram_seq ds)"
    using push_all_heap [of b "RtpPacketBuffer_new psize" ds] assms(3) by (auto simp: RtpPacketBuffer_new_def)
  have len: "length xs = length ds" using arg_cong [OF xs(3), of size] by simp
  have "mset (map (ahead b) (map seq_of xs)) = mset (map (ahead b) (map dgram_seq ds))"
    using arg_cong [OF xs(3), of "image_mset (ahead b)"] by (simp only: mset_map)
  then have "mset (map (\<lambda>p. ahead b (seq_of p)) xs) = mset (map (\<lambda>d. ahead b (dgram_seq d)) ds)"
    by (simp only: map_map o_def)
  then have "sort (map (\<lambda>p. ahead b (seq_of p)) xs) = sort (map (\<lambda>d. ahead b (dgram_seq d)) ds)"
    by (intro properties_for_sort) (simp_all only: mset_sort sorted_sort)
  then show ?thesis
    using pop_all_sorted [of b "(RtpPacketBuffer_new psize)\<lparr>pb_queue := xs\<rparr>" "length ds"] xs len assms(1,2)
    by (simp add: RtpPacketBuffer_new_def)
qed

theorem packet_buffer_reorders_witness:
  "\<exists>q ps. push_all (\<lambda>q d. buffer_PushPacket (fst d) (snd d) q) (RtpPacketBuffer_new 1)
       [([128, 96, 0, 1] @ replicate 8 0, 12), ([128, 96, 255, 255] @ replicate 8 0, 12), ([128, 96, 0, 0] @ replicate 8 0, 12)] = Some q \<and>
    pop_all buffer_PopPacket 3 q = Some ps \<and> map (\<lambda>p. ahead 65535 (seq_of p)) ps = [0, 1]"
proof -
  let ?ds = "[([128, 96, 0, 1] @ replicate 8 0, 12), ([128, 96, 255, 255] @ replicate 8 0, 12), ([128, 96, 0, 0] @ replicate 8 0, 12)]"
  have ok: "\<forall>d\<in>set ?ds. storable d \<and> in_window 65535 (dgram_seq d)"
    by (simp add: storable_def in_window_def ahead_def le16_def)
  have first: "take (length ?ds - nat 1) (sort (map (\<lambda>d. ahead 65535 (dgram_seq d)) ?ds)) = [0, 1]"
    by (simp add: ahead_def le16_def)
  have len: "length ?ds = 3" and small: "(1 :: int) < 2 ^ 31" by simp_all
  show ?thesis
    using packet_buffer_reorders [of 1 ?ds 65535, OF zero_le_one small ok] unfolding first unfolding len .
qed

section \<open>Storage mode\<close>

text \<open>
  With the sequence numbers in the integer range \<open>base\<close> to \<open>base + 0x7fff\<close>, the buffer starts
  with its key frame: no stored packet comes before it.
\<close>

definition storage_inv :: "u16 \<Rightarrow> video_aware_buffer \<Rightarrow> bool" where
  "storage_inv base s \<longleftrightarrow> buffer_type s = STORAGE_BUFFER \<and> ph.heap base (pb_queue (va_buffer s)) \<and>
     (if has_key_frame s
      then \<exists>p\<in>set (pb_queue (va_buffer s)). uint (seq_of p) = key_frame_seq s \<and>
             (\<forall>x\<in>set (pb_queue (va_buffer s)). uint base \<le> uint (seq_of p) \<and> uint (seq_of p) \<le> uint (seq_of x))
      else pb_queue (va_buffer s) = [])"

definition from_base :: "u16 \<Rightarrow> u16 \<Rightarrow> bool" where
  "from_base base x \<longleftrightarrow> uint base \<le> uint x \<and> uint x < uint base + 0x8000"

lemma from_base_window: "from_base base x \<Longrightarrow> in_window base x \<and> int (ahead base x) = uint x - uint base"
  using ahead_cases [of base x] by (simp add: from_base_def in_window_def)

lemma storage_push:
  assumes "storage_inv base s" "storable d" "from_base base (dgram_seq d)"
    and "IsKeyFramePacketStatic depacketize (fst d) (snd d) = Some is_key"
  shows "\<exists>s'. va_PushPacket depacketize (fst d) (snd d) s = Some s' \<and> storage_inv base s' \<and>
    has_key_frame s' = (has_key_frame s \<or> is_key) \<and>
    key_frame_seq s' = (if is_key then uint (dgram_seq d) else key_frame_seq s)"
proof -
  have seq: "getSeqNumber (fst d) = Some (dgram_seq d)"
    using assms(2) by (intro getSeqNumber_bytes) (auto simp: storable_def)
  have ty: "buffer_type s = STORAGE_BUFFER" using assms(1) by (simp add: storage_inv_def)
  obtain p where p: "\<And>q. buffer_PushPacket (fst d) (snd d) q = Some (q\<lparr>pb_queue := pq_push comes_after p (pb_queue q)\<rparr>)"
      "pkt_wf p" "seq_of p = dgram_seq d"
    using push_spec [OF assms(2)] by auto
  have ok: "in_play base p" using p(2,3) from_base_window [OF assms(3)] by (simp add: in_play_def)
  have elems: "set (pq_push comes_after p xs) = insert p (set xs)" for xs
    using mset_eq_setD [of "pq_push comes_after p xs" "p # xs"] by (simp add: pq_push_mset)
  consider "is_key" | "\<not> is_key" "has_key_frame s \<and> uint (dgram_seq d) > key_frame_seq s"
    | "\<not> is_key" "\<not> (has_key_frame s \<and> uint (dgram_seq d) > key_frame_seq s)" by blast
  then show ?thesis
  proof cases
    case 1
    have "ph.heap base []" by (simp add: ph.heap_def heap_ordered_def)
    then have "ph.heap base (pq_push comes_after p [])" using ok by (rule ph.heap_push)
    then show ?thesis
      using 1 assms(3,4) seq ty p elems by (simp add: va_PushPacket_def clean_empties storage_inv_def from_base_def)
  next
    case 2
    have "ph.heap base (pq_push comes_after p (pb_queue (va_buffer s)))"
      using assms(1) ok by (intro ph.heap_push) (simp_all add: storage_inv_def)
    moreover obtain k where "k \<in> set (pb_queue (va_buffer s))" "uint (seq_of k) = key_frame_seq s"
      "\<forall>x\<in>set (pb_queue (va_buffer s)). uint base \<le> uint (seq_of k) \<and> uint (seq_of k) \<le> uint (seq_of x)"
      using assms(1) 2 by (auto simp: storage_inv_def)
    ultimately show ?thesis
      using 2 assms(4) seq ty p elems by (auto simp: va_PushPacket_def storage_inv_def)
  next
    case 3
    then show ?thesis using assms(1,4) seq ty by (auto simp: va_PushPacket_def)
  qed
qed

lemma storage_push_all:
  assumes "storage_inv base s"
    and "\<forall>d\<in>set ds. storable d \<and> from_base base (dgram_seq d) \<and> IsKeyFramePacketStatic depacketize (fst d) (snd d) = Some (is_key d)"
  shows "\<exists>s'. push_all (\<lambda>s d. va_PushPacket depacketize (fst d) (snd d) s) s ds = Some s' \<and> storage_inv base s' \<and>
    has_key_frame s' = (has_key_frame s \<or> (\<exists>d\<in>set ds. is_key d)) \<and>
    key_frame_seq s' = (if \<exists>d\<in>set ds. is_key d then uint (dgram_seq (last (filter is_key ds))) else key_frame_seq s)"
  using assms
proof (induction ds arbitrary: s)
  case (Cons d ds)
  obtain s1 where s1: "va_PushPacket depacketize (fst d) (snd d) s = Some s1" "storage_inv base s1"
      "has_key_frame s1 = (has_key_frame s \<or> is_key d)"
      "key_frame_seq s1 = (if is_key d then uint (dgram_seq d) else key_frame_seq s)"
    using storage_push [of base s d depacketize "is_key d"] Cons.prems by auto
  moreover have "filter is_key ds = [] \<longleftrightarrow> \<not> (\<exists>d\<in>set ds. is_key d)" by (simp add: filter_empty_conv)
  ultimately show ?case using Cons.IH [OF s1(2)] Cons.prems(2) by auto
qed simp

text \<open>
  C23. The storage buffer starts with the latest key frame: after any packets of one half of the
  sequence space (without wrap-around), the buffer is empty if there was no key frame among them,
  and otherwise the packet at its top has the sequence number of the last key frame that arrived.
\<close>

theorem storage_starts_with_key_frame:
  assumes "\<forall>d\<in>set ds. storable d \<and> from_base base (dgram_seq d) \<and> IsKeyFramePacketStatic depacketize (fst d) (snd d) = Some (is_key d)"
  shows "\<exists>s. push_all (\<lambda>s d. va_PushPacket depacketize (fst d) (snd d) s)
        (SetBufferType STORAGE_BUFFER (VideoAwareFrameBuffer_new psize)) ds = Some s \<and>
    map_option seq_of (pq_top (pb_queue (va_buffer s))) =
      (if filter is_key ds = [] then None else Some (dgram_seq (last (filter is_key ds))))"
proof -
  let ?s = "SetBufferType STORAGE_BUFFER (VideoAwareFrameBuffer_new psize)"
  have "storage_inv base ?s"
    by (simp add: storage_inv_def SetBufferType_def VideoAwareFrameBuffer_new_def RtpPacketBuffer_new_def ph.heap_def heap_ordered_def)
  moreover have hk: "has_key_frame ?s = False" "key_frame_seq ?s = 0"
    by (simp_all add: SetBufferType_def VideoAwareFrameBuffer_new_def)
  ultimately obtain s where s: "push_all (\<lambda>s d. va_PushPacket depacketize (fst d) (snd d) s) ?s ds = Some s" "storage_inv base s"
      "has_key_frame s = (\<exists>d\<in>set ds. is_key d)"
      "key_frame_seq s = (if \<exists>d\<in>set ds. is_key d then uint (dgram_seq (last (filter is_key ds))) else 0)"
    using storage_push_all [OF _ assms, of ?s] unfolding hk simp_thms by blast
  show ?thesis
  proof (cases "\<exists>d\<in>set ds. is_key d")
    case False
    then have "pb_queue (va_buffer s) = []" "filter is_key ds = []"
      using s(2,3) by (auto simp: storage_inv_def filter_empty_conv)
    then show ?thesis using s(1) by (simp add: pq_top_def)
  next
    case True
    let ?q = "pb_queue (va_buffer s)"
    obtain p where p: "p \<in> set ?q" "uint (seq_of p) = key_frame_seq s"
      "\<forall>x\<in>set ?q. uint base \<le> uint (seq_of p) \<and> uint (seq_of p) \<le> uint (seq_of x)"
      using s(2,3) True by (auto simp: storage_inv_def)
    then have ne: "?q \<noteq> []" by auto
    then have t: "?q ! 0 \<in> set ?q" by simp
    have "ahead base (seq_of (?q ! 0)) \<le> ahead base (seq_of p)"
      using ph.heap_top_least [of base ?q "?q ! 0" p] s(2) p(1) ne by (simp add: pq_top_def storage_inv_def)
    then have "uint (seq_of (?q ! 0)) = uint (seq_of p)"
      using ahead_cases [of base "seq_of (?q ! 0)"] ahead_cases [of base "seq_of p"] p(3) t by fastforce
    then have "seq_of (?q ! 0) = dgram_seq (last (filter is_key ds))"
      using p(2) s(4) True by (simp add: word_uint_eq_iff)
    moreover have "filter is_key ds \<noteq> []" using True by (simp add: filter_empty_conv)
    ultimately show ?thesis using s(1) ne by (simp add: pq_top_def)
  qed
qed

text \<open>A payload that starts with a zero byte is a key frame, for the examples.\<close>

definition demo_depacketize :: "u8 \<Rightarrow> buffer \<Rightarrow> int \<Rightarrow> bool option" where
  "demo_depacketize ty b len = (if b = [] then None else Some (hd b = 0))"

definition demo_dgram :: "u8 \<Rightarrow> u8 \<Rightarrow> u8 \<Rightarrow> buffer \<times> int" where
  "demo_dgram hi lo payload = ([128, 96, hi, lo] @ replicate 8 0 @ [payload], 13)"

theorem storage_starts_with_key_frame_witness:
  "\<exists>s. push_all (\<lambda>s d. va_PushPacket demo_depacketize (fst d) (snd d) s)
        (SetBufferType STORAGE_BUFFER (VideoAwareFrameBuffer_new 0)) [demo_dgram 0 3 1, demo_dgram 0 5 0, demo_dgram 0 6 1, demo_dgram 0 4 1] = Some s \<and>
    map_option seq_of (pq_top (pb_queue (va_buffer s))) = Some 5"
proof -
  let ?ds = "[demo_dgram 0 3 1, demo_dgram 0 5 0, demo_dgram 0 6 1, demo_dgram 0 4 1]"
  let ?key = "\<lambda>d. hd (drop 12 (fst d)) = 0"
  have "\<forall>d\<in>set ?ds. storable d \<and> from_base 0 (dgram_seq d) \<and> IsKeyFramePacketStatic demo_depacketize (fst d) (snd d) = Some (?key d)"
    by (simp add: storable_def from_base_def demo_dgram_def le16_def IsKeyFramePacketStatic_def getPayloadType_def
        demo_depacketize_def)
  moreover have "dgram_seq (last (filter ?key ?ds)) = 5" "filter ?key ?ds \<noteq> []"
    by (simp_all add: demo_dgram_def le16_def)
  ultimately show ?thesis using storage_starts_with_key_frame [of ?ds 0 demo_depacketize ?key 0] by (metis (no_types, lifting))
qed

text \<open>
  The comparison with the key frame is one of integers: after a key frame with number 65535 the
  packets of the same picture, numbered from 0 on, are dropped.
\<close>

lemma storage_drops_after_wrap:
  "\<exists>s. push_all (\<lambda>s d. va_PushPacket demo_depacketize (fst d) (snd d) s)
      (SetBufferType STORAGE_BUFFER (VideoAwareFrameBuffer_new 0)) [demo_dgram 255 255 0, demo_dgram 0 0 1] = Some s \<and>
    length (pb_queue (va_buffer s)) = 1"
proof -
  have d: "storable (demo_dgram 255 255 0)" "dgram_seq (demo_dgram 255 255 0) = 65535"
      "dgram_seq (demo_dgram 0 0 1) = 0" "getSeqNumber (fst (demo_dgram 0 0 1)) = Some 0"
      "getSeqNumber (fst (demo_dgram 255 255 0)) = Some 65535"
    by (simp_all add: storable_def demo_dgram_def le16_def getSeqNumber_def rd16_def ntohs_def byte_def)
  obtain p where "buffer_PushPacket (fst (demo_dgram 255 255 0)) (snd (demo_dgram 255 255 0)) \<lparr>pb_queue = [], prebuffering_size = 0\<rparr> =
      Some \<lparr>pb_queue = pq_push comes_after p [], prebuffering_size = 0\<rparr>"
    using push_spec [OF d(1)] by auto
  moreover have "IsKeyFramePacketStatic demo_depacketize (fst (demo_dgram 255 255 0)) (snd (demo_dgram 255 255 0)) = Some True"
      "IsKeyFramePacketStatic demo_depacketize (fst (demo_dgram 0 0 1)) (snd (demo_dgram 0 0 1)) = Some False"
    by (simp_all add: demo_dgram_def IsKeyFramePacketStatic_def getPayloadType_def demo_depacketize_def)
  moreover have "length (pq_push comes_after p []) = 1"
    using mset_eq_length [of "pq_push comes_after p []" "[p]"] by (simp add: pq_push_mset)
  ultimately show ?thesis
    using d by (simp add: va_PushPacket_def SetBufferType_def VideoAwareFrameBuffer_new_def RtpPacketBuffer_new_def clean_empties)
qed

end
