(* ===== verification/Video_Frame_Queue.thy ===== *)
theory Video_Frame_Queue
  imports Rtp_Packet_Queue Std_Map
begin

text \<open>
  \<open>src/orbit/modules/video_frame_queue.{h,cc}\<close>: the queue of one video stream in a forwarding
  element, a \<open>std::map\<close> from sequence numbers to packets.  While somebody watches the stream
  packets are only collected; otherwise the queue restarts at every key frame.  The listener
  \<open>prepared_listener_\<close> is reported as an event; calling it while it is empty throws
  \<open>std::bad_function_call\<close>, which is an event that ends the call.

  \<open>depacketize\<close> stands for \<open>RtpDepacketizer_Parse\<close>; it is given a \<open>size_t\<close>.  The bytes of a
  frame's array behind the packet are not initialised: \<open>garbage\<close>.
\<close>

record VideoFrame =
  vf_seq :: u16
  vf_ts :: u32
  vf_marker :: u8
  vf_data :: buffer
  vf_len :: nat
  vf_keyframe :: bool

definition IsKeyFrame :: "(u8 \<Rightarrow> buffer \<Rightarrow> u64 \<Rightarrow> bool option) \<Rightarrow> buffer \<Rightarrow> nat \<Rightarrow> bool option" where
  "IsKeyFrame depacketize dat len = do {
     payload \<leftarrow> getPayloadType dat;
     Some (depacketize payload (drop 12 dat) (of_nat len - 12) = Some True) }"

definition VideoFrame_new :: "buffer \<Rightarrow> (u8 \<Rightarrow> buffer \<Rightarrow> u64 \<Rightarrow> bool option) \<Rightarrow> buffer \<Rightarrow> nat \<Rightarrow> VideoFrame option" where
  "VideoFrame_new garbage depacketize dat len = do {
     bytes \<leftarrow> memcpy garbage dat (int len);
     k \<leftarrow> IsKeyFrame depacketize dat len;
     s \<leftarrow> getSeqNumber dat;
     t \<leftarrow> getTimestamp dat;
     m \<leftarrow> getMarker dat;
     Some \<lparr>vf_seq = s, vf_ts = t, vf_marker = m, vf_data = bytes, vf_len = len, vf_keyframe = k\<rparr> }"

record video_frame_queue =
  vq_id :: int
  vq_listener :: bool
  vq_frames :: "(u16, VideoFrame) std_map"
  vq_enabled :: bool
  vq_has_looker :: bool

definition VideoFrameQueue_new :: "int \<Rightarrow> bool \<Rightarrow> video_frame_queue" where
  "VideoFrameQueue_new i listener =
     \<lparr>vq_id = i, vq_listener = listener, vq_frames = [], vq_enabled = False, vq_has_looker = False\<rparr>"

datatype vq_event = Prepared int | Bad_function_call

definition vq_Contains :: "u16 \<Rightarrow> video_frame_queue \<Rightarrow> bool" where
  "vq_Contains s q \<longleftrightarrow> sm_find (<) s (vq_frames q) \<noteq> None"

definition FirstIsKeyFrame :: "video_frame_queue \<Rightarrow> bool" where
  "FirstIsKeyFrame q = (case vq_frames q of [] \<Rightarrow> False | (_, f) # _ \<Rightarrow> vf_keyframe f)"

definition FirePreparedEvent :: "video_frame_queue \<Rightarrow> vq_event list" where
  "FirePreparedEvent q = (if vq_listener q then [Prepared (vq_id q)] else [])"

definition CheckPrepared :: "video_frame_queue \<Rightarrow> vq_event list" where
  "CheckPrepared q = (if FirstIsKeyFrame q then FirePreparedEvent q else [])"

definition PushPacketWhenHasLooker :: "VideoFrame \<Rightarrow> video_frame_queue \<Rightarrow> video_frame_queue \<times> vq_event list" where
  "PushPacketWhenHasLooker f q =
     (if vq_Contains (vf_seq f) q then (q, [])
      else let q = q\<lparr>vq_frames := sm_set (<) (vf_seq f) f (vq_frames q)\<rparr> in (q, CheckPrepared q))"

definition PushPacketWhenNoLooker :: "VideoFrame \<Rightarrow> video_frame_queue \<Rightarrow> video_frame_queue \<times> vq_event list" where
  "PushPacketWhenNoLooker f q =
     (if vq_Contains (vf_seq f) q then (q, [])
      else if vf_keyframe f
      then (q\<lparr>vq_frames := sm_set (<) (vf_seq f) f []\<rparr>,
            if vq_listener q then [Prepared (vq_id q)] else [Bad_function_call])
      else if FirstIsKeyFrame q then (q\<lparr>vq_frames := sm_set (<) (vf_seq f) f (vq_frames q)\<rparr>, [])
      else (q, []))"

definition vq_PushPacket ::
    "buffer \<Rightarrow> (u8 \<Rightarrow> buffer \<Rightarrow> u64 \<Rightarrow> bool option) \<Rightarrow> buffer option \<Rightarrow> nat \<Rightarrow> video_frame_queue
     \<Rightarrow> (video_frame_queue \<times> vq_event list) option" where
  "vq_PushPacket garbage depacketize dat len q =
     (case dat of
        None \<Rightarrow> Some (q, [])
      | Some dat \<Rightarrow>
          if len \<le> 0 then Some (q, [])
          else if \<not> vq_enabled q then Some (q, [])
          else do {
            f \<leftarrow> VideoFrame_new garbage depacketize dat len;
            Some (if vq_has_looker q then PushPacketWhenHasLooker f q else PushPacketWhenNoLooker f q) })"

definition vq_PopPacket :: "video_frame_queue \<Rightarrow> VideoFrame option \<times> video_frame_queue \<times> vq_event list" where
  "vq_PopPacket q =
     (if \<not> vq_enabled q then (None, q, [])
      else case vq_frames q of
             [] \<Rightarrow> (None, q, [])
           | (k, f) # _ \<Rightarrow> let q = q\<lparr>vq_frames := sm_erase (<) k (vq_frames q)\<rparr> in (Some f, q, CheckPrepared q))"

definition vq_TopPacket :: "video_frame_queue \<Rightarrow> VideoFrame option" where
  "vq_TopPacket q =
     (if \<not> vq_enabled q then None else case vq_frames q of [] \<Rightarrow> None | (_, f) # _ \<Rightarrow> Some f)"

definition vq_Enable :: "video_frame_queue \<Rightarrow> video_frame_queue" where
  "vq_Enable q = q\<lparr>vq_enabled := True\<rparr>"

definition vq_Disable :: "video_frame_queue \<Rightarrow> video_frame_queue" where
  "vq_Disable q = (if vq_enabled q then q\<lparr>vq_enabled := False, vq_frames := []\<rparr> else q)"

definition vq_SetHasLooker :: "bool \<Rightarrow> video_frame_queue \<Rightarrow> video_frame_queue" where
  "vq_SetHasLooker b q = q\<lparr>vq_has_looker := b\<rparr>"

section \<open>A reordering buffer\<close>

interpretation u16m: key_order "(<) :: u16 \<Rightarrow> u16 \<Rightarrow> bool"
  by unfold_locales auto

definition vq_inv :: "video_frame_queue \<Rightarrow> bool" where
  "vq_inv q \<longleftrightarrow> vq_enabled q \<and> sm_sorted (<) (vq_frames q) \<and> (\<forall>(k, f)\<in>set (vq_frames q). vf_seq f = k)"

definition vq_keys :: "video_frame_queue \<Rightarrow> nat list" where
  "vq_keys q = map (\<lambda>(k, _). unat k) (vq_frames q)"

definition vq_accepted :: "buffer \<times> nat \<Rightarrow> bool" where
  "vq_accepted d \<longleftrightarrow> 0 < snd d \<and> snd d \<le> 1500 \<and> snd d \<le> length (fst d) \<and> 12 \<le> length (fst d)"

lemma frame_new:
  assumes "vq_accepted d" "length garbage = 1500"
  shows "\<exists>f. VideoFrame_new garbage depacketize (fst d) (snd d) = Some f \<and> vf_seq f = le16 (fst d ! 3) (fst d ! 2)"
  using assms
  by (auto simp: VideoFrame_new_def IsKeyFrame_def vq_accepted_def memcpy_def getPayloadType_def getMarker_def
      getTimestamp_def rd32_def getSeqNumber_bytes)

lemma looker_push:
  assumes "vq_inv q" "vq_has_looker q" "vq_accepted d" "length garbage = 1500"
  shows "\<exists>q' es. vq_PushPacket garbage depacketize (Some (fst d)) (snd d) q = Some (q', es) \<and> vq_inv q' \<and> vq_has_looker q' \<and>
    set (vq_keys q') = insert (unat (le16 (fst d ! 3) (fst d ! 2))) (set (vq_keys q))"
proof -
  obtain f where f: "VideoFrame_new garbage depacketize (fst d) (snd d) = Some f" "vf_seq f = le16 (fst d ! 3) (fst d ! 2)"
    using frame_new [OF assms(3,4)] by blast
  have push: "vq_PushPacket garbage depacketize (Some (fst d)) (snd d) q = Some (PushPacketWhenHasLooker f q)"
    using assms f(1) by (simp add: vq_PushPacket_def vq_inv_def vq_accepted_def)
  have keys: "set (vq_keys q) = unat ` fst ` set (vq_frames q)" for q :: video_frame_queue
    by (force simp: vq_keys_def image_image)
  show ?thesis
  proof (cases "vq_Contains (vf_seq f) q")
    case True
    then obtain g where "(vf_seq f, g) \<in> set (vq_frames q)"
      using assms(1) u16m.find_elem [of "vq_frames q" "vf_seq f"] by (auto simp: vq_Contains_def vq_inv_def)
    then show ?thesis
      using True push assms(1,2) f(2) by (force simp: PushPacketWhenHasLooker_def keys)
  next
    case False
    let ?m = "sm_set (<) (vf_seq f) f (vq_frames q)"
    have srt: "sm_sorted (<) (vq_frames q)" using assms(1) by (simp add: vq_inv_def)
    have "vf_seq g = k" if "(k, g) \<in> set ?m" for k g
    proof -
      have "sm_find (<) k ?m = Some g" using that u16m.find_elem [OF u16m.sorted_set [OF srt]] by blast
      then show ?thesis
        using u16m.find_set [OF srt, of k "vf_seq f" f] u16m.find_elem [OF srt, of k g] assms(1)
        by (auto simp: vq_inv_def split: if_splits)
    qed
    then have "vq_inv (q\<lparr>vq_frames := ?m\<rparr>)"
      using assms(1) u16m.sorted_set [OF srt] by (auto simp: vq_inv_def)
    then show ?thesis
      using False push assms(2) f(2) u16m.keys_set [of "vf_seq f" f "vq_frames q"]
      by (auto simp: PushPacketWhenHasLooker_def keys Let_def)
  qed
qed

lemma looker_pop:
  assumes "vq_inv q" "vq_keys q \<noteq> []"
  shows "\<exists>f q' es. vq_PopPacket q = (Some f, q', es) \<and> vq_inv q' \<and> unat (vf_seq f) = hd (vq_keys q) \<and> vq_keys q' = tl (vq_keys q)"
proof -
  obtain k f m where m: "vq_frames q = (k, f) # m" using assms(2) by (cases "vq_frames q") (auto simp: vq_keys_def)
  moreover have "sm_erase (<) k (vq_frames q) = m" using m by simp
  ultimately show ?thesis
    using assms(1) by (auto simp: vq_PopPacket_def vq_inv_def vq_keys_def sm_sorted_def Let_def)
qed

text \<open>Pushing and popping without the events, as the contract of a reordering buffer has them.\<close>

definition looker_step :: "buffer \<Rightarrow> (u8 \<Rightarrow> buffer \<Rightarrow> u64 \<Rightarrow> bool option) \<Rightarrow> video_frame_queue \<Rightarrow> buffer \<times> nat \<Rightarrow> video_frame_queue option" where
  "looker_step garbage depacketize q d = map_option fst (vq_PushPacket garbage depacketize (Some (fst d)) (snd d) q)"

definition pop_step :: "video_frame_queue \<Rightarrow> (VideoFrame option \<times> video_frame_queue) option" where
  "pop_step q = (let (f, q, _) = vq_PopPacket q in Some (f, q))"

interpretation vq: reorder_buffer "looker_step garbage depacketize" pop_step vq_inv vq_has_looker vq_keys
    "\<lambda>f. unat (vf_seq f)" "\<lambda>d. unat (le16 (fst d ! 3) (fst d ! 2))" "\<lambda>d. vq_accepted d \<and> length garbage = 1500" for garbage depacketize
proof (unfold_locales, goal_cases)
  case (1 q d)
  then show ?case using looker_push [of q d garbage depacketize] by (force simp: looker_step_def)
next
  case (2 q)
  then show ?case by (auto simp: vq_inv_def vq_keys_def sm_sorted_def sorted_wrt_map case_prod_unfold word_less_nat_alt)
next
  case (3 q)
  then show ?case using looker_pop [of q] by (force simp: pop_step_def)
next
  case (4 q)
  then show ?case by (auto simp: vq_keys_def vq_PopPacket_def vq_inv_def pop_step_def)
qed

text \<open>
  C24. While the stream is watched the frame queue reorders: packets pushed in any order and
  with duplicates are popped in ascending order of their sequence numbers, each once.  The order
  is that of the numbers themselves, without wrap-around.
\<close>

theorem frame_queue_reorders:
  assumes "length garbage = 1500" "\<forall>d\<in>set ds. vq_accepted d"
  shows "\<exists>q fs. push_all (looker_step garbage depacketize) (vq_SetHasLooker True (vq_Enable (VideoFrameQueue_new i listener))) ds = Some q \<and>
    pop_all pop_step (length ds) q = Some fs \<and>
    map (\<lambda>f. unat (vf_seq f)) fs = sorted_list_of_set ((\<lambda>d. unat (le16 (fst d ! 3) (fst d ! 2))) ` set ds)"
proof -
  let ?q = "vq_SetHasLooker True (vq_Enable (VideoFrameQueue_new i listener))"
  have "vq_inv ?q" "vq_has_looker ?q" "vq_keys ?q = []"
    by (simp_all add: vq_inv_def vq_SetHasLooker_def vq_Enable_def VideoFrameQueue_new_def vq_keys_def sm_sorted_def)
  then show ?thesis using vq.reorder [of ?q ds garbage "length ds" depacketize] assms by simp
qed

theorem frame_queue_reorders_witness:
  "\<exists>q fs. push_all (looker_step (replicate 1500 7) (\<lambda>_ _ _. None)) (vq_SetHasLooker True (vq_Enable (VideoFrameQueue_new 3 True)))
      [([128, 96, 0, 9] @ replicate 8 0, 12), ([128, 96, 0, 7] @ replicate 8 0, 12), ([128, 96, 0, 9] @ replicate 8 0, 12)] = Some q \<and>
    pop_all pop_step 3 q = Some fs \<and> map (\<lambda>f. unat (vf_seq f)) fs = [7, 9]"
proof -
  let ?ds = "[([128, 96, 0, 9] @ replicate 8 0, 12), ([128, 96, 0, 7] @ replicate 8 0, 12), ([128, 96, 0, 9] @ replicate 8 0, 12)]
    :: (buffer \<times> nat) list"
  have ok: "length (replicate 1500 (7 :: u8)) = 1500" "\<forall>d\<in>set ?ds. vq_accepted d" by (simp_all add: vq_accepted_def)
  have "(\<lambda>d. unat (le16 (fst d ! 3) (fst d ! 2))) ` set ?ds = set [7, 9]" by (auto simp: le16_def)
  then have out: "sorted_list_of_set ((\<lambda>d. unat (le16 (fst d ! 3) (fst d ! 2))) ` set ?ds) = [7, 9]"
    by (simp only: sorted_list_of_set_sort_remdups) (simp add: le16_def)
  have len: "length ?ds = 3" by simp
  show ?thesis
    using frame_queue_reorders [of "replicate 1500 7" ?ds "\<lambda>_ _ _. None" 3 True, OF ok] unfolding out unfolding len .
qed

section \<open>Without watchers\<close>

text \<open>
  A packet that is older than the key frame moves in front of it, and from then on every packet
  is dropped until the next key frame: the test \<open>FirstIsKeyFrame\<close> looks at the smallest number.
\<close>

lemma late_packet_blocks_queue:
  assumes "vq_frames q = [(k, f)]" "vf_keyframe f" "\<not> vf_keyframe g" "vf_seq g < k" "\<not> vf_keyframe h"
  shows "\<exists>q'. PushPacketWhenNoLooker g q = (q', []) \<and> PushPacketWhenNoLooker h q' = (q', [])"
  using assms
  by (auto simp: PushPacketWhenNoLooker_def FirstIsKeyFrame_def vq_Contains_def)

text \<open>
  A key frame restarts the queue of an unwatched stream with itself as the only element; when no
  listener was installed the call then throws.
\<close>

lemma key_frame_restarts:
  assumes "vf_keyframe f" "sm_find (<) (vf_seq f) (vq_frames q) = None"
  shows "PushPacketWhenNoLooker f q =
    (q\<lparr>vq_frames := [(vf_seq f, f)]\<rparr>, [if vq_listener q then Prepared (vq_id q) else Bad_function_call])"
  using assms by (simp add: PushPacketWhenNoLooker_def vq_Contains_def)

end
