(* ===== verification/Video_Map.thy ===== *)
theory Video_Map
  imports Orbit_Prelude
begin

text \<open>
  \<open>src/orbit/modules/video_map.{h,cc}\<close>: who sees whom in a video conference.  Every member is a
  \<open>Node\<close> with a pointer to the member it sees, one to the member it is about to see, and the
  sets of the members that see it, now or soon: a graph of heap objects with links in both
  directions.

  The heap is the map \<open>store\<close>; the address of a node is the id of its member, since there is
  never more than one node per id.  Following a pointer to an object that was deleted is undefined:
  \<open>None\<close>.  A \<open>std::set<Node*>\<close> is iterated in the order of the addresses, which the program
  does not determine: the argument \<open>enum\<close> lists the elements of a set in some order.  Calls of
  the listeners are returned as events, in their order; a listener does not call back.
\<close>

section \<open>Nodes\<close>

record node =
  n_src :: "int option"
  n_expected_src :: "int option"
  n_lookers :: "int set"
  n_expected_lookers :: "int set"

type_synonym store = "int \<Rightarrow> node option"

definition Node_new :: node where
  "Node_new = \<lparr>n_src = None, n_expected_src = None, n_lookers = {}, n_expected_lookers = {}\<rparr>"

definition upd_obj :: "int \<Rightarrow> (node \<Rightarrow> node) \<Rightarrow> store \<Rightarrow> store option" where
  "upd_obj p f st = (case st p of None \<Rightarrow> None | Some n \<Rightarrow> Some (st(p \<mapsto> f n)))"

definition set_src :: "int \<Rightarrow> int option \<Rightarrow> store \<Rightarrow> store option" where
  "set_src this src st =
     (case src of
        None \<Rightarrow> Some st
      | Some p \<Rightarrow> do {
          n \<leftarrow> st this;
          st \<leftarrow> (case n_src n of
                   None \<Rightarrow> Some st
                 | Some q \<Rightarrow> upd_obj q (\<lambda>m. m\<lparr>n_lookers := n_lookers m - {this}\<rparr>) st);
          st \<leftarrow> upd_obj this (\<lambda>m. m\<lparr>n_src := Some p\<rparr>) st;
          upd_obj p (\<lambda>m. m\<lparr>n_lookers := insert this (n_lookers m)\<rparr>) st })"

definition UnbindCurrentSrc :: "int \<Rightarrow> store \<Rightarrow> store option" where
  "UnbindCurrentSrc this st = do {
     n \<leftarrow> st this;
     case n_src n of
       None \<Rightarrow> Some st
     | Some q \<Rightarrow> do {
         st \<leftarrow> upd_obj q (\<lambda>m. m\<lparr>n_lookers := n_lookers m - {this}\<rparr>) st;
         upd_obj this (\<lambda>m. m\<lparr>n_src := None\<rparr>) st } }"

fun for_each :: "(int \<Rightarrow> store \<Rightarrow> store option) \<Rightarrow> int list \<Rightarrow> store \<Rightarrow> store option" where
  "for_each f [] st = Some st"
| "for_each f (p # ps) st = do { st \<leftarrow> f p st; for_each f ps st }"

definition UnbindCurrentLooker :: "(int set \<Rightarrow> int list) \<Rightarrow> int \<Rightarrow> store \<Rightarrow> store option" where
  "UnbindCurrentLooker enum this st = do {
     n \<leftarrow> st this;
     st \<leftarrow> for_each (\<lambda>p. upd_obj p (\<lambda>m. m\<lparr>n_src := None\<rparr>)) (enum (n_lookers n)) st;
     upd_obj this (\<lambda>m. m\<lparr>n_lookers := {}\<rparr>) st }"

definition UnbindCurrent :: "(int set \<Rightarrow> int list) \<Rightarrow> int \<Rightarrow> store \<Rightarrow> store option" where
  "UnbindCurrent enum this st = do { st \<leftarrow> UnbindCurrentSrc this st; UnbindCurrentLooker enum this st }"

definition set_expected_src :: "int \<Rightarrow> int option \<Rightarrow> store \<Rightarrow> store option" where
  "set_expected_src this expected_src st =
     (case expected_src of
        None \<Rightarrow> Some st
      | Some p \<Rightarrow> do {
          n \<leftarrow> st this;
          st \<leftarrow> (case n_expected_src n of
                   None \<Rightarrow> Some st
                 | Some q \<Rightarrow> upd_obj q (\<lambda>m. m\<lparr>n_expected_lookers := n_expected_lookers m - {this}\<rparr>) st);
          st \<leftarrow> upd_obj this (\<lambda>m. m\<lparr>n_expected_src := Some p\<rparr>) st;
          upd_obj p (\<lambda>m. m\<lparr>n_expected_lookers := insert this (n_expected_lookers m)\<rparr>) st })"

definition UnbindExpectedSrc :: "int \<Rightarrow> store \<Rightarrow> store option" where
  "UnbindExpectedSrc this st = do {
     n \<leftarrow> st this;
     case n_expected_src n of
       None \<Rightarrow> Some st
     | Some q \<Rightarrow> do {
         st \<leftarrow> upd_obj q (\<lambda>m. m\<lparr>n_expected_lookers := n_expected_lookers m - {this}\<rparr>) st;
         upd_obj this (\<lambda>m. m\<lparr>n_expected_src := None\<rparr>) st } }"

definition UnbindExpectedLooker :: "(int set \<Rightarrow> int list) \<Rightarrow> int \<Rightarrow> store \<Rightarrow> store option" where
  "UnbindExpectedLooker enum this st = do {
     n \<leftarrow> st this;
     st \<leftarrow> for_each (\<lambda>p. upd_obj p (\<lambda>m. m\<lparr>n_expected_src := None\<rparr>)) (enum (n_expected_lookers n)) st;
     upd_obj this (\<lambda>m. m\<lparr>n_expected_lookers := {}\<rparr>) st }"

definition UnbindExpected :: "(int set \<Rightarrow> int list) \<Rightarrow> int \<Rightarrow> store \<Rightarrow> store option" where
  "UnbindExpected enum this st = do { st \<leftarrow> UnbindExpectedSrc this st; UnbindExpectedLooker enum this st }"

definition Unbind :: "(int set \<Rightarrow> int list) \<Rightarrow> int \<Rightarrow> store \<Rightarrow> store option" where
  "Unbind enum this st = do { st \<leftarrow> UnbindCurrent enum this st; UnbindExpected enum this st }"

text \<open>The two counts of a node; only nodes of members are asked, and those exist.\<close>

definition GetLookerCount :: "store \<Rightarrow> int \<Rightarrow> nat" where
  "GetLookerCount st p = (case st p of None \<Rightarrow> 0 | Some n \<Rightarrow> card (n_lookers n) + card (n_expected_lookers n))"

definition HasCurLooker :: "store \<Rightarrow> int \<Rightarrow> bool" where
  "HasCurLooker st p = (case st p of None \<Rightarrow> False | Some n \<Rightarrow> n_lookers n \<noteq> {})"

section \<open>The map and its events\<close>

text \<open>\<open>members\<close> are the keys of \<open>all_node_\<close> in their order.\<close>

record video_map =
  store :: store
  members :: "int list"
  master :: int

definition NOID :: int where "NOID = -1"

definition VideoMap_new :: video_map where
  "VideoMap_new = \<lparr>store = (\<lambda>_. None), members = [], master = NOID\<rparr>"

datatype vm_event =
  Prepare int | Enabled int | Disabled int | HasLooker int | NoLooker int | SrcChanged int

text \<open>What the detectors save when they are constructed.\<close>

definition look_counts :: "video_map \<Rightarrow> (int \<times> nat) list" where
  "look_counts s = map (\<lambda>i. (i, GetLookerCount (store s) i)) (members s)"

definition cur_lookers :: "video_map \<Rightarrow> (int \<times> bool) list" where
  "cur_lookers s = map (\<lambda>i. (i, HasCurLooker (store s) i)) (members s)"

definition EnabledDetector_Detect :: "(int \<times> nat) list \<Rightarrow> video_map \<Rightarrow> vm_event list" where
  "EnabledDetector_Detect old s =
     map Enabled (filter (\<lambda>i. GetLookerCount (store s) i > 0 \<and>
        (case map_of old i of None \<Rightarrow> True | Some c \<Rightarrow> c = 0)) (members s))"

definition DisabledDetector_Detect :: "(int \<times> nat) list \<Rightarrow> video_map \<Rightarrow> vm_event list" where
  "DisabledDetector_Detect old s =
     map (\<lambda>(i, _). Disabled i) (filter (\<lambda>(i, c). c \<noteq> 0 \<and>
        (i \<notin> set (members s) \<or> GetLookerCount (store s) i = 0)) old)"

definition HasLookerDetector_Detect :: "(int \<times> bool) list \<Rightarrow> video_map \<Rightarrow> vm_event list" where
  "HasLookerDetector_Detect old s =
     map HasLooker (filter (\<lambda>i. HasCurLooker (store s) i \<and>
        (case map_of old i of None \<Rightarrow> True | Some b \<Rightarrow> \<not> b)) (members s))"

definition NoLookerDetector_Detect :: "(int \<times> bool) list \<Rightarrow> video_map \<Rightarrow> vm_event list" where
  "NoLookerDetector_Detect old s =
     map (\<lambda>(i, _). NoLooker i) (filter (\<lambda>(i, b). b \<and> i \<in> set (members s) \<and> \<not> HasCurLooker (store s) i) old)"

definition EventDetector_Detect :: "video_map \<Rightarrow> video_map \<Rightarrow> vm_event list" where
  "EventDetector_Detect old s =
     EnabledDetector_Detect (look_counts old) s @ DisabledDetector_Detect (look_counts old) s @
     HasLookerDetector_Detect (cur_lookers old) s @ NoLookerDetector_Detect (cur_lookers old) s"

section \<open>Operations\<close>

text \<open>\<open>None\<close> is the fatal error at the end.\<close>

definition SelectNewSrc :: "int \<Rightarrow> video_map \<Rightarrow> int option" where
  "SelectNewSrc myid s =
     (if members s = [] then Some NOID
      else if myid \<noteq> master s then Some (master s)
      else if length (members s) = 1 then Some myid
      else find (\<lambda>i. i \<noteq> myid) (members s))"

definition SelectNewMaster :: "video_map \<Rightarrow> int" where
  "SelectNewMaster s = (case members s of [] \<Rightarrow> NOID | i # _ \<Rightarrow> i)"

definition vm_Add :: "int \<Rightarrow> video_map \<Rightarrow> (video_map \<times> vm_event list) option" where
  "vm_Add i s =
     (if i \<in> set (members s) then Some (s, [])
      else
        let s1 = s\<lparr>store := (store s)(i \<mapsto> Node_new), members := insort i (members s)\<rparr>
        in if length (members s1) = 1 then do {
             st \<leftarrow> set_expected_src i (Some i) (store s1);
             let s2 = s1\<lparr>store := st, master := i\<rparr> in Some (s2, [Prepare i] @ EventDetector_Detect s s2) }
           else if length (members s1) = 2 then do {
             st \<leftarrow> set_expected_src (master s) (Some i) (store s1);
             st \<leftarrow> set_expected_src i (Some (master s)) st;
             let s2 = s1\<lparr>store := st\<rparr> in Some (s2, [Prepare i, Prepare (master s)] @ EventDetector_Detect s s2) }
           else do {
             st \<leftarrow> set_expected_src i (Some (master s)) (store s1);
             let s2 = s1\<lparr>store := st\<rparr> in Some (s2, [Prepare (master s)] @ EventDetector_Detect s s2) })"

text \<open>A looker of the removed node is given another source, which is noted for preparation.\<close>

fun redirect :: "int list \<Rightarrow> video_map \<Rightarrow> (video_map \<times> int list) option" where
  "redirect [] s = Some (s, [])"
| "redirect (l # ls) s = do {
     new_src \<leftarrow> SelectNewSrc l s;
     st \<leftarrow> set_expected_src l (Some new_src) (store s);
     (s, prep) \<leftarrow> redirect ls (s\<lparr>store := st\<rparr>);
     Some (s, new_src # prep) }"

definition vm_Remove :: "(int set \<Rightarrow> int list) \<Rightarrow> int \<Rightarrow> video_map \<Rightarrow> (video_map \<times> vm_event list) option" where
  "vm_Remove enum i s =
     (if i \<notin> set (members s) then Some (s, [])
      else
        let s1 = s\<lparr>members := remove1 i (members s)\<rparr>
        in if members s1 = [] then
             let s2 = s1\<lparr>store := (store s)(i := None), master := NOID\<rparr> in Some (s2, EventDetector_Detect s s2)
           else if i = master s then do {
             st \<leftarrow> Unbind enum i (store s1);
             let m = SelectNewMaster s1; s2 = s1\<lparr>store := st, master := m\<rparr> in do {
             src \<leftarrow> SelectNewSrc m s2;
             st \<leftarrow> set_expected_src m (Some src) (store s2);
             st \<leftarrow> for_each (\<lambda>p. set_expected_src p (Some m)) (filter (\<lambda>p. p \<noteq> m) (members s2)) st;
             let s3 = s2\<lparr>store := st(i := None)\<rparr>
             in Some (s3, [Prepare src, Prepare m] @ EventDetector_Detect s s3) } }
           else do {
             n \<leftarrow> store s1 i;
             (s2, prep) \<leftarrow> redirect (enum (n_lookers n)) s1;
             (s2, prep') \<leftarrow> redirect (enum (n_expected_lookers n)) s2;
             st \<leftarrow> Unbind enum i (store s2);
             let s3 = s2\<lparr>store := st(i := None)\<rparr>
             in Some (s3, map Prepare (sorted_list_of_set (set (prep @ prep'))) @ EventDetector_Detect s s3) })"

definition GetAllId :: "video_map \<Rightarrow> int list" where
  "GetAllId s = members s"

definition GetSrc :: "int \<Rightarrow> video_map \<Rightarrow> int" where
  "GetSrc i s =
     (if i \<notin> set (members s) then NOID
      else case store s i of None \<Rightarrow> NOID | Some n \<Rightarrow> (case n_src n of None \<Rightarrow> NOID | Some p \<Rightarrow> p))"

definition GetExpectedSrc :: "int \<Rightarrow> video_map \<Rightarrow> int" where
  "GetExpectedSrc i s =
     (if i \<notin> set (members s) then NOID
      else case store s i of None \<Rightarrow> NOID | Some n \<Rightarrow> (case n_expected_src n of None \<Rightarrow> NOID | Some p \<Rightarrow> p))"

definition GetMaster :: "video_map \<Rightarrow> int" where
  "GetMaster s = master s"

definition vm_SetMaster :: "int \<Rightarrow> video_map \<Rightarrow> (video_map \<times> vm_event list) option" where
  "vm_SetMaster i s =
     (if i \<notin> set (members s) \<or> i = master s then Some (s, [])
      else do {
        st \<leftarrow> for_each (\<lambda>p. set_expected_src p (Some i)) (filter (\<lambda>p. p \<noteq> i) (members s)) (store s);
        let s2 = s\<lparr>store := st, master := i\<rparr>
        in Some (s2, (if filter (\<lambda>p. p \<noteq> i) (members s) \<noteq> [] then [Prepare i] else []) @ EventDetector_Detect s s2) })"

fun prepared_loop :: "int \<Rightarrow> int list \<Rightarrow> store \<Rightarrow> (store \<times> vm_event list) option" where
  "prepared_loop i [] st = Some (st, [])"
| "prepared_loop i (p # ps) st = do {
     n \<leftarrow> st p;
     if n_expected_src n = Some i then do {
       st \<leftarrow> UnbindExpectedSrc p st;
       st \<leftarrow> set_src p (Some i) st;
       (st, es) \<leftarrow> prepared_loop i ps st;
       Some (st, (if n_src n \<noteq> n_expected_src n then [SrcChanged p] else []) @ es) }
     else prepared_loop i ps st }"

definition vm_SetPrepared :: "int \<Rightarrow> video_map \<Rightarrow> (video_map \<times> vm_event list) option" where
  "vm_SetPrepared i s =
     (if i \<notin> set (members s) then Some (s, [])
      else do {
        (st, es) \<leftarrow> prepared_loop i (members s) (store s);
        let s2 = s\<lparr>store := st\<rparr> in Some (s2, es @ EventDetector_Detect s s2) })"

section \<open>The graph as a map\<close>

text \<open>
  What the graph means is for each member the one it sees and the one it is about to see:
  a \<open>view\<close>.  \<open>build\<close> lays the graph of a view out in the heap, with the sets of lookers that
  belong to it.  Every operation on nodes takes the heap of a view to the heap of the changed
  view; the rest of the development reasons about views only.
\<close>

type_synonym view = "int \<Rightarrow> (int option \<times> int option) option"

definition build :: "view \<Rightarrow> store" where
  "build D p = (case D p of
     None \<Rightarrow> None
   | Some (s, e) \<Rightarrow> Some \<lparr>n_src = s, n_expected_src = e, n_lookers = {q. \<exists>e'. D q = Some (Some p, e')},
       n_expected_lookers = {q. \<exists>s'. D q = Some (s', Some p)}\<rparr>)"

definition closed_view :: "view \<Rightarrow> bool" where
  "closed_view D \<longleftrightarrow> (\<forall>p s e q. D p = Some (s, e) \<longrightarrow> s = Some q \<or> e = Some q \<longrightarrow> D q \<noteq> None)"

lemma build_None [simp]: "build D p = None \<longleftrightarrow> D p = None"
  by (auto simp: build_def split: option.splits)

lemma build_Some: "D p = Some (s, e) \<Longrightarrow> build D p = Some \<lparr>n_src = s, n_expected_src = e,
    n_lookers = {q. \<exists>e'. D q = Some (Some p, e')}, n_expected_lookers = {q. \<exists>s'. D q = Some (s', Some p)}\<rparr>"
  by (simp add: build_def)

lemma build_upd:
  assumes "\<And>r. r \<noteq> p \<Longrightarrow> r \<noteq> q \<Longrightarrow> st r = build D r" "st p = build D p" "st q = build D q"
  shows "st = build D"
  using assms by (metis ext)

lemma set_expected_src_build:
  assumes "closed_view D" "D p = Some (s, e)" "D q \<noteq> None"
  shows "set_expected_src p (Some q) (build D) = Some (build (D(p \<mapsto> (s, Some q))))"
proof -
  obtain sq eq where q: "D q = Some (sq, eq)" using assms(3) by auto
  show ?thesis
  proof (cases e)
    case None
    then show ?thesis
      using assms(2) q
      by (auto simp: set_expected_src_def upd_obj_def build_Some intro!: ext) (auto simp: build_def split: option.splits)
  next
    case (Some r)
    then obtain sr er where r: "D r = Some (sr, er)" using assms(1,2) unfolding closed_view_def by (metis option.exhaust surj_pair)
    then show ?thesis
      using assms(2) q Some
      by (auto simp: set_expected_src_def upd_obj_def build_Some intro!: ext) (auto simp: build_def split: option.splits)
  qed
qed

lemma set_src_build:
  assumes "closed_view D" "D p = Some (s, e)" "D q \<noteq> None"
  shows "set_src p (Some q) (build D) = Some (build (D(p \<mapsto> (Some q, e))))"
proof -
  obtain sq eq where q: "D q = Some (sq, eq)" using assms(3) by auto
  show ?thesis
  proof (cases s)
    case None
    then show ?thesis
      using assms(2) q
      by (auto simp: set_src_def upd_obj_def build_Some intro!: ext) (auto simp: build_def split: option.splits)
  next
    case (Some r)
    then obtain sr er where r: "D r = Some (sr, er)" using assms(1,2) unfolding closed_view_def by (metis option.exhaust surj_pair)
    then show ?thesis
      using assms(2) q Some
      by (auto simp: set_src_def upd_obj_def build_Some intro!: ext) (auto simp: build_def split: option.splits)
  qed
qed

lemma UnbindExpectedSrc_build:
  assumes "closed_view D" "D p = Some (s, e)"
  shows "UnbindExpectedSrc p (build D) = Some (build (D(p \<mapsto> (s, None))))"
proof (cases e)
  case None
  then have "D(p \<mapsto> (s, None)) = D" using assms(2) by auto
  then show ?thesis using assms(2) None by (simp add: UnbindExpectedSrc_def build_Some)
next
  case (Some r)
  then obtain sr er where r: "D r = Some (sr, er)" using assms unfolding closed_view_def by (metis option.exhaust surj_pair)
  then show ?thesis
    using assms(2) Some
    by (auto simp: UnbindExpectedSrc_def upd_obj_def build_Some intro!: ext) (auto simp: build_def split: option.splits)
qed

lemma UnbindCurrentSrc_build:
  assumes "closed_view D" "D p = Some (s, e)"
  shows "UnbindCurrentSrc p (build D) = Some (build (D(p \<mapsto> (None, e))))"
proof (cases s)
  case None
  then have "D(p \<mapsto> (None, e)) = D" using assms(2) by auto
  then show ?thesis using assms(2) None by (simp add: UnbindCurrentSrc_def build_Some)
next
  case (Some r)
  then obtain sr er where r: "D r = Some (sr, er)" using assms unfolding closed_view_def by (metis option.exhaust surj_pair)
  then show ?thesis
    using assms(2) Some
    by (auto simp: UnbindCurrentSrc_def upd_obj_def build_Some intro!: ext) (auto simp: build_def split: option.splits)
qed

lemma for_each_upd:
  assumes "\<forall>p\<in>set ps. st p \<noteq> None" "\<And>n. f (f n) = f n"
  shows "for_each (\<lambda>p. upd_obj p f) ps st = Some (\<lambda>p. if p \<in> set ps then map_option f (st p) else st p)"
  using assms
proof (induction ps arbitrary: st)
  case (Cons p ps)
  then obtain n where n: "st p = Some n" by auto
  have "for_each (\<lambda>p. upd_obj p f) ps (st(p \<mapsto> f n)) =
      Some (\<lambda>q. if q \<in> set ps then map_option f ((st(p \<mapsto> f n)) q) else (st(p \<mapsto> f n)) q)"
    using Cons by simp
  also have "\<dots> = Some (\<lambda>q. if q \<in> set (p # ps) then map_option f (st q) else st q)"
    using n Cons.prems(2) by (auto intro!: ext)
  finally show ?case using n by (simp add: upd_obj_def [of p])
qed simp

text \<open>An order in which a set is iterated.\<close>

definition enumerates :: "(int set \<Rightarrow> int list) \<Rightarrow> bool" where
  "enumerates enum \<longleftrightarrow> (\<forall>S. finite S \<longrightarrow> set (enum S) = S)"

lemma enumeratesD: "enumerates enum \<Longrightarrow> finite S \<Longrightarrow> set (enum S) = S"
  by (simp add: enumerates_def)

definition unlook :: "int \<Rightarrow> view \<Rightarrow> view" where
  "unlook i D p = map_option (\<lambda>(s, e). (if s = Some i then None else s, e)) (D p)"

definition unexpect :: "int \<Rightarrow> view \<Rightarrow> view" where
  "unexpect i D p = map_option (\<lambda>(s, e). (s, if e = Some i then None else e)) (D p)"

definition unbound :: "int \<Rightarrow> view \<Rightarrow> view" where
  "unbound i D p = (if p = i then map_option (\<lambda>_. (None, None)) (D p)
     else map_option (\<lambda>(s, e). (if s = Some i then None else s, if e = Some i then None else e)) (D p))"

lemma finite_lookers: "finite (dom D) \<Longrightarrow> finite {q. \<exists>e. D q = Some (a, e)}" "finite (dom D) \<Longrightarrow> finite {q. \<exists>s. D q = Some (s, b)}"
  by (auto elim!: rev_finite_subset)

lemma UnbindCurrentLooker_build:
  assumes "finite (dom D)" "enumerates enum" "D i \<noteq> None"
  shows "UnbindCurrentLooker enum i (build D) = Some (build (unlook i D))"
proof -
  obtain s e where i: "D i = Some (s, e)" using assms(3) by auto
  let ?L = "{q. \<exists>e'. D q = Some (Some i, e')}"
  have L: "set (enum ?L) = ?L" using assms(2) finite_lookers(1) [OF assms(1)] unfolding enumerates_def by blast
  then have "for_each (\<lambda>p. upd_obj p (\<lambda>m. m\<lparr>n_src := None\<rparr>)) (enum ?L) (build D) =
      Some (\<lambda>p. if p \<in> ?L then map_option (\<lambda>m. m\<lparr>n_src := None\<rparr>) (build D p) else build D p)"
    by (subst for_each_upd) auto
  then show ?thesis
    using i by (auto simp: UnbindCurrentLooker_def build_Some upd_obj_def intro!: ext)
      (auto simp: build_def unlook_def split: option.splits)
qed

lemma UnbindExpectedLooker_build:
  assumes "finite (dom D)" "enumerates enum" "D i \<noteq> None"
  shows "UnbindExpectedLooker enum i (build D) = Some (build (unexpect i D))"
proof -
  obtain s e where i: "D i = Some (s, e)" using assms(3) by auto
  let ?L = "{q. \<exists>s'. D q = Some (s', Some i)}"
  have L: "set (enum ?L) = ?L" using assms(2) finite_lookers(2) [OF assms(1)] unfolding enumerates_def by blast
  then have "for_each (\<lambda>p. upd_obj p (\<lambda>m. m\<lparr>n_expected_src := None\<rparr>)) (enum ?L) (build D) =
      Some (\<lambda>p. if p \<in> ?L then map_option (\<lambda>m. m\<lparr>n_expected_src := None\<rparr>) (build D p) else build D p)"
    by (subst for_each_upd) auto
  then show ?thesis
    using i by (auto simp: UnbindExpectedLooker_def build_Some upd_obj_def intro!: ext)
      (auto simp: build_def unexpect_def split: option.splits)
qed

lemma closed_view_upd: "closed_view D \<Longrightarrow> (\<And>q. s = Some q \<or> e = Some q \<Longrightarrow> D q \<noteq> None) \<Longrightarrow> closed_view (D(p \<mapsto> (s, e)))"
  by (auto simp: closed_view_def)

lemma closed_unlook: "closed_view D \<Longrightarrow> closed_view (unlook i D)"
  by (auto simp: closed_view_def unlook_def split: if_splits)

lemma Unbind_build:
  assumes "closed_view D" "finite (dom D)" "enumerates enum" "D i \<noteq> None"
  shows "Unbind enum i (build D) = Some (build (unbound i D))"
proof -
  obtain s e where i: "D i = Some (s, e)" using assms(4) by auto
  let ?D1 = "D(i \<mapsto> (None, e))"
  have 1: "UnbindCurrentSrc i (build D) = Some (build ?D1)" by (rule UnbindCurrentSrc_build [OF assms(1) i])
  have c1: "closed_view ?D1" using assms(1) i by (intro closed_view_upd) (auto simp: closed_view_def)
  have 2: "UnbindCurrentLooker enum i (build ?D1) = Some (build (unlook i ?D1))"
    using assms(2,3) by (intro UnbindCurrentLooker_build) auto
  have i2: "unlook i ?D1 i = Some (None, e)" by (simp add: unlook_def)
  have 3: "UnbindExpectedSrc i (build (unlook i ?D1)) = Some (build ((unlook i ?D1)(i \<mapsto> (None, None))))"
    by (rule UnbindExpectedSrc_build [OF closed_unlook [OF c1] i2])
  have "dom ((unlook i ?D1)(i \<mapsto> (None, None))) = insert i (dom D)" by (auto simp: unlook_def dom_def)
  then have 4: "UnbindExpectedLooker enum i (build ((unlook i ?D1)(i \<mapsto> (None, None)))) =
      Some (build (unexpect i ((unlook i ?D1)(i \<mapsto> (None, None)))))"
    using assms(2,3) by (intro UnbindExpectedLooker_build) auto
  have "unexpect i ((unlook i ?D1)(i \<mapsto> (None, None))) x = unbound i D x" for x
    using i by (cases "D x") (auto simp: unexpect_def unlook_def unbound_def)
  then have "unexpect i ((unlook i ?D1)(i \<mapsto> (None, None))) = unbound i D" by (rule ext)
  then show ?thesis using 1 2 3 4 by (simp add: Unbind_def UnbindCurrent_def UnbindExpected_def)
qed

lemma closed_unbound: "closed_view D \<Longrightarrow> closed_view (unbound i D)"
  by (auto simp: closed_view_def unbound_def split: if_splits)

lemma delete_build:
  assumes "D i = Some (None, None)"
  shows "(build D)(i := None) = build (D(i := None))"
  using assms by (auto simp: build_def intro!: ext split: option.splits)

lemma expect_all_build:
  assumes "closed_view D" "D q \<noteq> None" "\<forall>p\<in>set ps. D p \<noteq> None"
  shows "for_each (\<lambda>p. set_expected_src p (Some q)) ps (build D) =
    Some (build (\<lambda>p. if p \<in> set ps then map_option (\<lambda>(s, _). (s, Some q)) (D p) else D p))"
  using assms
proof (induction ps arbitrary: D)
  case (Cons p ps)
  obtain s e where p: "D p = Some (s, e)" using Cons.prems(3) by auto
  let ?D = "D(p \<mapsto> (s, Some q))"
  have step: "set_expected_src p (Some q) (build D) = Some (build ?D)"
    using Cons.prems p by (intro set_expected_src_build) auto
  have c: "closed_view ?D" using Cons.prems(1,2) p by (intro closed_view_upd) (auto simp: closed_view_def)
  have d: "?D q \<noteq> None" "\<forall>r\<in>set ps. ?D r \<noteq> None" using Cons.prems by auto
  have "(\<lambda>r. if r \<in> set ps then map_option (\<lambda>(s, _). (s, Some q)) (?D r) else ?D r) =
      (\<lambda>r. if r \<in> set (p # ps) then map_option (\<lambda>(s, _). (s, Some q)) (D r) else D r)"
    using p by (auto intro!: ext)
  then show ?case using Cons.IH [OF c d] step by (simp only: for_each.simps Option.bind.simps)
qed simp

section \<open>Every operation is one on views\<close>

definition represents :: "video_map \<Rightarrow> view \<Rightarrow> bool" where
  "represents s D \<longleftrightarrow> store s = build D \<and> closed_view D \<and> dom D = set (members s) \<and>
     sorted (members s) \<and> distinct (members s) \<and>
     (if members s = [] then master s = NOID else master s \<in> set (members s))"

text \<open>Whoever is about to be seen was asked to prepare, now or before.\<close>

definition asked :: "vm_event list \<Rightarrow> view \<Rightarrow> view \<Rightarrow> bool" where
  "asked es D D' \<longleftrightarrow> (\<forall>p \<sigma> q. D' p = Some (\<sigma>, Some q) \<longrightarrow> Prepare q \<in> set es \<or> (\<exists>\<sigma>'. D p = Some (\<sigma>', Some q)))"

lemma represents_dom: "represents s D \<Longrightarrow> D p \<noteq> None \<longleftrightarrow> p \<in> set (members s)"
  unfolding represents_def by (metis domIff)

lemma new_node_build:
  assumes "closed_view D" "D i = None"
  shows "(build D)(i \<mapsto> Node_new) = build (D(i \<mapsto> (None, None)))" "closed_view (D(i \<mapsto> (None, None)))"
proof -
  have "D q \<noteq> Some (Some i, e)" "D q \<noteq> Some (e, Some i)" for q e
    using assms unfolding closed_view_def by blast+
  then show "(build D)(i \<mapsto> Node_new) = build (D(i \<mapsto> (None, None)))"
    using assms(2) by (auto simp: build_def Node_new_def intro!: ext split: option.splits)
  show "closed_view (D(i \<mapsto> (None, None)))" using assms by (intro closed_view_upd) auto
qed

definition add_view :: "int \<Rightarrow> int \<Rightarrow> nat \<Rightarrow> view \<Rightarrow> view" where
  "add_view i m n D =
     (if n = 0 then D(i \<mapsto> (None, Some i))
      else if n = 1 then D(i \<mapsto> (None, Some m), m \<mapsto> (fst (the (D m)), Some i))
      else D(i \<mapsto> (None, Some m)))"

lemma asked_add:
  "asked (Prepare i # es) D (add_view i m 0 D)"
  "asked (Prepare i # Prepare m # es) D (add_view i m (Suc 0) D)"
  "2 \<le> n \<Longrightarrow> asked (Prepare m # es) D (add_view i m n D)"
  by (auto simp: asked_def add_view_def)

lemma Add_view:
  assumes "represents s D" "i \<notin> set (members s)"
  shows "\<exists>s' es. vm_Add i s = Some (s', es) \<and> represents s' (add_view i (master s) (length (members s)) D) \<and>
    members s' = insort i (members s) \<and> master s' = (if members s = [] then i else master s) \<and>
    asked es D (add_view i (master s) (length (members s)) D)"
proof -
  let ?D = "D(i \<mapsto> (None, None))" and ?m = "master s"
  have D: "store s = build D" "closed_view D" "dom D = set (members s)" "sorted (members s)" "distinct (members s)"
    using assms(1) by (simp_all add: represents_def)
  have n: "D i = None" using D(3) assms(2) by auto
  note new = new_node_build [OF D(2) n]
  have srt: "sorted (insort i (members s))" "distinct (insort i (members s))"
    using D(4,5) assms(2) by (simp_all add: sorted_insort distinct_insort)
  consider "members s = []" | "length (members s) = 1" | "2 \<le> length (members s)"
    by (cases "members s"; cases "tl (members s)") auto
  then show ?thesis
  proof cases
    case 1
    then have "D = (\<lambda>_. None)" using D(3) by auto
    moreover have "set_expected_src i (Some i) (build ?D) = Some (build (?D(i \<mapsto> (None, Some i))))"
      by (rule set_expected_src_build [OF new(2)]) simp_all
    ultimately show ?thesis
      using 1 D new asked_add(1) [of i _ "\<lambda>_. None"]
      by (auto simp: vm_Add_def represents_def add_view_def Let_def closed_view_def)
  next
    case 2
    then obtain m where "members s = [m]" by (cases "members s") auto
    then have m: "members s = [?m]" using assms(1) by (simp add: represents_def)
    then obtain sm em where dm: "D ?m = Some (sm, em)" using D(3) by (metis domD list.set_intros(1) surj_pair)
    have im: "i \<noteq> ?m" using assms(2) m by auto
    have a: "set_expected_src ?m (Some i) (build ?D) = Some (build (?D(?m \<mapsto> (sm, Some i))))"
      using dm im by (intro set_expected_src_build [OF new(2)]) auto
    have c: "closed_view (?D(?m \<mapsto> (sm, Some i)))" using new(2) dm D(2) by (intro closed_view_upd) (auto simp: closed_view_def)
    have b: "set_expected_src i (Some ?m) (build (?D(?m \<mapsto> (sm, Some i)))) = Some (build (?D(?m \<mapsto> (sm, Some i), i \<mapsto> (None, Some ?m))))"
      using im by (intro set_expected_src_build [OF c]) auto
    have "?D(?m \<mapsto> (sm, Some i), i \<mapsto> (None, Some ?m)) = D(i \<mapsto> (None, Some ?m), ?m \<mapsto> (sm, Some i))"
      using im by (auto intro!: ext)
    moreover have "closed_view (?D(?m \<mapsto> (sm, Some i), i \<mapsto> (None, Some ?m)))" using dm by (intro closed_view_upd [OF c]) auto
    ultimately show ?thesis
      using m D new a b dm srt asked_add(2) [of i ?m _ D]
      by (auto simp: vm_Add_def represents_def add_view_def Let_def)
  next
    case 3
    then have "members s \<noteq> []" by auto
    then have mD: "D ?m \<noteq> None" using assms(1) represents_dom [OF assms(1)] by (simp add: represents_def)
    have "set_expected_src i (Some ?m) (build ?D) = Some (build (?D(i \<mapsto> (None, Some ?m))))"
      using mD by (intro set_expected_src_build [OF new(2)]) auto
    moreover have "closed_view (D(i \<mapsto> (None, Some ?m)))" using D(2) mD by (intro closed_view_upd) auto
    ultimately show ?thesis
      using 3 D new srt mD assms asked_add(3) [OF 3, of ?m _ D i]
      by (auto simp: vm_Add_def represents_def add_view_def Let_def set_insort_key)
  qed
qed

definition master_view :: "int \<Rightarrow> view \<Rightarrow> view" where
  "master_view i D = (\<lambda>p. if p \<in> dom D - {i} then map_option (\<lambda>(s, _). (s, Some i)) (D p) else D p)"

lemma asked_master:
  assumes "dom D = set ms"
  shows "asked ((if filter (\<lambda>p. p \<noteq> i) ms \<noteq> [] then [Prepare i] else []) @ es) D (master_view i D)"
  using assms by (auto simp: asked_def master_view_def filter_empty_conv split: if_splits)

lemma SetMaster_view:
  assumes "represents s D" "i \<in> set (members s)" "i \<noteq> master s"
  shows "\<exists>s' es. vm_SetMaster i s = Some (s', es) \<and> represents s' (master_view i D) \<and>
    members s' = members s \<and> master s' = i \<and> asked es D (master_view i D)"
proof -
  have D: "store s = build D" "closed_view D" "dom D = set (members s)" using assms by (simp_all add: represents_def)
  then have D4: "D i \<noteq> None" using assms(2) by (metis domIff)
  note D = D D4
  let ?ps = "filter (\<lambda>p. p \<noteq> i) (members s)"
  have ps: "\<forall>p\<in>set ?ps. D p \<noteq> None" using represents_dom [OF assms(1)] by simp
  have v: "(\<lambda>p. if p \<in> set ?ps then map_option (\<lambda>(s, _). (s, Some i)) (D p) else D p) = master_view i D"
    using D(3) by (auto simp: master_view_def intro!: ext)
  have "dom (master_view i D) = dom D" by (auto simp: master_view_def split: if_splits)
  moreover have "closed_view (master_view i D)"
    using D(2,4) by (auto simp: closed_view_def master_view_def split: if_splits)
  ultimately have rep: "represents (s\<lparr>store := build (master_view i D), master := i\<rparr>) (master_view i D)"
    using assms D by (auto simp: represents_def)
  have "for_each (\<lambda>p. set_expected_src p (Some i)) ?ps (store s) = Some (build (master_view i D))"
    using expect_all_build [OF D(2,4) ps] unfolding v D(1) .
  then have run: "vm_SetMaster i s = Some (s\<lparr>store := build (master_view i D), master := i\<rparr>,
      (if ?ps \<noteq> [] then [Prepare i] else []) @ EventDetector_Detect s (s\<lparr>store := build (master_view i D), master := i\<rparr>))"
    using assms(2,3) by (simp add: vm_SetMaster_def Let_def)
  show ?thesis by (intro exI conjI, rule run, rule rep) (simp_all add: asked_master [OF D(3)] del: if_split)
qed

definition prepared_view :: "int \<Rightarrow> int set \<Rightarrow> view \<Rightarrow> view" where
  "prepared_view i P D = (\<lambda>p. if p \<in> P then map_option (\<lambda>(s, e). if e = Some i then (Some i, None) else (s, e)) (D p) else D p)"

lemma asked_prepared: "asked es D (prepared_view i P D)"
  by (auto simp: asked_def prepared_view_def split: if_splits)

lemma prepared_loop_view:
  assumes "closed_view D" "D i \<noteq> None" "\<forall>p\<in>set ps. D p \<noteq> None" "distinct ps"
  shows "prepared_loop i ps (build D) = Some (build (prepared_view i (set ps) D),
    map SrcChanged (filter (\<lambda>p. \<exists>s. D p = Some (s, Some i) \<and> s \<noteq> Some i) ps))"
  using assms
proof (induction ps arbitrary: D)
  case Nil
  then show ?case by (simp add: prepared_view_def)
next
  case (Cons p ps)
  obtain s e where p: "D p = Some (s, e)" using Cons.prems(3) by auto
  show ?case
  proof (cases "e = Some i")
    case True
    let ?D1 = "D(p \<mapsto> (s, None))" and ?D2 = "D(p \<mapsto> (Some i, None))"
    have c1: "closed_view ?D1" "closed_view ?D2"
      using Cons.prems(1,2) p by (auto intro!: closed_view_upd simp: closed_view_def)
    have "UnbindExpectedSrc p (build D) = Some (build ?D1)" by (rule UnbindExpectedSrc_build [OF Cons.prems(1) p])
    moreover have "set_src p (Some i) (build ?D1) = Some (build ?D2)"
      using set_src_build [OF c1(1), of p s None i] Cons.prems(2) by simp
    moreover have "prepared_loop i ps (build ?D2) = Some (build (prepared_view i (set ps) ?D2),
        map SrcChanged (filter (\<lambda>p. \<exists>s. ?D2 p = Some (s, Some i) \<and> s \<noteq> Some i) ps))"
      using Cons.prems by (intro Cons.IH [OF c1(2)]) auto
    moreover have "filter (\<lambda>p. \<exists>s. ?D2 p = Some (s, Some i) \<and> s \<noteq> Some i) ps = filter (\<lambda>p. \<exists>s. D p = Some (s, Some i) \<and> s \<noteq> Some i) ps"
      using Cons.prems(4) by (intro filter_cong) auto
    moreover have "prepared_view i (set ps) ?D2 = prepared_view i (set (p # ps)) D"
      using p True Cons.prems(4) by (auto simp: prepared_view_def intro!: ext)
    ultimately show ?thesis using p True by (simp add: build_Some del: set_simps)
  next
    case False
    have "prepared_view i (set ps) D = prepared_view i (set (p # ps)) D"
      using p False by (auto simp: prepared_view_def intro!: ext)
    moreover have "\<forall>q\<in>set ps. D q \<noteq> None" "distinct ps" using Cons.prems(3,4) by simp_all
    ultimately show ?thesis
      using Cons.IH [OF Cons.prems(1,2)] p False by (simp add: build_Some del: set_simps)
  qed
qed

lemma SetPrepared_view:
  assumes "represents s D" "i \<in> set (members s)"
  shows "\<exists>s' es. vm_SetPrepared i s = Some (s', es) \<and> represents s' (prepared_view i UNIV D) \<and>
    members s' = members s \<and> master s' = master s \<and> asked es D (prepared_view i UNIV D) \<and>
    es = map SrcChanged (filter (\<lambda>p. \<exists>s. D p = Some (s, Some i) \<and> s \<noteq> Some i) (members s)) @ EventDetector_Detect s s'"
proof -
  have D: "store s = build D" "closed_view D" "dom D = set (members s)" using assms by (simp_all add: represents_def)
  then have D4: "D i \<noteq> None" using assms(2) by (metis domIff)
  have "distinct (members s)" using assms(1) by (simp add: represents_def)
  note D = D D4 this
  have loop: "prepared_loop i (members s) (store s) = Some (build (prepared_view i (set (members s)) D),
      map SrcChanged (filter (\<lambda>p. \<exists>s. D p = Some (s, Some i) \<and> s \<noteq> Some i) (members s)))"
    unfolding D(1) using D represents_dom [OF assms(1)] by (intro prepared_loop_view) simp_all
  have "prepared_view i (set (members s)) D p = prepared_view i UNIV D p" for p
    unfolding D(3) [symmetric] by (cases "D p") (auto simp: prepared_view_def)
  then have v: "prepared_view i (set (members s)) D = prepared_view i UNIV D" by (rule ext)
  have "dom (prepared_view i UNIV D) = dom D" by (auto simp: prepared_view_def)
  moreover have "closed_view (prepared_view i UNIV D)"
    using D(2,4) by (auto simp: closed_view_def prepared_view_def split: if_splits)
  ultimately show ?thesis
    using loop v assms D by (auto simp: vm_SetPrepared_def represents_def Let_def asked_prepared)
qed

lemma SelectNewSrc_member:
  assumes "members s \<noteq> []" "master s \<in> set (members s)" "distinct (members s)"
  shows "\<exists>q. SelectNewSrc l s = Some q \<and> q \<in> set (members s)"
proof (cases "l = master s \<and> length (members s) \<noteq> 1")
  case True
  have "find (\<lambda>i. i \<noteq> l) (members s) \<noteq> None"
  proof
    assume "find (\<lambda>i. i \<noteq> l) (members s) = None"
    then have "set (members s) \<subseteq> {l}" by (auto simp: find_None_iff)
    then have "length (members s) \<le> 1" using assms(3) card_mono [of "{l}"] by (simp flip: distinct_card)
    then show False using True assms(1) by (cases "members s") auto
  qed
  then show ?thesis using True assms(1) by (auto simp: SelectNewSrc_def find_Some_iff)
qed (use assms in \<open>auto simp: SelectNewSrc_def\<close>)

lemma SelectNewSrc_self:
  assumes "SelectNewSrc (master s) s = Some (master s)" "members s \<noteq> []" "master s \<in> set (members s)"
  shows "set (members s) = {master s}"
proof -
  have "find (\<lambda>i. i \<noteq> x) xs \<noteq> Some x" for x :: int and xs by (induction xs) auto
  then have "length (members s) = 1"
    using assms(1,2) unfolding SelectNewSrc_def by metis
  then show ?thesis using assms(3) by (auto simp: length_Suc_conv)
qed

lemma SelectNewSrc_cong: "members s = members t \<Longrightarrow> master s = master t \<Longrightarrow> SelectNewSrc l s = SelectNewSrc l t"
  by (simp add: SelectNewSrc_def)

definition redirected :: "(int \<Rightarrow> int) \<Rightarrow> int set \<Rightarrow> view \<Rightarrow> view" where
  "redirected f L D = (\<lambda>p. if p \<in> L then map_option (\<lambda>(s, _). (s, Some (f p))) (D p) else D p)"

lemma redirect_view:
  assumes "closed_view D" "store s = build D" "\<forall>l\<in>set ls. D l \<noteq> None"
    and "\<forall>l. SelectNewSrc l s = Some (f l) \<and> D (f l) \<noteq> None"
  shows "redirect ls s = Some (s\<lparr>store := build (redirected f (set ls) D)\<rparr>, map f ls)"
  using assms
proof (induction ls arbitrary: s D)
  case Nil
  then show ?case by (simp add: redirected_def)
next
  case (Cons l ls)
  obtain sl el where l: "D l = Some (sl, el)" using Cons.prems(3) by auto
  let ?D = "D(l \<mapsto> (sl, Some (f l)))" and ?s = "s\<lparr>store := build (D(l \<mapsto> (sl, Some (f l))))\<rparr>"
  have step: "set_expected_src l (Some (f l)) (build D) = Some (build ?D)"
    using Cons.prems(4) by (intro set_expected_src_build [OF Cons.prems(1) l]) blast
  have c: "closed_view ?D" using Cons.prems(1,4) l by (intro closed_view_upd) (auto simp: closed_view_def)
  have "SelectNewSrc r ?s = SelectNewSrc r s" for r by (simp add: SelectNewSrc_def)
  then have sel: "\<forall>r. SelectNewSrc r ?s = Some (f r) \<and> ?D (f r) \<noteq> None" using Cons.prems(4) by simp
  have "store ?s = build ?D" "\<forall>r\<in>set ls. ?D r \<noteq> None" using Cons.prems(3) by simp_all
  note Cons.IH [OF c this sel]
  moreover have "redirected f (set ls) ?D = redirected f (set (l # ls)) D"
    using l by (auto simp: redirected_def intro!: ext)
  moreover have "SelectNewSrc l s = Some (f l)" using Cons.prems(4) by blast
  ultimately show ?case using step
    by (simp only: redirect.simps Cons.prems(2) Option.bind.simps prod.case video_map.update_convs(1) list.map) simp
qed

text \<open>A view without the member \<open>i\<close>, in which nobody sees it.\<close>

definition dropped :: "int \<Rightarrow> view \<Rightarrow> view" where
  "dropped i D = (unbound i D)(i := None)"

lemma closed_redirected:
  assumes "closed_view D" "\<forall>l. D (f l) \<noteq> None"
  shows "closed_view (redirected f L D)"
  using assms by (auto simp: closed_view_def redirected_def split: if_splits)

lemma closed_dropped: "closed_view D \<Longrightarrow> closed_view (dropped i D)"
  by (auto simp: closed_view_def dropped_def unbound_def split: if_splits)

lemma dom_delete: "(\<And>p. W p \<noteq> None \<longleftrightarrow> p \<in> M) \<Longrightarrow> dom (W(i := None)) = M - {i}"
  by (auto simp: dom_def)

lemma closed_delete:
  assumes "closed_view D" "\<And>p s e. D p = Some (s, e) \<Longrightarrow> s \<noteq> Some i \<and> e \<noteq> Some i"
  shows "closed_view (D(i := None))"
  using assms unfolding closed_view_def by (metis fun_upd_apply option.discI)

lemma closed_expect:
  assumes "closed_view D" "D m \<noteq> None"
  shows "closed_view (\<lambda>p. if p \<in> P then map_option (\<lambda>(s, _). (s, Some m)) (D p) else D p)"
  using assms by (auto simp: closed_view_def split: if_splits)

lemma unbound_avoids: "unbound i D p = Some (s, e) \<Longrightarrow> s \<noteq> Some i \<and> e \<noteq> Some i"
  by (auto simp: unbound_def split: if_splits)

definition remove_view :: "int \<Rightarrow> video_map \<Rightarrow> view \<Rightarrow> view" where
  "remove_view i s D =
     (let s1 = s\<lparr>members := remove1 i (members s)\<rparr> in
      if members s1 = [] then (\<lambda>_. None)
      else if i = master s
      then let m = SelectNewMaster s1; src = the (SelectNewSrc m (s1\<lparr>master := m\<rparr>))
           in (master_view m ((dropped i D)(m \<mapsto> (fst (the (dropped i D m)), Some src))))
      else dropped i (redirected (\<lambda>l. the (SelectNewSrc l s1)) {p. \<exists>s e. D p = Some (s, e) \<and> (s = Some i \<or> e = Some i)} D))"

lemma dom_dropped: "dom (dropped i D) = dom D - {i}"
  by (auto simp: dropped_def unbound_def split: if_splits)

lemma dom_redirected: "dom (redirected f L D) = dom D"
  by (auto simp: redirected_def split: if_splits)

lemma Remove_other_view:
  assumes "represents s D" "enumerates enum" "i \<in> set (members s)" "remove1 i (members s) \<noteq> []" "i \<noteq> master s"
  shows "\<exists>s' es. vm_Remove enum i s = Some (s', es) \<and> represents s' (remove_view i s D) \<and>
    members s' = remove1 i (members s) \<and> master s' = master s \<and> asked es D (remove_view i s D)"
proof -
  let ?s = "s\<lparr>members := remove1 i (members s)\<rparr>"
  have D: "store s = build D" "closed_view D" "dom D = set (members s)" "distinct (members s)" "sorted (members s)"
    using assms(1) by (simp_all add: represents_def)
  have mem: "set (members ?s) = set (members s) - {i}" using D(4) by (simp add: set_remove1_eq)
  have ms: "master s \<in> set (members s)" using assms(1,3) by (auto simp: represents_def split: if_splits)
  define f where "f = (\<lambda>l. the (SelectNewSrc l ?s))"
  have f: "SelectNewSrc l ?s = Some (f l)" "f l \<in> set (members ?s)" for l
    using SelectNewSrc_member [of ?s l] assms(4,5) ms mem D(4) by (auto simp: f_def)
  have fD: "D (f l) \<noteq> None" for l using f(2) [of l] mem represents_dom [OF assms(1)] by auto
  obtain si ei where i: "D i = Some (si, ei)"
    using represents_dom [OF assms(1), of i] assms(3) by (metis option.exhaust surj_pair)
  have fin: "finite (dom D)" using D(3) by simp
  let ?L = "{q. \<exists>e'. D q = Some (Some i, e')}" and ?E = "{q. \<exists>s'. D q = Some (s', Some i)}"
  have en: "set (enum ?L) = ?L" "set (enum ?E) = ?E"
    by (rule enumeratesD [OF assms(2) finite_lookers(1) [OF fin]], rule enumeratesD [OF assms(2) finite_lookers(2) [OF fin]])
  let ?D1 = "redirected f ?L D" and ?D2 = "redirected f ?E (redirected f ?L D)"
  have L: "\<forall>l\<in>set (enum ?L). D l \<noteq> None" unfolding en(1) by (simp only: mem_Collect_eq Ball_def) blast
  have sD: "store ?s = build D" "\<forall>l. SelectNewSrc l ?s = Some (f l) \<and> D (f l) \<noteq> None"
    using D(1) f(1) fD by simp_all
  have r1: "redirect (enum ?L) ?s = Some (?s\<lparr>store := build ?D1\<rparr>, map f (enum ?L))"
    using redirect_view [OF D(2) sD(1) L sD(2)] unfolding en(1) .
  have sel: "SelectNewSrc l (?s\<lparr>store := build ?D1\<rparr>) = Some (f l)" for l
    by (rule trans [OF SelectNewSrc_cong f(1)]) simp_all
  have c1: "closed_view ?D1" using D(2) fD by (intro closed_redirected) simp_all
  have d1: "?D1 p \<noteq> None \<longleftrightarrow> D p \<noteq> None" for p by (simp add: redirected_def)
  have E: "\<forall>l\<in>set (enum ?E). ?D1 l \<noteq> None" unfolding en(2) d1 by (simp only: mem_Collect_eq Ball_def) blast
  have sE: "store (?s\<lparr>store := build ?D1\<rparr>) = build ?D1"
    "\<forall>l. SelectNewSrc l (?s\<lparr>store := build ?D1\<rparr>) = Some (f l) \<and> ?D1 (f l) \<noteq> None"
    using sel fD d1 by simp_all
  have r2: "redirect (enum ?E) (?s\<lparr>store := build ?D1\<rparr>) =
      Some (?s\<lparr>store := build ?D1\<rparr>\<lparr>store := build ?D2\<rparr>, map f (enum ?E))"
    using redirect_view [OF c1 sE(1) E sE(2)] unfolding en(2) .
  have c2: "closed_view ?D2" by (rule closed_redirected [OF c1]) (use fD d1 in blast)
  have "?D2 p = redirected f {p. \<exists>s e. D p = Some (s, e) \<and> (s = Some i \<or> e = Some i)} D p" for p
    by (cases "D p") (auto simp: redirected_def)
  then have D2: "?D2 = redirected f {p. \<exists>s e. D p = Some (s, e) \<and> (s = Some i \<or> e = Some i)} D" by (rule ext)
  have i2: "?D2 i \<noteq> None" using d1 i by (simp add: redirected_def)
  have dom2: "dom ?D2 = dom D" by (simp add: dom_redirected)
  have u: "Unbind enum i (build ?D2) = Some (build (unbound i ?D2))"
    using c2 assms(2) i2 fin dom2 by (intro Unbind_build) simp_all
  have "unbound i ?D2 i = Some (None, None)" using i2 by (auto simp: unbound_def)
  then have del: "(build (unbound i ?D2))(i := None) = build (dropped i ?D2)"
    by (simp add: delete_build dropped_def)
  have rem: "vm_Remove enum i s = Some (?s\<lparr>store := build (dropped i ?D2)\<rparr>,
      map Prepare (sorted_list_of_set (set (map f (enum ?L) @ map f (enum ?E)))) @ EventDetector_Detect s (?s\<lparr>store := build (dropped i ?D2)\<rparr>))"
    using assms(3-5) D(1) i r1 r2 u del by (simp add: vm_Remove_def build_Some [of D i, OF i] Let_def)
  have rep: "represents (?s\<lparr>store := build (dropped i ?D2)\<rparr>) (dropped i ?D2)"
    using D dom2 mem assms(4,5) ms closed_dropped [OF c2] by (simp add: represents_def dom_dropped sorted_remove1)
  have view: "remove_view i s D = dropped i ?D2"
    unfolding D2 using assms(4,5) by (simp add: remove_view_def f_def)
  have ask: "asked (map Prepare (sorted_list_of_set (set (map f (enum ?L) @ map f (enum ?E)))) @ es) D (dropped i ?D2)" for es
    unfolding asked_def set_append set_map en
  proof (intro allI impI)
    fix p \<sigma> q
    assume "dropped i ?D2 p = Some (\<sigma>, Some q)"
    then obtain \<sigma>' where "?D2 p = Some (\<sigma>', Some q)" by (auto simp: dropped_def unbound_def split: if_splits)
    then have "q \<in> f ` ?L \<union> f ` ?E \<or> (\<exists>\<sigma>'. D p = Some (\<sigma>', Some q))"
      by (auto simp: redirected_def split: if_splits)
    then show "Prepare q \<in> Prepare ` set (sorted_list_of_set (f ` ?L \<union> f ` ?E)) \<union> set es \<or> (\<exists>\<sigma>'. D p = Some (\<sigma>', Some q))"
      using finite_lookers [OF fin] by (simp add: image_iff bex_Un) blast
  qed
  show ?thesis unfolding view by (intro exI conjI, rule rem, rule rep) (rule ask | simp)+
qed

lemma Remove_master_view:
  assumes "represents s D" "enumerates enum" "i \<in> set (members s)" "remove1 i (members s) \<noteq> []" "i = master s"
  shows "\<exists>s' es. vm_Remove enum i s = Some (s', es) \<and> represents s' (remove_view i s D) \<and>
    members s' = remove1 i (members s) \<and> master s' = hd (remove1 i (members s)) \<and> asked es D (remove_view i s D)"
proof -
  let ?s = "s\<lparr>members := remove1 i (members s)\<rparr>" and ?m = "hd (remove1 i (members s))"
  have D: "store s = build D" "closed_view D" "dom D = set (members s)" "distinct (members s)" "sorted (members s)"
    using assms(1) by (simp_all add: represents_def)
  have mem: "set (remove1 i (members s)) = set (members s) - {i}" using D(4) by (simp add: set_remove1_eq)
  have m: "?m \<in> set (remove1 i (members s))" using assms(4) by simp
  obtain q where q: "SelectNewSrc ?m (?s\<lparr>master := ?m\<rparr>) = Some q" "q \<in> set (remove1 i (members s))"
    using SelectNewSrc_member [of "?s\<lparr>master := ?m\<rparr>" ?m] assms(4) m D(4) by auto
  let ?U = "unbound i D"
  have u: "Unbind enum i (build D) = Some (build ?U)"
    using D assms(2,3) represents_dom [OF assms(1)] by (intro Unbind_build) simp_all
  have dU: "?U p \<noteq> None \<longleftrightarrow> p \<in> set (members s)" for p
    using represents_dom [OF assms(1)] by (auto simp: unbound_def)
  have cU: "closed_view ?U" by (rule closed_unbound [OF D(2)])
  have im: "?m \<noteq> i" "q \<noteq> i" using m q(2) mem by auto
  obtain sm em where um: "?U ?m = Some (sm, em)" using dU [of ?m] m mem by fastforce
  let ?V = "?U(?m \<mapsto> (sm, Some q))"
  have v: "set_expected_src ?m (Some q) (build ?U) = Some (build ?V)"
    using dU [of q] q(2) mem by (intro set_expected_src_build [OF cU um]) auto
  have cV: "closed_view ?V" using cU um dU [of q] q(2) mem by (intro closed_view_upd) (auto simp: closed_view_def)
  let ?ps = "filter (\<lambda>p. p \<noteq> ?m) (remove1 i (members s))"
  let ?W = "\<lambda>p. if p \<in> set ?ps then map_option (\<lambda>(s, _). (s, Some ?m)) (?V p) else ?V p"
  have ps: "\<forall>p\<in>set ?ps. ?V p \<noteq> None" using dU mem by auto
  have w: "for_each (\<lambda>p. set_expected_src p (Some ?m)) ?ps (build ?V) = Some (build ?W)"
    by (rule expect_all_build [OF cV _ ps]) simp
  have Wi: "?W i = Some (None, None)" using mem im assms(3) represents_dom [OF assms(1), of i] by (auto simp: unbound_def)
  have del: "(build ?W)(i := None) = build (?W(i := None))" by (rule delete_build [of ?W i, OF Wi])
  have selm: "SelectNewMaster ?s = ?m" using assms(4) by (cases "remove1 i (members s)") (auto simp: SelectNewMaster_def)
  have view: "?W(i := None) = remove_view i s D"
  proof
    fix p
    show "(?W(i := None)) p = remove_view i s D p"
      using assms(4,5) q(1) selm um im mem dU [of p]
      by (cases "D p") (auto simp: remove_view_def Let_def master_view_def dropped_def unbound_def SelectNewSrc_def split: if_splits)
  qed
  let ?s' = "?s\<lparr>master := ?m, store := build (remove_view i s D)\<rparr>"
  have st: "(build ?W)(i := None) = build (remove_view i s D)" using del view by (rule trans [OF _ arg_cong])
  have q': "SelectNewSrc ?m (?s\<lparr>store := build ?U, master := ?m\<rparr>) = Some q"
    by (rule trans [OF SelectNewSrc_cong q(1)]) simp_all
  have unf: "vm_Remove enum i s = do {
      st \<leftarrow> Unbind enum i (store s);
      src \<leftarrow> SelectNewSrc ?m (?s\<lparr>store := st, master := ?m\<rparr>);
      st \<leftarrow> set_expected_src ?m (Some src) st;
      st \<leftarrow> for_each (\<lambda>p. set_expected_src p (Some ?m)) ?ps st;
      let s3 = ?s\<lparr>master := ?m, store := st(i := None)\<rparr>
      in Some (s3, [Prepare src, Prepare ?m] @ EventDetector_Detect s s3) }"
    unfolding vm_Remove_def Let_def selm using assms(3,4) by (simp add: assms(5) [symmetric])
  have rem: "vm_Remove enum i s = Some (?s', [Prepare q, Prepare ?m] @ EventDetector_Detect s ?s')"
    unfolding unf D(1) u v w q' Option.bind.simps Let_def st by simp
  have "?W p \<noteq> None \<longleftrightarrow> ?U p \<noteq> None" for p using um by (cases "?U p") auto
  then have "?W p \<noteq> None \<longleftrightarrow> p \<in> set (members s)" for p unfolding dU .
  then have "dom (remove_view i s D) = set (remove1 i (members s))"
    unfolding view [symmetric] mem by (rule dom_delete)
  moreover have "closed_view (remove_view i s D)"
    unfolding view [symmetric]
  proof (rule closed_delete)
    show "closed_view ?W" by (rule closed_expect [OF cV]) simp
    show "\<sigma> \<noteq> Some i \<and> \<epsilon> \<noteq> Some i" if W: "?W p = Some (\<sigma>, \<epsilon>)" for p \<sigma> \<epsilon>
    proof (cases "p = ?m")
      case True
      then show ?thesis using W unbound_avoids [OF um] im by auto
    next
      case False
      then obtain s' e' where u': "?U p = Some (s', e')" "s' = \<sigma>" "\<epsilon> = e' \<or> \<epsilon> = Some ?m"
        using W by (auto split: if_splits)
      then show ?thesis using unbound_avoids [OF u'(1)] im(1) by auto
    qed
  qed
  ultimately have "represents ?s' (remove_view i s D)"
    using D assms(4) m by (simp add: represents_def sorted_remove1)
  moreover have "asked ([Prepare q, Prepare ?m] @ es) D (remove_view i s D)" for es
  proof (unfold view [symmetric] asked_def, intro allI impI)
    fix p \<sigma> x
    assume W: "(?W(i := None)) p = Some (\<sigma>, Some x)"
    show "Prepare x \<in> set ([Prepare q, Prepare ?m] @ es) \<or> (\<exists>\<sigma>'. D p = Some (\<sigma>', Some x))"
    proof (cases "p = ?m")
      case True
      then show ?thesis using W by (auto split: if_splits)
    next
      case False
      then have "x = ?m \<or> ?U p = Some (\<sigma>, Some x)" using W by (auto split: if_splits)
      then show ?thesis by (auto simp: unbound_def split: if_splits)
    qed
  qed
  ultimately show ?thesis using rem by auto
qed

section \<open>Everybody is directed at the master\<close>

text \<open>The member that \<open>p\<close> is to see once everything is prepared.\<close>

definition aim :: "view \<Rightarrow> int \<Rightarrow> int option" where
  "aim D p = (case D p of None \<Rightarrow> None | Some (s, None) \<Rightarrow> s | Some (s, Some q) \<Rightarrow> Some q)"

text \<open>Everybody but the master is to see the master, the master is to see somebody else, and itself
  only when it is alone.\<close>

definition directed :: "view \<Rightarrow> int \<Rightarrow> bool" where
  "directed D m \<longleftrightarrow> (\<forall>p\<in>dom D - {m}. aim D p = Some m) \<and>
     (m \<in> dom D \<longrightarrow> (\<exists>q\<in>dom D. aim D m = Some q \<and> (q = m \<longrightarrow> dom D = {m})))"

lemma aim_upd: "aim (D(p \<mapsto> (s, Some q))) r = (if r = p then Some q else aim D r)"
  by (simp add: aim_def)

lemma aim_prepared: "aim (prepared_view i UNIV D) p = aim D p"
  by (auto simp: aim_def prepared_view_def split: option.splits)

lemma dom_prepared: "dom (prepared_view i UNIV D) = dom D"
  by (auto simp: prepared_view_def)

lemma aim_master: "p \<in> dom D \<Longrightarrow> aim (master_view i D) p = (if p = i then aim D p else Some i)"
  by (auto simp: aim_def master_view_def split: option.splits)

lemma dom_master: "dom (master_view i D) = dom D"
  by (auto simp: master_view_def split: if_splits)

lemma directed_prepared: "directed D m \<Longrightarrow> directed (prepared_view i UNIV D) m"
  unfolding directed_def aim_prepared dom_prepared .

lemma directed_master:
  assumes "directed D m" "i \<in> dom D" "i \<noteq> m" "m \<in> dom D"
  shows "directed (master_view i D) i"
  using assms unfolding directed_def dom_master by (auto simp: aim_master domI)

lemma directed_add:
  assumes "represents s D" "directed D (master s)" "i \<notin> set (members s)"
  shows "directed (add_view i (master s) (length (members s)) D) (if members s = [] then i else master s)"
proof -
  let ?m = "master s"
  have D: "dom D = set (members s)" "distinct (members s)" using assms(1) by (simp_all add: represents_def)
  consider "members s = []" | "length (members s) = 1" | "2 \<le> length (members s)"
    by (cases "members s"; cases "tl (members s)") auto
  then show ?thesis
  proof cases
    case 1
    then show ?thesis using D by (simp add: directed_def add_view_def aim_upd)
  next
    case 2
    then obtain m where "members s = [m]" by (auto simp: length_Suc_conv)
    then have d: "members s = [?m]" using assms(1) by (simp add: represents_def)
    then show ?thesis using assms(3) D by (auto simp: directed_def add_view_def aim_upd)
  next
    case 3
    then have ne: "members s \<noteq> []" by auto
    then have d: "?m \<in> dom D" using assms(1) D(1) by (simp add: represents_def)
    have i: "i \<notin> dom D" "i \<noteq> ?m" using assms(3) D(1) d by auto
    have "dom D \<noteq> {?m}" using 3 D distinct_card [of "members s"] by auto
    then obtain q where q: "q \<in> dom D" "aim D ?m = Some q" "q \<noteq> ?m" using assms(2) d by (auto simp: directed_def)
    have "add_view i ?m (length (members s)) D = D(i \<mapsto> (None, Some ?m))" using 3 ne by (simp add: add_view_def)
    then show ?thesis using assms(2) d i q ne by (auto simp: directed_def aim_upd)
  qed
qed

lemma aim_dropped:
  assumes "p \<noteq> i" "aim D p \<noteq> Some i" "aim D p \<noteq> None" "\<And>e. D p = Some (Some i, e) \<Longrightarrow> e \<noteq> None"
  shows "aim (dropped i D) p = aim D p"
  using assms by (auto simp: aim_def dropped_def unbound_def split: option.splits)

lemma aim_redirected: "p \<in> dom D \<Longrightarrow> aim (redirected f L D) p = (if p \<in> L then Some (f p) else aim D p)"
  by (auto simp: aim_def redirected_def split: option.splits)

lemma directed_remove_master:
  assumes "represents s D" "directed D (master s)" "i \<in> set (members s)" "remove1 i (members s) \<noteq> []" "i = master s"
  shows "directed (remove_view i s D) (hd (remove1 i (members s)))"
proof -
  let ?s = "s\<lparr>members := remove1 i (members s)\<rparr>" and ?m = "hd (remove1 i (members s))"
  have D: "dom D = set (members s)" "distinct (members s)" using assms(1) by (simp_all add: represents_def)
  have mem: "set (remove1 i (members s)) = set (members s) - {i}" using D(2) by (simp add: set_remove1_eq)
  have m: "?m \<in> set (remove1 i (members s))" using assms(4) by simp
  have selm: "SelectNewMaster ?s = ?m" using assms(4) by (cases "remove1 i (members s)") (auto simp: SelectNewMaster_def)
  obtain q where q: "SelectNewSrc ?m (?s\<lparr>master := ?m\<rparr>) = Some q" "q \<in> set (remove1 i (members s))"
    using SelectNewSrc_member [of "?s\<lparr>master := ?m\<rparr>" ?m] assms(4) m D(2) by auto
  have q1: "set (remove1 i (members s)) = {?m}" if "q = ?m"
    using SelectNewSrc_self [of "?s\<lparr>master := ?m\<rparr>"] q(1) assms(4) m that by simp
  let ?V = "(dropped i D)(?m \<mapsto> (fst (the (dropped i D ?m)), Some q))"
  have view: "remove_view i s D = master_view ?m ?V" using assms(4,5) q(1) selm by (simp add: remove_view_def Let_def)
  have dom: "dom ?V = set (remove1 i (members s))" using m mem D(1) by (auto simp: dom_dropped)
  have "aim (master_view ?m ?V) p = (if p = ?m then Some q else Some ?m)" if "p \<in> set (remove1 i (members s))" for p
    unfolding aim_master [of p ?V ?m, unfolded dom, OF that] aim_upd by simp
  then show ?thesis
    unfolding view directed_def dom_master dom using m q(2) q1 by auto
qed

lemma directed_remove_other:
  assumes "represents s D" "directed D (master s)" "i \<in> set (members s)" "remove1 i (members s) \<noteq> []" "i \<noteq> master s"
  shows "directed (remove_view i s D) (master s)"
proof -
  let ?s = "s\<lparr>members := remove1 i (members s)\<rparr>" and ?m = "master s"
  have D: "dom D = set (members s)" "distinct (members s)" using assms(1) by (simp_all add: represents_def)
  have mem: "set (remove1 i (members s)) = set (members s) - {i}" using D(2) by (simp add: set_remove1_eq)
  have ms: "?m \<in> set (members s)" using assms(1,3) by (auto simp: represents_def split: if_splits)
  define f where "f = (\<lambda>l. the (SelectNewSrc l ?s))"
  define L where "L = {p. \<exists>s e. D p = Some (s, e) \<and> (s = Some i \<or> e = Some i)}"
  have view: "remove_view i s D = dropped i (redirected f L D)"
    using assms(4,5) by (simp add: remove_view_def f_def L_def)
  have dom: "dom (dropped i (redirected f L D)) = set (remove1 i (members s))" by (simp add: dom_dropped dom_redirected D mem)
  have f: "f l = ?m" if "l \<noteq> ?m" for l using that assms(4) by (simp add: f_def SelectNewSrc_def)
  have m': "?m \<in> set (remove1 i (members s))" using ms assms(5) mem by simp
  obtain q where q: "SelectNewSrc ?m ?s = Some q" "q \<in> set (remove1 i (members s))"
    using SelectNewSrc_member [of ?s ?m] assms(4) m' D(2) by auto
  have fm: "f ?m = q" using q(1) by (simp add: f_def)
  have q1: "set (remove1 i (members s)) = {?m}" if "q = ?m"
    using SelectNewSrc_self [of ?s] q(1) assms(4) m' that by simp
  have fi: "f p \<noteq> i" for p using f q(2) fm assms(5) mem by (cases "p = ?m") auto
  have aim: "aim (dropped i (redirected f L D)) p = (if p \<in> L then Some (f p) else aim D p)"
    if "p \<in> set (remove1 i (members s))" for p
  proof -
    have p: "p \<noteq> i" "p \<in> dom D" using that mem D(1) by auto
    have "aim D p \<noteq> None" using assms(2) p ms D(1) by (cases "p = ?m") (auto simp: directed_def)
    moreover have "p \<notin> L \<Longrightarrow> aim D p \<noteq> Some i" by (auto simp: aim_def L_def split: option.splits)
    moreover have "e \<noteq> None" if "redirected f L D p = Some (Some i, e)" for e
      using that by (auto simp: redirected_def L_def split: if_splits)
    ultimately show ?thesis
      using p(1) fi [of p] by (subst aim_dropped) (simp_all add: aim_redirected [OF p(2)])
  qed
  have old: "p \<in> set (remove1 i (members s)) \<Longrightarrow> p \<noteq> ?m \<Longrightarrow> aim D p = Some ?m" for p
    using assms(2) D(1) mem by (auto simp: directed_def)
  have "\<exists>r\<in>set (remove1 i (members s)). aim (dropped i (redirected f L D)) ?m = Some r \<and> (r = ?m \<longrightarrow> set (remove1 i (members s)) = {?m})"
  proof (cases "?m \<in> L")
    case True
    then show ?thesis using aim [OF m'] fm q(2) q1 by auto
  next
    case False
    obtain r where r: "r \<in> dom D" "aim D ?m = Some r" "r = ?m \<Longrightarrow> dom D = {?m}"
      using assms(2) ms D(1) by (auto simp: directed_def)
    have "r \<noteq> i" using r(2) False ms D(1) by (auto simp: aim_def L_def split: option.splits)
    then show ?thesis using r aim [OF m'] False mem D(1) m' by auto
  qed
  then show ?thesis
    unfolding view directed_def dom using aim old f by auto
qed

section \<open>Runs\<close>

datatype vm_call = Call_Add int | Call_Remove int | Call_SetMaster int | Call_SetPrepared int

fun vm_step :: "(int set \<Rightarrow> int list) \<Rightarrow> vm_call \<Rightarrow> video_map \<Rightarrow> (video_map \<times> vm_event list) option" where
  "vm_step enum (Call_Add i) s = vm_Add i s"
| "vm_step enum (Call_Remove i) s = vm_Remove enum i s"
| "vm_step enum (Call_SetMaster i) s = vm_SetMaster i s"
| "vm_step enum (Call_SetPrepared i) s = vm_SetPrepared i s"

type_synonym vm_trace = "(vm_call \<times> vm_event list) list"

fun vm_run :: "(int set \<Rightarrow> int list) \<Rightarrow> vm_call list \<Rightarrow> video_map \<Rightarrow> (video_map \<times> vm_trace) option" where
  "vm_run enum [] s = Some (s, [])"
| "vm_run enum (c # cs) s = do {
     (s, es) \<leftarrow> vm_step enum c s;
     (s, t) \<leftarrow> vm_run enum cs s;
     Some (s, (c, es) # t) }"

text \<open>The members that were asked to prepare and have not answered since.\<close>

definition prepares :: "vm_event list \<Rightarrow> int set" where
  "prepares es = set (concat (map (\<lambda>e. case e of Prepare q \<Rightarrow> [q] | _ \<Rightarrow> []) es))"

lemma mem_prepares [simp]: "q \<in> prepares es \<longleftrightarrow> Prepare q \<in> set es"
  by (force simp: prepares_def split: vm_event.splits)

fun answered :: "vm_call \<Rightarrow> int set" where
  "answered (Call_SetPrepared i) = {i}"
| "answered _ = {}"

fun open_requests :: "int set \<Rightarrow> vm_trace \<Rightarrow> int set" where
  "open_requests W [] = W"
| "open_requests W ((c, es) # t) = open_requests (W - answered c \<union> prepares es) t"

definition awaited :: "view \<Rightarrow> int set" where
  "awaited D = {q. \<exists>p \<sigma>. D p = Some (\<sigma>, Some q)}"

definition vm_inv :: "video_map \<Rightarrow> view \<Rightarrow> bool" where
  "vm_inv s D \<longleftrightarrow> represents s D \<and> directed D (master s)"

lemma asked_awaited: "asked es D D' \<Longrightarrow> awaited D' \<subseteq> awaited D \<union> prepares es"
  unfolding asked_def awaited_def by (auto, blast)

lemma Remove_step:
  assumes "vm_inv s D" "enumerates enum" "i \<in> set (members s)"
  shows "\<exists>s' es D'. vm_Remove enum i s = Some (s', es) \<and> vm_inv s' D' \<and> asked es D D'"
proof (cases "remove1 i (members s) = []")
  case True
  have D: "store s = build D" "dom D = set (members s)" using assms(1) by (simp_all add: vm_inv_def represents_def)
  have "members s = [i]" using True assms(3) by (cases "members s") (auto split: if_splits)
  then have "D p = None" if "p \<noteq> i" for p using D(2) that by auto
  then have "(build D)(i := None) = build (\<lambda>_. None)" by (auto simp: build_def intro!: ext)
  then have "vm_Remove enum i s = Some (\<lparr>store = build (\<lambda>_. None), members = [], master = NOID\<rparr>,
      EventDetector_Detect s \<lparr>store = build (\<lambda>_. None), members = [], master = NOID\<rparr>)"
    using assms(3) True D(1) by (cases s) (simp add: vm_Remove_def Let_def)
  moreover have "vm_inv \<lparr>store = build (\<lambda>_. None), members = [], master = NOID\<rparr> (\<lambda>_. None)"
    by (simp add: vm_inv_def represents_def directed_def closed_view_def)
  moreover have "asked es D (\<lambda>_. None)" for es by (simp add: asked_def)
  ultimately show ?thesis by blast
next
  case False
  show ?thesis
  proof (cases "i = master s")
    case True
    show ?thesis
      using Remove_master_view [OF _ assms(2,3) False True] directed_remove_master [OF _ _ assms(3) False True] assms(1)
      unfolding vm_inv_def by metis
  next
    case other: False
    show ?thesis
      using Remove_other_view [OF _ assms(2,3) False other] directed_remove_other [OF _ _ assms(3) False other] assms(1)
      unfolding vm_inv_def by metis
  qed
qed

lemma vm_step_inv:
  assumes "vm_inv s D" "enumerates enum"
  shows "\<exists>s' es D'. vm_step enum c s = Some (s', es) \<and> vm_inv s' D' \<and> awaited D' \<subseteq> awaited D - answered c \<union> prepares es"
proof -
  have rep: "represents s D" "directed D (master s)" using assms(1) by (simp_all add: vm_inv_def)
  have dom: "dom D = set (members s)" "i \<in> set (members s) \<Longrightarrow> master s \<in> set (members s)" for i
    using rep(1) by (auto simp: represents_def split: if_splits)
  show ?thesis
  proof (cases c)
    case (Call_Add i)
    show ?thesis
    proof (cases "i \<in> set (members s)")
      case False
      then show ?thesis
        using Add_view [OF rep(1) False] directed_add [OF rep False] asked_awaited Call_Add unfolding vm_inv_def by fastforce
    qed (use assms Call_Add in \<open>auto simp: vm_Add_def\<close>)
  next
    case (Call_Remove i)
    show ?thesis
    proof (cases "i \<in> set (members s)")
      case True
      then show ?thesis using Remove_step [OF assms True] asked_awaited Call_Remove by fastforce
    qed (use assms Call_Remove in \<open>auto simp: vm_Remove_def\<close>)
  next
    case (Call_SetMaster i)
    show ?thesis
    proof (cases "i \<in> set (members s) \<and> i \<noteq> master s")
      case True
      then have "directed (master_view i D) i" using dom by (intro directed_master [OF rep(2)]) auto
      then show ?thesis
        using SetMaster_view [OF rep(1)] True asked_awaited Call_SetMaster unfolding vm_inv_def by fastforce
    qed (use assms Call_SetMaster in \<open>auto simp: vm_SetMaster_def\<close>)
  next
    case (Call_SetPrepared i)
    show ?thesis
    proof (cases "i \<in> set (members s)")
      case True
      have "awaited (prepared_view i UNIV D) \<subseteq> awaited D - {i}"
        by (auto simp: awaited_def prepared_view_def split: if_splits)
      then show ?thesis
        using SetPrepared_view [OF rep(1) True] directed_prepared [OF rep(2)] Call_SetPrepared unfolding vm_inv_def by fastforce
    next
      case False
      then have "i \<notin> awaited D" using rep(1) dom(1) unfolding represents_def closed_view_def awaited_def by blast
      then show ?thesis using assms Call_SetPrepared False by (auto simp: vm_SetPrepared_def)
    qed
  qed
qed

lemma vm_run_inv:
  assumes "vm_inv s D" "enumerates enum" "awaited D \<subseteq> W"
  shows "\<exists>s' t D'. vm_run enum cs s = Some (s', t) \<and> vm_inv s' D' \<and> awaited D' \<subseteq> open_requests W t"
  using assms
proof (induction cs arbitrary: s D W)
  case (Cons c cs)
  obtain s1 es D1 where 1: "vm_step enum c s = Some (s1, es)" "vm_inv s1 D1" "awaited D1 \<subseteq> awaited D - answered c \<union> prepares es"
    using vm_step_inv [OF Cons.prems(1,2)] by metis
  have "awaited D1 \<subseteq> W - answered c \<union> prepares es" using 1(3) Cons.prems(3) by blast
  from Cons.IH [OF 1(2) Cons.prems(2) this] 1(1) show ?case by auto
qed auto

lemma vm_inv_new: "vm_inv VideoMap_new (\<lambda>_. None)" "awaited (\<lambda>_. None) = {}"
  by (auto simp: vm_inv_def represents_def VideoMap_new_def build_def directed_def closed_view_def awaited_def intro!: ext)

section \<open>What a caller can rely on\<close>

text \<open>The links of the graph: both directions agree and lead to nodes of members.\<close>

definition linked :: "video_map \<Rightarrow> bool" where
  "linked s \<longleftrightarrow> dom (store s) = set (members s) \<and>
     (\<forall>p n. store s p = Some n \<longrightarrow>
        (\<forall>q. n_src n = Some q \<longrightarrow> (\<exists>m. store s q = Some m \<and> p \<in> n_lookers m)) \<and>
        (\<forall>q. n_expected_src n = Some q \<longrightarrow> (\<exists>m. store s q = Some m \<and> p \<in> n_expected_lookers m)) \<and>
        (\<forall>q\<in>n_lookers n. \<exists>m. store s q = Some m \<and> n_src m = Some p) \<and>
        (\<forall>q\<in>n_expected_lookers n. \<exists>m. store s q = Some m \<and> n_expected_src m = Some p))"

text \<open>The member that \<open>p\<close> is to see: the one it waits for or else the one it sees.\<close>

definition heading :: "video_map \<Rightarrow> int \<Rightarrow> int option" where
  "heading s p = (case store s p of None \<Rightarrow> None
     | Some n \<Rightarrow> (case n_expected_src n of None \<Rightarrow> n_src n | Some q \<Rightarrow> Some q))"

definition faces_master :: "video_map \<Rightarrow> bool" where
  "faces_master s \<longleftrightarrow> (if members s = [] then master s = NOID else master s \<in> set (members s)) \<and>
     (\<forall>p\<in>set (members s) - {master s}. heading s p = Some (master s)) \<and>
     (\<forall>p\<in>set (members s). p = master s \<longrightarrow>
        (\<exists>q\<in>set (members s). heading s p = Some q \<and> (q = p \<longrightarrow> set (members s) = {p})))"

lemma closed_viewD:
  "closed_view D \<Longrightarrow> D p = Some (Some q, e) \<Longrightarrow> D q \<noteq> None"
  "closed_view D \<Longrightarrow> D p = Some (\<sigma>, Some q) \<Longrightarrow> D q \<noteq> None"
  unfolding closed_view_def by blast+

lemma linked_build:
  assumes "represents s D" shows "linked s"
proof -
  have D: "store s = build D" "dom D = set (members s)" "closed_view D" using assms by (simp_all add: represents_def)
  have "dom (build D) = dom D" by (auto simp: build_def split: option.splits)
  moreover have "\<exists>m. build D q = Some m \<and> p \<in> n_lookers m" if "D p = Some (Some q, e)" for p q e
    using that closed_viewD(1) [OF D(3) that] by (cases "D q") (auto simp: build_def)
  moreover have "\<exists>m. build D q = Some m \<and> p \<in> n_expected_lookers m" if "D p = Some (\<sigma>, Some q)" for p q \<sigma>
    using that closed_viewD(2) [OF D(3) that] by (cases "D q") (auto simp: build_def)
  moreover have "\<exists>m. build D q = Some m \<and> n_src m = Some p" if "D q = Some (Some p, e)" for p q e
    using that by (auto simp: build_def)
  moreover have "\<exists>m. build D q = Some m \<and> n_expected_src m = Some p" if "D q = Some (\<sigma>, Some p)" for p q \<sigma>
    using that by (auto simp: build_def)
  ultimately show ?thesis
    unfolding linked_def D(1,2)
    by (auto simp: D(2) build_def [of D] split: option.splits)
qed

lemma heading_aim: "represents s D \<Longrightarrow> heading s p = aim D p"
  by (auto simp: represents_def heading_def aim_def build_def split: option.splits)

lemma faces_master_inv:
  assumes "vm_inv s D" shows "faces_master s"
proof -
  have rep: "represents s D" "directed D (master s)" using assms by (simp_all add: vm_inv_def)
  have D: "dom D = set (members s)" "if members s = [] then master s = NOID else master s \<in> set (members s)"
    using rep(1) by (simp_all add: represents_def)
  show ?thesis
    using rep(2) D(2) unfolding faces_master_def directed_def heading_aim [OF rep(1)] D(1) by auto
qed

text \<open>Answers: \<open>SetPrepared\<close> for a list of members.\<close>

lemma answers_view:
  assumes "represents s D"
  shows "\<exists>s' t. vm_run enum (map Call_SetPrepared qs) s = Some (s', t) \<and>
    represents s' (fold (\<lambda>q. if q \<in> set (members s) then prepared_view q UNIV else id) qs D) \<and>
    members s' = members s \<and> master s' = master s"
  using assms
proof (induction qs arbitrary: s D)
  case (Cons q qs)
  show ?case
  proof (cases "q \<in> set (members s)")
    case True
    obtain s1 es where 1: "vm_SetPrepared q s = Some (s1, es)" "represents s1 (prepared_view q UNIV D)"
        "members s1 = members s" "master s1 = master s"
      using SetPrepared_view [OF Cons.prems True] by blast
    then show ?thesis using Cons.IH [OF 1(2)] True by auto
  next
    case False
    then show ?thesis using Cons.IH [OF Cons.prems] by (auto simp: vm_SetPrepared_def)
  qed
qed simp

lemma answers_aim:
  "aim (fold (\<lambda>q. if q \<in> M then prepared_view q UNIV else id) qs D) p = aim D p \<and>
   awaited (fold (\<lambda>q. if q \<in> M then prepared_view q UNIV else id) qs D) \<subseteq> awaited D - (set qs \<inter> M)"
proof (induction qs arbitrary: D)
  case (Cons q qs)
  have "awaited (prepared_view q UNIV D) \<subseteq> awaited D - {q}"
    by (auto simp: awaited_def prepared_view_def split: if_splits)
  then show ?case using Cons [of "prepared_view q UNIV D"] Cons [of D] by (auto simp: aim_prepared)
qed simp

lemma awaited_members: "represents s D \<Longrightarrow> awaited D \<subseteq> set (members s)"
proof
  fix q assume rep: "represents s D" and "q \<in> awaited D"
  then obtain p \<sigma> where "D p = Some (\<sigma>, Some q)" by (auto simp: awaited_def)
  then have "D q \<noteq> None" using rep closed_viewD(2) [of D p \<sigma> q] by (simp add: represents_def)
  then show "q \<in> set (members s)" using represents_dom [OF rep] by blast
qed

lemma settled_sources:
  assumes "represents s D" "awaited D = {}" "p \<in> set (members s)"
  shows "GetExpectedSrc p s = NOID" "aim D p = Some q \<Longrightarrow> GetSrc p s = q"
proof -
  obtain \<sigma> e where p: "D p = Some (\<sigma>, e)" using represents_dom [OF assms(1), of p] assms(3) by (metis option.exhaust surj_pair)
  have "e = None" using p assms(2) by (cases e) (auto simp: awaited_def)
  moreover have "store s = build D" using assms(1) by (simp add: represents_def)
  ultimately show "GetExpectedSrc p s = NOID" "aim D p = Some q \<Longrightarrow> GetSrc p s = q"
    using p assms(3) by (auto simp: GetExpectedSrc_def GetSrc_def build_def aim_def)
qed

text \<open>C10.
  Whatever members join, leave, become master or report that they are prepared, in any order and
  whatever order the sets of pointers are iterated in: no operation follows a dangling or null
  pointer, the two directions of every link agree, everybody but the master is to see the master, and
  the master sees somebody else unless it is alone.\<close>

theorem conference_faces_master:
  assumes "enumerates enum"
  shows "\<exists>s t. vm_run enum calls VideoMap_new = Some (s, t) \<and> linked s \<and> faces_master s"
  using vm_run_inv [OF vm_inv_new(1) assms, of "{}" calls] vm_inv_new(2) linked_build faces_master_inv
  unfolding vm_inv_def by (metis subset_refl)

lemma enumerates_sorted: "enumerates sorted_list_of_set"
  by (simp add: enumerates_def)

theorem conference_faces_master_witness:
  "\<exists>s t. vm_run sorted_list_of_set [Call_Add 7, Call_Add 3, Call_SetPrepared 7, Call_SetMaster 3, Call_Remove 7] VideoMap_new = Some (s, t) \<and>
     linked s \<and> faces_master s"
  by (rule conference_faces_master [OF enumerates_sorted])

text \<open>C11.
  Requests to prepare are never lost: after any history, once the members that were asked and have
  not answered yet report that they are prepared, in any order, nobody waits for a new picture
  any more, everybody else sees the master, and the master sees another member if there is one.\<close>

theorem conference_settles:
  assumes "enumerates enum" "vm_run enum calls VideoMap_new = Some (s, t)" "open_requests {} t \<subseteq> set answers"
  shows "\<exists>s' t'. vm_run enum (map Call_SetPrepared answers) s = Some (s', t') \<and>
    members s' = members s \<and> master s' = master s \<and>
    (\<forall>p\<in>set (members s). GetExpectedSrc p s' = NOID \<and> GetSrc p s' \<in> set (members s) \<and>
       (p \<noteq> master s \<longrightarrow> GetSrc p s' = master s) \<and>
       (p = master s \<longrightarrow> GetSrc p s' = p \<longrightarrow> set (members s) = {p}))"
proof -
  obtain D where D: "vm_inv s D" "awaited D \<subseteq> open_requests {} t"
    using vm_run_inv [OF vm_inv_new(1) assms(1), of "{}" calls] vm_inv_new(2) assms(2) by auto
  then have rep: "represents s D" "directed D (master s)" by (simp_all add: vm_inv_def)
  have dom: "dom D = set (members s)" "p \<in> set (members s) \<Longrightarrow> master s \<in> set (members s)" for p
    using rep(1) by (auto simp: represents_def split: if_splits)
  define D' where "D' = fold (\<lambda>q. if q \<in> set (members s) then prepared_view q UNIV else id) answers D"
  obtain s' t' where run: "vm_run enum (map Call_SetPrepared answers) s = Some (s', t')" "represents s' D'"
      "members s' = members s" "master s' = master s"
    using answers_view [OF rep(1), of enum answers, folded D'_def] by blast
  have aim: "aim D' p = aim D p" for p unfolding D'_def by (simp add: answers_aim)
  have "awaited D' = {}"
    using conjunct2 [OF answers_aim [of "set (members s)" answers D], folded D'_def] D(2) assms(3) awaited_members [OF rep(1)]
    by blast
  note settled = settled_sources [OF run(2) this, unfolded run(3)]
  have "\<exists>q\<in>set (members s). aim D' p = Some q \<and> (p \<noteq> master s \<longrightarrow> q = master s) \<and>
      (p = master s \<longrightarrow> q = p \<longrightarrow> set (members s) = {p})" if "p \<in> set (members s)" for p
    using rep(2) that dom(2) [OF that] unfolding directed_def aim dom(1) by (cases "p = master s") auto
  then show ?thesis using run settled by metis
qed

text \<open>Three members; the second one becomes master before anybody was prepared.\<close>

definition example_calls :: "vm_call list" where
  "example_calls = [Call_Add 7, Call_Add 3, Call_Add 5, Call_SetPrepared 7, Call_SetMaster 3]"

theorem conference_settles_witness:
  "let s = fst (the (vm_run sorted_list_of_set example_calls VideoMap_new)) in
   \<exists>s' t'. vm_run sorted_list_of_set (map Call_SetPrepared [3]) s = Some (s', t') \<and>
    members s' = members s \<and> master s' = master s \<and>
    (\<forall>p\<in>set (members s). GetExpectedSrc p s' = NOID \<and> GetSrc p s' \<in> set (members s) \<and>
       (p \<noteq> master s \<longrightarrow> GetSrc p s' = master s) \<and>
       (p = master s \<longrightarrow> GetSrc p s' = p \<longrightarrow> set (members s) = {p}))"
proof -
  obtain s t where run: "vm_run sorted_list_of_set example_calls VideoMap_new = Some (s, t)"
    using vm_run_inv [OF vm_inv_new(1) enumerates_sorted, of UNIV example_calls] by auto
  have "open_requests {} (snd (the (vm_run sorted_list_of_set example_calls VideoMap_new))) \<subseteq> set [3]"
    by code_simp
  then have "open_requests {} t \<subseteq> set [3]" unfolding run by simp
  from conference_settles [OF enumerates_sorted run this] show ?thesis unfolding run Let_def option.sel fst_conv .
qed

section \<open>Events\<close>

text \<open>A listener that keeps the set of enabled members, and one that keeps those with a looker.\<close>

fun listen_enabled :: "vm_event \<Rightarrow> int set \<Rightarrow> int set" where
  "listen_enabled (Enabled i) X = insert i X"
| "listen_enabled (Disabled i) X = X - {i}"
| "listen_enabled _ X = X"

fun listen_lookers :: "vm_event \<Rightarrow> int set \<Rightarrow> int set" where
  "listen_lookers (HasLooker i) X = insert i X"
| "listen_lookers (NoLooker i) X = X - {i}"
| "listen_lookers _ X = X"

definition enabled_members :: "video_map \<Rightarrow> int set" where
  "enabled_members s = {i \<in> set (members s). GetLookerCount (store s) i > 0}"

definition seen_members :: "video_map \<Rightarrow> int set" where
  "seen_members s = {i \<in> set (members s). HasCurLooker (store s) i}"

lemma fold_enabled:
  "fold listen_enabled (map Enabled is) X = X \<union> set is"
  "fold listen_enabled (map (\<lambda>(i, c). Disabled i) ics) X = X - fst ` set ics"
  "fold listen_enabled (map HasLooker is) X = X" "fold listen_enabled (map (\<lambda>(i, b). NoLooker i) ibs) X = X"
proof -
  show "fold listen_enabled (map Enabled is) X = X \<union> set is" by (induction "is" arbitrary: X) auto
  show "fold listen_enabled (map (\<lambda>(i, c). Disabled i) ics) X = X - fst ` set ics" by (induction ics arbitrary: X) auto
  show "fold listen_enabled (map HasLooker is) X = X" by (induction "is" arbitrary: X) auto
  show "fold listen_enabled (map (\<lambda>(i, b). NoLooker i) ibs) X = X" by (induction ibs arbitrary: X) auto
qed

lemma fold_lookers:
  "fold listen_lookers (map Enabled is) X = X" "fold listen_lookers (map (\<lambda>(i, c). Disabled i) ics) X = X"
  "fold listen_lookers (map HasLooker is) X = X \<union> set is"
  "fold listen_lookers (map (\<lambda>(i, b). NoLooker i) ibs) X = X - fst ` set ibs"
proof -
  show "fold listen_lookers (map Enabled is) X = X" by (induction "is" arbitrary: X) auto
  show "fold listen_lookers (map (\<lambda>(i, c). Disabled i) ics) X = X" by (induction ics arbitrary: X) auto
  show "fold listen_lookers (map HasLooker is) X = X \<union> set is" by (induction "is" arbitrary: X) auto
  show "fold listen_lookers (map (\<lambda>(i, b). NoLooker i) ibs) X = X - fst ` set ibs" by (induction ibs arbitrary: X) auto
qed

lemma map_of_members: "map_of (map (\<lambda>i. (i, f i)) is) j = (if j \<in> set is then Some (f j) else None)"
  by (induction "is") auto

lemma Detect_enabled: "fold listen_enabled (EventDetector_Detect s s') (enabled_members s) = enabled_members s'"
  by (auto simp: EventDetector_Detect_def EnabledDetector_Detect_def DisabledDetector_Detect_def HasLookerDetector_Detect_def
      NoLookerDetector_Detect_def fold_enabled look_counts_def map_of_members enabled_members_def image_iff)

lemma Detect_lookers: "fold listen_lookers (EventDetector_Detect s s') (seen_members s) \<inter> set (members s') = seen_members s'"
  by (auto simp: EventDetector_Detect_def EnabledDetector_Detect_def DisabledDetector_Detect_def HasLookerDetector_Detect_def
      NoLookerDetector_Detect_def fold_lookers cur_lookers_def map_of_members seen_members_def image_iff)

text \<open>Every operation that changes something ends with the detection.\<close>

definition quiet :: "vm_event list \<Rightarrow> bool" where
  "quiet es \<longleftrightarrow> (\<forall>e\<in>set es. \<exists>i. e = Prepare i)"

lemma quiet_simps [simp]: "quiet []" "quiet (Prepare i # es) = quiet es"
    "quiet (es @ es') = (quiet es \<and> quiet es')" "quiet (map Prepare is)"
  by (auto simp: quiet_def)

lemma fold_quiet: "quiet es \<Longrightarrow> fold listen_enabled es X = X \<and> fold listen_lookers es X = X"
  by (induction es arbitrary: X) (auto simp: quiet_def)

lemma fold_src_changed: "fold listen_enabled (map SrcChanged ps) X = X \<and> fold listen_lookers (map SrcChanged ps) X = X"
  by (induction ps) auto

definition detects :: "video_map \<Rightarrow> video_map \<Rightarrow> vm_event list \<Rightarrow> bool" where
  "detects s s' es \<longleftrightarrow> (\<exists>pre. quiet pre \<and> es = pre @ EventDetector_Detect s s')"

lemma detectsI [simp, intro]: "quiet pre \<Longrightarrow> detects s s' (pre @ EventDetector_Detect s s')"
    "detects s s' (EventDetector_Detect s s')" "detects s s' es \<Longrightarrow> detects s s' (Prepare i # es)"
  unfolding detects_def by (auto intro: exI [of _ "[]"] exI [of _ "Prepare i # _"])

lemma vm_step_detects:
  assumes "vm_step enum c s = Some (s', es)" "\<And>i. c \<noteq> Call_SetPrepared i"
  shows "s' = s \<and> es = [] \<or> detects s s' es"
proof (cases c)
  case (Call_Add i)
  then show ?thesis using assms(1) by (auto simp: vm_Add_def Let_def split: if_splits bind_splits)
next
  case (Call_Remove i)
  then show ?thesis using assms(1) by (auto simp: vm_Remove_def Let_def split: if_splits bind_splits)
next
  case (Call_SetMaster i)
  then show ?thesis using assms(1) by (auto simp: vm_SetMaster_def Let_def split: if_splits bind_splits)
qed (use assms(2) in simp)

lemma prepared_loop_events:
  "prepared_loop i ps st = Some (st', es) \<Longrightarrow> \<exists>qs. es = map SrcChanged qs"
proof (induction ps arbitrary: st st' es)
  case (Cons p ps)
  obtain n where n: "st p = Some n" using Cons.prems by (auto split: bind_splits)
  show ?case
  proof (cases "n_expected_src n = Some i")
    case True
    then obtain st1 es1 where 1: "prepared_loop i ps st1 = Some (st', es1)"
        "es = (if n_src n \<noteq> Some i then [SrcChanged p] else []) @ es1"
      using Cons.prems n by (auto split: bind_splits)
    then obtain qs where "es1 = map SrcChanged qs" using Cons.IH by blast
    then have "es = map SrcChanged ((if n_src n \<noteq> Some i then [p] else []) @ qs)" using 1(2) by simp
    then show ?thesis ..
  next
    case False
    then show ?thesis using Cons n by auto
  qed
qed simp

lemma SetPrepared_detects:
  assumes "vm_SetPrepared i s = Some (s', es)"
  shows "s' = s \<and> es = [] \<or> (\<exists>ps. es = map SrcChanged ps @ EventDetector_Detect s s')"
  using assms prepared_loop_events by (fastforce simp: vm_SetPrepared_def Let_def split: if_splits bind_splits)

lemma vm_step_listen:
  assumes "vm_step enum c s = Some (s', es)"
  shows "fold listen_enabled es (enabled_members s) = enabled_members s'"
    "fold listen_lookers es (seen_members s) \<inter> set (members s') = seen_members s'"
proof -
  have "seen_members s \<inter> set (members s) = seen_members s" by (auto simp: seen_members_def)
  then have same: "fold listen_enabled [] (enabled_members s) = enabled_members s \<and>
      fold listen_lookers [] (seen_members s) \<inter> set (members s) = seen_members s" by simp
  have "fold listen_enabled es (enabled_members s) = enabled_members s' \<and>
      fold listen_lookers es (seen_members s) \<inter> set (members s') = seen_members s'"
  proof (cases "\<exists>i. c = Call_SetPrepared i")
    case True
    then have "s' = s \<and> es = [] \<or> (\<exists>ps. es = map SrcChanged ps @ EventDetector_Detect s s')"
      using assms by (elim exE) (simp add: SetPrepared_detects)
    then show ?thesis
    proof (elim disjE exE)
      fix ps assume "es = map SrcChanged ps @ EventDetector_Detect s s'"
      then show ?thesis by (simp only: fold_append comp_apply fold_src_changed Detect_enabled Detect_lookers simp_thms)
    qed (use same in blast)
  next
    case False
    then have "s' = s \<and> es = [] \<or> detects s s' es" using vm_step_detects [OF assms] by blast
    then show ?thesis
    proof
      assume "detects s s' es"
      then obtain pre where "quiet pre" "es = pre @ EventDetector_Detect s s'" by (auto simp: detects_def)
      then show ?thesis by (simp only: fold_append comp_apply fold_quiet Detect_enabled Detect_lookers simp_thms)
    qed (use same in blast)
  qed
  then show "fold listen_enabled es (enabled_members s) = enabled_members s'"
    "fold listen_lookers es (seen_members s) \<inter> set (members s') = seen_members s'" by simp_all
qed

lemma vm_run_listen:
  "vm_run enum cs s = Some (s', t) \<Longrightarrow> fold listen_enabled (concat (map snd t)) (enabled_members s) = enabled_members s'"
  by (induction cs arbitrary: s t) (auto simp: vm_step_listen(1) split: bind_splits)



end
