(* ===== verification/Video_Forward.thy ===== *)
theory Video_Forward
  imports Janus_Rtcp Media_Definitions Video_Frame_Queue Video_Map
begin

text \<open>
  \<open>src/orbit/modules/video_forward_element_new.cc\<close>: the element that forwards the video of a
  conference.  It owns a \<open>VideoMap\<close>, one \<open>VideoFrameQueue\<close> and one switch context per
  stream, and joins them by callbacks: the map tells the queues whether they are needed and
  watched and asks for key frames; a queue that starts with a key frame tells the map that its
  stream is prepared; when the map changes somebody's source, the numbers of the packets are
  continued.

  Every method holds the mutex of the element, and so does each round of the forwarding thread:
  a run is a sequence of them, from the constructed element on.  A callback is the last action of the queue's method that makes
  it, so the queue is stored before it is handled.  The map calls its listeners while it works; they
  change queues, contexts and the numbers of key frame requests, none of which the map reads,
  and read from the map only the source of the member that has just changed (\<open>GetSrc\<close>), so they
  are run after the operation of the map, in their order.  \<open>queue_map_[id]\<close> on a missing id
  yields a null pointer, which is followed at once: \<open>None\<close>.
\<close>

section \<open>Requests for key frames\<close>

datatype fw_out = OnRelayRtcpPacket int dataPacket | OnRelayRtpPacket int "(u32 \<times> u16 \<times> u8 \<times> buffer)"

text \<open>\<open>stack\<close> is the content of the uninitialised array of the local packet.\<close>

definition SendFir :: "buffer \<Rightarrow> bool \<Rightarrow> int \<Rightarrow> (int, int) std_map \<Rightarrow> ((int, int) std_map \<times> fw_out list) option" where
  "SendFir stack listener i firseq = do {
     let fir_tmp = (case sm_find (<) i firseq of None \<Rightarrow> 0 | Some n \<Rightarrow> n);
     (len, buf, fir_tmp) \<leftarrow> janus_rtcp_fir (Some (replicate 20 0)) 20 (Some fir_tmp);
     buf \<leftarrow> buf;
     fir_tmp \<leftarrow> fir_tmp;
     let firseq = sm_set (<) i fir_tmp firseq;
     bytes \<leftarrow> memcpy stack buf len;
     let p = dataPacket_new\<lparr>comp := 0, pkt_type := VIDEO_PACKET, pkt_length := len, data := bytes\<rparr>;
     let out = (if listener then [OnRelayRtcpPacket i p] else []);
     (len, buf) \<leftarrow> janus_rtcp_pli (Some (replicate 12 0 @ drop 12 buf)) 12;
     buf \<leftarrow> buf;
     bytes \<leftarrow> memcpy bytes buf len;
     let p = p\<lparr>pkt_length := len, data := bytes\<rparr>;
     Some (firseq, out @ (if listener then [OnRelayRtcpPacket i p] else [])) }"

section \<open>The element\<close>

record switch_context =
  sc_seq :: u16
  sc_ts :: u32
  sc_stream_id :: int
  sc_last_ts :: u32
  sc_base_ts :: u32
  sc_last_seq :: u16
  sc_base_seq :: u16
  sc_changing :: bool
  sc_new_stream_id :: int

definition VideoSwitchContext_new :: switch_context where
  "VideoSwitchContext_new = \<lparr>sc_seq = 0, sc_ts = 0, sc_stream_id = -1, sc_last_ts = 0, sc_base_ts = -1,
     sc_last_seq = 0, sc_base_seq = -1, sc_changing = False, sc_new_stream_id = -1\<rparr>"

record forward =
  fw_listener :: bool
  fw_map :: video_map
  fw_queues :: "(int, video_frame_queue) std_map"
  fw_contexts :: "(int, switch_context) std_map"
  fw_firseq :: "(int, int) std_map"

definition VideoForwardElementNew_new :: "bool \<Rightarrow> forward" where
  "VideoForwardElementNew_new listener =
     \<lparr>fw_listener = listener, fw_map = VideoMap_new, fw_queues = [], fw_contexts = [], fw_firseq = []\<rparr>"

definition fw_Contains :: "int \<Rightarrow> forward \<Rightarrow> bool" where
  "fw_Contains i s \<longleftrightarrow> sm_find (<) i (fw_queues s) \<noteq> None"

definition upd_queue :: "int \<Rightarrow> (video_frame_queue \<Rightarrow> video_frame_queue) \<Rightarrow> forward \<Rightarrow> forward option" where
  "upd_queue i f s = do {
     q \<leftarrow> sm_find (<) i (fw_queues s);
     Some (s\<lparr>fw_queues := sm_set (<) i (f q) (fw_queues s)\<rparr>) }"

definition fw_SendFir :: "buffer \<Rightarrow> int \<Rightarrow> forward \<Rightarrow> (forward \<times> fw_out list) option" where
  "fw_SendFir stack i s = do {
     (firseq, out) \<leftarrow> SendFir stack (fw_listener s) i (fw_firseq s);
     Some (s\<lparr>fw_firseq := firseq\<rparr>, out) }"

text \<open>The listener of a changed source: the next packet continues the numbers of the last one.\<close>

definition switch_source :: "VideoFrame \<Rightarrow> switch_context \<Rightarrow> switch_context" where
  "switch_source frame sc =
     sc\<lparr>sc_base_ts := vf_ts frame, sc_base_seq := vf_seq frame, sc_last_ts := sc_ts sc + 2880, sc_last_seq := sc_seq sc + 1\<rparr>"

definition on_src_changed :: "int \<Rightarrow> forward \<Rightarrow> forward option" where
  "on_src_changed i s = do {
     q \<leftarrow> sm_find (<) (GetSrc i (fw_map s)) (fw_queues s);
     frame \<leftarrow> vq_TopPacket q;
     sc \<leftarrow> sm_find (<) i (fw_contexts s);
     Some (s\<lparr>fw_contexts := sm_set (<) i (switch_source frame sc) (fw_contexts s)\<rparr>) }"

fun on_vm_event :: "buffer \<Rightarrow> vm_event \<Rightarrow> forward \<Rightarrow> (forward \<times> fw_out list) option" where
  "on_vm_event stack (Prepare i) s = fw_SendFir stack i s"
| "on_vm_event stack (Enabled i) s = map_option (\<lambda>s. (s, [])) (upd_queue i vq_Enable s)"
| "on_vm_event stack (Disabled i) s = map_option (\<lambda>s. (s, [])) (upd_queue i vq_Disable s)"
| "on_vm_event stack (HasLooker i) s = map_option (\<lambda>s. (s, [])) (upd_queue i (vq_SetHasLooker True) s)"
| "on_vm_event stack (NoLooker i) s = map_option (\<lambda>s. (s, [])) (upd_queue i (vq_SetHasLooker False) s)"
| "on_vm_event stack (SrcChanged i) s = map_option (\<lambda>s. (s, [])) (on_src_changed i s)"

fun on_vm_events :: "buffer \<Rightarrow> vm_event list \<Rightarrow> forward \<Rightarrow> (forward \<times> fw_out list) option" where
  "on_vm_events stack [] s = Some (s, [])"
| "on_vm_events stack (e # es) s = do {
     (s, out) \<leftarrow> on_vm_event stack e s;
     (s, out') \<leftarrow> on_vm_events stack es s;
     Some (s, out @ out') }"

definition fw_call :: "(int set \<Rightarrow> int list) \<Rightarrow> buffer \<Rightarrow> vm_call \<Rightarrow> forward \<Rightarrow> (forward \<times> fw_out list) option" where
  "fw_call enum stack c s = do {
     (m, es) \<leftarrow> vm_step enum c (fw_map s);
     on_vm_events stack es (s\<lparr>fw_map := m\<rparr>) }"

text \<open>The callback of a queue; the exception leaves the element.\<close>

fun on_vq_events :: "(int set \<Rightarrow> int list) \<Rightarrow> buffer \<Rightarrow> vq_event list \<Rightarrow> forward \<Rightarrow> (forward \<times> fw_out list) option" where
  "on_vq_events enum stack [] s = Some (s, [])"
| "on_vq_events enum stack (Prepared i # es) s = do {
     (s, out) \<leftarrow> fw_call enum stack (Call_SetPrepared i) s;
     (s, out') \<leftarrow> on_vq_events enum stack es s;
     Some (s, out @ out') }"
| "on_vq_events enum stack (Bad_function_call # es) s = None"

text \<open>\<open>packet.length\<close> is converted from \<open>int\<close> to \<open>size_t\<close>.\<close>

definition fw_OnIncomingPacket ::
    "(int set \<Rightarrow> int list) \<Rightarrow> buffer \<Rightarrow> (u8 \<Rightarrow> buffer \<Rightarrow> u64 \<Rightarrow> bool option) \<Rightarrow> int \<Rightarrow> dataPacket \<Rightarrow> forward
     \<Rightarrow> (forward \<times> fw_out list) option" where
  "fw_OnIncomingPacket enum stack depacketize i packet s =
     (case sm_find (<) i (fw_queues s) of
        None \<Rightarrow> Some (s, [])
      | Some q \<Rightarrow> do {
          (q, es) \<leftarrow> vq_PushPacket stack depacketize (Some (data packet)) (nat (pkt_length packet mod 2 ^ 64)) q;
          on_vq_events enum stack es (s\<lparr>fw_queues := sm_set (<) i q (fw_queues s)\<rparr>) })"

definition LinkVideoStream :: "(int set \<Rightarrow> int list) \<Rightarrow> buffer \<Rightarrow> int \<Rightarrow> forward \<Rightarrow> (forward \<times> fw_out list) option" where
  "LinkVideoStream enum stack i s =
     (if fw_Contains i s then Some (s, [])
      else fw_call enum stack (Call_Add i)
        (s\<lparr>fw_queues := sm_set (<) i (VideoFrameQueue_new i True) (fw_queues s),
           fw_contexts := sm_set (<) i VideoSwitchContext_new (fw_contexts s)\<rparr>))"

definition UnlinkVideoStream :: "(int set \<Rightarrow> int list) \<Rightarrow> buffer \<Rightarrow> int \<Rightarrow> forward \<Rightarrow> (forward \<times> fw_out list) option" where
  "UnlinkVideoStream enum stack i s = do {
     (s, out) \<leftarrow> fw_call enum stack (Call_Remove i) s;
     Some (s\<lparr>fw_queues := sm_erase (<) i (fw_queues s), fw_contexts := sm_erase (<) i (fw_contexts s)\<rparr>, out) }"

definition ChangeToSpeaker :: "(int set \<Rightarrow> int list) \<Rightarrow> buffer \<Rightarrow> int \<Rightarrow> forward \<Rightarrow> (forward \<times> fw_out list) option" where
  "ChangeToSpeaker enum stack i s = fw_call enum stack (Call_SetMaster i) s"

definition RequestSpeakerKeyFrame :: "buffer \<Rightarrow> forward \<Rightarrow> (forward \<times> fw_out list) option" where
  "RequestSpeakerKeyFrame stack s =
     (let master = GetMaster (fw_map s) in if master \<noteq> NOID then fw_SendFir stack master s else Some (s, []))"

section \<open>Forwarding\<close>

text \<open>The payload behind the header; a packet shorter than that would have 2^64 bytes.\<close>

definition frame_payload :: "VideoFrame \<Rightarrow> buffer option" where
  "frame_payload frame =
     (if vf_len frame < 12 \<or> length (vf_data frame) < vf_len frame then None
      else Some (take (vf_len frame - 12) (drop 12 (vf_data frame))))"

definition renumber :: "VideoFrame \<Rightarrow> switch_context \<Rightarrow> switch_context" where
  "renumber frame sc =
     sc\<lparr>sc_seq := vf_seq frame - sc_base_seq sc + sc_last_seq sc, sc_ts := vf_ts frame - sc_base_ts sc + sc_last_ts sc\<rparr>"

text \<open>What one viewer is sent; the first packet of a round goes to stream 0, the live stream, too.\<close>

fun forward_each :: "int list \<Rightarrow> bool \<Rightarrow> forward \<Rightarrow> (forward \<times> fw_out list) option" where
  "forward_each [] first s = Some (s, [])"
| "forward_each (i # is) first s =
     (let src = GetSrc i (fw_map s) in
      if src = NOID then forward_each is first s
      else do {
        q \<leftarrow> sm_find (<) src (fw_queues s);
        case vq_TopPacket q of
          None \<Rightarrow> forward_each is first s
        | Some frame \<Rightarrow> do {
            sc \<leftarrow> sm_find (<) i (fw_contexts s);
            let sc = renumber frame sc;
            payload \<leftarrow> frame_payload frame;
            if \<not> fw_listener s then None else do {
            let packet = (sc_ts sc, sc_seq sc, vf_marker frame, payload);
            (s, out) \<leftarrow> forward_each is False (s\<lparr>fw_contexts := sm_set (<) i sc (fw_contexts s)\<rparr>);
            Some (s, OnRelayRtpPacket i packet # (if first then [OnRelayRtpPacket 0 packet] else []) @ out) } } })"

fun pop_each :: "(int set \<Rightarrow> int list) \<Rightarrow> buffer \<Rightarrow> int list \<Rightarrow> forward \<Rightarrow> (forward \<times> fw_out list) option" where
  "pop_each enum stack [] s = Some (s, [])"
| "pop_each enum stack (i # is) s = do {
     q \<leftarrow> sm_find (<) i (fw_queues s);
     let (_, q, es) = vq_PopPacket q;
     (s, out) \<leftarrow> on_vq_events enum stack es (s\<lparr>fw_queues := sm_set (<) i q (fw_queues s)\<rparr>);
     (s, out') \<leftarrow> pop_each enum stack is s;
     Some (s, out @ out') }"

definition ForwardData :: "(int set \<Rightarrow> int list) \<Rightarrow> buffer \<Rightarrow> forward \<Rightarrow> (forward \<times> fw_out list) option" where
  "ForwardData enum stack s = do {
     (s, out) \<leftarrow> forward_each (GetAllId (fw_map s)) True s;
     (s, out') \<leftarrow> pop_each enum stack (map fst (fw_queues s)) s;
     Some (s, out @ out') }"

section \<open>The parts fit together\<close>

text \<open>What holds of every queue, and of the element apart from the map.\<close>

definition frame_ok :: "u16 \<Rightarrow> VideoFrame \<Rightarrow> bool" where
  "frame_ok k f \<longleftrightarrow> vf_seq f = k \<and> 12 \<le> vf_len f \<and> vf_len f \<le> length (vf_data f)"

definition queue_ok :: "int \<Rightarrow> video_frame_queue \<Rightarrow> bool" where
  "queue_ok i q \<longleftrightarrow> vq_id q = i \<and> vq_listener q \<and> sm_sorted (<) (vq_frames q) \<and> (\<forall>(k, f)\<in>set (vq_frames q). frame_ok k f)"

definition fw_ok :: "forward \<Rightarrow> bool" where
  "fw_ok s \<longleftrightarrow> fw_listener s \<and> sm_sorted (<) (fw_queues s) \<and> sm_sorted (<) (fw_contexts s) \<and> sm_sorted (<) (fw_firseq s) \<and>
     (\<forall>i q. sm_find (<) i (fw_queues s) = Some q \<longrightarrow> queue_ok i q) \<and>
     (\<forall>i. sm_find (<) i (fw_contexts s) = None \<longleftrightarrow> sm_find (<) i (fw_queues s) = None) \<and>
     (\<forall>i n. sm_find (<) i (fw_firseq s) = Some n \<longrightarrow> 0 \<le> n \<and> n < 256)"

definition streams :: "forward \<Rightarrow> int set" where
  "streams s = {i. sm_find (<) i (fw_queues s) \<noteq> None}"

lemma streams_upd [simp]: "streams (s\<lparr>fw_map := m\<rparr>) = streams s" "streams (s\<lparr>fw_firseq := r\<rparr>) = streams s"
    "streams (s\<lparr>fw_contexts := c\<rparr>) = streams s"
  by (simp_all add: streams_def)

lemma streamsE: "i \<in> streams s \<Longrightarrow> (\<And>q. sm_find (<) i (fw_queues s) = Some q \<Longrightarrow> thesis) \<Longrightarrow> thesis"
  by (auto simp: streams_def)

lemma streams_cong: "(\<And>j. sm_find (<) j (fw_queues s') = None \<longleftrightarrow> sm_find (<) j (fw_queues s) = None) \<Longrightarrow> streams s' = streams s"
  by (auto simp: streams_def)

text \<open>The queues that are enabled and those that are watched.\<close>

definition flags :: "forward \<Rightarrow> int set \<Rightarrow> int set \<Rightarrow> bool" where
  "flags s X Y \<longleftrightarrow> (\<forall>i q. sm_find (<) i (fw_queues s) = Some q \<longrightarrow> (vq_enabled q \<longleftrightarrow> i \<in> X) \<and> (vq_has_looker q \<longleftrightarrow> i \<in> Y))"

lemma SendFir_ok:
  assumes "length stack = 1500" "\<forall>i n. sm_find (<) i firseq = Some n \<longrightarrow> 0 \<le> n \<and> n < 256" "sm_sorted (<) firseq"
  shows "\<exists>firseq' out. SendFir stack listener i firseq = Some (firseq', out) \<and> sm_sorted (<) firseq' \<and>
    (\<forall>i n. sm_find (<) i firseq' = Some n \<longrightarrow> 0 \<le> n \<and> n < 256)"
proof -
  define n where "n = (case sm_find (<) i firseq of None \<Rightarrow> 0 | Some n \<Rightarrow> n)"
  have n: "0 \<le> n" "n < 256" using assms(2) by (auto simp: n_def split: option.splits)
  define n' where "n' = (if 256 \<le> n + 1 then 0 else n + 1)"
  have n': "0 \<le> n'" "n' < 256" using n by (auto simp: n'_def)
  have next_n: "next_seqnr n = Some n'" using n by (simp add: next_seqnr_def n'_def)
  have "\<exists>b. janus_rtcp_fir (Some (replicate 20 0)) 20 (Some n) = Some (20, Some b, Some n') \<and> length b = 20"
    unfolding janus_rtcp_fir_def put_fir_def put_header_def
    by (simp add: next_n buf_simps upd8_def wr_defined)
  then obtain b where b: "janus_rtcp_fir (Some (replicate 20 0)) 20 (Some n) = Some (20, Some b, Some n')" "length b = 20"
    by blast
  have "\<exists>b'. janus_rtcp_pli (Some (replicate 12 0 @ drop 12 b)) 12 = Some (12, Some b') \<and> length b' = 20"
    unfolding janus_rtcp_pli_def put_short_def put_header_def
    using b(2) by (simp add: buf_simps upd8_def wr_defined)
  then obtain b' where b': "janus_rtcp_pli (Some (replicate 12 0 @ drop 12 b)) 12 = Some (12, Some b')" "length b' = 20"
    by blast
  show ?thesis
    unfolding SendFir_def Let_def n_def [symmetric]
    using b b' assms n' intk.sorted_set [OF assms(3)] intk.find_set [OF assms(3)]
    by (simp add: memcpy_def)
qed

lemma fw_SendFir_ok:
  assumes "fw_ok s" "length stack = 1500"
  shows "\<exists>r out. fw_SendFir stack i s = Some (s\<lparr>fw_firseq := r\<rparr>, out) \<and> fw_ok (s\<lparr>fw_firseq := r\<rparr>)"
  using SendFir_ok [OF assms(2), of "fw_firseq s" "fw_listener s" i] assms(1)
  by (auto simp: fw_SendFir_def fw_ok_def)

lemma upd_queue_ok:
  assumes "fw_ok s" "sm_find (<) i (fw_queues s) = Some q" "queue_ok i (f q)"
  shows "\<exists>s'. upd_queue i f s = Some s' \<and> fw_ok s' \<and> fw_map s' = fw_map s \<and> fw_contexts s' = fw_contexts s \<and>
    (\<forall>j. sm_find (<) j (fw_queues s') = (if j = i then Some (f q) else sm_find (<) j (fw_queues s)))"
proof -
  have srt: "sm_sorted (<) (fw_queues s)" using assms(1) by (simp add: fw_ok_def)
  show ?thesis
    using assms intk.find_set [OF srt] intk.sorted_set [OF srt] by (auto simp: upd_queue_def fw_ok_def)
qed

lemma queue_ok_simps [simp]:
  "queue_ok i (vq_Enable q) = queue_ok i q"
  "queue_ok i (vq_SetHasLooker b q) = queue_ok i q"
  "queue_ok i q \<Longrightarrow> queue_ok i (vq_Disable q)"
  "queue_ok i (VideoFrameQueue_new i True)"
  by (auto simp: queue_ok_def vq_Enable_def vq_SetHasLooker_def vq_Disable_def VideoFrameQueue_new_def sm_sorted_def)

lemma flag_simps [simp]:
  "vq_enabled (vq_Enable q)" "vq_has_looker (vq_Enable q) = vq_has_looker q"
  "\<not> vq_enabled (vq_Disable q)" "vq_has_looker (vq_Disable q) = vq_has_looker q"
  "vq_enabled (vq_SetHasLooker b q) = vq_enabled q" "vq_has_looker (vq_SetHasLooker b q) = b"
  by (auto simp: vq_Enable_def vq_SetHasLooker_def vq_Disable_def)

fun event_target :: "vm_event \<Rightarrow> int option" where
  "event_target (Enabled i) = Some i"
| "event_target (Disabled i) = Some i"
| "event_target (HasLooker i) = Some i"
| "event_target (NoLooker i) = Some i"
| "event_target _ = None"

definition same_streams :: "forward \<Rightarrow> forward \<Rightarrow> bool" where
  "same_streams s s' \<longleftrightarrow> fw_map s' = fw_map s \<and> fw_contexts s' = fw_contexts s \<and> streams s' = streams s"

lemma detect_event_ok:
  assumes "fw_ok s" "length stack = 1500" "flags s X Y" "\<And>i. e \<noteq> SrcChanged i"
    and "\<And>i. event_target e = Some i \<Longrightarrow> i \<in> streams s"
  shows "\<exists>s' out. on_vm_event stack e s = Some (s', out) \<and> fw_ok s' \<and> same_streams s s' \<and>
    flags s' (listen_enabled e X) (listen_lookers e Y)"
proof -
  have upd: "\<exists>s'. upd_queue i f s = Some s' \<and> fw_ok s' \<and> same_streams s s' \<and> flags s' X' Y'"
    if "i \<in> streams s" "\<And>q. queue_ok i q \<Longrightarrow> queue_ok i (f q)"
      "\<And>q. (vq_enabled q \<longleftrightarrow> i \<in> X) \<Longrightarrow> (vq_enabled (f q) \<longleftrightarrow> i \<in> X')"
      "\<And>q. (vq_has_looker q \<longleftrightarrow> i \<in> Y) \<Longrightarrow> (vq_has_looker (f q) \<longleftrightarrow> i \<in> Y')"
      "\<And>j. j \<noteq> i \<Longrightarrow> (j \<in> X' \<longleftrightarrow> j \<in> X) \<and> (j \<in> Y' \<longleftrightarrow> j \<in> Y)" for i f X' Y'
  proof -
    obtain q where q: "sm_find (<) i (fw_queues s) = Some q" using \<open>i \<in> streams s\<close> by (rule streamsE)
    then have "queue_ok i (f q)" using assms(1) that(2) by (simp add: fw_ok_def)
    from upd_queue_ok [of s i q f, OF assms(1) q this] obtain s' where
      s': "upd_queue i f s = Some s'" "fw_ok s'" "fw_map s' = fw_map s" "fw_contexts s' = fw_contexts s"
        "\<forall>j. sm_find (<) j (fw_queues s') = (if j = i then Some (f q) else sm_find (<) j (fw_queues s))" by blast
    have "streams s' = streams s" by (rule streams_cong) (simp add: s'(5) q)
    then have "same_streams s s'" using s'(3,4) by (simp add: same_streams_def)
    moreover have "flags s' X' Y'" using s'(5) assms(3) q that(3-5) by (auto simp: flags_def)
    ultimately show ?thesis using s'(1,2) by blast
  qed
  show ?thesis
  proof (cases e)
    case (Prepare i)
    then show ?thesis using fw_SendFir_ok [OF assms(1,2), of i] assms(3) by (auto simp: flags_def same_streams_def)
  next
    case (Enabled i)
    then show ?thesis using upd [of i vq_Enable "insert i X" Y] assms(5) by auto
  next
    case (Disabled i)
    then show ?thesis using upd [of i vq_Disable "X - {i}" Y] assms(5) by auto
  next
    case (HasLooker i)
    then show ?thesis using upd [of i "vq_SetHasLooker True" X "insert i Y"] assms(5) by auto
  next
    case (NoLooker i)
    then show ?thesis using upd [of i "vq_SetHasLooker False" X "Y - {i}"] assms(5) by auto
  qed (use assms(4) in blast)
qed

lemma detect_events_ok:
  assumes "fw_ok s" "length stack = 1500" "flags s X Y" "\<And>i. SrcChanged i \<notin> set es"
    and "\<And>e i. e \<in> set es \<Longrightarrow> event_target e = Some i \<Longrightarrow> i \<in> streams s"
  shows "\<exists>s' out. on_vm_events stack es s = Some (s', out) \<and> fw_ok s' \<and> same_streams s s' \<and>
    flags s' (fold listen_enabled es X) (fold listen_lookers es Y)"
  using assms
proof (induction es arbitrary: s X Y)
  case (Cons e es)
  obtain s1 o1 where 1: "on_vm_event stack e s = Some (s1, o1)" "fw_ok s1" "same_streams s s1"
      "flags s1 (listen_enabled e X) (listen_lookers e Y)"
    using detect_event_ok [OF Cons.prems(1-3), of e] Cons.prems(4,5) by fastforce
  have "\<And>i. SrcChanged i \<notin> set es" using Cons.prems(4) by simp
  moreover have "i \<in> streams s1" if "e' \<in> set es" "event_target e' = Some i" for e' i
    using Cons.prems(5) [of e' i] that 1(3) by (simp add: same_streams_def)
  ultimately obtain s2 o2 where "on_vm_events stack es s1 = Some (s2, o2)" "fw_ok s2" "same_streams s1 s2"
      "flags s2 (fold listen_enabled es (listen_enabled e X)) (fold listen_lookers es (listen_lookers e Y))"
    using Cons.IH [OF 1(2) Cons.prems(2) 1(4)] by blast
  then show ?case using 1 by (auto simp: same_streams_def)
qed (auto simp: same_streams_def)

lemma Detect_targets:
  assumes "e \<in> set (EventDetector_Detect m m')"
  shows "\<exists>i\<in>set (members m) \<union> set (members m'). event_target e = Some i" "e \<noteq> SrcChanged i"
  using assms
  by (auto simp: EventDetector_Detect_def EnabledDetector_Detect_def DisabledDetector_Detect_def HasLookerDetector_Detect_def
      NoLookerDetector_Detect_def look_counts_def cur_lookers_def)

text \<open>The element between two calls.\<close>

definition fw_inv :: "forward \<Rightarrow> bool" where
  "fw_inv s \<longleftrightarrow> fw_ok s \<and> (\<exists>D. vm_inv (fw_map s) D) \<and> streams s = set (members (fw_map s)) \<and>
     flags s (enabled_members (fw_map s)) (seen_members (fw_map s))"

lemma flags_on: "flags s X Y \<Longrightarrow> X \<inter> streams s = X' \<inter> streams s \<Longrightarrow> Y \<inter> streams s = Y' \<inter> streams s \<Longrightarrow> flags s X' Y'"
  unfolding flags_def streams_def by blast

text \<open>A call of the map that does not change a source.\<close>

lemma fw_call_ok:
  assumes "fw_ok s" "vm_inv (fw_map s) D" "enumerates enum" "length stack = 1500" "\<And>i. c \<noteq> Call_SetPrepared i"
    and "flags s (enabled_members (fw_map s)) (seen_members (fw_map s))"
    and "vm_step enum c (fw_map s) = Some (m', es)" "set (members (fw_map s)) \<union> set (members m') \<subseteq> streams s"
  shows "\<exists>s' out. fw_call enum stack c s = Some (s', out) \<and> fw_ok s' \<and> fw_map s' = m' \<and> fw_contexts s' = fw_contexts s \<and>
    streams s' = streams s \<and> flags s' (enabled_members m') (fold listen_lookers es (seen_members (fw_map s)))"
proof -
  let ?s = "s\<lparr>fw_map := m'\<rparr>"
  have "m' = fw_map s \<and> es = [] \<or> detects (fw_map s) m' es" using vm_step_detects [OF assms(7,5)] by blast
  then have ev: "(\<exists>i. e = Prepare i) \<or> e \<in> set (EventDetector_Detect (fw_map s) m')" if "e \<in> set es" for e
    using that by (auto simp: detects_def quiet_def)
  have src: "SrcChanged i \<notin> set es" for i using ev [of "SrcChanged i"] Detect_targets(2) by blast
  have tgt: "i \<in> streams ?s" if "e \<in> set es" "event_target e = Some i" for e i
    using ev [OF that(1)] Detect_targets(1) [of e "fw_map s" m'] that(2) assms(8) by auto
  have ok: "fw_ok ?s" "flags ?s (enabled_members (fw_map s)) (seen_members (fw_map s))"
    using assms(1,6) by (simp_all add: fw_ok_def flags_def)
  show ?thesis
    using detect_events_ok [OF ok(1) assms(4) ok(2) src tgt] assms(7) vm_step_listen(1) [OF assms(7)]
    by (auto simp: fw_call_def same_streams_def)
qed

text \<open>The members after a call.\<close>

lemma redirect_members: "redirect ls s = Some (s', prep) \<Longrightarrow> members s' = members s"
  by (induction ls arbitrary: s prep) (auto split: bind_splits)

lemma step_members:
  "vm_step enum (Call_Add i) m = Some (m', es) \<Longrightarrow> set (members m') = insert i (set (members m))"
  "vm_step enum (Call_Remove i) m = Some (m', es) \<Longrightarrow> distinct (members m) \<Longrightarrow> set (members m') = set (members m) - {i}"
  "vm_step enum (Call_SetMaster i) m = Some (m', es) \<Longrightarrow> members m' = members m"
  "vm_step enum (Call_SetPrepared i) m = Some (m', es) \<Longrightarrow> members m' = members m"
proof -
  show "vm_step enum (Call_Add i) m = Some (m', es) \<Longrightarrow> set (members m') = insert i (set (members m))"
    by (auto simp: vm_Add_def Let_def set_insort_key split: if_splits bind_splits)
  have rem: "vm_step enum (Call_Remove i) m = Some (m', es) \<Longrightarrow> members m' = remove1 i (members m)"
    by (auto simp: vm_Remove_def Let_def remove1_idem dest!: redirect_members split: if_splits bind_splits)
  show "vm_step enum (Call_Remove i) m = Some (m', es) \<Longrightarrow> distinct (members m) \<Longrightarrow> set (members m') = set (members m) - {i}"
    by (drule rem) (simp add: set_remove1_eq)
  show "vm_step enum (Call_SetMaster i) m = Some (m', es) \<Longrightarrow> members m' = members m"
    by (auto simp: vm_SetMaster_def Let_def split: if_splits bind_splits)
  show "vm_step enum (Call_SetPrepared i) m = Some (m', es) \<Longrightarrow> members m' = members m"
    by (auto simp: vm_SetPrepared_def Let_def split: if_splits bind_splits)
qed

lemma fw_inv_sub: "fw_inv s \<Longrightarrow> seen_members (fw_map s) \<subseteq> streams s \<and> enabled_members (fw_map s) \<subseteq> streams s"
  by (auto simp: fw_inv_def seen_members_def enabled_members_def)

lemma LinkVideoStream_inv:
  assumes "fw_inv s" "enumerates enum" "length stack = 1500"
  shows "\<exists>s' out. LinkVideoStream enum stack i s = Some (s', out) \<and> fw_inv s'"
proof (cases "fw_Contains i s")
  case True
  then show ?thesis using assms by (simp add: LinkVideoStream_def)
next
  case False
  then have new: "sm_find (<) i (fw_queues s) = None" by (simp add: fw_Contains_def)
  let ?s = "s\<lparr>fw_queues := sm_set (<) i (VideoFrameQueue_new i True) (fw_queues s),
    fw_contexts := sm_set (<) i VideoSwitchContext_new (fw_contexts s)\<rparr>"
  obtain D where inv: "fw_ok s" "vm_inv (fw_map s) D" "streams s = set (members (fw_map s))"
      "flags s (enabled_members (fw_map s)) (seen_members (fw_map s))"
    using assms(1) by (auto simp: fw_inv_def)
  have srt: "sm_sorted (<) (fw_queues s)" "sm_sorted (<) (fw_contexts s)" using inv(1) by (simp_all add: fw_ok_def)
  have ok: "fw_ok ?s" using inv(1) srt new
    by (auto simp: fw_ok_def intk.find_set intk.sorted_set split: if_splits)
  have str: "streams ?s = insert i (streams s)" using srt(1) by (auto simp: intk.find_set streams_def)
  have i: "i \<notin> set (members (fw_map s))" unfolding inv(3) [symmetric] using new by (simp add: streams_def)
  have fl: "flags ?s (enabled_members (fw_map s)) (seen_members (fw_map s))"
    using inv(4) srt(1) i by (auto simp: flags_def intk.find_set VideoFrameQueue_new_def enabled_members_def seen_members_def)
  obtain m' es D' where m': "vm_step enum (Call_Add i) (fw_map s) = Some (m', es)" "vm_inv m' D'"
    using vm_step_inv [OF inv(2) assms(2)] by metis
  note mem = step_members(1) [OF m'(1)]
  obtain s' out where s': "fw_call enum stack (Call_Add i) ?s = Some (s', out)" "fw_ok s'" "fw_map s' = m'"
      "streams s' = streams ?s" "flags s' (enabled_members m') (fold listen_lookers es (seen_members (fw_map s)))"
    using fw_call_ok [OF ok _ assms(2,3), of D "Call_Add i" m' es] inv(2) m' fl mem unfolding str inv(3) by fastforce
  have "fw_inv s'"
    unfolding fw_inv_def s'(3)
    using s' m'(2) str inv(3) mem vm_step_listen(2) [OF m'(1)]
    by (auto intro!: flags_on [OF s'(5)])
  then show ?thesis using s'(1) False by (auto simp: LinkVideoStream_def)
qed

lemma ChangeToSpeaker_inv:
  assumes "fw_inv s" "enumerates enum" "length stack = 1500"
  shows "\<exists>s' out. ChangeToSpeaker enum stack i s = Some (s', out) \<and> fw_inv s'"
proof -
  obtain D where inv: "fw_ok s" "vm_inv (fw_map s) D" "streams s = set (members (fw_map s))"
      "flags s (enabled_members (fw_map s)) (seen_members (fw_map s))"
    using assms(1) by (auto simp: fw_inv_def)
  obtain m' es D' where m': "vm_step enum (Call_SetMaster i) (fw_map s) = Some (m', es)" "vm_inv m' D'"
    using vm_step_inv [OF inv(2) assms(2)] by metis
  note mem = step_members(3) [OF m'(1)]
  obtain s' out where s': "fw_call enum stack (Call_SetMaster i) s = Some (s', out)" "fw_ok s'" "fw_map s' = m'"
      "streams s' = streams s" "flags s' (enabled_members m') (fold listen_lookers es (seen_members (fw_map s)))"
    using fw_call_ok [OF inv(1,2) assms(2,3) _ inv(4) m'(1)] mem inv(3) by auto
  have "fw_inv s'"
    unfolding fw_inv_def s'(3)
    using s' m'(2) inv(3) mem vm_step_listen(2) [OF m'(1)] by (auto intro!: flags_on [OF s'(5)])
  then show ?thesis using s'(1) by (simp add: ChangeToSpeaker_def)
qed

lemma UnlinkVideoStream_inv:
  assumes "fw_inv s" "enumerates enum" "length stack = 1500"
  shows "\<exists>s' out. UnlinkVideoStream enum stack i s = Some (s', out) \<and> fw_inv s'"
proof -
  obtain D where inv: "fw_ok s" "vm_inv (fw_map s) D" "streams s = set (members (fw_map s))"
      "flags s (enabled_members (fw_map s)) (seen_members (fw_map s))"
    using assms(1) by (auto simp: fw_inv_def)
  obtain m' es D' where m': "vm_step enum (Call_Remove i) (fw_map s) = Some (m', es)" "vm_inv m' D'"
    using vm_step_inv [OF inv(2) assms(2)] by metis
  have "distinct (members (fw_map s))" using inv(2) by (simp add: vm_inv_def represents_def)
  note mem = step_members(2) [OF m'(1) this]
  obtain s' out where s': "fw_call enum stack (Call_Remove i) s = Some (s', out)" "fw_ok s'" "fw_map s' = m'"
      "streams s' = streams s" "flags s' (enabled_members m') (fold listen_lookers es (seen_members (fw_map s)))"
    using fw_call_ok [OF inv(1,2) assms(2,3) _ inv(4) m'(1)] mem inv(3) by auto
  let ?s = "s'\<lparr>fw_queues := sm_erase (<) i (fw_queues s'), fw_contexts := sm_erase (<) i (fw_contexts s')\<rparr>"
  have srt: "sm_sorted (<) (fw_queues s')" "sm_sorted (<) (fw_contexts s')" using s'(2) by (simp_all add: fw_ok_def)
  have "fw_ok ?s" using s'(2) srt by (auto simp: fw_ok_def intk.find_erase intk.sorted_erase split: if_splits)
  moreover have str: "streams ?s = set (members m')"
    using srt(1) s'(4) inv(3) mem by (auto simp: streams_def intk.find_erase split: if_splits)
  moreover have "flags ?s (enabled_members m') (fold listen_lookers es (seen_members (fw_map s)))"
    using s'(5) srt(1) by (auto simp: flags_def intk.find_erase split: if_splits)
  then have "flags ?s (enabled_members m') (seen_members m')"
    by (rule flags_on) (use str vm_step_listen(2) [OF m'(1)] in auto)
  ultimately have "fw_inv ?s" using m'(2) s'(3) by (auto simp: fw_inv_def)
  then show ?thesis using s'(1) by (simp add: UnlinkVideoStream_def)
qed

lemma RequestSpeakerKeyFrame_inv:
  assumes "fw_inv s" "length stack = 1500"
  shows "\<exists>s' out. RequestSpeakerKeyFrame stack s = Some (s', out) \<and> fw_inv s'"
proof (cases "GetMaster (fw_map s) = NOID")
  case False
  obtain r out where "fw_SendFir stack (GetMaster (fw_map s)) s = Some (s\<lparr>fw_firseq := r\<rparr>, out)" "fw_ok (s\<lparr>fw_firseq := r\<rparr>)"
    using fw_SendFir_ok [OF _ assms(2)] assms(1) unfolding fw_inv_def by blast
  then show ?thesis using False assms(1) by (auto simp: RequestSpeakerKeyFrame_def fw_inv_def flags_def)
qed (use assms(1) in \<open>simp add: RequestSpeakerKeyFrame_def\<close>)

section \<open>Prepared streams\<close>

lemma set_context_ok:
  assumes "fw_ok s" "i \<in> streams s"
  shows "fw_ok (s\<lparr>fw_contexts := sm_set (<) i sc (fw_contexts s)\<rparr>)"
proof -
  have "sm_sorted (<) (fw_contexts s)" using assms(1) by (simp add: fw_ok_def)
  moreover have "sm_find (<) i (fw_queues s) \<noteq> None" using assms(2) by (simp add: streams_def)
  ultimately show ?thesis using assms(1) by (auto simp: fw_ok_def intk.find_set intk.sorted_set)
qed

text \<open>Handling the changed sources of a call that prepares \<open>i\<close>.\<close>

lemma src_changed_ok:
  assumes "fw_ok s" "sm_find (<) i (fw_queues s) = Some q" "vq_TopPacket q = Some f"
    and "\<forall>p\<in>set ps. p \<in> streams s \<and> GetSrc p (fw_map s) = i" "distinct ps"
  shows "\<exists>c. on_vm_events stack (map SrcChanged ps @ es) s = on_vm_events stack es (s\<lparr>fw_contexts := c\<rparr>) \<and>
    fw_ok (s\<lparr>fw_contexts := c\<rparr>) \<and>
    (\<forall>p. sm_find (<) p c = (if p \<in> set ps then map_option (switch_source f) (sm_find (<) p (fw_contexts s)) else sm_find (<) p (fw_contexts s)))"
  using assms
proof (induction ps arbitrary: s)
  case Nil
  then show ?case by (auto intro: exI [of _ "fw_contexts s"])
next
  case (Cons p ps)
  have srt: "sm_sorted (<) (fw_contexts s)" using Cons.prems(1) by (simp add: fw_ok_def)
  obtain sc where sc: "sm_find (<) p (fw_contexts s) = Some sc"
    using Cons.prems(1,4) by (cases "sm_find (<) p (fw_contexts s)") (auto simp: fw_ok_def streams_def)
  define s1 where "s1 = s\<lparr>fw_contexts := sm_set (<) p (switch_source f sc) (fw_contexts s)\<rparr>"
  have ev: "on_src_changed p s = Some s1" using Cons.prems sc by (simp add: on_src_changed_def s1_def)
  have ok: "fw_ok s1" unfolding s1_def using Cons.prems(1,4) by (intro set_context_ok) simp_all
  from Cons.IH [of s1] Cons.prems ok obtain c where c:
    "on_vm_events stack (map SrcChanged ps @ es) s1 = on_vm_events stack es (s1\<lparr>fw_contexts := c\<rparr>)" "fw_ok (s1\<lparr>fw_contexts := c\<rparr>)"
    "\<forall>r. sm_find (<) r c = (if r \<in> set ps then map_option (switch_source f) (sm_find (<) r (fw_contexts s1)) else sm_find (<) r (fw_contexts s1))"
    by (auto simp: s1_def)
  have "on_vm_events stack es' s1 = (case on_vm_events stack es' s1 of None \<Rightarrow> None | Some (t, out) \<Rightarrow> Some (t, [] @ out))" for es'
    by (auto split: option.splits)
  then have "on_vm_events stack (map SrcChanged (p # ps) @ es) s = on_vm_events stack (map SrcChanged ps @ es) s1"
    using ev by (simp split: bind_split)
  moreover have "s1\<lparr>fw_contexts := c\<rparr> = s\<lparr>fw_contexts := c\<rparr>" by (simp add: s1_def)
  moreover have "\<forall>r. sm_find (<) r c = (if r \<in> set (p # ps) then map_option (switch_source f) (sm_find (<) r (fw_contexts s)) else sm_find (<) r (fw_contexts s))"
    using c(3) sc srt Cons.prems(5) by (auto simp: s1_def intk.find_set)
  ultimately show ?case using c(1,2) by auto
qed

text \<open>Who waits for \<open>i\<close> and sees somebody else.\<close>

definition waits_for :: "int \<Rightarrow> video_map \<Rightarrow> int \<Rightarrow> bool" where
  "waits_for i m p \<longleftrightarrow> (\<exists>n. store m p = Some n \<and> n_expected_src n = Some i \<and> n_src n \<noteq> Some i)"

lemma waits_for_view: "represents m D \<Longrightarrow> waits_for i m p \<longleftrightarrow> (\<exists>\<sigma>. D p = Some (\<sigma>, Some i) \<and> \<sigma> \<noteq> Some i)"
  by (auto simp: waits_for_def represents_def build_def split: option.splits)

lemma fw_prepared:
  assumes "fw_inv s" "enumerates enum" "length stack = 1500" "sm_find (<) i (fw_queues s) = Some q" "vq_TopPacket q = Some f"
  shows "\<exists>s' out es. fw_call enum stack (Call_SetPrepared i) s = Some (s', out) \<and> fw_inv s' \<and>
    vm_SetPrepared i (fw_map s) = Some (fw_map s', es) \<and> streams s' = streams s \<and>
    (\<forall>p. sm_find (<) p (fw_contexts s') =
       (if waits_for i (fw_map s) p then map_option (switch_source f) (sm_find (<) p (fw_contexts s)) else sm_find (<) p (fw_contexts s)))"
proof -
  obtain D where inv: "fw_ok s" "vm_inv (fw_map s) D" "streams s = set (members (fw_map s))"
      "flags s (enabled_members (fw_map s)) (seen_members (fw_map s))"
    using assms(1) by (auto simp: fw_inv_def)
  have rep: "represents (fw_map s) D" using inv(2) by (simp add: vm_inv_def)
  have "i \<in> streams s" using assms(4) by (simp add: streams_def)
  then have i: "i \<in> set (members (fw_map s))" using inv(3) by simp
  define ps where "ps = filter (\<lambda>p. \<exists>\<sigma>. D p = Some (\<sigma>, Some i) \<and> \<sigma> \<noteq> Some i) (members (fw_map s))"
  obtain m' where m': "vm_SetPrepared i (fw_map s) = Some (m', map SrcChanged ps @ EventDetector_Detect (fw_map s) m')"
      "represents m' (prepared_view i UNIV D)" "members m' = members (fw_map s)" "master m' = master (fw_map s)"
    using SetPrepared_view [OF rep i] unfolding ps_def by blast
  have vi: "vm_inv m' (prepared_view i UNIV D)"
    using m'(2,4) inv(2) directed_prepared by (simp add: vm_inv_def)
  let ?s = "s\<lparr>fw_map := m'\<rparr>" and ?es = "EventDetector_Detect (fw_map s) m'"
  have ok: "fw_ok ?s" "sm_find (<) i (fw_queues ?s) = Some q" using inv(1) assms(4) by (simp_all add: fw_ok_def)
  have ps: "set ps = {p. waits_for i (fw_map s) p}"
    using rep represents_dom [OF rep] by (auto simp: ps_def waits_for_view)
  have src: "\<forall>p\<in>set ps. p \<in> streams ?s \<and> GetSrc p (fw_map ?s) = i"
    using m'(2,3) inv(3)
    by (auto simp: ps_def GetSrc_def represents_def build_def prepared_view_def)
  have "distinct ps" using rep by (simp add: ps_def represents_def)
  from src_changed_ok [OF ok assms(5) src this, of stack ?es] obtain c where
    c: "on_vm_events stack (map SrcChanged ps @ ?es) ?s = on_vm_events stack ?es (?s\<lparr>fw_contexts := c\<rparr>)"
      "fw_ok (?s\<lparr>fw_contexts := c\<rparr>)"
      "\<forall>p. sm_find (<) p c = (if p \<in> set ps then map_option (switch_source f) (sm_find (<) p (fw_contexts s)) else sm_find (<) p (fw_contexts s))"
    by auto
  have fl: "flags (?s\<lparr>fw_contexts := c\<rparr>) (enabled_members (fw_map s)) (seen_members (fw_map s))"
    using inv(4) by (simp add: flags_def)
  have tgt: "j \<in> streams (?s\<lparr>fw_contexts := c\<rparr>)" if "e \<in> set ?es" "event_target e = Some j" for e j
    using Detect_targets(1) [OF that(1)] that(2) m'(3) inv(3) by auto
  obtain s' out where s': "on_vm_events stack ?es (?s\<lparr>fw_contexts := c\<rparr>) = Some (s', out)" "fw_ok s'"
      "same_streams (?s\<lparr>fw_contexts := c\<rparr>) s'"
      "flags s' (fold listen_enabled ?es (enabled_members (fw_map s))) (fold listen_lookers ?es (seen_members (fw_map s)))"
    using detect_events_ok [OF c(2) assms(3) fl, of ?es] tgt Detect_targets(2) by blast
  have same: "fw_map s' = m'" "fw_contexts s' = c" "streams s' = streams s" using s'(3) by (simp_all add: same_streams_def)
  have "flags s' (enabled_members m') (seen_members m')"
    by (rule flags_on [OF s'(4)]) (use Detect_enabled Detect_lookers [of "fw_map s" m'] same(3) inv(3) m'(3) in auto)
  then have "fw_inv s'" using s'(2) same inv(3) m'(3) vi by (auto simp: fw_inv_def)
  moreover have "fw_call enum stack (Call_SetPrepared i) s = Some (s', out)"
    using m'(1) c(1) s'(1) by (simp add: fw_call_def)
  ultimately show ?thesis using m'(1) same c(3) ps by auto
qed

section \<open>Pushing and popping\<close>

lemma frame_new_ok:
  assumes "12 \<le> len" "len \<le> 1500" "len \<le> length dat" "length stack = 1500"
  shows "\<exists>f. VideoFrame_new stack depacketize dat len = Some f \<and> frame_ok (vf_seq f) f \<and> vf_seq f = le16 (dat ! 3) (dat ! 2) \<and>
    IsKeyFrame depacketize dat len = Some (vf_keyframe f)"
  using assms
  by (auto simp: VideoFrame_new_def IsKeyFrame_def memcpy_def getPayloadType_def getMarker_def
      getTimestamp_def rd32_def getSeqNumber_bytes frame_ok_def)

lemma queue_ok_set:
  assumes "queue_ok i q" "frame_ok k f"
  shows "queue_ok i (q\<lparr>vq_frames := sm_set (<) k f (vq_frames q)\<rparr>)"
proof -
  have srt: "sm_sorted (<) (vq_frames q)" using assms(1) by (simp add: queue_ok_def)
  have "frame_ok j g" if "(j, g) \<in> set (sm_set (<) k f (vq_frames q))" for j g
  proof -
    have "sm_find (<) j (sm_set (<) k f (vq_frames q)) = Some g"
      using that u16m.find_elem [OF u16m.sorted_set [OF srt]] by blast
    then show ?thesis
      using u16m.find_set [OF srt, of j k f] u16m.find_elem [OF srt, of j g] assms by (auto simp: queue_ok_def split: if_splits)
  qed
  then show ?thesis using assms(1) u16m.sorted_set [OF srt] by (auto simp: queue_ok_def)
qed

text \<open>A queue that reports itself prepared has a first packet.\<close>

lemma push_ok:
  assumes "queue_ok i q" "12 \<le> len" "len \<le> 1500" "len \<le> length dat" "length stack = 1500"
  shows "\<exists>q' es. vq_PushPacket stack depacketize (Some dat) len q = Some (q', es) \<and> queue_ok i q' \<and>
    vq_enabled q' = vq_enabled q \<and> vq_has_looker q' = vq_has_looker q \<and>
    (es = [] \<or> es = [Prepared i] \<and> vq_TopPacket q' \<noteq> None)"
proof (cases "vq_enabled q")
  case True
  obtain f where f: "VideoFrame_new stack depacketize dat len = Some f" "frame_ok (vf_seq f) f"
    using frame_new_ok [OF assms(2-5)] by blast
  have lis: "vq_listener q" "vq_id q = i" using assms(1) by (simp_all add: queue_ok_def)
  have clr: "queue_ok i (q\<lparr>vq_frames := [(vf_seq f, f)]\<rparr>)" using assms(1) f(2) by (simp add: queue_ok_def sm_sorted_def)
  show ?thesis
    using True assms(2) f(1) lis queue_ok_set [OF assms(1) f(2)] clr assms(1)
    by (auto simp: vq_PushPacket_def PushPacketWhenHasLooker_def PushPacketWhenNoLooker_def Let_def CheckPrepared_def
        FirePreparedEvent_def vq_TopPacket_def FirstIsKeyFrame_def split: list.splits)
next
  case False
  then show ?thesis using assms(1) by (auto simp: vq_PushPacket_def)
qed

lemma pop_ok:
  assumes "queue_ok i q" "vq_PopPacket q = (r, q', es)"
  shows "queue_ok i q' \<and> vq_enabled q' = vq_enabled q \<and> vq_has_looker q' = vq_has_looker q \<and>
    (es = [] \<or> es = [Prepared i] \<and> vq_TopPacket q' \<noteq> None)"
proof (cases "vq_enabled q \<and> vq_frames q \<noteq> []")
  case True
  then obtain k f m where m: "vq_frames q = (k, f) # m" by (cases "vq_frames q") auto
  then have q': "q' = q\<lparr>vq_frames := m\<rparr>" "es = CheckPrepared q'"
    using True assms(2) by (auto simp: vq_PopPacket_def Let_def)
  then show ?thesis
    using assms(1) m True
    by (auto simp: queue_ok_def sm_sorted_def CheckPrepared_def FirePreparedEvent_def FirstIsKeyFrame_def vq_TopPacket_def
        split: list.splits)
qed (use assms in \<open>auto simp: vq_PopPacket_def split: list.splits\<close>)

text \<open>Storing a queue and handling what it reports.\<close>

lemma store_queue_inv:
  assumes "fw_inv s" "sm_find (<) i (fw_queues s) = Some q" "queue_ok i q'"
    and "vq_enabled q' = vq_enabled q" "vq_has_looker q' = vq_has_looker q"
  shows "fw_inv (s\<lparr>fw_queues := sm_set (<) i q' (fw_queues s)\<rparr>)"
proof -
  let ?s = "s\<lparr>fw_queues := sm_set (<) i q' (fw_queues s)\<rparr>"
  have srt: "sm_sorted (<) (fw_queues s)" using assms(1) by (simp add: fw_inv_def fw_ok_def)
  have "fw_ok ?s" using assms(1-3) srt by (auto simp: fw_inv_def fw_ok_def intk.find_set intk.sorted_set split: if_splits)
  moreover have "streams ?s = streams s" by (rule streams_cong) (simp add: srt intk.find_set assms(2))
  moreover have "flags ?s (enabled_members (fw_map s)) (seen_members (fw_map s))"
    using assms srt by (auto simp: fw_inv_def flags_def intk.find_set)
  ultimately show ?thesis using assms(1) by (simp add: fw_inv_def)
qed

lemma report_inv:
  assumes "fw_inv s" "enumerates enum" "length stack = 1500" "sm_find (<) i (fw_queues s) = Some q" "queue_ok i q'"
    and "vq_enabled q' = vq_enabled q" "vq_has_looker q' = vq_has_looker q"
    and "es = [] \<or> es = [Prepared i] \<and> vq_TopPacket q' \<noteq> None"
  shows "\<exists>s' out. on_vq_events enum stack es (s\<lparr>fw_queues := sm_set (<) i q' (fw_queues s)\<rparr>) = Some (s', out) \<and>
    fw_inv s' \<and> streams s' = streams s"
proof -
  let ?s = "s\<lparr>fw_queues := sm_set (<) i q' (fw_queues s)\<rparr>"
  have srt: "sm_sorted (<) (fw_queues s)" using assms(1) by (simp add: fw_inv_def fw_ok_def)
  have inv: "fw_inv ?s" by (rule store_queue_inv [OF assms(1,4-7)])
  have str: "streams ?s = streams s" by (rule streams_cong) (simp add: srt intk.find_set assms(4))
  from assms(8) show ?thesis
  proof
    assume "es = []"
    then show ?thesis using inv str by simp
  next
    assume es: "es = [Prepared i] \<and> vq_TopPacket q' \<noteq> None"
    then obtain f where f: "vq_TopPacket q' = Some f" by blast
    have "sm_find (<) i (fw_queues ?s) = Some q'" using srt by (simp add: intk.find_set)
    from fw_prepared [OF inv assms(2,3) this f] es str show ?thesis by auto
  qed
qed

lemma OnIncomingPacket_inv:
  assumes "fw_inv s" "enumerates enum" "length stack = 1500"
    and "length (data packet) = 1500" "12 \<le> pkt_length packet" "pkt_length packet \<le> 1500"
  shows "\<exists>s' out. fw_OnIncomingPacket enum stack depacketize i packet s = Some (s', out) \<and> fw_inv s'"
proof (cases "sm_find (<) i (fw_queues s)")
  case None
  then show ?thesis using assms(1) by (simp add: fw_OnIncomingPacket_def)
next
  case (Some q)
  let ?n = "nat (pkt_length packet mod 2 ^ 64)"
  have n: "12 \<le> ?n" "?n \<le> 1500" "?n \<le> length (data packet)" using assms(4-6) by simp_all
  have "queue_ok i q" using assms(1) Some by (simp add: fw_inv_def fw_ok_def)
  from push_ok [OF this n assms(3), of depacketize] obtain q' es where
    push: "vq_PushPacket stack depacketize (Some (data packet)) ?n q = Some (q', es)" "queue_ok i q'"
      "vq_enabled q' = vq_enabled q" "vq_has_looker q' = vq_has_looker q" "es = [] \<or> es = [Prepared i] \<and> vq_TopPacket q' \<noteq> None"
    by blast
  from report_inv [OF assms(1-3) Some push(2-5)] show ?thesis
    using push(1) Some by (auto simp: fw_OnIncomingPacket_def)
qed

lemma forward_each_inv:
  assumes "fw_inv s" "set is \<subseteq> streams s"
  shows "\<exists>s' out. forward_each is first s = Some (s', out) \<and> fw_inv s' \<and> fw_queues s' = fw_queues s \<and> fw_map s' = fw_map s"
  using assms
proof (induction "is" arbitrary: first s)
  case (Cons i "is")
  let ?src = "GetSrc i (fw_map s)"
  show ?case
  proof (cases "?src = NOID")
    case True
    then show ?thesis using Cons by simp
  next
    case False
    obtain D where D: "represents (fw_map s) D" using Cons.prems(1) by (auto simp: fw_inv_def vm_inv_def)
    have ok: "fw_ok s" "streams s = set (members (fw_map s))" using Cons.prems(1) by (simp_all add: fw_inv_def)
    have "?src \<in> streams s" unfolding ok(2) using False D
      by (auto simp: GetSrc_def represents_def build_def split: if_splits option.splits dest: closed_viewD(1))
    then obtain q where q: "sm_find (<) ?src (fw_queues s) = Some q" by (rule streamsE)
    show ?thesis
    proof (cases "vq_TopPacket q")
      case None
      then show ?thesis using Cons False q by simp
    next
      case (Some f)
      have "i \<in> streams s" using Cons.prems(2) by simp
      then obtain sc where sc: "sm_find (<) i (fw_contexts s) = Some sc"
        using ok(1) by (cases "sm_find (<) i (fw_contexts s)") (auto simp: fw_ok_def streams_def)
      have "queue_ok ?src q" using ok(1) q by (simp add: fw_ok_def)
      then have "12 \<le> vf_len f \<and> vf_len f \<le> length (vf_data f)"
        using Some by (auto simp: queue_ok_def frame_ok_def vq_TopPacket_def split: if_splits list.splits)
      then obtain b where b: "frame_payload f = Some b" by (simp add: frame_payload_def)
      let ?s = "s\<lparr>fw_contexts := sm_set (<) i (renumber f sc) (fw_contexts s)\<rparr>"
      have "fw_ok ?s" by (rule set_context_ok [OF ok(1) \<open>i \<in> streams s\<close>])
      then have "fw_inv ?s" using Cons.prems(1) by (simp add: fw_inv_def flags_def)
      then obtain s' out where "forward_each is False ?s = Some (s', out)" "fw_inv s'" "fw_queues s' = fw_queues s" "fw_map s' = fw_map s"
        using Cons.IH [of ?s False] Cons.prems(2) by auto
      then show ?thesis using False q Some sc b ok(1) by (simp add: Let_def fw_ok_def)
    qed
  qed
qed simp

lemma pop_each_inv:
  assumes "fw_inv s" "enumerates enum" "length stack = 1500" "set is \<subseteq> streams s"
  shows "\<exists>s' out. pop_each enum stack is s = Some (s', out) \<and> fw_inv s'"
  using assms
proof (induction "is" arbitrary: s)
  case (Cons i "is")
  have "i \<in> streams s" using Cons.prems(4) by simp
  then obtain q where q: "sm_find (<) i (fw_queues s) = Some q" by (rule streamsE)
  obtain r q' es where pop: "vq_PopPacket q = (r, q', es)" by (cases "vq_PopPacket q")
  have "queue_ok i q" using Cons.prems(1) q by (simp add: fw_inv_def fw_ok_def)
  note ok = pop_ok [OF this pop]
  obtain s1 out where s1: "on_vq_events enum stack es (s\<lparr>fw_queues := sm_set (<) i q' (fw_queues s)\<rparr>) = Some (s1, out)"
      "fw_inv s1" "streams s1 = streams s"
    using report_inv [OF Cons.prems(1-3) q, of q' es] ok by blast
  obtain s2 out2 where "pop_each enum stack is s1 = Some (s2, out2)" "fw_inv s2"
    using Cons.IH [OF s1(2) Cons.prems(2,3)] Cons.prems(4) s1(3) by auto
  then show ?case using q pop s1(1) by simp
qed simp

lemma ForwardData_inv:
  assumes "fw_inv s" "enumerates enum" "length stack = 1500"
  shows "\<exists>s' out. ForwardData enum stack s = Some (s', out) \<and> fw_inv s'"
proof -
  have str: "streams s = set (members (fw_map s))" and srt: "sm_sorted (<) (fw_queues s)"
    using assms(1) by (simp_all add: fw_inv_def fw_ok_def)
  obtain s1 out where s1: "forward_each (GetAllId (fw_map s)) True s = Some (s1, out)" "fw_inv s1" "fw_queues s1 = fw_queues s"
    using forward_each_inv [OF assms(1), of "GetAllId (fw_map s)" True] str by (auto simp: GetAllId_def)
  have "set (map fst (fw_queues s1)) \<subseteq> streams s1"
    using intk.find_elem [OF srt] unfolding s1(3) streams_def by fastforce
  from pop_each_inv [OF s1(2) assms(2,3) this] show ?thesis using s1(1) by (auto simp: ForwardData_def)
qed

section \<open>Runs of the element\<close>

datatype fw_op =
  Link_stream int | Unlink_stream int | Change_speaker int | Request_key_frame | Incoming int dataPacket | Forward_round

fun fw_step :: "(int set \<Rightarrow> int list) \<Rightarrow> buffer \<Rightarrow> (u8 \<Rightarrow> buffer \<Rightarrow> u64 \<Rightarrow> bool option) \<Rightarrow> fw_op \<Rightarrow> forward
    \<Rightarrow> (forward \<times> fw_out list) option" where
  "fw_step enum stack depacketize (Link_stream i) s = LinkVideoStream enum stack i s"
| "fw_step enum stack depacketize (Unlink_stream i) s = UnlinkVideoStream enum stack i s"
| "fw_step enum stack depacketize (Change_speaker i) s = ChangeToSpeaker enum stack i s"
| "fw_step enum stack depacketize Request_key_frame s = RequestSpeakerKeyFrame stack s"
| "fw_step enum stack depacketize (Incoming i packet) s = fw_OnIncomingPacket enum stack depacketize i packet s"
| "fw_step enum stack depacketize Forward_round s = ForwardData enum stack s"

fun fw_run :: "(int set \<Rightarrow> int list) \<Rightarrow> buffer \<Rightarrow> (u8 \<Rightarrow> buffer \<Rightarrow> u64 \<Rightarrow> bool option) \<Rightarrow> fw_op list \<Rightarrow> forward
    \<Rightarrow> (forward \<times> fw_out list) option" where
  "fw_run enum stack depacketize [] s = Some (s, [])"
| "fw_run enum stack depacketize (op # ops) s = do {
     (s, out) \<leftarrow> fw_step enum stack depacketize op s;
     (s, out') \<leftarrow> fw_run enum stack depacketize ops s;
     Some (s, out @ out') }"

text \<open>Packets as the transport delivers them: at least an RTP header, and inside the array.\<close>

definition rtp_sized :: "dataPacket \<Rightarrow> bool" where
  "rtp_sized packet \<longleftrightarrow> length (data packet) = 1500 \<and> 12 \<le> pkt_length packet \<and> pkt_length packet \<le> 1500"

fun sized_op :: "fw_op \<Rightarrow> bool" where
  "sized_op (Incoming i packet) = rtp_sized packet"
| "sized_op _ = True"

lemma fw_step_inv:
  assumes "fw_inv s" "enumerates enum" "length stack = 1500" "sized_op op"
  shows "\<exists>s' out. fw_step enum stack depacketize op s = Some (s', out) \<and> fw_inv s'"
  using assms LinkVideoStream_inv UnlinkVideoStream_inv ChangeToSpeaker_inv RequestSpeakerKeyFrame_inv OnIncomingPacket_inv ForwardData_inv
  by (cases op) (auto simp: rtp_sized_def)

lemma fw_run_inv:
  assumes "fw_inv s" "enumerates enum" "length stack = 1500" "\<forall>op\<in>set ops. sized_op op"
  shows "\<exists>s' out. fw_run enum stack depacketize ops s = Some (s', out) \<and> fw_inv s'"
  using assms
proof (induction ops arbitrary: s)
  case (Cons op ops)
  then obtain s1 out where "fw_step enum stack depacketize op s = Some (s1, out)" "fw_inv s1"
    using fw_step_inv [of s enum stack op depacketize] by auto
  moreover obtain s2 out2 where "fw_run enum stack depacketize ops s1 = Some (s2, out2)" "fw_inv s2"
    using Cons \<open>fw_inv s1\<close> by fastforce
  ultimately show ?case by simp
qed simp

lemma fw_inv_new: "fw_inv (VideoForwardElementNew_new True)"
  using vm_inv_new(1)
  by (auto simp: fw_inv_def fw_ok_def VideoForwardElementNew_new_def sm_sorted_def flags_def streams_def VideoMap_new_def)

definition in_step :: "forward \<Rightarrow> bool" where
  "in_step s \<longleftrightarrow> (\<forall>i. i \<in> set (members (fw_map s)) \<longleftrightarrow> sm_find (<) i (fw_queues s) \<noteq> None) \<and>
     (\<forall>i q. sm_find (<) i (fw_queues s) = Some q \<longrightarrow> sm_find (<) i (fw_contexts s) \<noteq> None \<and>
        (vq_enabled q \<longleftrightarrow> 0 < GetLookerCount (store (fw_map s)) i) \<and> (vq_has_looker q \<longleftrightarrow> HasCurLooker (store (fw_map s)) i))"

lemma in_step_inv:
  assumes "fw_inv s" shows "in_step s"
proof -
  have ok: "fw_ok s" "streams s = set (members (fw_map s))" "flags s (enabled_members (fw_map s)) (seen_members (fw_map s))"
    using assms by (simp_all add: fw_inv_def)
  have str: "i \<in> set (members (fw_map s)) \<longleftrightarrow> sm_find (<) i (fw_queues s) \<noteq> None" for i
    unfolding ok(2) [symmetric] by (simp add: streams_def)
  show ?thesis unfolding in_step_def
  proof (intro conjI allI impI)
    fix i q assume q: "sm_find (<) i (fw_queues s) = Some q"
    have i: "i \<in> set (members (fw_map s))" using str q by simp
    show "sm_find (<) i (fw_contexts s) \<noteq> None" using ok(1) q by (simp add: fw_ok_def)
    show "vq_enabled q \<longleftrightarrow> 0 < GetLookerCount (store (fw_map s)) i" "vq_has_looker q \<longleftrightarrow> HasCurLooker (store (fw_map s)) i"
      using ok(3) q i by (auto simp: flags_def enabled_members_def seen_members_def)
  qed (rule str)
qed

text \<open>C8.
  The forwarding element never fails: whatever streams are linked and unlinked, whoever speaks,
  whatever packets arrive and whenever the forwarding thread runs, every method returns; no
  missing queue, context or packet is dereferenced.  Map and queues stay in step: there is a queue
  and a context for exactly the members, a queue collects packets exactly if its stream is seen or
  about to be seen, and keeps them exactly if it is seen.\<close>

theorem forwarding_never_fails:
  assumes "enumerates enum" "length stack = 1500" "\<forall>op\<in>set ops. sized_op op"
  shows "\<exists>s out. fw_run enum stack depacketize ops (VideoForwardElementNew_new True) = Some (s, out) \<and>
    in_step s \<and> linked (fw_map s) \<and> faces_master (fw_map s)"
proof -
  obtain s out where s: "fw_run enum stack depacketize ops (VideoForwardElementNew_new True) = Some (s, out)" "fw_inv s"
    using fw_run_inv [OF fw_inv_new assms] by blast
  then obtain D where "vm_inv (fw_map s) D" by (auto simp: fw_inv_def)
  then have "linked (fw_map s)" "faces_master (fw_map s)" using linked_build faces_master_inv by (auto simp: vm_inv_def)
  then show ?thesis using s in_step_inv by blast
qed

text \<open>Two streams, a key frame of each, and a round of forwarding.\<close>

definition example_packet :: "u8 \<Rightarrow> dataPacket" where
  "example_packet n = dataPacket_new\<lparr>data := [128, 96, 0, n] @ replicate 1496 1, pkt_length := 20\<rparr>"

definition example_ops :: "fw_op list" where
  "example_ops = [Link_stream 1, Link_stream 2, Incoming 2 (example_packet 7), Incoming 1 (example_packet 9), Forward_round, Unlink_stream 1]"

theorem forwarding_never_fails_witness:
  "\<exists>s out. fw_run sorted_list_of_set (replicate 1500 0) (\<lambda>_ _ _. Some True) example_ops (VideoForwardElementNew_new True) = Some (s, out) \<and>
    in_step s \<and> linked (fw_map s) \<and> faces_master (fw_map s)"
proof -
  have "\<forall>op\<in>set example_ops. sized_op op"
    by (simp add: example_ops_def example_packet_def rtp_sized_def dataPacket_new_def)
  from forwarding_never_fails [OF enumerates_sorted _ this] show ?thesis by simp
qed

section \<open>Changing the source without a gap\<close>

lemma on_vm_event_frames:
  assumes "on_vm_event stack e s = Some (s', out)" "e \<noteq> Disabled i" "sm_sorted (<) (fw_queues s)"
    and "sm_find (<) i (fw_queues s) = Some q"
  shows "sm_sorted (<) (fw_queues s') \<and> (\<exists>q'. sm_find (<) i (fw_queues s') = Some q' \<and> vq_frames q' = vq_frames q)"
  using assms
  by (cases e) (auto simp: fw_SendFir_def upd_queue_def on_src_changed_def intk.find_set intk.sorted_set vq_Enable_def vq_SetHasLooker_def
      vq_Disable_def split: bind_splits)

lemma on_vm_events_frames:
  assumes "on_vm_events stack es s = Some (s', out)" "Disabled i \<notin> set es" "sm_sorted (<) (fw_queues s)"
    and "sm_find (<) i (fw_queues s) = Some q"
  shows "\<exists>q'. sm_find (<) i (fw_queues s') = Some q' \<and> vq_frames q' = vq_frames q"
  using assms
proof (induction es arbitrary: s q out)
  case (Cons e es)
  obtain s1 o1 o2 where 1: "on_vm_event stack e s = Some (s1, o1)" "on_vm_events stack es s1 = Some (s', o2)"
    using Cons.prems(1) by (auto split: bind_splits)
  have "e \<noteq> Disabled i" using Cons.prems(2) by auto
  from on_vm_event_frames [OF 1(1) this Cons.prems(3,4)] obtain q1 where
    q1: "sm_sorted (<) (fw_queues s1)" "sm_find (<) i (fw_queues s1) = Some q1" "vq_frames q1 = vq_frames q" by blast
  have "Disabled i \<notin> set es" using Cons.prems(2) by simp
  from Cons.IH [OF 1(2) this q1(1,2)] q1(3) show ?case by simp
qed simp

text \<open>A stream that somebody waits for is seen after the call that prepares it.\<close>

lemma prepared_seen:
  assumes "vm_inv m D" "waits_for i m p" "vm_SetPrepared i m = Some (m', es)"
  shows "GetSrc p m' = i" "Disabled i \<notin> set es" "i \<in> enabled_members m'"
proof -
  have rep: "represents m D" using assms(1) by (simp add: vm_inv_def)
  obtain \<sigma> where p: "D p = Some (\<sigma>, Some i)" using assms(2) waits_for_view [OF rep] by blast
  then have "D i \<noteq> None" using rep closed_viewD(2) by (auto simp: represents_def)
  then have i: "i \<in> set (members m)" using represents_dom [OF rep] by blast
  have pm: "p \<in> set (members m)" using represents_dom [OF rep, of p] p by simp
  obtain ps where m': "represents m' (prepared_view i UNIV D)" "members m' = members m"
      "es = map SrcChanged ps @ EventDetector_Detect m m'"
    using SetPrepared_view [OF rep i] assms(3) by auto
  have v: "prepared_view i UNIV D p = Some (Some i, None)" using p by (simp add: prepared_view_def)
  have st: "store m' = build (prepared_view i UNIV D)" using m'(1) by (simp add: represents_def)
  show "GetSrc p m' = i" using st v pm m'(2) by (simp add: GetSrc_def build_def)
  have fin: "finite (dom (prepared_view i UNIV D))" using m'(1) by (simp add: represents_def)
  have "prepared_view i UNIV D i \<noteq> None" using \<open>D i \<noteq> None\<close> by (simp add: prepared_view_def)
  then obtain a b where ab: "prepared_view i UNIV D i = Some (a, b)" by auto
  have "p \<in> {q. \<exists>e'. prepared_view i UNIV D q = Some (Some i, e')}" using v by blast
  then have "0 < card {q. \<exists>e'. prepared_view i UNIV D q = Some (Some i, e')}"
    using finite_lookers(1) [OF fin] card_gt_0_iff by blast
  then have "0 < GetLookerCount (store m') i" unfolding GetLookerCount_def st build_Some [of "prepared_view i UNIV D" i, OF ab] by simp
  then show "i \<in> enabled_members m'" "Disabled i \<notin> set es"
    using i m'(2,3) by (auto simp: enabled_members_def EventDetector_Detect_def EnabledDetector_Detect_def DisabledDetector_Detect_def
        HasLookerDetector_Detect_def NoLookerDetector_Detect_def)
qed

lemma forward_each_relays:
  assumes "forward_each is first s = Some (s', out)" "p \<in> set is" "distinct is" "sm_sorted (<) (fw_contexts s)"
    and "GetSrc p (fw_map s) \<noteq> NOID" "sm_find (<) (GetSrc p (fw_map s)) (fw_queues s) = Some q" "vq_TopPacket q = Some f"
    and "sm_find (<) p (fw_contexts s) = Some c" "frame_payload f = Some b"
  shows "OnRelayRtpPacket p (sc_ts (renumber f c), sc_seq (renumber f c), vf_marker f, b) \<in> set out"
  using assms
proof (induction "is" arbitrary: s first out)
  case (Cons i "is")
  show ?case
  proof (cases "i = p")
    case True
    then show ?thesis using Cons.prems by (auto simp: Let_def split: bind_splits if_splits)
  next
    case False
    then have p: "p \<in> set is" "distinct is" using Cons.prems(2,3) by auto
    show ?thesis
    proof (cases "\<exists>first. forward_each is first s = Some (s', out)")
      case True
      then show ?thesis using Cons.IH [OF _ p Cons.prems(4-9)] by blast
    next
      case cont: False
      then obtain sc out1 o1 where 1: "forward_each is False (s\<lparr>fw_contexts := sm_set (<) i sc (fw_contexts s)\<rparr>) = Some (s', out1)"
          "out = o1 @ out1"
        using Cons.prems(1) by (auto simp: Let_def split: bind_splits if_splits option.splits)
      have "OnRelayRtpPacket p (sc_ts (renumber f c), sc_seq (renumber f c), vf_marker f, b) \<in> set out1"
        by (rule Cons.IH [OF 1(1) p]) (use Cons.prems(4-9) False in \<open>simp_all add: intk.find_set intk.sorted_set\<close>)
      then show ?thesis using 1(2) by simp
    qed
  qed
qed simp

text \<open>The frame that is made of a packet.\<close>

lemma key_frame_new:
  assumes "rtp_sized packet" "length stack = 1500" "IsKeyFrame depacketize (data packet) (nat (pkt_length packet)) = Some True"
  shows "\<exists>f. VideoFrame_new stack depacketize (data packet) (nat (pkt_length packet)) = Some f \<and> vf_keyframe f \<and>
    frame_ok (vf_seq f) f \<and> getSeqNumber (data packet) = Some (vf_seq f) \<and> getMarker (data packet) = Some (vf_marker f) \<and>
    frame_payload f = Some (take (nat (pkt_length packet) - 12) (drop 12 (data packet)))"
  using assms
  by (auto simp: VideoFrame_new_def memcpy_def rtp_sized_def getMarker_def getTimestamp_def rd32_def getSeqNumber_bytes
      frame_ok_def frame_payload_def take_drop)

lemma key_frame_pushed:
  assumes "rtp_sized packet" "length stack = 1500" "IsKeyFrame depacketize (data packet) (nat (pkt_length packet)) = Some True"
    and "queue_ok i q" "vq_enabled q" "\<not> vq_has_looker q" "\<forall>k. getSeqNumber (data packet) = Some k \<longrightarrow> \<not> vq_Contains k q"
  shows "\<exists>f. vq_PushPacket stack depacketize (Some (data packet)) (nat (pkt_length packet mod 2 ^ 64)) q =
      Some (q\<lparr>vq_frames := [(vf_seq f, f)]\<rparr>, [Prepared i]) \<and> frame_ok (vf_seq f) f \<and>
      getMarker (data packet) = Some (vf_marker f) \<and>
      frame_payload f = Some (take (nat (pkt_length packet) - 12) (drop 12 (data packet)))"
proof -
  obtain f where f: "VideoFrame_new stack depacketize (data packet) (nat (pkt_length packet)) = Some f" "vf_keyframe f"
      "frame_ok (vf_seq f) f" "getSeqNumber (data packet) = Some (vf_seq f)" "getMarker (data packet) = Some (vf_marker f)"
      "frame_payload f = Some (take (nat (pkt_length packet) - 12) (drop 12 (data packet)))"
    using key_frame_new [OF assms(1-3)] by blast
  have n: "pkt_length packet mod 2 ^ 64 = pkt_length packet" "0 < nat (pkt_length packet)" using assms(1) by (simp_all add: rtp_sized_def)
  have "vq_listener q" "vq_id q = i" using assms(4) by (simp_all add: queue_ok_def)
  then show ?thesis
    using f n assms(5-7) by (auto simp: vq_PushPacket_def PushPacketWhenNoLooker_def)
qed

lemma switch_renumber: "sc_ts (renumber f (switch_source f c)) = sc_ts c + 2880" "sc_seq (renumber f (switch_source f c)) = sc_seq c + 1"
  by (simp_all add: renumber_def switch_source_def)

text \<open>C9.
  A key frame changes the picture without a gap: when a key frame arrives of a stream that is
  collected but not watched, everybody who waits for that stream sees it, and the next round
  relays that very packet to each of them, with the payload unchanged, under the sequence number after
  the last one and the time stamp one frame later.\<close>

theorem key_frame_switches_viewers:
  assumes "enumerates enum" "length stack = 1500" "\<forall>op\<in>set ops. sized_op op"
    and "fw_run enum stack depacketize ops (VideoForwardElementNew_new True) = Some (s, out)"
    and "rtp_sized packet" "IsKeyFrame depacketize (data packet) (nat (pkt_length packet)) = Some True"
    and "sm_find (<) i (fw_queues s) = Some q" "\<not> vq_has_looker q" "vq_enabled q"
    and "\<forall>k. getSeqNumber (data packet) = Some k \<longrightarrow> \<not> vq_Contains k q"
    and "waits_for i (fw_map s) p" "sm_find (<) p (fw_contexts s) = Some c" "i \<noteq> NOID"
  shows "\<exists>s1 out1 s2 out2 m. fw_OnIncomingPacket enum stack depacketize i packet s = Some (s1, out1) \<and>
    GetSrc p (fw_map s1) = i \<and> ForwardData enum stack s1 = Some (s2, out2) \<and> getMarker (data packet) = Some m \<and>
    OnRelayRtpPacket p (sc_ts c + 2880, sc_seq c + 1, m, take (nat (pkt_length packet) - 12) (drop 12 (data packet))) \<in> set out2"
proof -
  have inv: "fw_inv s" using fw_run_inv [OF fw_inv_new assms(1-3), of depacketize] assms(4) by simp
  then obtain D where D: "vm_inv (fw_map s) D" by (auto simp: fw_inv_def)
  have ok: "fw_ok s" "sm_sorted (<) (fw_queues s)" "queue_ok i q" using inv assms(7) by (auto simp: fw_inv_def fw_ok_def)
  obtain f where f: "vq_PushPacket stack depacketize (Some (data packet)) (nat (pkt_length packet mod 2 ^ 64)) q =
      Some (q\<lparr>vq_frames := [(vf_seq f, f)]\<rparr>, [Prepared i])" "frame_ok (vf_seq f) f" "getMarker (data packet) = Some (vf_marker f)"
      "frame_payload f = Some (take (nat (pkt_length packet) - 12) (drop 12 (data packet)))"
    using key_frame_pushed [OF assms(5,2,6) ok(3) assms(9,8,10)] by blast
  let ?q = "q\<lparr>vq_frames := [(vf_seq f, f)]\<rparr>"
  let ?s = "s\<lparr>fw_queues := sm_set (<) i ?q (fw_queues s)\<rparr>"
  have qok: "queue_ok i ?q" using ok(3) f(2) by (simp add: queue_ok_def sm_sorted_def)
  have inv': "fw_inv ?s" by (rule store_queue_inv [OF inv assms(7) qok]) simp_all
  have q': "sm_find (<) i (fw_queues ?s) = Some ?q" "vq_TopPacket ?q = Some f"
    using ok(2) assms(9) by (simp_all add: intk.find_set vq_TopPacket_def)
  obtain s1 out1 es where s1: "fw_call enum stack (Call_SetPrepared i) ?s = Some (s1, out1)" "fw_inv s1"
      "vm_SetPrepared i (fw_map s) = Some (fw_map s1, es)" "streams s1 = streams ?s"
      "\<forall>p. sm_find (<) p (fw_contexts s1) = (if waits_for i (fw_map s) p
         then map_option (switch_source f) (sm_find (<) p (fw_contexts s)) else sm_find (<) p (fw_contexts s))"
    using fw_prepared [OF inv' assms(1,2) q'] by auto
  note seen = prepared_seen [OF D assms(11) s1(3)]
  have ev: "on_vm_events stack es (?s\<lparr>fw_map := fw_map s1\<rparr>) = Some (s1, out1)"
    using s1(1,3) by (simp add: fw_call_def)
  obtain q1 where q1: "sm_find (<) i (fw_queues s1) = Some q1" "vq_frames q1 = [(vf_seq f, f)]"
    using on_vm_events_frames [OF ev seen(2), of ?q] q' ok(2) by (auto simp: intk.sorted_set)
  have "vq_enabled q1" using s1(2) q1(1) seen(3) by (simp add: fw_inv_def flags_def)
  then have top: "vq_TopPacket q1 = Some f" using q1(2) by (simp add: vq_TopPacket_def)
  have push: "fw_OnIncomingPacket enum stack depacketize i packet s = Some (s1, out1)"
    using f(1) s1(1) assms(7) by (simp add: fw_OnIncomingPacket_def)
  obtain s2 out2 where fwd: "ForwardData enum stack s1 = Some (s2, out2)" using ForwardData_inv [OF s1(2) assms(1,2)] by blast
  then obtain s3 o3 o4 where each: "forward_each (GetAllId (fw_map s1)) True s1 = Some (s3, o3)" "out2 = o3 @ o4"
    by (auto simp: ForwardData_def split: bind_splits)
  have mem: "p \<in> set (members (fw_map s1))" "distinct (members (fw_map s1))" "sm_sorted (<) (fw_contexts s1)"
    using seen(1) assms(13) s1(2) by (auto simp: GetSrc_def fw_inv_def fw_ok_def vm_inv_def represents_def split: if_splits)
  have "OnRelayRtpPacket p (sc_ts (renumber f (switch_source f c)), sc_seq (renumber f (switch_source f c)), vf_marker f,
      take (nat (pkt_length packet) - 12) (drop 12 (data packet))) \<in> set o3"
    by (rule forward_each_relays [OF each(1)])
      (use mem seen(1) assms(11-13) q1(1) top s1(5) f(4) in \<open>simp_all add: GetAllId_def\<close>)
  then show ?thesis using push seen(1) fwd f(3) each(2) by (auto simp: switch_renumber)
qed

definition example_state :: forward where
  "example_state = fst (the (fw_run sorted_list_of_set (replicate 1500 0) (\<lambda>_ _ _. Some True) [Link_stream 1, Link_stream 2] (VideoForwardElementNew_new True)))"

lemma example_state_facts:
  "(case sm_find (<) 2 (fw_queues example_state) of None \<Rightarrow> False | Some q \<Rightarrow> \<not> vq_has_looker q \<and> vq_enabled q \<and> vq_frames q = [])"
  "(case store (fw_map example_state) 1 of None \<Rightarrow> False | Some n \<Rightarrow> n_expected_src n = Some 2 \<and> n_src n = None)"
  "sm_find (<) 1 (fw_contexts example_state) = Some VideoSwitchContext_new"
  by code_simp+

theorem key_frame_switches_viewers_witness:
  "\<exists>s1 out1 s2 out2 m. fw_OnIncomingPacket sorted_list_of_set (replicate 1500 0) (\<lambda>_ _ _. Some True) 2 (example_packet 7) example_state = Some (s1, out1) \<and>
    GetSrc 1 (fw_map s1) = 2 \<and> ForwardData sorted_list_of_set (replicate 1500 0) s1 = Some (s2, out2) \<and>
    getMarker (data (example_packet 7)) = Some m \<and>
    OnRelayRtpPacket 1 (sc_ts VideoSwitchContext_new + 2880, sc_seq VideoSwitchContext_new + 1, m,
      take (nat (pkt_length (example_packet 7)) - 12) (drop 12 (data (example_packet 7)))) \<in> set out2"
proof -
  let ?ops = "[Link_stream 1, Link_stream 2]" and ?key = "\<lambda>(_ :: u8) (_ :: buffer) (_ :: u64). Some True"
  have ops: "\<forall>op\<in>set ?ops. sized_op op" "length (replicate 1500 (0 :: u8)) = 1500" by simp_all
  obtain out where run: "fw_run sorted_list_of_set (replicate 1500 0) ?key ?ops (VideoForwardElementNew_new True) = Some (example_state, out)"
    using fw_run_inv [OF fw_inv_new enumerates_sorted ops(2,1), of ?key] by (auto simp: example_state_def)
  have packet: "rtp_sized (example_packet 7)" "IsKeyFrame ?key (data (example_packet 7)) (nat (pkt_length (example_packet 7))) = Some True"
    by (simp_all add: example_packet_def rtp_sized_def dataPacket_new_def IsKeyFrame_def getPayloadType_def)
  obtain q where q: "sm_find (<) 2 (fw_queues example_state) = Some q" "\<not> vq_has_looker q" "vq_enabled q" "vq_frames q = []"
    using example_state_facts(1) by (auto split: option.splits)
  have fresh: "\<forall>k. getSeqNumber (data (example_packet 7)) = Some k \<longrightarrow> \<not> vq_Contains k q" using q(4) by (simp add: vq_Contains_def)
  have wait: "waits_for 2 (fw_map example_state) 1" using example_state_facts(2) by (auto simp: waits_for_def split: option.splits)
  show ?thesis
    by (rule key_frame_switches_viewers [OF enumerates_sorted ops(2,1) run packet q(1-3) fresh wait example_state_facts(3)])
      (simp add: NOID_def)
qed

end
