(* ===== verification/Std_String.thy ===== *)
theory Std_String
  imports Std_Map "HOL-Library.List_Lexorder" "HOL-Library.Char_ord"
begin

text \<open>
  What the program uses of \<open>std::string\<close>, of the text streams and of \<open>strtoul\<close>, and
  \<open>stringutil::splitOneOf\<close> of \<open>src/orbit/sdp_info.cc\<close>.  Strings are lists of characters.
\<close>

section \<open>Searching and splitting\<close>

text \<open>\<open>s.find (p) != npos\<close>.\<close>

fun contains :: "string \<Rightarrow> string \<Rightarrow> bool" where
  "contains p [] \<longleftrightarrow> p = []"
| "contains p (c # s) \<longleftrightarrow> take (length p) (c # s) = p \<or> contains p s"

definition find_first_of :: "string \<Rightarrow> string \<Rightarrow> nat option" where
  "find_first_of s delims =
     (let n = length (takeWhile (\<lambda>c. c \<notin> set delims) s) in if n < length s then Some n else None)"

lemma find_first_of_Some:
  assumes "find_first_of s delims = Some n"
  shows "n < length s" "s = take n s @ s ! n # drop (n + 1) s" "s ! n \<in> set delims" "set (take n s) \<inter> set delims = {}"
proof -
  have n: "n = length (takeWhile (\<lambda>c. c \<notin> set delims) s)" and lt: "n < length s"
    using assms by (auto simp: find_first_of_def Let_def split: if_splits)
  show "n < length s" by (rule lt)
  show "s = take n s @ s ! n # drop (n + 1) s" using lt by (simp add: id_take_nth_drop)
  show "s ! n \<in> set delims" using lt nth_length_takeWhile [of "\<lambda>c. c \<notin> set delims" s] unfolding n by simp
  show "set (take n s) \<inter> set delims = {}"
    unfolding n using takeWhile_eq_take [of "\<lambda>c. c \<notin> set delims" s] by (auto dest: set_takeWhileD simp flip: takeWhile_eq_take)
qed

text \<open>The loop returns the pieces and what remains.\<close>

function split_loop :: "string \<Rightarrow> nat \<Rightarrow> nat \<Rightarrow> string \<Rightarrow> string list \<times> string" where
  "split_loop delims maxSplits splits remaining =
     (if maxSplits = 0 \<or> splits < maxSplits
      then case find_first_of remaining delims of
             None \<Rightarrow> ([], remaining)
           | Some pos \<Rightarrow>
               let (result, rest) = split_loop delims maxSplits (splits + 1) (drop (pos + 1) remaining)
               in (take pos remaining # result, rest)
      else ([], remaining))"
  by pat_completeness auto

termination
  by (relation "measure (\<lambda>(_, _, _, r). length r)") (auto dest: find_first_of_Some(1))

declare split_loop.simps [simp del]

definition splitOneOf :: "string \<Rightarrow> string \<Rightarrow> nat \<Rightarrow> string list" where
  "splitOneOf str delims maxSplits =
     (let (result, remaining) = split_loop delims maxSplits 0 str
      in result @ (if remaining \<noteq> [] then [remaining] else []))"

text \<open>\<open>c_str ()\<close> used as a string; the keys of a \<open>std::map<std::string, _>\<close>.\<close>

definition c_str :: "string \<Rightarrow> string" where
  "c_str s = takeWhile (\<lambda>c. c \<noteq> CHR 0x00) s"

interpretation strk: key_order "(<) :: string \<Rightarrow> string \<Rightarrow> bool"
  by unfold_locales auto

section \<open>Numbers\<close>

definition isspace :: "char \<Rightarrow> bool" where
  "isspace c \<longleftrightarrow> of_char c \<in> {9, 10, 11, 12, 13, 32 :: nat}"

definition isdigit :: "char \<Rightarrow> bool" where
  "isdigit c \<longleftrightarrow> 48 \<le> (of_char c :: nat) \<and> (of_char c :: nat) \<le> 57"

definition digits_value :: "string \<Rightarrow> nat" where
  "digits_value ds = foldl (\<lambda>v c. 10 * v + (of_char c - 48)) 0 ds"

text \<open>\<open>strtoul (s, NULL, 10)\<close> with 64-bit \<open>unsigned long\<close>.\<close>

definition strtoul :: "string \<Rightarrow> u64" where
  "strtoul s =
     (let s = dropWhile isspace s;
          (neg, s) = (case s of [] \<Rightarrow> (False, s)
                      | c # r \<Rightarrow> if c = CHR ''-'' then (True, r) else if c = CHR ''+'' then (False, r) else (False, s));
          v = digits_value (takeWhile isdigit s)
      in if 2 ^ 64 \<le> v then -1 else if neg then - word_of_nat v else word_of_nat v)"

text \<open>A stream prints an unsigned number in decimal.\<close>

fun show_nat :: "nat \<Rightarrow> string" where
  "show_nat n = (if n < 10 then [char_of (48 + n)] else show_nat (n div 10) @ [char_of (48 + n mod 10)])"

declare show_nat.simps [simp del]

definition show_int :: "int \<Rightarrow> string" where
  "show_int i = (if i < 0 then CHR ''-'' # show_nat (nat (- i)) else show_nat (nat i))"

section \<open>Lemmas\<close>

subsection \<open>Splitting\<close>

lemma find_first_of_append:
  assumes "set p \<inter> set delims = {}" "d \<in> set delims"
  shows "find_first_of (p @ d # r) delims = Some (length p)"
proof -
  have "takeWhile (\<lambda>c. c \<notin> set delims) (p @ d # r) = p"
    using assms by (subst takeWhile_append2) auto
  then show ?thesis by (simp add: find_first_of_def Let_def)
qed

lemma takeWhile_shorter: "length (takeWhile P s) < length s \<longleftrightarrow> (\<exists>x\<in>set s. \<not> P x)"
  by (induction s) auto

lemma find_first_of_None: "find_first_of s delims = None \<longleftrightarrow> set s \<inter> set delims = {}"
  by (auto simp: find_first_of_def Let_def takeWhile_shorter)

lemma split_loop_step:
  assumes "set p \<inter> set delims = {}" "d \<in> set delims" "maxSplits = 0 \<or> splits < maxSplits"
  shows "split_loop delims maxSplits splits (p @ d # r) =
    (p # fst (split_loop delims maxSplits (splits + 1) r), snd (split_loop delims maxSplits (splits + 1) r))"
  using assms by (subst split_loop.simps) (auto simp: find_first_of_append split: prod.splits)

lemma split_loop_stop:
  assumes "set s \<inter> set delims = {} \<or> (maxSplits \<noteq> 0 \<and> maxSplits \<le> splits)"
  shows "split_loop delims maxSplits splits s = ([], s)"
  using assms find_first_of_None [of s delims] by (subst split_loop.simps) auto

text \<open>Text that is pieces with a delimiter behind each, and then a last piece.\<close>

fun joined :: "(string \<times> char) list \<Rightarrow> string \<Rightarrow> string" where
  "joined [] r = r"
| "joined ((p, d) # ps) r = p @ d # joined ps r"

lemma split_loop_joined:
  assumes "\<forall>(p, d)\<in>set ps. set p \<inter> set delims = {} \<and> d \<in> set delims" "maxSplits = 0 \<or> splits + length ps \<le> maxSplits"
  shows "split_loop delims maxSplits splits (joined ps r) =
    (map fst ps @ fst (split_loop delims maxSplits (splits + length ps) r), snd (split_loop delims maxSplits (splits + length ps) r))"
  using assms
proof (induction ps arbitrary: splits)
  case (Cons pd ps)
  obtain p d where pd: "pd = (p, d)" by (cases pd)
  have "maxSplits = 0 \<or> splits < maxSplits" using Cons.prems(2) by auto
  then show ?case
    using Cons.IH [of "splits + 1"] Cons.prems split_loop_step [of p delims d maxSplits splits "joined ps r"] by (auto simp: pd)
qed simp

lemma splitOneOf_joined:
  assumes "\<forall>(p, d)\<in>set ps. set p \<inter> set delims = {} \<and> d \<in> set delims"
    and "maxSplits = 0 \<and> set r \<inter> set delims = {} \<or> maxSplits \<noteq> 0 \<and> length ps \<le> maxSplits \<and> (set r \<inter> set delims = {} \<or> length ps = maxSplits)"
    and "r \<noteq> []"
  shows "splitOneOf (joined ps r) delims maxSplits = map fst ps @ [r]"
proof -
  have "split_loop delims maxSplits (length ps) r = ([], r)" using assms(2) by (intro split_loop_stop) auto
  then show ?thesis
    using split_loop_joined [OF assms(1), of maxSplits 0 r] assms(2,3) by (auto simp: splitOneOf_def)
qed

lemma split_loop_pieces:
  "\<exists>ps. remaining = joined ps (snd (split_loop delims n k remaining)) \<and> fst (split_loop delims n k remaining) = map fst ps \<and>
     (\<forall>(p, d)\<in>set ps. set p \<inter> set delims = {} \<and> d \<in> set delims) \<and> (n = 0 \<or> ps = [] \<or> k + length ps \<le> n) \<and>
     (set (snd (split_loop delims n k remaining)) \<inter> set delims = {} \<or> n \<noteq> 0 \<and> n \<le> k + length ps)"
proof (induction delims n k remaining rule: split_loop.induct)
  case (1 delims n k remaining)
  show ?case
  proof (cases "n = 0 \<or> k < n")
    case True
    show ?thesis
    proof (cases "find_first_of remaining delims")
      case None
      then have "set remaining \<inter> set delims = {}" by (simp add: find_first_of_None)
      then show ?thesis by (intro exI [of _ "[]"]) (simp add: split_loop_stop)
    next
      case (Some pos)
      note f = find_first_of_Some [OF Some]
      let ?p = "take pos remaining" and ?d = "remaining ! pos" and ?r = "drop (pos + 1) remaining"
      have step: "split_loop delims n k remaining = (?p # fst (split_loop delims n (k + 1) ?r), snd (split_loop delims n (k + 1) ?r))"
        using split_loop_step [OF f(4,3) True, of ?r] f(2) by simp
      from "1.IH" [OF True Some] obtain ps where ps: "?r = joined ps (snd (split_loop delims n (k + 1) ?r))"
          "fst (split_loop delims n (k + 1) ?r) = map fst ps" "\<forall>(p, d)\<in>set ps. set p \<inter> set delims = {} \<and> d \<in> set delims"
          "n = 0 \<or> ps = [] \<or> k + 1 + length ps \<le> n"
          "set (snd (split_loop delims n (k + 1) ?r)) \<inter> set delims = {} \<or> n \<noteq> 0 \<and> n \<le> k + 1 + length ps" by blast
      have "remaining = joined ((?p, ?d) # ps) (snd (split_loop delims n (k + 1) ?r))" using f(2) ps(1) by simp
      then show ?thesis
        using step ps(2-5) f(3,4) True by (intro exI [of _ "(?p, ?d) # ps"]) auto
    qed
  next
    case False
    then show ?thesis by (intro exI [of _ "[]"]) (simp add: split_loop_stop)
  qed
qed

text \<open>\<open>splitOneOf\<close> cuts the text at the delimiters: the text is the pieces with one delimiter behind
  each and a rest; no piece contains a delimiter; the rest contains none either unless the
  limit on the number of cuts is reached, which is never exceeded; and the result lists the pieces
  and the rest, which is left out when it is empty.\<close>

lemma splitOneOf_pieces:
  "\<exists>ps r. str = joined ps r \<and> splitOneOf str delims maxSplits = map fst ps @ (if r \<noteq> [] then [r] else []) \<and>
     (\<forall>(p, d)\<in>set ps. set p \<inter> set delims = {} \<and> d \<in> set delims) \<and>
     (maxSplits = 0 \<or> length ps \<le> maxSplits) \<and> (set r \<inter> set delims = {} \<or> maxSplits \<noteq> 0 \<and> length ps = maxSplits)"
proof -
  obtain ps where ps: "str = joined ps (snd (split_loop delims maxSplits 0 str))" "fst (split_loop delims maxSplits 0 str) = map fst ps"
      "\<forall>(p, d)\<in>set ps. set p \<inter> set delims = {} \<and> d \<in> set delims" "maxSplits = 0 \<or> ps = [] \<or> 0 + length ps \<le> maxSplits"
      "set (snd (split_loop delims maxSplits 0 str)) \<inter> set delims = {} \<or> maxSplits \<noteq> 0 \<and> maxSplits \<le> 0 + length ps"
    using split_loop_pieces [of str delims maxSplits 0] by blast
  have "splitOneOf str delims maxSplits = map fst ps @
      (if snd (split_loop delims maxSplits 0 str) \<noteq> [] then [snd (split_loop delims maxSplits 0 str)] else [])"
    using ps(2) by (simp add: splitOneOf_def case_prod_unfold Let_def)
  then show ?thesis using ps by (intro exI [of _ ps] exI [of _ "snd (split_loop delims maxSplits 0 str)"]) auto
qed

subsection \<open>Numbers\<close>

lemma digit_char: "n < 10 \<Longrightarrow> of_char (char_of (48 + n) :: char) = (48 + n :: nat)"
  by (simp add: of_char_of)

lemma show_nat_digits: "\<forall>c\<in>set (show_nat n). isdigit c"
proof (induction n rule: show_nat.induct)
  case (1 n)
  then show ?case by (subst show_nat.simps) (auto simp: isdigit_def digit_char)
qed

lemma show_nat_value: "digits_value (show_nat n) = n"
proof (induction n rule: show_nat.induct)
  case (1 n)
  then show ?case
    by (subst show_nat.simps) (auto simp: digits_value_def digit_char)
qed

lemma show_nat_Nil [simp]: "show_nat n \<noteq> []"
  by (subst show_nat.simps) simp

lemma takeWhile_digits:
  assumes "r = [] \<or> \<not> isdigit (hd r)"
  shows "takeWhile isdigit (show_nat n @ r) = show_nat n"
  using assms show_nat_digits [of n] by (subst takeWhile_append2) (auto simp: takeWhile_eq_Nil_iff neq_Nil_conv)

lemma digit_not_special: "isdigit c \<Longrightarrow> \<not> isspace c \<and> c \<noteq> CHR ''-'' \<and> c \<noteq> CHR ''+''"
  by (auto simp: isdigit_def isspace_def)

lemma strtoul_show:
  assumes "n < 2 ^ 64" "r = [] \<or> \<not> isdigit (hd r)"
  shows "strtoul (show_nat n @ r) = word_of_nat n"
proof -
  obtain c ds where c: "show_nat n = c # ds" by (cases "show_nat n") auto
  then have d: "\<not> isspace c \<and> c \<noteq> CHR ''-'' \<and> c \<noteq> CHR ''+''" using show_nat_digits [of n] digit_not_special by auto
  have "takeWhile isdigit (c # ds @ r) = show_nat n" using takeWhile_digits [OF assms(2), of n] c by simp
  then show ?thesis using c d assms(1) show_nat_value [of n] by (simp add: strtoul_def)
qed

lemmas strtoul_show_only = strtoul_show [where r = "[]", simplified]

end
