(* ===== verification/Session_Info.thy ===== *)
theory Session_Info
  imports Network_Status Std_String "HOL-Library.Multiset"
begin

text \<open>
  \<open>src/orbit/base/session_info.{h,cc}\<close>: the register of sessions and streams behind the status
  page.  A stream keeps, per key, the last values that the other components reported; a session
  keeps its streams; the manager keeps at most 50 sessions, the destroyed ones at the end.
  \<open>Network_Status\<close> reports its counters here: \<open>report_info\<close> carries out one of its effects.

  The clock is the argument \<open>now\<close>, the value of an uninitialised time \<open>garbage\<close>, the local
  date format \<open>date\<close>.  \<open>folly\<close>'s JSON reader is the record \<open>folly_json\<close> of the operations that
  are called; an exception is \<open>None\<close>.  \<open>std::sort\<close> is the argument \<open>srt\<close>, since the order of
  equivalent elements is not determined; \<open>sorts\<close> is its contract.  Counters are below \<open>2^31\<close>.
\<close>

definition MAX_SAVE_SESSION_COUNT :: nat where "MAX_SAVE_SESSION_COUNT = 50"
definition MAX_VALUE_SIZE :: nat where "MAX_VALUE_SIZE = 100"
definition STREAM_STATUS_LIVE :: string where "STREAM_STATUS_LIVE = ''live''"
definition STREAM_STATUS_LEAVE :: string where "STREAM_STATUS_LEAVE = ''leave''"
definition SESSION_STATUS_LIVE :: string where "SESSION_STATUS_LIVE = ''live''"
definition SESSION_STATUS_DESTORYED :: string where "SESSION_STATUS_DESTORYED = ''destoryed''"

lemmas session_consts = MAX_SAVE_SESSION_COUNT_def MAX_VALUE_SIZE_def STREAM_STATUS_LIVE_def
  STREAM_STATUS_LEAVE_def SESSION_STATUS_LIVE_def SESSION_STATUS_DESTORYED_def

text \<open>A quoted string, and the removal of a final comma.\<close>

definition quoted :: "string \<Rightarrow> string" where
  "quoted s = [CHR 0x22] @ s @ [CHR 0x22]"

definition chop_comma :: "string \<Rightarrow> string" where
  "chop_comma s = (if s \<noteq> [] \<and> last s = CHR '','' then butlast s else s)"

section \<open>Streams\<close>

record StreamInfo =
  si_id :: int
  si_status :: string
  si_user_name :: string
  si_user_id :: string
  si_origin_userid :: string
  si_create_time :: int
  si_leave_time :: int
  si_custom :: "(string, string list) std_map"

definition StreamInfo_new :: "int \<Rightarrow> int \<Rightarrow> int \<Rightarrow> StreamInfo" where
  "StreamInfo_new garbage now stid =
     \<lparr>si_id = stid, si_status = STREAM_STATUS_LIVE, si_user_name = [], si_user_id = [], si_origin_userid = [],
      si_create_time = now, si_leave_time = garbage, si_custom = []\<rparr>"

definition SetOriginUserID :: "string \<Rightarrow> StreamInfo \<Rightarrow> StreamInfo" where
  "SetOriginUserID u i = i\<lparr>si_origin_userid := u\<rparr>"

definition ChangeStateToLeave :: "int \<Rightarrow> StreamInfo \<Rightarrow> StreamInfo" where
  "ChangeStateToLeave now i =
     (if si_status i = STREAM_STATUS_LEAVE then i
      else i\<lparr>si_status := STREAM_STATUS_LEAVE, si_leave_time := now\<rparr>)"

definition stream_SetMoreInfo :: "string \<Rightarrow> string \<Rightarrow> StreamInfo \<Rightarrow> StreamInfo" where
  "stream_SetMoreInfo user_name user_id i = i\<lparr>si_user_name := user_name, si_user_id := user_id\<rparr>"

definition AppendCustomInfo :: "string \<Rightarrow> string \<Rightarrow> StreamInfo \<Rightarrow> StreamInfo" where
  "AppendCustomInfo k v i =
     (let (vs, m) = sm_at (<) [] k (si_custom i);
          vs = vs @ [v];
          vs = (if length vs > MAX_VALUE_SIZE then drop (length vs - MAX_VALUE_SIZE) vs else vs)
      in i\<lparr>si_custom := sm_set (<) k vs m\<rparr>)"

definition SetCustomInfo :: "string \<Rightarrow> string \<Rightarrow> StreamInfo \<Rightarrow> StreamInfo" where
  "SetCustomInfo k v i = i\<lparr>si_custom := sm_set (<) k [v] (si_custom i)\<rparr>"

definition GetValueFromVector :: "string list \<Rightarrow> string" where
  "GetValueFromVector vs =
     (if vs = [] then quoted []
      else if length vs = 1 then quoted (hd vs)
      else chop_comma (fold (\<lambda>v s. s @ quoted v @ '','') vs ''['') @ '']'')"

definition custom_info_string :: "(string, string list) std_map \<Rightarrow> string" where
  "custom_info_string m =
     chop_comma (fold (\<lambda>(k, vs) s. s @ k @ '':'' @ GetValueFromVector vs @ '','') m ''{'') @ ''}''"

definition stream_GetAsJson :: "(int \<Rightarrow> string) \<Rightarrow> bool \<Rightarrow> StreamInfo \<Rightarrow> string" where
  "stream_GetAsJson date show_leave i =
     (if \<not> show_leave \<and> si_status i = STREAM_STATUS_LEAVE then []
      else ''{stream_id:'' @ to_string (si_id i) @ '',user_name:'' @ quoted (c_str (si_user_name i)) @
           '',user_id:'' @ quoted (c_str (si_user_id i)) @ '',status:'' @ quoted (c_str (si_status i)) @
           '',create_time:'' @ quoted (c_str (date (si_create_time i))) @
           '',leave_time:'' @ quoted (if si_status i = STREAM_STATUS_LEAVE then c_str (date (si_leave_time i)) else []) @
           '',custom_infos: '' @ c_str (custom_info_string (si_custom i)) @ '' }'')"

section \<open>Sessions\<close>

record SessionInfo =
  se_id :: int
  se_streams :: "(int, StreamInfo) std_map"
  se_total_stream_count :: int
  se_room_id :: string
  se_room_type :: string
  se_status :: string
  se_create_time :: int
  se_destroyed_time :: int

definition SessionInfo_new :: "int \<Rightarrow> int \<Rightarrow> int \<Rightarrow> SessionInfo" where
  "SessionInfo_new garbage now sesid =
     \<lparr>se_id = sesid, se_streams = [], se_total_stream_count = 0, se_room_id = [], se_room_type = [],
      se_status = SESSION_STATUS_LIVE, se_create_time = now, se_destroyed_time = garbage\<rparr>"

definition session_GetStreamInfoById :: "int \<Rightarrow> SessionInfo \<Rightarrow> StreamInfo option" where
  "session_GetStreamInfoById stid s = sm_find (<) stid (se_streams s)"

text \<open>Changing a stream through the shared pointer that the lookup returned.\<close>

definition change_stream :: "int \<Rightarrow> (StreamInfo \<Rightarrow> StreamInfo) \<Rightarrow> SessionInfo \<Rightarrow> SessionInfo" where
  "change_stream stid f s =
     (case session_GetStreamInfoById stid s of
        None \<Rightarrow> s
      | Some i \<Rightarrow> s\<lparr>se_streams := sm_set (<) stid (f i) (se_streams s)\<rparr>)"

definition AddStream :: "int \<Rightarrow> int \<Rightarrow> int \<Rightarrow> SessionInfo \<Rightarrow> SessionInfo" where
  "AddStream garbage now stid s =
     (if session_GetStreamInfoById stid s \<noteq> None then s
      else s\<lparr>se_total_stream_count := se_total_stream_count s + 1,
             se_streams := sm_set (<) stid (StreamInfo_new garbage now stid) (se_streams s)\<rparr>)"

definition RemoveStream :: "int \<Rightarrow> int \<Rightarrow> SessionInfo \<Rightarrow> SessionInfo" where
  "RemoveStream now stid s = change_stream stid (ChangeStateToLeave now) s"

text \<open>
  \<open>parse\<close> reads a message, \<open>field\<close> is \<open>operator[]\<close>, \<open>is_str\<close> is \<open>isString\<close>, \<open>as_str\<close> is
  \<open>asString\<close> and \<open>not_null\<close> the comparison with \<open>NULL\<close>.
\<close>

record 'j folly_json =
  parse :: "string \<Rightarrow> 'j option"
  field :: "'j \<Rightarrow> string \<Rightarrow> 'j option"
  is_str :: "'j \<Rightarrow> bool"
  as_str :: "'j \<Rightarrow> string option"
  not_null :: "'j \<Rightarrow> bool"

text \<open>
  The message of a session: what was assigned before an exception stays assigned, so each
  assignment is a step of its own and the result is the state at the end or at the throw.
\<close>

definition session_message :: "'j folly_json \<Rightarrow> string \<Rightarrow> SessionInfo \<Rightarrow> SessionInfo" where
  "session_message J msg s =
     (case parse J msg of
        None \<Rightarrow> s
      | Some d \<Rightarrow> (case field J d ''room_id'' of
          None \<Rightarrow> s
        | Some r \<Rightarrow>
            let s1 = (if is_str J r then map_option (\<lambda>v. s\<lparr>se_room_id := v\<rparr>) (as_str J r) else Some s)
            in case s1 of
                 None \<Rightarrow> s
               | Some s1 \<Rightarrow> (case field J d ''room_type'' of
                   None \<Rightarrow> s1
                 | Some t \<Rightarrow>
                     if is_str J t then (case as_str J t of None \<Rightarrow> s1 | Some v \<Rightarrow> s1\<lparr>se_room_type := v\<rparr>)
                     else s1)))"

definition stream_message :: "'j folly_json \<Rightarrow> string \<Rightarrow> StreamInfo \<Rightarrow> StreamInfo" where
  "stream_message J msg i =
     (case parse J msg of
        None \<Rightarrow> i
      | Some d \<Rightarrow> (case (field J d ''user_name'', field J d ''user_id'') of
          (Some n, Some u) \<Rightarrow>
            let i1 = (if is_str J n \<and> is_str J u
                      then (case (as_str J n, as_str J u) of
                              (Some nv, Some uv) \<Rightarrow> Some (stream_SetMoreInfo nv uv i) | _ \<Rightarrow> None)
                      else Some i)
            in (case i1 of
                  None \<Rightarrow> i
                | Some i1 \<Rightarrow> (case field J d ''origin_user_id'' of
                    None \<Rightarrow> i1
                  | Some g \<Rightarrow>
                      if not_null J g then (case as_str J g of None \<Rightarrow> i1 | Some v \<Rightarrow> SetOriginUserID v i1)
                      else i1))
        | _ \<Rightarrow> i))"

definition SetMoreInfo :: "'j folly_json \<Rightarrow> int \<Rightarrow> string \<Rightarrow> SessionInfo \<Rightarrow> SessionInfo" where
  "SetMoreInfo J stid msg s =
     (case session_GetStreamInfoById stid s of
        None \<Rightarrow> session_message J msg s
      | Some _ \<Rightarrow> change_stream stid (stream_message J msg) s)"

definition session_SetCustom :: "int \<Rightarrow> string \<Rightarrow> string \<Rightarrow> SessionInfo \<Rightarrow> SessionInfo" where
  "session_SetCustom stid k v s = change_stream stid (SetCustomInfo k v) s"

definition session_SetCustom_int :: "int \<Rightarrow> string \<Rightarrow> int \<Rightarrow> SessionInfo \<Rightarrow> SessionInfo" where
  "session_SetCustom_int stid k v s = session_SetCustom stid k (to_string v) s"

definition session_SetCustom_unsigned :: "int \<Rightarrow> string \<Rightarrow> u32 \<Rightarrow> SessionInfo \<Rightarrow> SessionInfo" where
  "session_SetCustom_unsigned stid k v s = session_SetCustom stid k (to_string_u v) s"

definition session_SetCustom_status :: "int \<Rightarrow> string \<Rightarrow> NETWORK_STATUS \<Rightarrow> SessionInfo \<Rightarrow> SessionInfo" where
  "session_SetCustom_status stid k v s = session_SetCustom stid k (status_name v) s"

definition session_AppendCustom :: "int \<Rightarrow> string \<Rightarrow> string \<Rightarrow> SessionInfo \<Rightarrow> SessionInfo" where
  "session_AppendCustom stid k v s = change_stream stid (AppendCustomInfo k v) s"

definition ChangeStateToDestoryed :: "int \<Rightarrow> SessionInfo \<Rightarrow> SessionInfo" where
  "ChangeStateToDestoryed now s =
     (if se_status s = SESSION_STATUS_DESTORYED then s
      else s\<lparr>se_status := SESSION_STATUS_DESTORYED, se_destroyed_time := now\<rparr>)"

definition StreamCountTotal :: "SessionInfo \<Rightarrow> nat" where
  "StreamCountTotal s = length (se_streams s)"

definition GetStreamsId :: "SessionInfo \<Rightarrow> int list" where
  "GetStreamsId s = map fst (se_streams s)"

definition GetLiveStreamsId :: "SessionInfo \<Rightarrow> int list" where
  "GetLiveStreamsId s = map fst (filter (\<lambda>(_, i). si_status i = STREAM_STATUS_LIVE) (se_streams s))"

definition HasLiveStreams :: "SessionInfo \<Rightarrow> bool" where
  "HasLiveStreams s \<longleftrightarrow> length (GetLiveStreamsId s) \<noteq> 0"

definition ComparatorStream :: "int \<times> StreamInfo \<Rightarrow> int \<times> StreamInfo \<Rightarrow> bool" where
  "ComparatorStream a b =
     (if si_status (snd a) = STREAM_STATUS_LEAVE \<and> si_status (snd b) = STREAM_STATUS_LIVE then False
      else if si_status (snd a) = STREAM_STATUS_LIVE \<and> si_status (snd b) = STREAM_STATUS_LEAVE then True
      else if si_status (snd a) = STREAM_STATUS_LEAVE \<and> si_status (snd b) = STREAM_STATUS_LEAVE
      then si_leave_time (snd a) > si_leave_time (snd b)
      else si_create_time (snd a) > si_create_time (snd b))"

definition session_head :: "(int \<Rightarrow> string) \<Rightarrow> SessionInfo \<Rightarrow> string" where
  "session_head date s =
     ''{ session_id : '' @ to_string (se_id s) @ '' , room_id : '' @ quoted (c_str (se_room_id s)) @
     '' , room_type : '' @ quoted (c_str (se_room_type s)) @ '' , status : '' @ quoted (c_str (se_status s)) @
     '' , create_time : '' @ quoted (c_str (date (se_create_time s))) @
     '', destory_time : '' @ quoted (if se_status s = SESSION_STATUS_DESTORYED then c_str (date (se_destroyed_time s)) else []) @
     '', stream_infos: [''"

text \<open>The loop that appends every string that is not empty, and a comma.\<close>

definition add_items :: "string list \<Rightarrow> string \<Rightarrow> string" where
  "add_items xs s = fold (\<lambda>x s. if x = [] then s else s @ x @ '','') xs s"

definition session_GetAsJson ::
    "((int \<times> StreamInfo) list \<Rightarrow> (int \<times> StreamInfo) list) \<Rightarrow> (int \<Rightarrow> string) \<Rightarrow> string \<Rightarrow> SessionInfo \<Rightarrow> string" where
  "session_GetAsJson srt date room_id s =
     (if room_id \<noteq> [] \<and> room_id \<noteq> ''all'' \<and> se_room_id s \<noteq> room_id then []
      else if room_id = [] \<and> se_status s = SESSION_STATUS_DESTORYED then []
      else let show_leave = (room_id \<noteq> [])
           in chop_comma (add_items (map (\<lambda>(_, i). stream_GetAsJson date show_leave i) (srt (se_streams s))) (session_head date s)) @ '']}'')"

definition session_GetStreamAsJson :: "(int \<Rightarrow> string) \<Rightarrow> int \<Rightarrow> SessionInfo \<Rightarrow> string" where
  "session_GetStreamAsJson date stid s =
     chop_comma (session_head date s @
       (case session_GetStreamInfoById stid s of None \<Rightarrow> [] | Some i \<Rightarrow> stream_GetAsJson date True i @ '','')) @ '']}''"

section \<open>The manager\<close>

record SessionInfoManager =
  sessions :: "SessionInfo list"
  current_session_count :: int
  total_session_count :: int

definition SessionInfoManager_new :: SessionInfoManager where
  "SessionInfoManager_new = \<lparr>sessions = [], current_session_count = 0, total_session_count = 0\<rparr>"

definition SessionComparator :: "SessionInfo \<Rightarrow> SessionInfo \<Rightarrow> bool" where
  "SessionComparator a b =
     (if se_status a = SESSION_STATUS_DESTORYED \<and> se_status b = SESSION_STATUS_LIVE then False
      else if se_status a = SESSION_STATUS_LIVE \<and> se_status b = SESSION_STATUS_DESTORYED then True
      else if se_status a = SESSION_STATUS_DESTORYED \<and> se_status b = SESSION_STATUS_DESTORYED
      then se_destroyed_time a > se_destroyed_time b
      else se_create_time a > se_create_time b)"

definition GetSessionInfoById :: "int \<Rightarrow> SessionInfoManager \<Rightarrow> SessionInfo option" where
  "GetSessionInfoById sesid m = find (\<lambda>s. se_id s = sesid) (sessions m)"

text \<open>Changing the first session with an id, through the pointer that the lookup returned.\<close>

fun change_first :: "int \<Rightarrow> (SessionInfo \<Rightarrow> SessionInfo) \<Rightarrow> SessionInfo list \<Rightarrow> SessionInfo list" where
  "change_first sesid f [] = []"
| "change_first sesid f (s # ss) = (if se_id s = sesid then f s # ss else s # change_first sesid f ss)"

definition change_session :: "int \<Rightarrow> (SessionInfo \<Rightarrow> SessionInfo) \<Rightarrow> SessionInfoManager \<Rightarrow> SessionInfoManager" where
  "change_session sesid f m = m\<lparr>sessions := change_first sesid f (sessions m)\<rparr>"

text \<open>\<open>while (session_vector_.size () >= MAX_SAVE_SESSION_COUNT) session_vector_.pop_back ()\<close>\<close>

function drop_excess :: "SessionInfo list \<Rightarrow> SessionInfo list" where
  "drop_excess v = (if length v \<ge> MAX_SAVE_SESSION_COUNT then drop_excess (butlast v) else v)"
  by pat_completeness auto
termination
  by (relation "measure length") (auto simp: MAX_SAVE_SESSION_COUNT_def)

declare drop_excess.simps [simp del]

definition AddSession :: "int \<Rightarrow> int \<Rightarrow> int \<Rightarrow> SessionInfoManager \<Rightarrow> SessionInfoManager" where
  "AddSession garbage now sesid m =
     (if GetSessionInfoById sesid m \<noteq> None then m
      else m\<lparr>current_session_count := current_session_count m + 1, total_session_count := total_session_count m + 1,
             sessions := SessionInfo_new garbage now sesid # drop_excess (sessions m)\<rparr>)"

definition RemoveSession ::
    "(SessionInfo list \<Rightarrow> SessionInfo list) \<Rightarrow> int \<Rightarrow> int \<Rightarrow> SessionInfoManager \<Rightarrow> bool \<times> SessionInfoManager" where
  "RemoveSession srt now sesid m =
     (case GetSessionInfoById sesid m of
        None \<Rightarrow> (False, m)
      | Some s \<Rightarrow>
          (True, m\<lparr>current_session_count :=
                     (if se_status s = SESSION_STATUS_LIVE then current_session_count m - 1 else current_session_count m),
                   sessions := srt (change_first sesid (ChangeStateToDestoryed now) (sessions m))\<rparr>))"

definition manager_GetAsJson ::
    "((int \<times> StreamInfo) list \<Rightarrow> (int \<times> StreamInfo) list) \<Rightarrow> (int \<Rightarrow> string) \<Rightarrow> string \<Rightarrow> SessionInfoManager \<Rightarrow> string" where
  "manager_GetAsJson srt date room_id m =
     chop_comma (add_items (map (session_GetAsJson srt date room_id) (sessions m)) ''['') @ '']''"

definition manager_GetStreamAsJson :: "(int \<Rightarrow> string) \<Rightarrow> int \<Rightarrow> int \<Rightarrow> SessionInfoManager \<Rightarrow> string" where
  "manager_GetStreamAsJson date sesid stid m =
     chop_comma (''['' @ (case GetSessionInfoById sesid m of None \<Rightarrow> []
                          | Some s \<Rightarrow> session_GetStreamAsJson date stid s @ '','')) @ '']''"

text \<open>An effect of \<open>Network_Status\<close>, carried out on the session of the stream.\<close>

fun report_info :: "custom_info \<Rightarrow> SessionInfo \<Rightarrow> SessionInfo" where
  "report_info (AppendStreamCustomInfo sid k v) s = session_AppendCustom (sint sid) k v s"
| "report_info (SetStreamCustomInfo sid k v) s = session_SetCustom (sint sid) k v s"

section \<open>Sorting\<close>

text \<open>
  The contract of \<open>std::sort\<close>: a permutation in which no element comes after one that it should
  precede, provided that the comparison is a strict weak order on the elements, those with
  \<open>ok\<close>.  That both comparisons are is shown by interpreting \<open>strict_weak\<close>.
\<close>

definition sorts :: "('a \<Rightarrow> bool) \<Rightarrow> ('a \<Rightarrow> 'a \<Rightarrow> bool) \<Rightarrow> ('a list \<Rightarrow> 'a list) \<Rightarrow> bool" where
  "sorts ok lt srt \<longleftrightarrow>
     (\<forall>xs. list_all ok xs \<longrightarrow> mset (srt xs) = mset xs \<and> sorted_wrt (\<lambda>x y. \<not> lt y x) (srt xs))"

text \<open>A sorting function, for examples.\<close>

fun place :: "('a \<Rightarrow> 'a \<Rightarrow> bool) \<Rightarrow> 'a \<Rightarrow> 'a list \<Rightarrow> 'a list" where
  "place lt x [] = [x]"
| "place lt x (y # ys) = (if lt y x then y # place lt x ys else x # y # ys)"

fun sort_by :: "('a \<Rightarrow> 'a \<Rightarrow> bool) \<Rightarrow> 'a list \<Rightarrow> 'a list" where
  "sort_by lt [] = []"
| "sort_by lt (x # xs) = place lt x (sort_by lt xs)"

locale strict_weak =
  fixes ok :: "'a \<Rightarrow> bool"
    and lt :: "'a \<Rightarrow> 'a \<Rightarrow> bool"
  assumes sw_asym: "ok x \<Longrightarrow> ok y \<Longrightarrow> lt x y \<Longrightarrow> \<not> lt y x"
    and sw_trans: "ok x \<Longrightarrow> ok y \<Longrightarrow> ok z \<Longrightarrow> \<not> lt x y \<Longrightarrow> \<not> lt y z \<Longrightarrow> \<not> lt x z"
begin

lemma place_mset: "mset (place lt x ys) = add_mset x (mset ys)"
  by (induction ys) simp_all

lemma place_set: "set (place lt x ys) = insert x (set ys)"
  using place_mset [of x ys] by (metis set_mset_add_mset_insert set_mset_mset)

lemma place_sorted:
  "ok x \<Longrightarrow> list_all ok ys \<Longrightarrow> sorted_wrt (\<lambda>x y. \<not> lt y x) ys \<Longrightarrow> sorted_wrt (\<lambda>x y. \<not> lt y x) (place lt x ys)"
proof (induction ys)
  case (Cons y ys)
  have y: "ok y" "list_all ok ys" "\<forall>z\<in>set ys. \<not> lt z y" "sorted_wrt (\<lambda>x y. \<not> lt y x) ys"
    using Cons.prems(2,3) by simp_all
  show ?case
  proof (cases "lt y x")
    case True
    then have "\<not> lt x y" using sw_asym Cons.prems(1) y(1) by blast
    then show ?thesis using True Cons.IH [OF Cons.prems(1) y(2,4)] y(3) by (simp add: place_set)
  next
    case False
    have "\<not> lt z x" if "z \<in> set ys" for z
      using sw_trans [of z y x] that y Cons.prems(1) False by (simp add: list_all_iff)
    then show ?thesis using False y by simp
  qed
qed simp

lemma sort_by_sorts: "sorts ok lt (sort_by lt)"
proof -
  have "mset (sort_by lt xs) = mset xs \<and> sorted_wrt (\<lambda>x y. \<not> lt y x) (sort_by lt xs)" if "list_all ok xs" for xs
    using that
  proof (induction xs)
    case (Cons x xs)
    then have "list_all ok (sort_by lt xs)" using mset_eq_setD [of "sort_by lt xs" xs] by (simp add: list_all_iff)
    then show ?case using Cons by (simp add: place_mset place_sorted)
  qed simp
  then show ?thesis by (simp add: sorts_def)
qed

end

abbreviation destroyed :: "SessionInfo \<Rightarrow> bool" where
  "destroyed s \<equiv> se_status s = SESSION_STATUS_DESTORYED"

definition status_ok :: "SessionInfo \<Rightarrow> bool" where
  "status_ok s \<longleftrightarrow> se_status s = SESSION_STATUS_LIVE \<or> destroyed s"

definition stream_ok :: "int \<times> StreamInfo \<Rightarrow> bool" where
  "stream_ok p \<longleftrightarrow> si_status (snd p) = STREAM_STATUS_LIVE \<or> si_status (snd p) = STREAM_STATUS_LEAVE"

lemma status_differ:
  "SESSION_STATUS_LIVE \<noteq> SESSION_STATUS_DESTORYED" "STREAM_STATUS_LIVE \<noteq> STREAM_STATUS_LEAVE"
  by (simp_all add: session_consts)

lemma session_order:
  assumes "status_ok a" "status_ok b"
  shows "SessionComparator a b \<longleftrightarrow>
    (if destroyed a = destroyed b
     then (if destroyed a then se_destroyed_time a > se_destroyed_time b else se_create_time a > se_create_time b)
     else destroyed b)"
  using assms status_differ by (auto simp: status_ok_def SessionComparator_def)

lemma stream_order:
  assumes "stream_ok a" "stream_ok b"
  shows "ComparatorStream a b \<longleftrightarrow>
    (let left = (\<lambda>p. si_status (snd p) = STREAM_STATUS_LEAVE) in
     if left a = left b
     then (if left a then si_leave_time (snd a) > si_leave_time (snd b) else si_create_time (snd a) > si_create_time (snd b))
     else left b)"
  using assms status_differ by (auto simp: stream_ok_def ComparatorStream_def)

interpretation sess: strict_weak status_ok SessionComparator
  by unfold_locales (auto simp: session_order split: if_splits)

interpretation strm: strict_weak stream_ok ComparatorStream
  by unfold_locales (auto simp: stream_order Let_def split: if_splits)

section \<open>Sessions are counted\<close>

definition live_count :: "SessionInfo list \<Rightarrow> nat" where
  "live_count ss = length (filter (\<lambda>s. se_status s = SESSION_STATUS_LIVE) ss)"

definition sessions_inv :: "SessionInfoManager \<Rightarrow> bool" where
  "sessions_inv m \<longleftrightarrow> distinct (map se_id (sessions m)) \<and> length (sessions m) \<le> MAX_SAVE_SESSION_COUNT \<and>
     (\<forall>s\<in>set (sessions m). status_ok s) \<and> sorted_wrt (\<lambda>x y. destroyed x \<longrightarrow> destroyed y) (sessions m) \<and>
     current_session_count m = int (live_count (sessions m))"

lemma drop_excess_take: "drop_excess v = take (MAX_SAVE_SESSION_COUNT - 1) v"
proof (induction v rule: drop_excess.induct)
  case (1 v)
  show ?case
  proof (cases "length v \<ge> MAX_SAVE_SESSION_COUNT")
    case True
    then have "drop_excess v = take (MAX_SAVE_SESSION_COUNT - 1) (butlast v)"
      using 1 by (subst drop_excess.simps) simp
    also have "\<dots> = take (MAX_SAVE_SESSION_COUNT - 1) v"
      using True by (auto simp: butlast_conv_take min_def MAX_SAVE_SESSION_COUNT_def)
    finally show ?thesis .
  qed (subst drop_excess.simps, simp)
qed

lemma find_id_None: "find (\<lambda>s. se_id s = k) ss = None \<longleftrightarrow> k \<notin> se_id ` set ss"
  by (auto simp: find_None_iff)

lemma live_prefix:
  assumes "sorted_wrt (\<lambda>x y. destroyed x \<longrightarrow> destroyed y) ss" "\<forall>s\<in>set ss. status_ok s" "live_count ss \<le> n"
  shows "live_count (take n ss) = live_count ss"
  using assms
proof (induction ss arbitrary: n)
  case (Cons s ss)
  show ?case
  proof (cases "destroyed s")
    case True
    then have "\<forall>x\<in>set (s # ss). \<not> se_status x = SESSION_STATUS_LIVE" using Cons.prems(1) status_differ by auto
    then have "live_count (s # ss) = 0" "live_count (take n (s # ss)) = 0"
      using in_set_takeD [of _ n "s # ss"] by (simp add: live_count_def filter_empty_conv, unfold live_count_def length_0_conv filter_empty_conv, blast)
    then show ?thesis by simp
  next
    case False
    then have live: "se_status s = SESSION_STATUS_LIVE" using Cons.prems(2) by (auto simp: status_ok_def)
    then obtain k where "n = Suc k" using Cons.prems(3) by (cases n) (auto simp: live_count_def)
    then show ?thesis using Cons live by (auto simp: live_count_def)
  qed
qed (simp add: live_count_def)

lemma add_inv:
  assumes "sessions_inv m" "GetSessionInfoById sesid m \<noteq> None \<or> live_count (sessions m) < MAX_SAVE_SESSION_COUNT"
  shows "sessions_inv (AddSession garbage now sesid m)"
proof (cases "GetSessionInfoById sesid m = None")
  case True
  let ?t = "take (MAX_SAVE_SESSION_COUNT - 1) (sessions m)"
  have "live_count ?t = live_count (sessions m)"
    using assms True by (intro live_prefix) (auto simp: sessions_inv_def)
  moreover have "sesid \<notin> se_id ` set ?t"
    using True set_take_subset by (fastforce simp: GetSessionInfoById_def find_id_None)
  moreover have "distinct (map se_id ?t)"
    using assms(1) distinct_take [of "map se_id (sessions m)" "MAX_SAVE_SESSION_COUNT - 1"] by (simp add: sessions_inv_def take_map)
  moreover have "sorted_wrt (\<lambda>x y. destroyed x \<longrightarrow> destroyed y) ?t"
    using assms(1) by (simp add: sessions_inv_def sorted_wrt_take)
  moreover have "\<forall>s\<in>set ?t. status_ok s" using assms(1) by (auto simp: sessions_inv_def dest: in_set_takeD)
  ultimately show ?thesis
    using assms(1) True status_differ
    by (simp add: AddSession_def drop_excess_take sessions_inv_def SessionInfo_new_def status_ok_def live_count_def
        MAX_SAVE_SESSION_COUNT_def)
qed (use assms(1) in \<open>simp add: AddSession_def\<close>)

lemma change_first_ids:
  "(\<And>s. se_id (f s) = se_id s) \<Longrightarrow> map se_id (change_first k f ss) = map se_id ss"
  by (induction ss) auto

lemma change_first_set: "x \<in> set (change_first k f ss) \<Longrightarrow> x \<in> set ss \<or> (\<exists>s\<in>set ss. x = f s)"
  by (induction ss) (auto split: if_splits)

lemma change_first_length: "length (change_first k f ss) = length ss"
  by (induction ss) auto

lemma destroy_count:
  assumes "find (\<lambda>s. se_id s = k) ss = Some x" "status_ok x"
  shows "int (live_count (change_first k (ChangeStateToDestoryed now) ss)) =
    int (live_count ss) - (if se_status x = SESSION_STATUS_LIVE then 1 else 0)"
  using assms status_differ
  by (induction ss) (auto simp: live_count_def ChangeStateToDestoryed_def status_ok_def split: if_splits)

lemma remove_inv:
  assumes "sessions_inv m" "sorts status_ok SessionComparator srt"
  shows "sessions_inv (snd (RemoveSession srt now sesid m))"
proof (cases "GetSessionInfoById sesid m")
  case None
  then show ?thesis using assms(1) by (simp add: RemoveSession_def)
next
  case (Some s)
  let ?v = "change_first sesid (ChangeStateToDestoryed now) (sessions m)"
  have s: "status_ok s" using Some assms(1) by (auto simp: GetSessionInfoById_def sessions_inv_def find_Some_iff)
  have "status_ok x" if "x \<in> set ?v" for x
    using change_first_set [OF that] assms(1)
    by (elim disjE bexE) (auto simp: sessions_inv_def status_ok_def ChangeStateToDestoryed_def)
  then have ok': "list_all status_ok ?v" by (simp add: list_all_iff)
  have m: "mset (srt ?v) = mset ?v" and o: "sorted_wrt (\<lambda>x y. \<not> SessionComparator y x) (srt ?v)"
    using assms(2) ok' by (simp_all add: sorts_def)
  have ids: "map se_id ?v = map se_id (sessions m)" by (intro change_first_ids) (simp add: ChangeStateToDestoryed_def)
  have ok: "\<forall>x\<in>set (srt ?v). status_ok x" using mset_eq_setD [OF m] ok' by (simp add: list_all_iff)
  have "sorted_wrt (\<lambda>x y. destroyed x \<longrightarrow> destroyed y) (srt ?v)"
  proof (rule sorted_wrt_mono_rel [OF _ o])
    fix x y assume "x \<in> set (srt ?v)" "y \<in> set (srt ?v)" "\<not> SessionComparator y x"
    then show "destroyed x \<longrightarrow> destroyed y" using ok session_order [of y x] by (auto split: if_splits)
  qed
  moreover have "live_count (srt ?v) = live_count ?v"
    using arg_cong [OF m, of "\<lambda>M. size (filter_mset (\<lambda>s. se_status s = SESSION_STATUS_LIVE) M)"]
    by (simp add: live_count_def flip: mset_filter)
  moreover have "mset (map se_id (srt ?v)) = mset (map se_id (sessions m))"
    by (simp only: mset_map m flip: ids)
  then have "distinct (map se_id (srt ?v)) = distinct (map se_id (sessions m))" by (rule mset_eq_imp_distinct_iff)
  then have "distinct (map se_id (srt ?v))" using assms(1) by (simp add: sessions_inv_def)
  moreover have "length (srt ?v) = length (sessions m)"
    using mset_eq_length [OF m] by (simp add: change_first_length)
  ultimately show ?thesis
    using Some assms(1) ok destroy_count [of sesid "sessions m" s now] s
    by (simp add: RemoveSession_def GetSessionInfoById_def sessions_inv_def)
qed

text \<open>
  The managers that the server can reach: sessions are added and removed in any order and their
  entries changed through the pointers given out; \<open>room\<close> says that a session is only added
  while fewer than 50 live ones are registered.
\<close>

inductive registry :: "(SessionInfo list \<Rightarrow> SessionInfo list) \<Rightarrow> SessionInfoManager \<Rightarrow> bool"
  for srt where
  start: "registry srt SessionInfoManager_new"
| add: "registry srt m \<Longrightarrow> live_count (sessions m) < MAX_SAVE_SESSION_COUNT \<Longrightarrow>
    registry srt (AddSession garbage now sesid m)"
| remove: "registry srt m \<Longrightarrow> registry srt (snd (RemoveSession srt now sesid m))"
| change: "registry srt m \<Longrightarrow> (\<And>s. se_id (f s) = se_id s \<and> se_status (f s) = se_status s) \<Longrightarrow>
    registry srt (change_session sesid f m)"

inductive_cases registryE: "registry srt m"

lemma change_first_status:
  assumes "\<And>s. se_id (f s) = se_id s \<and> se_status (f s) = se_status s"
  shows "map (\<lambda>s. (se_id s, se_status s)) (change_first k f ss) = map (\<lambda>s. (se_id s, se_status s)) ss"
  using assms by (induction ss) auto

lemma live_count_map: "live_count ss = length (filter (\<lambda>(_, st). st = SESSION_STATUS_LIVE) (map (\<lambda>s. (se_id s, se_status s)) ss))"
  by (induction ss) (simp_all add: live_count_def)

lemma inv_by_status:
  "sessions_inv m \<longleftrightarrow>
    (let ps = map (\<lambda>s. (se_id s, se_status s)) (sessions m) in
     distinct (map fst ps) \<and> length ps \<le> MAX_SAVE_SESSION_COUNT \<and>
     (\<forall>(_, st)\<in>set ps. st = SESSION_STATUS_LIVE \<or> st = SESSION_STATUS_DESTORYED) \<and>
     sorted_wrt (\<lambda>p q. snd p = SESSION_STATUS_DESTORYED \<longrightarrow> snd q = SESSION_STATUS_DESTORYED) ps \<and>
     current_session_count m = int (length (filter (\<lambda>(_, st). st = SESSION_STATUS_LIVE) ps)))"
  by (simp add: sessions_inv_def live_count_map status_ok_def Let_def sorted_wrt_map comp_def case_prod_unfold
      del: filter_map)

lemma registry_inv:
  assumes "registry srt m" "sorts status_ok SessionComparator srt"
  shows "sessions_inv m"
  using assms(1)
proof induction
  case start
  show ?case by (simp add: sessions_inv_def SessionInfoManager_new_def live_count_def)
next
  case (add m garbage now sesid)
  then show ?case by (intro add_inv) simp_all
next
  case (remove m now sesid)
  then show ?case using assms(2) by (intro remove_inv)
next
  case (change m f sesid)
  then show ?case
    using change_first_status [of f sesid "sessions m"] unfolding inv_by_status by (simp add: change_session_def)
qed



text \<open>
  With 50 live sessions registered, adding another one drops a live session from the list without
  taking it from the count, and removing the dropped one does nothing: the count stays too high.
\<close>

lemma session_count_leaks:
  assumes "sessions_inv m" "live_count (sessions m) = 50" "GetSessionInfoById new m = None" "new \<noteq> se_id (last (sessions m))"
  shows "RemoveSession srt now (se_id (last (sessions m))) (AddSession garbage now' new m) = (False, AddSession garbage now' new m) \<and>
    current_session_count (AddSession garbage now' new m) = 51"
proof -
  have len: "length (sessions m) = 50"
    using assms(1,2) length_filter_le [of "\<lambda>s. se_status s = SESSION_STATUS_LIVE" "sessions m"]
    by (simp add: sessions_inv_def live_count_def MAX_SAVE_SESSION_COUNT_def)
  then have b: "take 49 (sessions m) = butlast (sessions m)" "sessions m \<noteq> []" by (auto simp: butlast_conv_take)
  have "distinct (map se_id (butlast (sessions m) @ [last (sessions m)]))"
    using assms(1) b(2) by (simp add: sessions_inv_def)
  then have "se_id (last (sessions m)) \<notin> se_id ` set (butlast (sessions m))" by simp
  then have "find (\<lambda>s. se_id s = se_id (last (sessions m))) (butlast (sessions m)) = None" by (simp add: find_id_None)
  then show ?thesis
    using assms b(1) by (simp add: RemoveSession_def AddSession_def GetSessionInfoById_def drop_excess_take
        MAX_SAVE_SESSION_COUNT_def SessionInfo_new_def sessions_inv_def)
qed

section \<open>Reported values\<close>

lemma keep_last:
  "drop (length (drop (length xs - n) xs @ vs) - n) (drop (length xs - n) xs @ vs) = drop (length (xs @ vs) - n) (xs @ vs)"
proof -
  have e: "drop (length xs - n) xs @ vs = drop (length xs - n) (xs @ vs)" by simp
  have "length (drop (length xs - n) (xs @ vs)) - n + (length xs - n) = length (xs @ vs) - n"
    by (cases "length xs \<le> n") simp_all
  then show ?thesis unfolding e drop_drop by (simp only:)
qed

lemma append_history:
  assumes "sm_sorted (<) (si_custom i)"
  shows "sm_sorted (<) (si_custom (fold (AppendCustomInfo k) vs i)) \<and>
    (vs \<noteq> [] \<longrightarrow> sm_find (<) k (si_custom (fold (AppendCustomInfo k) vs i)) =
      Some (let all = (case sm_find (<) k (si_custom i) of None \<Rightarrow> [] | Some ws \<Rightarrow> ws) @ vs in drop (length all - MAX_VALUE_SIZE) all))"
  using assms
proof (induction vs arbitrary: i)
  case (Cons v vs)
  let ?ws = "case sm_find (<) k (si_custom i) of None \<Rightarrow> [] | Some ws \<Rightarrow> ws"
  let ?i = "AppendCustomInfo k v i"
  have f: "sm_find (<) k (si_custom ?i) = Some (drop (Suc (length ?ws) - MAX_VALUE_SIZE) (?ws @ [v]))" and s: "sm_sorted (<) (si_custom ?i)"
    using Cons.prems
    by (auto simp: AppendCustomInfo_def sm_at_def Let_def strk.find_set strk.sorted_set MAX_VALUE_SIZE_def split: option.splits)
  show ?case
  proof (cases "vs = []")
    case True
    then show ?thesis using f s by simp
  next
    case False
    let ?d = "drop (Suc (length ?ws) - MAX_VALUE_SIZE) (?ws @ [v])"
    have "drop (length (?d @ vs) - MAX_VALUE_SIZE) (?d @ vs) = drop (length (?ws @ v # vs) - MAX_VALUE_SIZE) (?ws @ v # vs)"
      using keep_last [of "?ws @ [v]" MAX_VALUE_SIZE vs] by simp
    then show ?thesis using Cons.IH [OF s] f False by (simp add: Let_def)
  qed
qed simp

text \<open>A key that is reported by appending: the latest hundred values, oldest first.\<close>

lemma change_stream_find:
  assumes "sm_sorted (<) (se_streams s)" "sm_find (<) stid (se_streams s) = Some i"
  shows "sm_sorted (<) (se_streams (change_stream stid f s)) \<and>
    sm_find (<) stid (se_streams (change_stream stid f s)) = Some (f i)"
  using assms by (simp add: change_stream_def session_GetStreamInfoById_def intk.find_set intk.sorted_set)

text \<open>
  What the network statistics report about a stream under one key is kept in the order of
  the reports, the latest hundred of them; a stream that was never added gets nothing.
\<close>

theorem reported_history:
  assumes "sm_sorted (<) (se_streams s)" "sm_find (<) (sint sid) (se_streams s) = Some i"
    and "sm_sorted (<) (si_custom i)" "sm_find (<) k (si_custom i) = None" "vs \<noteq> []"
  shows "\<exists>i'. sm_find (<) (sint sid) (se_streams (fold (\<lambda>v. report_info (AppendStreamCustomInfo sid k v)) vs s)) = Some i' \<and>
    sm_find (<) k (si_custom i') = Some (drop (length vs - 100) vs)"
proof -
  have run: "sm_find (<) (sint sid) (se_streams (fold (\<lambda>v. report_info (AppendStreamCustomInfo sid k v)) vs s)) =
      Some (fold (AppendCustomInfo k) vs i)"
    if "sm_sorted (<) (se_streams s)" "sm_find (<) (sint sid) (se_streams s) = Some i" for s i
    using that
  proof (induction vs arbitrary: s i)
    case (Cons v vs)
    then show ?case
      using change_stream_find [OF Cons.prems, of "AppendCustomInfo k v"] by (simp add: session_AppendCustom_def)
  qed simp
  show ?thesis
    using run [OF assms(1,2)] append_history [OF assms(3), of k vs] assms(4,5) by (simp add: MAX_VALUE_SIZE_def)
qed

theorem reported_history_witness:
  "\<exists>i'. sm_find (<) 7 (se_streams (fold (\<lambda>v. report_info (AppendStreamCustomInfo 7 ''rtt'' v)) [''30'', ''20'']
      (AddStream 0 100 7 (SessionInfo_new 0 90 1)))) = Some i' \<and> sm_find (<) ''rtt'' (si_custom i') = Some [''30'', ''20'']"
proof -
  let ?s = "AddStream 0 100 7 (SessionInfo_new 0 90 1)"
  have "sint (7 :: u32) = 7" by simp
  moreover have "sm_sorted (<) (se_streams ?s)" "sm_find (<) (sint (7 :: u32)) (se_streams ?s) = Some (StreamInfo_new 0 100 7)"
    by (simp_all add: AddStream_def session_GetStreamInfoById_def SessionInfo_new_def sm_sorted_def)
  moreover have "sm_sorted (<) (si_custom (StreamInfo_new 0 100 7))" "sm_find (<) ''rtt'' (si_custom (StreamInfo_new 0 100 7)) = None"
    by (simp_all add: StreamInfo_new_def sm_sorted_def)
  ultimately show ?thesis
    using reported_history [of ?s 7 "StreamInfo_new 0 100 7" "''rtt''" "[''30'', ''20'']"] by simp
qed

section \<open>The status page\<close>

fun join :: "string list \<Rightarrow> string" where
  "join [] = []"
| "join [x] = x"
| "join (x # y # xs) = x @ '','' @ join (y # xs)"

lemma add_items_acc: "add_items xs s = s @ concat (map (\<lambda>x. x @ '','') (filter (\<lambda>x. x \<noteq> []) xs))"
  by (induction xs arbitrary: s) (auto simp: add_items_def)

lemma chop_concat: "xs \<noteq> [] \<Longrightarrow> butlast (concat (map (\<lambda>x. x @ '','') xs)) = join xs"
  by (induction xs rule: join.induct) (auto simp: butlast_append)

lemma items_joined:
  assumes "s \<noteq> []" "last s \<noteq> CHR '',''"
  shows "chop_comma (add_items xs s) = s @ join (filter (\<lambda>x. x \<noteq> []) xs)"
proof (cases "filter (\<lambda>x. x \<noteq> []) xs = []")
  case True
  then show ?thesis using assms by (simp add: add_items_acc chop_comma_def)
next
  case False
  let ?c = "concat (map (\<lambda>x. x @ '','') (filter (\<lambda>x. x \<noteq> []) xs))"
  obtain ys y where "filter (\<lambda>x. x \<noteq> []) xs = ys @ [y]" using False by (metis rev_exhaust)
  then have "?c \<noteq> []" "last ?c = CHR '',''" by simp_all
  then show ?thesis using chop_concat [OF False] by (simp add: add_items_acc chop_comma_def butlast_append)
qed

text \<open>
  The status page lists exactly the visible sessions in the order of the register, separated
  by single commas: the loop that appends a comma after each and removes the last one is the join
  of the strings that are not empty.  The same holds for the streams of a visible session.
\<close>

theorem status_page_joins:
  "manager_GetAsJson srt date room m =
    ''['' @ join (filter (\<lambda>x. x \<noteq> []) (map (session_GetAsJson srt date room) (sessions m))) @ '']'' \<and>
   session_GetAsJson srt date ''all'' s = session_head date s @
    join (map (\<lambda>(_, i). stream_GetAsJson date True i) (srt (se_streams s))) @ '']}''"
proof
  show "manager_GetAsJson srt date room m =
    ''['' @ join (filter (\<lambda>x. x \<noteq> []) (map (session_GetAsJson srt date room) (sessions m))) @ '']''"
    by (simp add: manager_GetAsJson_def items_joined)
  have visible: "filter (\<lambda>x. x \<noteq> []) (map (\<lambda>(_, i). stream_GetAsJson date True i) ps) = map (\<lambda>(_, i). stream_GetAsJson date True i) ps" for ps
    by (induction ps) (auto simp: stream_GetAsJson_def)
  have "session_head date s \<noteq> []" "last (session_head date s) \<noteq> CHR '',''"
    by (simp_all add: session_head_def quoted_def)
  then show "session_GetAsJson srt date ''all'' s = session_head date s @
    join (map (\<lambda>(_, i). stream_GetAsJson date True i) (srt (se_streams s))) @ '']}''"
    unfolding session_GetAsJson_def by (simp add: items_joined visible [unfolded case_prod_unfold] case_prod_unfold)
qed

end
