(* ===== verification/Rtp_Sender.thy ===== *)
theory Rtp_Sender
  imports Rtp_Packet_Queue Std_Heap
begin

text \<open>
  \<open>src/orbit/rtp_sender.{h,cc}\<close>: the queue of outgoing packets, a \<open>std::priority_queue\<close>, and the
  thread that writes them.  The transport is a handle; what the thread does to the outside is a list
  of effects.  One iteration of the thread is one step; whether the transport is ready is an
  argument.
\<close>

section \<open>Packets and their order\<close>

definition RETRANSMIT_PRIORITY :: int where "RETRANSMIT_PRIORITY = 5"
definition VIDEO_RTX_PRIORITY :: int where "VIDEO_RTX_PRIORITY = 2"
definition RTCP_PRIORITY :: int where "RTCP_PRIORITY = 5"
definition AUDIO_PRIORITY :: int where "AUDIO_PRIORITY = 6"
definition REMB_PRIORITY :: int where "REMB_PRIORITY = 8"
definition DEFAULT_PRIORITY :: int where "DEFAULT_PRIORITY = 10"

record RtpSendPacket =
  sp_priority :: int
  sp_seqn :: int
  sp_queue_ts :: int
  sp_transport :: nat
  sp_buf :: buffer
  sp_buf_size :: int

definition RtpSendPacketComparator :: "RtpSendPacket \<Rightarrow> RtpSendPacket \<Rightarrow> bool" where
  "RtpSendPacketComparator a b \<longleftrightarrow> (if sp_priority a > sp_priority b then True else sp_seqn a > sp_seqn b)"

record RtpSender =
  send_pq :: "RtpSendPacket list"
  sender_running :: bool

datatype send_effect =
    TransportWrite nat buffer int
  | FreeBuffer buffer
  | UpdateSenderBitrate int
  | Sleep

definition RtpSender_new :: RtpSender where
  "RtpSender_new = \<lparr>send_pq = [], sender_running = True\<rparr>"

section \<open>Operations\<close>

text \<open>\<open>malloc (len)\<close>, \<open>memcpy (buf, data, len)\<close>: a negative length and one that exceeds the data are
  undefined; so is reading a sequence number that is not in the copy.\<close>

definition WriteAndSend :: "int \<Rightarrow> nat \<Rightarrow> int \<Rightarrow> buffer \<Rightarrow> int \<Rightarrow> RtpSender \<Rightarrow> RtpSender option" where
  "WriteAndSend now transport priority dat len s = do {
     buf \<leftarrow> (if 0 \<le> len \<and> nat len \<le> length dat then Some (take (nat len) dat) else None);
     seqn \<leftarrow> getSeqNumber buf;
     let packet = \<lparr>sp_priority = priority, sp_seqn = uint seqn, sp_queue_ts = now, sp_transport = transport, sp_buf = buf, sp_buf_size = len\<rparr>;
     Some (s\<lparr>send_pq := pq_push RtpSendPacketComparator packet (send_pq s)\<rparr>) }"

text \<open>One iteration; both branches on the priority write, free, pop and count.\<close>

definition SendThreadLoop :: "bool \<Rightarrow> RtpSender \<Rightarrow> (RtpSender \<times> send_effect list) option" where
  "SendThreadLoop transport_ready s =
     (if \<not> sender_running s then Some (s, [])
      else if \<not> transport_ready \<or> send_pq s = [] then Some (s, [Sleep])
      else do {
        p \<leftarrow> pq_top (send_pq s);
        rest \<leftarrow> pq_pop RtpSendPacketComparator (send_pq s);
        Some (s\<lparr>send_pq := rest\<rparr>,
          [TransportWrite (sp_transport p) (sp_buf p) (sp_buf_size p), FreeBuffer (sp_buf p), UpdateSenderBitrate (sp_buf_size p)]) })"

fun clear_queue :: "nat \<Rightarrow> RtpSendPacket list \<Rightarrow> (RtpSendPacket list \<times> send_effect list) option" where
  "clear_queue 0 pq = Some (pq, [])"
| "clear_queue (Suc queue_size) pq = do {
     p \<leftarrow> pq_top pq;
     rest \<leftarrow> pq_pop RtpSendPacketComparator pq;
     (pq, es) \<leftarrow> clear_queue queue_size rest;
     Some (pq, FreeBuffer (sp_buf p) # es) }"

text \<open>The destructor, after the thread has ended.\<close>

definition RtpSender_delete :: "RtpSender \<Rightarrow> (RtpSender \<times> send_effect list) option" where
  "RtpSender_delete s = do {
     (pq, es) \<leftarrow> clear_queue (length (send_pq s)) (send_pq s);
     Some (s\<lparr>send_pq := pq, sender_running := False\<rparr>, es) }"

section \<open>Runs\<close>

datatype send_event = Hand int nat int buffer int | Loop bool

fun send_step :: "send_event \<Rightarrow> RtpSender \<Rightarrow> (RtpSender \<times> send_effect list) option" where
  "send_step (Hand now transport priority dat len) s =
     map_option (\<lambda>s. (s, [])) (WriteAndSend now transport priority dat len s)"
| "send_step (Loop ready) s = SendThreadLoop ready s"

fun send_run :: "send_event list \<Rightarrow> RtpSender \<Rightarrow> (RtpSender \<times> send_effect list) option" where
  "send_run [] s = Some (s, [])"
| "send_run (e # es) s = do {
     (s, a) \<leftarrow> send_step e s;
     (s, b) \<leftarrow> send_run es s;
     Some (s, a @ b) }"

text \<open>Datagrams that can be handed over, and what is handed over and written.\<close>

fun event_ok :: "send_event \<Rightarrow> bool" where
  "event_ok (Hand now transport priority dat len) \<longleftrightarrow> 4 \<le> len \<and> nat len \<le> length dat"
| "event_ok (Loop ready) \<longleftrightarrow> True"

fun handed :: "send_event list \<Rightarrow> (nat \<times> buffer) list" where
  "handed [] = []"
| "handed (Hand now transport priority dat len # es) = (transport, take (nat len) dat) # handed es"
| "handed (Loop ready # es) = handed es"

fun written :: "send_effect list \<Rightarrow> (nat \<times> buffer) list" where
  "written [] = []"
| "written (TransportWrite t b n # es) = (t, b) # written es"
| "written (e # es) = written es"

fun freed :: "send_effect list \<Rightarrow> buffer list" where
  "freed [] = []"
| "freed (FreeBuffer b # es) = b # freed es"
| "freed (e # es) = freed es"

lemma written_append [simp]: "written (a @ b) = written a @ written b"
  by (induction a rule: written.induct) simp_all

lemma freed_append [simp]: "freed (a @ b) = freed a @ freed b"
  by (induction a rule: freed.induct) simp_all

abbreviation queued :: "RtpSender \<Rightarrow> (nat \<times> buffer) list" where
  "queued s \<equiv> map (\<lambda>p. (sp_transport p, sp_buf p)) (send_pq s)"

lemma WriteAndSend_ok:
  assumes "4 \<le> len" "nat len \<le> length dat"
  obtains s' where "WriteAndSend now t prio dat len s = Some s'"
    "mset (queued s') = add_mset (t, take (nat len) dat) (mset (queued s))" "sender_running s' = sender_running s"
proof -
  have "4 \<le> length (take (nat len) dat)" using assms by simp
  then obtain q where q: "getSeqNumber (take (nat len) dat) = Some q" using getSeqNumber_bytes by blast
  let ?p = "\<lparr>sp_priority = prio, sp_seqn = uint q, sp_queue_ts = now, sp_transport = t, sp_buf = take (nat len) dat, sp_buf_size = len\<rparr>"
  have "WriteAndSend now t prio dat len s = Some (s\<lparr>send_pq := pq_push RtpSendPacketComparator ?p (send_pq s)\<rparr>)"
    using assms q by (simp add: WriteAndSend_def)
  then show thesis by (rule that) (simp_all add: pq_push_mset)
qed

lemma SendThreadLoop_ok:
  obtains s' es where "SendThreadLoop ready s = Some (s', es)"
    "mset (queued s) = mset (written es) + mset (queued s')" "freed es = map snd (written es)" "sender_running s' = sender_running s"
proof (cases "sender_running s \<and> ready \<and> send_pq s \<noteq> []")
  case True
  then obtain rest where rest: "pq_pop RtpSendPacketComparator (send_pq s) = Some rest" using pq_pop_defined by blast
  let ?p = "send_pq s ! 0"
  let ?es = "[TransportWrite (sp_transport ?p) (sp_buf ?p) (sp_buf_size ?p), FreeBuffer (sp_buf ?p), UpdateSenderBitrate (sp_buf_size ?p)]"
  have "SendThreadLoop ready s = Some (s\<lparr>send_pq := rest\<rparr>, ?es)"
    using True rest by (simp add: SendThreadLoop_def pq_top_def)
  then show thesis by (rule that) (simp_all add: pq_pop_mset [OF rest])
next
  case False
  then show thesis by (intro that [of s "if sender_running s then [Sleep] else []"]) (auto simp: SendThreadLoop_def)
qed

lemma send_run_conserves:
  assumes "list_all event_ok evs"
  shows "\<exists>s' es. send_run evs s = Some (s', es) \<and> mset (handed evs) + mset (queued s) = mset (written es) + mset (queued s') \<and>
    freed es = map snd (written es)"
  using assms
proof (induction evs arbitrary: s)
  case (Cons e evs)
  have "\<exists>s1 a. send_step e s = Some (s1, a) \<and> mset (handed [e]) + mset (queued s) = mset (written a) + mset (queued s1) \<and>
      freed a = map snd (written a)"
  proof (cases e)
    case (Hand now t prio dat len)
    then have "4 \<le> len" "nat len \<le> length dat" using Cons.prems by simp_all
    then obtain s1 where "WriteAndSend now t prio dat len s = Some s1"
        "mset (queued s1) = add_mset (t, take (nat len) dat) (mset (queued s))" by (rule WriteAndSend_ok)
    then show ?thesis using Hand by simp
  next
    case (Loop ready)
    obtain s1 a where "SendThreadLoop ready s = Some (s1, a)" "mset (queued s) = mset (written a) + mset (queued s1)"
        "freed a = map snd (written a)" by (rule SendThreadLoop_ok)
    then show ?thesis using Loop by simp
  qed
  then obtain s1 a where 1: "send_step e s = Some (s1, a)" "mset (handed [e]) + mset (queued s) = mset (written a) + mset (queued s1)"
      "freed a = map snd (written a)" by blast
  obtain s2 b where 2: "send_run evs s1 = Some (s2, b)" "mset (handed evs) + mset (queued s1) = mset (written b) + mset (queued s2)"
      "freed b = map snd (written b)" using Cons.IH [of s1] Cons.prems by auto
  have "handed (e # evs) = handed [e] @ handed evs" by (cases e) simp_all
  moreover have "mset (handed [e]) + mset (handed evs) + mset (queued s) = mset (written a) + (mset (handed evs) + mset (queued s1))"
    using 1(2) by (simp add: ac_simps)
  ultimately show ?case using 1 2 by (simp add: ac_simps)
qed simp

lemma clear_queue_ok:
  "length pq = n \<Longrightarrow> \<exists>es. clear_queue n pq = Some ([], es) \<and> mset (freed es) = image_mset sp_buf (mset pq) \<and> written es = []"
proof (induction n arbitrary: pq)
  case (Suc n)
  then have "pq \<noteq> []" by auto
  then obtain rest where rest: "pq_pop RtpSendPacketComparator pq = Some rest" using pq_pop_defined by blast
  have m: "mset pq = add_mset (pq ! 0) (mset rest)" by (rule pq_pop_mset [OF rest])
  then have "length rest = n" using Suc.prems mset_eq_length [of pq "pq ! 0 # rest"] by simp
  then obtain es where "clear_queue n rest = Some ([], es)" "mset (freed es) = image_mset sp_buf (mset rest)" "written es = []"
    using Suc.IH by blast
  then show ?case using rest \<open>pq \<noteq> []\<close> m by (simp add: pq_top_def)
qed simp

text \<open>C25.
  The sender never fails on datagrams that have a header.  Whatever the order of the queue is worth,
  at every moment the datagrams handed over are those written and those queued, each as often as it
  was handed over, unchanged and for its transport; every datagram is freed when it is written, and
  the destructor frees the rest.\<close>

theorem sender_conserves_packets:
  assumes "list_all event_ok evs"
  shows "\<exists>s es s' fs. send_run evs RtpSender_new = Some (s, es) \<and> mset (handed evs) = mset (written es) + mset (queued s) \<and>
    RtpSender_delete s = Some (s', fs) \<and> send_pq s' = [] \<and> mset (freed (es @ fs)) = mset (map snd (handed evs))"
proof -
  obtain s es where 1: "send_run evs RtpSender_new = Some (s, es)" "mset (handed evs) = mset (written es) + mset (queued s)"
      "freed es = map snd (written es)"
    using send_run_conserves [OF assms, of RtpSender_new] by (auto simp: RtpSender_new_def)
  obtain fs where 2: "clear_queue (length (send_pq s)) (send_pq s) = Some ([], fs)" "mset (freed fs) = image_mset sp_buf (mset (send_pq s))"
    using clear_queue_ok by blast
  have "mset (freed (es @ fs)) = image_mset snd (mset (written es) + mset (queued s))"
    using 1(3) 2(2) by (simp add: multiset.map_comp o_def)
  also have "\<dots> = mset (map snd (handed evs))" using 1(2) by simp
  finally show ?thesis using 1 2 by (auto simp: RtpSender_delete_def)
qed

definition rtp_bytes :: "u8 \<Rightarrow> u8 \<Rightarrow> buffer" where
  "rtp_bytes hi lo = [0x80, 100, hi, lo, 0, 0, 0, 0, 0, 0, 0, 1]"

theorem sender_conserves_packets_witness:
  "\<exists>s es s' fs. send_run [Hand 0 1 10 (rtp_bytes 0 7) 12, Hand 0 1 6 (rtp_bytes 0 3) 12, Loop True] RtpSender_new = Some (s, es) \<and>
    mset (handed [Hand 0 1 10 (rtp_bytes 0 7) 12, Hand 0 1 6 (rtp_bytes 0 3) 12, Loop True]) = mset (written es) + mset (queued s) \<and>
    RtpSender_delete s = Some (s', fs) \<and> send_pq s' = [] \<and>
    mset (freed (es @ fs)) = mset (map snd (handed [Hand 0 1 10 (rtp_bytes 0 7) 12, Hand 0 1 6 (rtp_bytes 0 3) 12, Loop True]))"
  by (rule sender_conserves_packets) (simp add: rtp_bytes_def)

text \<open>The comparison is not an order: each of two packets comes after the other when the one with
  the larger priority value has the smaller sequence number.\<close>

lemma comparator_not_asymmetric:
  assumes "sp_priority a < sp_priority b" "sp_seqn b < sp_seqn a"
  shows "RtpSendPacketComparator a b \<and> RtpSendPacketComparator b a"
  using assms by (simp add: RtpSendPacketComparator_def)

section \<open>Packets of one priority\<close>

definition seq_nat :: "buffer \<Rightarrow> nat" where
  "seq_nat b = unat (le16 (b ! 3) (b ! 2))"

definition send_ok :: "int \<Rightarrow> RtpSendPacket \<Rightarrow> bool" where
  "send_ok k p \<longleftrightarrow> sp_priority p = k \<and> sp_seqn p = int (seq_nat (sp_buf p))"

interpretation pq: keyed_heap RtpSendPacketComparator "\<lambda>p. seq_nat (sp_buf p)" "send_ok k" for k
  by unfold_locales (simp add: RtpSendPacketComparator_def send_ok_def)

lemma WriteAndSend_heap:
  assumes "4 \<le> len" "nat len \<le> length dat" "pq.heap k (send_pq s)"
  shows "\<exists>s'. WriteAndSend now t k dat len s = Some s' \<and> pq.heap k (send_pq s') \<and>
    mset (queued s') = add_mset (t, take (nat len) dat) (mset (queued s)) \<and> sender_running s' = sender_running s"
proof -
  have l: "4 \<le> length (take (nat len) dat)" using assms by simp
  let ?p = "\<lparr>sp_priority = k, sp_seqn = uint (le16 (take (nat len) dat ! 3) (take (nat len) dat ! 2)), sp_queue_ts = now, sp_transport = t,
      sp_buf = take (nat len) dat, sp_buf_size = len\<rparr>"
  have "send_ok k ?p" by (simp add: send_ok_def seq_nat_def)
  then have "pq.heap k (pq_push RtpSendPacketComparator ?p (send_pq s))" by (rule pq.heap_push [OF assms(3)])
  moreover have "WriteAndSend now t k dat len s = Some (s\<lparr>send_pq := pq_push RtpSendPacketComparator ?p (send_pq s)\<rparr>)"
    using assms getSeqNumber_bytes [OF l] by (simp add: WriteAndSend_def)
  ultimately show ?thesis by (simp add: pq_push_mset)
qed

lemma send_run_append:
  "send_run (xs @ ys) s = do { (s, a) \<leftarrow> send_run xs s; (s, b) \<leftarrow> send_run ys s; Some (s, a @ b) }"
  by (induction xs arbitrary: s) (auto split: Option.bind_splits)

lemma hand_all:
  assumes "list_all (\<lambda>(now, t, dat, len). 4 \<le> len \<and> nat len \<le> length dat) ps" "pq.heap k (send_pq s)"
  shows "\<exists>s'. send_run (map (\<lambda>(now, t, dat, len). Hand now t k dat len) ps) s = Some (s', []) \<and> pq.heap k (send_pq s') \<and>
    mset (queued s') = mset (map (\<lambda>(now, t, dat, len). (t, take (nat len) dat)) ps) + mset (queued s) \<and> sender_running s' = sender_running s"
  using assms
proof (induction ps arbitrary: s)
  case (Cons p ps)
  obtain now t dat len where p: "p = (now, t, dat, len)" by (cases p)
  have ok: "4 \<le> len" "nat len \<le> length dat" using Cons.prems(1) by (simp_all add: p)
  obtain s1 where s1: "WriteAndSend now t k dat len s = Some s1" "pq.heap k (send_pq s1)"
      "mset (queued s1) = add_mset (t, take (nat len) dat) (mset (queued s))" "sender_running s1 = sender_running s"
    using WriteAndSend_heap [OF ok Cons.prems(2)] by blast
  then show ?case using Cons.IH [OF _ s1(2)] Cons.prems(1) by (auto simp: p)
qed simp

lemma drain_all:
  assumes "pq.heap k (send_pq s)" "sender_running s" "length (send_pq s) = n"
  shows "\<exists>s' es. send_run (replicate n (Loop True)) s = Some (s', es) \<and> send_pq s' = [] \<and>
    map (\<lambda>(t, b). seq_nat b) (written es) = sort (map (\<lambda>p. seq_nat (sp_buf p)) (send_pq s)) \<and> mset (written es) = mset (queued s)"
  using assms
proof (induction n arbitrary: s)
  case (Suc n)
  then have ne: "send_pq s \<noteq> []" by auto
  then obtain rest where rest: "pq_pop RtpSendPacketComparator (send_pq s) = Some rest" using pq_pop_defined by blast
  let ?s = "s\<lparr>send_pq := rest\<rparr>" and ?p = "send_pq s ! 0"
  have m: "mset (send_pq s) = add_mset ?p (mset rest)" by (rule pq_pop_mset [OF rest])
  then have "length rest = n" using Suc.prems(3) mset_eq_length [of "send_pq s" "?p # rest"] by simp
  moreover have "pq.heap k rest" by (rule pq.heap_pop [OF Suc.prems(1) rest])
  ultimately obtain s' es where IH: "send_run (replicate n (Loop True)) ?s = Some (s', es)" "send_pq s' = []"
      "map (\<lambda>(t, b). seq_nat b) (written es) = sort (map (\<lambda>p. seq_nat (sp_buf p)) rest)" "mset (written es) = mset (queued ?s)"
    using Suc.IH [of ?s] Suc.prems(2) by auto
  have "sort (map (\<lambda>p. seq_nat (sp_buf p)) (send_pq s)) = seq_nat (sp_buf ?p) # sort (map (\<lambda>p. seq_nat (sp_buf p)) rest)"
    by (rule pq.sort_pop [OF Suc.prems(1) rest])
  then show ?case using IH ne rest m Suc.prems(2) by (simp add: SendThreadLoop_def pq_top_def)
qed simp

text \<open>C26.
  Packets of one priority that are queued before the transport is ready are written by as many
  iterations of the thread, each once, in ascending order of their sequence numbers (as numbers,
  without regard to their wrap-around).\<close>

theorem sender_orders_priority:
  assumes "list_all (\<lambda>(now, t, dat, len). 4 \<le> len \<and> nat len \<le> length dat) ps"
  shows "\<exists>s es. send_run (map (\<lambda>(now, t, dat, len). Hand now t k dat len) ps @ replicate (length ps) (Loop True)) RtpSender_new = Some (s, es) \<and>
    send_pq s = [] \<and> mset (written es) = mset (map (\<lambda>(now, t, dat, len). (t, take (nat len) dat)) ps) \<and>
    sorted (map (\<lambda>(t, b). seq_nat b) (written es))"
proof -
  have "pq.heap k (send_pq RtpSender_new)" by (simp add: RtpSender_new_def pq.heap_def heap_ordered_def)
  from hand_all [OF assms this] obtain s1 where s1: "send_run (map (\<lambda>(now, t, dat, len). Hand now t k dat len) ps) RtpSender_new = Some (s1, [])"
      "pq.heap k (send_pq s1)" "mset (queued s1) = mset (map (\<lambda>(now, t, dat, len). (t, take (nat len) dat)) ps)" "sender_running s1"
    by (auto simp: RtpSender_new_def)
  have "length (send_pq s1) = length ps" using mset_eq_length [OF s1(3)] by simp
  from drain_all [OF s1(2,4) this] obtain s es where "send_run (replicate (length ps) (Loop True)) s1 = Some (s, es)" "send_pq s = []"
      "map (\<lambda>(t, b). seq_nat b) (written es) = sort (map (\<lambda>p. seq_nat (sp_buf p)) (send_pq s1))" "mset (written es) = mset (queued s1)"
    by blast
  then show ?thesis using s1 by (simp add: send_run_append)
qed

definition example_queue :: "(int \<times> nat \<times> buffer \<times> int) list" where
  "example_queue = [(0, 1, rtp_bytes 0 7, 12), (1, 1, rtp_bytes 0 3, 12)]"

theorem sender_orders_priority_witness:
  "\<exists>s es. send_run (map (\<lambda>(now, t, dat, len). Hand now t 10 dat len) example_queue @ replicate (length example_queue) (Loop True))
      RtpSender_new = Some (s, es) \<and>
    send_pq s = [] \<and> mset (written es) = mset (map (\<lambda>(now, t, dat, len). (t, take (nat len) dat)) example_queue) \<and>
    sorted (map (\<lambda>(t, b). seq_nat b) (written es))"
  by (rule sender_orders_priority) (simp add: example_queue_def rtp_bytes_def)

end
