(* ===== verification/Speaker_Estimator.thy ===== *)
theory Speaker_Estimator
  imports Std_Map
begin

text \<open>
  \<open>src/orbit/modules/speaker_estimator.{h,cc}\<close>: who speaks in a room.  In every frame the loudest
  stream wins if it is loud enough; after \<open>defined_frame_size_\<close> frames the stream with the most wins is
  announced.  A call of the listener is a returned effect.

  The counters share their \<open>EnergyHolder\<close> objects with the map, which is cleared right after they are
  listed, so values serve.  A sum of energies stays below \<open>2 ^ 62\<close>, because there are less than \<open>2 ^ 31\<close>
  frames in a window; in \<open>CurrentSpeaker\<close> it is converted to \<open>int\<close>.
\<close>

section \<open>The class\<close>

record EnergyHolder =
  last_max_time :: int
  max_times :: int
  total_energy :: int

definition EnergyHolder_new :: EnergyHolder where
  "EnergyHolder_new = \<lparr>last_max_time = 0, max_times = 0, total_energy = 0\<rparr>"

record SpeakerEstimator =
  has_listener :: bool
  speaker_counter_map :: "(int, EnergyHolder) std_map"
  intra_frame_count :: "(int \<times> int) list"
  last_speaker_info :: "(int \<times> EnergyHolder) list"
  frame_count :: int
  defined_frame_size :: int

definition kEstimateFrameSize :: int where "kEstimateFrameSize = 50"

definition SpeakerEstimator_sized :: "int \<Rightarrow> SpeakerEstimator" where
  "SpeakerEstimator_sized frame_size = \<lparr>has_listener = False, speaker_counter_map = [], intra_frame_count = [], last_speaker_info = [],
     frame_count = 0, defined_frame_size = frame_size\<rparr>"

definition SpeakerEstimator_new :: SpeakerEstimator where
  "SpeakerEstimator_new = SpeakerEstimator_sized kEstimateFrameSize"

definition SetSpeakerChangeListener :: "bool \<Rightarrow> SpeakerEstimator \<Rightarrow> SpeakerEstimator" where
  "SetSpeakerChangeListener installed s = s\<lparr>has_listener := installed\<rparr>"

definition GetLastSpeakers :: "SpeakerEstimator \<Rightarrow> (int \<times> EnergyHolder) list" where
  "GetLastSpeakers s = last_speaker_info s"

text \<open>A 64-bit number that is stored in an \<open>int\<close>.\<close>

definition to_int32 :: "int \<Rightarrow> int" where
  "to_int32 x = sint (word_of_int x :: u32)"

fun speaker_loop :: "(int \<times> EnergyHolder) list \<Rightarrow> int \<Rightarrow> int \<Rightarrow> int \<Rightarrow> int" where
  "speaker_loop [] stream_id most energy = stream_id"
| "speaker_loop ((sid, holder) # info) stream_id most energy =
     (let stream_id = (if stream_id = -1 then sid else stream_id) in
      if max_times holder > most \<or> (max_times holder = most \<and> total_energy holder > energy)
      then speaker_loop info sid (max_times holder) (to_int32 (total_energy holder))
      else speaker_loop info stream_id most energy)"

definition CurrentSpeaker :: "SpeakerEstimator \<Rightarrow> int" where
  "CurrentSpeaker s = speaker_loop (last_speaker_info s) (-1) 0 0"

definition UpdateAudioEnergy :: "int \<Rightarrow> int \<Rightarrow> SpeakerEstimator \<Rightarrow> SpeakerEstimator" where
  "UpdateAudioEnergy stream_id audio_energy s = s\<lparr>intra_frame_count := intra_frame_count s @ [(stream_id, audio_energy)]\<rparr>"

fun loudest :: "(int \<times> int) list \<Rightarrow> int \<times> int \<Rightarrow> int \<times> int" where
  "loudest [] best = best"
| "loudest (counter # counters) best = loudest counters (if snd counter > snd best then counter else best)"

definition count_winner :: "int \<Rightarrow> int \<Rightarrow> (int, EnergyHolder) std_map \<Rightarrow> (int, EnergyHolder) std_map" where
  "count_winner stream_id energy m =
     (let holder = (case sm_find (<) stream_id m of Some h \<Rightarrow> h | None \<Rightarrow> EnergyHolder_new)
      in sm_set (<) stream_id (holder\<lparr>max_times := max_times holder + 1, total_energy := total_energy holder + energy\<rparr>) m)"

text \<open>The result lists the speakers that are announced, at most one.\<close>

definition NextFrame :: "SpeakerEstimator \<Rightarrow> SpeakerEstimator \<times> int list" where
  "NextFrame s =
     (if intra_frame_count s = [] then (s, [])
      else
        let (max_stream_id, max_audio_energy) = loudest (intra_frame_count s) (-1, 0);
            s = s\<lparr>intra_frame_count := []\<rparr>;
            s = (if max_audio_energy > 10000000
                 then s\<lparr>speaker_counter_map := count_winner max_stream_id max_audio_energy (speaker_counter_map s)\<rparr> else s);
            s = s\<lparr>frame_count := frame_count s + 1\<rparr>
        in if frame_count s \<ge> defined_frame_size s
           then let s = s\<lparr>frame_count := 0, last_speaker_info := speaker_counter_map s\<rparr>;
                    told = (if has_listener s \<and> CurrentSpeaker s \<noteq> -1 then [CurrentSpeaker s] else [])
                in (s\<lparr>speaker_counter_map := []\<rparr>, told)
           else (s, []))"

section \<open>Who wins\<close>

text \<open>A frame is what \<open>UpdateAudioEnergy\<close> reports before one call of \<open>NextFrame\<close>.\<close>

type_synonym frame = "(int \<times> int) list"

definition run_frame :: "frame \<Rightarrow> SpeakerEstimator \<Rightarrow> SpeakerEstimator \<times> int list" where
  "run_frame f s = NextFrame (fold (\<lambda>(i, e). UpdateAudioEnergy i e) f s)"

fun run_frames :: "frame list \<Rightarrow> SpeakerEstimator \<Rightarrow> SpeakerEstimator \<times> int list" where
  "run_frames [] s = (s, [])"
| "run_frames (f # fs) s = (let (s, a) = run_frame f s; (s, b) = run_frames fs s in (s, a @ b))"

text \<open>The winner of a frame: the first stream with the largest energy, if that is loud.\<close>

definition top_energy :: "frame \<Rightarrow> int" where
  "top_energy f = fold max (map snd f) 0"

definition winner :: "frame \<Rightarrow> int option" where
  "winner f = (if top_energy f > 10000000 then map_option fst (find (\<lambda>p. snd p = top_energy f) f) else None)"

definition wins :: "frame list \<Rightarrow> int \<Rightarrow> nat" where
  "wins fs i = length (filter (\<lambda>f. winner f = Some i) fs)"

lemma fold_max_ge: "b \<le> fold max xs (b :: int)"
proof (induction xs arbitrary: b)
  case (Cons a xs)
  show ?case using Cons.IH [of "max a b"] by simp
qed simp

lemma loudest_top:
  "loudest f best = (if snd best < fold max (map snd f) (snd best)
     then the (find (\<lambda>p. snd p = fold max (map snd f) (snd best)) f) else best) \<and>
   (snd best < fold max (map snd f) (snd best) \<longrightarrow> find (\<lambda>p. snd p = fold max (map snd f) (snd best)) f \<noteq> None)"
proof (induction f arbitrary: best)
  case (Cons c f)
  let ?b = "if snd best < snd c then c else best"
  have m: "fold max (map snd (c # f)) (snd best) = fold max (map snd f) (snd ?b)" by (simp add: max_def)
  have ge: "snd ?b \<le> fold max (map snd f) (snd ?b)" by (rule fold_max_ge)
  show ?case using Cons.IH [of ?b] ge unfolding m by (auto split: if_splits)
qed simp

lemma loudest_winner: "(case loudest f (-1, 0) of (i, e) \<Rightarrow> if e > 10000000 then Some i else None) = winner f"
proof (cases "0 < top_energy f")
  case True
  then obtain p where p: "find (\<lambda>p. snd p = top_energy f) f = Some p" "loudest f (-1, 0) = p"
    using loudest_top [of f "(-1, 0)"] by (auto simp: top_energy_def)
  then have "snd p = top_energy f" by (auto simp: find_Some_iff)
  then show ?thesis using p by (cases p) (simp add: winner_def)
next
  case False
  then show ?thesis using loudest_top [of f "(-1, 0)"] by (simp add: top_energy_def winner_def)
qed

lemma winner_in: "winner f = Some i \<Longrightarrow> i \<in> fst ` set f"
  by (auto simp: winner_def find_Some_iff image_iff split: if_splits) (metis fst_conv nth_mem)

lemma fold_energy: "fold (\<lambda>(i, e). UpdateAudioEnergy i e) f s = s\<lparr>intra_frame_count := intra_frame_count s @ f\<rparr>"
  by (induction f arbitrary: s) (auto simp: UpdateAudioEnergy_def)

text \<open>The counters of the frames \<open>fs\<close> of the current window.\<close>

definition counts :: "frame list \<Rightarrow> (int, EnergyHolder) std_map \<Rightarrow> bool" where
  "counts fs m \<longleftrightarrow> sm_sorted (<) m \<and>
     (\<forall>i. case sm_find (<) i m of None \<Rightarrow> wins fs i = 0 | Some h \<Rightarrow> max_times h = int (wins fs i) \<and> 0 < wins fs i)"

lemma counts_none: "counts fs m \<Longrightarrow> winner f = None \<Longrightarrow> counts (fs @ [f]) m"
proof -
  assume "winner f = None"
  then have "wins (fs @ [f]) = wins fs" by (simp add: wins_def fun_eq_iff)
  note eq = this
  assume "counts fs m"
  then show "counts (fs @ [f]) m" unfolding counts_def eq by blast
qed

lemma counts_winner:
  assumes "counts fs m" "winner f = Some i"
  shows "counts (fs @ [f]) (count_winner i e m)"
proof -
  have s: "sm_sorted (<) m" using assms(1) by (simp add: counts_def)
  have c: "case sm_find (<) j m of None \<Rightarrow> wins fs j = 0 | Some h \<Rightarrow> max_times h = int (wins fs j) \<and> 0 < wins fs j" for j
    using assms(1) by (simp add: counts_def)
  have w: "wins (fs @ [f]) j = wins fs j + (if j = i then 1 else 0)" for j using assms(2) by (simp add: wins_def)
  show ?thesis
    unfolding counts_def
  proof (intro conjI allI)
    show "sm_sorted (<) (count_winner i e m)" using s by (simp add: count_winner_def intk.sorted_set Let_def)
    fix j
    show "case sm_find (<) j (count_winner i e m) of None \<Rightarrow> wins (fs @ [f]) j = 0
      | Some h \<Rightarrow> max_times h = int (wins (fs @ [f]) j) \<and> 0 < wins (fs @ [f]) j"
      using c [of j] w [of j] s by (auto simp: count_winner_def intk.find_set EnergyHolder_new_def Let_def split: option.splits)
  qed
qed

lemma speaker_loop_best:
  assumes "cur \<noteq> -1" "-1 \<notin> fst ` set info" "\<forall>(i, h)\<in>set info. max_times h \<le> m" "most \<le> m"
    and "most = m \<or> (\<exists>(i, h)\<in>set info. max_times h = m)"
  shows "(speaker_loop info cur most energy = cur \<and> most = m) \<or> (\<exists>h. (speaker_loop info cur most energy, h) \<in> set info \<and> max_times h = m)"
  using assms
proof (induction info arbitrary: cur most energy)
  case (Cons p info)
  obtain sid h where p: "p = (sid, h)" by (cases p)
  show ?case
  proof (cases "max_times h > most \<or> (max_times h = most \<and> total_energy h > energy)")
    case True
    then show ?thesis
      using Cons.IH [of sid "max_times h" "to_int32 (total_energy h)"] Cons.prems by (auto simp: p Let_def)
  next
    case False
    then show ?thesis using Cons.IH [of cur most energy] Cons.prems by (auto simp: p Let_def)
  qed
qed simp

lemma CurrentSpeaker_most:
  assumes "counts fs m" "m \<noteq> []" "-1 \<notin> fst ` set m"
  shows "\<exists>h. (speaker_loop m (-1) 0 0, h) \<in> set m \<and> (\<forall>(i, h')\<in>set m. max_times h' \<le> max_times h)"
proof -
  obtain sid h info where m: "m = (sid, h) # info" using assms(2) by (cases m) auto
  have s: "sm_sorted (<) m" using assms(1) by (simp add: counts_def)
  then have "sm_find (<) sid m = Some h" by (simp add: intk.find_elem m)
  moreover have "case sm_find (<) sid m of None \<Rightarrow> wins fs sid = 0 | Some h \<Rightarrow> max_times h = int (wins fs sid) \<and> 0 < wins fs sid"
    using assms(1) by (simp add: counts_def)
  ultimately have pos: "0 < max_times h" by simp
  define b where "b = Max ((\<lambda>(i, h). max_times h) ` set m)"
  have b: "\<forall>(i, h)\<in>set m. max_times h \<le> b" "\<exists>(i, h)\<in>set m. max_times h = b"
  proof -
    show "\<forall>(i, h)\<in>set m. max_times h \<le> b" by (auto simp: b_def intro!: Max_ge rev_image_eqI)
    have "b \<in> (\<lambda>(i, h). max_times h) ` set m" unfolding b_def using assms(2) by (intro Max_in) simp_all
    then show "\<exists>(i, h)\<in>set m. max_times h = b" by force
  qed
  have step: "speaker_loop m (-1) 0 0 = speaker_loop info sid (max_times h) (to_int32 (total_energy h))" using pos by (simp add: m Let_def)
  have "(speaker_loop info sid (max_times h) (to_int32 (total_energy h)) = sid \<and> max_times h = b) \<or>
      (\<exists>h'. (speaker_loop info sid (max_times h) (to_int32 (total_energy h)), h') \<in> set info \<and> max_times h' = b)"
    by (rule speaker_loop_best) (use assms(3) b in \<open>auto simp: m\<close>)
  then show ?thesis unfolding step using b(1) by (auto simp: m)
qed

section \<open>A window of frames\<close>

definition fresh_window :: "nat \<Rightarrow> SpeakerEstimator \<Rightarrow> bool" where
  "fresh_window n s \<longleftrightarrow> has_listener s \<and> speaker_counter_map s = [] \<and> intra_frame_count s = [] \<and> frame_count s = 0 \<and> defined_frame_size s = int n"

definition in_window :: "nat \<Rightarrow> frame list \<Rightarrow> SpeakerEstimator \<Rightarrow> bool" where
  "in_window n fs s \<longleftrightarrow> has_listener s \<and> counts fs (speaker_counter_map s) \<and> -1 \<notin> fst ` set (speaker_counter_map s) \<and>
     intra_frame_count s = [] \<and> frame_count s = int (length fs) \<and> defined_frame_size s = int n"

text \<open>The answer that the frames call for.\<close>

definition announced :: "frame list \<Rightarrow> int list \<Rightarrow> bool" where
  "announced fs told \<longleftrightarrow> (if \<exists>f\<in>set fs. winner f \<noteq> None then \<exists>i. told = [i] \<and> 0 < wins fs i \<and> (\<forall>j. wins fs j \<le> wins fs i) else told = [])"

lemma wins_pos: "0 < wins fs i \<longleftrightarrow> (\<exists>f\<in>set fs. winner f = Some i)"
  by (auto simp: wins_def filter_empty_conv)

lemma count_winner_keys: "fst ` set (count_winner i e m) = insert i (fst ` set m)"
  by (simp add: count_winner_def intk.keys_set Let_def)

lemma announced_speaker:
  assumes "counts fs m" "-1 \<notin> fst ` set m"
  shows "announced fs (if speaker_loop m (-1) 0 0 \<noteq> -1 then [speaker_loop m (-1) 0 0] else [])"
proof (cases "m = []")
  case True
  then have "wins fs i = 0" for i using assms(1) by (simp add: counts_def)
  then have "\<forall>f\<in>set fs. winner f = None" using wins_pos [of fs] by (metis less_irrefl not_None_eq)
  then show ?thesis using True by (simp add: announced_def)
next
  case False
  let ?r = "speaker_loop m (-1) 0 0"
  obtain h where h: "(?r, h) \<in> set m" "\<forall>(i, h')\<in>set m. max_times h' \<le> max_times h"
    using CurrentSpeaker_most [OF assms(1) False assms(2)] by blast
  have s: "sm_sorted (<) m" and c: "case sm_find (<) j m of None \<Rightarrow> wins fs j = 0 | Some h \<Rightarrow> max_times h = int (wins fs j) \<and> 0 < wins fs j" for j
    using assms(1) by (simp_all add: counts_def)
  have r: "max_times h = int (wins fs ?r)" "0 < wins fs ?r" using c [of ?r] h(1) intk.find_elem [OF s, of ?r h] by simp_all
  moreover have "wins fs j \<le> wins fs ?r" for j
  proof (cases "sm_find (<) j m")
    case None
    then show ?thesis using c [of j] by simp
  next
    case (Some h')
    then have "(j, h') \<in> set m" using intk.find_elem [OF s] by blast
    then have "max_times h' \<le> max_times h" using h(2) by blast
    then show ?thesis using c [of j] Some r(1) by simp
  qed
  moreover have "?r \<noteq> -1" using h(1) assms(2) by force
  moreover have "\<exists>f\<in>set fs. winner f \<noteq> None" using r(2) wins_pos [of fs ?r] by auto
  ultimately show ?thesis by (auto simp: announced_def)
qed

lemma window_step:
  assumes "in_window n fs s" "f \<noteq> []" "-1 \<notin> fst ` set f"
  shows "if length fs + 1 < n then \<exists>s'. run_frame f s = (s', []) \<and> in_window n (fs @ [f]) s'
    else \<exists>s' told. run_frame f s = (s', told) \<and> fresh_window n s' \<and> announced (fs @ [f]) told"
proof -
  define m where "m = (case loudest f (-1, 0) of (i, e) \<Rightarrow>
      if e > 10000000 then count_winner i e (speaker_counter_map s) else speaker_counter_map s)"
  have w: "(case loudest f (-1, 0) of (i, e) \<Rightarrow> if e > 10000000 then Some i else None) = winner f" by (rule loudest_winner)
  have c: "counts (fs @ [f]) m" and ids: "-1 \<notin> fst ` set m"
  proof -
    obtain i e where l: "loudest f (-1, 0) = (i, e)" by (cases "loudest f (-1, 0)")
    have old: "counts fs (speaker_counter_map s)" "-1 \<notin> fst ` set (speaker_counter_map s)" using assms(1) by (simp_all add: in_window_def)
    show "counts (fs @ [f]) m"
      using w old by (auto simp: m_def l intro: counts_winner counts_none split: if_splits)
    show "-1 \<notin> fst ` set m"
      using w old assms(3) winner_in [of f i] by (auto simp: m_def l count_winner_keys split: if_splits)
  qed
  let ?s = "s\<lparr>intra_frame_count := [], speaker_counter_map := m, frame_count := frame_count s + 1\<rparr>"
  have nxt: "run_frame f s = (if int (length fs) + 1 \<ge> int n
      then let s = ?s\<lparr>frame_count := 0, last_speaker_info := m\<rparr>;
               told = (if has_listener s \<and> CurrentSpeaker s \<noteq> -1 then [CurrentSpeaker s] else [])
           in (s\<lparr>speaker_counter_map := []\<rparr>, told)
      else (?s, []))"
    using assms(1,2) by (auto simp: run_frame_def fold_energy NextFrame_def in_window_def m_def Let_def split: prod.split)
  show ?thesis
  proof (cases "length fs + 1 < n")
    case True
    then show ?thesis using nxt assms(1) c ids by (simp add: in_window_def)
  next
    case False
    have told: "announced (fs @ [f]) (if speaker_loop m (-1) 0 0 \<noteq> -1 then [speaker_loop m (-1) 0 0] else [])"
      by (rule announced_speaker [OF c ids])
    then show ?thesis using False nxt assms(1) by (simp add: fresh_window_def in_window_def CurrentSpeaker_def Let_def cong: if_cong)
  qed
qed

lemma fresh_in_window: "fresh_window n s \<Longrightarrow> in_window n [] s"
  by (simp add: fresh_window_def in_window_def counts_def wins_def sm_sorted_def)

lemma run_window:
  assumes "in_window n fs s" "length fs + length gs = n" "gs \<noteq> []" "\<forall>f\<in>set gs. f \<noteq> [] \<and> -1 \<notin> fst ` set f"
  shows "\<exists>s' told. run_frames gs s = (s', told) \<and> fresh_window n s' \<and> announced (fs @ gs) told"
  using assms
proof (induction gs arbitrary: fs s)
  case (Cons f gs)
  have f: "f \<noteq> []" "-1 \<notin> fst ` set f" using Cons.prems(4) by simp_all
  note step = window_step [OF Cons.prems(1) f]
  show ?case
  proof (cases "gs = []")
    case True
    then show ?thesis using step Cons.prems(2) by auto
  next
    case False
    then have "length fs + 1 < n" using Cons.prems(2) by (cases gs) auto
    then obtain s1 where "run_frame f s = (s1, [])" "in_window n (fs @ [f]) s1" using step by auto
    then show ?thesis using Cons.IH [of "fs @ [f]" s1] Cons.prems False by auto
  qed
qed simp

text \<open>C27.
  With a listener, after exactly one window of frames, each with at least one stream, the listener
  is told nothing if no frame was loud, and otherwise one stream, which won at least one frame and
  no stream won more; a frame is won by the first stream with the largest energy, if that exceeds ten
  million.  The next window starts from nothing.\<close>

theorem window_announces_speaker:
  assumes "fresh_window (length fs) s" "fs \<noteq> []" "list_all (\<lambda>f. f \<noteq> [] \<and> -1 \<notin> fst ` set f) fs"
  shows "\<exists>s' told. run_frames fs s = (s', told) \<and> fresh_window (length fs) s' \<and> announced fs told"
  using run_window [OF fresh_in_window [OF assms(1)] _ assms(2)] assms(3) by (simp add: list_all_iff)

definition example_frames :: "frame list" where
  "example_frames = [[(1, 20000000), (2, 5)], [(2, 30000000)], [(1, 40000000)]]"

theorem window_announces_speaker_witness:
  "\<exists>s' told. run_frames example_frames (SetSpeakerChangeListener True (SpeakerEstimator_sized 3)) = (s', told) \<and>
    fresh_window (length example_frames) s' \<and> announced example_frames told"
  by (rule window_announces_speaker)
    (simp_all add: fresh_window_def SetSpeakerChangeListener_def SpeakerEstimator_sized_def example_frames_def)

text \<open>The sum of the energies is compared after a conversion to 32 bits: of two streams with equally
  many wins the quieter one may be announced.\<close>

lemma quieter_speaker_announced:
  "snd (run_frames [[(1, 2000000000)], [(1, 2000000000)], [(2, 20000000)], [(2, 20000000)]]
     (SetSpeakerChangeListener True (SpeakerEstimator_sized 4))) = [2]"
  by code_simp

end
