(* ===== verification/Video_Positions.thy ===== *)
theory Video_Positions
  imports Orbit_Prelude
begin

text \<open>
  \<open>src/orbit/video_mixer/video_mixer_position_manager.{h,cc}\<close> and \<open>video_mixer_position.h\<close>: where the
  mixer draws the streams of a room.  A plugin is a handle, \<open>sid\<close> its \<open>stream_id ()\<close>; the calls of
  plugins and of the listener are returned effects.  \<open>FLAGS_video_width\<close> and \<open>FLAGS_video_height\<close> are
  the arguments \<open>w\<close> and \<open>h\<close>.  Sizes are integers without bounds: all values are between 0 and the
  size of the picture.
\<close>

section \<open>The classes\<close>

record MixerPosition =
  mp_stream_id :: int
  mp_x :: int
  mp_y :: int
  mp_plugin :: nat

text \<open>The result tells whether the position has changed.\<close>

definition UpdatePosition :: "int \<Rightarrow> int \<Rightarrow> MixerPosition \<Rightarrow> MixerPosition \<times> bool" where
  "UpdatePosition x y p = (if mp_x p \<noteq> x \<or> mp_y p \<noteq> y then (p\<lparr>mp_x := x, mp_y := y\<rparr>, True) else (p, False))"

record VideoMixerPositionManager =
  pm_listener :: bool
  positions :: "MixerPosition list"

definition VideoMixerPositionManager_new :: "bool \<Rightarrow> VideoMixerPositionManager" where
  "VideoMixerPositionManager_new listener = \<lparr>pm_listener = listener, positions = []\<rparr>"

datatype position_effect = PluginUpdateVideoPosition nat int int | OnPositionUpdated

definition VIDEO_HORIZONTIAL_SPACE :: int where "VIDEO_HORIZONTIAL_SPACE = 10"
definition VIDEO_VERTICAL_SPACE :: int where "VIDEO_VERTICAL_SPACE = 10"

lemmas spaces = VIDEO_HORIZONTIAL_SPACE_def VIDEO_VERTICAL_SPACE_def

definition GetColumn :: "nat \<Rightarrow> nat" where
  "GetColumn n = (if n = 1 \<or> n = 2 then n else if n = 3 \<or> n = 4 then 2 else if 5 \<le> n \<and> n \<le> 9 then 3 else 4)"

text \<open>The coordinates of a new position are not set: \<open>memory\<close>.  \<open>None\<close> is the null pointer.\<close>

definition mixer_AddStream :: "(nat \<Rightarrow> int) \<Rightarrow> int \<times> int \<Rightarrow> nat option \<Rightarrow> VideoMixerPositionManager \<Rightarrow> VideoMixerPositionManager" where
  "mixer_AddStream sid memory plugin s =
     (case plugin of
        None \<Rightarrow> s
      | Some p \<Rightarrow>
          if list_ex (\<lambda>q. mp_stream_id q = sid p) (positions s) then s
          else s\<lparr>positions := positions s @ [\<lparr>mp_stream_id = sid p, mp_x = fst memory, mp_y = snd memory, mp_plugin = p\<rparr>]\<rparr>)"

text \<open>The place of the \<open>i\<close>-th of \<open>n\<close> streams.\<close>

definition tile_place :: "int \<Rightarrow> int \<Rightarrow> nat \<Rightarrow> nat \<Rightarrow> int \<times> int" where
  "tile_place w h n i =
     (let column = GetColumn n;
          last_row_count = n mod column;
          max_row = n div column + (if last_row_count > 0 then 1 else 0);
          row = i div column;
          col_pos = i mod column;
          x = (if row > 0 \<and> row = max_row - 1 \<and> last_row_count > 0
               then let total_width = (w + VIDEO_HORIZONTIAL_SPACE) * int column - VIDEO_HORIZONTIAL_SPACE;
                        last_width = (w + VIDEO_HORIZONTIAL_SPACE) * int last_row_count - VIDEO_HORIZONTIAL_SPACE
                    in (total_width - last_width) div 2 + (w + VIDEO_HORIZONTIAL_SPACE) * int col_pos
               else (w + VIDEO_HORIZONTIAL_SPACE) * int col_pos);
          y = (if row = 0 then 0 else (h + VIDEO_VERTICAL_SPACE) * int row)
      in (x, y))"

text \<open>The loop updates a copy of each position.\<close>

fun position_loop :: "int \<Rightarrow> int \<Rightarrow> nat \<Rightarrow> nat \<Rightarrow> MixerPosition list \<Rightarrow> position_effect list" where
  "position_loop w h n i [] = []"
| "position_loop w h n i (p # ps) =
     (let (x, y) = tile_place w h n i; (position, changed) = UpdatePosition x y p
      in (if changed then [PluginUpdateVideoPosition (mp_plugin position) x y] else []) @ position_loop w h n (i + 1) ps)"

definition UpdateVideoPosition :: "int \<Rightarrow> int \<Rightarrow> VideoMixerPositionManager \<Rightarrow> VideoMixerPositionManager \<times> position_effect list" where
  "UpdateVideoPosition w h s =
     (let es = position_loop w h (length (positions s)) 0 (positions s)
      in (s, es @ (if es \<noteq> [] \<and> pm_listener s then [OnPositionUpdated] else [])))"

definition mixer_RemoveStream :: "(nat \<Rightarrow> int) \<Rightarrow> nat \<Rightarrow> VideoMixerPositionManager \<Rightarrow> VideoMixerPositionManager" where
  "mixer_RemoveStream sid plugin s = s\<lparr>positions := takeWhile (\<lambda>p. mp_stream_id p \<noteq> sid plugin) (positions s) @
     tl (dropWhile (\<lambda>p. mp_stream_id p \<noteq> sid plugin) (positions s))\<rparr>"

definition GetOutVideoSize :: "int \<Rightarrow> int \<Rightarrow> VideoMixerPositionManager \<Rightarrow> int \<times> int" where
  "GetOutVideoSize w h s =
     (let n = length (positions s); column = GetColumn n; row = n div column + (if n mod column > 0 then 1 else 0)
      in ((w + VIDEO_HORIZONTIAL_SPACE) * int column - VIDEO_HORIZONTIAL_SPACE, (h + VIDEO_VERTICAL_SPACE) * int row - VIDEO_VERTICAL_SPACE))"

section \<open>The tiles of a picture\<close>

lemma GetColumn_pos: "0 < GetColumn n"
  by (simp add: GetColumn_def)

lemma tile_place_y: "snd (tile_place w h n i) = (h + 10) * int (i div GetColumn n)"
  by (simp add: tile_place_def spaces Let_def)

text \<open>The indentation of a row depends on the row alone.\<close>

definition indent :: "int \<Rightarrow> nat \<Rightarrow> nat \<Rightarrow> int" where
  "indent w n row =
     (if row > 0 \<and> row = n div GetColumn n + (if n mod GetColumn n > 0 then 1 else 0) - 1 \<and> n mod GetColumn n > 0
      then ((w + 10) * int (GetColumn n - n mod GetColumn n)) div 2 else 0)"

lemma tile_place_x: "fst (tile_place w h n i) = indent w n (i div GetColumn n) + (w + 10) * int (i mod GetColumn n)"
proof -
  have "n mod GetColumn n \<le> GetColumn n" using mod_less_divisor [OF GetColumn_pos, of n n] by simp
  then have "(w + 10) * int (GetColumn n) - 10 - ((w + 10) * int (n mod GetColumn n) - 10) = (w + 10) * int (GetColumn n - n mod GetColumn n)"
    by (simp add: right_diff_distrib of_nat_diff)
  then show ?thesis by (simp add: tile_place_def indent_def spaces Let_def)
qed

definition disjoint_tiles :: "int \<Rightarrow> int \<Rightarrow> int \<times> int \<Rightarrow> int \<times> int \<Rightarrow> bool" where
  "disjoint_tiles w h p q \<longleftrightarrow> fst p + w \<le> fst q \<or> fst q + w \<le> fst p \<or> snd p + h \<le> snd q \<or> snd q + h \<le> snd p"

definition tile_inside :: "int \<Rightarrow> int \<Rightarrow> int \<times> int \<Rightarrow> int \<times> int \<Rightarrow> bool" where
  "tile_inside w h pic p \<longleftrightarrow> 0 \<le> fst p \<and> fst p + w \<le> fst pic \<and> 0 \<le> snd p \<and> snd p + h \<le> snd pic"

lemma step_le:
  fixes s :: int
  assumes "0 \<le> s" "a < b"
  shows "s * int a + s \<le> s * int b"
proof -
  have "s * int (a + 1) \<le> s * int b" using assms by (intro mult_left_mono) auto
  then show ?thesis by (simp add: algebra_simps)
qed

lemma tiles_disjoint:
  assumes "0 \<le> w" "0 \<le> h" "i < j"
  shows "disjoint_tiles w h (tile_place w h n i) (tile_place w h n j)"
proof (cases "i div GetColumn n = j div GetColumn n")
  case True
  have "i mod GetColumn n < j mod GetColumn n"
    using True assms(3) by (metis div_mult_mod_eq less_le_trans nat_add_left_cancel_less not_le_imp_less)
  then have "(w + 10) * int (i mod GetColumn n) + (w + 10) \<le> (w + 10) * int (j mod GetColumn n)"
    using assms(1) by (intro step_le) simp_all
  then show ?thesis using True by (simp add: disjoint_tiles_def tile_place_x)
next
  case False
  then have "i div GetColumn n < j div GetColumn n" using assms(3) by (metis div_le_mono le_neq_implies_less less_imp_le)
  then have "(h + 10) * int (i div GetColumn n) + (h + 10) \<le> (h + 10) * int (j div GetColumn n)"
    using assms(2) by (intro step_le) simp_all
  then show ?thesis by (simp add: disjoint_tiles_def tile_place_y)
qed

lemma rows_bound:
  assumes "i < n"
  shows "i div GetColumn n < n div GetColumn n + (if n mod GetColumn n > 0 then 1 else 0)"
proof (cases "n mod GetColumn n = 0")
  case True
  then have "n = n div GetColumn n * GetColumn n" by (metis add.right_neutral div_mult_mod_eq)
  then show ?thesis using assms True by (simp add: less_mult_imp_div_less)
next
  case False
  then show ?thesis using div_le_mono [of i n "GetColumn n"] assms by simp
qed

lemma last_row_columns:
  assumes "i < n" "i div GetColumn n = n div GetColumn n"
  shows "i mod GetColumn n < n mod GetColumn n"
  using assms by (metis div_mult_mod_eq nat_add_left_cancel_less)

lemma tiles_inside:
  assumes "0 \<le> w" "0 \<le> h" "i < length (positions s)"
  shows "tile_inside w h (GetOutVideoSize w h s) (tile_place w h (length (positions s)) i)"
proof -
  let ?n = "length (positions s)"
  let ?c = "GetColumn ?n" and ?l = "?n mod GetColumn ?n"
  have c: "0 < ?c" by (rule GetColumn_pos)
  have y: "(h + 10) * int (i div ?c) + (h + 10) \<le> (h + 10) * int (?n div ?c + (if ?l > 0 then 1 else 0))"
    using assms(2) rows_bound [OF assms(3)] by (intro step_le) simp_all
  have x: "0 \<le> indent w ?n (i div ?c) \<and> indent w ?n (i div ?c) + (w + 10) * int (i mod ?c) + w \<le> (w + 10) * int ?c - 10"
  proof (cases "i div ?c > 0 \<and> i div ?c = ?n div ?c + (if ?l > 0 then 1 else 0) - 1 \<and> ?l > 0")
    case True
    then have "i mod ?c < ?l" using last_row_columns [OF assms(3)] by simp
    then have 1: "(w + 10) * int (i mod ?c) + (w + 10) \<le> (w + 10) * int ?l" using assms(1) by (intro step_le) simp_all
    have "?l \<le> ?c" using mod_less_divisor [OF c, of ?n] by simp
    then have 2: "(w + 10) * int (?c - ?l) = (w + 10) * int ?c - (w + 10) * int ?l" by (simp add: right_diff_distrib of_nat_diff)
    have "0 \<le> (w + 10) * int (?c - ?l)" using assms(1) by simp
    then have "0 \<le> (w + 10) * int (?c - ?l) div 2 \<and> (w + 10) * int (?c - ?l) div 2 \<le> (w + 10) * int (?c - ?l)" by auto
    then show ?thesis using True 1 2 by (simp add: indent_def)
  next
    case False
    have "(w + 10) * int (i mod ?c) + (w + 10) \<le> (w + 10) * int ?c" using assms(1) c by (intro step_le) simp_all
    then show ?thesis using False by (auto simp: indent_def)
  qed
  have "0 \<le> (w + 10) * int (i mod ?c)" "0 \<le> (h + 10) * int (i div ?c)" using assms(1,2) by simp_all
  then show ?thesis using x y by (simp add: tile_inside_def tile_place_x tile_place_y GetOutVideoSize_def spaces Let_def)
qed

section \<open>The streams of a room\<close>

datatype position_call = Add "(int \<times> int)" "nat option" | Remove nat | Update

definition position_step ::
    "(nat \<Rightarrow> int) \<Rightarrow> int \<Rightarrow> int \<Rightarrow> position_call \<Rightarrow> VideoMixerPositionManager \<Rightarrow> VideoMixerPositionManager \<times> position_effect list" where
  "position_step sid w h c s =
     (case c of Add memory plugin \<Rightarrow> (mixer_AddStream sid memory plugin s, [])
      | Remove plugin \<Rightarrow> (mixer_RemoveStream sid plugin s, [])
      | Update \<Rightarrow> UpdateVideoPosition w h s)"

definition position_inv :: "(nat \<Rightarrow> int) \<Rightarrow> VideoMixerPositionManager \<Rightarrow> bool" where
  "position_inv sid s \<longleftrightarrow> distinct (map mp_stream_id (positions s)) \<and> list_all (\<lambda>p. mp_stream_id p = sid (mp_plugin p)) (positions s)"

lemma remove_sub: "set (takeWhile P xs @ tl (dropWhile P xs)) \<subseteq> set xs"
  by (induction xs) auto

lemma remove_distinct: "distinct (map f xs) \<Longrightarrow> distinct (map f (takeWhile P xs @ tl (dropWhile P xs)))"
proof (induction xs)
  case (Cons x xs)
  then show ?case using remove_sub [of P xs] by (auto simp del: map_append)
qed simp

lemma position_step_inv: "position_inv sid s \<Longrightarrow> position_inv sid (fst (position_step sid w h c s))"
proof (cases c)
  case (Add memory plugin)
  then show "position_inv sid s \<Longrightarrow> ?thesis"
    by (auto simp: position_step_def mixer_AddStream_def position_inv_def list_ex_iff split: option.split)
next
  case (Remove plugin)
  assume "position_inv sid s"
  then show ?thesis
    using Remove remove_sub [of "\<lambda>p. mp_stream_id p \<noteq> sid plugin" "positions s"]
      remove_distinct [of mp_stream_id "positions s" "\<lambda>p. mp_stream_id p \<noteq> sid plugin"]
    by (auto simp: position_step_def mixer_RemoveStream_def position_inv_def list_all_iff simp del: map_append)
next
  case Update
  then show "position_inv sid s \<Longrightarrow> ?thesis" by (simp add: position_step_def UpdateVideoPosition_def Let_def)
qed

definition position_run :: "(nat \<Rightarrow> int) \<Rightarrow> int \<Rightarrow> int \<Rightarrow> position_call list \<Rightarrow> VideoMixerPositionManager \<Rightarrow> VideoMixerPositionManager" where
  "position_run sid w h = fold (\<lambda>c s. fst (position_step sid w h c s))"

lemma position_run_inv: "position_inv sid s \<Longrightarrow> position_inv sid (position_run sid w h cs s)"
  unfolding position_run_def by (induction cs arbitrary: s) (simp_all add: position_step_inv)

text \<open>What a plugin is told.\<close>

definition told_place :: "position_effect list \<Rightarrow> nat \<Rightarrow> (int \<times> int) option" where
  "told_place es p = map_of (concat (map (\<lambda>e. case e of PluginUpdateVideoPosition q x y \<Rightarrow> [(q, (x, y))] | OnPositionUpdated \<Rightarrow> []) es)) p"

lemma told_loop:
  assumes "told_place (position_loop w h n i ps) p = Some xy"
  shows "\<exists>k<length ps. mp_plugin (ps ! k) = p \<and> xy = tile_place w h n (i + k)"
  using assms
proof (induction ps arbitrary: i)
  case (Cons q ps)
  obtain x y where xy: "tile_place w h n i = (x, y)" by (cases "tile_place w h n i")
  show ?case
  proof (cases "snd (UpdatePosition x y q) \<and> mp_plugin q = p")
    case True
    then have "Some (x, y) = Some xy" using Cons.prems by (auto simp: told_place_def xy UpdatePosition_def split: if_splits)
    then show ?thesis using True xy by (intro exI [of _ 0]) auto
  next
    case False
    then have "told_place (position_loop w h n (i + 1) ps) p = Some xy"
      using Cons.prems by (auto simp: told_place_def xy UpdatePosition_def split: if_splits)
    then obtain k where "k < length ps" "mp_plugin (ps ! k) = p" "xy = tile_place w h n (i + 1 + k)" using Cons.IH by blast
    then show ?thesis by (intro exI [of _ "Suc k"]) simp
  qed
qed (simp add: told_place_def)

lemma told_place_listener: "told_place (es @ (if b then [OnPositionUpdated] else [])) p = told_place es p"
  by (simp add: told_place_def)


definition example_room :: VideoMixerPositionManager where
  "example_room = position_run int 180 180 [Add (-1, -1) (Some 1), Add (-1, -1) (Some 2), Add (-1, -1) (Some 3)] (VideoMixerPositionManager_new True)"


text \<open>Only copies of the positions are updated, so the stored coordinates stay those of the memory:
  every call tells every plugin again, except one whose uninitialised coordinates are those of its
  place, which is never told.\<close>

lemma positions_never_stored: "positions (fst (UpdateVideoPosition w h s)) = positions s"
  by (simp add: UpdateVideoPosition_def Let_def)

lemma first_stream_not_told:
  "snd (UpdateVideoPosition w h (mixer_AddStream sid (0, 0) (Some p) (VideoMixerPositionManager_new True))) = []"
  by (simp add: UpdateVideoPosition_def mixer_AddStream_def VideoMixerPositionManager_new_def tile_place_def GetColumn_def UpdatePosition_def Let_def)

end
