(* ===== verification/Audio_Energy.thy ===== *)
theory Audio_Energy
  imports Speaker_Estimator
begin

text \<open>
  \<open>src/orbit/audio_processing/audio_energy.cc\<close>: the energy of a frame of 16-bit samples, a sum of squares
  that is scaled down so that it fits into 32 bits.  A sample is a 16-bit word that is read signed; the
  running sum is brought back to 32 bits at every addition.
\<close>

type_synonym sample = u16

section \<open>The functions\<close>

definition norm_step :: "u32 \<Rightarrow> u32 \<Rightarrow> nat \<Rightarrow> nat \<Rightarrow> nat" where
  "norm_step a m k zeros = (if m AND push_bit zeros a = 0 then zeros + k else zeros)"

definition WebRtcSpl_NormW32 :: "u32 \<Rightarrow> nat" where
  "WebRtcSpl_NormW32 a =
     (if a = 0 then 0
      else let a = (if sint a < 0 then NOT a else a);
               zeros = (if 0xFFFF8000 AND a = 0 then 16 else 0);
               zeros = norm_step a 0xFF800000 8 zeros;
               zeros = norm_step a 0xF8000000 4 zeros;
               zeros = norm_step a 0xE0000000 2 zeros
           in norm_step a 0xC0000000 1 zeros)"

definition size_step :: "u32 \<Rightarrow> u32 \<Rightarrow> nat \<Rightarrow> nat \<Rightarrow> nat" where
  "size_step n m k bits = (if m AND drop_bit bits n \<noteq> 0 then bits + k else bits)"

definition WebRtcSpl_GetSizeInBits :: "u32 \<Rightarrow> nat" where
  "WebRtcSpl_GetSizeInBits n =
     (let bits = (if 0xFFFF0000 AND n \<noteq> 0 then 16 else 0);
          bits = size_step n 0x0000FF00 8 bits;
          bits = size_step n 0x000000F0 4 bits;
          bits = size_step n 0x0000000C 2 bits;
          bits = size_step n 0x00000002 1 bits
      in size_step n 0x00000001 1 bits)"

fun max_abs :: "sample list \<Rightarrow> sample \<Rightarrow> sample" where
  "max_abs [] smax = smax"
| "max_abs (p # ps) smax =
     (let sabs = (if sint p > 0 then p else - p)
      in max_abs ps (if sint sabs > sint smax then sabs else smax))"

definition WebRtcSpl_GetScalingSquare :: "sample list \<Rightarrow> int \<Rightarrow> nat" where
  "WebRtcSpl_GetScalingSquare in_vector looptimes =
     (let nbits = WebRtcSpl_GetSizeInBits (word_of_int looptimes);
          smax = max_abs in_vector (-1);
          t = WebRtcSpl_NormW32 (word_of_int (sint smax * sint smax))
      in if smax = 0 then 0 else if t > nbits then 0 else nbits - t)"

fun energy_loop :: "nat \<Rightarrow> sample list \<Rightarrow> int \<Rightarrow> int" where
  "energy_loop scale [] energy = energy"
| "energy_loop scale (p # ps) energy =
     energy_loop scale ps (to_int32 (energy + drop_bit scale (sint p * sint p)))"

text \<open>The energy and the scale factor.\<close>

definition WebRtcSpl_Energy :: "sample list \<Rightarrow> int \<times> nat" where
  "WebRtcSpl_Energy buf =
     (let scale = WebRtcSpl_GetScalingSquare buf (int (length buf)) in (energy_loop scale buf 0, scale))"

section \<open>Counting bits\<close>

lemma high_mask: "NOT (mask k) AND x = 0 \<longleftrightarrow> unat (x :: u32) < 2 ^ k"
proof -
  have e: "NOT (mask k) AND x = push_bit k (drop_bit k x)"
    by (rule bit_word_eqI) (auto simp: bit_simps)
  have "drop_bit k (push_bit k (drop_bit k x)) = drop_bit k x"
    by (rule bit_word_eqI) (auto simp: bit_simps dest: bit_imp_le_length)
  then have "NOT (mask k) AND x = 0 \<longleftrightarrow> drop_bit k x = 0" unfolding e by (metis drop_bit_of_0 push_bit_of_0)
  also have "\<dots> \<longleftrightarrow> unat (drop_bit k x) = 0" by (simp only: unat_eq_0)
  also have "\<dots> \<longleftrightarrow> unat x div 2 ^ k = 0" by (subst unat_drop_bit_eq) (simp add: drop_bit_eq_div)
  finally show ?thesis by (simp add: div_eq_0_iff)
qed

lemma scaled_word: "unat (a :: u32) * 2 ^ z < 2 ^ 32 \<Longrightarrow> unat (push_bit z a) = unat a * 2 ^ z"
  by (subst unsigned_push_bit_eq) (simp add: push_bit_eq_mult take_bit_nat_eq_self)

text \<open>One step of \<open>NormW32\<close> with the mask of the bits from \<open>j\<close> up: it keeps the number below \<open>2 ^ 31\<close> and
  brings it up to \<open>2 ^ j\<close>.\<close>

lemma norm_step:
  assumes "unat a * 2 ^ z < 2 ^ 31" "2 ^ (j - k) \<le> unat a * 2 ^ z" "k \<le> j" "j + k = 31" "m = NOT (mask j)"
  shows "unat a * 2 ^ norm_step a m k z < 2 ^ 31 \<and> 2 ^ j \<le> unat a * 2 ^ norm_step a m k z"
proof -
  have w: "unat (push_bit z a) = unat a * 2 ^ z" using assms(1) by (simp add: scaled_word)
  show ?thesis
  proof (cases "unat a * 2 ^ z < 2 ^ j")
    case True
    then have "norm_step a m k z = z + k" using w by (simp add: norm_step_def assms(5) high_mask)
    moreover have "unat a * 2 ^ z * 2 ^ k < 2 ^ j * 2 ^ k" using True by simp
    moreover have "(2 :: nat) ^ (j - k) * 2 ^ k = 2 ^ j" using assms(3) by (simp flip: power_add)
    moreover have "2 ^ (j - k) * 2 ^ k \<le> unat a * 2 ^ z * 2 ^ k" using assms(2) by simp
    ultimately show ?thesis using assms(4) by (simp add: power_add mult.assoc flip: power_add)
  next
    case False
    then have "norm_step a m k z = z" using w by (simp add: norm_step_def assms(5) high_mask)
    then show ?thesis using False assms(1) by simp
  qed
qed

text \<open>\<open>NormW32\<close> is the number of places by which a positive number can be shifted left.\<close>

lemma NormW32_bounds:
  assumes "0 < unat a" "unat a < 2 ^ 31"
  shows "unat a * 2 ^ WebRtcSpl_NormW32 a < 2 ^ 31" and "2 ^ 30 \<le> unat a * 2 ^ WebRtcSpl_NormW32 a"
proof -
  define z0 :: nat where "z0 = (if 0xFFFF8000 AND a = 0 then 16 else 0)"
  have "(0xFFFF8000 :: u32) = NOT (mask 15)" by (simp add: mask_eq_exp_minus_1)
  then have c: "0xFFFF8000 AND a = 0 \<longleftrightarrow> unat a < 2 ^ 15" using high_mask [of 15 a] by simp
  have 0: "unat a * 2 ^ z0 < 2 ^ 31" "2 ^ (23 - 8) \<le> unat a * 2 ^ z0" using assms by (simp_all add: z0_def c)
  define z1 where "z1 = norm_step a 0xFF800000 8 z0"
  have "unat a * 2 ^ z1 < 2 ^ 31 \<and> 2 ^ 23 \<le> unat a * 2 ^ z1"
    unfolding z1_def by (rule norm_step [OF 0]) (simp_all add: mask_eq_exp_minus_1)
  then have 1: "unat a * 2 ^ z1 < 2 ^ 31" "2 ^ (27 - 4) \<le> unat a * 2 ^ z1" by simp_all
  define z2 where "z2 = norm_step a 0xF8000000 4 z1"
  have "unat a * 2 ^ z2 < 2 ^ 31 \<and> 2 ^ 27 \<le> unat a * 2 ^ z2"
    unfolding z2_def by (rule norm_step [OF 1]) (simp_all add: mask_eq_exp_minus_1)
  then have 2: "unat a * 2 ^ z2 < 2 ^ 31" "2 ^ (29 - 2) \<le> unat a * 2 ^ z2" by simp_all
  define z3 where "z3 = norm_step a 0xE0000000 2 z2"
  have "unat a * 2 ^ z3 < 2 ^ 31 \<and> 2 ^ 29 \<le> unat a * 2 ^ z3"
    unfolding z3_def by (rule norm_step [OF 2]) (simp_all add: mask_eq_exp_minus_1)
  then have 3: "unat a * 2 ^ z3 < 2 ^ 31" "2 ^ (30 - 1) \<le> unat a * 2 ^ z3" by simp_all
  have "unat a * 2 ^ norm_step a 0xC0000000 1 z3 < 2 ^ 31 \<and> 2 ^ 30 \<le> unat a * 2 ^ norm_step a 0xC0000000 1 z3"
    by (rule norm_step [OF 3]) (simp_all add: mask_eq_exp_minus_1)
  moreover have "WebRtcSpl_NormW32 a = norm_step a 0xC0000000 1 z3"
  proof -
    have "uint a < 2 ^ 31" using assms(2) by (metis of_nat_less_iff of_nat_numeral of_nat_power uint_nat)
    moreover have "- 2147483648 \<le> uint a" by (rule order_trans [of _ 0]) simp_all
    ultimately have "sint a = uint a" by (simp add: sint_uint signed_take_bit_int_eq_self)
    then have "\<not> sint a < 0" by simp
    then show ?thesis using assms(1) by (auto simp: WebRtcSpl_NormW32_def z0_def z1_def z2_def z3_def Let_def)
  qed
  ultimately show "unat a * 2 ^ WebRtcSpl_NormW32 a < 2 ^ 31" "2 ^ 30 \<le> unat a * 2 ^ WebRtcSpl_NormW32 a" by simp_all
qed

text \<open>One step of \<open>GetSizeInBits\<close>, with the mask of the bits from \<open>k\<close> to \<open>2 k - 1\<close>.\<close>

lemma size_step:
  assumes "unat n div 2 ^ b < 2 ^ (2 * k)" "b = 0 \<or> 2 ^ b \<le> unat n" "m = NOT (mask k) AND mask (2 * k)"
  shows "unat n div 2 ^ size_step n m k b < 2 ^ k \<and> (size_step n m k b = 0 \<or> 2 ^ size_step n m k b \<le> unat n)"
proof -
  let ?x = "drop_bit b n"
  have x: "unat ?x = unat n div 2 ^ b" by (subst unat_drop_bit_eq) (simp add: drop_bit_eq_div)
  then have "unat (take_bit (2 * k) ?x) = unat ?x" using assms(1) by (subst unsigned_take_bit_eq) (simp add: take_bit_nat_eq_self)
  then have "mask (2 * k) AND ?x = ?x" by (metis and.commute take_bit_eq_mask word_unat_eq_iff)
  then have t: "m AND ?x = 0 \<longleftrightarrow> unat n div 2 ^ b < 2 ^ k"
    using high_mask [of k ?x] by (simp add: assms(3) and.assoc x)
  show ?thesis
  proof (cases "unat n div 2 ^ b < 2 ^ k")
    case True
    then show ?thesis using t assms(2) by (simp add: size_step_def)
  next
    case False
    then have "2 ^ (b + k) \<le> unat n"
      by (simp add: power_add mult.commute not_less) (metis div_le_mono le_trans mult.commute mult_le_mono2 times_div_less_eq_dividend)
    moreover have "unat n div 2 ^ (b + k) < 2 ^ k"
      using assms(1) by (simp add: power_add div_mult2_eq mult_2 less_mult_imp_div_less)
    ultimately show ?thesis using False t by (simp add: size_step_def)
  qed
qed

lemma GetSizeInBits_bounds:
  shows "unat n < 2 ^ WebRtcSpl_GetSizeInBits n" and "0 < unat n \<Longrightarrow> 2 ^ WebRtcSpl_GetSizeInBits n \<le> 2 * unat n"
proof -
  let ?ok = "\<lambda>b. b = 0 \<or> 2 ^ b \<le> unat n"
  define b0 :: nat where "b0 = (if 0xFFFF0000 AND n \<noteq> 0 then 16 else 0)"
  have "(0xFFFF0000 :: u32) = NOT (mask 16)" by (simp add: mask_eq_exp_minus_1)
  then have c: "0xFFFF0000 AND n = 0 \<longleftrightarrow> unat n < 2 ^ 16" using high_mask [of 16 n] by simp
  have "unat n < 2 ^ 32" using unsigned_less [of n] by simp
  then have 0: "unat n div 2 ^ b0 < 2 ^ (2 * 8)" "?ok b0" by (simp_all add: b0_def c div_less_iff_less_mult not_less)
  define b1 where "b1 = size_step n 0x0000FF00 8 b0"
  have "unat n div 2 ^ b1 < 2 ^ 8 \<and> ?ok b1" unfolding b1_def by (rule size_step [OF 0]) (simp add: mask_eq_exp_minus_1)
  then have 1: "unat n div 2 ^ b1 < 2 ^ (2 * 4)" "?ok b1" by simp_all
  define b2 where "b2 = size_step n 0x000000F0 4 b1"
  have "unat n div 2 ^ b2 < 2 ^ 4 \<and> ?ok b2" unfolding b2_def by (rule size_step [OF 1]) (simp add: mask_eq_exp_minus_1)
  then have 2: "unat n div 2 ^ b2 < 2 ^ (2 * 2)" "?ok b2" by simp_all
  define b3 where "b3 = size_step n 0x0000000C 2 b2"
  have "unat n div 2 ^ b3 < 2 ^ 2 \<and> ?ok b3" unfolding b3_def by (rule size_step [OF 2]) (simp add: mask_eq_exp_minus_1)
  then have 3: "unat n div 2 ^ b3 < 2 ^ (2 * 1)" "?ok b3" by simp_all
  define b4 where "b4 = size_step n 0x00000002 1 b3"
  have 4: "unat n div 2 ^ b4 < 2 ^ 1 \<and> ?ok b4" unfolding b4_def by (rule size_step [OF 3]) (simp add: mask_eq_exp_minus_1)
  have x: "unat (drop_bit b4 n) = unat n div 2 ^ b4" by (subst unat_drop_bit_eq) (simp add: drop_bit_eq_div)
  have b: "WebRtcSpl_GetSizeInBits n = (if unat n div 2 ^ b4 = 0 then b4 else b4 + 1)"
  proof -
    have "unat (drop_bit b4 n) < 2" using 4 x by simp
    then have "unat (drop_bit b4 n) = unat (0 :: u32) \<or> unat (drop_bit b4 n) = unat (1 :: u32)" by (simp add: less_2_cases_iff)
    then have "drop_bit b4 n = 0 \<or> drop_bit b4 n = 1" by (simp only: word_unat_eq_iff)
    then have "(1 :: u32) AND drop_bit b4 n = 0 \<longleftrightarrow> unat n div 2 ^ b4 = 0" unfolding x [symmetric] by auto
    then show ?thesis
      unfolding WebRtcSpl_GetSizeInBits_def Let_def b0_def [symmetric] b1_def [symmetric] b2_def [symmetric]
        b3_def [symmetric] b4_def [symmetric] by (simp add: size_step_def)
  qed
  show "unat n < 2 ^ WebRtcSpl_GetSizeInBits n" 
    using 4 b by (auto simp: div_eq_0_iff div_less_iff_less_mult mult.commute)
  show "2 ^ WebRtcSpl_GetSizeInBits n \<le> 2 * unat n" if "0 < unat n"
    using 4 b that by (auto simp: div_eq_0_iff)
qed

section \<open>The energy fits\<close>

lemma sint_neg: "sint (p :: sample) \<noteq> -32768 \<Longrightarrow> sint (- p) = - sint p"
proof -
  assume "sint p \<noteq> -32768"
  moreover have "-32768 \<le> sint p" "sint p < 32768" using sint_range_size [of p] by (simp_all add: word_size)
  ultimately show ?thesis by (simp add: sint_word_ariths signed_take_bit_int_eq_self)
qed

lemma max_abs_bounds:
  assumes "\<forall>p\<in>set ps. sint p \<noteq> -32768"
  shows "sint smax \<le> sint (max_abs ps smax)" "\<forall>p\<in>set ps. \<bar>sint p\<bar> \<le> sint (max_abs ps smax)"
    "sint (max_abs ps smax) = sint smax \<or> (\<exists>p\<in>set ps. \<bar>sint p\<bar> = sint (max_abs ps smax))"
proof -
  have "sint smax \<le> sint (max_abs ps smax) \<and> (\<forall>p\<in>set ps. \<bar>sint p\<bar> \<le> sint (max_abs ps smax)) \<and>
    (sint (max_abs ps smax) = sint smax \<or> (\<exists>p\<in>set ps. \<bar>sint p\<bar> = sint (max_abs ps smax)))"
    using assms
  proof (induction ps arbitrary: smax)
    case (Cons p ps)
    let ?a = "if sint p > 0 then p else - p"
    let ?m = "if sint ?a > sint smax then ?a else smax"
    have a: "sint ?a = \<bar>sint p\<bar>" using Cons.prems by (simp add: sint_neg)
    show ?case using Cons.IH [of ?m] Cons.prems a by (auto simp: Let_def)
  qed simp
  then show "sint smax \<le> sint (max_abs ps smax)" "\<forall>p\<in>set ps. \<bar>sint p\<bar> \<le> sint (max_abs ps smax)"
    "sint (max_abs ps smax) = sint smax \<or> (\<exists>p\<in>set ps. \<bar>sint p\<bar> = sint (max_abs ps smax))" by blast+
qed

lemma to_int32_id: "- (2 ^ 31) \<le> x \<Longrightarrow> x < 2 ^ 31 \<Longrightarrow> to_int32 x = x"
  by (simp add: to_int32_def sint_sbintrunc' signed_take_bit_int_eq_self)

lemma energy_loop_exact:
  assumes "0 \<le> en" "\<forall>p\<in>set ps. sint p * sint p div 2 ^ s \<le> B" "en + int (length ps) * B < 2 ^ 31" "0 \<le> B"
  shows "energy_loop s ps en = en + (\<Sum>p\<leftarrow>ps. sint p * sint p div 2 ^ s)"
  using assms
proof (induction ps arbitrary: en)
  case (Cons p ps)
  let ?t = "sint p * sint p div 2 ^ s"
  have t: "0 \<le> ?t" "?t \<le> B" using Cons.prems(2) by (simp_all add: pos_imp_zdiv_nonneg_iff)
  have "0 \<le> int (length ps) * B" using Cons.prems(4) by simp
  then have n: "en + ?t + int (length ps) * B < 2 ^ 31" "en + ?t < 2 ^ 31" using Cons.prems(3) t(2) by (simp_all add: algebra_simps)
  then have "to_int32 (en + ?t) = en + ?t" using t(1) Cons.prems(1) by (intro to_int32_id) simp_all
  then show ?case using Cons.IH [of "en + ?t"] Cons.prems n t(1) by (simp add: drop_bit_eq_div)
qed simp

text \<open>The scale leaves room for as many squares as there are samples, and scales no further than needed.\<close>

lemma scale_fits:
  assumes "0 < M" "M < 2 ^ 15" "0 < n" "n < 2 ^ 31" "s = WebRtcSpl_GetSizeInBits (word_of_int (int n)) - WebRtcSpl_NormW32 (word_of_int (int (M * M)))"
  shows "(M * M) div 2 ^ s * n < 2 ^ 31" and "0 < s \<Longrightarrow> 2 ^ (29 + s) \<le> n * (M * M)"
proof -
  define nb t where "nb = WebRtcSpl_GetSizeInBits (word_of_int (int n))" and "t = WebRtcSpl_NormW32 (word_of_int (int (M * M)))"
  have "M * M < 2 ^ 15 * 2 ^ 15" by (rule mult_strict_mono) (use assms(1,2) in simp_all)
  then have sq: "0 < M * M" "M * M < 2 ^ 31" using assms(1) by simp_all
  then have a: "unat (word_of_int (int (M * M)) :: u32) = M * M" by (simp add: unat_of_nat del: of_nat_mult)
  have n: "unat (word_of_int (int n) :: u32) = n" using assms(4) by (simp add: unat_of_nat del: of_nat_mult)
  have t: "M * M * 2 ^ t < 2 ^ 31" "2 ^ 30 \<le> M * M * 2 ^ t"
    using NormW32_bounds [of "word_of_int (int (M * M))"] sq unfolding a t_def by simp_all
  have nb: "n < 2 ^ nb" "2 ^ nb \<le> 2 * n" using GetSizeInBits_bounds [of "word_of_int (int n)"] assms(3) unfolding n nb_def by simp_all
  have s: "s = nb - t" using assms(5) by (simp add: nb_def t_def)
  have "(2 :: nat) ^ nb \<le> 2 ^ (s + t)" by (rule power_increasing) (simp_all add: s)
  then have "n \<le> 2 ^ s * 2 ^ t" using nb(1) by (simp add: power_add)
  then have "(M * M) div 2 ^ s * n \<le> (M * M) div 2 ^ s * (2 ^ s * 2 ^ t)" by (rule mult_le_mono2)
  also have "\<dots> \<le> M * M * 2 ^ t" by (metis mult.assoc mult_le_mono1 div_times_less_eq_dividend)
  finally show "(M * M) div 2 ^ s * n < 2 ^ 31" using t(1) by simp
  assume "0 < s"
  then have e: "nb = s + t" by (simp add: s)
  have "2 ^ 30 * 2 ^ s \<le> M * M * 2 ^ t * 2 ^ s" using t(2) by (rule mult_le_mono1)
  also have "\<dots> = M * M * 2 ^ nb" by (simp add: e power_add)
  also have "\<dots> \<le> M * M * (2 * n)" using nb(2) by (rule mult_le_mono2)
  finally show "2 ^ (29 + s) \<le> n * (M * M)" by (simp add: power_add ac_simps)
qed

definition squares :: "sample list \<Rightarrow> int" where
  "squares buf = (\<Sum>p\<leftarrow>buf. sint p * sint p)"

lemma squares_scaled:
  fixes buf :: "sample list"
  defines "e s \<equiv> (\<Sum>p\<leftarrow>buf. sint p * sint p div 2 ^ s)"
  shows "0 \<le> e s" and "e s * 2 ^ s \<le> squares buf" and "squares buf \<le> (e s + int (length buf)) * 2 ^ s"
proof -
  have q: "0 \<le> x div 2 ^ s" "x div 2 ^ s * 2 ^ s \<le> x" "x \<le> (x div 2 ^ s + 1) * 2 ^ s" if "0 \<le> x" for x :: int
  proof -
    have "x = x div 2 ^ s * 2 ^ s + x mod 2 ^ s" by (rule div_mult_mod_eq [symmetric])
    moreover have "0 \<le> x mod 2 ^ s" "x mod 2 ^ s < 2 ^ s" by simp_all
    ultimately show "x div 2 ^ s * 2 ^ s \<le> x" "x \<le> (x div 2 ^ s + 1) * 2 ^ s" unfolding distrib_right by linarith+
    show "0 \<le> x div 2 ^ s" using that by (simp add: pos_imp_zdiv_nonneg_iff)
  qed
  have "0 \<le> e s \<and> e s * 2 ^ s \<le> squares buf \<and> squares buf \<le> (e s + int (length buf)) * 2 ^ s"
    unfolding e_def squares_def
  proof (induction buf)
    case (Cons p buf)
    show ?case using Cons.IH q [of "sint p * sint p"] by (simp add: distrib_right)
  qed simp
  then show "0 \<le> e s" "e s * 2 ^ s \<le> squares buf" "squares buf \<le> (e s + int (length buf)) * 2 ^ s" by blast+
qed

lemma energy_exact:
  assumes "list_all (\<lambda>p. sint p \<noteq> -32768) buf" "length buf < 2 ^ 31" "WebRtcSpl_Energy buf = (e, s)"
  shows "e = (\<Sum>p\<leftarrow>buf. sint p * sint p div 2 ^ s) \<and> e < 2 ^ 31 \<and>
    (0 < s \<longrightarrow> (\<exists>p\<in>set buf. 2 ^ (29 + s) \<le> int (length buf) * (sint p * sint p)))"
proof (cases "buf = [] \<or> sint (max_abs buf (-1)) = 0")
  case True
  have bs: "\<forall>p\<in>set buf. sint p \<noteq> -32768" using assms(1) by (simp add: list_all_iff)
  have s: "s = 0" "e = energy_loop 0 buf 0"
    using True assms(3) by (auto simp: WebRtcSpl_Energy_def WebRtcSpl_GetScalingSquare_def signed_eq_0_iff WebRtcSpl_GetSizeInBits_def size_step_def Let_def)
  have z: "\<forall>p\<in>set buf. sint p = 0" using True max_abs_bounds(2) [OF bs, of "-1"] by auto
  then have "energy_loop 0 buf 0 = 0 + (\<Sum>p\<leftarrow>buf. sint p * sint p div 2 ^ 0)" by (intro energy_loop_exact [where B = 0]) simp_all
  moreover have "(\<Sum>p\<leftarrow>buf. sint p * sint p) = (\<Sum>p\<leftarrow>buf. 0)" using z by (intro arg_cong [where f = sum_list] map_cong) simp_all
  ultimately show ?thesis using s by simp
next
  case False
  define smax where "smax = max_abs buf (-1)"
  have bs: "\<forall>p\<in>set buf. sint p \<noteq> -32768" using assms(1) by (simp add: list_all_iff)
  note m = max_abs_bounds [OF bs, of "-1", folded smax_def]
  have pos: "0 < sint smax" using m(2) False by (cases buf) (auto simp: smax_def)
  define M where "M = nat (sint smax)"
  have M: "sint smax = int M" "0 < M" "M < 2 ^ 15" using pos sint_range_size [of smax] by (simp_all add: M_def word_size nat_less_iff)
  have n: "0 < length buf" using False by simp
  have nz: "smax \<noteq> 0" using pos by auto
  have "WebRtcSpl_GetScalingSquare buf (int (length buf)) =
      WebRtcSpl_GetSizeInBits (word_of_int (int (length buf))) - WebRtcSpl_NormW32 (word_of_int (int (M * M)))"
    unfolding WebRtcSpl_GetScalingSquare_def Let_def smax_def [symmetric] M(1) of_nat_mult using nz by simp
  then have s: "s = WebRtcSpl_GetSizeInBits (word_of_int (int (length buf))) - WebRtcSpl_NormW32 (word_of_int (int (M * M)))"
    and e: "e = energy_loop s buf 0"
    using assms(3) unfolding WebRtcSpl_Energy_def Let_def by (metis Pair_inject)+
  note fits = scale_fits [OF M(2,3) n assms(2) s]
  have sq: "sint p * sint p \<le> int (M * M)" if "p \<in> set buf" for p
  proof -
    have "\<bar>sint p\<bar> * \<bar>sint p\<bar> \<le> int M * int M" using m(2) that M(1) by (intro mult_mono) auto
    then show ?thesis by simp
  qed
  have B: "int (length buf) * (int (M * M) div 2 ^ s) < 2 ^ 31"
  proof -
    have "int (M * M div 2 ^ s * length buf) < int (2 ^ 31)" using fits(1) by (simp only: of_nat_less_iff)
    then show ?thesis by (simp add: zdiv_int mult.commute)
  qed
  have "energy_loop s buf 0 = 0 + (\<Sum>p\<leftarrow>buf. sint p * sint p div 2 ^ s)"
    by (rule energy_loop_exact [where B = "int (M * M) div 2 ^ s"]) (use B sq in \<open>simp_all add: zdiv_mono1 pos_imp_zdiv_nonneg_iff\<close>)
  moreover have "(\<Sum>p\<leftarrow>buf. sint p * sint p div 2 ^ s) \<le> (\<Sum>p\<leftarrow>buf. int (M * M) div 2 ^ s)"
    by (rule sum_list_mono) (use sq in \<open>simp add: zdiv_mono1\<close>)
  moreover have "\<exists>p\<in>set buf. 2 ^ (29 + s) \<le> int (length buf) * (sint p * sint p)" if "0 < s"
  proof -
    obtain p where p: "p \<in> set buf" "\<bar>sint p\<bar> = int M" using m(3) M by auto
    then have "sint p * sint p = int (M * M)" by (metis abs_mult_self_eq of_nat_mult)
    moreover have "int (2 ^ (29 + s)) \<le> int (length buf * (M * M))" using fits(2) [OF that] by (simp only: of_nat_le_iff)
    ultimately show ?thesis using p(1) by (intro bexI [of _ p]) simp_all
  qed
  ultimately show ?thesis using e B by (simp add: sum_list_triv)
qed

text \<open>C18.
  For a frame in which no sample is \<open>-32768\<close>, the 32-bit sum of \<open>WebRtcSpl_Energy\<close> does not overflow: the
  energy is the exact sum of the squares shifted by the scale factor, it lies in \<open>[0, 2 ^ 31)\<close>, the sum of
  squares is the scaled energy up to one unit for each sample, and a scale factor above zero is needed
  up to two bits (the largest square times the number of samples is at least \<open>2 ^ (29 + s)\<close>).\<close>

theorem energy_fits:
  assumes "list_all (\<lambda>p. sint p \<noteq> -32768) buf" "length buf < 2 ^ 31" "WebRtcSpl_Energy buf = (e, s)"
  shows "e = (\<Sum>p\<leftarrow>buf. sint p * sint p div 2 ^ s) \<and> 0 \<le> e \<and> e < 2 ^ 31 \<and>
    e * 2 ^ s \<le> squares buf \<and> squares buf \<le> (e + int (length buf)) * 2 ^ s \<and>
    (0 < s \<longrightarrow> (\<exists>p\<in>set buf. 2 ^ (29 + s) \<le> int (length buf) * (sint p * sint p)))"
  using energy_exact [OF assms] squares_scaled [where buf = buf and s = s] by simp

definition example_samples :: "sample list" where
  "example_samples = [30000, -32767, 5, 0, 32767]"

theorem energy_fits_witness:
  "WebRtcSpl_Energy example_samples = (761838150, 2) \<and>
   (761838150 :: int) * 2 ^ 2 \<le> squares example_samples \<and> squares example_samples \<le> (761838150 + 5) * 2 ^ 2"
proof -
  have r: "WebRtcSpl_Energy example_samples = (761838150, 2)" by code_simp
  have "list_all (\<lambda>p. sint p \<noteq> -32768) example_samples" by code_simp
  then show ?thesis using energy_fits [OF _ _ r] r by (simp add: example_samples_def)
qed

text \<open>\<open>-(-32768)\<close> is again \<open>-32768\<close> in 16 bits, so the scale ignores the most negative sample: a frame of
  such samples, the loudest there is, gets a negative energy or the energy of silence.\<close>

lemma loudest_frame_energy:
  "WebRtcSpl_Energy (replicate 2 (-32768)) = (-2147483648, 0)" "fst (WebRtcSpl_Energy (replicate 4 (-32768))) = 0"
  by code_simp+

end
