(* ===== verification/Audio_Buffer.thy ===== *)
theory Audio_Buffer
  imports Audio_Energy Media_Definitions
begin

text \<open>
  \<open>src/orbit/modules/media_packet.h\<close> and the \<open>OpusCodec\<close> and \<open>AudioBufferManager\<close> of
  \<open>src/orbit/modules/audio_buffer_manager.{h,cc}\<close>: the jitter buffer and the codec of one participant of an
  audio conference.

  NetEq, the RTP header parser and the Opus wrapper are WebRTC's.  They are the fields of the record
  \<open>media_lib\<close>, an argument of the definitions that call them; \<open>'n\<close>, \<open>'h\<close>, \<open>'e\<close> and \<open>'d\<close> are the states of
  NetEq, a parsed header, an encoder and a decoder.  A call that fails returns a code that is not zero, or no
  bytes.  An allocation does not fail.
\<close>

section \<open>Packets\<close>

record MediaDataPacket =
  media_buf :: "sample list option"
  md_length :: int

definition MediaDataPacket_new :: MediaDataPacket where
  "MediaDataPacket_new = \<lparr>media_buf = None, md_length = -1\<rparr>"

text \<open>The constructor leaves \<open>audio_energy\<close> indeterminate.\<close>

record MediaOutputPacket =
  encoded_buf :: "buffer option"
  mo_length :: int
  mo_ssrc :: u32
  mo_timestamp :: u32
  mo_seq_number :: u16
  mo_end_frame :: u8
  mo_audio_energy :: "int option"

definition MediaOutputPacket_new :: MediaOutputPacket where
  "MediaOutputPacket_new = \<lparr>encoded_buf = None, mo_length = -1, mo_ssrc = 0, mo_timestamp = 0, mo_seq_number = 0,
     mo_end_frame = 0, mo_audio_energy = None\<rparr>"

record UnencodedPacket =
  unencoded_buf :: "sample list option"
  up_length :: int
  stream_vec :: "u32 list"
  up_ssrc :: u32
  up_timestamp :: u32
  up_seq_number :: u16
  up_end_frame :: u8
  up_audio_energy :: "int option"

definition UnencodedPacket_new :: UnencodedPacket where
  "UnencodedPacket_new = \<lparr>unencoded_buf = None, up_length = -1, stream_vec = [], up_ssrc = 0, up_timestamp = 0,
     up_seq_number = 0, up_end_frame = 0, up_audio_energy = None\<rparr>"

section \<open>The library calls\<close>

datatype NetEqDecoder = kDecoderOpus | kDecoderCNGnb | kDecoderCNGwb | kDecoderCNGswb32kHz
datatype BackgroundNoiseMode = kBgnOn | kBgnFade | kBgnOff

record NetEqConfig =
  sample_rate_hz :: int
  enable_audio_classifier :: bool
  enable_post_decode_vad :: bool
  max_packets_in_buffer :: int
  max_delay_ms :: int
  background_noise_mode :: BackgroundNoiseMode

record ('n, 'h, 'e, 'd) media_lib =
  NetEq_Create :: "NetEqConfig \<Rightarrow> 'n"
  RegisterPayloadType :: "NetEqDecoder \<Rightarrow> string \<Rightarrow> int \<Rightarrow> 'n \<Rightarrow> int \<times> 'n"
  RtpHeader_Parse :: "buffer \<Rightarrow> 'h"
  InsertPacket :: "'h \<Rightarrow> buffer \<Rightarrow> 'n \<Rightarrow> int \<times> 'n"
  GetAudio :: "nat \<Rightarrow> 'n \<Rightarrow> (int \<times> sample list \<times> u64 \<times> u64) \<times> 'n"
  EncoderCreate :: "int \<Rightarrow> 'e"
  SetComplexity :: "int \<Rightarrow> 'e \<Rightarrow> 'e"
  EnableFec :: "'e \<Rightarrow> 'e"
  SetPacketLossRate :: "int \<Rightarrow> 'e \<Rightarrow> 'e"
  SetBitRate :: "int \<Rightarrow> 'e \<Rightarrow> 'e"
  Opus_Encode :: "sample list \<Rightarrow> int \<Rightarrow> 'e \<Rightarrow> buffer option \<times> 'e"
  DecoderCreate :: "int \<Rightarrow> 'd"
  Opus_Decode :: "buffer \<Rightarrow> 'd \<Rightarrow> (int \<times> sample list) \<times> 'd"
  PacketHasFec :: "buffer \<Rightarrow> bool"
  Opus_DecodeFec :: "buffer \<Rightarrow> 'd \<Rightarrow> (int \<times> sample list) \<times> 'd"
  Opus_DecodePlc :: "'d \<Rightarrow> (int \<times> sample list) \<times> 'd"

section \<open>The codec\<close>

record AudioOption =
  sampling_rate :: int
  complexity :: int
  channel :: int

definition DEFAULT_SAMPLE_RATE :: int where "DEFAULT_SAMPLE_RATE = 48000"
definition DEFAULT_COMPLEXITY :: int where "DEFAULT_COMPLEXITY = 4"
definition DEFAULT_PACKET_LOSS_PERCENT :: int where "DEFAULT_PACKET_LOSS_PERCENT = 20"

definition AudioOption_new :: AudioOption where
  "AudioOption_new = \<lparr>sampling_rate = DEFAULT_SAMPLE_RATE, complexity = DEFAULT_COMPLEXITY, channel = 1\<rparr>"

definition SetChannel :: "int \<Rightarrow> AudioOption \<Rightarrow> AudioOption" where "SetChannel c opt = opt\<lparr>channel := c\<rparr>"
definition SetSamplingRate :: "int \<Rightarrow> AudioOption \<Rightarrow> AudioOption" where "SetSamplingRate r opt = opt\<lparr>sampling_rate := r\<rparr>"
definition SetOptionComplexity :: "int \<Rightarrow> AudioOption \<Rightarrow> AudioOption" where "SetOptionComplexity c opt = opt\<lparr>complexity := c\<rparr>"

record ('e, 'd) OpusCodec =
  opus_encoder :: 'e
  opus_decoder :: 'd
  audio_option :: AudioOption
  packet_loss_percent :: int

definition new_encoder :: "('n, 'h, 'e, 'd) media_lib \<Rightarrow> AudioOption \<Rightarrow> 'e" where
  "new_encoder lib opt =
     SetBitRate lib (sampling_rate opt) (SetPacketLossRate lib 20 (EnableFec lib
       (SetComplexity lib (complexity opt) (EncoderCreate lib (channel opt)))))"

definition OpusCodec_new :: "('n, 'h, 'e, 'd) media_lib \<Rightarrow> AudioOption option \<Rightarrow> ('e, 'd) OpusCodec" where
  "OpusCodec_new lib opt =
     (let opt = (case opt of None \<Rightarrow> AudioOption_new | Some opt \<Rightarrow> opt)
      in \<lparr>opus_encoder = new_encoder lib opt, opus_decoder = DecoderCreate lib (channel opt), audio_option = opt,
          packet_loss_percent = DEFAULT_PACKET_LOSS_PERCENT\<rparr>)"

definition BUFFER_SAMPLES :: nat where "BUFFER_SAMPLES = 8000"
definition RTP_HEADER_BASE_SIZE :: nat where "RTP_HEADER_BASE_SIZE = 12"

text \<open>The payload after the fixed header; the length is that of the packet.\<close>

definition rtp_payload :: "buffer \<Rightarrow> int \<Rightarrow> buffer option" where
  "rtp_payload buf len =
     (if int RTP_HEADER_BASE_SIZE \<le> len \<and> nat len \<le> length buf then Some (drop RTP_HEADER_BASE_SIZE (take (nat len) buf)) else None)"

text \<open>A zeroed array of \<open>n\<close> samples after a call wrote \<open>out\<close> at its start.\<close>

definition filled :: "nat \<Rightarrow> sample list \<Rightarrow> sample list option" where
  "filled n out = (if length out \<le> n then Some (out @ replicate (n - length out) 0) else None)"

text \<open>The first \<open>n\<close> samples of an array.\<close>

definition read_samples :: "nat \<Rightarrow> sample list \<Rightarrow> sample list option" where
  "read_samples n buf = (if n \<le> length buf then Some (take n buf) else None)"

definition codec_DecodePacket ::
    "('n, 'h, 'e, 'd) media_lib \<Rightarrow> buffer \<Rightarrow> int \<Rightarrow> MediaDataPacket \<Rightarrow> ('e, 'd) OpusCodec \<Rightarrow> (bool \<times> MediaDataPacket \<times> ('e, 'd) OpusCodec) option" where
  "codec_DecodePacket lib buf len packet c = do {
     payload \<leftarrow> rtp_payload buf len;
     let ((decode_length, out), dec) = Opus_Decode lib payload (opus_decoder c);
     let c = c\<lparr>opus_decoder := dec\<rparr>;
     tmp_buf \<leftarrow> filled BUFFER_SAMPLES out;
     if decode_length < 0 then Some (False, packet, c)
     else Some (True, packet\<lparr>md_length := decode_length, media_buf := Some tmp_buf\<rparr>, c) }"

definition codec_EncodePacket ::
    "('n, 'h, 'e, 'd) media_lib \<Rightarrow> sample list \<Rightarrow> nat \<Rightarrow> MediaOutputPacket \<Rightarrow> ('e, 'd) OpusCodec \<Rightarrow> (bool \<times> MediaOutputPacket \<times> ('e, 'd) OpusCodec) option" where
  "codec_EncodePacket lib buf len packet c = do {
     pcm \<leftarrow> read_samples len buf;
     Some (case Opus_Encode lib pcm (int len * 2 * channel (audio_option c)) (opus_encoder c) of
        (None, enc) \<Rightarrow> (False, packet, c\<lparr>opus_encoder := enc\<rparr>)
      | (Some bytes, enc) \<Rightarrow>
          (True, packet\<lparr>encoded_buf := Some bytes, mo_length := int (length bytes)\<rparr>, c\<lparr>opus_encoder := enc\<rparr>)) }"

definition codec_SetPacketLossPercent :: "('n, 'h, 'e, 'd) media_lib \<Rightarrow> int \<Rightarrow> ('e, 'd) OpusCodec \<Rightarrow> ('e, 'd) OpusCodec" where
  "codec_SetPacketLossPercent lib percent c =
     (if percent < 20 then c
      else c\<lparr>packet_loss_percent := percent, opus_encoder := SetPacketLossRate lib percent (opus_encoder c)\<rparr>)"

section \<open>The buffer of a participant\<close>

definition kTimeStepMs :: nat where "kTimeStepMs = 10"
definition kMaxBlockSize :: nat where "kMaxBlockSize = kTimeStepMs * 48"

record ('n, 'e, 'd) AudioBufferManager =
  muted :: bool
  push_count :: int
  neteq :: 'n
  opus_codec :: "('e, 'd) OpusCodec"
  continue_mute_packets :: int

definition FLAGS_continue_mute_packets :: int where "FLAGS_continue_mute_packets = 10"
definition FLAGS_mute_packet_length :: int where "FLAGS_mute_packet_length = 20"
definition NETEQ_STATS_COUNT :: int where "NETEQ_STATS_COUNT = 10000"

definition neteq_config :: NetEqConfig where
  "neteq_config = \<lparr>sample_rate_hz = 48000, enable_audio_classifier = True, enable_post_decode_vad = True,
     max_packets_in_buffer = 50, max_delay_ms = 2000, background_noise_mode = kBgnOff\<rparr>"

text \<open>A failing registration is only logged.\<close>

definition neteq_Init :: "('n, 'h, 'e, 'd) media_lib \<Rightarrow> 'n" where
  "neteq_Init lib =
     fold (\<lambda>(decoder, name, payload_type) n. snd (RegisterPayloadType lib decoder name payload_type n))
       [(kDecoderOpus, ''opus'', 111), (kDecoderCNGnb, ''cng-nb'', 13), (kDecoderCNGwb, ''cng-wb'', 105),
        (kDecoderCNGswb32kHz, ''cng-swb32'', 106)]
       (NetEq_Create lib neteq_config)"

definition AudioBufferManager_new :: "('n, 'h, 'e, 'd) media_lib \<Rightarrow> AudioOption option \<Rightarrow> ('n, 'e, 'd) AudioBufferManager" where
  "AudioBufferManager_new lib opt =
     \<lparr>muted = False, push_count = 0, neteq = neteq_Init lib, opus_codec = OpusCodec_new lib opt, continue_mute_packets = 0\<rparr>"

definition buffer_Mute :: "bool \<Rightarrow> ('n, 'e, 'd) AudioBufferManager \<Rightarrow> ('n, 'e, 'd) AudioBufferManager" where
  "buffer_Mute m b = b\<lparr>muted := m\<rparr>"

definition CheckAndSetMute :: "int \<Rightarrow> ('n, 'e, 'd) AudioBufferManager \<Rightarrow> ('n, 'e, 'd) AudioBufferManager" where
  "CheckAndSetMute packet_len b =
     (if packet_len < FLAGS_mute_packet_length
      then let b = b\<lparr>continue_mute_packets := continue_mute_packets b + 1\<rparr>
           in if continue_mute_packets b > FLAGS_continue_mute_packets then buffer_Mute True b else b
      else buffer_Mute False (b\<lparr>continue_mute_packets := 0\<rparr>))"

definition PushAudioPacket ::
    "('n, 'h, 'e, 'd) media_lib \<Rightarrow> dataPacket \<Rightarrow> ('n, 'e, 'd) AudioBufferManager \<Rightarrow> ('n, 'e, 'd) AudioBufferManager option" where
  "PushAudioPacket lib packet b = do {
     payload \<leftarrow> rtp_payload (data packet) (pkt_length packet);
     let (ret, n) = InsertPacket lib (RtpHeader_Parse lib (take (nat (pkt_length packet)) (data packet))) payload (neteq b);
     let b = b\<lparr>neteq := n\<rparr>;
     Some (if ret \<noteq> 0 then b else b\<lparr>push_count := push_count b + 1\<rparr>) }"

text \<open>The array has \<open>5 * kMaxBlockSize\<close> bytes, half as many samples.\<close>

definition PopAndDecode ::
    "('n, 'h, 'e, 'd) media_lib \<Rightarrow> MediaDataPacket \<Rightarrow> ('n, 'e, 'd) AudioBufferManager \<Rightarrow> (bool \<times> MediaDataPacket \<times> ('n, 'e, 'd) AudioBufferManager) option" where
  "PopAndDecode lib packet b = do {
     let ((ret, out, out_len, num_channels), n) = GetAudio lib (kMaxBlockSize * 2) (neteq b);
     let b = b\<lparr>neteq := n\<rparr>;
     out_data \<leftarrow> filled (kMaxBlockSize * 5 div 2) out;
     if ret = 0
     then if muted b then Some (False, packet, b)
          else Some (True, packet\<lparr>md_length := sint (ucast (scast (ucast out_len :: u32) * num_channels) :: u32), media_buf := Some out_data\<rparr>, b)
     else Some (False, packet, b) }"

definition buffer_EncodePacket ::
    "('n, 'h, 'e, 'd) media_lib \<Rightarrow> sample list \<Rightarrow> nat \<Rightarrow> MediaOutputPacket \<Rightarrow> ('n, 'e, 'd) AudioBufferManager \<Rightarrow> (bool \<times> MediaOutputPacket \<times> ('n, 'e, 'd) AudioBufferManager) option" where
  "buffer_EncodePacket lib buf len packet b = do {
     (ok, packet, c) \<leftarrow> codec_EncodePacket lib buf len packet (opus_codec b);
     Some (ok, packet, b\<lparr>opus_codec := c\<rparr>) }"

definition buffer_SetPacketLossPercent ::
    "('n, 'h, 'e, 'd) media_lib \<Rightarrow> int \<Rightarrow> ('n, 'e, 'd) AudioBufferManager \<Rightarrow> ('n, 'e, 'd) AudioBufferManager" where
  "buffer_SetPacketLossPercent lib percent b =
     (let p = to_int32 (percent * 2); p = (if p > 100 then 100 else p)
      in b\<lparr>opus_codec := codec_SetPacketLossPercent lib p (opus_codec b)\<rparr>)"

text \<open>Whether the statistics are logged.\<close>

definition MaybeDisplayNetEqStats :: "('n, 'e, 'd) AudioBufferManager \<Rightarrow> bool \<times> ('n, 'e, 'd) AudioBufferManager" where
  "MaybeDisplayNetEqStats b = (if push_count b \<ge> NETEQ_STATS_COUNT then (True, b\<lparr>push_count := 0\<rparr>) else (False, b))"

section \<open>Detecting silence\<close>

text \<open>The number of short packets at the end of a sequence of packet lengths.\<close>

definition short_run :: "int list \<Rightarrow> nat" where
  "short_run lens = length (takeWhile (\<lambda>l. l < FLAGS_mute_packet_length) (rev lens))"

lemma short_run_snoc: "short_run (lens @ [l]) = (if l < FLAGS_mute_packet_length then short_run lens + 1 else 0)"
  by (simp add: short_run_def)

lemma CheckAndSetMute_run:
  assumes "\<not> muted b" "continue_mute_packets b = 0"
  shows "continue_mute_packets (fold CheckAndSetMute lens b) = int (short_run lens) \<and>
    (muted (fold CheckAndSetMute lens b) \<longleftrightarrow> 10 < short_run lens)"
proof (induction lens rule: rev_induct)
  case Nil
  show ?case using assms by (simp add: short_run_def)
next
  case (snoc l lens)
  then show ?case by (auto simp: short_run_snoc CheckAndSetMute_def buffer_Mute_def FLAGS_continue_mute_packets_def Let_def)
qed

text \<open>The share of lost packets that the encoder is told stays between 20 and 100 per cent.\<close>

definition loss_ok :: "('n, 'e, 'd) AudioBufferManager \<Rightarrow> bool" where
  "loss_ok b \<longleftrightarrow> 20 \<le> packet_loss_percent (opus_codec b) \<and> packet_loss_percent (opus_codec b) \<le> 100"

lemma loss_ok_set: "loss_ok b \<Longrightarrow> loss_ok (buffer_SetPacketLossPercent lib percent b)"
  by (simp add: loss_ok_def buffer_SetPacketLossPercent_def codec_SetPacketLossPercent_def Let_def)

lemma loss_ok_new: "loss_ok (AudioBufferManager_new lib opt)"
  by (simp add: loss_ok_def AudioBufferManager_new_def OpusCodec_new_def DEFAULT_PACKET_LOSS_PERCENT_def Let_def)

end
