(* ===== verification/Audio_Mixer.thy ===== *)
theory Audio_Mixer
  imports Audio_Buffer Network_Status
begin

text \<open>
  \<open>AudioMixerElement\<close> of \<open>src/orbit/modules/audio_mixer_element.{h,cc}\<close>: the mixer of an audio conference.
  Every ten milliseconds it takes a frame from the buffer of every participant and gives each of them the
  sum of the others.

  \<open>Start\<close> chooses the loop by flags.  By default it is \<open>MixPacketLoopWithMultiThread\<close>, which mixes and queues
  the frames, together with \<open>EncodeLoop\<close>, which encodes and delivers them; \<open>MixPacketLoopOnStable3\<close> does both
  in one thread; \<open>DecodeLoop\<close> and \<open>MixPacketLoop\<close> (\<open>HandleData\<close>) hand decoded frames over a queue.  A loop body
  holds the mutexes of the maps it uses, so one pass of a loop is one step here; the time is an argument.
  \<open>loop_state\<close> has the variables of a loop that outlive a pass.

  Listeners are compared and called through pointers; a listener is a number here, and its call a
  returned event.  A pass that would read outside of an array, or through a null pointer, is \<open>None\<close>.
\<close>

section \<open>The state\<close>

type_synonym ('n, 'e, 'd) managers = "(int, ('n, 'e, 'd) AudioBufferManager) std_map"

record ('n, 'e, 'd) AudioMixerElement =
  am_session_id :: int
  am_running :: bool
  mixer_samples :: nat
  am_codec :: "('e, 'd) OpusCodec"
  audio_buffer_managers :: "('n, 'e, 'd) managers"
  speaker_estimator :: SpeakerEstimator
  decoded_queue :: "(int, MediaDataPacket) std_map list"
  unencoded_queue :: "UnencodedPacket list"
  am_seq :: u16
  am_ts :: u32
  audio_mixer_listeners :: "(int, int) std_map"
  mix_all_listener :: "int option"
  mix_all_rtp_packet_listener :: "int option"

record loop_state =
  lp_seq :: u16
  lp_ts :: u32
  lp_time :: int

datatype mix_event =
    AudioMixed int MediaOutputPacket
  | RawMixed int "sample list"
  | SpeakerChanged int

definition ENERGY_LOW :: int where "ENERGY_LOW = 1000000"

definition AudioMixerElement_new ::
    "('n, 'h, 'e, 'd) media_lib \<Rightarrow> int \<Rightarrow> AudioOption \<Rightarrow> int option \<Rightarrow> bool \<Rightarrow> ('n, 'e, 'd) AudioMixerElement" where
  "AudioMixerElement_new lib sess opt raw_listener speaker_listener =
     \<lparr>am_session_id = sess, am_running = False, mixer_samples = nat (sampling_rate opt div 100),
      am_codec = OpusCodec_new lib (Some opt), audio_buffer_managers = [],
      speaker_estimator = (if speaker_listener then SetSpeakerChangeListener True SpeakerEstimator_new else SpeakerEstimator_new),
      decoded_queue = [], unencoded_queue = [], am_seq = 0, am_ts = 0, audio_mixer_listeners = [],
      mix_all_listener = raw_listener, mix_all_rtp_packet_listener = None\<rparr>"

section \<open>Participants and listeners\<close>

text \<open>\<open>std::map::insert\<close> keeps an element that is already there.\<close>

definition sm_insert :: "int \<Rightarrow> 'v \<Rightarrow> (int, 'v) std_map \<Rightarrow> (int, 'v) std_map" where
  "sm_insert k v m = (case sm_find (<) k m of None \<Rightarrow> sm_set (<) k v m | Some _ \<Rightarrow> m)"

definition RegisterMixResultListener :: "int \<Rightarrow> int option \<Rightarrow> ('n, 'e, 'd) AudioMixerElement \<Rightarrow> bool \<times> ('n, 'e, 'd) AudioMixerElement" where
  "RegisterMixResultListener stid event m =
     (case event of None \<Rightarrow> (False, m)
      | Some l \<Rightarrow> (True, m\<lparr>audio_mixer_listeners := sm_insert stid l (audio_mixer_listeners m)\<rparr>))"

definition SetMixAllRtpPacketListener :: "int option \<Rightarrow> ('n, 'e, 'd) AudioMixerElement \<Rightarrow> bool \<times> ('n, 'e, 'd) AudioMixerElement" where
  "SetMixAllRtpPacketListener listener m = (True, m\<lparr>mix_all_rtp_packet_listener := listener\<rparr>)"

definition UnregisterMixResultListener :: "int \<Rightarrow> ('n, 'e, 'd) AudioMixerElement \<Rightarrow> bool \<times> ('n, 'e, 'd) AudioMixerElement" where
  "UnregisterMixResultListener stid m =
     (case sm_find (<) stid (audio_mixer_listeners m) of None \<Rightarrow> (False, m)
      | Some _ \<Rightarrow> (True, m\<lparr>audio_mixer_listeners := sm_erase (<) stid (audio_mixer_listeners m)\<rparr>))"

definition AddAudioBuffer :: "('n, 'h, 'e, 'd) media_lib \<Rightarrow> int \<Rightarrow> ('n, 'e, 'd) AudioMixerElement \<Rightarrow> ('n, 'e, 'd) AudioMixerElement" where
  "AddAudioBuffer lib stid m =
     m\<lparr>audio_buffer_managers := sm_insert stid (AudioBufferManager_new lib (Some AudioOption_new)) (audio_buffer_managers m)\<rparr>"

definition RemoveAudioBuffer :: "int \<Rightarrow> ('n, 'e, 'd) AudioMixerElement \<Rightarrow> ('n, 'e, 'd) AudioMixerElement" where
  "RemoveAudioBuffer stid m =
     (case sm_find (<) stid (audio_buffer_managers m) of None \<Rightarrow> m
      | Some _ \<Rightarrow> m\<lparr>audio_buffer_managers := sm_erase (<) stid (audio_buffer_managers m)\<rparr>)"

definition mixer_PushPacket ::
    "('n, 'h, 'e, 'd) media_lib \<Rightarrow> int \<Rightarrow> dataPacket \<Rightarrow> ('n, 'e, 'd) AudioMixerElement \<Rightarrow> ('n, 'e, 'd) AudioMixerElement option" where
  "mixer_PushPacket lib stid packet m =
     (case sm_find (<) stid (audio_buffer_managers m) of None \<Rightarrow> Some m
      | Some b \<Rightarrow> do {
          b \<leftarrow> PushAudioPacket lib packet b;
          let b = snd (MaybeDisplayNetEqStats b);
          let b = CheckAndSetMute (pkt_length packet) b;
          Some (m\<lparr>audio_buffer_managers := sm_set (<) stid b (audio_buffer_managers m)\<rparr>) })"

definition mixer_OnPacketLoss ::
    "('n, 'h, 'e, 'd) media_lib \<Rightarrow> int \<Rightarrow> int \<Rightarrow> ('n, 'e, 'd) AudioMixerElement \<Rightarrow> ('n, 'e, 'd) AudioMixerElement" where
  "mixer_OnPacketLoss lib stid percent m =
     (case sm_find (<) stid (audio_buffer_managers m) of None \<Rightarrow> m
      | Some b \<Rightarrow> m\<lparr>audio_buffer_managers :=
            sm_set (<) stid (buffer_SetPacketLossPercent lib percent b) (audio_buffer_managers m)\<rparr>)"

definition mixer_Mute :: "int \<Rightarrow> bool \<Rightarrow> ('n, 'e, 'd) AudioMixerElement \<Rightarrow> bool \<times> ('n, 'e, 'd) AudioMixerElement" where
  "mixer_Mute stid mute m =
     (case sm_find (<) stid (audio_buffer_managers m) of None \<Rightarrow> (False, m)
      | Some b \<Rightarrow> (True, m\<lparr>audio_buffer_managers := sm_set (<) stid (buffer_Mute mute b) (audio_buffer_managers m)\<rparr>))"

section \<open>Mixing\<close>

text \<open>\<open>buffer[i] += curBuffer[i]\<close> and \<open>outBuffer[i] = buffer[i] - curBuffer[i]\<close>, or \<open>buffer[i]\<close> for a participant
  without a frame: the sum has 32 bits and is stored in 16.\<close>

definition mix_add :: "u32 list \<Rightarrow> sample list \<Rightarrow> u32 list" where
  "mix_add total_buf cur = map2 (\<lambda>b c. b + scast c) total_buf cur"

definition mix_out :: "u32 list \<Rightarrow> sample list option \<Rightarrow> sample list" where
  "mix_out total_buf cur =
     (case cur of None \<Rightarrow> map ucast total_buf | Some cur \<Rightarrow> map2 (\<lambda>b c. ucast (b - scast c)) total_buf cur)"

text \<open>What the first half of a pass leaves for participant \<open>i\<close>: \<open>packet_collections[i]\<close>, if there, and \<open>audio_energy[i]\<close>.\<close>

type_synonym contribution = "sample list option \<times> int"

text \<open>The loop over the participants that takes and adds up their frames.\<close>

fun mix_inputs ::
    "('n, 'h, 'e, 'd) media_lib \<Rightarrow> bool \<Rightarrow> nat \<Rightarrow> int \<Rightarrow> int \<Rightarrow> ('n, 'e, 'd) managers \<Rightarrow> u32 list \<Rightarrow> NetworkStatusManager
     \<Rightarrow> (('n, 'e, 'd) managers \<times> contribution list \<times> u32 list \<times> NetworkStatusManager) option" where
  "mix_inputs lib skip_low samples now sid [] total_buf g = Some ([], [], total_buf, g)"
| "mix_inputs lib skip_low samples now sid ((stid, manager) # ms) total_buf g = do {
     (has_data, pkt, manager) \<leftarrow> PopAndDecode lib MediaDataPacket_new manager;
     if \<not> has_data \<or> md_length pkt < 0
     then do {
       (ms, cs, total_buf, g) \<leftarrow> mix_inputs lib skip_low samples now sid ms total_buf g;
       Some ((stid, manager) # ms, (None, 0) # cs, total_buf, g) }
     else do {
       buf \<leftarrow> media_buf pkt;
       cur \<leftarrow> read_samples samples buf;
       let energy = fst (WebRtcSpl_Energy cur);
       let g = UpdateTimeOfStreamHighEnergy now sid stid energy g;
       let low = skip_low \<and> energy < ENERGY_LOW;
       (ms, cs, total_buf, g) \<leftarrow> mix_inputs lib skip_low samples now sid ms (if low then total_buf else mix_add total_buf cur) g;
       Some ((stid, manager) # ms, (if low then None else Some cur, energy) # cs, total_buf, g) } }"

text \<open>The frame of all participants, for the listeners of the whole conference.\<close>

definition mix_all ::
    "('n, 'h, 'e, 'd) media_lib \<Rightarrow> u16 \<Rightarrow> u32 \<Rightarrow> int \<Rightarrow> u32 list \<Rightarrow> ('n, 'e, 'd) AudioMixerElement
     \<Rightarrow> (mix_event list \<times> ('n, 'e, 'd) AudioMixerElement) option" where
  "mix_all lib seq ts energy total_buf m =
     (let outSumBuffer = map ucast total_buf;
          raw = (case mix_all_listener m of None \<Rightarrow> [] | Some l \<Rightarrow> [RawMixed l outSumBuffer])
      in case mix_all_rtp_packet_listener m of
           None \<Rightarrow> Some (raw, m)
         | Some l \<Rightarrow> do {
             (ok, mixed_pkt, c) \<leftarrow> codec_EncodePacket lib outSumBuffer (mixer_samples m) MediaOutputPacket_new (am_codec m);
             let m = m\<lparr>am_codec := c\<rparr>;
             Some (if ok
               then (raw @ [AudioMixed l (mixed_pkt\<lparr>mo_timestamp := ts, mo_seq_number := seq, mo_ssrc := -1, mo_audio_energy := Some energy\<rparr>)], m)
               else (raw, m)) })"

definition next_frame :: "('n, 'e, 'd) AudioMixerElement \<Rightarrow> mix_event list \<times> ('n, 'e, 'd) AudioMixerElement" where
  "next_frame m =
     (let (s, told) = NextFrame (speaker_estimator m) in (map SpeakerChanged told, m\<lparr>speaker_estimator := s\<rparr>))"

section \<open>Mixing and encoding in different threads\<close>

text \<open>The loop of \<open>MixPacketLoopWithMultiThread\<close> that queues a frame for every participant; the muted ones
  share one.\<close>

fun queue_mixes ::
    "u16 \<Rightarrow> u32 \<Rightarrow> u32 list \<Rightarrow> u32 list \<Rightarrow> bool \<Rightarrow> ('n, 'e, 'd) managers \<Rightarrow> contribution list \<Rightarrow> ('n, 'e, 'd) AudioMixerElement
     \<Rightarrow> ('n, 'e, 'd) AudioMixerElement" where
  "queue_mixes seq ts total_buf vec_stream mute_stream_send ((stid, manager) # ms) ((cur, energy) # cs) m =
     (let is_muted = word_of_int stid \<in> set vec_stream
      in if is_muted \<and> mute_stream_send
         then queue_mixes seq ts total_buf vec_stream mute_stream_send ms cs m
         else
           let streams = (if is_muted then vec_stream else [word_of_int stid]);
               tmp_buf = mix_out total_buf cur;
               m = (case sm_find (<) stid (audio_mixer_listeners m) of
                      None \<Rightarrow> m
                    | Some _ \<Rightarrow>
                        m\<lparr>unencoded_queue := unencoded_queue m @
                            [UnencodedPacket_new\<lparr>stream_vec := streams, up_timestamp := ts, up_seq_number := seq,
                               up_ssrc := -1, unencoded_buf := Some tmp_buf\<rparr>],
                          speaker_estimator := UpdateAudioEnergy stid energy (speaker_estimator m)\<rparr>)
           in queue_mixes seq ts total_buf vec_stream (mute_stream_send \<or> is_muted) ms cs m)"
| "queue_mixes seq ts total_buf vec_stream mute_stream_send _ _ m = m"

definition muted_streams :: "('n, 'e, 'd) managers \<Rightarrow> u32 list" where
  "muted_streams ms = map (\<lambda>(stid, _). word_of_int stid) (filter (\<lambda>(_, manager). muted manager) ms)"

text \<open>One pass of \<open>MixPacketLoopWithMultiThread\<close>; \<open>lp_time\<close> is \<open>next_loop_time\<close>.\<close>

definition mix_pass_multi ::
    "('n, 'h, 'e, 'd) media_lib \<Rightarrow> bool \<Rightarrow> int \<Rightarrow> loop_state \<Rightarrow> NetworkStatusManager \<Rightarrow> ('n, 'e, 'd) AudioMixerElement
     \<Rightarrow> (mix_event list \<times> loop_state \<times> NetworkStatusManager \<times> ('n, 'e, 'd) AudioMixerElement) option" where
  "mix_pass_multi lib skip_low now lp g m =
     (if now < lp_time lp then Some ([], lp, g, m)
      else
        let lp = lp\<lparr>lp_time := lp_time lp + 10\<rparr>
        in if audio_buffer_managers m = [] then Some ([], lp, g, m)
           else do {
             let vec_stream = muted_streams (audio_buffer_managers m);
             (ms, cs, total_buf, g) \<leftarrow> mix_inputs lib skip_low (mixer_samples m) now (am_session_id m) (audio_buffer_managers m)
                (replicate (mixer_samples m) 0) g;
             let m = m\<lparr>audio_buffer_managers := ms\<rparr>;
             if list_all (\<lambda>c. fst c = None) cs then Some ([], lp, g, m)
             else do {
               let lp = lp\<lparr>lp_seq := lp_seq lp + 1, lp_ts := lp_ts lp + of_nat (mixer_samples m)\<rparr>;
               let (told, m) = next_frame m;
               let m = queue_mixes (lp_seq lp) (lp_ts lp) total_buf vec_stream False ms cs m;
               (events, m) \<leftarrow> mix_all lib (lp_seq lp) (lp_ts lp) (snd (hd cs)) total_buf m;
               Some (told @ events, lp, g, m) } })"

text \<open>The loop of \<open>EncodeLoop\<close> over the addressees of a frame: the first one whose encoder succeeds encodes
  it for all.\<close>

fun encode_streams ::
    "('n, 'h, 'e, 'd) media_lib \<Rightarrow> UnencodedPacket \<Rightarrow> u32 list \<Rightarrow> bool \<Rightarrow> MediaOutputPacket \<Rightarrow> ('n, 'e, 'd) AudioMixerElement
     \<Rightarrow> (mix_event list \<times> ('n, 'e, 'd) AudioMixerElement) option" where
  "encode_streams lib up [] is_encode mixed_pkt m = Some ([], m)"
| "encode_streams lib up (s # ss) is_encode mixed_pkt m =
     (let stid = sint s
      in case sm_find (<) stid (audio_buffer_managers m) of
           None \<Rightarrow> encode_streams lib up ss is_encode mixed_pkt m
         | Some b \<Rightarrow> do {
             (is_encode, mixed_pkt, b) \<leftarrow>
               (if is_encode then Some (is_encode, mixed_pkt, b)
                else do { buf \<leftarrow> unencoded_buf up; buffer_EncodePacket lib buf 480 mixed_pkt b });
             let m = m\<lparr>audio_buffer_managers := sm_set (<) stid b (audio_buffer_managers m)\<rparr>;
             let (here, mixed_pkt) =
               (case sm_find (<) stid (audio_mixer_listeners m) of
                  None \<Rightarrow> ([], mixed_pkt)
                | Some l \<Rightarrow>
                    if is_encode
                    then let mixed_pkt = mixed_pkt\<lparr>mo_timestamp := up_timestamp up, mo_seq_number := up_seq_number up, mo_ssrc := -1\<rparr>
                         in ([AudioMixed l mixed_pkt], mixed_pkt)
                    else ([], mixed_pkt));
             (events, m) \<leftarrow> encode_streams lib up ss is_encode mixed_pkt m;
             Some (here @ events, m) })"

text \<open>One pass of \<open>EncodeLoop\<close>; several threads run it, a pass takes a frame of the queue.\<close>

definition encode_pass ::
    "('n, 'h, 'e, 'd) media_lib \<Rightarrow> ('n, 'e, 'd) AudioMixerElement \<Rightarrow> (mix_event list \<times> ('n, 'e, 'd) AudioMixerElement) option" where
  "encode_pass lib m =
     (case unencoded_queue m of [] \<Rightarrow> Some ([], m)
      | up # ups \<Rightarrow> encode_streams lib up (stream_vec up) False MediaOutputPacket_new (m\<lparr>unencoded_queue := ups\<rparr>))"

section \<open>Mixing and encoding in one thread\<close>

text \<open>The loop of \<open>MixPacketLoopOnStable3\<close> that encodes and delivers.\<close>

fun send_mixes ::
    "('n, 'h, 'e, 'd) media_lib \<Rightarrow> bool \<Rightarrow> u16 \<Rightarrow> u32 \<Rightarrow> u32 list \<Rightarrow> MediaOutputPacket \<Rightarrow> ('n, 'e, 'd) managers \<Rightarrow> contribution list
     \<Rightarrow> ('n, 'e, 'd) AudioMixerElement \<Rightarrow> (mix_event list \<times> ('n, 'e, 'd) AudioMixerElement) option" where
  "send_mixes lib skip_low seq ts total_buf sum_pkt ((stid, manager) # ms) ((cur, energy) # cs) m =
     (case sm_find (<) stid (audio_mixer_listeners m) of
        None \<Rightarrow> send_mixes lib skip_low seq ts total_buf sum_pkt ms cs m
      | Some l \<Rightarrow> do {
          let outBuffer = mix_out total_buf cur;
          let samples = mixer_samples m;
          (encode_result, mixed_pkt, sum_pkt, manager) \<leftarrow>
            (if skip_low \<and> cur = None
             then if encoded_buf sum_pkt = None
                  then do { (ok, p, b) \<leftarrow> buffer_EncodePacket lib outBuffer samples sum_pkt manager; Some (ok, p, p, b) }
                  else Some (False, sum_pkt, sum_pkt, manager)
             else do { (ok, p, b) \<leftarrow> buffer_EncodePacket lib outBuffer samples MediaOutputPacket_new manager; Some (ok, p, sum_pkt, b) });
          let m = m\<lparr>audio_buffer_managers := sm_set (<) stid manager (audio_buffer_managers m)\<rparr>;
          let (here, m) =
            (if encode_result
             then ([AudioMixed l (mixed_pkt\<lparr>mo_timestamp := ts, mo_seq_number := seq, mo_ssrc := -1, mo_audio_energy := Some energy\<rparr>)],
                   m\<lparr>speaker_estimator := UpdateAudioEnergy stid energy (speaker_estimator m)\<rparr>)
             else ([], m));
          (events, m) \<leftarrow> send_mixes lib skip_low seq ts total_buf sum_pkt ms cs m;
          Some (here @ events, m) })"
| "send_mixes lib skip_low seq ts total_buf sum_pkt _ _ m = Some ([], m)"

text \<open>One pass of \<open>MixPacketLoopOnStable3\<close>; \<open>lp_time\<close> is \<open>start_time\<close>.\<close>

definition mix_pass_stable3 ::
    "('n, 'h, 'e, 'd) media_lib \<Rightarrow> bool \<Rightarrow> int \<Rightarrow> loop_state \<Rightarrow> NetworkStatusManager \<Rightarrow> ('n, 'e, 'd) AudioMixerElement
     \<Rightarrow> (mix_event list \<times> loop_state \<times> NetworkStatusManager \<times> ('n, 'e, 'd) AudioMixerElement) option" where
  "mix_pass_stable3 lib skip_low now lp g m =
     (if now - lp_time lp < 10 then Some ([], lp, g, m)
      else
        let lp = lp\<lparr>lp_time := now\<rparr>
        in if audio_buffer_managers m = [] then Some ([], lp, g, m)
           else do {
             let lp = lp\<lparr>lp_seq := lp_seq lp + 1, lp_ts := lp_ts lp + of_nat (mixer_samples m)\<rparr>;
             (ms, cs, total_buf, g) \<leftarrow> mix_inputs lib skip_low (mixer_samples m) now (am_session_id m) (audio_buffer_managers m)
                (replicate (mixer_samples m) 0) g;
             let m = m\<lparr>audio_buffer_managers := ms\<rparr>;
             if list_all (\<lambda>c. fst c = None) cs then Some ([], lp, g, m)
             else do {
               let (told, m) = next_frame m;
               (sent, m) \<leftarrow> send_mixes lib skip_low (lp_seq lp) (lp_ts lp) total_buf MediaOutputPacket_new ms cs m;
               (events, m) \<leftarrow> mix_all lib (lp_seq lp) (lp_ts lp) (snd (hd cs)) total_buf m;
               Some (told @ sent @ events, lp, g, m) } })"

section \<open>Sums of samples\<close>

text \<open>NetEq writes no more samples than the caller has room for.\<close>

definition GetAudio_bounded :: "('n, 'h, 'e, 'd) media_lib \<Rightarrow> bool" where
  "GetAudio_bounded lib \<longleftrightarrow> (\<forall>n st. length (fst (snd (fst (GetAudio lib n st)))) \<le> n)"

definition max_samples :: nat where "max_samples = kMaxBlockSize * 5 div 2"

lemma max_samples_eq: "max_samples = 1200" "kMaxBlockSize = 480"
  by (simp_all add: max_samples_def kMaxBlockSize_def kTimeStepMs_def)

lemma PopAndDecode_total:
  assumes "GetAudio_bounded lib"
  obtains ok pkt b' where "PopAndDecode lib MediaDataPacket_new b = Some (ok, pkt, b')" "muted b' = muted b"
    "opus_codec b' = opus_codec b" "ok \<Longrightarrow> \<not> muted b" "ok \<Longrightarrow> \<exists>buf. media_buf pkt = Some buf \<and> length buf = max_samples"
proof -
  obtain ret out len ch n where g: "GetAudio lib (kMaxBlockSize * 2) (neteq b) = ((ret, out, len, ch), n)" by (metis prod.collapse)
  have "length out \<le> kMaxBlockSize * 2" using assms by (auto simp: GetAudio_bounded_def g dest: spec [of _ "kMaxBlockSize * 2"] spec [of _ "neteq b"])
      (metis fst_conv g snd_conv)
  then have "length out \<le> kMaxBlockSize * 5 div 2" by (simp add: max_samples_eq)
  then have "PopAndDecode lib MediaDataPacket_new b = Some (ret = 0 \<and> \<not> muted b,
      if ret = 0 \<and> \<not> muted b
      then MediaDataPacket_new\<lparr>md_length := sint (ucast (scast (ucast len :: u32) * ch) :: u32), media_buf := Some (out @ replicate (max_samples - length out) 0)\<rparr>
      else MediaDataPacket_new, b\<lparr>neteq := n\<rparr>)"
    by (simp add: PopAndDecode_def g filled_def max_samples_def Let_def)
  then show thesis by (rule that) (use \<open>length out \<le> kMaxBlockSize * 5 div 2\<close> in \<open>simp_all add: max_samples_def\<close>)
qed

text \<open>The frame that a participant contributes to a pass.\<close>

definition frame_of :: "('n, 'h, 'e, 'd) media_lib \<Rightarrow> bool \<Rightarrow> nat \<Rightarrow> ('n, 'e, 'd) AudioBufferManager \<Rightarrow> sample list option" where
  "frame_of lib skip_low samples b =
     (case PopAndDecode lib MediaDataPacket_new b of
        Some (True, pkt, _) \<Rightarrow>
          if md_length pkt < 0 then None
          else case media_buf pkt of None \<Rightarrow> None
            | Some buf \<Rightarrow> if skip_low \<and> fst (WebRtcSpl_Energy (take samples buf)) < ENERGY_LOW then None else Some (take samples buf)
      | _ \<Rightarrow> None)"

lemma frame_of_length:
  assumes "GetAudio_bounded lib" "samples \<le> max_samples" "frame_of lib skip_low samples b = Some cur"
  shows "length cur = samples"
proof -
  obtain ok pkt b' where p: "PopAndDecode lib MediaDataPacket_new b = Some (ok, pkt, b')"
    "ok \<Longrightarrow> \<exists>buf. media_buf pkt = Some buf \<and> length buf = max_samples" using PopAndDecode_total [OF assms(1), of b] by metis
  show ?thesis using assms(2,3) p by (auto simp: frame_of_def split: if_splits bool.splits option.splits)
qed

lemma frame_of_muted:
  assumes "GetAudio_bounded lib" "muted b"
  shows "frame_of lib skip_low samples b = None"
proof -
  obtain ok pkt b' where "PopAndDecode lib MediaDataPacket_new b = Some (ok, pkt, b')" "ok \<Longrightarrow> \<not> muted b"
    using PopAndDecode_total [OF assms(1), of b] by metis
  then show ?thesis using assms(2) by (auto simp: frame_of_def split: bool.split)
qed

text \<open>Sample \<open>k\<close> of an optional frame.\<close>

definition sample_at :: "nat \<Rightarrow> sample list option \<Rightarrow> sample" where
  "sample_at k f = (case f of None \<Rightarrow> 0 | Some cur \<Rightarrow> cur ! k)"

lemma nth_mix_add: "length cur = length acc \<Longrightarrow> k < length acc \<Longrightarrow> mix_add acc cur ! k = acc ! k + scast (sample_at k (Some cur))"
  by (simp add: mix_add_def sample_at_def)

lemma mix_inputs_total:
  assumes "GetAudio_bounded lib" "samples \<le> max_samples" "length acc = samples"
  shows "\<exists>ms' cs total_buf g'. mix_inputs lib skip_low samples now sid ms acc g = Some (ms', cs, total_buf, g') \<and>
    map fst ms' = map fst ms \<and> map (\<lambda>p. muted (snd p)) ms' = map (\<lambda>p. muted (snd p)) ms \<and>
    map (\<lambda>p. opus_codec (snd p)) ms' = map (\<lambda>p. opus_codec (snd p)) ms \<and>
    map fst cs = map (\<lambda>p. frame_of lib skip_low samples (snd p)) ms \<and> length total_buf = samples \<and>
    (\<forall>k < samples. total_buf ! k = acc ! k + (\<Sum>c\<leftarrow>cs. scast (sample_at k (fst c))))"
  using assms(3)
proof (induction ms arbitrary: acc g)
  case (Cons p ms)
  obtain stid b where p: "p = (stid, b)" by (cases p)
  obtain ok pkt b' where pop: "PopAndDecode lib MediaDataPacket_new b = Some (ok, pkt, b')" and b': "muted b' = muted b" "opus_codec b' = opus_codec b"
    and buf: "ok \<Longrightarrow> \<exists>buf. media_buf pkt = Some buf \<and> length buf = max_samples" using PopAndDecode_total [OF assms(1), of b] by metis
  show ?case
  proof (cases "ok \<and> 0 \<le> md_length pkt")
    case False
    then have "frame_of lib skip_low samples b = None" by (auto simp: frame_of_def pop split: bool.split)
    moreover have "\<not> ok \<or> md_length pkt < 0" using False by auto
    ultimately show ?thesis using Cons.IH [OF Cons.prems, of g] pop b' by (auto simp: p sample_at_def)
  next
    case True
    then obtain buf where buf: "media_buf pkt = Some buf" "length buf = max_samples" using buf by blast
    define cur where "cur = take samples buf"
    have cur: "read_samples samples buf = Some cur" "length cur = samples" using buf(2) assms(2) by (simp_all add: read_samples_def cur_def)
    define low where "low = (skip_low \<and> fst (WebRtcSpl_Energy cur) < ENERGY_LOW)"
    define acc' where "acc' = (if low then acc else mix_add acc cur)"
    have f: "frame_of lib skip_low samples b = (if low then None else Some cur)" using True by (simp add: frame_of_def pop buf(1) cur_def low_def)
    have l: "length acc' = samples" using Cons.prems cur(2) by (simp add: acc'_def mix_add_def)
    have k: "acc' ! k = acc ! k + scast (sample_at k (if low then None else Some cur))" if "k < samples" for k
      using that Cons.prems cur(2) nth_mix_add [of cur acc k] by (simp add: acc'_def sample_at_def)
    let ?g = "UpdateTimeOfStreamHighEnergy now sid stid (fst (WebRtcSpl_Energy cur)) g"
    obtain ms' cs tb g' where r: "mix_inputs lib skip_low samples now sid ms acc' ?g = Some (ms', cs, tb, g')"
      "map fst ms' = map fst ms" "map (\<lambda>p. muted (snd p)) ms' = map (\<lambda>p. muted (snd p)) ms" "map (\<lambda>p. opus_codec (snd p)) ms' = map (\<lambda>p. opus_codec (snd p)) ms"
      "map fst cs = map (\<lambda>p. frame_of lib skip_low samples (snd p)) ms" "length tb = samples"
      "\<forall>k < samples. tb ! k = acc' ! k + (\<Sum>c\<leftarrow>cs. scast (sample_at k (fst c)))" using Cons.IH [OF l, of ?g] by blast
    have eq: "mix_inputs lib skip_low samples now sid (p # ms) acc g =
        Some ((stid, b') # ms', (if low then None else Some cur, fst (WebRtcSpl_Energy cur)) # cs, tb, g')"
      using True r(1) by (simp add: p pop buf(1) cur(1) low_def [symmetric] acc'_def [symmetric] Let_def)
    show ?thesis
    proof (rule exI, rule exI, rule exI, rule exI, rule conjI [OF eq], intro conjI)
      show "\<forall>k < samples. tb ! k = acc ! k + (\<Sum>c\<leftarrow>(if low then None else Some cur, fst (WebRtcSpl_Energy cur)) # cs. scast (sample_at k (fst c)))"
        using r(7) k by (simp add: add.assoc)
    qed (use r(2-6) b' f in \<open>simp_all add: p\<close>)
  qed
qed (simp add: assms)

text \<open>The samples of everybody but participant \<open>i\<close>, added up in 16 bits.\<close>

definition others_mix :: "nat \<Rightarrow> sample list option list \<Rightarrow> nat \<Rightarrow> sample list" where
  "others_mix samples fs i = map (\<lambda>k. \<Sum>j\<leftarrow>filter (\<lambda>j. j \<noteq> i) [0..<length fs]. sample_at k (fs ! j)) [0..<samples]"

lemma ucast_16_add: "(ucast (a + b :: u32) :: u16) = ucast a + ucast b"
proof -
  have "uint (ucast (a + b) :: u16) = uint (ucast a + ucast b :: u16)"
    by (simp add: unsigned_ucast_eq uint_word_ariths take_bit_eq_mod mod_add_eq mod_mod_cancel)
  then show ?thesis by (simp only: word_uint_eq_iff)
qed

lemma ucast_16_diff: "(ucast (a - b :: u32) :: u16) = ucast a - ucast b"
  using ucast_16_add [of "a - b" b] by (simp add: eq_diff_eq)

lemma ucast_16_scast: "(ucast (scast (x :: u16) :: u32) :: u16) = x"
  by (rule bit_word_eqI) (auto simp: bit_simps)

lemma ucast_16_sum: "(ucast (\<Sum>x\<leftarrow>xs. scast (f x) :: u32) :: u16) = (\<Sum>x\<leftarrow>xs. f x)"
  by (induction xs) (simp_all add: ucast_16_add ucast_16_scast)

lemma sum_but_one:
  fixes f :: "nat \<Rightarrow> 'a :: ab_group_add"
  assumes "i < n"
  shows "(\<Sum>j\<leftarrow>filter (\<lambda>j. j \<noteq> i) [0..<n]. f j) = (\<Sum>j\<leftarrow>[0..<n]. f j) - f i"
proof -
  have "(\<Sum>j\<leftarrow>filter (\<lambda>j. j \<noteq> i) [0..<n]. f j) = (\<Sum>j\<in>{0..<n} - {i}. f j)"
    by (subst sum_list_distinct_conv_sum_set) (auto intro: sum.cong)
  also have "\<dots> = (\<Sum>j\<in>{0..<n}. f j) - f i" using assms by (simp add: sum_diff1)
  finally show ?thesis by (simp add: sum_list_distinct_conv_sum_set)
qed

lemma sum_list_nths: "(\<Sum>x\<leftarrow>xs. f x) = (\<Sum>j\<leftarrow>[0..<length xs]. f (xs ! j))"
  by (rule arg_cong [where f = sum_list]) (rule nth_equalityI, simp_all)

text \<open>\<open>mix_out\<close> leaves the sum of the others, because both sums wrap around alike.\<close>

lemma mix_out_others:
  assumes "i < length fs" "length total_buf = samples" "\<forall>cur. fs ! i = Some cur \<longrightarrow> length cur = samples"
    "\<forall>k < samples. total_buf ! k = (\<Sum>f\<leftarrow>fs. scast (sample_at k f))"
  shows "mix_out total_buf (fs ! i) = others_mix samples fs i"
proof (rule nth_equalityI)
  show l: "length (mix_out total_buf (fs ! i)) = length (others_mix samples fs i)"
    using assms(2,3) by (auto simp: mix_out_def others_mix_def split: option.split)
  fix k
  assume "k < length (mix_out total_buf (fs ! i))"
  then have k: "k < samples" using l by (simp add: others_mix_def)
  have "mix_out total_buf (fs ! i) ! k = ucast (total_buf ! k - scast (sample_at k (fs ! i)))"
    using k assms(2,3) by (auto simp: mix_out_def sample_at_def split: option.split)
  also have "\<dots> = (\<Sum>f\<leftarrow>fs. sample_at k f) - sample_at k (fs ! i)"
    using k assms(4) by (simp add: ucast_16_diff ucast_16_scast ucast_16_sum)
  also have "\<dots> = (\<Sum>j\<leftarrow>filter (\<lambda>j. j \<noteq> i) [0..<length fs]. sample_at k (fs ! j))"
    using sum_but_one [OF assms(1), of "\<lambda>j. sample_at k (fs ! j)"] sum_list_nths [of "sample_at k" fs] by simp
  finally show "mix_out total_buf (fs ! i) ! k = others_mix samples fs i ! k" using k by (simp add: others_mix_def)
qed

text \<open>A sum that fits into 16 bits is exact.\<close>

lemma sint_sum_exact:
  assumes "- 32768 \<le> (\<Sum>x\<leftarrow>xs. sint (f x :: sample))" "(\<Sum>x\<leftarrow>xs. sint (f x)) \<le> 32767"
  shows "sint (\<Sum>x\<leftarrow>xs. f x) = (\<Sum>x\<leftarrow>xs. sint (f x))"
proof -
  have "(\<Sum>x\<leftarrow>xs. f x) = word_of_int (\<Sum>x\<leftarrow>xs. sint (f x))"
    by (induction xs) (simp_all add: of_int_add)
  then show ?thesis using assms by (simp add: sint_sbintrunc' signed_take_bit_int_eq_self)
qed

section \<open>Who gets which frame\<close>

definition frames_for :: "u32 \<Rightarrow> UnencodedPacket list \<Rightarrow> UnencodedPacket list" where
  "frames_for s ups = filter (\<lambda>up. s \<in> set (stream_vec up)) ups"

definition listens :: "('n, 'e, 'd) AudioMixerElement \<Rightarrow> int \<Rightarrow> bool" where
  "listens m stid \<longleftrightarrow> sm_find (<) stid (audio_mixer_listeners m) \<noteq> None"

text \<open>What \<open>queue_mixes\<close> appends, and what else it changes.\<close>

fun queued ::
    "u16 \<Rightarrow> u32 \<Rightarrow> u32 list \<Rightarrow> u32 list \<Rightarrow> (int \<Rightarrow> bool) \<Rightarrow> bool \<Rightarrow> int list \<Rightarrow> sample list option list \<Rightarrow> UnencodedPacket list" where
  "queued seq ts total_buf vec ls sent (i # is) (f # fs) =
     (if word_of_int i \<in> set vec \<and> sent then queued seq ts total_buf vec ls sent is fs
      else (if ls i
            then [UnencodedPacket_new\<lparr>stream_vec := (if word_of_int i \<in> set vec then vec else [word_of_int i]), up_timestamp := ts,
                    up_seq_number := seq, up_ssrc := -1, unencoded_buf := Some (mix_out total_buf f)\<rparr>]
            else []) @ queued seq ts total_buf vec ls (sent \<or> word_of_int i \<in> set vec) is fs)"
| "queued seq ts total_buf vec ls sent _ _ = []"

lemma same_speaker: "\<exists>s. m = m\<lparr>speaker_estimator := s\<rparr>"
  by (rule exI [of _ "speaker_estimator m"]) simp

lemma queue_mixes_queued:
  assumes "length ms = length cs"
  shows "\<exists>s. queue_mixes seq ts total_buf vec sent ms cs m =
    m\<lparr>unencoded_queue := unencoded_queue m @ queued seq ts total_buf vec (listens m) sent (map fst ms) (map fst cs), speaker_estimator := s\<rparr>"
  using assms
proof (induction seq ts total_buf vec sent ms cs m rule: queue_mixes.induct)
  case (1 seq ts total_buf vec sent stid manager ms cur energy cs m)
  show ?case
  proof (cases "word_of_int stid \<in> set vec \<and> sent")
    case True
    then show ?thesis using 1 by (simp add: Let_def)
  next
    case False
    let ?m = "case sm_find (<) stid (audio_mixer_listeners m) of None \<Rightarrow> m
       | Some _ \<Rightarrow> m\<lparr>unencoded_queue := unencoded_queue m @
            [UnencodedPacket_new\<lparr>stream_vec := (if word_of_int stid \<in> set vec then vec else [word_of_int stid]), up_timestamp := ts,
               up_seq_number := seq, up_ssrc := -1, unencoded_buf := Some (mix_out total_buf cur)\<rparr>],
            speaker_estimator := UpdateAudioEnergy stid energy (speaker_estimator m)\<rparr>"
    have l: "listens ?m = listens m" by (rule ext) (simp add: listens_def split: option.split)
    have q: "queue_mixes seq ts total_buf vec sent ((stid, manager) # ms) ((cur, energy) # cs) m =
        queue_mixes seq ts total_buf vec (sent \<or> word_of_int stid \<in> set vec) ms cs ?m" using False by (simp add: Let_def)
    obtain s where s: "queue_mixes seq ts total_buf vec (sent \<or> word_of_int stid \<in> set vec) ms cs ?m =
        ?m\<lparr>unencoded_queue := unencoded_queue ?m @ queued seq ts total_buf vec (listens m) (sent \<or> word_of_int stid \<in> set vec) (map fst ms) (map fst cs),
           speaker_estimator := s\<rparr>"
      using 1(2) [OF refl False refl refl refl] 1(3) unfolding l by auto
    have e: "unencoded_queue ?m @ queued seq ts total_buf vec (listens m) (sent \<or> word_of_int stid \<in> set vec) (map fst ms) (map fst cs) =
        unencoded_queue m @ queued seq ts total_buf vec (listens m) sent (map fst ((stid, manager) # ms)) (map fst ((cur, energy) # cs))"
      using False by (cases "sm_find (<) stid (audio_mixer_listeners m)") (simp_all add: listens_def)
    have upd: "?m\<lparr>unencoded_queue := a, speaker_estimator := b\<rparr> = m\<lparr>unencoded_queue := a, speaker_estimator := b\<rparr>" for a b
      by (simp split: option.split)
    show ?thesis unfolding q s e upd by (rule exI [of _ s]) (rule refl)
  qed
qed (auto intro: same_speaker)

lemma frames_for_append [simp]: "frames_for s (xs @ ys) = frames_for s xs @ frames_for s ys"
  by (simp add: frames_for_def)

lemma frames_for_none:
  assumes "s \<notin> word_of_int ` set is" "s \<notin> set vec \<or> sent"
  shows "frames_for s (queued seq ts total_buf vec ls sent is fs) = []"
  using assms by (induction seq ts total_buf vec ls sent "is" fs rule: queued.induct) (auto simp: frames_for_def)

text \<open>A participant that is not muted gets its own frame, the muted ones get the frame of the first of them.\<close>

lemma frames_for_queued:
  assumes "distinct (map word_of_int is :: u32 list)" "length is = length fs" "n < length is"
    "\<forall>j<length is. word_of_int (is ! j) \<in> set vec \<longrightarrow> fs ! j = None"
  defines "s \<equiv> word_of_int (is ! n) :: u32"
  shows "map unencoded_buf (frames_for s (queued seq ts total_buf vec ls sent is fs)) =
    (if s \<notin> set vec then if ls (is ! n) then [Some (mix_out total_buf (fs ! n))] else []
     else if \<not> sent \<and> ls (hd (filter (\<lambda>i. word_of_int i \<in> set vec) is)) then [Some (mix_out total_buf None)] else [])"
  using assms(1-4) unfolding s_def
proof (induction seq ts total_buf vec ls sent "is" fs arbitrary: n rule: queued.induct)
  case (1 seq ts total_buf vec ls sent i "is" f fs)
  have d: "word_of_int i \<notin> (word_of_int :: int \<Rightarrow> u32) ` set is" "distinct (map word_of_int is :: u32 list)" using 1(3) by auto
  have none: "\<forall>j<length is. word_of_int (is ! j) \<in> set vec \<longrightarrow> fs ! j = None" using 1(6) by auto
  show ?case
  proof (cases n)
    case 0
    let ?s = "word_of_int i :: u32"
    have z: "frames_for ?s (queued seq ts total_buf vec ls sent' is fs) = []" if "?s \<notin> set vec \<or> sent'" for sent'
      using frames_for_none [OF d(1) that] by simp
    have "word_of_int i \<in> set vec \<Longrightarrow> f = None" using 1(6) by auto
    then show ?thesis using 0 z by (cases "?s \<in> set vec"; cases sent; cases "ls i") (simp_all add: frames_for_def)
  next
    case (Suc n')
    then have n': "n' < length is" using 1(5) by simp
    let ?s = "word_of_int (is ! n') :: u32"
    have ne: "?s \<noteq> word_of_int i" using d(1) n' by (metis imageI nth_mem)
    show ?thesis
    proof (cases "word_of_int i \<in> set vec \<and> sent")
      case True
      then show ?thesis using 1(1) [OF True d(2) _ n' none] 1(4) Suc by simp
    next
      case False
      have "?s \<in> set vec \<Longrightarrow> filter (\<lambda>i. word_of_int i \<in> set vec) is \<noteq> []" using n' by (auto simp: filter_empty_conv)
      moreover have "frames_for ?s (queued seq ts total_buf vec ls sent (i # is) (f # fs)) =
          (if ls i \<and> word_of_int i \<in> set vec \<and> ?s \<in> set vec
           then [UnencodedPacket_new\<lparr>stream_vec := vec, up_timestamp := ts, up_seq_number := seq, up_ssrc := -1, unencoded_buf := Some (mix_out total_buf f)\<rparr>]
           else []) @ frames_for ?s (queued seq ts total_buf vec ls (sent \<or> word_of_int i \<in> set vec) is fs)"
        using False ne by (simp add: frames_for_def)
      moreover have "word_of_int i \<in> set vec \<Longrightarrow> f = None" using 1(6) by auto
      ultimately show ?thesis using 1(2) [OF False d(2) _ n' none] 1(4) Suc False
        by (cases "word_of_int i \<in> set vec"; cases "?s \<in> set vec") simp_all
    qed
  qed
qed auto

section \<open>A pass of the mixer\<close>

definition int32 :: "int \<Rightarrow> bool" where "int32 x \<longleftrightarrow> - (2 ^ 31) \<le> x \<and> x < 2 ^ 31"

text \<open>The ids of the streams are C integers, and a frame fits into the array that NetEq fills.\<close>

definition mixer_wf :: "('n, 'e, 'd) AudioMixerElement \<Rightarrow> bool" where
  "mixer_wf m \<longleftrightarrow> sm_sorted (<) (audio_buffer_managers m) \<and> list_all (\<lambda>p. int32 (fst p)) (audio_buffer_managers m) \<and>
     mixer_samples m \<le> max_samples"

lemma int32_word: "int32 x \<Longrightarrow> sint (word_of_int x :: u32) = x"
  using to_int32_id [of x] by (simp add: int32_def to_int32_def)

lemma distinct_words:
  assumes "sm_sorted (<) ms" "list_all (\<lambda>p. int32 (fst p)) ms"
  shows "distinct (map (word_of_int :: int \<Rightarrow> u32) (map fst ms))"
proof -
  have "inj_on (word_of_int :: int \<Rightarrow> u32) (set (map fst ms))"
    using assms(2) int32_word by (intro inj_on_inverseI [where g = sint]) (auto simp: list_all_iff)
  then show ?thesis using intk.keys_distinct [OF assms(1)] by (subst distinct_map) blast
qed

lemma muted_streams_iff:
  assumes "sm_sorted (<) ms" "list_all (\<lambda>p. int32 (fst p)) ms" "j < length ms"
  shows "word_of_int (fst (ms ! j)) \<in> set (muted_streams ms) \<longleftrightarrow> muted (snd (ms ! j))"
proof
  assume "word_of_int (fst (ms ! j)) \<in> set (muted_streams ms)"
  then obtain i b where p: "(i, b) \<in> set ms" "muted b" "(word_of_int (fst (ms ! j)) :: u32) = word_of_int i"
    by (auto simp: muted_streams_def)
  then have "int32 i" "int32 (fst (ms ! j))" using assms(2,3) by (auto simp: list_all_iff)
  then have "fst (ms ! j) = i" using p(3) int32_word by metis
  then show "muted (snd (ms ! j))" using p(1,2) assms(3) intk.find_elem [OF assms(1)] nth_mem [OF assms(3)]
    by (metis option.inject prod.collapse)
qed (use assms(3) in \<open>force simp: muted_streams_def\<close>)

lemma filter_muted:
  assumes "sm_sorted (<) ms" "list_all (\<lambda>p. int32 (fst p)) ms"
  shows "filter (\<lambda>i. word_of_int i \<in> set (muted_streams ms)) (map fst ms) = map fst (filter (\<lambda>p. muted (snd p)) ms)"
proof -
  have "\<forall>p\<in>set ms. word_of_int (fst p) \<in> set (muted_streams ms) \<longleftrightarrow> muted (snd p)"
    using muted_streams_iff [OF assms] by (metis in_set_conv_nth)
  then have "filter (\<lambda>p. word_of_int (fst p) \<in> set (muted_streams ms)) ms = filter (\<lambda>p. muted (snd p)) ms" by (intro filter_cong) auto
  then show ?thesis by (simp add: filter_map o_def)
qed

lemma mix_all_total:
  assumes "length total_buf = mixer_samples m"
  shows "\<exists>events c. mix_all lib seq ts energy total_buf m = Some (events, m\<lparr>am_codec := c\<rparr>)"
proof (cases "mix_all_rtp_packet_listener m")
  case None
  then show ?thesis using exI [of "\<lambda>c. m = m\<lparr>am_codec := c\<rparr>" "am_codec m"] by (simp add: mix_all_def)
next
  case (Some l)
  obtain bs enc where "Opus_Encode lib (map ucast total_buf) (int (mixer_samples m) * 2 * channel (audio_option (am_codec m))) (opus_encoder (am_codec m)) = (bs, enc)"
    by (cases "Opus_Encode lib (map ucast total_buf) (int (mixer_samples m) * 2 * channel (audio_option (am_codec m))) (opus_encoder (am_codec m))")
  then show ?thesis using Some assms by (cases bs) (auto simp: mix_all_def codec_EncodePacket_def read_samples_def Let_def)
qed

text \<open>Whether a frame is queued for participant \<open>i\<close>: it needs a listener, but for a muted participant the
  first muted one does.\<close>

definition receives :: "('n, 'e, 'd) AudioMixerElement \<Rightarrow> nat \<Rightarrow> bool" where
  "receives m i \<longleftrightarrow>
     (let ms = audio_buffer_managers m
      in listens m (fst (if muted (snd (ms ! i)) then hd (filter (\<lambda>p. muted (snd p)) ms) else ms ! i)))"

definition frames_of :: "('n, 'h, 'e, 'd) media_lib \<Rightarrow> bool \<Rightarrow> ('n, 'e, 'd) AudioMixerElement \<Rightarrow> sample list option list" where
  "frames_of lib skip_low m = map (\<lambda>p. frame_of lib skip_low (mixer_samples m) (snd p)) (audio_buffer_managers m)"

lemma queued_for:
  assumes "mixer_wf m" "GetAudio_bounded lib" "i < length (audio_buffer_managers m)"
    "length total_buf = mixer_samples m" "\<forall>k < mixer_samples m. total_buf ! k = (\<Sum>f\<leftarrow>frames_of lib skip_low m. scast (sample_at k f))"
  shows "map unencoded_buf (frames_for (word_of_int (fst (audio_buffer_managers m ! i)))
      (queued seq ts total_buf (muted_streams (audio_buffer_managers m)) (listens m) False (map fst (audio_buffer_managers m)) (frames_of lib skip_low m))) =
    (if receives m i then [Some (others_mix (mixer_samples m) (frames_of lib skip_low m) i)] else [])"
proof -
  let ?ms = "audio_buffer_managers m" and ?fs = "frames_of lib skip_low m"
  have wf: "sm_sorted (<) ?ms" "list_all (\<lambda>p. int32 (fst p)) ?ms" "mixer_samples m \<le> max_samples" using assms(1) by (simp_all add: mixer_wf_def)
  have f: "?fs ! j = frame_of lib skip_low (mixer_samples m) (snd (?ms ! j))" if "j < length ?ms" for j using that by (simp add: frames_of_def)
  have none: "?fs ! j = None" if "j < length ?ms" "muted (snd (?ms ! j))" for j using f that frame_of_muted [OF assms(2)] by simp
  have "\<forall>j<length (map fst ?ms). word_of_int (map fst ?ms ! j) \<in> set (muted_streams ?ms) \<longrightarrow> ?fs ! j = None"
    using none muted_streams_iff [OF wf(1,2)] by simp
  note q = frames_for_queued [OF distinct_words [OF wf(1,2)] _ _ this, of i seq ts total_buf "listens m" False]
  have o: "mix_out total_buf (?fs ! i) = others_mix (mixer_samples m) ?fs i"
    using assms(3-5) frame_of_length [OF assms(2) wf(3)] f [OF assms(3)] by (intro mix_out_others) (auto simp: frames_of_def)
  show ?thesis
  proof (cases "muted (snd (?ms ! i))")
    case True
    have "filter (\<lambda>p. muted (snd p)) ?ms \<noteq> []" using True assms(3) by (auto simp: filter_empty_conv)
    then have "hd (map fst (filter (\<lambda>p. muted (snd p)) ?ms)) = fst (hd (filter (\<lambda>p. muted (snd p)) ?ms))" by (simp add: hd_map)
    then show ?thesis using q o True none [OF assms(3) True] assms(3) muted_streams_iff [OF wf(1,2) assms(3)]
      by (simp add: filter_muted [OF wf(1,2)] receives_def frames_of_def Let_def)
  next
    case False
    then show ?thesis using q o assms(3) muted_streams_iff [OF wf(1,2) assms(3)] by (simp add: receives_def frames_of_def Let_def)
  qed
qed

lemma mix_pass_total:
  assumes "GetAudio_bounded lib" "mixer_wf m" "lp_time lp \<le> now" "audio_buffer_managers m \<noteq> []"
  obtains ms cs total_buf g' where
    "mix_inputs lib skip_low (mixer_samples m) now (am_session_id m) (audio_buffer_managers m) (replicate (mixer_samples m) 0) g = Some (ms, cs, total_buf, g')"
    "map fst ms = map fst (audio_buffer_managers m)" "map (\<lambda>p. muted (snd p)) ms = map (\<lambda>p. muted (snd p)) (audio_buffer_managers m)"
    "map (\<lambda>p. opus_codec (snd p)) ms = map (\<lambda>p. opus_codec (snd p)) (audio_buffer_managers m)"
    "map fst cs = frames_of lib skip_low m" "length total_buf = mixer_samples m"
    "\<forall>k < mixer_samples m. total_buf ! k = (\<Sum>f\<leftarrow>frames_of lib skip_low m. scast (sample_at k f))"
proof -
  have "mixer_samples m \<le> max_samples" using assms(2) by (simp add: mixer_wf_def)
  from mix_inputs_total [OF assms(1) this length_replicate, of skip_low now "am_session_id m" "audio_buffer_managers m" 0 g]
  obtain ms cs total_buf g' where r:
    "mix_inputs lib skip_low (mixer_samples m) now (am_session_id m) (audio_buffer_managers m) (replicate (mixer_samples m) 0) g = Some (ms, cs, total_buf, g')"
    "map fst ms = map fst (audio_buffer_managers m)" "map (\<lambda>p. muted (snd p)) ms = map (\<lambda>p. muted (snd p)) (audio_buffer_managers m)"
    "map (\<lambda>p. opus_codec (snd p)) ms = map (\<lambda>p. opus_codec (snd p)) (audio_buffer_managers m)"
    "map fst cs = map (\<lambda>p. frame_of lib skip_low (mixer_samples m) (snd p)) (audio_buffer_managers m)" "length total_buf = mixer_samples m"
    "\<forall>k < mixer_samples m. total_buf ! k = replicate (mixer_samples m) 0 ! k + (\<Sum>c\<leftarrow>cs. scast (sample_at k (fst c)))"
    by blast
  have c: "map fst cs = frames_of lib skip_low m" using r(5) by (simp add: frames_of_def)
  have "(\<Sum>c\<leftarrow>cs. scast (sample_at k (fst c)) :: u32) = (\<Sum>f\<leftarrow>frames_of lib skip_low m. scast (sample_at k f))" for k
    unfolding c [symmetric] by (simp add: o_def)
  then have "\<forall>k < mixer_samples m. total_buf ! k = (\<Sum>f\<leftarrow>frames_of lib skip_low m. scast (sample_at k f))" using r(7) by simp
  then show thesis using that [OF r(1-4) c r(6)] by blast
qed

lemma wf_same_keys:
  assumes "mixer_wf m" "map fst ms = map fst (audio_buffer_managers m)"
  shows "sm_sorted (<) ms \<and> list_all (\<lambda>p. int32 (fst p)) ms"
proof -
  have "list_all int32 (map fst ms)" unfolding assms(2) using assms(1) by (simp add: mixer_wf_def list_all_iff)
  then have "list_all (\<lambda>p. int32 (fst p)) ms" by (simp add: list_all_iff)
  then show ?thesis using assms by (simp add: mixer_wf_def sm_sorted_def)
qed

lemma queued_header:
  "list_all (\<lambda>up. up_seq_number up = seq \<and> up_timestamp up = ts) (queued seq ts total_buf vec ls sent is fs)"
  by (induction seq ts total_buf vec ls sent "is" fs rule: queued.induct) simp_all

text \<open>A queued frame has the samples of a pass, and is for one participant or for the muted ones.\<close>

definition frame_shape :: "nat \<Rightarrow> u32 list \<Rightarrow> UnencodedPacket \<Rightarrow> bool" where
  "frame_shape samples vec up \<longleftrightarrow>
     (\<exists>buf. unencoded_buf up = Some buf \<and> length buf = samples) \<and> (stream_vec up = vec \<or> (\<exists>s. stream_vec up = [s]))"

lemma queued_shape:
  assumes "length total_buf = samples" "\<forall>f\<in>set fs. \<forall>cur. f = Some cur \<longrightarrow> length cur = samples"
  shows "list_all (frame_shape samples vec) (queued seq ts total_buf vec ls sent is fs)"
  using assms
  by (induction seq ts total_buf vec ls sent "is" fs rule: queued.induct)
    (auto simp: frame_shape_def mix_out_def split: option.split)

text \<open>What a pass keeps: the listeners, and the codecs of the participants.\<close>

definition kept :: "('n, 'e, 'd) AudioMixerElement \<Rightarrow> ('n, 'e, 'd) AudioMixerElement \<Rightarrow> bool" where
  "kept m m' \<longleftrightarrow> audio_mixer_listeners m' = audio_mixer_listeners m \<and> mixer_samples m' = mixer_samples m \<and>
     map fst (audio_buffer_managers m') = map fst (audio_buffer_managers m) \<and>
     map (\<lambda>p. opus_codec (snd p)) (audio_buffer_managers m') = map (\<lambda>p. opus_codec (snd p)) (audio_buffer_managers m)"

lemma mix_pass_frames:
  assumes "GetAudio_bounded lib" "mixer_wf m" "lp_time lp \<le> now"
  shows "\<exists>events lp' g' m' fresh. mix_pass_multi lib skip_low now lp g m = Some (events, lp', g', m') \<and> mixer_wf m' \<and>
    unencoded_queue m' = unencoded_queue m @ fresh \<and>
    (\<forall>i<length (audio_buffer_managers m). map unencoded_buf (frames_for (word_of_int (fst (audio_buffer_managers m ! i))) fresh) =
       (if receives m i \<and> list_ex (\<lambda>f. f \<noteq> None) (frames_of lib skip_low m)
        then [Some (others_mix (mixer_samples m) (frames_of lib skip_low m) i)] else [])) \<and>
    list_all (\<lambda>up. up_seq_number up = lp_seq lp + 1 \<and> up_timestamp up = lp_ts lp + of_nat (mixer_samples m)) fresh \<and>
    list_all (frame_shape (mixer_samples m) (muted_streams (audio_buffer_managers m))) fresh \<and> kept m m'"
proof (cases "audio_buffer_managers m = []")
  case True
  then have "mix_pass_multi lib skip_low now lp g m = Some ([], lp\<lparr>lp_time := lp_time lp + 10\<rparr>, g, m)" using assms(3) by (simp add: mix_pass_multi_def Let_def)
  then show ?thesis using assms(2) True
    by (intro exI [of _ "[]"] exI [of _ "lp\<lparr>lp_time := lp_time lp + 10\<rparr>"] exI [of _ g] exI [of _ m]) (simp add: kept_def)
next
  case False
  let ?ms = "audio_buffer_managers m"
  obtain ms cs total_buf g' where r:
    "mix_inputs lib skip_low (mixer_samples m) now (am_session_id m) ?ms (replicate (mixer_samples m) 0) g = Some (ms, cs, total_buf, g')"
    "map fst ms = map fst ?ms" "map fst cs = frames_of lib skip_low m" "length total_buf = mixer_samples m"
    "\<forall>k < mixer_samples m. total_buf ! k = (\<Sum>f\<leftarrow>frames_of lib skip_low m. scast (sample_at k f))"
    and codecs: "map (\<lambda>p. opus_codec (snd p)) ms = map (\<lambda>p. opus_codec (snd p)) ?ms"
    using mix_pass_total [OF assms False] by metis
  have wf: "sm_sorted (<) ms \<and> list_all (\<lambda>p. int32 (fst p)) ms" using wf_same_keys [OF assms(2) r(2)] .
  have ex: "list_all (\<lambda>c. fst c = None) cs \<longleftrightarrow> \<not> list_ex (\<lambda>f. f \<noteq> None) (frames_of lib skip_low m)"
    unfolding r(3) [symmetric] by (auto simp: list_all_iff list_ex_iff)
  show ?thesis
  proof (cases "list_all (\<lambda>c. fst c = None) cs")
    case True
    have "mix_pass_multi lib skip_low now lp g m = Some ([], lp\<lparr>lp_time := lp_time lp + 10\<rparr>, g', m\<lparr>audio_buffer_managers := ms\<rparr>)"
      using assms(3) False r(1) True by (simp add: mix_pass_multi_def Let_def)
    moreover have "mixer_wf (m\<lparr>audio_buffer_managers := ms\<rparr>)" using assms(2) wf by (simp add: mixer_wf_def)
    moreover have "kept m (m\<lparr>audio_buffer_managers := ms\<rparr>)" using r(2) codecs by (simp add: kept_def)
    ultimately show ?thesis using ex True
      by (intro exI [of _ "[]"] exI [of _ "lp\<lparr>lp_time := lp_time lp + 10\<rparr>"] exI [of _ g'] exI [of _ "m\<lparr>audio_buffer_managers := ms\<rparr>"])
        (simp add: frames_for_def)
  next
    case some: False
    let ?seq = "lp_seq lp + 1" and ?ts = "lp_ts lp + of_nat (mixer_samples m)"
    let ?lp = "lp\<lparr>lp_time := lp_time lp + 10, lp_seq := ?seq, lp_ts := ?ts\<rparr>"
    let ?new = "queued ?seq ?ts total_buf (muted_streams ?ms) (listens m) False (map fst ?ms) (frames_of lib skip_low m)"
    obtain told e where nf: "next_frame (m\<lparr>audio_buffer_managers := ms\<rparr>) = (told, m\<lparr>audio_buffer_managers := ms, speaker_estimator := e\<rparr>)"
      by (cases "NextFrame (speaker_estimator m)") (simp add: next_frame_def)
    let ?m1 = "m\<lparr>audio_buffer_managers := ms, speaker_estimator := e\<rparr>"
    have len: "length ms = length cs" using r(2,3) by (metis frames_of_def length_map)
    have l: "listens ?m1 = listens m" by (rule ext) (simp add: listens_def)
    obtain s where q: "queue_mixes ?seq ?ts total_buf (muted_streams ?ms) False ms cs ?m1 =
        ?m1\<lparr>unencoded_queue := unencoded_queue m @ ?new, speaker_estimator := s\<rparr>"
      using queue_mixes_queued [OF len, of ?seq ?ts total_buf "muted_streams ?ms" False ?m1] unfolding l r(2,3) by auto
    let ?m2 = "?m1\<lparr>unencoded_queue := unencoded_queue m @ ?new, speaker_estimator := s\<rparr>"
    have "length total_buf = mixer_samples ?m2" using r(4) by simp
    from mix_all_total [OF this, of lib ?seq ?ts "snd (hd cs)"]
    obtain ev c where a: "mix_all lib ?seq ?ts (snd (hd cs)) total_buf ?m2 = Some (ev, ?m2\<lparr>am_codec := c\<rparr>)" by blast
    have "mix_pass_multi lib skip_low now lp g m = Some (told @ ev, ?lp, g', ?m2\<lparr>am_codec := c\<rparr>)"
      using assms(3) False r(1) some nf q a by (simp add: mix_pass_multi_def Let_def)
    moreover have "mixer_wf (?m2\<lparr>am_codec := c\<rparr>)" using assms(2) wf by (simp add: mixer_wf_def)
    moreover have "unencoded_queue (?m2\<lparr>am_codec := c\<rparr>) = unencoded_queue m @ ?new" by simp
    moreover have "\<forall>i<length ?ms. map unencoded_buf (frames_for (word_of_int (fst (?ms ! i))) ?new) =
       (if receives m i \<and> list_ex (\<lambda>f. f \<noteq> None) (frames_of lib skip_low m)
        then [Some (others_mix (mixer_samples m) (frames_of lib skip_low m) i)] else [])"
      using queued_for [OF assms(2,1) _ r(4,5)] ex some by simp
    moreover have "list_all (frame_shape (mixer_samples m) (muted_streams ?ms)) ?new"
      using r(4) frame_of_length [OF assms(1)] assms(2) by (intro queued_shape) (auto simp: frames_of_def mixer_wf_def)
    moreover have "kept m (?m2\<lparr>am_codec := c\<rparr>)" using r(2) codecs by (simp add: kept_def)
    ultimately show ?thesis using queued_header [of ?seq ?ts] by blast
  qed
qed

text \<open>C14.
  A due pass of \<open>MixPacketLoopWithMultiThread\<close>, for any behaviour of NetEq and Opus with NetEq keeping to the
  room it is given, does not fail and appends frames to the queue of \<open>EncodeLoop\<close>: a participant gets exactly
  one, which holds, sample by sample, the 16-bit sum of the frames of all other participants and nothing of its
  own, with the next sequence number and timestamp.  There is none if nobody contributed a frame, or if
  the participant has no listener; for a muted participant the listener of the first muted one decides.\<close>

theorem mix_minus_self:
  assumes "GetAudio_bounded lib" "mixer_wf m" "lp_time lp \<le> now"
  shows "\<exists>events lp' g' m' fresh. mix_pass_multi lib skip_low now lp g m = Some (events, lp', g', m') \<and> mixer_wf m' \<and>
    unencoded_queue m' = unencoded_queue m @ fresh \<and>
    (\<forall>i<length (audio_buffer_managers m). map unencoded_buf (frames_for (word_of_int (fst (audio_buffer_managers m ! i))) fresh) =
       (if receives m i \<and> list_ex (\<lambda>f. f \<noteq> None) (frames_of lib skip_low m)
        then [Some (others_mix (mixer_samples m) (frames_of lib skip_low m) i)] else [])) \<and>
    list_all (\<lambda>up. up_seq_number up = lp_seq lp + 1 \<and> up_timestamp up = lp_ts lp + of_nat (mixer_samples m)) fresh"
  using mix_pass_frames [OF assms] by blast

text \<open>A library for examples: NetEq always plays the same frame, the encoder copies the low bytes.\<close>

definition example_lib :: "(sample list, unit, nat, unit) media_lib" where
  "example_lib =
     \<lparr>NetEq_Create = \<lambda>_. [], RegisterPayloadType = \<lambda>_ _ _ n. (0, n), RtpHeader_Parse = \<lambda>_. (), InsertPacket = \<lambda>_ _ n. (0, n),
      GetAudio = \<lambda>k n. ((0, take k n, of_nat (length n), 1), n), EncoderCreate = \<lambda>_. 0, SetComplexity = \<lambda>_ e. e, EnableFec = \<lambda>e. e,
      SetPacketLossRate = \<lambda>_ e. e, SetBitRate = \<lambda>_ e. e, Opus_Encode = \<lambda>pcm _ e. (Some (map ucast pcm), e + 1), DecoderCreate = \<lambda>_. (),
      Opus_Decode = \<lambda>_ d. ((0, []), d), PacketHasFec = \<lambda>_. False, Opus_DecodeFec = \<lambda>_ d. ((0, []), d), Opus_DecodePlc = \<lambda>d. ((0, []), d)\<rparr>"

lemma example_lib_bounded: "GetAudio_bounded example_lib"
  by (simp add: GetAudio_bounded_def example_lib_def)

definition example_buffer :: "sample list \<Rightarrow> (sample list, nat, unit) AudioBufferManager" where
  "example_buffer pcm = (AudioBufferManager_new example_lib None)\<lparr>neteq := pcm\<rparr>"

definition example_mixer :: "(sample list, nat, unit) AudioMixerElement" where
  "example_mixer = (AudioMixerElement_new example_lib 7 AudioOption_new None False)
     \<lparr>mixer_samples := 2, audio_mixer_listeners := [(1, 11), (2, 12), (3, 13)],
      audio_buffer_managers := [(1, example_buffer [10, 20]), (2, example_buffer [-3, 4]), (3, example_buffer [5, 6])]\<rparr>"

definition example_loop :: loop_state where "example_loop = \<lparr>lp_seq = 65535, lp_ts = 0, lp_time = 0\<rparr>"

lemma example_mixer_wf: "mixer_wf example_mixer"
  by (simp add: mixer_wf_def example_mixer_def sm_sorted_def int32_def max_samples_eq)

lemma example_frames: "frames_of example_lib False example_mixer = [Some [10, 20], Some [-3, 4], Some [5, 6]]"
  by code_simp

theorem mix_minus_self_witness:
  "\<exists>events lp' g' m' fresh. mix_pass_multi example_lib False 10 example_loop manager_empty example_mixer = Some (events, lp', g', m') \<and>
    unencoded_queue m' = unencoded_queue example_mixer @ fresh \<and>
    map unencoded_buf (frames_for 2 fresh) = [Some [15, 26]] \<and> list_all (\<lambda>up. up_seq_number up = 0) fresh"
proof -
  have due: "lp_time example_loop \<le> 10" by (simp add: example_loop_def)
  obtain events lp' g' m' fresh where r: "mix_pass_multi example_lib False 10 example_loop manager_empty example_mixer = Some (events, lp', g', m')"
    "unencoded_queue m' = unencoded_queue example_mixer @ fresh"
    and f: "\<forall>i<length (audio_buffer_managers example_mixer). map unencoded_buf (frames_for (word_of_int (fst (audio_buffer_managers example_mixer ! i))) fresh) =
       (if receives example_mixer i \<and> list_ex (\<lambda>f. f \<noteq> None) (frames_of example_lib False example_mixer)
        then [Some (others_mix (mixer_samples example_mixer) (frames_of example_lib False example_mixer) i)] else [])"
    and h: "list_all (\<lambda>up. up_seq_number up = lp_seq example_loop + 1 \<and> up_timestamp up = lp_ts example_loop + of_nat (mixer_samples example_mixer)) fresh"
    using mix_minus_self [OF example_lib_bounded example_mixer_wf due, of False manager_empty] by blast
  have "map unencoded_buf (frames_for 2 fresh) = [Some (others_mix (mixer_samples example_mixer) (frames_of example_lib False example_mixer) 1)]"
  proof -
    have "1 < length (audio_buffer_managers example_mixer)" "fst (audio_buffer_managers example_mixer ! 1) = 2" "receives example_mixer 1"
      by code_simp+
    then show ?thesis using f [rule_format, of 1] by (simp add: example_frames)
  qed
  moreover have "others_mix (mixer_samples example_mixer) (frames_of example_lib False example_mixer) 1 = [15, 26]" by code_simp
  moreover have "list_all (\<lambda>up. up_seq_number up = 0) fresh" using h by (simp add: list_all_iff example_loop_def)
  ultimately show ?thesis using r by auto
qed

end
