(* ===== verification/Audio_Delivery.thy ===== *)
theory Audio_Delivery
  imports Audio_Mixer
begin

text \<open>
  The two threads of the audio mixer together: what \<open>MixPacketLoopWithMultiThread\<close> queues, \<open>EncodeLoop\<close> encodes
  and delivers.  A participant hears the others, each frame once.
\<close>

section \<open>What a pass of the encoder changes\<close>

text \<open>Taking all frames of the queue, one pass each.\<close>

fun encode_passes ::
    "('n, 'h, 'e, 'd) media_lib \<Rightarrow> nat \<Rightarrow> ('n, 'e, 'd) AudioMixerElement \<Rightarrow> (mix_event list \<times> ('n, 'e, 'd) AudioMixerElement) option" where
  "encode_passes lib 0 m = Some ([], m)"
| "encode_passes lib (Suc n) m = do {
     (ev, m) \<leftarrow> encode_pass lib m;
     (ev', m) \<leftarrow> encode_passes lib n m;
     Some (ev @ ev', m) }"

definition to_listener :: "int \<Rightarrow> mix_event list \<Rightarrow> mix_event list" where
  "to_listener l ev = filter (\<lambda>e. case e of AudioMixed l' _ \<Rightarrow> l' = l | _ \<Rightarrow> False) ev"

lemma to_listener_simps [simp]:
  "to_listener l [] = []" "to_listener l (xs @ ys) = to_listener l xs @ to_listener l ys"
  "to_listener l [AudioMixed l' p] = (if l' = l then [AudioMixed l' p] else [])"
  by (simp_all add: to_listener_def)

definition frame_ok :: "UnencodedPacket \<Rightarrow> bool" where
  "frame_ok up \<longleftrightarrow> (\<exists>buf. unencoded_buf up = Some buf \<and> 480 \<le> length buf)"

lemma buffer_EncodePacket_eq:
  assumes "n \<le> length buf"
  shows "buffer_EncodePacket lib buf n pkt b = Some
    (case Opus_Encode lib (take n buf) (int n * 2 * channel (audio_option (opus_codec b))) (opus_encoder (opus_codec b)) of
       (None, enc) \<Rightarrow> (False, pkt, b\<lparr>opus_codec := opus_codec b\<lparr>opus_encoder := enc\<rparr>\<rparr>)
     | (Some bytes, enc) \<Rightarrow>
         (True, pkt\<lparr>encoded_buf := Some bytes, mo_length := int (length bytes)\<rparr>, b\<lparr>opus_codec := opus_codec b\<lparr>opus_encoder := enc\<rparr>\<rparr>))"
  using assms by (simp add: buffer_EncodePacket_def codec_EncodePacket_def read_samples_def split: prod.split option.split)

text \<open>The parts that encoding keeps: the other fields, and the buffers and events of streams that are not
  addressed.\<close>

definition same_mixer :: "int set \<Rightarrow> ('n, 'e, 'd) AudioMixerElement \<Rightarrow> ('n, 'e, 'd) AudioMixerElement \<Rightarrow> bool" where
  "same_mixer touched m m' \<longleftrightarrow>
     m'\<lparr>audio_buffer_managers := []\<rparr> = m\<lparr>audio_buffer_managers := []\<rparr> \<and> sm_sorted (<) (audio_buffer_managers m') \<and>
     (\<forall>i. i \<notin> touched \<longrightarrow> sm_find (<) i (audio_buffer_managers m') = sm_find (<) i (audio_buffer_managers m)) \<and>
     map fst (audio_buffer_managers m') = map fst (audio_buffer_managers m)"

lemma keys_sm_set:
  assumes "sm_sorted (<) m" "sm_find (<) (k :: int) m = Some v"
  shows "map fst (sm_set (<) k w m) = map fst m"
  using assms
proof (induction m)
  case (Cons e m)
  obtain k' v' where e: "e = (k', v')" by (cases e)
  show ?case
    using Cons.IH Cons.prems by (cases k k' rule: linorder_cases) (auto simp: e intk.sm_sorted_Cons)
qed simp

lemma encode_streams_total:
  assumes "sm_sorted (<) (audio_buffer_managers m)" "frame_ok up"
  shows "\<exists>ev m'. encode_streams lib up ss enc pkt m = Some (ev, m') \<and> same_mixer (sint ` set ss) m m' \<and>
    (\<forall>l. (\<forall>s\<in>set ss. sm_find (<) (sint s) (audio_mixer_listeners m) \<noteq> Some l) \<longrightarrow> to_listener l ev = [])"
  using assms(1)
proof (induction ss arbitrary: enc pkt m)
  case Nil
  then show ?case by (simp add: same_mixer_def)
next
  case (Cons s ss)
  let ?i = "sint s"
  show ?case
  proof (cases "sm_find (<) ?i (audio_buffer_managers m)")
    case None
    then show ?thesis using Cons.IH [OF Cons.prems, of enc pkt] by (auto simp: same_mixer_def)
  next
    case (Some b)
    obtain buf where buf: "unencoded_buf up = Some buf" "480 \<le> length buf" using assms(2) by (auto simp: frame_ok_def)
    have "(if enc then Some (enc, pkt, b) else do { buf \<leftarrow> unencoded_buf up; buffer_EncodePacket lib buf 480 pkt b }) \<noteq> None"
      using buf by (simp add: buffer_EncodePacket_eq del: not_None_eq)
    then obtain enc' pkt' b' where e: "(if enc then Some (enc, pkt, b) else do { buf \<leftarrow> unencoded_buf up; buffer_EncodePacket lib buf 480 pkt b }) = Some (enc', pkt', b')"
      by (metis option.exhaust prod_cases3)
    let ?m = "m\<lparr>audio_buffer_managers := sm_set (<) ?i b' (audio_buffer_managers m)\<rparr>"
    obtain here pkt'' where h: "(case sm_find (<) ?i (audio_mixer_listeners ?m) of None \<Rightarrow> ([], pkt')
                | Some l \<Rightarrow>
                    if enc'
                    then let p = pkt'\<lparr>mo_timestamp := up_timestamp up, mo_seq_number := up_seq_number up, mo_ssrc := -1\<rparr>
                         in ([AudioMixed l p], p)
                    else ([], pkt')) = (here, pkt'')" by fastforce
    have none: "to_listener l here = []" if "sm_find (<) ?i (audio_mixer_listeners m) \<noteq> Some l" for l
      using h that by (auto simp: Let_def to_listener_def split: option.splits if_splits)
    have "sm_sorted (<) (audio_buffer_managers ?m)" using Cons.prems by (simp add: intk.sorted_set)
    from Cons.IH [OF this, of enc' pkt''] obtain ev m' where r: "encode_streams lib up ss enc' pkt'' ?m = Some (ev, m')" "same_mixer (sint ` set ss) ?m m'"
      "\<forall>l. (\<forall>s\<in>set ss. sm_find (<) (sint s) (audio_mixer_listeners m) \<noteq> Some l) \<longrightarrow> to_listener l ev = []" by auto
    have "encode_streams lib up (s # ss) enc pkt m = Some (here @ ev, m')"
      using Some e h r(1) by (simp add: Let_def)
    moreover have "same_mixer (sint ` set (s # ss)) m m'"
      using r(2) Cons.prems keys_sm_set [OF Cons.prems Some, of b'] by (auto simp: same_mixer_def intk.find_set)
    ultimately show ?thesis using r(3) none by auto
  qed
qed

section \<open>Taking the whole queue\<close>

text \<open>What the listener of a participant is given for a frame.\<close>

definition delivered :: "('n, 'h, 'e, 'd) media_lib \<Rightarrow> int \<Rightarrow> UnencodedPacket \<Rightarrow> ('e, 'd) OpusCodec \<Rightarrow> mix_event list" where
  "delivered lib l up c =
     (case unencoded_buf up of None \<Rightarrow> []
      | Some buf \<Rightarrow>
          case fst (Opus_Encode lib (take 480 buf) (960 * channel (audio_option c)) (opus_encoder c)) of
            None \<Rightarrow> []
          | Some bytes \<Rightarrow> [AudioMixed l (MediaOutputPacket_new\<lparr>encoded_buf := Some bytes, mo_length := int (length bytes),
               mo_timestamp := up_timestamp up, mo_seq_number := up_seq_number up, mo_ssrc := -1\<rparr>)])"

text \<open>A listener that is registered for one stream only.\<close>

definition own_listener :: "('n, 'e, 'd) AudioMixerElement \<Rightarrow> u32 \<Rightarrow> int \<Rightarrow> bool" where
  "own_listener m w l \<longleftrightarrow> (\<forall>s. sm_find (<) (sint s) (audio_mixer_listeners m) = Some l \<longleftrightarrow> s = w)"

lemma to_listener_delivered [simp]: "to_listener l (delivered lib l up c) = delivered lib l up c"
  by (simp add: delivered_def split: option.split)

lemma find_same_keys:
  assumes "sm_sorted (<) ms" "sm_sorted (<) ms'" "map fst ms' = map fst ms" "sm_find (<) (k :: int) ms = Some v"
  shows "\<exists>v'. sm_find (<) k ms' = Some v'"
  using assms by (metis intk.find_map_of map_of_eq_None_iff not_Some_eq set_map)

lemma encode_own_frame:
  assumes "sm_find (<) (sint w) (audio_buffer_managers m) = Some b" "own_listener m w l" "frame_ok up"
  shows "\<exists>m'. encode_streams lib up [w] False MediaOutputPacket_new m = Some (delivered lib l up (opus_codec b), m')"
proof -
  obtain buf where buf: "unencoded_buf up = Some buf" "480 \<le> length buf" using assms(3) by (auto simp: frame_ok_def)
  have l: "sm_find (<) (sint w) (audio_mixer_listeners m) = Some l" using assms(2) by (simp add: own_listener_def)
  obtain bs enc where "Opus_Encode lib (take 480 buf) (960 * channel (audio_option (opus_codec b))) (opus_encoder (opus_codec b)) = (bs, enc)" by fastforce
  then show ?thesis using assms(1) buf l by (cases bs) (simp_all add: buffer_EncodePacket_eq delivered_def Let_def)
qed

lemma same_mixer_fields:
  assumes "same_mixer t m m'"
  shows "audio_mixer_listeners m' = audio_mixer_listeners m" "unencoded_queue m' = unencoded_queue m" "mixer_samples m' = mixer_samples m"
proof -
  have "m'\<lparr>audio_buffer_managers := []\<rparr> = m\<lparr>audio_buffer_managers := []\<rparr>" using assms by (simp add: same_mixer_def)
  from arg_cong [OF this, of audio_mixer_listeners] arg_cong [OF this, of unencoded_queue] arg_cong [OF this, of mixer_samples]
  show "audio_mixer_listeners m' = audio_mixer_listeners m" "unencoded_queue m' = unencoded_queue m" "mixer_samples m' = mixer_samples m" by simp_all
qed

text \<open>One pass: a frame for somebody else leaves a participant alone.\<close>

lemma encode_pass_other:
  assumes "unencoded_queue m = up # ups" "sm_sorted (<) (audio_buffer_managers m)" "frame_ok up"
  shows "\<exists>ev m'. encode_pass lib m = Some (ev, m') \<and> unencoded_queue m' = ups \<and> sm_sorted (<) (audio_buffer_managers m') \<and>
    audio_mixer_listeners m' = audio_mixer_listeners m \<and> map fst (audio_buffer_managers m') = map fst (audio_buffer_managers m) \<and> mixer_samples m' = mixer_samples m \<and>
    (\<forall>w l. w \<notin> set (stream_vec up) \<longrightarrow>
       sm_find (<) (sint w) (audio_buffer_managers m') = sm_find (<) (sint w) (audio_buffer_managers m) \<and> (own_listener m w l \<longrightarrow> to_listener l ev = []))"
proof -
  let ?m = "m\<lparr>unencoded_queue := ups\<rparr>"
  have "sm_sorted (<) (audio_buffer_managers ?m)" using assms(2) by simp
  from encode_streams_total [OF this assms(3), of lib "stream_vec up" False MediaOutputPacket_new]
  obtain ev m' where r: "encode_streams lib up (stream_vec up) False MediaOutputPacket_new ?m = Some (ev, m')"
    "same_mixer (sint ` set (stream_vec up)) ?m m'"
    "\<forall>l. (\<forall>s\<in>set (stream_vec up). sm_find (<) (sint s) (audio_mixer_listeners ?m) \<noteq> Some l) \<longrightarrow> to_listener l ev = []" by blast
  have "encode_pass lib m = Some (ev, m')" using assms(1) r(1) by (simp add: encode_pass_def)
  moreover have "sm_find (<) (sint w) (audio_buffer_managers m') = sm_find (<) (sint w) (audio_buffer_managers m)" if "w \<notin> set (stream_vec up)" for w
    using r(2) that by (simp add: same_mixer_def inj_image_mem_iff [OF inj_signed])
  moreover have "to_listener l ev = []" if "w \<notin> set (stream_vec up)" "own_listener m w l" for w l
    using r(3) that by (auto simp: own_listener_def)
  ultimately show ?thesis using r(2) same_mixer_fields [OF r(2)] by (auto simp: same_mixer_def)
qed

lemma encode_passes_queue:
  assumes "list_all frame_ok (unencoded_queue m)" "sm_sorted (<) (audio_buffer_managers m)"
  shows "\<exists>ev m'. encode_passes lib (length (unencoded_queue m)) m = Some (ev, m') \<and> unencoded_queue m' = [] \<and>
    (\<forall>w l b. own_listener m w l \<and> sm_find (<) (sint w) (audio_buffer_managers m) = Some b \<longrightarrow>
       (frames_for w (unencoded_queue m) = [] \<longrightarrow> to_listener l ev = []) \<and>
       (\<forall>up. frames_for w (unencoded_queue m) = [up] \<and> stream_vec up = [w] \<longrightarrow> to_listener l ev = delivered lib l up (opus_codec b)))"
  using assms
proof (induction "unencoded_queue m" arbitrary: m)
  case Nil
  then show ?case by (simp add: frames_for_def)
next
  case (Cons up ups)
  note q = Cons.hyps(2) [symmetric]
  have ok: "frame_ok up" "list_all frame_ok ups" using Cons.prems(1) by (simp_all add: q)
  obtain ev1 m1 where p: "encode_pass lib m = Some (ev1, m1)" "unencoded_queue m1 = ups" "sm_sorted (<) (audio_buffer_managers m1)"
    "audio_mixer_listeners m1 = audio_mixer_listeners m"
    "\<forall>w l. w \<notin> set (stream_vec up) \<longrightarrow>
       sm_find (<) (sint w) (audio_buffer_managers m1) = sm_find (<) (sint w) (audio_buffer_managers m) \<and> (own_listener m w l \<longrightarrow> to_listener l ev1 = [])"
    "map fst (audio_buffer_managers m1) = map fst (audio_buffer_managers m)"
    using encode_pass_other [OF q Cons.prems(2) ok(1), of lib] by blast
  have own: "own_listener m1 = own_listener m" by (intro ext) (simp add: own_listener_def p(4))
  obtain ev2 m2 where r: "encode_passes lib (length ups) m1 = Some (ev2, m2)" "unencoded_queue m2 = []"
    "\<And>w l b. own_listener m w l \<Longrightarrow> sm_find (<) (sint w) (audio_buffer_managers m1) = Some b \<Longrightarrow>
       (frames_for w ups = [] \<longrightarrow> to_listener l ev2 = []) \<and>
       (\<forall>up. frames_for w ups = [up] \<and> stream_vec up = [w] \<longrightarrow> to_listener l ev2 = delivered lib l up (opus_codec b))"
    using Cons.hyps(1) [OF p(2) [symmetric]] ok(2) p(2,3) unfolding own by auto
  have there: "\<exists>b1. sm_find (<) (sint w) (audio_buffer_managers m1) = Some b1" if "sm_find (<) (sint w) (audio_buffer_managers m) = Some b" for w b
    using find_same_keys [OF Cons.prems(2) p(3) _ that] p(6) by simp
  have all: "encode_passes lib (length (unencoded_queue m)) m = Some (ev1 @ ev2, m2)" using p(1) r(1) by (simp add: q)
  show ?case
  proof (intro exI conjI, rule all, rule r(2), intro allI impI, elim conjE)
    fix w l b
    assume w: "own_listener m w l" "sm_find (<) (sint w) (audio_buffer_managers m) = Some b"
    obtain b1 where b1: "sm_find (<) (sint w) (audio_buffer_managers m1) = Some b1" using there [OF w(2)] by blast
    show "(frames_for w (unencoded_queue m) = [] \<longrightarrow> to_listener l (ev1 @ ev2) = []) \<and>
       (\<forall>up. frames_for w (unencoded_queue m) = [up] \<and> stream_vec up = [w] \<longrightarrow> to_listener l (ev1 @ ev2) = delivered lib l up (opus_codec b))"
    proof (cases "w \<in> set (stream_vec up)")
      case True
      then have f: "frames_for w (unencoded_queue m) = up # frames_for w ups" by (simp add: q frames_for_def)
      have "to_listener l (ev1 @ ev2) = delivered lib l up (opus_codec b)" if "frames_for w ups = []" "stream_vec up = [w]"
      proof -
        let ?m = "m\<lparr>unencoded_queue := ups\<rparr>"
        have "sm_find (<) (sint w) (audio_buffer_managers ?m) = Some b" "own_listener ?m w l" using w by (simp_all add: own_listener_def)
        then have "ev1 = delivered lib l up (opus_codec b)"
          using encode_own_frame [OF _ _ ok(1), of w ?m b l lib] p(1) that(2) by (auto simp: encode_pass_def q)
        then show ?thesis using r(3) [OF w(1) b1] that(1) by simp
      qed
      then show ?thesis using f by auto
    next
      case False
      then have "frames_for w (unencoded_queue m) = frames_for w ups" by (simp add: q frames_for_def)
      moreover have "to_listener l ev1 = []" "sm_find (<) (sint w) (audio_buffer_managers m1) = Some b" using p(5) False w by auto
      ultimately show ?thesis using r(3) [OF w(1)] by simp
    qed
  qed
qed

section \<open>Everybody hears the others\<close>

lemma wf_find:
  assumes "mixer_wf m" "i < length (audio_buffer_managers m)"
  shows "sm_find (<) (fst (audio_buffer_managers m ! i)) (audio_buffer_managers m) = Some (snd (audio_buffer_managers m ! i))"
    and "sint (word_of_int (fst (audio_buffer_managers m ! i)) :: u32) = fst (audio_buffer_managers m ! i)"
proof -
  show "sm_find (<) (fst (audio_buffer_managers m ! i)) (audio_buffer_managers m) = Some (snd (audio_buffer_managers m ! i))"
    using assms by (simp add: mixer_wf_def intk.find_elem)
  have "int32 (fst (audio_buffer_managers m ! i))" using assms by (simp add: mixer_wf_def list_all_iff)
  then show "sint (word_of_int (fst (audio_buffer_managers m ! i)) :: u32) = fst (audio_buffer_managers m ! i)" by (rule int32_word)
qed

lemma kept_find:
  assumes "mixer_wf m" "mixer_wf m'" "kept m m'" "i < length (audio_buffer_managers m)"
  shows "\<exists>b. sm_find (<) (fst (audio_buffer_managers m ! i)) (audio_buffer_managers m') = Some b \<and> opus_codec b = opus_codec (snd (audio_buffer_managers m ! i))"
proof -
  have eq: "map fst (audio_buffer_managers m') = map fst (audio_buffer_managers m)"
    "map (\<lambda>p. opus_codec (snd p)) (audio_buffer_managers m') = map (\<lambda>p. opus_codec (snd p)) (audio_buffer_managers m)"
    using assms(3) by (simp_all add: kept_def)
  have l: "i < length (audio_buffer_managers m')" using assms(4) map_eq_imp_length_eq [OF eq(1)] by simp
  have "fst (audio_buffer_managers m' ! i) = fst (audio_buffer_managers m ! i)"
    "opus_codec (snd (audio_buffer_managers m' ! i)) = opus_codec (snd (audio_buffer_managers m ! i))"
    using arg_cong [OF eq(1), of "\<lambda>xs. xs ! i"] arg_cong [OF eq(2), of "\<lambda>xs. xs ! i"] l assms(4) by simp_all
  then show ?thesis using wf_find(1) [OF assms(2) l] by auto
qed

text \<open>The frame of samples \<open>pcm\<close>, encoded by \<open>c\<close>, for listener \<open>l\<close>.\<close>

definition heard :: "('n, 'h, 'e, 'd) media_lib \<Rightarrow> int \<Rightarrow> u16 \<Rightarrow> u32 \<Rightarrow> int option \<Rightarrow> sample list \<Rightarrow> ('e, 'd) OpusCodec \<Rightarrow> mix_event list" where
  "heard lib l seq ts energy pcm c =
     (case fst (Opus_Encode lib pcm (int (length pcm) * 2 * channel (audio_option c)) (opus_encoder c)) of
        None \<Rightarrow> []
      | Some bytes \<Rightarrow> [AudioMixed l (MediaOutputPacket_new\<lparr>encoded_buf := Some bytes, mo_length := int (length bytes),
           mo_timestamp := ts, mo_seq_number := seq, mo_ssrc := -1, mo_audio_energy := energy\<rparr>)])"

lemma length_others_mix [simp]: "length (others_mix n fs i) = n"
  by (simp add: others_mix_def)

lemma multi_hears_others:
  assumes "GetAudio_bounded lib" "mixer_wf m" "lp_time lp \<le> now" "unencoded_queue m = []" "mixer_samples m = 480"
    "i < length (audio_buffer_managers m)" "\<not> muted (snd (audio_buffer_managers m ! i))"
    "own_listener m (word_of_int (fst (audio_buffer_managers m ! i))) l" "list_ex (\<lambda>f. f \<noteq> None) (frames_of lib skip_low m)"
  shows "\<exists>ev lp' g' m1 sent m2. mix_pass_multi lib skip_low now lp g m = Some (ev, lp', g', m1) \<and>
    encode_passes lib (length (unencoded_queue m1)) m1 = Some (sent, m2) \<and> unencoded_queue m2 = [] \<and>
    to_listener l sent = heard lib l (lp_seq lp + 1) (lp_ts lp + 480) None (others_mix 480 (frames_of lib skip_low m) i)
      (opus_codec (snd (audio_buffer_managers m ! i)))"
proof -
  let ?ms = "audio_buffer_managers m" and ?w = "word_of_int (fst (audio_buffer_managers m ! i)) :: u32"
  let ?b = "snd (?ms ! i)" and ?fs = "frames_of lib skip_low m"
  note id = wf_find [OF assms(2,6)]
  obtain ev lp' g' m1 fresh where r: "mix_pass_multi lib skip_low now lp g m = Some (ev, lp', g', m1)" "mixer_wf m1" "unencoded_queue m1 = fresh"
    and f: "\<forall>i<length ?ms. map unencoded_buf (frames_for (word_of_int (fst (?ms ! i))) fresh) =
       (if receives m i \<and> list_ex (\<lambda>f. f \<noteq> None) ?fs then [Some (others_mix (mixer_samples m) ?fs i)] else [])"
    and h: "list_all (\<lambda>up. up_seq_number up = lp_seq lp + 1 \<and> up_timestamp up = lp_ts lp + of_nat (mixer_samples m)) fresh"
    and sh: "list_all (frame_shape (mixer_samples m) (muted_streams ?ms)) fresh" and k: "kept m m1"
    using mix_pass_frames [OF assms(1-3), of skip_low g] unfolding assms(4) append_Nil by blast
  have "sm_find (<) (sint ?w) (audio_mixer_listeners m) = Some l" using assms(8) by (simp add: own_listener_def)
  then have "receives m i" using assms(7) id(2) by (simp add: receives_def listens_def)
  then have fr: "map unencoded_buf (frames_for ?w fresh) = [Some (others_mix 480 ?fs i)]" using f assms(5,6,9) by simp
  then obtain up where up: "frames_for ?w fresh = [up]" "unencoded_buf up = Some (others_mix 480 ?fs i)" by auto
  then have in_up: "up \<in> set fresh" "?w \<in> set (stream_vec up)" unfolding frames_for_def by (auto dest: filter_eq_ConsD)
  have "?w \<notin> set (muted_streams ?ms)" using muted_streams_iff [OF _ _ assms(6)] assms(2,7) by (simp add: mixer_wf_def)
  then have vec: "stream_vec up = [?w]" using sh in_up by (auto simp: list_all_iff frame_shape_def)
  have seq: "up_seq_number up = lp_seq lp + 1" "up_timestamp up = lp_ts lp + 480" using h in_up(1) assms(5) by (auto simp: list_all_iff)
  have ok: "list_all frame_ok (unencoded_queue m1)" using sh r(3) assms(5) by (auto simp: list_all_iff frame_shape_def frame_ok_def)
  have own: "own_listener m1 ?w l" using assms(8) k by (simp add: own_listener_def kept_def)
  obtain b where b: "sm_find (<) (sint ?w) (audio_buffer_managers m1) = Some b" "opus_codec b = opus_codec ?b"
    using kept_find [OF assms(2) r(2) k assms(6)] id(2) by auto
  have "sm_sorted (<) (audio_buffer_managers m1)" using r(2) by (simp add: mixer_wf_def)
  from encode_passes_queue [OF ok this, of lib]
  obtain sent m2 where s: "encode_passes lib (length (unencoded_queue m1)) m1 = Some (sent, m2)" "unencoded_queue m2 = []"
    "to_listener l sent = delivered lib l up (opus_codec ?b)" using own b up(1) vec r(3) by auto
  moreover have "delivered lib l up (opus_codec ?b) = heard lib l (lp_seq lp + 1) (lp_ts lp + 480) None (others_mix 480 ?fs i) (opus_codec ?b)"
    by (simp add: delivered_def heard_def up(2) seq MediaOutputPacket_new_def split: option.split)
  ultimately show ?thesis using r(1) by auto
qed

section \<open>The loop in one thread\<close>

lemma send_mixes_total:
  assumes "length total_buf = mixer_samples m" "\<forall>c\<in>set cs. \<forall>cur. fst c = Some cur \<longrightarrow> length cur = mixer_samples m"
    "length ms = length cs" "sm_sorted (<) (audio_buffer_managers m)" "fst ` set ms \<subseteq> fst ` set (audio_buffer_managers m)"
  shows "\<exists>ev m'. send_mixes lib skip_low seq ts total_buf sum_pkt ms cs m = Some (ev, m') \<and>
    mixer_samples m' = mixer_samples m \<and> sm_sorted (<) (audio_buffer_managers m') \<and> map fst (audio_buffer_managers m') = map fst (audio_buffer_managers m) \<and>
    unencoded_queue m' = unencoded_queue m \<and> mix_all_rtp_packet_listener m' = mix_all_rtp_packet_listener m \<and>
    (\<not> skip_low \<longrightarrow> (\<forall>l. to_listener l ev = concat (map (\<lambda>((stid, b), (cur, energy)).
        if sm_find (<) stid (audio_mixer_listeners m) = Some l then heard lib l seq ts (Some energy) (mix_out total_buf cur) (opus_codec b) else []) (zip ms cs))))"
  using assms
proof (induction ms arbitrary: cs m sum_pkt)
  case Nil
  then show ?case by simp
next
  case (Cons p ms)
  obtain stid b where p: "p = (stid, b)" by (cases p)
  obtain cur energy cs' where cs: "cs = (cur, energy) # cs'" using Cons.prems(3) by (cases cs) auto
  have out: "length (mix_out total_buf cur) = mixer_samples m"
    using Cons.prems(1,2) by (auto simp: cs mix_out_def split: option.split)
  show ?case
  proof (cases "sm_find (<) stid (audio_mixer_listeners m)")
    case None
    have "\<exists>ev m'. send_mixes lib skip_low seq ts total_buf sum_pkt ms cs' m = Some (ev, m') \<and>
        mixer_samples m' = mixer_samples m \<and> sm_sorted (<) (audio_buffer_managers m') \<and> map fst (audio_buffer_managers m') = map fst (audio_buffer_managers m) \<and>
        unencoded_queue m' = unencoded_queue m \<and> mix_all_rtp_packet_listener m' = mix_all_rtp_packet_listener m \<and>
        (\<not> skip_low \<longrightarrow> (\<forall>l. to_listener l ev = concat (map (\<lambda>((stid, b), (cur, energy)).
          if sm_find (<) stid (audio_mixer_listeners m) = Some l then heard lib l seq ts (Some energy) (mix_out total_buf cur) (opus_codec b) else []) (zip ms cs'))))"
      by (rule Cons.IH) (use Cons.prems in \<open>simp_all add: cs\<close>)
    then show ?thesis using None by (simp add: p cs)
  next
    case (Some l0)
    define step where "step = (if skip_low \<and> cur = None
             then if encoded_buf sum_pkt = None
                  then do { (ok, p, b) \<leftarrow> buffer_EncodePacket lib (mix_out total_buf cur) (mixer_samples m) sum_pkt b; Some (ok, p, p, b) }
                  else Some (False, sum_pkt, sum_pkt, b)
             else do { (ok, p, b) \<leftarrow> buffer_EncodePacket lib (mix_out total_buf cur) (mixer_samples m) MediaOutputPacket_new b; Some (ok, p, sum_pkt, b) })"
    let ?n = "int (mixer_samples m) * 2 * channel (audio_option (opus_codec b))"
    obtain bs enc where o: "Opus_Encode lib (mix_out total_buf cur) ?n (opus_encoder (opus_codec b)) = (bs, enc)" by fastforce
    have e: "buffer_EncodePacket lib (mix_out total_buf cur) (mixer_samples m) pkt b = Some
        (case bs of None \<Rightarrow> (False, pkt, b\<lparr>opus_codec := opus_codec b\<lparr>opus_encoder := enc\<rparr>\<rparr>)
         | Some bytes \<Rightarrow> (True, pkt\<lparr>encoded_buf := Some bytes, mo_length := int (length bytes)\<rparr>, b\<lparr>opus_codec := opus_codec b\<lparr>opus_encoder := enc\<rparr>\<rparr>))" for pkt
      using o out by (simp add: buffer_EncodePacket_eq)
    obtain ok pkt sum' b' where s: "step = Some (ok, pkt, sum', b')"
      and s': "\<not> skip_low \<Longrightarrow> ok = (bs \<noteq> None) \<and> (\<forall>bytes. bs = Some bytes \<longrightarrow> pkt = MediaOutputPacket_new\<lparr>encoded_buf := Some bytes, mo_length := int (length bytes)\<rparr>)"
      unfolding step_def e by (cases bs; cases skip_low; cases "cur = None"; cases "encoded_buf sum_pkt = None") auto
    define here where "here = (if ok then [AudioMixed l0 (pkt\<lparr>mo_timestamp := ts, mo_seq_number := seq, mo_ssrc := -1, mo_audio_energy := Some energy\<rparr>)] else [])"
    define m1 where "m1 = m\<lparr>audio_buffer_managers := sm_set (<) stid b' (audio_buffer_managers m)\<rparr>"
    define m2 where "m2 = (if ok then m1\<lparr>speaker_estimator := UpdateAudioEnergy stid energy (speaker_estimator m1)\<rparr> else m1)"
    obtain v where v: "sm_find (<) stid (audio_buffer_managers m) = Some v"
      using Cons.prems(4,5) intk.find_elem [OF Cons.prems(4), of stid] by (force simp: p)
    have keys: "map fst (audio_buffer_managers m2) = map fst (audio_buffer_managers m)" using keys_sm_set [OF Cons.prems(4) v] by (simp add: m2_def m1_def)
    have m2: "mixer_samples m2 = mixer_samples m" "sm_sorted (<) (audio_buffer_managers m2)" "audio_mixer_listeners m2 = audio_mixer_listeners m"
      "unencoded_queue m2 = unencoded_queue m" "mix_all_rtp_packet_listener m2 = mix_all_rtp_packet_listener m"
      using Cons.prems(4) by (simp_all add: m2_def m1_def intk.sorted_set)
    have "fst ` set ms \<subseteq> fst ` set (audio_buffer_managers m2)" using Cons.prems(5) arg_cong [OF keys, of set] by (simp add: p)
    from Cons.IH [of m2 cs' sum', OF _ _ _ m2(2) this] Cons.prems(1-3)
    obtain ev m' where r: "send_mixes lib skip_low seq ts total_buf sum' ms cs' m2 = Some (ev, m')" "mixer_samples m' = mixer_samples m2"
      "sm_sorted (<) (audio_buffer_managers m')" "map fst (audio_buffer_managers m') = map fst (audio_buffer_managers m2)"
      "unencoded_queue m' = unencoded_queue m2" "mix_all_rtp_packet_listener m' = mix_all_rtp_packet_listener m2"
      "\<not> skip_low \<longrightarrow> (\<forall>l. to_listener l ev = concat (map (\<lambda>((stid, b), (cur, energy)).
          if sm_find (<) stid (audio_mixer_listeners m2) = Some l then heard lib l seq ts (Some energy) (mix_out total_buf cur) (opus_codec b) else []) (zip ms cs')))"
      by (auto simp: cs m2(1))
    have all: "send_mixes lib skip_low seq ts total_buf sum_pkt (p # ms) cs m = Some (here @ ev, m')"
      using Some s r(1) unfolding p cs send_mixes.simps step_def [symmetric] Let_def
      by (cases ok) (simp_all add: step_def [symmetric] here_def m2_def m1_def)
    have hd: "to_listener l here = (if l0 = l then heard lib l seq ts (Some energy) (mix_out total_buf cur) (opus_codec b) else [])" if "\<not> skip_low" for l
      using s' [OF that] o out by (cases bs) (auto simp: here_def heard_def)
    show ?thesis using all r m2 keys hd Some by (intro exI [of _ "here @ ev"] exI [of _ m']) (simp add: p cs)
  qed
qed

lemma mix_all_to_listener:
  assumes "length total_buf = mixer_samples m"
  shows "\<exists>events c. mix_all lib seq ts energy total_buf m = Some (events, m\<lparr>am_codec := c\<rparr>) \<and>
    (\<forall>l. mix_all_rtp_packet_listener m \<noteq> Some l \<longrightarrow> to_listener l events = [])"
proof -
  obtain events c where r: "mix_all lib seq ts energy total_buf m = Some (events, m\<lparr>am_codec := c\<rparr>)" using mix_all_total [OF assms] by blast
  then have "to_listener l events = []" if "mix_all_rtp_packet_listener m \<noteq> Some l" for l
    using that by (auto simp: mix_all_def to_listener_def Let_def split: option.splits if_splits bind_splits)
  then show ?thesis using r by blast
qed

lemma to_listener_told [simp]: "to_listener l (map SpeakerChanged told) = []"
  by (induction told) (simp_all add: to_listener_def)

lemma next_frame_eq:
  obtains told e where "next_frame m = (map SpeakerChanged told, m\<lparr>speaker_estimator := e\<rparr>)"
  by (cases "NextFrame (speaker_estimator m)") (simp add: next_frame_def)

text \<open>A loop over participants and contributions side by side, by index.\<close>

lemma zip_index:
  assumes "map fst ms = map fst ms0" "map (\<lambda>p. pr (snd p)) ms = map (\<lambda>p. pr (snd p)) ms0" "map fst cs = fs" "length fs = length ms0"
  shows "map (\<lambda>((stid, b), (cur, energy)). F stid (pr b) cur energy) (zip ms cs) =
    map (\<lambda>i. F (fst (ms0 ! i)) (pr (snd (ms0 ! i))) (fs ! i) (map snd cs ! i)) [0..<length ms0]"
proof (rule nth_equalityI)
  have l: "length ms = length ms0" "length cs = length ms0" using map_eq_imp_length_eq [OF assms(1)] assms(3,4) by (simp_all flip: assms(3))
  then show "length (map (\<lambda>((stid, b), (cur, energy)). F stid (pr b) cur energy) (zip ms cs)) =
    length (map (\<lambda>i. F (fst (ms0 ! i)) (pr (snd (ms0 ! i))) (fs ! i) (map snd cs ! i)) [0..<length ms0])" by simp
  fix i
  assume "i < length (map (\<lambda>((stid, b), (cur, energy)). F stid (pr b) cur energy) (zip ms cs))"
  then have i: "i < length ms0" using l by simp
  have "fst (ms ! i) = fst (ms0 ! i)" "pr (snd (ms ! i)) = pr (snd (ms0 ! i))" "fst (cs ! i) = fs ! i"
    using arg_cong [OF assms(1), of "\<lambda>xs. xs ! i"] arg_cong [OF assms(2), of "\<lambda>xs. xs ! i"] arg_cong [OF assms(3), of "\<lambda>xs. xs ! i"] l i by simp_all
  then show "map (\<lambda>((stid, b), (cur, energy)). F stid (pr b) cur energy) (zip ms cs) ! i =
    map (\<lambda>i. F (fst (ms0 ! i)) (pr (snd (ms0 ! i))) (fs ! i) (map snd cs ! i)) [0..<length ms0] ! i"
    using l i by (cases "ms ! i"; cases "cs ! i") simp
qed

lemma each_listener:
  fixes ms ms0 :: "('n, 'e, 'd) managers" and lib :: "('k, 'h, 'e, 'd) media_lib"
  assumes "map fst ms = map fst ms0" "map (\<lambda>p. opus_codec (snd p)) ms = map (\<lambda>p. opus_codec (snd p)) ms0" "map fst cs = fs"
    "length fs = length ms0" "\<forall>i<length ms0. mix_out total_buf (fs ! i) = out i"
  shows "map (\<lambda>((stid, b), (cur, energy)).
      if sm_find (<) stid ls = Some l then heard lib l seq ts (Some energy) (mix_out total_buf cur) (opus_codec b) else []) (zip ms cs) =
    map (\<lambda>i. if sm_find (<) (fst (ms0 ! i)) ls = Some l then heard lib l seq ts (Some (map snd cs ! i)) (out i) (opus_codec (snd (ms0 ! i))) else [])
      [0..<length ms0]"
  using zip_index [where pr = "opus_codec :: ('n, 'e, 'd) AudioBufferManager \<Rightarrow> ('e, 'd) OpusCodec" and F = "\<lambda>stid c cur energy.
      if sm_find (<) stid ls = Some l then heard lib l seq ts (Some energy) (mix_out total_buf cur) c else []", OF assms(1-4)] assms(5)
  by (simp cong: map_cong)

text \<open>A due pass of \<open>MixPacketLoopOnStable3\<close>.\<close>

lemma stable3_total:
  assumes "GetAudio_bounded lib" "mixer_wf m" "lp_time lp + 10 \<le> now"
  shows "\<exists>ev lp' g' m'. mix_pass_stable3 lib skip_low now lp g m = Some (ev, lp', g', m') \<and> mixer_wf m' \<and>
    mixer_samples m' = mixer_samples m \<and> unencoded_queue m' = unencoded_queue m \<and>
    (\<not> skip_low \<and> list_ex (\<lambda>f. f \<noteq> None) (frames_of lib skip_low m) \<longrightarrow>
      (\<exists>es. length es = length (audio_buffer_managers m) \<and> (\<forall>l. mix_all_rtp_packet_listener m \<noteq> Some l \<longrightarrow>
        to_listener l ev = concat (map (\<lambda>i.
          if sm_find (<) (fst (audio_buffer_managers m ! i)) (audio_mixer_listeners m) = Some l
          then heard lib l (lp_seq lp + 1) (lp_ts lp + of_nat (mixer_samples m)) (Some (es ! i))
            (others_mix (mixer_samples m) (frames_of lib skip_low m) i) (opus_codec (snd (audio_buffer_managers m ! i)))
          else []) [0..<length (audio_buffer_managers m)]))))"
proof (cases "audio_buffer_managers m = []")
  case True
  then show ?thesis using assms(2,3) by (simp add: mix_pass_stable3_def Let_def frames_of_def)
next
  case False
  let ?ms = "audio_buffer_managers m" and ?fs = "frames_of lib skip_low m" and ?seq = "lp_seq lp + 1" and ?ts = "lp_ts lp + of_nat (mixer_samples m)"
  have due: "lp_time lp \<le> now" using assms(3) by simp
  obtain ms cs total_buf g' where r:
    "mix_inputs lib skip_low (mixer_samples m) now (am_session_id m) ?ms (replicate (mixer_samples m) 0) g = Some (ms, cs, total_buf, g')"
    "map fst ms = map fst ?ms" "map (\<lambda>p. opus_codec (snd p)) ms = map (\<lambda>p. opus_codec (snd p)) ?ms"
    "map fst cs = ?fs" "length total_buf = mixer_samples m"
    "\<forall>k < mixer_samples m. total_buf ! k = (\<Sum>f\<leftarrow>?fs. scast (sample_at k f))"
    using mix_pass_total [OF assms(1,2) due False] by metis
  have wf: "sm_sorted (<) ms \<and> list_all (\<lambda>p. int32 (fst p)) ms" using wf_same_keys [OF assms(2) r(2)] .
  have ex: "list_all (\<lambda>c. fst c = None) cs \<longleftrightarrow> \<not> list_ex (\<lambda>f. f \<noteq> None) ?fs"
    unfolding r(4) [symmetric] by (auto simp: list_all_iff list_ex_iff)
  show ?thesis
  proof (cases "list_all (\<lambda>c. fst c = None) cs")
    case True
    then show ?thesis using assms(2,3) False r(1) wf ex by (simp add: mix_pass_stable3_def mixer_wf_def Let_def)
  next
    case some: False
    let ?m0 = "m\<lparr>audio_buffer_managers := ms\<rparr>"
    obtain told e where nf: "next_frame ?m0 = (map SpeakerChanged told, ?m0\<lparr>speaker_estimator := e\<rparr>)" by (rule next_frame_eq)
    let ?m1 = "?m0\<lparr>speaker_estimator := e\<rparr>"
    have len: "length ms = length cs" using r(2,4) by (metis frames_of_def length_map)
    have fl: "\<forall>c\<in>set cs. \<forall>cur. fst c = Some cur \<longrightarrow> length cur = mixer_samples ?m1"
    proof (intro ballI allI impI)
      fix c cur
      assume "c \<in> set cs" "fst c = Some cur"
      then have "Some cur \<in> set ?fs" unfolding r(4) [symmetric] by force
      then show "length cur = mixer_samples ?m1" using frame_of_length [OF assms(1)] assms(2) by (auto simp: frames_of_def mixer_wf_def)
    qed
    obtain sent m2 where s: "send_mixes lib skip_low ?seq ?ts total_buf MediaOutputPacket_new ms cs ?m1 = Some (sent, m2)"
      "mixer_samples m2 = mixer_samples m" "sm_sorted (<) (audio_buffer_managers m2)" "map fst (audio_buffer_managers m2) = map fst ms"
      "unencoded_queue m2 = unencoded_queue m" "mix_all_rtp_packet_listener m2 = mix_all_rtp_packet_listener m"
      "\<not> skip_low \<longrightarrow> (\<forall>l. to_listener l sent = concat (map (\<lambda>((stid, b), (cur, energy)).
        if sm_find (<) stid (audio_mixer_listeners m) = Some l then heard lib l ?seq ?ts (Some energy) (mix_out total_buf cur) (opus_codec b) else []) (zip ms cs)))"
      using send_mixes_total [of total_buf ?m1 cs ms, OF _ fl len, of lib skip_low ?seq ?ts MediaOutputPacket_new] r(5) wf by auto
    have "length total_buf = mixer_samples m2" using r(5) s(2) by simp
    from mix_all_to_listener [OF this, of lib ?seq ?ts "snd (hd cs)"]
    obtain ev c where a: "mix_all lib ?seq ?ts (snd (hd cs)) total_buf m2 = Some (ev, m2\<lparr>am_codec := c\<rparr>)"
      "\<forall>l. mix_all_rtp_packet_listener m2 \<noteq> Some l \<longrightarrow> to_listener l ev = []" by blast
    have pass: "mix_pass_stable3 lib skip_low now lp g m =
        Some (map SpeakerChanged told @ sent @ ev, lp\<lparr>lp_time := now, lp_seq := ?seq, lp_ts := ?ts\<rparr>, g', m2\<lparr>am_codec := c\<rparr>)"
      using assms(3) False r(1) some nf s(1) a(1) by (simp add: mix_pass_stable3_def Let_def)
    have wf2: "mixer_wf (m2\<lparr>am_codec := c\<rparr>)"
    proof -
      have "map fst (audio_buffer_managers m2) = map fst ?ms" using s(4) r(2) by simp
      from wf_same_keys [OF assms(2) this] show ?thesis using s(2) assms(2) by (simp add: mixer_wf_def)
    qed
    have out: "\<forall>i<length ?ms. mix_out total_buf (?fs ! i) = others_mix (mixer_samples m) ?fs i"
      using frame_of_length [OF assms(1)] assms(2) by (intro allI impI mix_out_others [OF _ r(5) _ r(6)]) (simp_all add: frames_of_def mixer_wf_def)
    have lfs: "length ?fs = length ?ms" by (simp add: frames_of_def)
    have "to_listener l (map SpeakerChanged told @ sent @ ev) = concat (map (\<lambda>i.
          if sm_find (<) (fst (?ms ! i)) (audio_mixer_listeners m) = Some l
          then heard lib l ?seq ?ts (Some (map snd cs ! i)) (others_mix (mixer_samples m) ?fs i) (opus_codec (snd (?ms ! i)))
          else []) [0..<length ?ms])" if "\<not> skip_low" "mix_all_rtp_packet_listener m \<noteq> Some l" for l
      using s(7) that a(2) s(6) unfolding each_listener [OF r(2,3,4) lfs out] by simp
    then show ?thesis using pass wf2 s(2,5) map_eq_imp_length_eq [OF r(2)] len
      by (intro exI [of _ "map SpeakerChanged told @ sent @ ev"] exI [of _ "lp\<lparr>lp_time := now, lp_seq := ?seq, lp_ts := ?ts\<rparr>"] exI [of _ g']
          exI [of _ "m2\<lparr>am_codec := c\<rparr>"] conjI impI exI [of _ "map snd cs"]) simp_all
  qed
qed

section \<open>Both loops deliver the same audio\<close>

text \<open>The delivered packets, without the energy that only the loop in one thread fills in.\<close>

definition audio_of :: "mix_event list \<Rightarrow> MediaOutputPacket list" where
  "audio_of ev = map (\<lambda>e. case e of AudioMixed _ p \<Rightarrow> p\<lparr>mo_audio_energy := None\<rparr> | _ \<Rightarrow> MediaOutputPacket_new) ev"

lemma audio_of_heard: "audio_of (heard lib l seq ts energy pcm c) = audio_of (heard lib l seq ts None pcm c)"
  by (simp add: audio_of_def heard_def split: option.split)

lemma concat_single: "i < n \<Longrightarrow> concat (map (\<lambda>k. if k = i then f k else []) [0..<n]) = f i"
  by (induction n) (auto simp: less_Suc_eq concat_eq_Nil_conv)

lemma own_listener_index:
  assumes "mixer_wf m" "i < length (audio_buffer_managers m)" "own_listener m (word_of_int (fst (audio_buffer_managers m ! i))) l"
    "j < length (audio_buffer_managers m)"
  shows "sm_find (<) (fst (audio_buffer_managers m ! j)) (audio_mixer_listeners m) = Some l \<longleftrightarrow> j = i"
proof -
  let ?w = "\<lambda>j. word_of_int (fst (audio_buffer_managers m ! j)) :: u32"
  have "sm_find (<) (sint (?w j)) (audio_mixer_listeners m) = Some l \<longleftrightarrow> ?w j = ?w i" using assms(3) by (simp add: own_listener_def)
  moreover have "?w j = ?w i \<longleftrightarrow> j = i"
    using distinct_words [of "audio_buffer_managers m"] assms(1,2,4) by (auto simp: mixer_wf_def distinct_conv_nth)
  ultimately show ?thesis using wf_find(2) [OF assms(1,4)] by simp
qed

text \<open>C13.
  Mixing and encoding in one thread (\<open>MixPacketLoopOnStable3\<close>) and in several (\<open>MixPacketLoopWithMultiThread\<close>, then
  \<open>EncodeLoop\<close> until its queue is empty) deliver the same audio, for any NetEq and Opus: a participant that is
  not muted and has a listener of its own is given exactly one packet, the encoding by its own encoder of
  the sum of the samples of all others, with the next sequence number and timestamp, or none if its encoder fails.\<close>

theorem loops_deliver_same_audio:
  assumes "GetAudio_bounded lib" "mixer_wf m" "lp_time lp + 10 \<le> now" "unencoded_queue m = []" "mixer_samples m = 480"
    "i < length (audio_buffer_managers m)" "\<not> muted (snd (audio_buffer_managers m ! i))"
    "own_listener m (word_of_int (fst (audio_buffer_managers m ! i))) l" "mix_all_rtp_packet_listener m \<noteq> Some l"
    "list_ex (\<lambda>f. f \<noteq> None) (frames_of lib False m)"
  shows "\<exists>ev lp1 g1 m1 sent m2 ev3 lp3 g3 m3. mix_pass_multi lib False now lp g m = Some (ev, lp1, g1, m1) \<and>
    encode_passes lib (length (unencoded_queue m1)) m1 = Some (sent, m2) \<and> unencoded_queue m2 = [] \<and>
    mix_pass_stable3 lib False now lp g m = Some (ev3, lp3, g3, m3) \<and>
    audio_of (to_listener l sent) = audio_of (heard lib l (lp_seq lp + 1) (lp_ts lp + 480) None (others_mix 480 (frames_of lib False m) i)
      (opus_codec (snd (audio_buffer_managers m ! i)))) \<and>
    audio_of (to_listener l ev3) = audio_of (to_listener l sent)"
proof -
  have due: "lp_time lp \<le> now" using assms(3) by simp
  let ?h = "\<lambda>e. heard lib l (lp_seq lp + 1) (lp_ts lp + 480) e (others_mix 480 (frames_of lib False m) i) (opus_codec (snd (audio_buffer_managers m ! i)))"
  obtain ev lp1 g1 m1 sent m2 where a: "mix_pass_multi lib False now lp g m = Some (ev, lp1, g1, m1)"
    "encode_passes lib (length (unencoded_queue m1)) m1 = Some (sent, m2)" "unencoded_queue m2 = []" "to_listener l sent = ?h None"
    using multi_hears_others [OF assms(1,2) due assms(4-8,10), of g] by blast
  obtain ev3 lp3 g3 m3 es where b: "mix_pass_stable3 lib False now lp g m = Some (ev3, lp3, g3, m3)"
    "to_listener l ev3 = concat (map (\<lambda>i.
          if sm_find (<) (fst (audio_buffer_managers m ! i)) (audio_mixer_listeners m) = Some l
          then heard lib l (lp_seq lp + 1) (lp_ts lp + of_nat (mixer_samples m)) (Some (es ! i))
            (others_mix (mixer_samples m) (frames_of lib False m) i) (opus_codec (snd (audio_buffer_managers m ! i)))
          else []) [0..<length (audio_buffer_managers m)])"
    using stable3_total [OF assms(1-3), of False g] assms(9,10) by blast
  have "to_listener l ev3 = concat (map (\<lambda>k. if k = i then heard lib l (lp_seq lp + 1) (lp_ts lp + of_nat (mixer_samples m)) (Some (es ! k))
            (others_mix (mixer_samples m) (frames_of lib False m) k) (opus_codec (snd (audio_buffer_managers m ! k))) else []) [0..<length (audio_buffer_managers m)])"
    unfolding b(2) by (intro arg_cong [where f = concat] map_cong) (simp_all add: own_listener_index [OF assms(2,6,8)])
  then have "to_listener l ev3 = ?h (Some (es ! i))" using assms(5,6) by (simp add: concat_single)
  then have "audio_of (to_listener l ev3) = audio_of (to_listener l sent)" using a(4) by (simp only: audio_of_heard [of lib l _ _ "Some (es ! i)"])
  then show ?thesis using a b(1) by auto
qed

definition example_conference :: "(sample list, nat, unit) AudioMixerElement" where
  "example_conference = example_mixer\<lparr>mixer_samples := 480\<rparr>"

theorem loops_deliver_same_audio_witness:
  "\<exists>ev lp1 g1 m1 sent m2 ev3 lp3 g3 m3. mix_pass_multi example_lib False 10 example_loop manager_empty example_conference = Some (ev, lp1, g1, m1) \<and>
    encode_passes example_lib (length (unencoded_queue m1)) m1 = Some (sent, m2) \<and> unencoded_queue m2 = [] \<and>
    mix_pass_stable3 example_lib False 10 example_loop manager_empty example_conference = Some (ev3, lp3, g3, m3) \<and>
    length (audio_of (to_listener 12 sent)) = 1 \<and> audio_of (to_listener 12 ev3) = audio_of (to_listener 12 sent)"
proof -
  have wf: "mixer_wf example_conference" "unencoded_queue example_conference = []" "mixer_samples example_conference = 480"
    "1 < length (audio_buffer_managers example_conference)" "\<not> muted (snd (audio_buffer_managers example_conference ! 1))"
    "mix_all_rtp_packet_listener example_conference \<noteq> Some 12" "lp_time example_loop + 10 \<le> 10"
    by (simp_all add: example_conference_def example_mixer_def mixer_wf_def sm_sorted_def int32_def max_samples_eq AudioMixerElement_new_def
        example_buffer_def AudioBufferManager_new_def example_loop_def)
  have ls: "sm_find (<) j (audio_mixer_listeners example_conference) = Some 12 \<longleftrightarrow> j = 2" for j
    by (simp add: example_conference_def example_mixer_def)
  have "sint (2 :: u32) = 2" by simp
  then have "sint (s :: u32) = 2 \<longleftrightarrow> s = 2" for s :: u32 by (metis signed_word_eqI)
  then have own: "own_listener example_conference (word_of_int (fst (audio_buffer_managers example_conference ! 1))) 12"
    by (simp add: own_listener_def ls) (simp add: example_conference_def example_mixer_def)
  have fr: "list_ex (\<lambda>f. f \<noteq> None) (frames_of example_lib False example_conference)"
  proof -
    have "frame_of example_lib False n (example_buffer [10, 20]) \<noteq> None" for n
      by (simp add: frame_of_def PopAndDecode_def example_lib_def example_buffer_def AudioBufferManager_new_def filled_def max_samples_eq Let_def)
    then show ?thesis by (simp add: frames_of_def example_conference_def example_mixer_def)
  qed
  let ?c = "opus_codec (snd (audio_buffer_managers example_conference ! 1))"
  have h: "length (audio_of (heard example_lib 12 seq ts None pcm ?c)) = 1" for seq ts pcm
    by (simp add: heard_def audio_of_def example_lib_def)
  show ?thesis
    using loops_deliver_same_audio [OF example_lib_bounded wf(1) wf(7) wf(2-5) own wf(6) fr, of manager_empty] h by metis
qed

end
