(* ===== verification/Audio_Calls.thy ===== *)
theory Audio_Calls
  imports Audio_Delivery
begin

text \<open>
  Histories of the audio mixer: any sequence of calls and passes of its loops.  No pass reads outside
  of an array or through a null pointer, as long as a frame has at least the 480 samples that
  \<open>EncodeLoop\<close> encodes.  Below are also inputs on which the mixer does something other than it means to.
\<close>

section \<open>Calls\<close>

datatype mixer_call =
    Register int "int option"
  | Unregister int
  | SetMixAll "int option"
  | AddBuffer int
  | RemoveBuffer int
  | Push int dataPacket
  | Loss int int
  | MuteStream int bool
  | MixMulti int
  | MixStable3 int
  | Encode

type_synonym ('n, 'e, 'd) mixer_world = "loop_state \<times> NetworkStatusManager \<times> ('n, 'e, 'd) AudioMixerElement"

fun call_mixer ::
    "('n, 'h, 'e, 'd) media_lib \<Rightarrow> bool \<Rightarrow> mixer_call \<Rightarrow> ('n, 'e, 'd) mixer_world \<Rightarrow> ('n, 'e, 'd) mixer_world option" where
  "call_mixer lib skip_low (Register i l) (lp, g, m) = Some (lp, g, snd (RegisterMixResultListener i l m))"
| "call_mixer lib skip_low (Unregister i) (lp, g, m) = Some (lp, g, snd (UnregisterMixResultListener i m))"
| "call_mixer lib skip_low (SetMixAll l) (lp, g, m) = Some (lp, g, snd (SetMixAllRtpPacketListener l m))"
| "call_mixer lib skip_low (AddBuffer i) (lp, g, m) = Some (lp, g, AddAudioBuffer lib i m)"
| "call_mixer lib skip_low (RemoveBuffer i) (lp, g, m) = Some (lp, g, RemoveAudioBuffer i m)"
| "call_mixer lib skip_low (Push i p) (lp, g, m) = do { m \<leftarrow> mixer_PushPacket lib i p m; Some (lp, g, m) }"
| "call_mixer lib skip_low (Loss i n) (lp, g, m) = Some (lp, g, mixer_OnPacketLoss lib i n m)"
| "call_mixer lib skip_low (MuteStream i b) (lp, g, m) = Some (lp, g, snd (mixer_Mute i b m))"
| "call_mixer lib skip_low (MixMulti now) (lp, g, m) = do { (_, lp, g, m) \<leftarrow> mix_pass_multi lib skip_low now lp g m; Some (lp, g, m) }"
| "call_mixer lib skip_low (MixStable3 now) (lp, g, m) = do { (_, lp, g, m) \<leftarrow> mix_pass_stable3 lib skip_low now lp g m; Some (lp, g, m) }"
| "call_mixer lib skip_low Encode (lp, g, m) = do { (_, m) \<leftarrow> encode_pass lib m; Some (lp, g, m) }"

fun call_mixers ::
    "('n, 'h, 'e, 'd) media_lib \<Rightarrow> bool \<Rightarrow> mixer_call list \<Rightarrow> ('n, 'e, 'd) mixer_world \<Rightarrow> ('n, 'e, 'd) mixer_world option" where
  "call_mixers lib skip_low [] w = Some w"
| "call_mixers lib skip_low (c # cs) w = do { w \<leftarrow> call_mixer lib skip_low c w; call_mixers lib skip_low cs w }"

text \<open>The callers hand over whole RTP packets, and stream ids that are C integers.\<close>

fun call_ok :: "mixer_call \<Rightarrow> bool" where
  "call_ok (AddBuffer i) \<longleftrightarrow> int32 i"
| "call_ok (Push i p) \<longleftrightarrow> 12 \<le> pkt_length p \<and> nat (pkt_length p) \<le> length (data p)"
| "call_ok _ \<longleftrightarrow> True"

definition mixer_ok :: "('n, 'e, 'd) AudioMixerElement \<Rightarrow> bool" where
  "mixer_ok m \<longleftrightarrow> mixer_wf m \<and> 480 \<le> mixer_samples m \<and> list_all frame_ok (unencoded_queue m)"

section \<open>Every call keeps the mixer well-formed\<close>

lemma keys_erase_int32: "list_all (\<lambda>p. int32 (fst p)) ms \<Longrightarrow> list_all (\<lambda>p. int32 (fst p)) (sm_erase (<) i ms)"
  using intk.keys_erase [of _ i ms] by (fastforce simp: list_all_iff)

lemma wf_managers:
  assumes "mixer_ok m" "sm_sorted (<) ms" "list_all (\<lambda>p. int32 (fst p)) ms"
  shows "mixer_ok (m\<lparr>audio_buffer_managers := ms\<rparr>)"
  using assms by (simp add: mixer_ok_def mixer_wf_def)

lemma wf_set:
  assumes "mixer_ok m" "int32 i"
  shows "mixer_ok (m\<lparr>audio_buffer_managers := sm_set (<) i b (audio_buffer_managers m)\<rparr>)"
proof (rule wf_managers [OF assms(1)])
  show "sm_sorted (<) (sm_set (<) i b (audio_buffer_managers m))" using assms(1) by (simp add: mixer_ok_def mixer_wf_def intk.sorted_set)
  have "\<forall>j\<in>fst ` set (audio_buffer_managers m). int32 j" using assms(1) by (auto simp: mixer_ok_def mixer_wf_def list_all_iff)
  then have "\<forall>j\<in>fst ` set (sm_set (<) i b (audio_buffer_managers m)). int32 j" using assms(2) by (simp add: intk.keys_set)
  then show "list_all (\<lambda>p. int32 (fst p)) (sm_set (<) i b (audio_buffer_managers m))" by (simp add: list_all_iff)
qed

lemma wf_find_id: "mixer_ok m \<Longrightarrow> sm_find (<) i (audio_buffer_managers m) = Some b \<Longrightarrow> int32 i"
  using intk.find_elem [of "audio_buffer_managers m" i b] by (force simp: mixer_ok_def mixer_wf_def list_all_iff)

lemma ok_listeners: "mixer_ok (m\<lparr>audio_mixer_listeners := ls\<rparr>) = mixer_ok m" "mixer_ok (m\<lparr>mix_all_rtp_packet_listener := l\<rparr>) = mixer_ok m"
  by (simp_all add: mixer_ok_def mixer_wf_def)

lemma mixer_push_ok:
  assumes "mixer_ok m" "12 \<le> pkt_length p" "nat (pkt_length p) \<le> length (data p)"
  shows "\<exists>m'. mixer_PushPacket lib i p m = Some m' \<and> mixer_ok m'"
proof (cases "sm_find (<) i (audio_buffer_managers m)")
  case None
  then show ?thesis using assms(1) by (simp add: mixer_PushPacket_def)
next
  case (Some b)
  have "\<exists>b'. PushAudioPacket lib p b = Some b'"
    using assms(2,3) by (simp add: PushAudioPacket_def rtp_payload_def RTP_HEADER_BASE_SIZE_def Let_def split: prod.split)
  then obtain b' where "PushAudioPacket lib p b = Some b'" by blast
  then show ?thesis using Some wf_set [OF assms(1) wf_find_id [OF assms(1) Some]] by (simp add: mixer_PushPacket_def Let_def)
qed

lemma multi_ok:
  assumes "GetAudio_bounded lib" "mixer_ok m"
  shows "\<exists>ev lp' g' m'. mix_pass_multi lib skip_low now lp g m = Some (ev, lp', g', m') \<and> mixer_ok m'"
proof (cases "lp_time lp \<le> now")
  case True
  have wf: "mixer_wf m" using assms(2) by (simp add: mixer_ok_def)
  obtain ev lp' g' m' fresh where r: "mix_pass_multi lib skip_low now lp g m = Some (ev, lp', g', m')" "mixer_wf m'"
    "unencoded_queue m' = unencoded_queue m @ fresh" "list_all (frame_shape (mixer_samples m) (muted_streams (audio_buffer_managers m))) fresh" "kept m m'"
    using mix_pass_frames [OF assms(1) wf True, of skip_low g] by blast
  have "list_all frame_ok fresh" using r(4) assms(2) by (auto simp: list_all_iff frame_shape_def frame_ok_def mixer_ok_def)
  then have "mixer_ok m'" using r(2,3,5) assms(2) by (simp add: mixer_ok_def kept_def)
  then show ?thesis using r(1) by blast
qed (use assms(2) in \<open>simp add: mix_pass_multi_def\<close>)

lemma stable3_ok:
  assumes "GetAudio_bounded lib" "mixer_ok m"
  shows "\<exists>ev lp' g' m'. mix_pass_stable3 lib skip_low now lp g m = Some (ev, lp', g', m') \<and> mixer_ok m'"
proof (cases "lp_time lp + 10 \<le> now")
  case True
  have wf: "mixer_wf m" using assms(2) by (simp add: mixer_ok_def)
  obtain ev lp' g' m' where "mix_pass_stable3 lib skip_low now lp g m = Some (ev, lp', g', m')" "mixer_wf m'"
    "mixer_samples m' = mixer_samples m" "unencoded_queue m' = unencoded_queue m"
    using stable3_total [OF assms(1) wf True, of skip_low g] by blast
  then show ?thesis using assms(2) by (simp add: mixer_ok_def)
qed (use assms(2) in \<open>simp add: mix_pass_stable3_def\<close>)

lemma encode_ok:
  assumes "mixer_ok m"
  shows "\<exists>ev m'. encode_pass lib m = Some (ev, m') \<and> mixer_ok m'"
proof (cases "unencoded_queue m")
  case Nil
  then show ?thesis using assms by (simp add: encode_pass_def)
next
  case (Cons up ups)
  have s: "sm_sorted (<) (audio_buffer_managers m)" "frame_ok up" and wf: "mixer_wf m" using assms Cons by (simp_all add: mixer_ok_def mixer_wf_def)
  obtain ev m' where r: "encode_pass lib m = Some (ev, m')" "unencoded_queue m' = ups"
    "map fst (audio_buffer_managers m') = map fst (audio_buffer_managers m)" "mixer_samples m' = mixer_samples m"
    using encode_pass_other [OF Cons s, of lib] by blast
  from wf_same_keys [OF wf r(3)] have "mixer_ok m'" using r(2,4) assms Cons by (simp add: mixer_ok_def mixer_wf_def)
  then show ?thesis using r(1) by blast
qed

lemma call_mixer_sound:
  assumes "GetAudio_bounded lib" "mixer_ok m" "call_ok c"
  shows "\<exists>lp' g' m'. call_mixer lib skip_low c (lp, g, m) = Some (lp', g', m') \<and> mixer_ok m'"
proof (cases c)
  case (Push i p)
  then show ?thesis using mixer_push_ok [OF assms(2), of p lib i] assms(3) by auto
next
  case (MixMulti now)
  then show ?thesis using multi_ok [OF assms(1,2), of skip_low now lp g] by auto
next
  case (MixStable3 now)
  then show ?thesis using stable3_ok [OF assms(1,2), of skip_low now lp g] by auto
next
  case Encode
  then show ?thesis using encode_ok [OF assms(2), of lib] by auto
next
  case (AddBuffer i)
  then show ?thesis using assms(2,3) wf_set by (auto simp: AddAudioBuffer_def sm_insert_def split: option.split)
next
  case (RemoveBuffer i)
  have "mixer_ok (m\<lparr>audio_buffer_managers := sm_erase (<) i (audio_buffer_managers m)\<rparr>)"
    using assms(2) by (intro wf_managers [OF assms(2)]) (simp_all add: mixer_ok_def mixer_wf_def intk.sorted_erase keys_erase_int32)
  then show ?thesis using RemoveBuffer assms(2) by (simp add: RemoveAudioBuffer_def split: option.split)
next
  case (Loss i n)
  then show ?thesis using assms(2) wf_set [OF assms(2) wf_find_id [OF assms(2)]] by (auto simp: mixer_OnPacketLoss_def split: option.split)
next
  case (MuteStream i b)
  then show ?thesis using assms(2) wf_set [OF assms(2) wf_find_id [OF assms(2)]] by (auto simp: mixer_Mute_def split: option.split)
qed (use assms(2) in \<open>simp_all add: RegisterMixResultListener_def UnregisterMixResultListener_def SetMixAllRtpPacketListener_def ok_listeners split: option.split\<close>)

lemma call_mixers_sound:
  assumes "GetAudio_bounded lib" "mixer_ok m" "list_all call_ok cs"
  shows "\<exists>lp' g' m'. call_mixers lib skip_low cs (lp, g, m) = Some (lp', g', m') \<and> mixer_ok m'"
  using assms(2,3)
proof (induction cs arbitrary: lp g m)
  case (Cons c cs)
  have c: "call_ok c" "list_all call_ok cs" using Cons.prems(2) by simp_all
  obtain lp' g' m' where s: "call_mixer lib skip_low c (lp, g, m) = Some (lp', g', m')" "mixer_ok m'"
    using call_mixer_sound [OF assms(1) Cons.prems(1) c(1), of skip_low lp g] by blast
  from Cons.IH [OF s(2) c(2), of lp' g'] show ?case using s(1) by auto
qed simp

text \<open>C15.
  In every history of a mixer for a sampling rate between 48 and 120 kHz, in which packets have an RTP header
  and fit their arrays, no call and no pass of a loop fails, for any behaviour of NetEq and Opus in which NetEq
  keeps to the room it is given: nothing is read outside of an array or through a null pointer.  The
  map of the participants stays sorted, and every queued frame has the samples that \<open>EncodeLoop\<close> reads.\<close>

theorem mixer_calls_sound:
  assumes "GetAudio_bounded lib" "48000 \<le> sampling_rate opt" "sampling_rate opt \<le> 120000" "list_all call_ok cs"
  shows "\<exists>lp' g' m'. call_mixers lib skip_low cs (lp, g, AudioMixerElement_new lib sess opt raw speaker) = Some (lp', g', m') \<and> mixer_ok m'"
proof (rule call_mixers_sound [OF assms(1) _ assms(4)])
  have "480 \<le> sampling_rate opt div 100" "sampling_rate opt div 100 \<le> 1200" using assms(2,3) by linarith+
  then have "480 \<le> nat (sampling_rate opt div 100)" "nat (sampling_rate opt div 100) \<le> 1200" by simp_all
  then show "mixer_ok (AudioMixerElement_new lib sess opt raw speaker)"
    by (simp add: mixer_ok_def mixer_wf_def AudioMixerElement_new_def sm_sorted_def max_samples_eq)
qed

definition example_calls :: "mixer_call list" where
  "example_calls = [AddBuffer 1, AddBuffer 2, Register 1 (Some 11), Push 1 (dataPacket_new\<lparr>pkt_length := 30\<rparr>), MixMulti 10, Encode, MixStable3 40,
     MuteStream 2 True, RemoveBuffer 1, MixMulti 60]"

theorem mixer_calls_sound_witness:
  "\<exists>lp' g' m'. call_mixers example_lib False example_calls (example_loop, manager_empty, AudioMixerElement_new example_lib 7 AudioOption_new None True) =
     Some (lp', g', m') \<and> mixer_ok m'"
  by (rule mixer_calls_sound [OF example_lib_bounded])
    (simp_all add: example_calls_def AudioOption_new_def DEFAULT_SAMPLE_RATE_def int32_def dataPacket_new_def DATA_SIZE_def)

section \<open>What goes wrong\<close>

text \<open>A mute by the application lasts until the next packet of normal length.\<close>

lemma mute_undone: "FLAGS_mute_packet_length \<le> len \<Longrightarrow> \<not> muted (CheckAndSetMute len (buffer_Mute True b))"
  by (simp add: CheckAndSetMute_def buffer_Mute_def)

text \<open>Two loud participants of the same sign are heard by a third with the opposite sign.\<close>

lemma loud_mix_wraps: "map sint (others_mix 1 [Some [20000], Some [20000], None] 2) = [- 25536]"
  by code_simp

text \<open>Participants 1 and 2 are muted, 3 speaks.  Participant 2 has a listener, but no frame is queued for it because
  participant 1 has none.\<close>

definition muted_mixer :: "(sample list, nat, unit) AudioMixerElement" where
  "muted_mixer = example_mixer\<lparr>audio_mixer_listeners := [(2, 12), (3, 13)],
     audio_buffer_managers := [(1, buffer_Mute True (example_buffer [10, 20])), (2, buffer_Mute True (example_buffer [-3, 4])), (3, example_buffer [5, 6])]\<rparr>"

lemma muted_unheard: "fst (audio_buffer_managers muted_mixer ! 1) = 2" "listens muted_mixer 2" "\<not> receives muted_mixer 1"
  by (simp_all add: muted_mixer_def receives_def listens_def example_buffer_def buffer_Mute_def)

text \<open>With \<open>audio_mixer_skip_low\<close>, \<open>MixPacketLoopOnStable3\<close> serves only the first of the silent participants: of 1 and 2,
  which are silent, and 3, which speaks, 2 gets nothing.\<close>

definition served :: "mix_event list \<Rightarrow> int list" where
  "served ev = map (\<lambda>e. case e of AudioMixed l _ \<Rightarrow> l | _ \<Rightarrow> -1) ev"

lemma silent_unserved:
  "map_option (\<lambda>r. served (fst r)) (send_mixes example_lib True 1 0 [9000, 9000] MediaOutputPacket_new (audio_buffer_managers example_mixer)
     [(None, 5), (None, 6), (Some [9000, 9000], 2000000)] example_mixer) = Some [11, 13]"
  by (simp add: example_mixer_def example_buffer_def buffer_EncodePacket_eq mix_out_def example_lib_def served_def MediaOutputPacket_new_def
      AudioBufferManager_new_def OpusCodec_new_def Let_def)

text \<open>\<open>EncodeLoop\<close> encodes 480 samples of a frame that has fewer at a lower sampling rate.\<close>

lemma short_frame_overread:
  "encode_pass example_lib (example_mixer\<lparr>unencoded_queue := [UnencodedPacket_new\<lparr>stream_vec := [2], unencoded_buf := Some [1, 2]\<rparr>]\<rparr>) = None"
  by (simp add: encode_pass_def example_mixer_def buffer_EncodePacket_def codec_EncodePacket_def read_samples_def)

end
