(* ===== verification/Audio_Stable1.thy ===== *)
theory Audio_Stable1
  imports Audio_Delivery Rtp_Packet_Queue
begin

text \<open>
  The audio path before NetEq: \<open>AudioBufferManagerOfStable1\<close> of \<open>src/orbit/modules/audio_buffer_manager.cc\<close> over the
  \<open>RtpPacketQueue\<close> of \<open>Rtp_Packet_Queue\<close>, and \<open>AudioMixerElementOfStable1\<close> of \<open>src/orbit/modules/audio_mixer_element.cc\<close>.
  A flag selects it.

  A participant's packets are held back until more than fifteen are queued.  A single lost packet is
  concealed: the packet after it stays in the queue for one more round, in which the decoder makes up the
  missing frame.  The result \<open>None\<close> is undefined behaviour, as elsewhere.
\<close>

section \<open>The buffer of a participant\<close>

definition DEFAULT_PREBUFFERING :: nat where "DEFAULT_PREBUFFERING = 15"
definition PCMU_8000 :: u8 where "PCMU_8000 = 0"
definition OPUS_48000 :: u8 where "OPUS_48000 = 111"

record ('e, 'd) AudioBufferManagerOfStable1 =
  current_decode_index :: int
  audio_queue :: rtp_queue
  s1_muted :: bool
  prebuffering :: bool
  s1_encoder :: 'e
  s1_decoder :: 'd
  s1_option :: AudioOption

definition s1_Init :: "('n, 'h, 'e, 'd) media_lib \<Rightarrow> AudioOption \<Rightarrow> 'e \<times> 'd" where
  "s1_Init lib opt = (new_encoder lib opt, DecoderCreate lib (channel opt))"

definition AudioBufferManagerOfStable1_new ::
    "('n, 'h, 'e, 'd) media_lib \<Rightarrow> AudioOption \<Rightarrow> ('e, 'd) AudioBufferManagerOfStable1" where
  "AudioBufferManagerOfStable1_new lib opt =
     \<lparr>current_decode_index = -1, audio_queue = RtpPacketQueue_new DEFAULT_DEPTH DEFAULT_MAX, s1_muted = False, prebuffering = True,
      s1_encoder = fst (s1_Init lib opt), s1_decoder = snd (s1_Init lib opt), s1_option = opt\<rparr>"

definition audio_queue_size :: "('e, 'd) AudioBufferManagerOfStable1 \<Rightarrow> nat" where
  "audio_queue_size b = getSize (audio_queue b)"

definition s1_Mute :: "bool \<Rightarrow> ('e, 'd) AudioBufferManagerOfStable1 \<Rightarrow> ('e, 'd) AudioBufferManagerOfStable1" where
  "s1_Mute m b = b\<lparr>s1_muted := m, prebuffering := \<not> m\<rparr>"

definition s1_PushAudioPacket ::
    "(real \<Rightarrow> real) \<Rightarrow> dataPacket \<Rightarrow> ('e, 'd) AudioBufferManagerOfStable1 \<Rightarrow> ('e, 'd) AudioBufferManagerOfStable1 option" where
  "s1_PushAudioPacket rnd packet b =
     (if s1_muted b then Some b
      else do {
        pt \<leftarrow> getPayloadType (data packet);
        let q = audio_queue b;
        let q = (if pt = PCMU_8000 then setTimebase q 8000 else if pt = OPUS_48000 then setTimebase q 48000 else q);
        q \<leftarrow> pushPacket rnd q (data packet) (pkt_length packet);
        Some (b\<lparr>audio_queue := q, prebuffering := \<not> getSize q > DEFAULT_PREBUFFERING\<rparr>) })"

definition HasPacket :: "('e, 'd) AudioBufferManagerOfStable1 \<Rightarrow> bool" where
  "HasPacket b \<longleftrightarrow> \<not> prebuffering b \<and> \<not> IsEmpty (audio_queue b)"

definition PopAudioPacket ::
    "(real \<Rightarrow> real) \<Rightarrow> ('e, 'd) AudioBufferManagerOfStable1 \<Rightarrow> (dataPacket option \<times> ('e, 'd) AudioBufferManagerOfStable1) option" where
  "PopAudioPacket rnd b =
     (if \<not> HasPacket b then Some (None, b)
      else do {
        (nxt, q) \<leftarrow> getNextPacket rnd (audio_queue b) True;
        rtp_packet \<leftarrow> nxt;
        s \<leftarrow> getSeqNumber (data rtp_packet);
        let seq = uint s;
        let cur = current_decode_index b;
        if cur - seq > 0x8000 \<or> seq - cur = 1 \<or> cur = -1 \<or> seq - cur \<noteq> 2
        then do { (_, q) \<leftarrow> popPacket rnd q True False; Some (Some rtp_packet, b\<lparr>audio_queue := q\<rparr>) }
        else Some (Some rtp_packet, b\<lparr>audio_queue := q\<rparr>) })"

definition s1_DecodePacket ::
    "('n, 'h, 'e, 'd) media_lib \<Rightarrow> buffer \<Rightarrow> int \<Rightarrow> MediaDataPacket \<Rightarrow> ('e, 'd) AudioBufferManagerOfStable1
     \<Rightarrow> (MediaDataPacket \<times> ('e, 'd) AudioBufferManagerOfStable1) option" where
  "s1_DecodePacket lib buf len packet b = do {
     s \<leftarrow> getSeqNumber buf;
     let current = uint s;
     payload \<leftarrow> rtp_payload buf len;
     let (((decode_length, out), d), idx) =
       (if current_decode_index b \<noteq> -1 \<and> current - current_decode_index b = 2
        then (if PacketHasFec lib payload then Opus_DecodeFec lib payload (s1_decoder b) else Opus_DecodePlc lib (s1_decoder b),
              current_decode_index b + 1)
        else (Opus_Decode lib payload (s1_decoder b), current));
     tmp_buf \<leftarrow> filled BUFFER_SAMPLES out;
     let b = b\<lparr>s1_decoder := d, current_decode_index := idx\<rparr>;
     Some (if decode_length < 0 then packet\<lparr>media_buf := None, md_length := -1\<rparr>
           else packet\<lparr>md_length := decode_length, media_buf := Some tmp_buf\<rparr>, b) }"

text \<open>On a failure the packet has no bytes.\<close>

definition s1_EncodePacket ::
    "('n, 'h, 'e, 'd) media_lib \<Rightarrow> sample list \<Rightarrow> nat \<Rightarrow> MediaOutputPacket \<Rightarrow> ('e, 'd) AudioBufferManagerOfStable1
     \<Rightarrow> (bool \<times> MediaOutputPacket \<times> ('e, 'd) AudioBufferManagerOfStable1) option" where
  "s1_EncodePacket lib buf len packet b = do {
     pcm \<leftarrow> read_samples len buf;
     Some (case Opus_Encode lib pcm (int len * 2) (s1_encoder b) of
        (None, enc) \<Rightarrow> (False, packet\<lparr>encoded_buf := None, mo_length := -1\<rparr>, b\<lparr>s1_encoder := enc\<rparr>)
      | (Some bytes, enc) \<Rightarrow>
          (True, packet\<lparr>encoded_buf := Some bytes, mo_length := int (length bytes)\<rparr>, b\<lparr>s1_encoder := enc\<rparr>)) }"

section \<open>Playing a queue\<close>

text \<open>What the mixer does with a participant in a pass: take a packet and decode it.\<close>

definition s1_play ::
    "(real \<Rightarrow> real) \<Rightarrow> ('n, 'h, 'e, 'd) media_lib \<Rightarrow> ('e, 'd) AudioBufferManagerOfStable1
     \<Rightarrow> (MediaDataPacket option \<times> ('e, 'd) AudioBufferManagerOfStable1) option" where
  "s1_play rnd lib b = do {
     (p, b) \<leftarrow> PopAudioPacket rnd b;
     (case p of None \<Rightarrow> Some (None, b)
      | Some p \<Rightarrow> do {
          (pkt, b) \<leftarrow> s1_DecodePacket lib (data p) (pkt_length p) MediaDataPacket_new b;
          Some (Some pkt, b) }) }"

text \<open>The decode indices after each of \<open>n\<close> passes: the sequence numbers whose frames were played.\<close>

fun s1_played ::
    "(real \<Rightarrow> real) \<Rightarrow> ('n, 'h, 'e, 'd) media_lib \<Rightarrow> nat \<Rightarrow> ('e, 'd) AudioBufferManagerOfStable1
     \<Rightarrow> (int list \<times> ('e, 'd) AudioBufferManagerOfStable1) option" where
  "s1_played rnd lib 0 b = Some ([], b)"
| "s1_played rnd lib (Suc n) b = do {
     (pkt, b) \<leftarrow> s1_play rnd lib b;
     (is, b') \<leftarrow> s1_played rnd lib n b;
     Some (current_decode_index b # is, b') }"

definition Opus_bounded :: "('n, 'h, 'e, 'd) media_lib \<Rightarrow> bool" where
  "Opus_bounded lib \<longleftrightarrow> (\<forall>p d. length (snd (fst (Opus_Decode lib p d))) \<le> BUFFER_SAMPLES \<and>
     length (snd (fst (Opus_DecodeFec lib p d))) \<le> BUFFER_SAMPLES \<and> length (snd (fst (Opus_DecodePlc lib d))) \<le> BUFFER_SAMPLES)"

text \<open>A queued packet: 1500 bytes, of which at least a header is used.\<close>

definition audio_pkt :: "dataPacket \<Rightarrow> bool" where
  "audio_pkt p \<longleftrightarrow> pkt_wf p \<and> 12 \<le> pkt_length p \<and> nat (pkt_length p) \<le> DATA_SIZE"

definition seq_int :: "dataPacket \<Rightarrow> int" where "seq_int p = uint (seq_of p)"

definition conceals :: "('e, 'd) AudioBufferManagerOfStable1 \<Rightarrow> int \<Rightarrow> bool" where
  "conceals b s \<longleftrightarrow> current_decode_index b \<noteq> -1 \<and> s - current_decode_index b = 2"

lemma s1_play_step:
  assumes "Opus_bounded lib" "\<not> prebuffering b" "queue (audio_queue b) = ps @ [p]" "audio_pkt p"
  shows "\<exists>pkt b'. s1_play rnd lib b = Some (Some pkt, b') \<and> \<not> prebuffering b' \<and>
    current_decode_index b' = (if conceals b (seq_int p) then current_decode_index b + 1 else seq_int p) \<and>
    queue (audio_queue b') = (if conceals b (seq_int p) then ps @ [p] else ps) \<and> s1_encoder b' = s1_encoder b \<and>
    (md_length pkt < 0 \<or> (\<exists>buf. media_buf pkt = Some buf \<and> length buf = BUFFER_SAMPLES)) \<and>
    ((\<forall>pl d. 0 \<le> fst (fst (Opus_Decode lib pl d))) \<and> \<not> conceals b (seq_int p) \<longrightarrow> 0 \<le> md_length pkt)"
proof -
  have wf: "pkt_wf p" using assms(4) by (simp add: audio_pkt_def)
  have seq: "getSeqNumber (data p) = Some (seq_of p)" by (rule getSeqNumber_wf [OF wf])
  have pay: "\<exists>pl. rtp_payload (data p) (pkt_length p) = Some pl"
    using assms(4) by (simp add: audio_pkt_def pkt_wf_def rtp_payload_def RTP_HEADER_BASE_SIZE_def)
  then obtain pl where pl: "rtp_payload (data p) (pkt_length p) = Some pl" by blast
  let ?q = "audio_queue b\<lparr>lastSequenceNumberGiven := uint (seq_of p)\<rparr>"
  have has: "HasPacket b" using assms(2,3) by (simp add: HasPacket_def IsEmpty_def)
  have nxt: "getNextPacket rnd (audio_queue b) True = Some (Some p, ?q)"
    using seq assms(3) by (simp add: getNextPacket_def depth_reached_def)
  have pop: "popPacket rnd ?q True False = Some (Some p, ?q\<lparr>queue := ps\<rparr>)"
    using seq assms(3) by (simp add: popPacket_def depth_reached_def Let_def)
  have P: "PopAudioPacket rnd b = Some (Some p, b\<lparr>audio_queue := (if conceals b (seq_int p) then ?q else ?q\<lparr>queue := ps\<rparr>)\<rparr>)"
    using has nxt pop seq by (auto simp: PopAudioPacket_def conceals_def seq_int_def Let_def)
  let ?b = "b\<lparr>audio_queue := (if conceals b (seq_int p) then ?q else ?q\<lparr>queue := ps\<rparr>)\<rparr>"
  define r where "r = (if conceals b (seq_int p)
        then if PacketHasFec lib pl then Opus_DecodeFec lib pl (s1_decoder b) else Opus_DecodePlc lib (s1_decoder b)
        else Opus_Decode lib pl (s1_decoder b))"
  obtain len out d where r: "r = ((len, out), d)" by (metis prod.collapse)
  have "length (snd (fst r)) \<le> BUFFER_SAMPLES" using assms(1) by (simp add: Opus_bounded_def r_def)
  then have f: "filled BUFFER_SAMPLES out = Some (out @ replicate (BUFFER_SAMPLES - length out) 0)" by (simp add: filled_def r)
  have D: "s1_DecodePacket lib (data p) (pkt_length p) MediaDataPacket_new ?b = Some
      (if len < 0 then MediaDataPacket_new\<lparr>media_buf := None, md_length := -1\<rparr>
       else MediaDataPacket_new\<lparr>md_length := len, media_buf := Some (out @ replicate (BUFFER_SAMPLES - length out) 0)\<rparr>,
       ?b\<lparr>s1_decoder := d, current_decode_index := (if conceals b (seq_int p) then current_decode_index b + 1 else seq_int p)\<rparr>)"
    using seq pl f r by (cases "conceals b (seq_int p)"; cases "PacketHasFec lib pl") (auto simp: s1_DecodePacket_def conceals_def seq_int_def r_def Let_def)
  have "length out \<le> BUFFER_SAMPLES" using \<open>length (snd (fst r)) \<le> BUFFER_SAMPLES\<close> by (simp add: r)
  moreover have "(\<forall>pl d. 0 \<le> fst (fst (Opus_Decode lib pl d))) \<and> \<not> conceals b (seq_int p) \<longrightarrow> \<not> len < 0"
    using r by (metis fst_conv linorder_not_less r_def)
  ultimately show ?thesis using P D assms(2,3) by (cases "len < 0") (simp_all add: s1_play_def MediaDataPacket_new_def)
qed

text \<open>The sequence numbers, oldest first, with a single one missing in places.\<close>

fun single_losses :: "int list \<Rightarrow> bool" where
  "single_losses (a # b # ss) \<longleftrightarrow> (b = a + 1 \<or> b = a + 2) \<and> single_losses (b # ss)"
| "single_losses _ \<longleftrightarrow> True"

lemma single_losses_le: "single_losses (a # ss) \<Longrightarrow> a \<le> last (a # ss)"
proof (induction ss arbitrary: a)
  case (Cons b ss)
  then show ?case using Cons.IH [of b] by fastforce
qed simp

lemma played_from:
  assumes "Opus_bounded lib" "\<not> prebuffering b" "queue (audio_queue b) = rev ps" "list_all audio_pkt ps"
    "current_decode_index b = c" "0 \<le> c" "single_losses (c # map seq_int ps)" "e = last (c # map seq_int ps)"
  shows "\<exists>b'. s1_played rnd lib (nat (e - c)) b = Some ([c + 1..e], b') \<and> queue (audio_queue b') = []"
  using assms
proof (induction ps arbitrary: b c)
  case (Cons p ps)
  let ?s = "seq_int p"
  have sl: "single_losses (?s # map seq_int ps)" "?s = c + 1 \<or> ?s = c + 2" "audio_pkt p" "list_all audio_pkt ps" using Cons.prems(4,7) by auto
  have e: "e = last (?s # map seq_int ps)" "?s \<le> e" using Cons.prems(8) single_losses_le [OF sl(1)] by auto
  have q: "queue (audio_queue b) = rev ps @ [p]" using Cons.prems(3) by simp
  have plain: "\<exists>b'. s1_played rnd lib (nat (e - c')) b1 = Some ([c' + 1..e], b') \<and> queue (audio_queue b') = []"
    if b1: "\<not> prebuffering b1" "queue (audio_queue b1) = rev ps @ [p]" "current_decode_index b1 = c'" "0 \<le> c'" "?s = c' + 1" for b1 c'
  proof -
    have nc: "\<not> conceals b1 ?s" using b1(3,5) by (simp add: conceals_def)
    obtain pkt b2 where st: "s1_play rnd lib b1 = Some (Some pkt, b2)" "\<not> prebuffering b2" "current_decode_index b2 = ?s" "queue (audio_queue b2) = rev ps"
      using s1_play_step [OF assms(1) b1(1,2) sl(3), of rnd] nc by auto
    have "0 \<le> ?s" by (simp add: seq_int_def)
    from Cons.IH [OF assms(1) st(2,4) sl(4) st(3) this sl(1) e(1)]
    obtain b' where "s1_played rnd lib (nat (e - ?s)) b2 = Some ([?s + 1..e], b')" "queue (audio_queue b') = []" by blast
    moreover have "nat (e - c') = Suc (nat (e - ?s))" "[c' + 1..e] = ?s # [?s + 1..e]" using e(2) b1(5) by (simp_all add: upto_rec1)
    ultimately show ?thesis using st(1,3) by simp
  qed
  show ?case
  proof (cases "?s = c + 1")
    case True
    then show ?thesis using plain [OF Cons.prems(2) q Cons.prems(5,6)] by simp
  next
    case False
    then have s: "?s = c + 2" using sl(2) by simp
    then have co: "conceals b ?s" using Cons.prems(5,6) by (simp add: conceals_def)
    obtain pkt b1 where st: "s1_play rnd lib b = Some (Some pkt, b1)" "\<not> prebuffering b1" "current_decode_index b1 = c + 1" "queue (audio_queue b1) = rev ps @ [p]"
      using s1_play_step [OF assms(1) Cons.prems(2) q sl(3), of rnd] co Cons.prems(5) by auto
    obtain b' where "s1_played rnd lib (nat (e - (c + 1))) b1 = Some ([c + 1 + 1..e], b')" "queue (audio_queue b') = []"
      using plain [OF st(2,4,3)] s Cons.prems(6) by auto
    moreover have "nat (e - c) = Suc (nat (e - (c + 1)))" "[c + 1..e] = (c + 1) # [c + 1 + 1..e]" using e(2) s by (simp_all add: upto_rec1)
    ultimately show ?thesis using st(1,3) by simp
  qed
qed simp


definition example_packet :: "u16 \<Rightarrow> dataPacket" where
  "example_packet s = dataPacket_new\<lparr>data := seq_packet s @ replicate 1488 0, pkt_length := 20\<rparr>"

definition example_stable1 :: "u16 list \<Rightarrow> (nat, unit) AudioBufferManagerOfStable1" where
  "example_stable1 ss = (AudioBufferManagerOfStable1_new example_lib AudioOption_new)
     \<lparr>prebuffering := False, audio_queue := (RtpPacketQueue_new 3 5)\<lparr>queue := rev (map example_packet ss)\<rparr>\<rparr>"


text \<open>Before anything is played the buffer waits for more than fifteen packets, and it waits again whenever
  a packet arrives while fifteen or fewer are left.\<close>

lemma push_sets_prebuffering:
  assumes "\<not> s1_muted b" "s1_PushAudioPacket rnd p b = Some b'"
  shows "HasPacket b' \<longleftrightarrow> 15 < audio_queue_size b'"
  using assms by (auto simp: s1_PushAudioPacket_def HasPacket_def IsEmpty_def audio_queue_size_def getSize_def DEFAULT_PREBUFFERING_def Let_def split: bind_splits if_splits)

text \<open>A loss at the wrap-around of the sequence number is not concealed: after 65534, packet 0 is decoded at
  once although 65535 is missing.\<close>

lemma wrap_not_concealed: "\<not> conceals (example_stable1 [0]\<lparr>current_decode_index := 65534\<rparr>) 0"
  by (simp add: conceals_def)

end
