(* ===== verification/Audio_Stable1_Mixer.thy ===== *)
theory Audio_Stable1_Mixer
  imports Audio_Stable1
begin

text \<open>
  \<open>AudioMixerElementOfStable1\<close> of \<open>src/orbit/modules/audio_mixer_element.cc\<close>: the mixer over the buffers of
  \<open>Audio_Stable1\<close>, every twenty milliseconds.  The maps hold plain pointers that are never null.
  \<open>opus_encoder_\<close> of the mixer itself is created by \<open>Init\<close>, which nothing calls, so it is null.
\<close>

section \<open>The class\<close>

record ('e, 'd) AudioMixerElementOfStable1 =
  s1m_session_id :: int
  s1m_running :: bool
  s1m_option :: AudioOption
  s1m_encoder :: "'e option"
  s1m_managers :: "(int, ('e, 'd) AudioBufferManagerOfStable1) std_map"
  s1m_listeners :: "(int, int) std_map"
  s1m_mix_all_listener :: "int option"
  s1m_mix_all_rtp_packet_listener :: "int option"
  s1m_speaker_estimator :: SpeakerEstimator

definition AudioMixerElementOfStable1_new :: "int \<Rightarrow> AudioOption option \<Rightarrow> int option \<Rightarrow> bool \<Rightarrow> ('e, 'd) AudioMixerElementOfStable1" where
  "AudioMixerElementOfStable1_new sess opt raw_listener speaker_listener =
     \<lparr>s1m_session_id = sess, s1m_running = False, s1m_option = (case opt of Some o' \<Rightarrow> o' | None \<Rightarrow> AudioOption_new), s1m_encoder = None,
      s1m_managers = [], s1m_listeners = [], s1m_mix_all_listener = raw_listener, s1m_mix_all_rtp_packet_listener = None,
      s1m_speaker_estimator = (if speaker_listener then SetSpeakerChangeListener True SpeakerEstimator_new else SpeakerEstimator_new)\<rparr>"

definition s1m_Init :: "('n, 'h, 'e, 'd) media_lib \<Rightarrow> ('e, 'd) AudioMixerElementOfStable1 \<Rightarrow> bool \<times> ('e, 'd) AudioMixerElementOfStable1" where
  "s1m_Init lib m = (True, m\<lparr>s1m_encoder := Some (new_encoder lib (s1m_option m))\<rparr>)"

definition s1m_AddAudioBuffer :: "('n, 'h, 'e, 'd) media_lib \<Rightarrow> int \<Rightarrow> ('e, 'd) AudioMixerElementOfStable1 \<Rightarrow> ('e, 'd) AudioMixerElementOfStable1" where
  "s1m_AddAudioBuffer lib stid m =
     m\<lparr>s1m_managers := sm_insert stid (AudioBufferManagerOfStable1_new lib (s1m_option m)) (s1m_managers m)\<rparr>"

definition s1m_RemoveAudioBuffer :: "int \<Rightarrow> ('e, 'd) AudioMixerElementOfStable1 \<Rightarrow> ('e, 'd) AudioMixerElementOfStable1" where
  "s1m_RemoveAudioBuffer stid m = m\<lparr>s1m_managers := sm_erase (<) stid (s1m_managers m)\<rparr>"

definition s1m_PushPacket ::
    "(real \<Rightarrow> real) \<Rightarrow> int \<Rightarrow> dataPacket \<Rightarrow> ('e, 'd) AudioMixerElementOfStable1 \<Rightarrow> ('e, 'd) AudioMixerElementOfStable1 option" where
  "s1m_PushPacket rnd stid packet m =
     (case sm_find (<) stid (s1m_managers m) of None \<Rightarrow> Some m
      | Some b \<Rightarrow> do {
          b \<leftarrow> s1_PushAudioPacket rnd packet b;
          Some (m\<lparr>s1m_managers := sm_set (<) stid b (s1m_managers m)\<rparr>) })"

definition s1m_RegisterMixResultListener :: "int \<Rightarrow> int option \<Rightarrow> ('e, 'd) AudioMixerElementOfStable1 \<Rightarrow> bool \<times> ('e, 'd) AudioMixerElementOfStable1" where
  "s1m_RegisterMixResultListener stid listener m =
     (case listener of None \<Rightarrow> (False, m) | Some l \<Rightarrow> (True, m\<lparr>s1m_listeners := sm_insert stid l (s1m_listeners m)\<rparr>))"

definition s1m_UnregisterMixResultListener :: "int \<Rightarrow> ('e, 'd) AudioMixerElementOfStable1 \<Rightarrow> bool \<times> ('e, 'd) AudioMixerElementOfStable1" where
  "s1m_UnregisterMixResultListener stid m = (True, m\<lparr>s1m_listeners := sm_erase (<) stid (s1m_listeners m)\<rparr>)"

definition s1m_SetMixAllRtpPacketListener :: "int option \<Rightarrow> ('e, 'd) AudioMixerElementOfStable1 \<Rightarrow> bool \<times> ('e, 'd) AudioMixerElementOfStable1" where
  "s1m_SetMixAllRtpPacketListener listener m = (True, m\<lparr>s1m_mix_all_rtp_packet_listener := listener\<rparr>)"

definition s1m_Mute :: "int \<Rightarrow> bool \<Rightarrow> ('e, 'd) AudioMixerElementOfStable1 \<Rightarrow> bool \<times> ('e, 'd) AudioMixerElementOfStable1" where
  "s1m_Mute stid mute m =
     (case sm_find (<) stid (s1m_managers m) of None \<Rightarrow> (False, m)
      | Some b \<Rightarrow> (True, m\<lparr>s1m_managers := sm_set (<) stid (s1_Mute mute b) (s1m_managers m)\<rparr>))"

text \<open>The thread that \<open>Start\<close> creates runs \<open>MixPacketLoop\<close>; the loss reports are not used.\<close>

definition s1m_Start :: "('e, 'd) AudioMixerElementOfStable1 \<Rightarrow> bool \<times> ('e, 'd) AudioMixerElementOfStable1" where
  "s1m_Start m = (True, if \<not> s1m_running m then m\<lparr>s1m_running := True\<rparr> else m)"

definition s1m_IsStarted :: "('e, 'd) AudioMixerElementOfStable1 \<Rightarrow> bool" where
  "s1m_IsStarted m = s1m_running m"

definition s1m_OnPacketLoss :: "int \<Rightarrow> int \<Rightarrow> ('e, 'd) AudioMixerElementOfStable1 \<Rightarrow> ('e, 'd) AudioMixerElementOfStable1" where
  "s1m_OnPacketLoss stid percent m = m"

section \<open>Mixing\<close>

fun s1_mix_inputs ::
    "(real \<Rightarrow> real) \<Rightarrow> ('n, 'h, 'e, 'd) media_lib \<Rightarrow> nat \<Rightarrow> int \<Rightarrow> int \<Rightarrow> (int, ('e, 'd) AudioBufferManagerOfStable1) std_map \<Rightarrow> u32 list
     \<Rightarrow> NetworkStatusManager \<Rightarrow> ((int, ('e, 'd) AudioBufferManagerOfStable1) std_map \<times> contribution list \<times> u32 list \<times> NetworkStatusManager) option" where
  "s1_mix_inputs rnd lib samples now sid [] total_buf g = Some ([], [], total_buf, g)"
| "s1_mix_inputs rnd lib samples now sid ((stid, manager) # ms) total_buf g = do {
     (pkt, manager) \<leftarrow> s1_play rnd lib manager;
     (case pkt of
        Some pkt \<Rightarrow>
          if md_length pkt < 0
          then do {
            (ms, cs, total_buf, g) \<leftarrow> s1_mix_inputs rnd lib samples now sid ms total_buf g;
            Some ((stid, manager) # ms, (None, 0) # cs, total_buf, g) }
          else do {
            buf \<leftarrow> media_buf pkt;
            cur \<leftarrow> read_samples samples buf;
            let energy = fst (WebRtcSpl_Energy cur);
            let g = UpdateTimeOfStreamHighEnergy now sid stid energy g;
            (ms, cs, total_buf, g) \<leftarrow> s1_mix_inputs rnd lib samples now sid ms (mix_add total_buf cur) g;
            Some ((stid, manager) # ms, (Some cur, energy) # cs, total_buf, g) }
      | None \<Rightarrow> do {
          (ms, cs, total_buf, g) \<leftarrow> s1_mix_inputs rnd lib samples now sid ms total_buf g;
          Some ((stid, manager) # ms, (None, 0) # cs, total_buf, g) }) }"

text \<open>A packet is delivered even if the encoder failed.\<close>

fun s1_send_mixes ::
    "('n, 'h, 'e, 'd) media_lib \<Rightarrow> nat \<Rightarrow> u16 \<Rightarrow> u32 \<Rightarrow> u32 list \<Rightarrow> (int, ('e, 'd) AudioBufferManagerOfStable1) std_map \<Rightarrow> contribution list
     \<Rightarrow> ('e, 'd) AudioMixerElementOfStable1 \<Rightarrow> (mix_event list \<times> ('e, 'd) AudioMixerElementOfStable1) option" where
  "s1_send_mixes lib samples seq ts total_buf ((stid, manager) # ms) ((cur, energy) # cs) m =
     (case sm_find (<) stid (s1m_listeners m) of
        None \<Rightarrow> s1_send_mixes lib samples seq ts total_buf ms cs m
      | Some l \<Rightarrow> do {
          (_, mixed_pkt, manager) \<leftarrow> s1_EncodePacket lib (mix_out total_buf cur) samples MediaOutputPacket_new manager;
          let m = m\<lparr>s1m_managers := sm_set (<) stid manager (s1m_managers m),
                    s1m_speaker_estimator := UpdateAudioEnergy stid energy (s1m_speaker_estimator m)\<rparr>;
          (events, m) \<leftarrow> s1_send_mixes lib samples seq ts total_buf ms cs m;
          Some (AudioMixed l (mixed_pkt\<lparr>mo_timestamp := ts, mo_seq_number := seq, mo_ssrc := -1, mo_audio_energy := Some energy\<rparr>) # events, m) })"
| "s1_send_mixes lib samples seq ts total_buf _ _ m = Some ([], m)"

text \<open>Encoding through the null encoder of the mixer is undefined.\<close>

definition s1m_EncodePacket ::
    "('n, 'h, 'e, 'd) media_lib \<Rightarrow> sample list \<Rightarrow> nat \<Rightarrow> MediaOutputPacket \<Rightarrow> ('e, 'd) AudioMixerElementOfStable1
     \<Rightarrow> (bool \<times> MediaOutputPacket \<times> ('e, 'd) AudioMixerElementOfStable1) option" where
  "s1m_EncodePacket lib buf len packet m = do {
     enc \<leftarrow> s1m_encoder m;
     pcm \<leftarrow> read_samples len buf;
     Some (case Opus_Encode lib pcm (int len * 2) enc of
        (None, enc) \<Rightarrow> (False, packet\<lparr>encoded_buf := None, mo_length := -1\<rparr>, m\<lparr>s1m_encoder := Some enc\<rparr>)
      | (Some bytes, enc) \<Rightarrow>
          (True, packet\<lparr>encoded_buf := Some bytes, mo_length := int (length bytes)\<rparr>, m\<lparr>s1m_encoder := Some enc\<rparr>)) }"

definition s1_mix_all ::
    "('n, 'h, 'e, 'd) media_lib \<Rightarrow> nat \<Rightarrow> u16 \<Rightarrow> u32 \<Rightarrow> int \<Rightarrow> u32 list \<Rightarrow> ('e, 'd) AudioMixerElementOfStable1
     \<Rightarrow> (mix_event list \<times> ('e, 'd) AudioMixerElementOfStable1) option" where
  "s1_mix_all lib samples seq ts energy total_buf m =
     (let outSumBuffer = map ucast total_buf;
          raw = (case s1m_mix_all_listener m of None \<Rightarrow> [] | Some l \<Rightarrow> [RawMixed l outSumBuffer])
      in case s1m_mix_all_rtp_packet_listener m of
           None \<Rightarrow> Some (raw, m)
         | Some l \<Rightarrow> do {
             (_, mixed_pkt, m) \<leftarrow> s1m_EncodePacket lib outSumBuffer samples MediaOutputPacket_new m;
             Some (raw @ [AudioMixed l (mixed_pkt\<lparr>mo_timestamp := ts, mo_seq_number := seq, mo_ssrc := -1, mo_audio_energy := Some energy\<rparr>)], m) })"

text \<open>The variables of the loop; \<open>before_s\<close> and \<open>before_us\<close> are \<open>before\<close>, the time of the last frame.\<close>

record s1_loop =
  s1_seq :: u16
  s1_ts :: u32
  before_s :: int
  before_us :: int

definition s1_loop_start :: "int \<Rightarrow> int \<Rightarrow> s1_loop" where
  "s1_loop_start now_s now_us = \<lparr>s1_seq = 0, s1_ts = 0, before_s = now_s, before_us = now_us\<rparr>"

definition passed_us :: "int \<Rightarrow> int \<Rightarrow> s1_loop \<Rightarrow> int" where
  "passed_us now_s now_us lp =
     (let d_s = now_s - before_s lp; d_us = now_us - before_us lp;
          (d_s, d_us) = (if d_us < 0 then (d_s - 1, d_us + 1000000) else (d_s, d_us))
      in d_s * 1000000 + d_us)"

definition advance :: "s1_loop \<Rightarrow> s1_loop" where
  "advance lp =
     (let lp = lp\<lparr>before_us := before_us lp + 20000\<rparr>
      in if before_us lp > 1000000 then lp\<lparr>before_s := before_s lp + 1, before_us := before_us lp - 1000000\<rparr> else lp)"

text \<open>One pass of \<open>MixPacketLoop\<close>.\<close>

definition s1_mix_pass ::
    "(real \<Rightarrow> real) \<Rightarrow> ('n, 'h, 'e, 'd) media_lib \<Rightarrow> int \<Rightarrow> int \<Rightarrow> int \<Rightarrow> s1_loop \<Rightarrow> NetworkStatusManager \<Rightarrow> ('e, 'd) AudioMixerElementOfStable1
     \<Rightarrow> (mix_event list \<times> s1_loop \<times> NetworkStatusManager \<times> ('e, 'd) AudioMixerElementOfStable1) option" where
  "s1_mix_pass rnd lib now now_s now_us lp g m =
     (if passed_us now_s now_us lp < 15000 then Some ([], lp, g, m)
      else
        let lp = advance lp
        in if s1m_managers m = [] then Some ([], lp, g, m)
           else do {
             let samples = nat (sampling_rate (s1m_option m) div 50);
             let lp = lp\<lparr>s1_seq := s1_seq lp + 1, s1_ts := s1_ts lp + of_nat samples\<rparr>;
             (ms, cs, total_buf, g) \<leftarrow> s1_mix_inputs rnd lib samples now (s1m_session_id m) (s1m_managers m) (replicate samples 0) g;
             let m = m\<lparr>s1m_managers := ms\<rparr>;
             if list_all (\<lambda>c. fst c = None) cs then Some ([], lp, g, m)
             else do {
               let (s, told) = NextFrame (s1m_speaker_estimator m);
               let m = m\<lparr>s1m_speaker_estimator := s\<rparr>;
               (sent, m) \<leftarrow> s1_send_mixes lib samples (s1_seq lp) (s1_ts lp) total_buf ms cs m;
               (events, m) \<leftarrow> s1_mix_all lib samples (s1_seq lp) (s1_ts lp) (snd (hd cs)) total_buf m;
               Some (map SpeakerChanged told @ sent @ events, lp, g, m) } })"

section \<open>Everybody hears the others\<close>

text \<open>The clock of the loop moves on by exactly twenty milliseconds.\<close>

lemma advance_time: "before_s (advance lp) * 1000000 + before_us (advance lp) = before_s lp * 1000000 + before_us lp + 20000"
  by (simp add: advance_def Let_def)

lemma passed_us_eq: "passed_us now_s now_us lp = (now_s * 1000000 + now_us) - (before_s lp * 1000000 + before_us lp)"
  by (simp add: passed_us_def Let_def)

definition buf_ok :: "('e, 'd) AudioBufferManagerOfStable1 \<Rightarrow> bool" where
  "buf_ok b \<longleftrightarrow> list_all audio_pkt (queue (audio_queue b))"

definition s1_frame_of :: "(real \<Rightarrow> real) \<Rightarrow> ('n, 'h, 'e, 'd) media_lib \<Rightarrow> nat \<Rightarrow> ('e, 'd) AudioBufferManagerOfStable1 \<Rightarrow> sample list option" where
  "s1_frame_of rnd lib samples b =
     (case s1_play rnd lib b of
        Some (Some pkt, _) \<Rightarrow> if md_length pkt < 0 then None else map_option (take samples) (media_buf pkt)
      | _ \<Rightarrow> None)"

lemma s1_play_total:
  assumes "Opus_bounded lib" "buf_ok b"
  obtains pkt b' where "s1_play rnd lib b = Some (pkt, b')" "buf_ok b'" "s1_encoder b' = s1_encoder b"
    "\<And>p. pkt = Some p \<Longrightarrow> md_length p < 0 \<or> (\<exists>buf. media_buf p = Some buf \<and> length buf = BUFFER_SAMPLES)"
proof (cases "HasPacket b")
  case False
  then show thesis using assms(2) that by (simp add: s1_play_def PopAudioPacket_def)
next
  case True
  then have np: "\<not> prebuffering b" and ne: "queue (audio_queue b) \<noteq> []" by (simp_all add: HasPacket_def IsEmpty_def)
  obtain ps p where q: "queue (audio_queue b) = ps @ [p]" using ne by (cases "queue (audio_queue b)" rule: rev_cases) auto
  have p: "audio_pkt p" "list_all audio_pkt ps" using assms(2) q by (simp_all add: buf_ok_def)
  obtain pkt b' where r: "s1_play rnd lib b = Some (Some pkt, b')" "queue (audio_queue b') = (if conceals b (seq_int p) then ps @ [p] else ps)"
    "s1_encoder b' = s1_encoder b" "md_length pkt < 0 \<or> (\<exists>buf. media_buf pkt = Some buf \<and> length buf = BUFFER_SAMPLES)"
    using s1_play_step [OF assms(1) np q p(1), of rnd] by blast
  have "buf_ok b'" using r(2) p by (simp add: buf_ok_def)
  then show thesis using that [OF r(1) _ r(3)] r(4) by auto
qed

lemma s1_frame_length:
  assumes "Opus_bounded lib" "buf_ok b" "samples \<le> BUFFER_SAMPLES" "s1_frame_of rnd lib samples b = Some cur"
  shows "length cur = samples"
proof -
  obtain pkt b' where p: "s1_play rnd lib b = Some (pkt, b')"
    "\<And>p. pkt = Some p \<Longrightarrow> md_length p < 0 \<or> (\<exists>buf. media_buf p = Some buf \<and> length buf = BUFFER_SAMPLES)"
    using s1_play_total [OF assms(1,2), of rnd] by metis
  show ?thesis using assms(3,4) p by (auto simp: s1_frame_of_def split: option.splits if_splits)
qed

lemma s1_mix_inputs_total:
  assumes "Opus_bounded lib" "samples \<le> BUFFER_SAMPLES" "length acc = samples" "list_all (\<lambda>p. buf_ok (snd p)) ms"
  shows "\<exists>ms' cs total_buf g'. s1_mix_inputs rnd lib samples now sid ms acc g = Some (ms', cs, total_buf, g') \<and>
    map fst ms' = map fst ms \<and> list_all (\<lambda>p. buf_ok (snd p)) ms' \<and> map (\<lambda>p. s1_encoder (snd p)) ms' = map (\<lambda>p. s1_encoder (snd p)) ms \<and>
    map fst cs = map (\<lambda>p. s1_frame_of rnd lib samples (snd p)) ms \<and> length total_buf = samples \<and>
    (\<forall>k < samples. total_buf ! k = acc ! k + (\<Sum>f\<leftarrow>map fst cs. scast (sample_at k f)))"
  using assms(3,4)
proof (induction ms arbitrary: acc g)
  case (Cons p ms)
  obtain stid b where p: "p = (stid, b)" by (cases p)
  have ok: "buf_ok b" "list_all (\<lambda>p. buf_ok (snd p)) ms" using Cons.prems(2) by (simp_all add: p)
  obtain pkt b' where pop: "s1_play rnd lib b = Some (pkt, b')" and b': "buf_ok b'" "s1_encoder b' = s1_encoder b"
    and buf: "\<And>p. pkt = Some p \<Longrightarrow> md_length p < 0 \<or> (\<exists>buf. media_buf p = Some buf \<and> length buf = BUFFER_SAMPLES)"
    using s1_play_total [OF assms(1) ok(1), of rnd] by metis
  show ?case
  proof (cases "\<exists>d. pkt = Some d \<and> \<not> md_length d < 0")
    case False
    then have "s1_frame_of rnd lib samples b = None" by (auto simp: s1_frame_of_def pop split: option.split)
    then show ?thesis using Cons.IH [OF Cons.prems(1) ok(2), of g] pop b' False by (auto simp: p sample_at_def split: option.splits)
  next
    case True
    then obtain d buf where d: "pkt = Some d" "\<not> md_length d < 0" "media_buf d = Some buf" "length buf = BUFFER_SAMPLES" using buf by blast
    define cur where "cur = take samples buf"
    have cur: "read_samples samples buf = Some cur" "length cur = samples" using d(4) assms(2) by (simp_all add: read_samples_def cur_def)
    have f: "s1_frame_of rnd lib samples b = Some cur" using d by (simp add: s1_frame_of_def pop cur_def)
    have l: "length (mix_add acc cur) = samples" using Cons.prems(1) cur(2) by (simp add: mix_add_def)
    let ?g = "UpdateTimeOfStreamHighEnergy now sid stid (fst (WebRtcSpl_Energy cur)) g"
    obtain ms' cs tb g' where r: "s1_mix_inputs rnd lib samples now sid ms (mix_add acc cur) ?g = Some (ms', cs, tb, g')"
      "map fst ms' = map fst ms" "list_all (\<lambda>p. buf_ok (snd p)) ms'" "map (\<lambda>p. s1_encoder (snd p)) ms' = map (\<lambda>p. s1_encoder (snd p)) ms"
      "map fst cs = map (\<lambda>p. s1_frame_of rnd lib samples (snd p)) ms" "length tb = samples"
      "\<forall>k < samples. tb ! k = mix_add acc cur ! k + (\<Sum>f\<leftarrow>map fst cs. scast (sample_at k f))"
      using Cons.IH [OF l ok(2), of ?g] by blast
    have eq: "s1_mix_inputs rnd lib samples now sid (p # ms) acc g = Some ((stid, b') # ms', (Some cur, fst (WebRtcSpl_Energy cur)) # cs, tb, g')"
      using r(1) d by (simp add: p pop cur(1) Let_def)
    show ?thesis
    proof (rule exI, rule exI, rule exI, rule exI, rule conjI [OF eq], intro conjI)
      show "\<forall>k < samples. tb ! k = acc ! k + (\<Sum>f\<leftarrow>map fst ((Some cur, fst (WebRtcSpl_Energy cur)) # cs). scast (sample_at k f))"
        using r(7) Cons.prems(1) cur(2) by (simp add: nth_mix_add add.assoc)
    qed (use r(2-6) b' f in \<open>simp_all add: p\<close>)
  qed
qed (simp add: assms)

text \<open>What a listener is given: always one packet, without bytes if the encoder fails.\<close>

definition s1_heard :: "('n, 'h, 'e, 'd) media_lib \<Rightarrow> int \<Rightarrow> u16 \<Rightarrow> u32 \<Rightarrow> int \<Rightarrow> sample list \<Rightarrow> 'e \<Rightarrow> mix_event list" where
  "s1_heard lib l seq ts energy pcm enc =
     (let r = fst (Opus_Encode lib pcm (int (length pcm) * 2) enc)
      in [AudioMixed l (MediaOutputPacket_new\<lparr>encoded_buf := r, mo_length := (case r of None \<Rightarrow> -1 | Some bytes \<Rightarrow> int (length bytes)),
            mo_timestamp := ts, mo_seq_number := seq, mo_ssrc := -1, mo_audio_energy := Some energy\<rparr>)])"

lemma s1_EncodePacket_eq:
  assumes "length pcm = n"
  shows "\<exists>enc'. s1_EncodePacket lib pcm n MediaOutputPacket_new b = Some
    (fst (Opus_Encode lib pcm (int n * 2) (s1_encoder b)) \<noteq> None,
     MediaOutputPacket_new\<lparr>encoded_buf := fst (Opus_Encode lib pcm (int n * 2) (s1_encoder b)),
       mo_length := (case fst (Opus_Encode lib pcm (int n * 2) (s1_encoder b)) of None \<Rightarrow> -1 | Some bytes \<Rightarrow> int (length bytes))\<rparr>, b\<lparr>s1_encoder := enc'\<rparr>)"
proof -
  obtain r enc where "Opus_Encode lib pcm (int n * 2) (s1_encoder b) = (r, enc)" by fastforce
  then show ?thesis using assms by (cases r) (simp_all add: s1_EncodePacket_def read_samples_def MediaOutputPacket_new_def exI [of _ enc])
qed

lemma s1_send_mixes_total:
  assumes "length total_buf = samples" "\<forall>c\<in>set cs. \<forall>cur. fst c = Some cur \<longrightarrow> length cur = samples" "length ms = length cs"
  shows "\<exists>ev m'. s1_send_mixes lib samples seq ts total_buf ms cs m = Some (ev, m') \<and> s1m_mix_all_rtp_packet_listener m' = s1m_mix_all_rtp_packet_listener m \<and>
    (\<forall>l. to_listener l ev = concat (map (\<lambda>((stid, b), (cur, energy)).
        if sm_find (<) stid (s1m_listeners m) = Some l then s1_heard lib l seq ts energy (mix_out total_buf cur) (s1_encoder b) else []) (zip ms cs)))"
  using assms
proof (induction ms arbitrary: cs m)
  case (Cons p ms)
  obtain stid b where p: "p = (stid, b)" by (cases p)
  obtain cur energy cs' where cs: "cs = (cur, energy) # cs'" using Cons.prems(3) by (cases cs) auto
  have out: "length (mix_out total_buf cur) = samples" using Cons.prems(1,2) by (auto simp: cs mix_out_def split: option.split)
  have tl: "\<forall>c\<in>set cs'. \<forall>cur. fst c = Some cur \<longrightarrow> length cur = samples" "length ms = length cs'" using Cons.prems(2,3) by (simp_all add: cs)
  show ?case
  proof (cases "sm_find (<) stid (s1m_listeners m)")
    case None
    then show ?thesis using Cons.IH [OF Cons.prems(1) tl, of m] by (simp add: p cs)
  next
    case (Some l0)
    obtain enc' where e: "s1_EncodePacket lib (mix_out total_buf cur) samples MediaOutputPacket_new b = Some
      (fst (Opus_Encode lib (mix_out total_buf cur) (int samples * 2) (s1_encoder b)) \<noteq> None,
       MediaOutputPacket_new\<lparr>encoded_buf := fst (Opus_Encode lib (mix_out total_buf cur) (int samples * 2) (s1_encoder b)),
         mo_length := (case fst (Opus_Encode lib (mix_out total_buf cur) (int samples * 2) (s1_encoder b)) of None \<Rightarrow> -1 | Some bytes \<Rightarrow> int (length bytes))\<rparr>,
       b\<lparr>s1_encoder := enc'\<rparr>)"
      using s1_EncodePacket_eq [OF out, of lib b] by blast
    let ?m = "m\<lparr>s1m_managers := sm_set (<) stid (b\<lparr>s1_encoder := enc'\<rparr>) (s1m_managers m),
                s1m_speaker_estimator := UpdateAudioEnergy stid energy (s1m_speaker_estimator m)\<rparr>"
    obtain ev m' where r: "s1_send_mixes lib samples seq ts total_buf ms cs' ?m = Some (ev, m')"
      "s1m_mix_all_rtp_packet_listener m' = s1m_mix_all_rtp_packet_listener m"
      "\<forall>l. to_listener l ev = concat (map (\<lambda>((stid, b), (cur, energy)).
        if sm_find (<) stid (s1m_listeners m) = Some l then s1_heard lib l seq ts energy (mix_out total_buf cur) (s1_encoder b) else []) (zip ms cs'))"
      using Cons.IH [OF Cons.prems(1) tl, of ?m] by auto
    have eq: "s1_send_mixes lib samples seq ts total_buf (p # ms) cs m = Some (s1_heard lib l0 seq ts energy (mix_out total_buf cur) (s1_encoder b) @ ev, m')"
      using Some r(1) out by (simp add: p cs e s1_heard_def Let_def)
    have "to_listener l (s1_heard lib l0 seq ts energy (mix_out total_buf cur) (s1_encoder b)) =
        (if l0 = l then s1_heard lib l seq ts energy (mix_out total_buf cur) (s1_encoder b) else [])" for l
      by (simp add: s1_heard_def Let_def)
    then show ?thesis using eq r Some by (auto simp: p cs simp del: s1_send_mixes.simps)
  qed
qed simp

definition s1_frames_of :: "(real \<Rightarrow> real) \<Rightarrow> ('n, 'h, 'e, 'd) media_lib \<Rightarrow> nat \<Rightarrow> ('e, 'd) AudioMixerElementOfStable1 \<Rightarrow> sample list option list" where
  "s1_frames_of rnd lib samples m = map (\<lambda>p. s1_frame_of rnd lib samples (snd p)) (s1m_managers m)"

lemma s1_pass:
  fixes m :: "('e, 'd) AudioMixerElementOfStable1" and lib :: "('n, 'h, 'e, 'd) media_lib"
  defines "samples \<equiv> nat (sampling_rate (s1m_option m) div 50)"
  assumes "Opus_bounded lib" "15000 \<le> passed_us now_s now_us lp" "list_all (\<lambda>p. buf_ok (snd p)) (s1m_managers m)" "samples \<le> BUFFER_SAMPLES"
    "s1m_mix_all_rtp_packet_listener m = None" "list_ex (\<lambda>f. f \<noteq> None) (s1_frames_of rnd lib samples m)"
  shows "\<exists>ev lp' g' m' es. s1_mix_pass rnd lib now now_s now_us lp g m = Some (ev, lp', g', m') \<and>
    (\<forall>l. to_listener l ev = concat (map (\<lambda>i.
      if sm_find (<) (fst (s1m_managers m ! i)) (s1m_listeners m) = Some l
      then s1_heard lib l (s1_seq lp + 1) (s1_ts lp + of_nat samples) (es ! i) (others_mix samples (s1_frames_of rnd lib samples m) i)
        (s1_encoder (snd (s1m_managers m ! i))) else []) [0..<length (s1m_managers m)]))"
proof -
  let ?ms = "s1m_managers m" and ?fs = "s1_frames_of rnd lib samples m"
  let ?seq = "s1_seq lp + 1" and ?ts = "s1_ts lp + of_nat samples"
  have ne: "?ms \<noteq> []" using assms(7) by (auto simp: s1_frames_of_def)
  obtain ms cs total_buf g' where r: "s1_mix_inputs rnd lib samples now (s1m_session_id m) ?ms (replicate samples 0) g = Some (ms, cs, total_buf, g')"
    "map fst ms = map fst ?ms" "map (\<lambda>p. s1_encoder (snd p)) ms = map (\<lambda>p. s1_encoder (snd p)) ?ms" "map fst cs = ?fs" "length total_buf = samples"
    and tb: "\<forall>k < samples. total_buf ! k = replicate samples 0 ! k + (\<Sum>f\<leftarrow>map fst cs. scast (sample_at k f))"
    using s1_mix_inputs_total [OF assms(2,5) length_replicate assms(4), of rnd now "s1m_session_id m" 0 g] unfolding s1_frames_of_def by blast
  have some: "\<not> list_all (\<lambda>c. fst c = None) cs" using assms(7) unfolding r(4) [symmetric] by (auto simp: list_all_iff list_ex_iff)
  have fl: "length cur = samples" if "Some cur \<in> set ?fs" for cur
  proof -
    obtain p where "p \<in> set ?ms" "s1_frame_of rnd lib samples (snd p) = Some cur" using \<open>Some cur \<in> set ?fs\<close> by (auto simp: s1_frames_of_def)
    then show ?thesis using assms(4) s1_frame_length [OF assms(2) _ assms(5)] unfolding list_all_iff by blast
  qed
  have cl: "\<forall>c\<in>set cs. \<forall>cur. fst c = Some cur \<longrightarrow> length cur = samples" using fl unfolding r(4) [symmetric] by force
  have len: "length ms = length cs" "length ?fs = length ?ms" using r(2,4) by (metis length_map s1_frames_of_def)+
  have out: "\<forall>i<length ?ms. mix_out total_buf (?fs ! i) = others_mix samples ?fs i"
    using len(2) fl tb unfolding r(4) by (intro allI impI mix_out_others [OF _ r(5)]) (auto simp: in_set_conv_nth)
  obtain s told where nf: "NextFrame (s1m_speaker_estimator m) = (s, told)" by fastforce
  let ?m1 = "m\<lparr>s1m_managers := ms, s1m_speaker_estimator := s\<rparr>"
  from s1_send_mixes_total [OF r(5) cl len(1), of lib ?seq ?ts ?m1]
  obtain sent m2 where st: "s1_send_mixes lib samples ?seq ?ts total_buf ms cs ?m1 = Some (sent, m2)" "s1m_mix_all_rtp_packet_listener m2 = None"
    "\<forall>l. to_listener l sent = concat (map (\<lambda>((stid, b), (cur, energy)).
        if sm_find (<) stid (s1m_listeners m) = Some l then s1_heard lib l ?seq ?ts energy (mix_out total_buf cur) (s1_encoder b) else []) (zip ms cs))"
    using assms(6) by auto
  obtain raw where raw: "s1_mix_all lib samples ?seq ?ts (snd (hd cs)) total_buf m2 = Some (raw, m2)" "\<And>l. to_listener l raw = []"
    using st(2) by (cases "s1m_mix_all_listener m2") (auto simp: s1_mix_all_def to_listener_def)
  have adv: "s1_seq (advance lp) = s1_seq lp" "s1_ts (advance lp) = s1_ts lp" by (simp_all add: advance_def Let_def)
  have pass: "s1_mix_pass rnd lib now now_s now_us lp g m =
      Some (map SpeakerChanged told @ sent @ raw, (advance lp)\<lparr>s1_seq := ?seq, s1_ts := ?ts\<rparr>, g', m2)"
    using assms(3) ne r(1) some nf st(1) raw(1) unfolding s1_mix_pass_def samples_def [symmetric] Let_def by (simp add: adv)
  have "map (\<lambda>((stid, b), (cur, energy)).
        if sm_find (<) stid (s1m_listeners m) = Some l then s1_heard lib l ?seq ?ts energy (mix_out total_buf cur) (s1_encoder b) else []) (zip ms cs) =
      map (\<lambda>i. if sm_find (<) (fst (?ms ! i)) (s1m_listeners m) = Some l
        then s1_heard lib l ?seq ?ts (map snd cs ! i) (others_mix samples ?fs i) (s1_encoder (snd (?ms ! i))) else []) [0..<length ?ms]" for l
    using zip_index [where pr = "s1_encoder :: ('e, 'd) AudioBufferManagerOfStable1 \<Rightarrow> 'e" and F = "\<lambda>stid c cur energy.
      if sm_find (<) stid (s1m_listeners m) = Some l then s1_heard lib l ?seq ?ts energy (mix_out total_buf cur) c else []", OF r(2-4) len(2)] out
    by (simp cong: map_cong)
  then have "to_listener l (map SpeakerChanged told @ sent @ raw) = concat (map (\<lambda>i. if sm_find (<) (fst (?ms ! i)) (s1m_listeners m) = Some l
        then s1_heard lib l ?seq ?ts (map snd cs ! i) (others_mix samples ?fs i) (s1_encoder (snd (?ms ! i))) else []) [0..<length ?ms])" for l
    using st(3) raw(2) by simp
  then show ?thesis using pass by blast
qed

text \<open>C17.
  A due pass of the mixer of \<open>AudioMixerElementOfStable1\<close> gives the listener that is registered for one
  participant alone exactly one packet: its own encoder's encoding of the sum of the samples of all other participants, with
  the next sequence number and timestamp, for any behaviour of Opus; the packet has no bytes when the
  encoder fails.  It is the mix of the newer mixer over another buffer.\<close>

theorem stable1_hears_others:
  assumes "Opus_bounded lib" "15000 \<le> passed_us now_s now_us lp" "list_all (\<lambda>p. buf_ok (snd p)) (s1m_managers m)"
    "samples = nat (sampling_rate (s1m_option m) div 50)" "samples \<le> BUFFER_SAMPLES"
    "s1m_mix_all_rtp_packet_listener m = None" "list_ex (\<lambda>f. f \<noteq> None) (s1_frames_of rnd lib samples m)" "i < length (s1m_managers m)"
    "\<forall>j<length (s1m_managers m). sm_find (<) (fst (s1m_managers m ! j)) (s1m_listeners m) = Some l \<longleftrightarrow> j = i"
  shows "\<exists>ev lp' g' m' energy. s1_mix_pass rnd lib now now_s now_us lp g m = Some (ev, lp', g', m') \<and>
    to_listener l ev = s1_heard lib l (s1_seq lp + 1) (s1_ts lp + of_nat samples) energy
      (others_mix samples (s1_frames_of rnd lib samples m) i) (s1_encoder (snd (s1m_managers m ! i)))"
proof -
  obtain ev lp' g' m' es where r: "s1_mix_pass rnd lib now now_s now_us lp g m = Some (ev, lp', g', m')"
    "\<forall>l. to_listener l ev = concat (map (\<lambda>i.
      if sm_find (<) (fst (s1m_managers m ! i)) (s1m_listeners m) = Some l
      then s1_heard lib l (s1_seq lp + 1) (s1_ts lp + of_nat samples) (es ! i) (others_mix samples (s1_frames_of rnd lib samples m) i)
        (s1_encoder (snd (s1m_managers m ! i))) else []) [0..<length (s1m_managers m)])"
    using s1_pass [of lib now_s now_us lp m rnd now g] assms(1-7) by blast
  have "to_listener l ev = concat (map (\<lambda>k. if k = i
      then s1_heard lib l (s1_seq lp + 1) (s1_ts lp + of_nat samples) (es ! k) (others_mix samples (s1_frames_of rnd lib samples m) k)
        (s1_encoder (snd (s1m_managers m ! k))) else []) [0..<length (s1m_managers m)])"
    unfolding r(2) [rule_format] using assms(9) by (intro arg_cong [where f = concat] map_cong) simp_all
  also have "\<dots> = s1_heard lib l (s1_seq lp + 1) (s1_ts lp + of_nat samples) (es ! i) (others_mix samples (s1_frames_of rnd lib samples m) i)
        (s1_encoder (snd (s1m_managers m ! i)))" using assms(8) by (simp add: concat_single)
  finally show ?thesis using r(1) by blast
qed

text \<open>A conference of two: participant 2 plays packet 5, participant 1 has nothing yet.\<close>

definition example_s1_mixer :: "(nat, unit) AudioMixerElementOfStable1" where
  "example_s1_mixer = (AudioMixerElementOfStable1_new 7 None None False)
     \<lparr>s1m_managers := [(1, AudioBufferManagerOfStable1_new example_lib AudioOption_new), (2, example_stable1 [5])], s1m_listeners := [(1, 11), (2, 12)]\<rparr>"

definition example_s1_loop :: s1_loop where "example_s1_loop = s1_loop_start 0 990000"

theorem stable1_hears_others_witness:
  "\<exists>ev lp' g' m'. s1_mix_pass id example_lib 0 1 10000 example_s1_loop manager_empty example_s1_mixer = Some (ev, lp', g', m') \<and>
    length (to_listener 11 ev) = 1"
proof -
  have a: "audio_pkt (example_packet s)" for s
    by (simp add: audio_pkt_def pkt_wf_def example_packet_def seq_packet_def DATA_SIZE_def)
  have ob: "Opus_bounded example_lib" by (simp add: Opus_bounded_def example_lib_def)
  have ok: "list_all (\<lambda>p. buf_ok (snd p)) (s1m_managers example_s1_mixer)"
    by (simp add: example_s1_mixer_def buf_ok_def example_stable1_def a AudioBufferManagerOfStable1_new_def RtpPacketQueue_new_def DEFAULT_DEPTH_def DEFAULT_MAX_def Let_def)
  have n: "960 = nat (sampling_rate (s1m_option example_s1_mixer) div 50)"
    by (simp add: example_s1_mixer_def AudioMixerElementOfStable1_new_def AudioOption_new_def DEFAULT_SAMPLE_RATE_def)
  have fr: "list_ex (\<lambda>f. f \<noteq> None) (s1_frames_of id example_lib 960 example_s1_mixer)"
  proof -
    have np: "\<not> prebuffering (example_stable1 [5])" "queue (audio_queue (example_stable1 [5])) = [] @ [example_packet 5]" by (simp_all add: example_stable1_def)
    have nc: "\<not> conceals (example_stable1 [5]) k" for k by (simp add: conceals_def example_stable1_def AudioBufferManagerOfStable1_new_def)
    have dec: "\<forall>pl d. 0 \<le> fst (fst (Opus_Decode example_lib pl d))" by (simp add: example_lib_def)
    obtain pkt b' where p: "s1_play id example_lib (example_stable1 [5]) = Some (Some pkt, b')"
      "md_length pkt < 0 \<or> (\<exists>buf. media_buf pkt = Some buf \<and> length buf = BUFFER_SAMPLES)" "0 \<le> md_length pkt"
      using s1_play_step [OF ob np a, of id] nc dec by blast
    then obtain buf where "media_buf pkt = Some buf" by force
    then show ?thesis using p(1,3) by (simp add: s1_frames_of_def example_s1_mixer_def s1_frame_of_def)
  qed
  have "\<exists>ev lp' g' m' energy. s1_mix_pass id example_lib 0 1 10000 example_s1_loop manager_empty example_s1_mixer = Some (ev, lp', g', m') \<and>
    to_listener 11 ev = s1_heard example_lib 11 (s1_seq example_s1_loop + 1) (s1_ts example_s1_loop + of_nat 960) energy
      (others_mix 960 (s1_frames_of id example_lib 960 example_s1_mixer) 0) (s1_encoder (snd (s1m_managers example_s1_mixer ! 0)))"
  proof (rule stable1_hears_others [OF ob _ ok n _ _ fr])
    show "15000 \<le> passed_us 1 10000 example_s1_loop" by (simp add: passed_us_eq example_s1_loop_def s1_loop_start_def)
    show "\<forall>j<length (s1m_managers example_s1_mixer).
       sm_find (<) (fst (s1m_managers example_s1_mixer ! j)) (s1m_listeners example_s1_mixer) = Some 11 \<longleftrightarrow> j = 0"
      by (auto simp: example_s1_mixer_def less_Suc_eq)
  qed (simp_all add: BUFFER_SAMPLES_def example_s1_mixer_def AudioMixerElementOfStable1_new_def)
  then show ?thesis by (force simp: s1_heard_def Let_def)
qed

text \<open>With a listener for the whole conference every pass uses the encoder that was never created.\<close>

lemma mix_all_without_encoder:
  "s1_mix_all lib n seq ts e total_buf (snd (s1m_SetMixAllRtpPacketListener (Some l) (AudioMixerElementOfStable1_new sess opt raw sp))) = None"
  by (simp add: s1_mix_all_def s1m_SetMixAllRtpPacketListener_def AudioMixerElementOfStable1_new_def s1m_EncodePacket_def Let_def)

end
