(* ===== verification/Sdp_Candidate.thy ===== *)
theory Sdp_Candidate
  imports Std_String
begin

text \<open>
  The data of a session description (\<open>src/orbit/sdp_info.h\<close>) and the text form of an ICE
  candidate: \<open>ToString\<close>, and the two ways back, \<open>FromString\<close> of the class, which reads a
  \<open>std::istringstream\<close>, and \<open>SdpInfo::processCandidate\<close> on the pieces of a line.
\<close>

datatype HostType = HOST | SRFLX | PRFLX | RELAY
datatype MediaType = VIDEO_TYPE | AUDIO_TYPE | OTHER
datatype StreamDirection = SENDRECV | SENDONLY | RECVONLY
datatype Profile = AVPF | SAVPF

record CryptoInfo =
  cr_tag :: int
  cr_cipherSuite :: string
  cr_keyParams :: string
  cr_mediaType :: MediaType

record CandidateInfo =
  c_isBundle :: bool
  c_tag :: int
  c_priority :: u32
  c_componentId :: u32
  c_foundation :: string
  c_hostAddress :: string
  c_rAddress :: string
  c_hostPort :: int
  c_rPort :: int
  c_netProtocol :: string
  c_hostType :: HostType
  c_transProtocol :: string
  c_username :: string
  c_password :: string
  c_mediaType :: MediaType

text \<open>The constructor sets the tag; strings are empty; the other members keep what the memory
  held, which is the argument.\<close>

definition CandidateInfo_new :: "CandidateInfo \<Rightarrow> CandidateInfo" where
  "CandidateInfo_new memory = memory\<lparr>c_tag := 0, c_foundation := [], c_hostAddress := [], c_rAddress := [], c_netProtocol := [],
     c_transProtocol := [], c_username := [], c_password := []\<rparr>"

record BundleTag =
  bt_id :: string
  bt_mediaType :: MediaType

record RtpMap =
  rm_payloadType :: u32
  rm_encodingName :: string
  rm_clockRate :: u32
  rm_mediaType :: MediaType
  rm_channels :: u32
  rm_feedbackTypes :: "string list"
  rm_formatParameters :: "(string, string) std_map"

section \<open>Printing\<close>

definition show_u32 :: "u32 \<Rightarrow> string" where
  "show_u32 w = show_nat (unat w)"

fun hostType_str :: "HostType \<Rightarrow> string" where
  "hostType_str HOST = ''host''"
| "hostType_str SRFLX = ''srflx''"
| "hostType_str PRFLX = ''prflx''"
| "hostType_str RELAY = ''relay''"

definition ToDebugString :: "CandidateInfo \<Rightarrow> string" where
  "ToDebugString c =
     ''a=candidate:'' @ c_foundation c @ '' '' @ show_u32 (c_componentId c) @ '' '' @ c_netProtocol c @ '' '' @
     show_u32 (c_priority c) @ '' '' @ c_hostAddress c @ '' '' @ show_int (c_hostPort c) @ '' typ '' @ hostType_str (c_hostType c) @
     (if c_hostType c = SRFLX \<or> c_hostType c = RELAY
      then '' raddr '' @ c_rAddress c @ '' rport '' @ show_int (c_rPort c) else [])"

definition cand_ToString :: "CandidateInfo \<Rightarrow> string" where
  "cand_ToString c =
     ''a=candidate:'' @ c_foundation c @ '' '' @ show_u32 (c_componentId c) @ '' '' @ c_netProtocol c @ '' '' @
     show_u32 (c_priority c) @ '' '' @ c_hostAddress c @ '' '' @ show_int (c_hostPort c) @ '' typ '' @ hostType_str (c_hostType c) @
     (if c_hostType c = SRFLX \<or> c_hostType c = RELAY
      then '' raddr '' @ c_rAddress c @ '' rport '' @ show_int (c_rPort c) else []) @ '' generation 0''"

section \<open>Reading a stream\<close>

text \<open>A stream is its fail bit and the text not yet read.  Extraction skips white space; at the
  end of the text it fails and leaves the variable as it is.\<close>

type_synonym istream = "bool \<times> string"

definition extract_word :: "istream \<Rightarrow> string \<Rightarrow> istream \<times> string" where
  "extract_word st old =
     (let (failed, s) = st; s = dropWhile isspace s in
      if failed then (st, old)
      else if s = [] then ((True, []), old)
      else ((False, dropWhile (\<lambda>c. \<not> isspace c) s), takeWhile (\<lambda>c. \<not> isspace c) s))"

text \<open>Sign, digits and the rest; a number outside of the range of the type is clamped and sets
  the fail bit, a missing one is zero.\<close>

definition scan_number :: "string \<Rightarrow> bool \<times> string \<times> string" where
  "scan_number s =
     (let (neg, r) = (case s of [] \<Rightarrow> (False, s)
                      | c # r \<Rightarrow> if c = CHR ''-'' then (True, r) else if c = CHR ''+'' then (False, r) else (False, s))
      in (neg, takeWhile isdigit r, dropWhile isdigit r))"

definition extract_uint :: "istream \<Rightarrow> u32 \<Rightarrow> istream \<times> u32" where
  "extract_uint st old =
     (let (failed, s) = st; s = dropWhile isspace s in
      if failed then (st, old)
      else if s = [] then ((True, []), old)
      else let (neg, ds, r) = scan_number s; v = digits_value ds in
           if ds = [] then ((True, r), 0)
           else if 2 ^ 32 \<le> v then ((True, r), -1)
           else ((False, r), if neg then - word_of_nat v else word_of_nat v))"

definition extract_int :: "istream \<Rightarrow> int \<Rightarrow> istream \<times> int" where
  "extract_int st old =
     (let (failed, s) = st; s = dropWhile isspace s in
      if failed then (st, old)
      else if s = [] then ((True, []), old)
      else let (neg, ds, r) = scan_number s; v = int (digits_value ds) in
           if ds = [] then ((True, r), 0)
           else if neg then (if 2 ^ 31 < v then ((True, r), - (2 ^ 31)) else ((False, r), - v))
           else if 2 ^ 31 \<le> v then ((True, r), 2 ^ 31 - 1) else ((False, r), v))"

definition hostType_of :: "string \<Rightarrow> HostType" where
  "hostType_of s =
     (if s = ''host'' then HOST else if s = ''srflx'' then SRFLX else if s = ''prflx'' then PRFLX
      else if s = ''relay'' then RELAY else HOST)"

text \<open>\<open>substr (12)\<close> throws on a shorter string: \<open>None\<close>.\<close>

definition cand_FromString :: "string \<Rightarrow> CandidateInfo \<Rightarrow> CandidateInfo option" where
  "cand_FromString s c =
     (if length s < 12 then None
      else
        let st = (False, drop 12 s);
            (st, foundation) = extract_word st (c_foundation c);
            (st, componentId) = extract_uint st (c_componentId c);
            (st, netProtocol) = extract_word st (c_netProtocol c);
            (st, priority) = extract_uint st (c_priority c);
            (st, hostAddress) = extract_word st (c_hostAddress c);
            (st, hostPort) = extract_int st (c_hostPort c);
            (st, placeholder) = extract_word st [];
            (st, hostType) = extract_word st [];
            c = c\<lparr>c_foundation := foundation, c_componentId := componentId, c_netProtocol := netProtocol, c_priority := priority,
                  c_hostAddress := hostAddress, c_hostPort := hostPort, c_hostType := hostType_of hostType\<rparr>
        in if c_hostType c = SRFLX \<or> c_hostType c = RELAY
           then let (st, placeholder) = extract_word st placeholder;
                    (st, rAddress) = extract_word st (c_rAddress c);
                    (st, placeholder) = extract_word st placeholder;
                    (st, rPort) = extract_int st (c_rPort c)
                in Some (c\<lparr>c_rAddress := rAddress, c_rPort := rPort\<rparr>)
           else Some c)"

section \<open>Reading the pieces of a line\<close>

text \<open>An index outside of the vector is undefined.\<close>

definition piece :: "string list \<Rightarrow> nat \<Rightarrow> string option" where
  "piece ps i = (if i < length ps then Some (ps ! i) else None)"

text \<open>A number that is stored in an \<open>unsigned int\<close>, and that number in an \<open>int\<close>.\<close>

definition to_uint :: "string \<Rightarrow> u32" where
  "to_uint s = ucast (strtoul s)"

definition to_port :: "string \<Rightarrow> int" where
  "to_port s = sint (to_uint s)"

text \<open>The loop over the four names keeps the last match.\<close>

definition candidate_type :: "string \<Rightarrow> HostType" where
  "candidate_type s = (if s = ''relay'' then RELAY else if s = ''prflx'' then PRFLX else if s = ''srflx'' then SRFLX else HOST)"

text \<open>\<open>Some None\<close> is the result \<open>false\<close>: the candidate is not stored.\<close>

definition processCandidate :: "CandidateInfo \<Rightarrow> string list \<Rightarrow> MediaType \<Rightarrow> CandidateInfo option option" where
  "processCandidate memory pieces mediaType = do {
     let cand = (CandidateInfo_new memory)\<lparr>c_mediaType := mediaType\<rparr>;
     p1 \<leftarrow> piece pieces 1;
     p2 \<leftarrow> piece pieces 2;
     p3 \<leftarrow> piece pieces 3;
     let cand = cand\<lparr>c_foundation := p1, c_componentId := to_uint p2, c_netProtocol := p3\<rparr>;
     if p3 \<noteq> ''UDP'' \<and> p3 \<noteq> ''udp'' then Some None
     else do {
       p4 \<leftarrow> piece pieces 4;
       p5 \<leftarrow> piece pieces 5;
       p6 \<leftarrow> piece pieces 6;
       let cand = cand\<lparr>c_priority := to_uint p4, c_hostAddress := p5, c_hostPort := to_port p6\<rparr>;
       p7 \<leftarrow> piece pieces 7;
       if p7 \<noteq> ''typ'' then Some None
       else do {
         p8 \<leftarrow> piece pieces 8;
         let cand = cand\<lparr>c_hostType := candidate_type p8\<rparr>;
         if c_hostType cand = SRFLX \<or> c_hostType cand = RELAY
         then do {
           p10 \<leftarrow> piece pieces 10;
           p12 \<leftarrow> piece pieces 12;
           Some (Some (cand\<lparr>c_rAddress := p10, c_rPort := to_port p12\<rparr>)) }
         else Some (Some cand) } } }"

section \<open>Round trip through a stream\<close>

definition word_text :: "string \<Rightarrow> bool" where
  "word_text w \<longleftrightarrow> w \<noteq> [] \<and> (\<forall>c\<in>set w. \<not> isspace c)"

definition int_range :: "int \<Rightarrow> bool" where
  "int_range i \<longleftrightarrow> - (2 ^ 31) \<le> i \<and> i < 2 ^ 31"

abbreviation at_break :: "string \<Rightarrow> bool" where
  "at_break r \<equiv> r = [] \<or> isspace (hd r)"

lemma space_char [simp]: "isspace (CHR '' '')" "\<not> isdigit (CHR '' '')"
  by (simp_all add: isspace_def isdigit_def)

lemma word_split:
  assumes "word_text w" "at_break r"
  shows "dropWhile isspace (w @ r) = w @ r" "takeWhile (\<lambda>c. \<not> isspace c) (w @ r) = w" "dropWhile (\<lambda>c. \<not> isspace c) (w @ r) = r" "w @ r \<noteq> []"
proof -
  obtain c u where w: "w = c # u" "\<not> isspace c" using assms(1) by (cases w) (auto simp: word_text_def)
  show "dropWhile isspace (w @ r) = w @ r" "w @ r \<noteq> []" using w by simp_all
  have "\<forall>c\<in>set w. \<not> isspace c" using assms(1) by (simp add: word_text_def)
  moreover have "takeWhile (\<lambda>c. \<not> isspace c) r = []" "dropWhile (\<lambda>c. \<not> isspace c) r = r" using assms(2) by (cases r; simp)+
  ultimately show "takeWhile (\<lambda>c. \<not> isspace c) (w @ r) = w" "dropWhile (\<lambda>c. \<not> isspace c) (w @ r) = r"
    by (simp_all add: takeWhile_append dropWhile_append)
qed

lemma extract_word_text:
  assumes "word_text w" "at_break r"
  shows "extract_word (False, w @ r) old = ((False, r), w)" "extract_word (False, CHR '' '' # w @ r) old = ((False, r), w)"
  using word_split [OF assms] by (simp_all add: extract_word_def Let_def del: dropWhile_eq_Nil_conv)

lemma show_nat_word: "word_text (show_nat n)"
  using show_nat_digits [of n] digit_not_special by (auto simp: word_text_def)

lemma show_int_word: "word_text (show_int i)"
  using show_nat_word by (auto simp: show_int_def word_text_def isspace_def)

lemma break_digit: "at_break r \<Longrightarrow> r = [] \<or> \<not> isdigit (hd r)"
  using digit_not_special by blast

lemma scan_show_nat:
  assumes "at_break r" shows "scan_number (show_nat n @ r) = (False, show_nat n, r)"
proof -
  obtain c ds where c: "show_nat n = c # ds" by (cases "show_nat n") auto
  then have d: "c \<noteq> CHR ''-'' \<and> c \<noteq> CHR ''+''" using show_nat_digits [of n] digit_not_special by auto
  have "takeWhile isdigit (show_nat n @ r) = show_nat n" by (rule takeWhile_digits [OF break_digit [OF assms]])
  moreover have "dropWhile isdigit (show_nat n @ r) = r"
    using show_nat_digits [of n] break_digit [OF assms] by (cases r) (auto simp: dropWhile_append)
  ultimately show ?thesis using c d by (simp add: scan_number_def)
qed

lemma scan_show_int:
  assumes "at_break r" shows "scan_number (show_int i @ r) = (i < 0, show_nat (nat \<bar>i\<bar>), r)"
proof (cases "i < 0")
  case True
  have "takeWhile isdigit (show_nat (nat (- i)) @ r) = show_nat (nat (- i))" by (rule takeWhile_digits [OF break_digit [OF assms]])
  moreover have "dropWhile isdigit (show_nat (nat (- i)) @ r) = r"
    using show_nat_digits [of "nat (- i)"] break_digit [OF assms] by (cases r) (auto simp: dropWhile_append)
  ultimately show ?thesis using True by (simp add: show_int_def scan_number_def)
next
  case False
  then show ?thesis using scan_show_nat [OF assms, of "nat i"] by (simp add: show_int_def)
qed

lemma extract_number:
  assumes "at_break r"
  shows "extract_uint (False, CHR '' '' # show_u32 w @ r) old = ((False, r), w)"
    "int_range i \<Longrightarrow> extract_int (False, CHR '' '' # show_int i @ r) old' = ((False, r), i)"
proof -
  have "unat w < 2 ^ 32" using unsigned_less [of w] by simp
  then show "extract_uint (False, CHR '' '' # show_u32 w @ r) old = ((False, r), w)"
    using word_split(1,4) [OF show_nat_word assms, of "unat w"] scan_show_nat [OF assms, of "unat w"] show_nat_value [of "unat w"]
    by (simp add: extract_uint_def show_u32_def Let_def del: dropWhile_eq_Nil_conv)
  assume "int_range i"
  then show "extract_int (False, CHR '' '' # show_int i @ r) old' = ((False, r), i)"
    using word_split(1,4) [OF show_int_word assms, of i] scan_show_int [OF assms, of i] show_nat_value [of "nat \<bar>i\<bar>"]
    by (auto simp: extract_int_def int_range_def Let_def show_nat_value simp del: dropWhile_eq_Nil_conv)
qed

lemma hostType_of_str: "hostType_of (hostType_str t) = t" "word_text (hostType_str t)"
  by (cases t; simp add: hostType_of_def word_text_def isspace_def)+

definition relayed :: "CandidateInfo \<Rightarrow> bool" where
  "relayed c \<longleftrightarrow> c_hostType c = SRFLX \<or> c_hostType c = RELAY"

definition printable :: "CandidateInfo \<Rightarrow> bool" where
  "printable c \<longleftrightarrow> word_text (c_foundation c) \<and> word_text (c_netProtocol c) \<and> word_text (c_hostAddress c) \<and> int_range (c_hostPort c) \<and>
     (relayed c \<longrightarrow> word_text (c_rAddress c) \<and> int_range (c_rPort c))"

text \<open>What a reader knows of \<open>c\<close>: its printed members, the others as they were in \<open>old\<close>.\<close>

definition read_as :: "CandidateInfo \<Rightarrow> CandidateInfo \<Rightarrow> CandidateInfo" where
  "read_as c old =
     (let r = old\<lparr>c_foundation := c_foundation c, c_componentId := c_componentId c, c_netProtocol := c_netProtocol c,
                  c_priority := c_priority c, c_hostAddress := c_hostAddress c, c_hostPort := c_hostPort c, c_hostType := c_hostType c\<rparr>
      in if relayed c then r\<lparr>c_rAddress := c_rAddress c, c_rPort := c_rPort c\<rparr> else r)"

text \<open>A candidate that is printed by \<open>ToString\<close> and read by \<open>FromString\<close> keeps its foundation,
  component, protocol, priority, address, port and type and, for reflexive and relayed candidates,
  the related address and port; the type of a candidate is one of the four that are printed, and
  no other member of the reader changes.\<close>

theorem candidate_stream_roundtrip:
  assumes "printable c"
  shows "cand_FromString (cand_ToString c) old = Some (read_as c old)"
proof -
  have w: "word_text (c_foundation c)" "word_text (c_netProtocol c)" "word_text (c_hostAddress c)" "int_range (c_hostPort c)"
    using assms by (simp_all add: printable_def)
  have t: "word_text ''typ''" "word_text ''raddr''" "word_text ''rport''" by (simp_all add: word_text_def isspace_def)
  show ?thesis
  proof (cases "relayed c")
    case True
    then have r: "word_text (c_rAddress c)" "int_range (c_rPort c)" using assms by (simp_all add: printable_def)
    show ?thesis
      using True w t r
      by (simp add: cand_FromString_def cand_ToString_def relayed_def read_as_def extract_word_text(1) extract_word_text(2) [where w = "''typ''", simplified]
          extract_word_text(2) [where w = "''raddr''", simplified] extract_word_text(2) [where w = "''rport''", simplified]
          extract_word_text(2) extract_number hostType_of_str Let_def)
  next
    case False
    then show ?thesis
      using w t
      by (simp add: cand_FromString_def cand_ToString_def relayed_def read_as_def extract_word_text(1) extract_word_text(2) [where w = "''typ''", simplified]
          extract_word_text(2) extract_number hostType_of_str Let_def)
  qed
qed

definition example_candidate :: CandidateInfo where
  "example_candidate = \<lparr>c_isBundle = False, c_tag = 0, c_priority = 2122260223, c_componentId = 1, c_foundation = ''3141053312'',
     c_hostAddress = ''10.171.94.20'', c_rAddress = ''192.168.0.12'', c_hostPort = 62087, c_rPort = 50483, c_netProtocol = ''udp'',
     c_hostType = SRFLX, c_transProtocol = [], c_username = ''u'', c_password = ''p'', c_mediaType = VIDEO_TYPE\<rparr>"

theorem candidate_stream_roundtrip_witness:
  "cand_FromString (cand_ToString example_candidate) (example_candidate\<lparr>c_hostType := HOST, c_rPort := 0, c_foundation := []\<rparr>) =
     Some (read_as example_candidate (example_candidate\<lparr>c_hostType := HOST, c_rPort := 0, c_foundation := []\<rparr>))"
  by (rule candidate_stream_roundtrip) (simp add: printable_def example_candidate_def word_text_def isspace_def int_range_def relayed_def)

section \<open>Round trip through the pieces of a line\<close>

definition piece_text :: "string \<Rightarrow> bool" where
  "piece_text w \<longleftrightarrow> set w \<inter> {CHR '' '', CHR '':''} = {}"

lemma digits_piece_text: "\<forall>c\<in>set w. isdigit c \<Longrightarrow> piece_text w"
  by (auto simp: piece_text_def isdigit_def)

lemma show_piece_text: "piece_text (show_u32 n)" "piece_text (show_int i)"
  using digits_piece_text show_nat_digits by (auto simp: show_u32_def show_int_def piece_text_def)

lemma to_uint_show: "to_uint (show_u32 w) = w"
proof -
  have "unat w < 2 ^ 64" by (rule order.strict_trans [OF unsigned_less]) simp
  moreover have "ucast (ucast w :: u64) = w" by (rule bit_word_eqI) (simp add: bit_simps)
  ultimately show ?thesis by (simp add: to_uint_def show_u32_def strtoul_show_only)
qed

lemma strtoul_show_int:
  assumes "int_range i" shows "strtoul (show_int i) = word_of_int i"
proof (cases "i < 0")
  case True
  then have "nat (- i) < 2 ^ 64" using assms by (simp add: int_range_def)
  moreover have "takeWhile isdigit (show_nat (nat (- i))) = show_nat (nat (- i))" using takeWhile_digits [of "[]"] by simp
  moreover have "- (word_of_nat (nat (- i)) :: u64) = word_of_int i" using True by (simp add: word_of_int_minus)
  ultimately show ?thesis
    using True by (simp add: show_int_def strtoul_def isspace_def show_nat_value Let_def del: takeWhile_eq_all_conv)
next
  case False
  then show ?thesis using assms by (simp add: show_int_def strtoul_show_only int_range_def)
qed

lemma to_port_show:
  assumes "int_range i" shows "to_port (show_int i) = i"
proof -
  have "to_uint (show_int i) = word_of_int i"
    unfolding to_uint_def strtoul_show_int [OF assms] by (rule bit_word_eqI) (simp add: bit_simps)
  then show ?thesis using assms by (simp add: to_port_def int_range_def signed_of_int signed_take_bit_int_eq_self)
qed

definition line_pieces :: "CandidateInfo \<Rightarrow> string list" where
  "line_pieces c = [''a=candidate'', c_foundation c, show_u32 (c_componentId c), c_netProtocol c, show_u32 (c_priority c), c_hostAddress c,
     show_int (c_hostPort c), ''typ'', hostType_str (c_hostType c)] @
     (if relayed c then [''raddr'', c_rAddress c, ''rport'', show_int (c_rPort c)] else []) @ [''generation'', ''0'']"

definition splittable :: "CandidateInfo \<Rightarrow> bool" where
  "splittable c \<longleftrightarrow> piece_text (c_foundation c) \<and> c_netProtocol c \<in> {''udp'', ''UDP''} \<and> piece_text (c_hostAddress c) \<and>
     int_range (c_hostPort c) \<and> (relayed c \<longrightarrow> piece_text (c_rAddress c) \<and> int_range (c_rPort c))"

lemma candidate_pieces:
  assumes "splittable c"
  shows "splitOneOf (cand_ToString c) '' :'' 0 = line_pieces c"
proof -
  let ?sp = "map (\<lambda>w. (w, CHR '' ''))"
  let ?ps = "(''a=candidate'', CHR '':'') # ?sp (tl (butlast (line_pieces c)))"
  have printed: "cand_ToString c = joined ?ps ''0''"
    by (cases "relayed c") (auto simp: cand_ToString_def relayed_def line_pieces_def)
  have pieces: "line_pieces c = map fst ?ps @ [''0'']"
    by (cases "relayed c") (simp_all add: line_pieces_def comp_def)
  have "piece_text w" if "w \<in> set (butlast (line_pieces c))" for w
    using that assms show_piece_text
    by (cases "c_hostType c") (auto simp: line_pieces_def splittable_def relayed_def piece_text_def split: if_splits)
  moreover have "set (tl (butlast (line_pieces c))) \<subseteq> set (butlast (line_pieces c))"
    by (cases "butlast (line_pieces c)") auto
  ultimately have "\<forall>(p, d)\<in>set ?ps. set p \<inter> set '' :'' = {} \<and> d \<in> set '' :''"
    by (auto simp: piece_text_def simp del: butlast.simps)
  then have "splitOneOf (cand_ToString c) '' :'' 0 = map fst ?ps @ [''0'']"
    unfolding printed by (rule splitOneOf_joined) simp_all
  then show ?thesis by (rule trans [OF _ pieces [symmetric]])
qed

lemma candidate_type_str: "candidate_type (hostType_str t) = t"
  by (cases t) (simp_all add: candidate_type_def)

lemma candidate_line:
  assumes "splittable c"
  shows "processCandidate memory (splitOneOf (cand_ToString c) '' :'' 0) m =
    Some (Some (read_as c ((CandidateInfo_new memory)\<lparr>c_mediaType := m\<rparr>)))"
  unfolding candidate_pieces [OF assms]
  using assms
  by (cases "relayed c")
    (auto simp: processCandidate_def line_pieces_def piece_def splittable_def read_as_def to_uint_show to_port_show candidate_type_str relayed_def
      Let_def)

text \<open>A UDP candidate that the server prints in a session description is read back by
  \<open>processCandidate\<close> with all its printed members, as long as its addresses contain neither a
  blank nor a colon.\<close>

theorem candidate_line_roundtrip:
  assumes "splittable c"
  shows "processCandidate memory (splitOneOf (cand_ToString c) '' :'' 0) m =
    Some (Some (read_as c ((CandidateInfo_new memory)\<lparr>c_mediaType := m\<rparr>)))"
  by (rule candidate_line [OF assms])

theorem candidate_line_roundtrip_witness:
  "processCandidate example_candidate (splitOneOf (cand_ToString example_candidate) '' :'' 0) AUDIO_TYPE =
    Some (Some (read_as example_candidate ((CandidateInfo_new example_candidate)\<lparr>c_mediaType := AUDIO_TYPE\<rparr>)))"
  by (rule candidate_line_roundtrip)
    (simp add: splittable_def example_candidate_def piece_text_def int_range_def relayed_def)

text \<open>The colon is a delimiter, so that a candidate with an IPv6 address is dropped.\<close>

lemma ipv6_candidate_dropped:
  "processCandidate memory (splitOneOf ''a=candidate:1 1 udp 2122260223 fe80::1 62087 typ host generation 0'' '' :'' 0) m = Some None"
proof -
  have "splitOneOf ''a=candidate:1 1 udp 2122260223 fe80::1 62087 typ host generation 0'' '' :'' 0 =
      [''a=candidate'', ''1'', ''1'', ''udp'', ''2122260223'', ''fe80'', [], ''1'', ''62087'', ''typ'', ''host'', ''generation'', ''0'']"
    by code_simp
  then show ?thesis by (simp add: processCandidate_def piece_def Let_def)
qed

end
