(* ===== verification/Sdp_Info.thy ===== *)
theory Sdp_Info
  imports Sdp_Candidate
begin

text \<open>
  \<open>src/orbit/sdp_info.{h,cc}\<close>: the session description of one peer.  \<open>processSdp\<close> reads a
  description line by line, \<open>getSdp\<close> prints one, \<open>setOfferSdp\<close> prepares the answer to an offer.

  The members that the constructor does not set keep what the memory held (\<open>memory\<close>).  Random
  numbers and the three flags of the program are arguments.  An index outside of a vector is
  undefined: \<open>None\<close>.  So is a loop over more than 255 bundle tags, whose counter is a
  \<open>uint8_t\<close>: it never ends.  \<open>boost::regex_search\<close>, which yields the first group of the match, is
  the argument \<open>search\<close>.
\<close>

section \<open>The class\<close>

datatype VideoEncoding = VP8 | VP9 | H264

record SdpInfo =
  candidateVector :: "CandidateInfo list"
  cryptoVector :: "CryptoInfo list"
  internalPayloadVector :: "RtpMap list"
  iceVideoUsername :: string
  iceAudioUsername :: string
  iceVideoPassword :: string
  iceAudioPassword :: string
  audioSsrc :: u32
  videoSsrc :: u32
  videoRtxSsrc :: u32
  extended_video_ssrc :: "u32 list"
  isBundle :: bool
  hasAudio :: bool
  hasVideo :: bool
  isRtcpMux :: bool
  isExtMapEnabled :: bool
  isRedFecEnabled :: bool
  videoDirection :: StreamDirection
  audioDirection :: StreamDirection
  profile :: Profile
  isFingerprint :: bool
  fingerprint :: string
  sdp_setup :: string
  inOutPTMap :: "(int, int) std_map"
  outInPTMap :: "(int, int) std_map"
  payloadVector :: "RtpMap list"
  bundleTags :: "BundleTag list"
  videoSdpMLine :: int
  audioSdpMLine :: int
  videoCodecs :: int
  audioCodecs :: int
  videoBandwidth :: u32
  target_bandwidth :: u32
  min_bitrate :: u32
  video_encoding :: VideoEncoding
  inOut_payload :: "(int, int) std_map"
  outIn_payload :: "(int, int) std_map"

section \<open>Codecs\<close>

definition codec :: "u32 \<Rightarrow> string \<Rightarrow> u32 \<Rightarrow> u32 \<Rightarrow> MediaType \<Rightarrow> RtpMap" where
  "codec pt name clock channels media = \<lparr>rm_payloadType = pt, rm_encodingName = name, rm_clockRate = clock, rm_mediaType = media,
     rm_channels = channels, rm_feedbackTypes = [], rm_formatParameters = []\<rparr>"

definition VP8_90000_PT :: u32 where "VP8_90000_PT = 100"
definition VP9_90000_PT :: u32 where "VP9_90000_PT = 101"
definition H264_90000_PT :: u32 where "H264_90000_PT = 107"
definition RED_90000_PT :: u32 where "RED_90000_PT = 116"
definition ULP_90000_PT :: u32 where "ULP_90000_PT = 117"
definition ISAC_16000_PT :: u32 where "ISAC_16000_PT = 103"
definition ISAC_32000_PT :: u32 where "ISAC_32000_PT = 104"
definition PCMU_8000_PT :: u32 where "PCMU_8000_PT = 0"
definition OPUS_48000_PT :: u32 where "OPUS_48000_PT = 111"
definition CN_8000_PT :: u32 where "CN_8000_PT = 13"
definition CN_16000_PT :: u32 where "CN_16000_PT = 105"
definition CN_32000_PT :: u32 where "CN_32000_PT = 106"
definition CN_48000_PT :: u32 where "CN_48000_PT = 107"
definition TEL_8000_PT :: u32 where "TEL_8000_PT = 126"

lemmas payload_types = VP8_90000_PT_def VP9_90000_PT_def H264_90000_PT_def RED_90000_PT_def ULP_90000_PT_def ISAC_16000_PT_def
  ISAC_32000_PT_def PCMU_8000_PT_def OPUS_48000_PT_def CN_8000_PT_def CN_16000_PT_def CN_32000_PT_def CN_48000_PT_def TEL_8000_PT_def

fun use_codecs :: "VideoEncoding \<Rightarrow> RtpMap" where
  "use_codecs H264 = codec H264_90000_PT ''H264'' 90000 1 VIDEO_TYPE"
| "use_codecs VP9 = codec VP9_90000_PT ''VP9'' 90000 1 VIDEO_TYPE"
| "use_codecs VP8 = codec VP8_90000_PT ''VP8'' 90000 1 VIDEO_TYPE"

definition InitializeRtpMap :: "SdpInfo \<Rightarrow> SdpInfo" where
  "InitializeRtpMap s = s\<lparr>internalPayloadVector := internalPayloadVector s @ [use_codecs (video_encoding s)] @
     (if isRedFecEnabled s then [codec RED_90000_PT ''red'' 90000 1 VIDEO_TYPE, codec ULP_90000_PT ''ulpfec'' 90000 1 VIDEO_TYPE] else []) @
     [(codec OPUS_48000_PT ''opus'' 48000 2 AUDIO_TYPE)\<lparr>rm_formatParameters := [(''useinbandfec'', ''1'')]\<rparr>,
      codec ISAC_16000_PT ''ISAC'' 16000 1 AUDIO_TYPE, codec ISAC_32000_PT ''ISAC'' 32000 1 AUDIO_TYPE,
      codec PCMU_8000_PT ''PCMU'' 8000 1 AUDIO_TYPE, codec CN_8000_PT ''CN'' 8000 1 AUDIO_TYPE,
      codec CN_16000_PT ''CN'' 16000 1 AUDIO_TYPE, codec CN_32000_PT ''CN'' 32000 1 AUDIO_TYPE,
      codec CN_48000_PT ''CN'' 48000 1 AUDIO_TYPE, codec TEL_8000_PT ''telephone-event'' 8000 1 AUDIO_TYPE]\<rparr>"

definition kTargetBandwidthKbps :: u32 where "kTargetBandwidthKbps = 250"
definition kDefaultMinBitrateKbps :: u32 where "kDefaultMinBitrateKbps = 120"

text \<open>The directions and the encoding are not set before they are used; an encoding that is none of
  the three is treated as \<open>VP8\<close>.\<close>

definition SdpInfo_new :: "SdpInfo \<Rightarrow> bool \<Rightarrow> SdpInfo" where
  "SdpInfo_new memory enable_red_fec = InitializeRtpMap
     \<lparr>candidateVector = [], cryptoVector = [], internalPayloadVector = [], iceVideoUsername = [], iceAudioUsername = [],
      iceVideoPassword = [], iceAudioPassword = [], audioSsrc = 0, videoSsrc = 0, videoRtxSsrc = 0, extended_video_ssrc = [],
      isBundle = False, hasAudio = False, hasVideo = False, isRtcpMux = False, isExtMapEnabled = False,
      isRedFecEnabled = enable_red_fec, videoDirection = videoDirection memory, audioDirection = audioDirection memory,
      profile = SAVPF, isFingerprint = False, fingerprint = [], sdp_setup = [], inOutPTMap = [], outInPTMap = [], payloadVector = [],
      bundleTags = [], videoSdpMLine = -1, audioSdpMLine = -1, videoCodecs = 0, audioCodecs = 0, videoBandwidth = 0,
      target_bandwidth = kTargetBandwidthKbps, min_bitrate = kDefaultMinBitrateKbps, video_encoding = video_encoding memory,
      inOut_payload = [], outIn_payload = []\<rparr>"

definition set_video_encoding :: "VideoEncoding \<Rightarrow> SdpInfo \<Rightarrow> SdpInfo" where
  "set_video_encoding encoding s = InitializeRtpMap (s\<lparr>video_encoding := encoding, internalPayloadVector := []\<rparr>)"

section \<open>Members\<close>

definition addCandidate :: "CandidateInfo \<Rightarrow> SdpInfo \<Rightarrow> SdpInfo \<times> string" where
  "addCandidate info s = (s\<lparr>candidateVector := candidateVector s @ [info]\<rparr>, cand_ToString info)"

definition addCrypto :: "CryptoInfo \<Rightarrow> SdpInfo \<Rightarrow> SdpInfo" where
  "addCrypto info s = s\<lparr>cryptoVector := cryptoVector s @ [info]\<rparr>"

fun setCredentials :: "string \<Rightarrow> string \<Rightarrow> MediaType \<Rightarrow> SdpInfo \<Rightarrow> SdpInfo" where
  "setCredentials username password VIDEO_TYPE s = s\<lparr>iceVideoUsername := username, iceVideoPassword := password\<rparr>"
| "setCredentials username password AUDIO_TYPE s = s\<lparr>iceAudioUsername := username, iceAudioPassword := password\<rparr>"
| "setCredentials username password OTHER s = s\<lparr>iceVideoUsername := username, iceVideoPassword := password,
     iceAudioUsername := username, iceAudioPassword := password\<rparr>"

text \<open>\<open>s.replace (0, n, t)\<close>; the password is replaced up to the length of the new user name.\<close>

definition replace_front :: "string \<Rightarrow> nat \<Rightarrow> string \<Rightarrow> string" where
  "replace_front s n t = t @ drop n s"

fun getCredentials :: "string \<Rightarrow> string \<Rightarrow> MediaType \<Rightarrow> SdpInfo \<Rightarrow> string \<times> string" where
  "getCredentials username password AUDIO_TYPE s =
     (let username = replace_front username (length username) (iceAudioUsername s)
      in (username, replace_front password (length username) (iceAudioPassword s)))"
| "getCredentials username password _ s =
     (let username = replace_front username (length username) (iceVideoUsername s)
      in (username, replace_front password (length username) (iceVideoPassword s)))"

definition getCodecByName :: "string \<Rightarrow> u32 \<Rightarrow> SdpInfo \<Rightarrow> RtpMap option" where
  "getCodecByName name clock s = find (\<lambda>rtp. rm_encodingName rtp = name \<and> rm_clockRate rtp = clock) (internalPayloadVector s)"

text \<open>\<open>inOutPTMap[key]\<close> inserts 0 for a missing key, in the loop up to the first match.\<close>

fun support_loop :: "int \<Rightarrow> RtpMap list \<Rightarrow> (int, int) std_map \<Rightarrow> bool \<times> (int, int) std_map" where
  "support_loop pt [] m = (False, m)"
| "support_loop pt (rtp # rtps) m =
     (let (v, m) = sm_at (<) 0 (sint (rm_payloadType rtp)) m in if v = pt then (True, m) else support_loop pt rtps m)"

definition supportPayloadType :: "int \<Rightarrow> SdpInfo \<Rightarrow> bool \<times> SdpInfo" where
  "supportPayloadType pt s =
     (if sm_find (<) pt (inOutPTMap s) \<noteq> None
      then let (r, m) = support_loop pt (payloadVector s) (inOutPTMap s) in (r, s\<lparr>inOutPTMap := m\<rparr>)
      else (False, s))"

definition supportCodecByName :: "string \<Rightarrow> u32 \<Rightarrow> SdpInfo \<Rightarrow> bool \<times> SdpInfo" where
  "supportCodecByName name clock s =
     (case getCodecByName name clock s of None \<Rightarrow> (False, s) | Some rtp \<Rightarrow> supportPayloadType (sint (rm_payloadType rtp)) s)"

definition createOfferSdp :: "SdpInfo \<Rightarrow> SdpInfo" where
  "createOfferSdp s = s\<lparr>payloadVector := internalPayloadVector s, isBundle := True, profile := SAVPF, isRtcpMux := True,
     videoSdpMLine := 0, audioSdpMLine := 1, hasVideo := True, hasAudio := True, videoDirection := SENDRECV,
     audioDirection := SENDRECV, videoSsrc := 55543, videoRtxSsrc := 55555\<rparr>"

fun answer_direction :: "StreamDirection \<Rightarrow> StreamDirection" where
  "answer_direction SENDONLY = RECVONLY"
| "answer_direction RECVONLY = SENDONLY"
| "answer_direction SENDRECV = SENDRECV"

text \<open>\<open>r1\<close> to \<open>r3\<close> are the results of \<open>rand ()\<close>.\<close>

definition setOfferSdp :: "u32 \<Rightarrow> u32 \<Rightarrow> u32 \<Rightarrow> SdpInfo \<Rightarrow> SdpInfo \<Rightarrow> SdpInfo" where
  "setOfferSdp r1 r2 r3 offerSdp s = s\<lparr>videoCodecs := videoCodecs offerSdp, audioCodecs := audioCodecs offerSdp,
     payloadVector := payloadVector offerSdp, isBundle := isBundle offerSdp, profile := profile offerSdp,
     isRtcpMux := isRtcpMux offerSdp, videoSdpMLine := videoSdpMLine offerSdp, audioSdpMLine := audioSdpMLine offerSdp,
     inOutPTMap := inOutPTMap offerSdp, outInPTMap := outInPTMap offerSdp, hasVideo := hasVideo offerSdp,
     hasAudio := hasAudio offerSdp, bundleTags := bundleTags offerSdp,
     videoDirection := answer_direction (videoDirection offerSdp), audioDirection := answer_direction (audioDirection offerSdp),
     audioSsrc := r1, videoSsrc := r2, videoRtxSsrc := (if videoRtxSsrc offerSdp \<noteq> 0 then 55555 else r3)\<rparr>"

text \<open>\<open>rands\<close> is the sequence of the results of \<open>rand ()\<close>.\<close>

definition initExtendedVideoSsrc :: "(nat \<Rightarrow> u32) \<Rightarrow> nat \<Rightarrow> SdpInfo \<Rightarrow> SdpInfo" where
  "initExtendedVideoSsrc rands number s =
     s\<lparr>extended_video_ssrc := extended_video_ssrc s @ map rands [0..<number - length (extended_video_ssrc s)]\<rparr>"

text \<open>The setters of \<open>src/orbit/sdp_info.h\<close>.  The two accessors of the section numbers return
  \<open>bool\<close>: every number but 0, also the -1 of an absent section, is \<open>true\<close>.\<close>

definition setIsFingerprint :: "bool \<Rightarrow> SdpInfo \<Rightarrow> SdpInfo" where "setIsFingerprint b s = s\<lparr>isFingerprint := b\<rparr>"
definition setFingerprint :: "string \<Rightarrow> SdpInfo \<Rightarrow> SdpInfo" where "setFingerprint fp s = s\<lparr>fingerprint := fp\<rparr>"
definition setAudioSsrc :: "u32 \<Rightarrow> SdpInfo \<Rightarrow> SdpInfo" where "setAudioSsrc x s = s\<lparr>audioSsrc := x\<rparr>"
definition setVideoSsrc :: "u32 \<Rightarrow> SdpInfo \<Rightarrow> SdpInfo" where "setVideoSsrc x s = s\<lparr>videoSsrc := x\<rparr>"
definition setVideoRtxSsrc :: "u32 \<Rightarrow> SdpInfo \<Rightarrow> SdpInfo" where "setVideoRtxSsrc x s = s\<lparr>videoRtxSsrc := x\<rparr>"
definition setIsBundle :: "bool \<Rightarrow> SdpInfo \<Rightarrow> SdpInfo" where "setIsBundle b s = s\<lparr>isBundle := b\<rparr>"
definition setHasAudio :: "bool \<Rightarrow> SdpInfo \<Rightarrow> SdpInfo" where "setHasAudio b s = s\<lparr>hasAudio := b\<rparr>"
definition setHasVideo :: "bool \<Rightarrow> SdpInfo \<Rightarrow> SdpInfo" where "setHasVideo b s = s\<lparr>hasVideo := b\<rparr>"
definition setProfile :: "Profile \<Rightarrow> SdpInfo \<Rightarrow> SdpInfo" where "setProfile p s = s\<lparr>profile := p\<rparr>"
definition set_target_bandwidth :: "u32 \<Rightarrow> SdpInfo \<Rightarrow> SdpInfo" where "set_target_bandwidth x s = s\<lparr>target_bandwidth := x\<rparr>"
definition set_min_bitrate :: "u32 \<Rightarrow> SdpInfo \<Rightarrow> SdpInfo" where "set_min_bitrate x s = s\<lparr>min_bitrate := x\<rparr>"
definition set_setup :: "string \<Rightarrow> SdpInfo \<Rightarrow> SdpInfo" where "set_setup x s = s\<lparr>sdp_setup := x\<rparr>"
definition getVideoSdpMLine :: "SdpInfo \<Rightarrow> bool" where "getVideoSdpMLine s \<longleftrightarrow> videoSdpMLine s \<noteq> 0"
definition getAudioSdpMLine :: "SdpInfo \<Rightarrow> bool" where "getAudioSdpMLine s \<longleftrightarrow> audioSdpMLine s \<noteq> 0"

definition AddVideoBundleTag :: "SdpInfo \<Rightarrow> SdpInfo" where
  "AddVideoBundleTag s = s\<lparr>bundleTags := bundleTags s @ [\<lparr>bt_id = ''video'', bt_mediaType = VIDEO_TYPE\<rparr>]\<rparr>"

definition AddAudioBundleTag :: "SdpInfo \<Rightarrow> SdpInfo" where
  "AddAudioBundleTag s = s\<lparr>bundleTags := bundleTags s @ [\<lparr>bt_id = ''audio'', bt_mediaType = AUDIO_TYPE\<rparr>]\<rparr>"

section \<open>Payload types\<close>

definition getAudioInternalPT :: "int \<Rightarrow> SdpInfo \<Rightarrow> int" where
  "getAudioInternalPT externalPT s = (case sm_find (<) externalPT (outInPTMap s) of Some pt \<Rightarrow> pt | None \<Rightarrow> externalPT)"

definition getVideoInternalPT :: "int \<Rightarrow> SdpInfo \<Rightarrow> int" where
  "getVideoInternalPT = getAudioInternalPT"

definition getAudioExternalPT :: "int \<Rightarrow> SdpInfo \<Rightarrow> int" where
  "getAudioExternalPT internalPT s = (case sm_find (<) internalPT (inOutPTMap s) of Some pt \<Rightarrow> pt | None \<Rightarrow> internalPT)"

definition getVideoExternalPT :: "int \<Rightarrow> SdpInfo \<Rightarrow> int" where
  "getVideoExternalPT = getAudioExternalPT"

definition GetCodesNumber :: "(string \<Rightarrow> string \<Rightarrow> string option) \<Rightarrow> string \<Rightarrow> string \<Rightarrow> int" where
  "GetCodesNumber search offer reg = (case search offer reg of None \<Rightarrow> -1 | Some str \<Rightarrow> snd (extract_int (False, str) (-1)))"

text \<open>\<open>insert\<close> keeps an entry that is there.\<close>

definition sm_insert :: "int \<Rightarrow> int \<Rightarrow> (int, int) std_map \<Rightarrow> (int, int) std_map" where
  "sm_insert k v m = (if sm_find (<) k m = None then sm_set (<) k v m else m)"

definition extract_code :: "(string \<Rightarrow> string \<Rightarrow> string option) \<Rightarrow> string \<Rightarrow> string \<Rightarrow> int \<Rightarrow> SdpInfo \<Rightarrow> SdpInfo" where
  "extract_code search offer reg pt s =
     (let codes = GetCodesNumber search offer reg in
      if codes \<noteq> -1 \<and> codes \<noteq> pt
      then s\<lparr>inOut_payload := sm_insert codes pt (inOut_payload s), outIn_payload := sm_insert pt codes (outIn_payload s)\<rparr> else s)"

definition ExtractNewCodes :: "(string \<Rightarrow> string \<Rightarrow> string option) \<Rightarrow> string \<Rightarrow> SdpInfo \<Rightarrow> SdpInfo" where
  "ExtractNewCodes search offer s =
     extract_code search offer ''a=rtpmap:([1-9][0-9]*) ulpfec'' (sint ULP_90000_PT)
     (extract_code search offer ''a=rtpmap:([1-9][0-9]*) red'' (sint RED_90000_PT)
     (extract_code search offer ''a=rtpmap:([1-9][0-9]*) H264'' (sint H264_90000_PT)
     (extract_code search offer ''a=rtpmap:([1-9][0-9]*) VP9'' (sint VP9_90000_PT)
     (extract_code search offer ''a=rtpmap:([1-9][0-9]*) VP8'' (sint VP8_90000_PT) s))))"

definition GetCodec :: "int \<Rightarrow> SdpInfo \<Rightarrow> int \<times> SdpInfo" where
  "GetCodec source_codec s =
     (let (result, m) = sm_at (<) 0 source_codec (outIn_payload s)
      in (if result = 0 then source_codec else result, s\<lparr>outIn_payload := m\<rparr>))"

section \<open>Reading a description\<close>

record parse_state =
  ps_sdp :: SdpInfo
  ps_mlineNum :: int
  ps_mtype :: MediaType
  ps_feedback :: "string list"

definition on_sdp :: "(SdpInfo \<Rightarrow> SdpInfo) \<Rightarrow> parse_state \<Rightarrow> parse_state" where
  "on_sdp f st = st\<lparr>ps_sdp := f (ps_sdp st)\<rparr>"

definition set_direction :: "StreamDirection \<Rightarrow> parse_state \<Rightarrow> parse_state" where
  "set_direction d st = on_sdp (\<lambda>s. if ps_mtype st = AUDIO_TYPE then s\<lparr>audioDirection := d\<rparr> else s\<lparr>videoDirection := d\<rparr>) st"

text \<open>One definition per test of the loop body, in its order.\<close>

definition line_mux :: "string \<Rightarrow> parse_state \<Rightarrow> parse_state" where
  "line_mux line st = (if contains ''a=rtcp-mux'' line then on_sdp (\<lambda>s. s\<lparr>isRtcpMux := True\<rparr>) st else st)"

definition line_direction :: "string \<Rightarrow> parse_state \<Rightarrow> parse_state" where
  "line_direction line st =
     (if contains ''a=recvonly'' line then set_direction RECVONLY st
      else if contains ''a=sendonly'' line then set_direction SENDONLY st
      else if contains ''a=sendrecv'' line then set_direction SENDRECV st else st)"

definition line_profile :: "string \<Rightarrow> parse_state \<Rightarrow> parse_state" where
  "line_profile line st = (if contains ''SAVPF'' line then on_sdp (\<lambda>s. s\<lparr>profile := SAVPF\<rparr>) st else st)"

definition line_fingerprint :: "string \<Rightarrow> parse_state \<Rightarrow> parse_state option" where
  "line_fingerprint line st =
     (if contains ''a=fingerprint'' line then do {
        p \<leftarrow> piece (splitOneOf line '':'' 1) 1;
        fp \<leftarrow> piece (splitOneOf p '' '' 0) 1;
        Some (on_sdp (\<lambda>s. s\<lparr>fingerprint := fp, isFingerprint := True\<rparr>) st) }
      else Some st)"

definition group_delims :: string where "group_delims = '':  '' @ [CHR 0x0D, CHR 0x0A]"

definition line_group :: "string \<Rightarrow> parse_state \<Rightarrow> parse_state option" where
  "line_group line st =
     (if contains ''a=group:'' line then do {
        let parts = splitOneOf line group_delims 10;
        p \<leftarrow> piece parts 1;
        let tags = map (\<lambda>i. \<lparr>bt_id = i, bt_mediaType = OTHER\<rparr>) (drop 2 parts);
        Some (on_sdp (\<lambda>s. s\<lparr>isBundle := (p = ''BUNDLE'' \<or> isBundle s), bundleTags := bundleTags s @ tags\<rparr>) st) }
      else Some st)"

definition line_video :: "string \<Rightarrow> parse_state \<Rightarrow> parse_state" where
  "line_video line st =
     (if contains ''m=video'' line
      then on_sdp (\<lambda>s. s\<lparr>videoSdpMLine := ps_mlineNum st + 1, hasVideo := True\<rparr>) (st\<lparr>ps_mlineNum := ps_mlineNum st + 1, ps_mtype := VIDEO_TYPE\<rparr>)
      else st)"

definition line_audio :: "string \<Rightarrow> parse_state \<Rightarrow> parse_state" where
  "line_audio line st =
     (if contains ''m=audio'' line
      then on_sdp (\<lambda>s. s\<lparr>audioSdpMLine := ps_mlineNum st + 1, hasAudio := True\<rparr>) (st\<lparr>ps_mlineNum := ps_mlineNum st + 1, ps_mtype := AUDIO_TYPE\<rparr>)
      else st)"

definition line_candidate :: "CandidateInfo \<Rightarrow> string \<Rightarrow> parse_state \<Rightarrow> parse_state option" where
  "line_candidate memory line st =
     (if contains ''a=candidate:'' line then do {
        r \<leftarrow> processCandidate memory (splitOneOf line '' :'' 0) (ps_mtype st);
        Some (case r of None \<Rightarrow> st | Some c \<Rightarrow> on_sdp (\<lambda>s. s\<lparr>candidateVector := candidateVector s @ [c]\<rparr>) st) }
      else Some st)"

definition line_crypto :: "string \<Rightarrow> parse_state \<Rightarrow> parse_state option" where
  "line_crypto line st =
     (if contains ''a=crypto:'' line then do {
        let cryptopiece = splitOneOf line '' :'' 0;
        suite \<leftarrow> piece cryptopiece 2;
        params \<leftarrow> piece cryptopiece 4;
        Some (on_sdp (addCrypto \<lparr>cr_tag = 0, cr_cipherSuite = suite, cr_keyParams = params, cr_mediaType = ps_mtype st\<rparr>) st) }
      else Some st)"

text \<open>The value behind the first colon, up to a carriage return.\<close>

definition attribute_value :: "string \<Rightarrow> string list option" where
  "attribute_value line = do { p \<leftarrow> piece (splitOneOf line '':'' 1) 1; Some (splitOneOf p [CHR 0x0D] 1) }"

definition line_ufrag :: "string \<Rightarrow> parse_state \<Rightarrow> parse_state option" where
  "line_ufrag line st =
     (if contains ''a=ice-ufrag'' line then do {
        parts \<leftarrow> attribute_value line;
        Some (case parts of
           [] \<Rightarrow> st
         | p # _ \<Rightarrow> on_sdp (\<lambda>s. if ps_mtype st = AUDIO_TYPE then s\<lparr>iceAudioUsername := p\<rparr> else s\<lparr>iceVideoUsername := p\<rparr>) st) }
      else Some st)"

definition line_pwd :: "string \<Rightarrow> parse_state \<Rightarrow> parse_state option" where
  "line_pwd line st =
     (if contains ''a=ice-pwd'' line then do {
        parts \<leftarrow> attribute_value line;
        Some (case parts of
           [] \<Rightarrow> st
         | p # _ \<Rightarrow> on_sdp (\<lambda>s. if ps_mtype st = AUDIO_TYPE then s\<lparr>iceAudioPassword := p\<rparr> else s\<lparr>iceVideoPassword := p\<rparr>) st) }
      else Some st)"

text \<open>\<open>for (uint8_t i = 0; i < bundleTags.size (); i++)\<close>.\<close>

definition tag_loop :: "(BundleTag \<Rightarrow> 'a) \<Rightarrow> BundleTag list \<Rightarrow> 'a list option" where
  "tag_loop f tags = (if 255 < length tags then None else Some (map f tags))"

definition mid_delims :: string where "mid_delims = '': '' @ [CHR 0x0D, CHR 0x0A]"

definition line_mid :: "string \<Rightarrow> parse_state \<Rightarrow> parse_state option" where
  "line_mid line st =
     (if contains ''a=mid'' line
      then let parts = splitOneOf line mid_delims 4 in
           if 2 \<le> length parts then do {
             tags \<leftarrow> tag_loop (\<lambda>t. if bt_id t = parts ! 1 then t\<lparr>bt_mediaType := ps_mtype st\<rparr> else t) (bundleTags (ps_sdp st));
             Some (on_sdp (\<lambda>s. s\<lparr>bundleTags := tags\<rparr>) st) }
           else Some st
      else Some st)"

definition line_ssrc :: "string \<Rightarrow> parse_state \<Rightarrow> parse_state option" where
  "line_ssrc line st =
     (if contains ''a=ssrc'' line
      then let parts = splitOneOf line '' :'' 2 in
           if ps_mtype st = VIDEO_TYPE \<and> videoSsrc (ps_sdp st) = 0
           then do { p \<leftarrow> piece parts 1; Some (on_sdp (\<lambda>s. s\<lparr>videoSsrc := to_uint p\<rparr>) st) }
           else if ps_mtype st = AUDIO_TYPE \<and> audioSsrc (ps_sdp st) = 0
           then do { p \<leftarrow> piece parts 1; Some (on_sdp (\<lambda>s. s\<lparr>audioSsrc := to_uint p\<rparr>) st) }
           else Some st
      else Some st)"

definition line_ssrc_group :: "string \<Rightarrow> parse_state \<Rightarrow> parse_state" where
  "line_ssrc_group line st =
     (if contains ''a=ssrc-group'' line \<and> ps_mtype st = VIDEO_TYPE
      then let parts = splitOneOf line '' :'' 10 in
           if 4 \<le> length parts then on_sdp (\<lambda>s. s\<lparr>videoRtxSsrc := to_uint (parts ! 3)\<rparr>) st else st
      else st)"

text \<open>The codecs of the server that match an offered one; the last match gives the payload type.\<close>

fun match_codecs :: "RtpMap \<Rightarrow> u32 \<Rightarrow> RtpMap list \<Rightarrow> SdpInfo \<Rightarrow> SdpInfo \<times> RtpMap option" where
  "match_codecs theMap PT [] s = (s, None)"
| "match_codecs theMap PT (rtp # rtps) s =
     (if rm_encodingName rtp = rm_encodingName theMap \<and> rm_clockRate rtp = rm_clockRate theMap
      then let s = s\<lparr>outInPTMap := sm_set (<) (sint PT) (sint (rm_payloadType rtp)) (outInPTMap s),
                     inOutPTMap := sm_set (<) (sint (rm_payloadType rtp)) (sint PT) (inOutPTMap s)\<rparr>;
               theMap = theMap\<lparr>rm_channels := rm_channels rtp, rm_payloadType := rm_payloadType rtp\<rparr>;
               (s, found) = match_codecs theMap PT rtps s
           in (s, Some (case found of None \<Rightarrow> theMap | Some m \<Rightarrow> m))
      else match_codecs theMap PT rtps s)"

definition rtpmap_delims :: string where "rtpmap_delims = '' :/'' @ [CHR 0x0A]"

definition line_rtpmap :: "string \<Rightarrow> parse_state \<Rightarrow> parse_state option" where
  "line_rtpmap line st =
     (if contains ''a=rtpmap:'' line then do {
        let parts = splitOneOf line rtpmap_delims 4;
        p1 \<leftarrow> piece parts 1;
        codecname \<leftarrow> piece parts 2;
        p3 \<leftarrow> piece parts 3;
        let theMap = \<lparr>rm_payloadType = to_uint p1, rm_encodingName = codecname, rm_clockRate = to_uint p3, rm_mediaType = ps_mtype st,
                      rm_channels = 0, rm_feedbackTypes = [], rm_formatParameters = []\<rparr>;
        let (s, found) = match_codecs theMap (to_uint p1) (internalPayloadVector (ps_sdp st)) (ps_sdp st);
        Some (st\<lparr>ps_sdp := (case found of
            None \<Rightarrow> s
          | Some m \<Rightarrow>
              if rm_mediaType m = VIDEO_TYPE then s\<lparr>videoCodecs := videoCodecs s + 1, payloadVector := payloadVector s @ [m]\<rparr>
              else s\<lparr>audioCodecs := audioCodecs s + 1, payloadVector := payloadVector s @ [m]\<rparr>)\<rparr>) }
      else Some st)"

definition line_feedback :: "string \<Rightarrow> parse_state \<Rightarrow> parse_state" where
  "line_feedback line st = (if contains ''a=rtcp-fb:'' line then st\<lparr>ps_feedback := ps_feedback st @ [line]\<rparr> else st)"

definition line_fmtp :: "string \<Rightarrow> parse_state \<Rightarrow> parse_state" where
  "line_fmtp line st =
     (if contains ''a=fmtp:'' line
      then let parts = splitOneOf line '' :='' 4 in
           if 4 \<le> length parts
           then let PT = to_uint (parts ! 2);
                    (opt, val) = (if length parts = 4 then (''none'', c_str (parts ! 3)) else (c_str (parts ! 3), c_str (parts ! 4)))
                in on_sdp (\<lambda>s. s\<lparr>payloadVector := map (\<lambda>rtp. if rm_payloadType rtp = PT
                      then rtp\<lparr>rm_formatParameters := sm_set (<) opt val (rm_formatParameters rtp)\<rparr> else rtp) (payloadVector s)\<rparr>) st
           else st
      else st)"

definition line_bandwidth :: "string \<Rightarrow> parse_state \<Rightarrow> parse_state" where
  "line_bandwidth line st =
     (if contains ''b=AS:'' line \<and> ps_mtype st = VIDEO_TYPE
      then let parts = splitOneOf line '':'' 2 in
           if 2 \<le> length parts then on_sdp (\<lambda>s. s\<lparr>videoBandwidth := to_uint (parts ! 1)\<rparr>) st else st
      else st)"

definition process_line :: "CandidateInfo \<Rightarrow> string \<Rightarrow> parse_state \<Rightarrow> parse_state option" where
  "process_line memory line st = do {
     let st = line_profile line (line_direction line (line_mux line st));
     st \<leftarrow> line_fingerprint line st;
     st \<leftarrow> line_group line st;
     let st = line_audio line (line_video line st);
     st \<leftarrow> line_candidate memory line st;
     st \<leftarrow> line_crypto line st;
     st \<leftarrow> line_ufrag line st;
     st \<leftarrow> line_pwd line st;
     st \<leftarrow> line_mid line st;
     st \<leftarrow> line_ssrc line st;
     let st = line_ssrc_group line st;
     st \<leftarrow> line_rtpmap line st;
     Some (line_bandwidth line (line_fmtp line (line_feedback line st))) }"

fun process_lines :: "CandidateInfo \<Rightarrow> string list \<Rightarrow> parse_state \<Rightarrow> parse_state option" where
  "process_lines memory [] st = Some st"
| "process_lines memory (line # lines) st = do { st \<leftarrow> process_line memory line st; process_lines memory lines st }"

text \<open>After the loop: \<open>None\<close> is the result \<open>false\<close>.\<close>

definition fill_credentials :: "SdpInfo \<Rightarrow> SdpInfo option" where
  "fill_credentials s =
     (if iceVideoUsername s = [] \<and> iceAudioUsername s = [] then None
      else if iceVideoUsername s = [] then Some (s\<lparr>iceVideoUsername := iceAudioUsername s, iceVideoPassword := iceAudioPassword s\<rparr>)
      else if iceAudioUsername s = [] then Some (s\<lparr>iceAudioUsername := iceVideoUsername s, iceAudioPassword := iceVideoPassword s\<rparr>)
      else Some s)"

definition fill_candidates :: "SdpInfo \<Rightarrow> SdpInfo" where
  "fill_candidates s = s\<lparr>candidateVector := map (\<lambda>c.
     if c_mediaType c = VIDEO_TYPE
     then c\<lparr>c_isBundle := isBundle s, c_username := iceVideoUsername s, c_password := iceVideoPassword s\<rparr>
     else c\<lparr>c_isBundle := isBundle s, c_username := iceAudioUsername s, c_password := iceAudioPassword s\<rparr>) (candidateVector s)\<rparr>"

fun fill_feedback :: "string list \<Rightarrow> SdpInfo \<Rightarrow> SdpInfo option" where
  "fill_feedback [] s = Some s"
| "fill_feedback (line # lines) s = do {
     let parts = splitOneOf line '' :'' 2;
     p1 \<leftarrow> piece parts 1;
     feedback \<leftarrow> piece parts 2;
     fill_feedback lines (s\<lparr>payloadVector := map (\<lambda>rtp. if rm_payloadType rtp = to_uint p1
        then rtp\<lparr>rm_feedbackTypes := rm_feedbackTypes rtp @ [feedback]\<rparr> else rtp) (payloadVector s)\<rparr>) }"

definition start_type :: "string \<Rightarrow> MediaType" where
  "start_type media = (if media = ''audio'' then AUDIO_TYPE else if media = ''video'' then VIDEO_TYPE else OTHER)"

text \<open>\<open>std::getline\<close> until the end of the text; an empty last line is not read.\<close>

definition getlines :: "string \<Rightarrow> string list" where
  "getlines text = splitOneOf text [CHR 0x0A] 0"

definition processSdp :: "CandidateInfo \<Rightarrow> string \<Rightarrow> string \<Rightarrow> SdpInfo \<Rightarrow> (SdpInfo \<times> bool) option" where
  "processSdp memory sdp media s = do {
     st \<leftarrow> process_lines memory (getlines sdp) \<lparr>ps_sdp = s, ps_mlineNum = -1, ps_mtype = start_type media, ps_feedback = []\<rparr>;
     (case fill_credentials (ps_sdp st) of
        None \<Rightarrow> Some (ps_sdp st, False)
      | Some s \<Rightarrow> do { s \<leftarrow> fill_feedback (ps_feedback st) (fill_candidates s); Some (s, True) }) }"

definition initWithSdp :: "CandidateInfo \<Rightarrow> string \<Rightarrow> string \<Rightarrow> SdpInfo \<Rightarrow> (SdpInfo \<times> bool) option" where
  "initWithSdp = processSdp"

end
