(* ===== verification/Sdp_Reading.thy ===== *)
theory Sdp_Reading
  imports Sdp_Info
begin

text \<open>
  What \<open>processSdp\<close> (\<open>src/orbit/sdp_info.cc\<close>) does with any text: when it is defined, which
  credentials the result has, and how the payload types of the two sides are translated.
\<close>

section \<open>Lines with all their pieces\<close>

declare contains.simps [simp del]

definition candidate_pieces_ok :: "string list \<Rightarrow> bool" where
  "candidate_pieces_ok ps \<longleftrightarrow> 3 < length ps \<and> (ps ! 3 \<in> {''UDP'', ''udp''} \<longrightarrow> 7 < length ps \<and>
     (ps ! 7 = ''typ'' \<longrightarrow> 8 < length ps \<and> (candidate_type (ps ! 8) \<in> {SRFLX, RELAY} \<longrightarrow> 12 < length ps)))"

definition line_ok :: "string \<Rightarrow> bool" where
  "line_ok l \<longleftrightarrow>
     (contains ''a=fingerprint'' l \<longrightarrow> 1 < length (splitOneOf l '':'' 1) \<and> 1 < length (splitOneOf (splitOneOf l '':'' 1 ! 1) '' '' 0)) \<and>
     (contains ''a=group:'' l \<longrightarrow> 1 < length (splitOneOf l group_delims 10)) \<and>
     (contains ''a=candidate:'' l \<longrightarrow> candidate_pieces_ok (splitOneOf l '' :'' 0)) \<and>
     (contains ''a=crypto:'' l \<longrightarrow> 4 < length (splitOneOf l '' :'' 0)) \<and>
     (contains ''a=ice-ufrag'' l \<or> contains ''a=ice-pwd'' l \<longrightarrow> 1 < length (splitOneOf l '':'' 1)) \<and>
     (contains ''a=ssrc'' l \<longrightarrow> 1 < length (splitOneOf l '' :'' 2)) \<and>
     (contains ''a=rtpmap:'' l \<longrightarrow> 3 < length (splitOneOf l rtpmap_delims 4)) \<and>
     (contains ''a=rtcp-fb:'' l \<longrightarrow> 2 < length (splitOneOf l '' :'' 2))"

lemma splitOneOf_length: "n \<noteq> 0 \<Longrightarrow> length (splitOneOf s delims n) \<le> n + 1"
proof -
  assume n: "n \<noteq> 0"
  obtain ps where "s = joined ps (snd (split_loop delims n 0 s))" "fst (split_loop delims n 0 s) = map fst ps"
      "\<forall>(p, d)\<in>set ps. set p \<inter> set delims = {} \<and> d \<in> set delims" "n = 0 \<or> ps = [] \<or> 0 + length ps \<le> n"
      "set (snd (split_loop delims n 0 s)) \<inter> set delims = {} \<or> n \<noteq> 0 \<and> n \<le> 0 + length ps"
    using split_loop_pieces [of s delims n 0] by blast
  then show ?thesis using n by (auto simp: splitOneOf_def case_prod_unfold Let_def)
qed

definition ntags :: "parse_state \<Rightarrow> nat" where
  "ntags st = length (bundleTags (ps_sdp st))"

text \<open>A step that returns and changes neither the number of tags nor the noted feedback.\<close>

definition smooth :: "(parse_state \<Rightarrow> parse_state option) \<Rightarrow> parse_state \<Rightarrow> bool" where
  "smooth f st \<longleftrightarrow> (\<exists>st'. f st = Some st' \<and> ntags st' = ntags st \<and> ps_feedback st' = ps_feedback st)"

lemma smooth_steps:
  assumes "line_ok l"
  shows "smooth (line_fingerprint l) st" "smooth (line_candidate memory l) st" "smooth (line_crypto l) st"
    "smooth (line_ufrag l) st" "smooth (line_pwd l) st" "ntags st \<le> 255 \<Longrightarrow> smooth (line_mid l) st" "smooth (line_ssrc l) st"
proof -
  show "smooth (line_fingerprint l) st"
    using assms by (auto simp: smooth_def line_fingerprint_def line_ok_def piece_def on_sdp_def ntags_def)
  show "smooth (line_candidate memory l) st"
  proof (cases "contains ''a=candidate:'' l")
    case True
    then have "candidate_pieces_ok (splitOneOf l '' :'' 0)" using assms by (simp add: line_ok_def)
    then have "\<exists>r. processCandidate memory (splitOneOf l '' :'' 0) (ps_mtype st) = Some r"
      by (auto simp: candidate_pieces_ok_def processCandidate_def piece_def Let_def)
    then show ?thesis using True by (auto simp: smooth_def line_candidate_def on_sdp_def ntags_def split: option.split)
  qed (simp add: smooth_def line_candidate_def)
  show "smooth (line_crypto l) st"
    using assms by (auto simp: smooth_def line_crypto_def line_ok_def piece_def on_sdp_def ntags_def addCrypto_def Let_def)
  show "smooth (line_ufrag l) st" "smooth (line_pwd l) st"
    using assms
    by (auto simp: smooth_def line_ufrag_def line_pwd_def line_ok_def piece_def on_sdp_def ntags_def attribute_value_def split: list.split)
  show "smooth (line_mid l) st" if "ntags st \<le> 255"
    using that by (auto simp: smooth_def line_mid_def on_sdp_def ntags_def tag_loop_def Let_def)
  show "smooth (line_ssrc l) st"
    using assms by (auto simp: smooth_def line_ssrc_def line_ok_def piece_def on_sdp_def ntags_def Let_def)
qed

lemma match_codecs_tags: "bundleTags (fst (match_codecs theMap PT rtps s)) = bundleTags s"
  by (induction theMap PT rtps s rule: match_codecs.induct) (auto simp: case_prod_unfold Let_def)

lemma smooth_rtpmap:
  assumes "line_ok l" shows "smooth (line_rtpmap l) st"
proof (cases "contains ''a=rtpmap:'' l")
  case True
  then have "3 < length (splitOneOf l rtpmap_delims 4)" using assms by (simp add: line_ok_def)
  then show ?thesis
    using True by (auto simp: smooth_def line_rtpmap_def piece_def ntags_def Let_def case_prod_unfold match_codecs_tags split: option.split)
qed (simp add: smooth_def line_rtpmap_def)

lemma group_step:
  assumes "line_ok l"
  shows "\<exists>st'. line_group l st = Some st' \<and> ntags st' \<le> ntags st + (if contains ''a=group:'' l then 9 else 0) \<and>
    ps_feedback st' = ps_feedback st"
proof (cases "contains ''a=group:'' l")
  case True
  then have "1 < length (splitOneOf l group_delims 10)" using assms by (simp add: line_ok_def)
  then show ?thesis
    using True splitOneOf_length [of 10 l group_delims] by (simp add: line_group_def piece_def on_sdp_def ntags_def Let_def)
qed (simp add: line_group_def)

lemma plain_steps:
  "ntags (line_profile l (line_direction l (line_mux l st))) = ntags st"
  "ps_feedback (line_profile l (line_direction l (line_mux l st))) = ps_feedback st"
  "ntags (line_audio l (line_video l st)) = ntags st" "ps_feedback (line_audio l (line_video l st)) = ps_feedback st"
  "ntags (line_ssrc_group l st) = ntags st" "ps_feedback (line_ssrc_group l st) = ps_feedback st"
  "ntags (line_bandwidth l (line_fmtp l (line_feedback l st))) = ntags st"
  "ps_feedback (line_bandwidth l (line_fmtp l (line_feedback l st))) = ps_feedback st @ (if contains ''a=rtcp-fb:'' l then [l] else [])"
  by (simp_all add: line_profile_def line_direction_def line_mux_def line_audio_def line_video_def line_ssrc_group_def line_bandwidth_def
      line_fmtp_def line_feedback_def on_sdp_def ntags_def set_direction_def Let_def case_prod_unfold)

lemma smooth_bind:
  assumes "smooth f st" "\<And>st'. ntags st' = ntags st \<Longrightarrow> ps_feedback st' = ps_feedback st \<Longrightarrow> \<exists>r. g st' = Some r \<and> Q r"
  shows "\<exists>r. Option.bind (f st) g = Some r \<and> Q r"
  using assms by (auto simp: smooth_def)

lemma process_line_total:
  assumes "line_ok l" "ntags st + (if contains ''a=group:'' l then 9 else 0) \<le> 255"
  shows "\<exists>st'. process_line memory l st = Some st' \<and> ntags st' \<le> ntags st + (if contains ''a=group:'' l then 9 else 0) \<and>
    ps_feedback st' = ps_feedback st @ (if contains ''a=rtcp-fb:'' l then [l] else [])"
proof -
  let ?g = "if contains ''a=group:'' l then 9 else 0"
  let ?Q = "\<lambda>st'. ntags st' \<le> ntags st + ?g \<and> ps_feedback st' = ps_feedback st @ (if contains ''a=rtcp-fb:'' l then [l] else [])"
  note s = smooth_steps [OF assms(1)] smooth_rtpmap [OF assms(1)]
  have rest: "\<exists>st'. (do { st \<leftarrow> line_crypto l st1; st \<leftarrow> line_ufrag l st; st \<leftarrow> line_pwd l st; st \<leftarrow> line_mid l st; st \<leftarrow> line_ssrc l st;
        let st = line_ssrc_group l st; st \<leftarrow> line_rtpmap l st;
        Some (line_bandwidth l (line_fmtp l (line_feedback l st))) }) = Some st' \<and> ?Q st'"
    if "ntags st1 \<le> ntags st + ?g" "ps_feedback st1 = ps_feedback st" for st1
    unfolding Let_def
    by (rule smooth_bind, rule s, rule smooth_bind, rule s, rule smooth_bind, rule s, rule smooth_bind, rule s,
        use that assms(2) in simp, rule smooth_bind, rule s, rule smooth_bind, rule s)
      (use that in \<open>simp add: plain_steps\<close>)
  let ?st0 = "line_profile l (line_direction l (line_mux l st))"
  obtain st1 where st1: "line_fingerprint l ?st0 = Some st1" "ntags st1 = ntags st" "ps_feedback st1 = ps_feedback st"
    using s(1) [of ?st0] by (auto simp: smooth_def plain_steps)
  obtain st2 where st2: "line_group l st1 = Some st2" "ntags st2 \<le> ntags st + ?g" "ps_feedback st2 = ps_feedback st"
    using group_step [OF assms(1), of st1] st1 by auto
  obtain st3 where st3: "line_candidate memory l (line_audio l (line_video l st2)) = Some st3" "ntags st3 \<le> ntags st + ?g"
      "ps_feedback st3 = ps_feedback st"
    using s(2) [of memory "line_audio l (line_video l st2)"] st2 by (auto simp: smooth_def plain_steps)
  show ?thesis
    using rest [OF st3(2,3)] by (simp only: process_line_def Let_def st1(1) st2(1) st3(1) Option.bind.bind_lunit)
qed

definition group_lines :: "string list \<Rightarrow> nat" where
  "group_lines ls = length (filter (contains ''a=group:'') ls)"

lemma process_lines_total:
  assumes "\<forall>l\<in>set ls. line_ok l" "ntags st + 9 * group_lines ls \<le> 255" "\<forall>l\<in>set (ps_feedback st). 2 < length (splitOneOf l '' :'' 2)"
  shows "\<exists>st'. process_lines memory ls st = Some st' \<and> (\<forall>l\<in>set (ps_feedback st'). 2 < length (splitOneOf l '' :'' 2))"
  using assms
proof (induction ls arbitrary: st)
  case (Cons l ls)
  have "ntags st + (if contains ''a=group:'' l then 9 else 0) \<le> 255"
    using Cons.prems(2) by (simp add: group_lines_def split: if_splits)
  then obtain st1 where st1: "process_line memory l st = Some st1" "ntags st1 \<le> ntags st + (if contains ''a=group:'' l then 9 else 0)"
      "ps_feedback st1 = ps_feedback st @ (if contains ''a=rtcp-fb:'' l then [l] else [])"
    using process_line_total [of l st memory] Cons.prems(1) by auto
  have "ntags st1 + 9 * group_lines ls \<le> 255" using st1(2) Cons.prems(2) by (simp add: group_lines_def split: if_splits)
  moreover have "contains ''a=rtcp-fb:'' l \<Longrightarrow> 2 < length (splitOneOf l '' :'' 2)"
    using Cons.prems(1) by (simp add: line_ok_def)
  then have "\<forall>l\<in>set (ps_feedback st1). 2 < length (splitOneOf l '' :'' 2)" using st1(3) Cons.prems(3) by auto
  ultimately show ?case using Cons.IH [of st1] Cons.prems(1) st1(1) by simp
qed simp

section \<open>The outcome\<close>

lemma feedback_total:
  assumes "\<forall>l\<in>set ls. 2 < length (splitOneOf l '' :'' 2)"
  shows "\<exists>pv. fill_feedback ls s = Some (s\<lparr>payloadVector := pv\<rparr>)"
  using assms
proof (induction ls arbitrary: s)
  case Nil
  show ?case by (auto intro: exI [of _ "payloadVector s"])
next
  case (Cons l ls)
  let ?pv = "map (\<lambda>rtp. if rm_payloadType rtp = to_uint (splitOneOf l '' :'' 2 ! 1)
        then rtp\<lparr>rm_feedbackTypes := rm_feedbackTypes rtp @ [splitOneOf l '' :'' 2 ! 2]\<rparr> else rtp) (payloadVector s)"
  obtain pv where "fill_feedback ls (s\<lparr>payloadVector := ?pv\<rparr>) = Some (s\<lparr>payloadVector := ?pv, payloadVector := pv\<rparr>)"
    using Cons.IH [of "s\<lparr>payloadVector := ?pv\<rparr>"] Cons.prems by auto
  moreover have "fill_feedback (l # ls) s = fill_feedback ls (s\<lparr>payloadVector := ?pv\<rparr>)" using Cons.prems by (simp add: piece_def Let_def)
  ultimately show ?case by (intro exI [of _ pv]) simp
qed

text \<open>Both users are named or none is; every candidate carries the credentials of its medium.\<close>

definition outcome :: "SdpInfo \<Rightarrow> bool \<Rightarrow> bool" where
  "outcome r ok \<longleftrightarrow> (if ok then iceVideoUsername r \<noteq> [] \<and> iceAudioUsername r \<noteq> [] \<and>
       list_all (\<lambda>c. c_isBundle c = isBundle r \<and>
         (c_username c, c_password c) = (if c_mediaType c = VIDEO_TYPE then (iceVideoUsername r, iceVideoPassword r)
                                         else (iceAudioUsername r, iceAudioPassword r))) (candidateVector r)
     else iceVideoUsername r = [] \<and> iceAudioUsername r = [])"

text \<open>C20.
  A text all of whose recognised lines have the pieces that \<open>processSdp\<close> accesses, and with so
  few groups that the loops over the tags end, is read to its end.  The result is \<open>false\<close> only when
  no user name for ICE is known; otherwise both media have one, and every candidate has the bundle
  flag of the description and the credentials of its medium.\<close>

theorem processSdp_outcome:
  assumes "\<forall>l\<in>set (getlines text). line_ok l" "length (bundleTags s) + 9 * group_lines (getlines text) \<le> 255"
  shows "\<exists>r ok. processSdp memory text media s = Some (r, ok) \<and> outcome r ok"
proof -
  let ?st = "\<lparr>ps_sdp = s, ps_mlineNum = -1, ps_mtype = start_type media, ps_feedback = []\<rparr>"
  obtain st where st: "process_lines memory (getlines text) ?st = Some st" "\<forall>l\<in>set (ps_feedback st). 2 < length (splitOneOf l '' :'' 2)"
    using process_lines_total [OF assms(1), of ?st memory] assms(2) by (auto simp: ntags_def)
  show ?thesis
  proof (cases "fill_credentials (ps_sdp st)")
    case None
    then have "outcome (ps_sdp st) False" by (auto simp: fill_credentials_def outcome_def split: if_splits)
    then show ?thesis using st(1) None by (auto simp: processSdp_def)
  next
    case (Some w)
    obtain pv where pv: "fill_feedback (ps_feedback st) (fill_candidates w) = Some ((fill_candidates w)\<lparr>payloadVector := pv\<rparr>)"
      using feedback_total [OF st(2)] by blast
    have "iceVideoUsername w \<noteq> []" "iceAudioUsername w \<noteq> []" using Some by (auto simp: fill_credentials_def split: if_splits)
    then have "outcome ((fill_candidates w)\<lparr>payloadVector := pv\<rparr>) True" by (auto simp: outcome_def fill_candidates_def list_all_iff)
    then show ?thesis using st(1) Some pv by (auto simp: processSdp_def)
  qed
qed

definition example_text :: string where
  "example_text = ''v=0'' @ [CHR 0x0A] @ ''a=group:BUNDLE audio video'' @ [CHR 0x0A] @ ''m=audio 1 UDP/TLS/RTP/SAVPF 111'' @ [CHR 0x0A] @
     ''a=ice-ufrag:Bs0jL'' @ [CHR 0x0A] @ ''a=ice-pwd:ilq'' @ [CHR 0x0A] @ ''a=rtpmap:111 opus/48000/2'' @ [CHR 0x0A] @
     ''m=video 1 UDP/TLS/RTP/SAVPF 96'' @ [CHR 0x0A] @ ''a=rtpmap:96 VP8/90000'' @ [CHR 0x0A] @ ''a=rtcp-fb:96 nack'' @ [CHR 0x0A]"

lemma example_text_lines: "getlines example_text = [''v=0'', ''a=group:BUNDLE audio video'', ''m=audio 1 UDP/TLS/RTP/SAVPF 111'',
    ''a=ice-ufrag:Bs0jL'', ''a=ice-pwd:ilq'', ''a=rtpmap:111 opus/48000/2'', ''m=video 1 UDP/TLS/RTP/SAVPF 96'', ''a=rtpmap:96 VP8/90000'',
    ''a=rtcp-fb:96 nack'']"
  by code_simp

lemma example_text_ok: "\<forall>l\<in>set (getlines example_text). line_ok l" "group_lines (getlines example_text) = 1"
  by code_simp+

theorem processSdp_outcome_witness:
  "\<exists>r ok. processSdp example_candidate example_text ''video'' (SdpInfo_new undefined True) = Some (r, ok) \<and> outcome r ok"
  by (rule processSdp_outcome) (simp_all add: example_text_ok SdpInfo_new_def InitializeRtpMap_def)

text \<open>A line without its value is undefined: the vector is accessed outside of its bounds.\<close>

lemma missing_value_undefined: "line_fingerprint ''a=fingerprint'' st = None" "line_ufrag ''a=ice-ufrag:'' st = None"
proof -
  have p: "splitOneOf ''a=fingerprint'' '':'' 1 = [''a=fingerprint'']" "splitOneOf ''a=ice-ufrag:'' '':'' 1 = [''a=ice-ufrag'']" by code_simp+
  have c: "contains ''a=fingerprint'' ''a=fingerprint''" "contains ''a=ice-ufrag'' ''a=ice-ufrag:''" by code_simp+
  show "line_fingerprint ''a=fingerprint'' st = None" "line_ufrag ''a=ice-ufrag:'' st = None"
    by (simp_all add: line_fingerprint_def line_ufrag_def c attribute_value_def p [simplified] piece_def)
qed

section \<open>Payload types\<close>

definition codec_key :: "RtpMap \<Rightarrow> string \<times> u32" where
  "codec_key rtp = (rm_encodingName rtp, rm_clockRate rtp)"

definition rtpmap_pt :: "string \<Rightarrow> u32" where
  "rtpmap_pt l = to_uint (splitOneOf l rtpmap_delims 4 ! 1)"

definition rtpmap_key :: "string \<Rightarrow> string \<times> u32" where
  "rtpmap_key l = (splitOneOf l rtpmap_delims 4 ! 2, to_uint (splitOneOf l rtpmap_delims 4 ! 3))"

definition rtpmap_lines :: "string list \<Rightarrow> string list" where
  "rtpmap_lines ls = filter (contains ''a=rtpmap:'') ls"

abbreviation pt_set :: "int \<Rightarrow> int \<Rightarrow> (int, int) std_map \<Rightarrow> (int, int) std_map" where "pt_set \<equiv> sm_set (<)"
abbreviation pt_find :: "int \<Rightarrow> (int, int) std_map \<Rightarrow> int option" where "pt_find \<equiv> sm_find (<)"

text \<open>The members that translate payload types.\<close>

definition pt_view :: "SdpInfo \<Rightarrow> (int, int) std_map \<times> (int, int) std_map \<times> RtpMap list" where
  "pt_view s = (inOutPTMap s, outInPTMap s, internalPayloadVector s)"

lemma match_codecs_none:
  assumes "\<forall>rtp\<in>set rtps. codec_key rtp \<noteq> codec_key theMap"
  shows "match_codecs theMap PT rtps s = (s, None)"
  using assms by (induction theMap PT rtps s rule: match_codecs.induct) (auto simp: codec_key_def)

lemma match_codecs_one:
  assumes "distinct (map codec_key rtps)"
  shows "pt_view (fst (match_codecs theMap PT rtps s)) = pt_view s \<or>
    (\<exists>rtp\<in>set rtps. codec_key rtp = codec_key theMap \<and>
       pt_view (fst (match_codecs theMap PT rtps s)) = (pt_set (sint (rm_payloadType rtp)) (sint PT) (inOutPTMap s),
         pt_set (sint PT) (sint (rm_payloadType rtp)) (outInPTMap s), internalPayloadVector s))"
  using assms
proof (induction theMap PT rtps s rule: match_codecs.induct)
  case (2 theMap PT rtp rtps s)
  show ?case
  proof (cases "codec_key rtp = codec_key theMap")
    case True
    let ?s = "s\<lparr>outInPTMap := pt_set (sint PT) (sint (rm_payloadType rtp)) (outInPTMap s),
        inOutPTMap := pt_set (sint (rm_payloadType rtp)) (sint PT) (inOutPTMap s)\<rparr>"
    let ?m = "theMap\<lparr>rm_channels := rm_channels rtp, rm_payloadType := rm_payloadType rtp\<rparr>"
    have "\<forall>r\<in>set rtps. codec_key r \<noteq> codec_key ?m" using "2.prems" True by (auto simp: codec_key_def image_iff)
    then have "match_codecs ?m PT rtps ?s = (?s, None)" by (rule match_codecs_none)
    then have "fst (match_codecs theMap PT (rtp # rtps) s) = ?s" using True by (simp add: codec_key_def Let_def)
    then have "pt_view (fst (match_codecs theMap PT (rtp # rtps) s)) = (pt_set (sint (rm_payloadType rtp)) (sint PT) (inOutPTMap s),
         pt_set (sint PT) (sint (rm_payloadType rtp)) (outInPTMap s), internalPayloadVector s)" by (simp add: pt_view_def)
    then show ?thesis using True by auto
  next
    case False
    then have "match_codecs theMap PT (rtp # rtps) s = match_codecs theMap PT rtps s" by (auto simp: codec_key_def)
    then show ?thesis using "2.IH"(2) False "2.prems" by (auto simp: codec_key_def)
  qed
qed simp

lemma pt_view_steps:
  "pt_view (ps_sdp (line_profile l (line_direction l (line_mux l st)))) = pt_view (ps_sdp st)"
  "line_fingerprint l st = Some st' \<Longrightarrow> pt_view (ps_sdp st') = pt_view (ps_sdp st)"
  "line_group l st = Some st' \<Longrightarrow> pt_view (ps_sdp st') = pt_view (ps_sdp st)"
  "pt_view (ps_sdp (line_audio l (line_video l st))) = pt_view (ps_sdp st)"
  "line_candidate memory l st = Some st' \<Longrightarrow> pt_view (ps_sdp st') = pt_view (ps_sdp st)"
  "line_crypto l st = Some st' \<Longrightarrow> pt_view (ps_sdp st') = pt_view (ps_sdp st)"
  "line_ufrag l st = Some st' \<Longrightarrow> pt_view (ps_sdp st') = pt_view (ps_sdp st)"
  "line_pwd l st = Some st' \<Longrightarrow> pt_view (ps_sdp st') = pt_view (ps_sdp st)"
  "line_mid l st = Some st' \<Longrightarrow> pt_view (ps_sdp st') = pt_view (ps_sdp st)"
  "line_ssrc l st = Some st' \<Longrightarrow> pt_view (ps_sdp st') = pt_view (ps_sdp st)"
  "pt_view (ps_sdp (line_ssrc_group l st)) = pt_view (ps_sdp st)"
  "pt_view (ps_sdp (line_bandwidth l (line_fmtp l (line_feedback l st)))) = pt_view (ps_sdp st)"
  by (auto simp: line_profile_def line_direction_def line_mux_def set_direction_def line_fingerprint_def line_group_def line_audio_def
      line_video_def line_candidate_def line_crypto_def line_ufrag_def line_pwd_def line_mid_def line_ssrc_def line_ssrc_group_def
      line_bandwidth_def line_fmtp_def line_feedback_def on_sdp_def pt_view_def addCrypto_def Let_def case_prod_unfold
      split: Option.bind_splits if_splits list.splits option.splits)

text \<open>A line announces \<open>e\<close> for the codec that the server numbers \<open>i\<close>.\<close>

definition announces :: "RtpMap list \<Rightarrow> string \<Rightarrow> int \<Rightarrow> int \<Rightarrow> bool" where
  "announces codecs l i e \<longleftrightarrow> e = sint (rtpmap_pt l) \<and>
     list_ex (\<lambda>rtp. codec_key rtp = rtpmap_key l \<and> sint (rm_payloadType rtp) = i) codecs"

lemma rtpmap_step:
  assumes "line_rtpmap l st = Some st'" "distinct (map codec_key (internalPayloadVector (ps_sdp st)))"
  shows "pt_view (ps_sdp st') = pt_view (ps_sdp st) \<or>
    contains ''a=rtpmap:'' l \<and> (\<exists>i. announces (internalPayloadVector (ps_sdp st)) l i (sint (rtpmap_pt l)) \<and>
      pt_view (ps_sdp st') = (pt_set i (sint (rtpmap_pt l)) (inOutPTMap (ps_sdp st)), pt_set (sint (rtpmap_pt l)) i (outInPTMap (ps_sdp st)),
        internalPayloadVector (ps_sdp st)))"
proof (cases "contains ''a=rtpmap:'' l")
  case True
  let ?parts = "splitOneOf l rtpmap_delims 4" and ?s = "ps_sdp st"
  let ?m = "\<lparr>rm_payloadType = rtpmap_pt l, rm_encodingName = ?parts ! 2, rm_clockRate = to_uint (?parts ! 3), rm_mediaType = ps_mtype st,
                      rm_channels = 0, rm_feedbackTypes = [], rm_formatParameters = []\<rparr>"
  let ?r = "match_codecs ?m (rtpmap_pt l) (internalPayloadVector ?s) ?s"
  have "pt_view (ps_sdp st') = pt_view (fst ?r)"
    using assms(1) True
    by (auto simp: line_rtpmap_def piece_def rtpmap_pt_def pt_view_def Let_def case_prod_unfold split: Option.bind_splits if_splits option.splits)
  moreover have "codec_key ?m = rtpmap_key l" by (simp add: codec_key_def rtpmap_key_def)
  ultimately show ?thesis
    using match_codecs_one [OF assms(2), of ?m "rtpmap_pt l" ?s] True by (auto simp: announces_def list_ex_iff)
next
  case False
  then show ?thesis using assms(1) by (simp add: line_rtpmap_def)
qed

lemma process_line_pt:
  assumes "process_line memory l st = Some st'" "distinct (map codec_key (internalPayloadVector (ps_sdp st)))"
  shows "pt_view (ps_sdp st') = pt_view (ps_sdp st) \<or>
    contains ''a=rtpmap:'' l \<and> (\<exists>i. announces (internalPayloadVector (ps_sdp st)) l i (sint (rtpmap_pt l)) \<and>
      pt_view (ps_sdp st') = (pt_set i (sint (rtpmap_pt l)) (inOutPTMap (ps_sdp st)), pt_set (sint (rtpmap_pt l)) i (outInPTMap (ps_sdp st)),
        internalPayloadVector (ps_sdp st)))"
proof -
  let ?st0 = "line_profile l (line_direction l (line_mux l st))"
  obtain s1 s2 s3 s4 s5 s6 s7 s8 s9 where s: "line_fingerprint l ?st0 = Some s1" "line_group l s1 = Some s2"
      "line_candidate memory l (line_audio l (line_video l s2)) = Some s3" "line_crypto l s3 = Some s4" "line_ufrag l s4 = Some s5"
      "line_pwd l s5 = Some s6" "line_mid l s6 = Some s7" "line_ssrc l s7 = Some s8" "line_rtpmap l (line_ssrc_group l s8) = Some s9"
      "st' = line_bandwidth l (line_fmtp l (line_feedback l s9))"
    using assms(1) unfolding process_line_def Let_def by (auto split: Option.bind_splits)
  have same: "pt_view (ps_sdp (line_ssrc_group l s8)) = pt_view (ps_sdp st)"
    using pt_view_steps(2) [OF s(1)] pt_view_steps(3) [OF s(2)] pt_view_steps(5) [OF s(3)] pt_view_steps(6) [OF s(4)]
      pt_view_steps(7) [OF s(5)] pt_view_steps(8) [OF s(6)] pt_view_steps(9) [OF s(7)] pt_view_steps(10) [OF s(8)]
    by (simp add: pt_view_steps(1,4,11))
  then have members: "inOutPTMap (ps_sdp (line_ssrc_group l s8)) = inOutPTMap (ps_sdp st)"
      "outInPTMap (ps_sdp (line_ssrc_group l s8)) = outInPTMap (ps_sdp st)"
      "internalPayloadVector (ps_sdp (line_ssrc_group l s8)) = internalPayloadVector (ps_sdp st)" by (simp_all add: pt_view_def)
  show ?thesis
    using rtpmap_step [OF s(9)] assms(2) by (simp add: members same s(10) pt_view_steps(12))
qed

text \<open>The two maps are inverse to each other on the payload types of the server.\<close>

definition pt_inverse :: "string list \<Rightarrow> SdpInfo \<Rightarrow> bool" where
  "pt_inverse ls s \<longleftrightarrow> sm_sorted (<) (inOutPTMap s) \<and> sm_sorted (<) (outInPTMap s) \<and>
     (\<forall>i e. pt_find i (inOutPTMap s) = Some e \<longrightarrow> pt_find e (outInPTMap s) = Some i \<and>
        (\<exists>l\<in>set (rtpmap_lines ls). announces (internalPayloadVector s) l i e))"

lemma sint_eq: "sint (a :: u32) = sint b \<longleftrightarrow> a = b"
  by (rule word_eq_iff_signed [symmetric])

lemma process_lines_pt:
  assumes "process_lines memory ls st = Some st'" "pt_inverse done (ps_sdp st)"
    and "distinct (map codec_key (internalPayloadVector (ps_sdp st)))" "distinct (map rtpmap_pt (rtpmap_lines (done @ ls)))"
  shows "pt_inverse (done @ ls) (ps_sdp st') \<and> internalPayloadVector (ps_sdp st') = internalPayloadVector (ps_sdp st)"
  using assms
proof (induction ls arbitrary: st "done")
  case (Cons l ls)
  let ?s = "ps_sdp st" and ?e = "sint (rtpmap_pt l)"
  obtain st1 where st1: "process_line memory l st = Some st1" "process_lines memory ls st1 = Some st'"
    using Cons.prems(1) by (auto split: Option.bind_splits)
  have "pt_inverse (done @ [l]) (ps_sdp st1) \<and> internalPayloadVector (ps_sdp st1) = internalPayloadVector ?s"
    using process_line_pt [OF st1(1) Cons.prems(3)]
  proof (elim disjE conjE exE)
    assume "pt_view (ps_sdp st1) = pt_view ?s"
    then show ?thesis using Cons.prems(2) by (auto simp: pt_inverse_def pt_view_def rtpmap_lines_def)
  next
    fix i
    assume c: "contains ''a=rtpmap:'' l" and a: "announces (internalPayloadVector ?s) l i ?e"
      and v: "pt_view (ps_sdp st1) = (pt_set i ?e (inOutPTMap ?s), pt_set ?e i (outInPTMap ?s), internalPayloadVector ?s)"
    have new: "e \<noteq> ?e" if j: "pt_find j (inOutPTMap ?s) = Some e" for j e
    proof -
      obtain k where "k \<in> set (rtpmap_lines done)" "e = sint (rtpmap_pt k)" using Cons.prems(2) j unfolding pt_inverse_def announces_def by blast
      moreover have "rtpmap_pt l \<notin> rtpmap_pt ` set (rtpmap_lines done)" using Cons.prems(4) c by (auto simp: rtpmap_lines_def)
      ultimately show ?thesis by (metis image_eqI sint_eq)
    qed
    show ?thesis
      using Cons.prems(2) v a c new
      by (auto simp: pt_inverse_def pt_view_def intk.sorted_set intk.find_set rtpmap_lines_def)
  qed
  then show ?case using Cons.IH [OF st1(2), of "done @ [l]"] Cons.prems(3,4) by simp
qed simp

lemma new_pt:
  "inOutPTMap (SdpInfo_new mem red) = []" "outInPTMap (SdpInfo_new mem red) = []"
  "distinct (map codec_key (internalPayloadVector (SdpInfo_new mem red)))"
proof -
  show "inOutPTMap (SdpInfo_new mem red) = []" "outInPTMap (SdpInfo_new mem red) = []"
    by (simp_all add: SdpInfo_new_def InitializeRtpMap_def)
  show "distinct (map codec_key (internalPayloadVector (SdpInfo_new mem red)))"
    by (cases "video_encoding mem"; cases red) (simp_all add: SdpInfo_new_def InitializeRtpMap_def codec_key_def codec_def)
qed

lemma feedback_pt: "fill_feedback ls s = Some r \<Longrightarrow> pt_view r = pt_view s"
  by (induction ls arbitrary: s) (force simp: pt_view_def Let_def split: Option.bind_splits)+

lemma processSdp_pt:
  assumes "processSdp memory text media s = Some (r, ok)" "inOutPTMap s = []" "outInPTMap s = []"
    and "distinct (map codec_key (internalPayloadVector s))" "distinct (map rtpmap_pt (rtpmap_lines (getlines text)))"
  shows "pt_inverse (getlines text) r \<and> internalPayloadVector r = internalPayloadVector s"
proof -
  let ?st = "\<lparr>ps_sdp = s, ps_mlineNum = -1, ps_mtype = start_type media, ps_feedback = []\<rparr>"
  obtain st where st: "process_lines memory (getlines text) ?st = Some st" using assms(1) by (auto simp: processSdp_def split: Option.bind_splits)
  have "pt_inverse [] s" using assms(2,3) by (simp add: pt_inverse_def sm_sorted_def)
  then have inv: "pt_inverse (getlines text) (ps_sdp st)" "internalPayloadVector (ps_sdp st) = internalPayloadVector s"
    using process_lines_pt [OF st, of "[]"] assms(4,5) by simp_all
  have "pt_view r = pt_view (ps_sdp st)"
    using assms(1) st
    by (auto simp: processSdp_def fill_credentials_def split: Option.bind_splits option.splits if_splits dest!: feedback_pt)
      (auto simp: pt_view_def fill_candidates_def)
  then show ?thesis using inv by (simp add: pt_inverse_def pt_view_def)
qed


definition example_memory :: SdpInfo where
  "example_memory = \<lparr>candidateVector = [], cryptoVector = [], internalPayloadVector = [], iceVideoUsername = [], iceAudioUsername = [],
      iceVideoPassword = [], iceAudioPassword = [], audioSsrc = 0, videoSsrc = 0, videoRtxSsrc = 0, extended_video_ssrc = [],
      isBundle = False, hasAudio = False, hasVideo = False, isRtcpMux = False, isExtMapEnabled = False,
      isRedFecEnabled = False, videoDirection = SENDRECV, audioDirection = SENDRECV,
      profile = SAVPF, isFingerprint = False, fingerprint = [], sdp_setup = [], inOutPTMap = [], outInPTMap = [], payloadVector = [],
      bundleTags = [], videoSdpMLine = -1, audioSdpMLine = -1, videoCodecs = 0, audioCodecs = 0, videoBandwidth = 0,
      target_bandwidth = 0, min_bitrate = 0, video_encoding = VP8, inOut_payload = [], outIn_payload = []\<rparr>"

definition example_offer :: string where
  "example_offer = ''m=video'' @ [CHR 0x0A] @ ''a=ice-ufrag:u'' @ [CHR 0x0A] @ ''a=rtpmap:96 VP8/90000'' @ [CHR 0x0A] @ ''a=rtcp-fb:96 nack'' @ [CHR 0x0A]"

lemma example_offer_lines: "getlines example_offer = [''m=video'', ''a=ice-ufrag:u'', ''a=rtpmap:96 VP8/90000'', ''a=rtcp-fb:96 nack'']"
  by code_simp

lemmas line_steps = process_line_def line_mux_def line_direction_def line_profile_def line_fingerprint_def line_group_def line_video_def line_audio_def
  line_candidate_def line_crypto_def line_ufrag_def line_pwd_def line_mid_def line_ssrc_def line_ssrc_group_def line_rtpmap_def
  line_feedback_def line_fmtp_def line_bandwidth_def contains.simps on_sdp_def

lemma example_offer_pieces:
  "attribute_value ''a=ice-ufrag:u'' = Some [''u'']"
  "splitOneOf ''a=rtpmap:96 VP8/90000'' rtpmap_delims 4 = [''a=rtpmap'', ''96'', ''VP8'', ''90000'']"
  "splitOneOf ''a=rtcp-fb:96 nack'' '' :'' 2 = [''a=rtcp-fb'', ''96'', ''nack'']"
proof -
  have "splitOneOf ''a=ice-ufrag:u'' '':'' 1 = [''a=ice-ufrag'', ''u'']" "splitOneOf ''u'' [CHR 0x0D] 1 = [''u'']"
    using splitOneOf_joined [of "[(''a=ice-ufrag'', CHR '':'')]" "'':''" 1 "''u''"] splitOneOf_joined [of "[]" "[CHR 0x0D]" 1 "''u''"] by simp_all
  then show "attribute_value ''a=ice-ufrag:u'' = Some [''u'']" by (simp add: attribute_value_def piece_def)
  show "splitOneOf ''a=rtpmap:96 VP8/90000'' rtpmap_delims 4 = [''a=rtpmap'', ''96'', ''VP8'', ''90000'']"
    using splitOneOf_joined [of "[(''a=rtpmap'', CHR '':''), (''96'', CHR '' ''), (''VP8'', CHR ''/'')]" rtpmap_delims 4 "''90000''"]
    by (simp add: rtpmap_delims_def)
  show "splitOneOf ''a=rtcp-fb:96 nack'' '' :'' 2 = [''a=rtcp-fb'', ''96'', ''nack'']"
    using splitOneOf_joined [of "[(''a=rtcp-fb'', CHR '':''), (''96'', CHR '' '')]" "'' :''" 2 "''nack''"] by simp
qed

lemma example_offer_numbers: "to_uint ''96'' = 96" "to_uint ''90000'' = 90000"
  by (simp_all add: to_uint_def strtoul_def digits_value_def isspace_def isdigit_def Let_def)

text \<open>The feedback of a codec whose payload type is not that of the server is lost.\<close>

lemma example_offer_read:
  "\<exists>r. processSdp example_candidate example_offer [] (SdpInfo_new example_memory False) = Some (r, True) \<and> inOutPTMap r = [(100, 96)] \<and>
     map (\<lambda>rtp. (rm_payloadType rtp, rm_feedbackTypes rtp)) (payloadVector r) = [(100, [])]"
proof -
  define s where "s = SdpInfo_new example_memory False"
  let ?st = "\<lparr>ps_sdp = s, ps_mlineNum = -1, ps_mtype = OTHER, ps_feedback = []\<rparr>"
  let ?s1 = "s\<lparr>videoSdpMLine := 0, hasVideo := True\<rparr>"
  let ?s2 = "?s1\<lparr>iceVideoUsername := ''u''\<rparr>"
  have new: "inOutPTMap s = []" "outInPTMap s = []" "payloadVector s = []" "videoCodecs s = 0"
    by (simp_all add: s_def SdpInfo_new_def InitializeRtpMap_def)
  let ?m = "\<lparr>rm_payloadType = 100, rm_encodingName = ''VP8'', rm_clockRate = 90000, rm_mediaType = VIDEO_TYPE, rm_channels = 1,
      rm_feedbackTypes = [], rm_formatParameters = []\<rparr>"
  let ?s3 = "?s2\<lparr>outInPTMap := [(96, 100)], inOutPTMap := [(100, 96)], videoCodecs := 1, payloadVector := [?m]\<rparr>"
  have 1: "process_line example_candidate ''m=video'' ?st = Some \<lparr>ps_sdp = ?s1, ps_mlineNum = 0, ps_mtype = VIDEO_TYPE, ps_feedback = []\<rparr>"
    by (simp add: line_steps)
  have 2: "process_line example_candidate ''a=ice-ufrag:u'' \<lparr>ps_sdp = ?s1, ps_mlineNum = 0, ps_mtype = VIDEO_TYPE, ps_feedback = []\<rparr> =
      Some \<lparr>ps_sdp = ?s2, ps_mlineNum = 0, ps_mtype = VIDEO_TYPE, ps_feedback = []\<rparr>"
    by (simp add: line_steps example_offer_pieces)
  have "match_codecs \<lparr>rm_payloadType = 96, rm_encodingName = ''VP8'', rm_clockRate = 90000, rm_mediaType = VIDEO_TYPE,
      rm_channels = 0, rm_feedbackTypes = [], rm_formatParameters = []\<rparr> 96 (internalPayloadVector s) ?s2 =
      (?s2\<lparr>outInPTMap := [(96, 100)], inOutPTMap := [(100, 96)]\<rparr>, Some ?m)"
    using new by (simp add: s_def SdpInfo_new_def InitializeRtpMap_def example_memory_def codec_def payload_types)
  then have 3: "process_line example_candidate ''a=rtpmap:96 VP8/90000'' \<lparr>ps_sdp = ?s2, ps_mlineNum = 0, ps_mtype = VIDEO_TYPE, ps_feedback = []\<rparr> =
      Some \<lparr>ps_sdp = ?s3, ps_mlineNum = 0, ps_mtype = VIDEO_TYPE, ps_feedback = []\<rparr>"
    using new by (simp add: line_steps example_offer_pieces example_offer_numbers piece_def Let_def)
  have 4: "process_line example_candidate ''a=rtcp-fb:96 nack'' \<lparr>ps_sdp = ?s3, ps_mlineNum = 0, ps_mtype = VIDEO_TYPE, ps_feedback = []\<rparr> =
      Some \<lparr>ps_sdp = ?s3, ps_mlineNum = 0, ps_mtype = VIDEO_TYPE, ps_feedback = [''a=rtcp-fb:96 nack'']\<rparr>"
    by (simp add: line_steps)
  show ?thesis
    unfolding processSdp_def example_offer_lines s_def [symmetric] start_type_def
    by (simp add: 1 2 3 4 fill_credentials_def fill_candidates_def example_offer_pieces example_offer_numbers piece_def del: process_line_def)
qed


end
