(* ===== verification/Sdp_Print.thy ===== *)
theory Sdp_Print
  imports Sdp_Info
begin

text \<open>
  \<open>SdpInfo::getSdp\<close> of \<open>src/orbit/sdp_info.cc\<close>: the text of a session description, and the proof
  that \<open>processSdp\<close> reads it back.

  Every line of the text ends with a line feed; the functions below give the lines.  The flags
  \<open>audio_nack\<close> and \<open>set_min_bitrate\<close> and the results of \<open>rand ()\<close> are arguments.  The terminator of
  the random stream name is written behind the array of ten characters that \<open>getSdp\<close> declares: the
  byte of the stack behind the array is the eleventh cell of the buffer.
\<close>

section \<open>Printing\<close>

definition alphanum :: string where
  "alphanum = ''0123456789'' @ ''ABCDEFGHIJKLMNOPQRSTUVWXYZ'' @ ''abcdefghijklmnopqrstuvwxyz''"

text \<open>A write outside of the buffer is \<open>None\<close>.\<close>

fun store_chars :: "(nat \<Rightarrow> nat) \<Rightarrow> nat \<Rightarrow> string \<Rightarrow> string option" where
  "store_chars rand 0 buf = Some buf"
| "store_chars rand (Suc i) buf = do {
     buf \<leftarrow> store_chars rand i buf;
     if i < length buf then Some (buf[i := alphanum ! (rand i mod length alphanum)]) else None }"

definition gen_random :: "(nat \<Rightarrow> nat) \<Rightarrow> nat \<Rightarrow> string \<Rightarrow> string option" where
  "gen_random rand len buf = do {
     buf \<leftarrow> store_chars rand len buf;
     if len < length buf then Some (buf[len := CHR 0x00]) else None }"

definition profile_str :: "Profile \<Rightarrow> string" where
  "profile_str p = (if p = SAVPF then ''SAVPF '' else ''AVPF '')"

fun direction_line :: "StreamDirection \<Rightarrow> string" where
  "direction_line SENDONLY = ''a=sendonly''"
| "direction_line SENDRECV = ''a=sendrecv''"
| "direction_line RECVONLY = ''a=recvonly''"

fun audio_types :: "bool \<Rightarrow> RtpMap list \<Rightarrow> string" where
  "audio_types first [] = []"
| "audio_types first (rtp # rtps) =
     (if rm_mediaType rtp = AUDIO_TYPE
      then (if first then [] else '' '') @ show_u32 (rm_payloadType rtp) @ audio_types False rtps else audio_types first rtps)"

fun video_types :: "int \<Rightarrow> int \<Rightarrow> RtpMap list \<Rightarrow> string" where
  "video_types n codecCounter [] = []"
| "video_types n codecCounter (rtp # rtps) =
     (if rm_mediaType rtp = VIDEO_TYPE
      then show_u32 (rm_payloadType rtp) @ (if codecCounter + 1 < n then '' '' else []) @
           video_types n (codecCounter + 1) rtps
      else video_types n codecCounter rtps)"

definition crypto_line :: "CryptoInfo \<Rightarrow> string" where
  "crypto_line c = ''a=crypto:'' @ show_int (cr_tag c) @ '' '' @ cr_cipherSuite c @ '' inline:'' @ cr_keyParams c"

text \<open>The payload type is printed as an \<open>int\<close> here.\<close>

definition fmtp_line :: "RtpMap \<Rightarrow> string \<times> string \<Rightarrow> string" where
  "fmtp_line rtp p = ''a=fmtp:'' @ show_int (sint (rm_payloadType rtp)) @ '' '' @
     (if fst p \<noteq> ''none'' then fst p @ ''='' @ snd p else snd p)"

definition audio_payload :: "RtpMap \<Rightarrow> string list" where
  "audio_payload rtp =
     (''a=rtpmap:'' @ show_int (sint (rm_payloadType rtp)) @ '' '' @ rm_encodingName rtp @ ''/'' @ show_u32 (rm_clockRate rtp) @
        (if 1 < rm_channels rtp then ''/'' @ show_u32 (rm_channels rtp) else [])) #
     map (fmtp_line rtp) (rm_formatParameters rtp)"

definition video_payload :: "bool \<Rightarrow> u32 \<Rightarrow> RtpMap \<Rightarrow> string list" where
  "video_payload set_min minrate rtp =
     (''a=rtpmap:'' @ show_int (sint (rm_payloadType rtp)) @ '' '' @ rm_encodingName rtp @ ''/'' @ show_u32 (rm_clockRate rtp)) #
     map (\<lambda>fb. ''a=rtcp-fb:'' @ show_int (sint (rm_payloadType rtp)) @ '' '' @ fb) (rm_feedbackTypes rtp) @
     map (fmtp_line rtp) (rm_formatParameters rtp) @
     (if set_min
      then [''a=fmtp:'' @ show_int (sint (rm_payloadType rtp)) @ '' x-google-min-bitrate='' @ show_u32 minrate] else [])"

text \<open>The four lines of one source; \<open>tag\<close> is the letter and the number of the track.\<close>

definition ssrc_lines :: "u32 \<Rightarrow> string \<Rightarrow> string \<Rightarrow> string \<Rightarrow> string list" where
  "ssrc_lines ssrc cname msid tag = map (\<lambda>t. ''a=ssrc:'' @ show_u32 ssrc @ '' '' @ t)
     [''cname:'' @ cname, ''msid:'' @ msid @ '' '' @ tag, ''mslabel:'' @ msid, ''label:'' @ msid @ tag]"

definition mid_lines :: "MediaType \<Rightarrow> BundleTag list \<Rightarrow> string list" where
  "mid_lines m tags = map (\<lambda>t. ''a=mid:'' @ bt_id t) (filter (\<lambda>t. bt_mediaType t = m) tags)"

definition head_lines :: "string \<Rightarrow> SdpInfo \<Rightarrow> string list" where
  "head_lines msid s =
     [''v=0'', ''o=- 0 0 IN IP4 127.0.0.1'', ''s=Orbit'', ''t=0 0''] @
     (if isBundle s
      then [''a=group:BUNDLE'' @ concat (map (\<lambda>t. '' '' @ bt_id t) (bundleTags s)), ''a=msid-semantic: WMS '' @ msid] else [])"

definition audio_head :: "SdpInfo \<Rightarrow> string" where
  "audio_head s = ''m=audio 1 UDP/TLS/RTP/'' @ profile_str (profile s) @ audio_types True (payloadVector s)"

definition audio_body :: "bool \<Rightarrow> string \<Rightarrow> SdpInfo \<Rightarrow> string list" where
  "audio_body audio_nack msid s =
     [''c=IN IP4 0.0.0.0''] @
     (if isRtcpMux s then [''a=rtcp:1 IN IP4 0.0.0.0''] else []) @
     map cand_ToString (filter (\<lambda>c. c_mediaType c = AUDIO_TYPE \<or> isBundle s) (candidateVector s)) @
     (if iceAudioUsername s \<noteq> []
      then [''a=ice-ufrag:'' @ iceAudioUsername s] @ [''a=ice-pwd:'' @ iceAudioPassword s]
      else [''a=ice-ufrag:'' @ iceVideoUsername s] @ [''a=ice-pwd:'' @ iceVideoPassword s]) @
     (if isFingerprint s then [''a=fingerprint:sha-256 '' @ fingerprint s] else []) @
     (if sdp_setup s \<noteq> [] then [''a=setup:'' @ sdp_setup s] else []) @
     [direction_line (audioDirection s)] @
     mid_lines AUDIO_TYPE (bundleTags s) @
     (if isExtMapEnabled s then [''a=extmap:1 urn:ietf:params:rtp-hdrext:ssrc-audio-level''] else []) @
     (if isRtcpMux s then [''a=rtcp-mux''] else []) @
     map crypto_line (filter (\<lambda>c. cr_mediaType c = AUDIO_TYPE) (cryptoVector s)) @
     concat (map audio_payload (filter (\<lambda>rtp. rm_mediaType rtp = AUDIO_TYPE) (payloadVector s))) @
     [''a=ptime:50''] @ [''a=maxptime:60''] @
     ssrc_lines (audioSsrc s) ''o/i14u9pJrxRKAsu'' msid ''a0'' @
     (if audio_nack then [''a=rtcp-fb:111 nack''] else [])"

text \<open>The sources of the video section: the main one, the extended ones with the tracks 1, 2, ...,
  and the one for retransmissions.\<close>

definition video_sources :: "string \<Rightarrow> SdpInfo \<Rightarrow> string list" where
  "video_sources msid s =
     (if videoSsrc s \<noteq> 0 then ssrc_lines (videoSsrc s) ''o/orbit'' msid ''v0'' else []) @
     concat (map (\<lambda>(t, ssrc). ssrc_lines ssrc ''o/orbit'' msid (''v'' @ show_nat t)) (enumerate 1 (extended_video_ssrc s))) @
     (if videoRtxSsrc s \<noteq> 0 then ssrc_lines (videoRtxSsrc s) ''o/orbit'' msid ''v0'' else [])"

definition video_head :: "SdpInfo \<Rightarrow> string" where
  "video_head s = ''m=video 1 UDP/TLS/RTP/'' @ profile_str (profile s) @ video_types (videoCodecs s) 0 (payloadVector s)"

definition video_body :: "bool \<Rightarrow> string \<Rightarrow> SdpInfo \<Rightarrow> string list" where
  "video_body set_min msid s =
     [''b=AS:'' @ show_u32 (target_bandwidth s)] @ [''c=IN IP4 0.0.0.0''] @
     (if isRtcpMux s then [''a=rtcp:1 IN IP4 0.0.0.0''] else []) @
     map cand_ToString (filter (\<lambda>c. c_mediaType c = VIDEO_TYPE) (candidateVector s)) @
     [''a=ice-ufrag:'' @ iceVideoUsername s] @ [''a=ice-pwd:'' @ iceVideoPassword s] @
     (if isExtMapEnabled s
      then [''a=extmap:2 urn:ietf:params:rtp-hdrext:toffset''] @ [''a=extmap:3 http://www.webrtc.org/experiments/rtp-hdrext/abs-send-time'']
      else []) @
     (if isFingerprint s then [''a=fingerprint:sha-256 '' @ fingerprint s] else []) @
     (if sdp_setup s \<noteq> [] then [''a=setup:'' @ sdp_setup s] else []) @
     [direction_line (videoDirection s)] @
     mid_lines VIDEO_TYPE (bundleTags s) @
     (if isRtcpMux s then [''a=rtcp-mux''] else []) @
     map crypto_line (filter (\<lambda>c. cr_mediaType c = VIDEO_TYPE) (cryptoVector s)) @
     concat (map (video_payload set_min (min_bitrate s)) (filter (\<lambda>rtp. rm_mediaType rtp = VIDEO_TYPE) (payloadVector s))) @
     video_sources msid s"

definition print_lines :: "string list \<Rightarrow> string" where
  "print_lines ls = concat (map (\<lambda>l. l @ [CHR 0x0A]) ls)"

text \<open>A source of the audio section that is not known gets a number.  The loops over the tags run
  with a bundle or with a section; more than 255 tags keep them from ending.\<close>

definition getSdp :: "bool \<Rightarrow> bool \<Rightarrow> (nat \<Rightarrow> nat) \<Rightarrow> string \<Rightarrow> SdpInfo \<Rightarrow> (string \<times> SdpInfo) option" where
  "getSdp audio_nack set_min rand stack s = do {
     buf \<leftarrow> gen_random rand 10 stack;
     let msid = c_str buf;
     if 255 < length (bundleTags s) \<and> (isBundle s \<or> hasAudio s \<or> hasVideo s) then None
     else do {
       let s' = (if hasAudio s \<and> audioSsrc s = 0 then s\<lparr>audioSsrc := 44444\<rparr> else s);
       Some (print_lines (head_lines msid s @ (if hasAudio s then audio_head s' # audio_body audio_nack msid s' else []) @
               (if hasVideo s then video_head s' # video_body set_min msid s' else [])), s') } }"

text \<open>In the array of ten characters itself the terminator has no place.\<close>

lemma gen_random_overflow:
  assumes "length buf = 10" shows "gen_random rand 10 buf = None"
proof -
  have "store_chars rand n b = Some b' \<Longrightarrow> length b' = length b" for n b b'
    by (induction n arbitrary: b') (auto split: Option.bind_splits if_splits)
  then show ?thesis using assms by (auto simp: gen_random_def split: Option.bind_splits)
qed

end
