(* ===== verification/Sdp_Roundtrip.thy ===== *)
theory Sdp_Roundtrip
  imports Sdp_Print
begin

text \<open>
  \<open>processSdp\<close> reads what \<open>getSdp\<close> prints (\<open>src/orbit/sdp_info.cc\<close>).  The effect of each printed
  line is stated once, and the effect of a section is the composition of those of its lines
  (\<open>reads\<close>).
\<close>

section \<open>Lines with one attribute\<close>

text \<open>All that \<open>processSdp\<close> searches in a line starts with \<open>a=\<close>, \<open>m=\<close> or \<open>b=\<close>, apart from the
  name of the profile.  In a line that has one of these only at its start, what is found is at the
  start.\<close>

definition key_char :: "char \<Rightarrow> bool" where
  "key_char c \<longleftrightarrow> c = CHR ''a'' \<or> c = CHR ''m'' \<or> c = CHR ''b''"

fun one_attr :: "string \<Rightarrow> bool" where
  "one_attr (c # d # s) \<longleftrightarrow> \<not> (key_char c \<and> d = CHR ''='') \<and> one_attr (d # s)"
| "one_attr _ \<longleftrightarrow> True"

fun starts :: "string \<Rightarrow> string \<Rightarrow> bool" where
  "starts [] s \<longleftrightarrow> True"
| "starts (c # p) [] \<longleftrightarrow> False"
| "starts (c # p) (d # s) \<longleftrightarrow> c = d \<and> starts p s"

lemma starts_take: "take (length p) s = p \<longleftrightarrow> starts p s"
  by (induction p s rule: starts.induct) auto

lemma contains_no_attr:
  assumes "one_attr s" "key_char x"
  shows "\<not> contains (x # CHR ''='' # p) s"
  using assms by (induction s rule: one_attr.induct) auto

lemma contains_head:
  assumes "one_attr (CHR ''='' # s)" "key_char x"
  shows "contains (x # CHR ''='' # p) (c # CHR ''='' # s) \<longleftrightarrow> x = c \<and> starts p s"
  using contains_no_attr [OF assms, of p] starts_take [of p s] by auto

declare contains.simps [simp del]

lemma one_attr_Cons: "\<not> key_char c \<Longrightarrow> one_attr (c # s) \<longleftrightarrow> one_attr s"
  by (cases s) auto

lemma one_attr_app:
  assumes "c \<noteq> CHR ''=''"
  shows "one_attr (u @ c # v) \<longleftrightarrow> one_attr u \<and> one_attr (c # v)"
  using assms
proof (induction u)
  case (Cons d u)
  then show ?case by (cases u; cases "key_char d") (auto simp: one_attr_Cons)
qed simp

lemma one_attr_plain: "CHR ''='' \<notin> set s \<Longrightarrow> one_attr s"
  by (induction s rule: one_attr.induct) auto

definition line_text :: "string \<Rightarrow> bool" where
  "line_text s \<longleftrightarrow> one_attr s \<and> CHR 0x0A \<notin> set s"

lemma line_textD [simp]: "line_text s \<Longrightarrow> one_attr s" "line_text s \<Longrightarrow> CHR 0x0A \<notin> set s"
  by (simp_all add: line_text_def)

lemmas attr_simps = contains_head one_attr_Cons one_attr_app key_char_def

lemma digits_one_attr: "\<forall>c\<in>set s. isdigit c \<Longrightarrow> one_attr s"
  by (rule one_attr_plain) (auto simp: isdigit_def)

lemma show_one_attr [simp]: "one_attr (show_nat n)" "one_attr (show_u32 w)" "one_attr (show_int i)"
proof -
  show *: "one_attr (show_nat n)" for n by (rule digits_one_attr [OF show_nat_digits])
  then show "one_attr (show_u32 w)" "one_attr (show_int i)" by (simp_all add: show_u32_def show_int_def one_attr_Cons key_char_def)
qed

lemma show_not_in: "\<not> isdigit c \<Longrightarrow> c \<notin> set (show_u32 w)" "\<not> isdigit c \<Longrightarrow> c \<noteq> CHR ''-'' \<Longrightarrow> c \<notin> set (show_int i)"
  using show_nat_digits by (auto simp: show_u32_def show_int_def)

lemma show_no_newline [simp]: "CHR 0x0A \<notin> set (show_u32 w)" "CHR 0x0A \<notin> set (show_int i)"
  by (simp_all add: show_not_in isdigit_def)

lemma show_Nil [simp]: "show_u32 w \<noteq> []" "show_int i \<noteq> []"
  by (simp_all add: show_u32_def show_int_def)

section \<open>The lines of a text\<close>

lemma splitOneOf_lines:
  assumes "\<forall>l\<in>set ls. CHR 0x0A \<notin> set l"
  shows "getlines (print_lines ls) = ls"
proof -
  have j: "print_lines ls = joined (map (\<lambda>l. (l, CHR 0x0A)) ls) []" by (induction ls) (auto simp: print_lines_def)
  have "split_loop [CHR 0x0A] 0 0 (print_lines ls) = (ls, [])"
    unfolding j using assms
    by (subst split_loop_joined) (auto simp: split_loop_stop comp_def)
  then show ?thesis by (simp add: getlines_def splitOneOf_def)
qed

lemma process_lines_append:
  "process_lines memory (xs @ ys) st = Option.bind (process_lines memory xs st) (process_lines memory ys)"
  by (induction xs arbitrary: st) (auto split: Option.bind_splits)

section \<open>The effect of lines\<close>

text \<open>A description without the codecs: what the lines about codecs change is left out.\<close>

definition core :: "SdpInfo \<Rightarrow> SdpInfo" where
  "core s = s\<lparr>payloadVector := [], inOutPTMap := [], outInPTMap := [], videoCodecs := 0, audioCodecs := 0\<rparr>"

definition in_section :: "MediaType \<Rightarrow> int \<Rightarrow> SdpInfo \<Rightarrow> parse_state \<Rightarrow> bool" where
  "in_section m n v st \<longleftrightarrow> ps_mtype st = m \<and> ps_mlineNum st = n \<and> core (ps_sdp st) = v \<and> profile v = SAVPF \<and>
     length (bundleTags v) \<le> 255 \<and> (\<forall>l\<in>set (ps_feedback st). 3 \<le> length (splitOneOf l '' :'' 2))"

text \<open>In a section for \<open>m\<close> the lines are read and have the effect \<open>f\<close>; they have no line feed.\<close>

definition reads :: "CandidateInfo \<Rightarrow> MediaType \<Rightarrow> string list \<Rightarrow> (SdpInfo \<Rightarrow> SdpInfo) \<Rightarrow> bool" where
  "reads memory m ls f \<longleftrightarrow> (\<forall>l\<in>set ls. CHR 0x0A \<notin> set l) \<and> (\<forall>n v st. in_section m n v st \<longrightarrow>
     (\<exists>st'. process_lines memory ls st = Some st' \<and> in_section m n (f v) st'))"

lemma readsD:
  assumes "reads memory m ls f" "in_section m n v st"
  obtains st' where "process_lines memory ls st = Some st'" "in_section m n (f v) st'"
  using assms unfolding reads_def by blast

lemma readsI:
  assumes "\<forall>l\<in>set ls. CHR 0x0A \<notin> set l"
    and "\<And>n v st. in_section m n v st \<Longrightarrow> \<exists>st'. process_lines memory ls st = Some st' \<and> in_section m n (f v) st'"
  shows "reads memory m ls f"
  using assms by (auto simp: reads_def)

lemma reads_Nil: "reads memory m [] (\<lambda>v. v)"
  by (simp add: reads_def)

lemma reads_append:
  assumes "reads memory m xs f" "reads memory m ys g"
  shows "reads memory m (xs @ ys) (\<lambda>v. g (f v))"
proof (rule readsI)
  show "\<forall>l\<in>set (xs @ ys). CHR 0x0A \<notin> set l" using assms by (auto simp: reads_def)
next
  fix n v st
  assume "in_section m n v st"
  then obtain st' where "process_lines memory xs st = Some st'" "in_section m n (f v) st'" using assms(1) by (auto elim: readsD)
  then show "\<exists>st'. process_lines memory (xs @ ys) st = Some st' \<and> in_section m n (g (f v)) st'"
    using assms(2) by (auto simp: process_lines_append reads_def)
qed

lemma reads_Cons: "reads memory m [x] f \<Longrightarrow> reads memory m xs g \<Longrightarrow> reads memory m (x # xs) (\<lambda>v. g (f v))"
  using reads_append [of memory m "[x]" f xs g] by simp

lemma reads_if:
  assumes "b \<Longrightarrow> reads memory m xs f" "\<not> b \<Longrightarrow> reads memory m ys g"
  shows "reads memory m (if b then xs else ys) (\<lambda>v. if b then f v else g v)"
  using assms by (cases b) simp_all

lemma reads_fold:
  assumes "\<And>x. x \<in> set xs \<Longrightarrow> reads memory m [l x] (f x)"
  shows "reads memory m (map l xs) (fold f xs)"
  using assms
proof (induction xs)
  case (Cons x xs)
  then show ?case using reads_Cons [of memory m "l x" "f x" "map l xs" "fold f xs"] by (simp add: comp_def)
qed (simp_all add: reads_Nil id_def)

lemma reads_same:
  assumes "\<And>l. l \<in> set ls \<Longrightarrow> reads memory m [l] (\<lambda>v. v)"
  shows "reads memory m ls (\<lambda>v. v)"
  using assms
proof (induction ls)
  case (Cons x xs)
  then show ?case using reads_Cons [of memory m x "\<lambda>v. v" xs "\<lambda>v. v"] by simp
qed (simp_all add: reads_Nil id_def)

lemma core_simps [simp]:
  "profile (core s) = profile s" "bundleTags (core s) = bundleTags s" "videoSsrc (core s) = videoSsrc s" "audioSsrc (core s) = audioSsrc s"
  "isBundle (core s) = isBundle s" "iceVideoUsername (core s) = iceVideoUsername s" "iceAudioUsername (core s) = iceAudioUsername s"
  "iceVideoPassword (core s) = iceVideoPassword s" "iceAudioPassword (core s) = iceAudioPassword s" "candidateVector (core s) = candidateVector s"
  "cryptoVector (core s) = cryptoVector s" "isRtcpMux (core s) = isRtcpMux s" "isFingerprint (core s) = isFingerprint s"
  "hasAudio (core s) = hasAudio s" "hasVideo (core s) = hasVideo s"
  by (simp_all add: core_def)

text \<open>A line with an effect on the description alone that the codecs do not influence.\<close>

lemma reads_line:
  assumes "\<And>st. ps_mtype st = m \<Longrightarrow> profile (ps_sdp st) = SAVPF \<Longrightarrow> length (bundleTags (ps_sdp st)) \<le> 255 \<Longrightarrow>
      process_line memory l st = Some (on_sdp f st)"
    and "\<And>s. core (f s) = f (core s)"
    and "\<And>v. profile (f v) = profile v" "\<And>v. length (bundleTags (f v)) = length (bundleTags v)"
    and "CHR 0x0A \<notin> set l"
  shows "reads memory m [l] f"
proof (rule readsI)
  show "\<forall>l\<in>set [l]. CHR 0x0A \<notin> set l" using assms by simp
next
  fix n v st
  assume st: "in_section m n v st"
  then have "process_line memory l st = Some (on_sdp f st)" by (intro assms(1)) (auto simp: in_section_def)
  moreover have "in_section m n (f v) (on_sdp f st)" using st assms(2-4) by (auto simp: in_section_def on_sdp_def)
  ultimately show "\<exists>st'. process_lines memory [l] st = Some st' \<and> in_section m n (f v) st'" by simp
qed

section \<open>The effect of each line\<close>

lemma line_profile_same: "profile (ps_sdp st) = SAVPF \<Longrightarrow> line_profile l st = st"
  by (simp add: line_profile_def on_sdp_def)

lemma key_chars [simp]: "key_char (CHR ''a'')" "key_char (CHR ''m'')" "key_char (CHR ''b'')"
  by (simp_all add: key_char_def)

lemmas line_defs = process_line_def line_mux_def line_direction_def line_fingerprint_def line_group_def line_video_def line_audio_def
  line_candidate_def line_crypto_def line_ufrag_def line_pwd_def line_mid_def line_ssrc_def line_ssrc_group_def line_rtpmap_def
  line_feedback_def line_fmtp_def line_bandwidth_def line_profile_same on_sdp_def Let_def

text \<open>Lines without any meaning for \<open>processSdp\<close>.\<close>

definition attributes :: "string list" where
  "attributes = [''rtcp-mux'', ''recvonly'', ''sendonly'', ''sendrecv'', ''fingerprint'', ''group:'', ''candidate:'', ''crypto:'', ''ice-ufrag'',
     ''ice-pwd'', ''mid'', ''ssrc'', ''ssrc-group'', ''rtpmap:'', ''rtcp-fb:'', ''fmtp:'']"

lemma process_noise:
  assumes "one_attr s" "\<not> key_char c \<or> c = CHR ''a'' \<and> (\<forall>p\<in>set attributes. \<not> starts p s)" "profile (ps_sdp st) = SAVPF"
  shows "process_line memory (c # CHR ''='' # s) st = Some st"
proof -
  have "one_attr (CHR ''='' # s)" using assms(1) by (simp add: one_attr_Cons key_char_def)
  note head = contains_head [OF this]
  have c: "c \<noteq> CHR ''m''" "c \<noteq> CHR ''b''" using assms(2) by (auto simp: key_char_def)
  show ?thesis
  proof (cases "c = CHR ''a''")
    case True
    then show ?thesis using assms(2,3) c by (simp add: line_defs head attributes_def)
  next
    case False
    then show ?thesis using assms(3) c by (simp add: line_defs head)
  qed
qed

lemma reads_noise:
  assumes "one_attr s" "CHR 0x0A \<notin> set s" "\<not> key_char c \<or> c = CHR ''a'' \<and> (\<forall>p\<in>set attributes. \<not> starts p s)" "c \<noteq> CHR 0x0A"
  shows "reads memory m [c # CHR ''='' # s] (\<lambda>v. v)"
  by (rule reads_line) (use assms in \<open>simp_all add: process_noise [OF assms(1,3)] on_sdp_def\<close>)

lemma reads_noise_lines:
  "reads memory m [''c=IN IP4 0.0.0.0''] (\<lambda>v. v)"
  "reads memory m [''a=rtcp:1 IN IP4 0.0.0.0''] (\<lambda>v. v)"
  "reads memory m [''a=ptime:50''] (\<lambda>v. v)"
  "reads memory m [''a=maxptime:60''] (\<lambda>v. v)"
  "reads memory m [''a=extmap:1 urn:ietf:params:rtp-hdrext:ssrc-audio-level''] (\<lambda>v. v)"
  "reads memory m [''a=extmap:2 urn:ietf:params:rtp-hdrext:toffset''] (\<lambda>v. v)"
  "reads memory m [''a=extmap:3 http://www.webrtc.org/experiments/rtp-hdrext/abs-send-time''] (\<lambda>v. v)"
  "line_text t \<Longrightarrow> reads memory m [''a=setup:'' @ t] (\<lambda>v. v)"
  by (simp_all add: reads_noise one_attr_Cons key_char_def attributes_def)

lemma reads_mux: "reads memory m [''a=rtcp-mux''] (isRtcpMux_update (\<lambda>_. True))"
  by (rule reads_line) (simp_all add: line_defs core_def attr_simps)

definition put_direction :: "MediaType \<Rightarrow> StreamDirection \<Rightarrow> SdpInfo \<Rightarrow> SdpInfo" where
  "put_direction m d s = (if m = AUDIO_TYPE then s\<lparr>audioDirection := d\<rparr> else s\<lparr>videoDirection := d\<rparr>)"

lemma reads_direction: "reads memory m [direction_line d] (put_direction m d)"
  by (cases d; (simp only: direction_line.simps)?; rule reads_line;
      simp add: line_defs core_def put_direction_def set_direction_def attr_simps)

subsection \<open>Credentials and fingerprint\<close>

definition clean :: "string \<Rightarrow> bool" where
  "clean w \<longleftrightarrow> w \<noteq> [] \<and> line_text w \<and> CHR 0x0D \<notin> set w"

lemma attribute_value_clean:
  assumes "clean w" "CHR '':'' \<notin> set k"
  shows "attribute_value (k @ CHR '':'' # w) = Some [w]"
proof -
  have "splitOneOf (k @ CHR '':'' # w) '':'' 1 = [k, w]"
    using splitOneOf_joined [of "[(k, CHR '':'')]" "'':''" 1 w] assms by (simp add: clean_def)
  moreover have "splitOneOf w [CHR 0x0D] 1 = [w]" using splitOneOf_joined [of "[]" "[CHR 0x0D]" 1 w] assms(1) by (auto simp: clean_def)
  ultimately show ?thesis by (simp add: attribute_value_def piece_def)
qed

lemma cleanD [simp]: "clean w \<Longrightarrow> one_attr w" "clean w \<Longrightarrow> CHR 0x0A \<notin> set w"
  by (simp_all add: clean_def)

definition put_ufrag :: "MediaType \<Rightarrow> string \<Rightarrow> SdpInfo \<Rightarrow> SdpInfo" where
  "put_ufrag m w s = (if m = AUDIO_TYPE then s\<lparr>iceAudioUsername := w\<rparr> else s\<lparr>iceVideoUsername := w\<rparr>)"

definition put_pwd :: "MediaType \<Rightarrow> string \<Rightarrow> SdpInfo \<Rightarrow> SdpInfo" where
  "put_pwd m w s = (if m = AUDIO_TYPE then s\<lparr>iceAudioPassword := w\<rparr> else s\<lparr>iceVideoPassword := w\<rparr>)"

lemma reads_ufrag: "clean w \<Longrightarrow> reads memory m [''a=ice-ufrag:'' @ w] (put_ufrag m w)"
  using attribute_value_clean [of w "''a=ice-ufrag''"]
  by (intro reads_line) (simp_all add: line_defs core_def put_ufrag_def attr_simps)

lemma reads_pwd: "clean w \<Longrightarrow> reads memory m [''a=ice-pwd:'' @ w] (put_pwd m w)"
  using attribute_value_clean [of w "''a=ice-pwd''"]
  by (intro reads_line) (simp_all add: line_defs core_def put_pwd_def attr_simps)

lemma reads_fingerprint:
  assumes "clean w" "CHR '' '' \<notin> set w"
  shows "reads memory m [''a=fingerprint:sha-256 '' @ w] (\<lambda>s. s\<lparr>fingerprint := w, isFingerprint := True\<rparr>)"
proof -
  have "splitOneOf (''a=fingerprint:sha-256 '' @ w) '':'' 1 = [''a=fingerprint'', ''sha-256 '' @ w]"
    using splitOneOf_joined [of "[(''a=fingerprint'', CHR '':'')]" "'':''" 1 "''sha-256 '' @ w"] by simp
  moreover have "splitOneOf (''sha-256 '' @ w) '' '' 0 = [''sha-256'', w]"
    using splitOneOf_joined [of "[(''sha-256'', CHR '' '')]" "'' ''" 0 w] assms by (auto simp: clean_def)
  ultimately show ?thesis
    using assms by (intro reads_line) (simp_all add: line_defs core_def attr_simps piece_def)
qed

subsection \<open>Tags, sources and bandwidth\<close>

definition mark :: "MediaType \<Rightarrow> string set \<Rightarrow> BundleTag list \<Rightarrow> BundleTag list" where
  "mark m ids tags = map (\<lambda>t. if bt_id t \<in> ids then t\<lparr>bt_mediaType := m\<rparr> else t) tags"

definition tag_text :: "string \<Rightarrow> bool" where
  "tag_text w \<longleftrightarrow> clean w \<and> set w \<inter> {CHR '' '', CHR '':''} = {}"

lemma reads_mid:
  assumes "tag_text w"
  shows "reads memory m [''a=mid:'' @ w] (\<lambda>s. s\<lparr>bundleTags := mark m {w} (bundleTags s)\<rparr>)"
proof -
  have "set w \<inter> set mid_delims = {}" using assms by (auto simp: tag_text_def clean_def mid_delims_def)
  then have "splitOneOf (''a=mid:'' @ w) mid_delims 4 = [''a=mid'', w]"
    using splitOneOf_joined [of "[(''a=mid'', CHR '':'')]" mid_delims 4 w] assms by (auto simp: tag_text_def clean_def mid_delims_def)
  then show ?thesis
    using assms by (intro reads_line) (simp_all add: line_defs core_def attr_simps tag_text_def tag_loop_def mark_def)
qed

lemma fold_mark:
  "fold (\<lambda>t s. s\<lparr>bundleTags := mark m {bt_id t} (bundleTags s)\<rparr>) ts s = s\<lparr>bundleTags := mark m (bt_id ` set ts) (bundleTags s)\<rparr>"
proof (induction ts arbitrary: s)
  case Nil
  then show ?case by (simp add: mark_def)
next
  case (Cons t ts)
  have "mark m (bt_id ` set ts) (mark m {bt_id t} tags) = mark m (bt_id ` set (t # ts)) tags" for tags by (auto simp: mark_def)
  then show ?case by (simp only: fold_simps Cons.IH) simp
qed

lemma reads_mids:
  assumes "\<forall>t\<in>set tags. tag_text (bt_id t)"
  shows "reads memory m (mid_lines m tags)
    (\<lambda>s. s\<lparr>bundleTags := mark m {bt_id t |t. t \<in> set tags \<and> bt_mediaType t = m} (bundleTags s)\<rparr>)"
proof -
  have "reads memory m (map (\<lambda>t. ''a=mid:'' @ bt_id t) (filter (\<lambda>t. bt_mediaType t = m) tags))
      (fold (\<lambda>t s. s\<lparr>bundleTags := mark m {bt_id t} (bundleTags s)\<rparr>) (filter (\<lambda>t. bt_mediaType t = m) tags))"
    by (rule reads_fold, rule reads_mid) (use assms in auto)
  moreover have "bt_id ` set (filter (\<lambda>t. bt_mediaType t = m) tags) = {bt_id t |t. t \<in> set tags \<and> bt_mediaType t = m}" by auto
  ultimately show ?thesis by (simp only: mid_lines_def fold_mark [THEN ext])
qed

definition put_ssrc :: "MediaType \<Rightarrow> u32 \<Rightarrow> SdpInfo \<Rightarrow> SdpInfo" where
  "put_ssrc m ssrc s = (if m = VIDEO_TYPE \<and> videoSsrc s = 0 then s\<lparr>videoSsrc := ssrc\<rparr>
     else if m = AUDIO_TYPE \<and> audioSsrc s = 0 then s\<lparr>audioSsrc := ssrc\<rparr> else s)"

lemma put_ssrc_twice: "put_ssrc m ssrc (put_ssrc m ssrc s) = put_ssrc m ssrc s"
  by (simp add: put_ssrc_def)

lemma reads_ssrc:
  assumes "one_attr w" "CHR 0x0A \<notin> set w" "w \<noteq> []"
  shows "reads memory m [''a=ssrc:'' @ show_u32 ssrc @ '' '' @ w] (put_ssrc m ssrc)"
proof -
  have "splitOneOf (''a=ssrc:'' @ show_u32 ssrc @ '' '' @ w) '' :'' 2 = [''a=ssrc'', show_u32 ssrc, w]"
    using splitOneOf_joined [of "[(''a=ssrc'', CHR '':''), (show_u32 ssrc, CHR '' '')]" "'' :''" 2 w] assms
    by (auto simp: show_not_in isdigit_def)
  then show ?thesis
    using assms by (intro reads_line) (simp_all add: line_defs core_def attr_simps piece_def to_uint_show put_ssrc_def)
qed

lemma reads_sources:
  assumes "line_text cname" "line_text msid" "line_text tag" "tag = [] \<or> hd tag \<noteq> CHR ''=''"
  shows "reads memory m (ssrc_lines ssrc cname msid tag) (put_ssrc m ssrc)"
proof -
  have "one_attr (msid @ tag)" using assms by (cases tag) (auto simp: one_attr_app)
  then have "reads memory m [''a=ssrc:'' @ show_u32 ssrc @ '' '' @ t] (put_ssrc m ssrc)"
    if "t \<in> {''cname:'' @ cname, ''msid:'' @ msid @ '' '' @ tag, ''mslabel:'' @ msid, ''label:'' @ msid @ tag}" for t
    using that assms by (intro reads_ssrc) (auto simp: attr_simps)
  then have "reads memory m (ssrc_lines ssrc cname msid tag) (fold (\<lambda>t. put_ssrc m ssrc)
      [''cname:'' @ cname, ''msid:'' @ msid @ '' '' @ tag, ''mslabel:'' @ msid, ''label:'' @ msid @ tag])"
    unfolding ssrc_lines_def by (intro reads_fold) (simp only: set_simps)
  then show ?thesis by (simp add: put_ssrc_twice comp_def)
qed

lemma reads_bandwidth:
  "reads memory VIDEO_TYPE [''b=AS:'' @ show_u32 w] (\<lambda>s. s\<lparr>videoBandwidth := w\<rparr>)"
proof -
  have "splitOneOf (''b=AS:'' @ show_u32 w) '':'' 2 = [''b=AS'', show_u32 w]"
    using splitOneOf_joined [of "[(''b=AS'', CHR '':'')]" "'':''" 2 "show_u32 w"] by (auto simp: show_not_in isdigit_def)
  then show ?thesis
    by (intro reads_line) (simp_all add: line_defs core_def attr_simps to_uint_show)
qed

subsection \<open>Candidates and keys\<close>

definition candidate_ok :: "CandidateInfo \<Rightarrow> bool" where
  "candidate_ok c \<longleftrightarrow> splittable c \<and> clean (c_foundation c) \<and> clean (c_hostAddress c) \<and> (relayed c \<longrightarrow> clean (c_rAddress c))"

abbreviation read_candidate :: "CandidateInfo \<Rightarrow> MediaType \<Rightarrow> CandidateInfo \<Rightarrow> CandidateInfo" where
  "read_candidate memory m c \<equiv> read_as c ((CandidateInfo_new memory)\<lparr>c_mediaType := m\<rparr>)"

lemma cand_ToString_text:
  assumes "candidate_ok c"
  obtains t where "cand_ToString c = ''a=candidate:'' @ t" "one_attr t" "CHR 0x0A \<notin> set t"
proof
  let ?t = "c_foundation c @ '' '' @ show_u32 (c_componentId c) @ '' '' @ c_netProtocol c @ '' '' @
     show_u32 (c_priority c) @ '' '' @ c_hostAddress c @ '' '' @ show_int (c_hostPort c) @ '' typ '' @ hostType_str (c_hostType c) @
     (if relayed c then '' raddr '' @ c_rAddress c @ '' rport '' @ show_int (c_rPort c) else []) @ '' generation 0''"
  show "cand_ToString c = ''a=candidate:'' @ ?t" by (simp add: cand_ToString_def relayed_def)
  have h: "one_attr (hostType_str (c_hostType c))" "CHR 0x0A \<notin> set (hostType_str (c_hostType c))"
    by (cases "c_hostType c"; simp add: key_char_def)+
  have p: "one_attr (c_netProtocol c)" "CHR 0x0A \<notin> set (c_netProtocol c)"
    using assms by (auto simp: candidate_ok_def splittable_def key_char_def)
  show "one_attr ?t"
    using assms h p by (cases "relayed c") (simp_all add: candidate_ok_def clean_def attr_simps)
  show "CHR 0x0A \<notin> set ?t"
    using assms h p by (cases "relayed c") (auto simp: candidate_ok_def clean_def show_not_in isdigit_def)
qed

lemma reads_candidate:
  assumes "candidate_ok c"
  shows "reads memory m [cand_ToString c] (\<lambda>s. s\<lparr>candidateVector := candidateVector s @ [read_candidate memory m c]\<rparr>)"
proof -
  obtain t where t: "cand_ToString c = ''a=candidate:'' @ t" "one_attr t" "CHR 0x0A \<notin> set t" using assms by (rule cand_ToString_text)
  have "splittable c" using assms by (simp add: candidate_ok_def)
  note c = candidate_line [OF this, unfolded t(1), simplified]
  show ?thesis
    unfolding t(1) using t(2,3) by (intro reads_line) (simp_all add: line_defs core_def attr_simps c)
qed

lemma fold_candidates:
  "fold (\<lambda>c s. s\<lparr>candidateVector := candidateVector s @ [g c]\<rparr>) cs s = s\<lparr>candidateVector := candidateVector s @ map g cs\<rparr>"
  by (induction cs arbitrary: s) simp_all

lemma reads_candidates:
  assumes "\<forall>c\<in>set cs. candidate_ok c"
  shows "reads memory m (map cand_ToString cs) (\<lambda>s. s\<lparr>candidateVector := candidateVector s @ map (read_candidate memory m) cs\<rparr>)"
  unfolding fold_candidates [symmetric] by (rule reads_fold, rule reads_candidate) (use assms in auto)

definition crypto_ok :: "CryptoInfo \<Rightarrow> bool" where
  "crypto_ok c \<longleftrightarrow> clean (cr_cipherSuite c) \<and> piece_text (cr_cipherSuite c) \<and> clean (cr_keyParams c) \<and> piece_text (cr_keyParams c)"

lemma reads_crypto:
  assumes "crypto_ok c" "cr_mediaType c = m"
  shows "reads memory m [crypto_line c] (\<lambda>s. s\<lparr>cryptoVector := cryptoVector s @ [c\<lparr>cr_tag := 0\<rparr>]\<rparr>)"
proof -
  have "splitOneOf (crypto_line c) '' :'' 0 = [''a=crypto'', show_int (cr_tag c), cr_cipherSuite c, ''inline'', cr_keyParams c]"
    using assms splitOneOf_joined [of "[(''a=crypto'', CHR '':''), (show_int (cr_tag c), CHR '' ''), (cr_cipherSuite c, CHR '' ''),
        (''inline'', CHR '':'')]" "'' :''" 0 "cr_keyParams c"]
    by (auto simp: crypto_line_def crypto_ok_def piece_text_def clean_def show_not_in isdigit_def)
  then show ?thesis
    using assms
    by (intro reads_line) (simp_all add: crypto_line_def line_defs core_def attr_simps piece_def crypto_ok_def addCrypto_def)
qed

lemma fold_cryptos:
  "fold (\<lambda>c s. s\<lparr>cryptoVector := cryptoVector s @ [g c]\<rparr>) cs s = s\<lparr>cryptoVector := cryptoVector s @ map g cs\<rparr>"
  by (induction cs arbitrary: s) simp_all

lemma reads_cryptos:
  assumes "\<forall>c\<in>set cs. crypto_ok c \<and> cr_mediaType c = m"
  shows "reads memory m (map crypto_line cs) (\<lambda>s. s\<lparr>cryptoVector := cryptoVector s @ map (cr_tag_update (\<lambda>_. 0)) cs\<rparr>)"
  unfolding fold_cryptos [symmetric] by (rule reads_fold, rule reads_crypto) (use assms in auto)

subsection \<open>Codecs\<close>

lemma reads_codec_line:
  assumes "\<And>st. ps_mtype st = m \<Longrightarrow> profile (ps_sdp st) = SAVPF \<Longrightarrow>
      \<exists>st'. process_line memory l st = Some st' \<and> ps_mtype st' = m \<and> ps_mlineNum st' = ps_mlineNum st \<and>
        core (ps_sdp st') = core (ps_sdp st) \<and> (ps_feedback st' = ps_feedback st \<or> ps_feedback st' = ps_feedback st @ [l] \<and>
        3 \<le> length (splitOneOf l '' :'' 2))"
    and "CHR 0x0A \<notin> set l"
  shows "reads memory m [l] (\<lambda>v. v)"
proof (rule readsI)
  show "\<forall>l\<in>set [l]. CHR 0x0A \<notin> set l" using assms by simp
next
  fix n v st
  assume st: "in_section m n v st"
  then have "ps_mtype st = m" "profile (ps_sdp st) = SAVPF" by (auto simp: in_section_def)
  from assms(1) [OF this] obtain st' where "process_line memory l st = Some st'" "ps_mtype st' = m" "ps_mlineNum st' = ps_mlineNum st"
      "core (ps_sdp st') = core (ps_sdp st)"
      "ps_feedback st' = ps_feedback st \<or> ps_feedback st' = ps_feedback st @ [l] \<and> 3 \<le> length (splitOneOf l '' :'' 2)" by blast
  then show "\<exists>st'. process_lines memory [l] st = Some st' \<and> in_section m n v st'" using st by (auto simp: in_section_def)
qed

lemma match_codecs_core: "core (fst (match_codecs theMap PT rtps s)) = core s"
proof (induction theMap PT rtps s rule: match_codecs.induct)
  case (2 theMap PT rtp rtps s)
  then show ?case by (auto simp: case_prod_unfold Let_def core_def)
qed simp

lemma core_codecs:
  "core (s\<lparr>videoCodecs := n, payloadVector := ps\<rparr>) = core s" "core (s\<lparr>audioCodecs := n, payloadVector := ps\<rparr>) = core s"
  by (simp_all add: core_def)

definition name_text :: "string \<Rightarrow> bool" where
  "name_text w \<longleftrightarrow> line_text w \<and> set w \<inter> set rtpmap_delims = {} \<and> CHR 0x0D \<notin> set w"

lemma reads_rtpmap:
  assumes "name_text name" "line_text r" "r = [] \<or> hd r = CHR ''/''"
  shows "reads memory m [''a=rtpmap:'' @ show_int pt @ '' '' @ name @ ''/'' @ show_u32 clock @ r] (\<lambda>v. v)"
proof (rule reads_codec_line)
  fix st :: parse_state
  let ?l = "''a=rtpmap:'' @ show_int pt @ '' '' @ name @ ''/'' @ show_u32 clock @ r"
  assume st: "ps_mtype st = m" "profile (ps_sdp st) = SAVPF"
  define tail where "tail = (if r = [] \<or> tl r = [] then [] else [tl r])"
  have name: "set name \<inter> set rtpmap_delims = {}" using assms(1) by (simp add: name_text_def)
  have digits: "set (show_int pt) \<inter> set rtpmap_delims = {}" "set (show_u32 clock) \<inter> set rtpmap_delims = {}"
    by (auto simp: rtpmap_delims_def show_not_in isdigit_def)
  let ?ps = "[(''a=rtpmap'', CHR '':''), (show_int pt, CHR '' ''), (name, CHR ''/'')]"
  have sep: "\<forall>(p, d)\<in>set ?ps. set p \<inter> set rtpmap_delims = {} \<and> d \<in> set rtpmap_delims"
    using name digits by (simp add: rtpmap_delims_def)
  have "splitOneOf ?l rtpmap_delims 4 = [''a=rtpmap'', show_int pt, name, show_u32 clock] @ tail"
  proof (cases "r = []")
    case True
    then show ?thesis using splitOneOf_joined [OF sep, of 4 "show_u32 clock"] digits by (simp add: tail_def)
  next
    case False
    then obtain t where r: "r = CHR ''/'' # t" using assms(3) by (cases r) auto
    have "split_loop rtpmap_delims 4 0 ?l = ([''a=rtpmap'', show_int pt, name, show_u32 clock], t)"
      using split_loop_joined [of "?ps @ [(show_u32 clock, CHR ''/'')]" rtpmap_delims 4 0 t] sep digits
      by (simp add: r rtpmap_delims_def split_loop_stop)
    then show ?thesis by (simp add: splitOneOf_def tail_def r)
  qed
  moreover have "one_attr (show_u32 clock @ r)" using assms(2,3) by (cases r) (auto simp: one_attr_app)
  ultimately show "\<exists>st'. process_line memory ?l st = Some st' \<and> ps_mtype st' = m \<and> ps_mlineNum st' = ps_mlineNum st \<and>
      core (ps_sdp st') = core (ps_sdp st) \<and> (ps_feedback st' = ps_feedback st \<or> ps_feedback st' = ps_feedback st @ [?l] \<and>
      3 \<le> length (splitOneOf ?l '' :'' 2))"
    using st assms(1)
    by (simp add: line_defs attr_simps name_text_def piece_def nth_append case_prod_unfold) (auto simp: match_codecs_core core_codecs split: option.split)
qed (use assms in \<open>auto simp: name_text_def\<close>)

lemma reads_fmtp:
  assumes "line_text w"
  shows "reads memory m [''a=fmtp:'' @ show_int pt @ '' '' @ w] (\<lambda>v. v)"
  by (rule reads_codec_line) (use assms in \<open>auto simp: line_defs attr_simps core_def\<close>)

lemma reads_feedback:
  assumes "line_text w" "w \<noteq> []"
  shows "reads memory m [''a=rtcp-fb:'' @ show_int pt @ '' '' @ w] (\<lambda>v. v)"
proof (rule reads_codec_line)
  fix st :: parse_state
  let ?l = "''a=rtcp-fb:'' @ show_int pt @ '' '' @ w"
  assume st: "ps_mtype st = m" "profile (ps_sdp st) = SAVPF"
  have "splitOneOf ?l '' :'' 2 = [''a=rtcp-fb'', show_int pt, w]"
    using splitOneOf_joined [of "[(''a=rtcp-fb'', CHR '':''), (show_int pt, CHR '' '')]" "'' :''" 2 w] assms(2)
    by (auto simp: show_not_in isdigit_def)
  then show "\<exists>st'. process_line memory ?l st = Some st' \<and> ps_mtype st' = m \<and> ps_mlineNum st' = ps_mlineNum st \<and>
      core (ps_sdp st') = core (ps_sdp st) \<and> (ps_feedback st' = ps_feedback st \<or> ps_feedback st' = ps_feedback st @ [?l] \<and>
      3 \<le> length (splitOneOf ?l '' :'' 2))"
    using st assms by (simp add: line_defs attr_simps)
qed (use assms in simp)

section \<open>Sections\<close>

definition payload_ok :: "RtpMap \<Rightarrow> bool" where
  "payload_ok rtp \<longleftrightarrow> name_text (rm_encodingName rtp) \<and> (\<forall>fb\<in>set (rm_feedbackTypes rtp). clean fb) \<and>
     (\<forall>p\<in>set (rm_formatParameters rtp). line_text (if fst p \<noteq> ''none'' then fst p @ ''='' @ snd p else snd p))"

lemma reads_parameters:
  assumes "payload_ok rtp"
  shows "reads memory m (map (fmtp_line rtp) (rm_formatParameters rtp)) (\<lambda>v. v)"
  by (rule reads_same) (use assms in \<open>auto simp: payload_ok_def fmtp_line_def simp del: append.simps append_Cons intro!: reads_fmtp\<close>)

lemma reads_audio_payload: "payload_ok rtp \<Longrightarrow> reads memory m (audio_payload rtp) (\<lambda>v. v)"
  unfolding audio_payload_def
  by (rule reads_Cons [OF reads_rtpmap reads_parameters]) (auto simp: payload_ok_def attr_simps line_text_def simp del: line_textD)

lemma reads_video_payload:
  assumes "payload_ok rtp"
  shows "reads memory m (video_payload set_min minrate rtp) (\<lambda>v. v)"
proof -
  have name: "name_text (rm_encodingName rtp)" using assms by (simp add: payload_ok_def)
  have empty: "line_text []" by (simp add: line_text_def del: line_textD)
  have fb: "reads memory m (map (\<lambda>fb. ''a=rtcp-fb:'' @ show_int (sint (rm_payloadType rtp)) @ '' '' @ fb) (rm_feedbackTypes rtp)) (\<lambda>v. v)"
    by (rule reads_same) (use assms in \<open>auto simp: payload_ok_def clean_def simp del: append.simps append_Cons intro!: reads_feedback\<close>)
  have "line_text (''x-google-min-bitrate='' @ show_u32 minrate)" by (simp add: line_text_def attr_simps del: line_textD)
  from reads_fmtp [OF this] have rate: "reads memory m
      (if set_min then [''a=fmtp:'' @ show_int (sint (rm_payloadType rtp)) @ '' x-google-min-bitrate='' @ show_u32 minrate] else []) (\<lambda>v. v)"
    by (simp add: reads_Nil)
  show ?thesis
    unfolding video_payload_def
    using reads_Cons [OF reads_rtpmap [OF name empty] reads_append [OF fb reads_append [OF reads_parameters [OF assms] rate]]] by simp
qed

lemma reads_concat:
  assumes "\<And>x. x \<in> set xs \<Longrightarrow> reads memory m (l x) (\<lambda>v. v)"
  shows "reads memory m (concat (map l xs)) (\<lambda>v. v)"
  using assms
proof (induction xs)
  case (Cons x xs)
  then show ?case using reads_append [of memory m "l x" "\<lambda>v. v" "concat (map l xs)" "\<lambda>v. v"] by simp
qed (simp add: reads_Nil)

lemma reads_cong: "reads memory m ls f \<Longrightarrow> (\<And>v. f v = g v) \<Longrightarrow> reads memory m ls g"
  by (simp add: reads_def)

lemma put_ssrc_keeps: "x \<noteq> 0 \<Longrightarrow> put_ssrc VIDEO_TYPE y (put_ssrc VIDEO_TYPE x v) = put_ssrc VIDEO_TYPE x v"
  by (simp add: put_ssrc_def)

lemma reads_video_sources:
  assumes "line_text msid" "videoSsrc s \<noteq> 0"
  shows "reads memory VIDEO_TYPE (video_sources msid s) (put_ssrc VIDEO_TYPE (videoSsrc s))"
proof -
  have t: "line_text ''o/orbit''" "line_text ''v0''" "line_text (''v'' @ show_nat n)" for n
    using show_nat_digits [of n] by (auto simp: line_text_def attr_simps isdigit_def simp del: line_textD)
  have src: "reads memory VIDEO_TYPE (ssrc_lines ssrc ''o/orbit'' msid (''v'' @ show_nat n)) (put_ssrc VIDEO_TYPE ssrc)"
      "reads memory VIDEO_TYPE (ssrc_lines ssrc ''o/orbit'' msid ''v0'') (put_ssrc VIDEO_TYPE ssrc)" for n ssrc
    using reads_sources [OF t(1) assms(1) t(3) [of n], of memory VIDEO_TYPE ssrc]
      reads_sources [OF t(1) assms(1) t(2), of memory VIDEO_TYPE ssrc] by simp_all
  have ext: "\<exists>f. reads memory VIDEO_TYPE (concat (map (\<lambda>(t, ssrc). ssrc_lines ssrc ''o/orbit'' msid (''v'' @ show_nat t)) xs)) f \<and>
      (\<forall>x v. x \<noteq> 0 \<longrightarrow> f (put_ssrc VIDEO_TYPE x v) = put_ssrc VIDEO_TYPE x v)" for xs
  proof (induction xs)
    case Nil
    then show ?case by (auto intro: reads_Nil)
  next
    case (Cons y ys)
    obtain f where f: "reads memory VIDEO_TYPE (concat (map (\<lambda>(t, ssrc). ssrc_lines ssrc ''o/orbit'' msid (''v'' @ show_nat t)) ys)) f"
        "\<forall>x v. x \<noteq> 0 \<longrightarrow> f (put_ssrc VIDEO_TYPE x v) = put_ssrc VIDEO_TYPE x v" using Cons by blast
    show ?case
      using reads_append [OF src(1) f(1), of "snd y" "fst y"] f(2) put_ssrc_keeps
      by (intro exI [of _ "\<lambda>v. f (put_ssrc VIDEO_TYPE (snd y) v)"]) (simp add: case_prod_unfold)
  qed
  then obtain f where f: "reads memory VIDEO_TYPE (concat (map (\<lambda>(t, ssrc). ssrc_lines ssrc ''o/orbit'' msid (''v'' @ show_nat t))
        (enumerate 1 (extended_video_ssrc s)))) f"
      "\<forall>x v. x \<noteq> 0 \<longrightarrow> f (put_ssrc VIDEO_TYPE x v) = put_ssrc VIDEO_TYPE x v" by blast
  have rtx: "reads memory VIDEO_TYPE (if videoRtxSsrc s \<noteq> 0 then ssrc_lines (videoRtxSsrc s) ''o/orbit'' msid ''v0'' else [])
      (\<lambda>v. if videoRtxSsrc s \<noteq> 0 then put_ssrc VIDEO_TYPE (videoRtxSsrc s) v else v)"
    by (rule reads_if [OF src(2) reads_Nil])
  show ?thesis
    unfolding video_sources_def if_P [OF assms(2)]
    by (rule reads_cong [OF reads_append [OF src(2) reads_append [OF f(1) rtx]]]) (use assms(2) f(2) put_ssrc_keeps in auto)
qed

text \<open>The conditions on a description whose text can be read.\<close>

definition describable :: "SdpInfo \<Rightarrow> bool" where
  "describable s \<longleftrightarrow>
     (hasAudio s \<or> hasVideo s) \<and>
     clean (iceAudioUsername s) \<and> clean (iceAudioPassword s) \<and> clean (iceVideoUsername s) \<and> clean (iceVideoPassword s) \<and>
     (isFingerprint s \<longrightarrow> clean (fingerprint s) \<and> CHR '' '' \<notin> set (fingerprint s)) \<and> line_text (sdp_setup s) \<and>
     (\<forall>c\<in>set (candidateVector s). candidate_ok c) \<and> (\<forall>c\<in>set (cryptoVector s). crypto_ok c) \<and>
     (\<forall>rtp\<in>set (payloadVector s). payload_ok rtp) \<and>
     length (bundleTags s) \<le> 9 \<and> distinct (map bt_id (bundleTags s)) \<and>
     (\<forall>t\<in>set (bundleTags s). tag_text (bt_id t) \<and>
        (bt_mediaType t = AUDIO_TYPE \<longrightarrow> hasAudio s) \<and> (bt_mediaType t = VIDEO_TYPE \<longrightarrow> hasVideo s)) \<and>
     (hasVideo s \<longrightarrow> videoSsrc s \<noteq> 0)"

definition fp_effect :: "SdpInfo \<Rightarrow> SdpInfo \<Rightarrow> SdpInfo" where
  "fp_effect s v = (if isFingerprint s then v\<lparr>fingerprint := fingerprint s, isFingerprint := True\<rparr> else v)"

definition audio_effect :: "CandidateInfo \<Rightarrow> SdpInfo \<Rightarrow> SdpInfo \<Rightarrow> SdpInfo" where
  "audio_effect memory s v = (fp_effect s v)\<lparr>
     candidateVector := candidateVector v @
       map (read_candidate memory AUDIO_TYPE) (filter (\<lambda>c. c_mediaType c = AUDIO_TYPE \<or> isBundle s) (candidateVector s)),
     iceAudioUsername := iceAudioUsername s, iceAudioPassword := iceAudioPassword s, audioDirection := audioDirection s,
     bundleTags := mark AUDIO_TYPE {bt_id t |t. t \<in> set (bundleTags s) \<and> bt_mediaType t = AUDIO_TYPE} (bundleTags v),
     isRtcpMux := (isRtcpMux s \<or> isRtcpMux v),
     cryptoVector := cryptoVector v @ map (cr_tag_update (\<lambda>_. 0)) (filter (\<lambda>c. cr_mediaType c = AUDIO_TYPE) (cryptoVector s)),
     audioSsrc := (if audioSsrc v = 0 then audioSsrc s else audioSsrc v)\<rparr>"

definition video_effect :: "CandidateInfo \<Rightarrow> SdpInfo \<Rightarrow> SdpInfo \<Rightarrow> SdpInfo" where
  "video_effect memory s v = (fp_effect s v)\<lparr>
     videoBandwidth := target_bandwidth s,
     candidateVector := candidateVector v @
       map (read_candidate memory VIDEO_TYPE) (filter (\<lambda>c. c_mediaType c = VIDEO_TYPE) (candidateVector s)),
     iceVideoUsername := iceVideoUsername s, iceVideoPassword := iceVideoPassword s, videoDirection := videoDirection s,
     bundleTags := mark VIDEO_TYPE {bt_id t |t. t \<in> set (bundleTags s) \<and> bt_mediaType t = VIDEO_TYPE} (bundleTags v),
     isRtcpMux := (isRtcpMux s \<or> isRtcpMux v),
     cryptoVector := cryptoVector v @ map (cr_tag_update (\<lambda>_. 0)) (filter (\<lambda>c. cr_mediaType c = VIDEO_TYPE) (cryptoVector s)),
     videoSsrc := (if videoSsrc v = 0 then videoSsrc s else videoSsrc v)\<rparr>"

lemma reads_optional: "(b \<Longrightarrow> reads memory m xs f) \<Longrightarrow> reads memory m (if b then xs else []) (\<lambda>v. if b then f v else v)"
  by (rule reads_if [OF _ reads_Nil])

lemma reads_skip: "(b \<Longrightarrow> reads memory m xs (\<lambda>v. v)) \<Longrightarrow> reads memory m (if b then xs else []) (\<lambda>v. v)"
  by (simp add: reads_Nil)

lemma reads_mux_if:
  "reads memory m (if b then [''a=rtcp-mux''] else []) (\<lambda>v. v\<lparr>isRtcpMux := (b \<or> isRtcpMux v)\<rparr>)"
  by (rule reads_cong [OF reads_optional [OF reads_mux]]) simp

lemma reads_fingerprint_if:
  assumes "isFingerprint s \<Longrightarrow> clean (fingerprint s)" "isFingerprint s \<Longrightarrow> CHR '' '' \<notin> set (fingerprint s)"
  shows "reads memory m (if isFingerprint s then [''a=fingerprint:sha-256 '' @ fingerprint s] else []) (fp_effect s)"
  by (rule reads_cong [OF reads_optional [OF reads_fingerprint]]) (use assms in \<open>auto simp: fp_effect_def\<close>)

lemmas reads_rules = reads_append reads_mux_if reads_fingerprint_if reads_noise_lines reads_direction reads_skip

lemma fp_effect_simps [simp]:
  "candidateVector (fp_effect s v) = candidateVector v" "bundleTags (fp_effect s v) = bundleTags v" "isRtcpMux (fp_effect s v) = isRtcpMux v"
  "cryptoVector (fp_effect s v) = cryptoVector v" "audioSsrc (fp_effect s v) = audioSsrc v" "videoSsrc (fp_effect s v) = videoSsrc v"
  by (simp_all add: fp_effect_def)

lemma reads_audio:
  assumes "describable s" "line_text msid"
  shows "reads memory AUDIO_TYPE (audio_body nack msid s) (audio_effect memory s)"
proof -
  have d: "iceAudioUsername s \<noteq> []" "clean (iceAudioUsername s)" "clean (iceAudioPassword s)"
      "isFingerprint s \<Longrightarrow> clean (fingerprint s)" "isFingerprint s \<Longrightarrow> CHR '' '' \<notin> set (fingerprint s)" "line_text (sdp_setup s)"
      "\<forall>t\<in>set (bundleTags s). tag_text (bt_id t)"
    using assms(1) by (auto simp: describable_def clean_def)
  have l: "line_text ''o/i14u9pJrxRKAsu''" "line_text ''a0''" "line_text ''nack''"
    by (simp_all add: line_text_def key_char_def del: line_textD)
  have cands: "\<forall>c\<in>set (filter (\<lambda>c. c_mediaType c = AUDIO_TYPE \<or> isBundle s) (candidateVector s)). candidate_ok c"
      "\<forall>c\<in>set (filter (\<lambda>c. cr_mediaType c = AUDIO_TYPE) (cryptoVector s)). crypto_ok c \<and> cr_mediaType c = AUDIO_TYPE"
    using assms(1) by (auto simp: describable_def)
  have payloads: "reads memory AUDIO_TYPE (concat (map audio_payload (filter (\<lambda>rtp. rm_mediaType rtp = AUDIO_TYPE) (payloadVector s)))) (\<lambda>v. v)"
    by (rule reads_concat, rule reads_audio_payload) (use assms(1) in \<open>auto simp: describable_def\<close>)
  have src: "reads memory AUDIO_TYPE (ssrc_lines (audioSsrc s) ''o/i14u9pJrxRKAsu'' msid ''a0'') (put_ssrc AUDIO_TYPE (audioSsrc s))"
    by (rule reads_sources [OF l(1) assms(2) l(2)]) simp
  have "show_int 111 = ''111''" by code_simp
  then have nack: "reads memory AUDIO_TYPE [''a=rtcp-fb:111 nack''] (\<lambda>v. v)"
    using reads_feedback [OF l(3), of memory AUDIO_TYPE 111] by simp
  show ?thesis
    unfolding audio_body_def if_P [OF d(1)]
    by (rule reads_cong, (assumption | rule reads_rules reads_candidates [OF cands(1)] reads_ufrag [OF d(2)] reads_pwd [OF d(3)]
        d reads_mids reads_cryptos [OF cands(2)] payloads src nack)+)
      (simp add: audio_effect_def fp_effect_def put_ufrag_def put_pwd_def put_direction_def put_ssrc_def)
qed

lemma reads_video:
  assumes "describable s" "line_text msid" "hasVideo s"
  shows "reads memory VIDEO_TYPE (video_body set_min msid s) (video_effect memory s)"
proof -
  have d: "clean (iceVideoUsername s)" "clean (iceVideoPassword s)"
      "isFingerprint s \<Longrightarrow> clean (fingerprint s)" "isFingerprint s \<Longrightarrow> CHR '' '' \<notin> set (fingerprint s)" "line_text (sdp_setup s)"
      "\<forall>t\<in>set (bundleTags s). tag_text (bt_id t)" and ssrc: "videoSsrc s \<noteq> 0"
    using assms by (auto simp: describable_def clean_def)
  have cands: "\<forall>c\<in>set (filter (\<lambda>c. c_mediaType c = VIDEO_TYPE) (candidateVector s)). candidate_ok c"
      "\<forall>c\<in>set (filter (\<lambda>c. cr_mediaType c = VIDEO_TYPE) (cryptoVector s)). crypto_ok c \<and> cr_mediaType c = VIDEO_TYPE"
    using assms(1) by (auto simp: describable_def)
  have payloads: "reads memory VIDEO_TYPE (concat (map (video_payload set_min (min_bitrate s))
      (filter (\<lambda>rtp. rm_mediaType rtp = VIDEO_TYPE) (payloadVector s)))) (\<lambda>v. v)"
    by (rule reads_concat, rule reads_video_payload) (use assms(1) in \<open>auto simp: describable_def\<close>)
  show ?thesis
    unfolding video_body_def
    by (rule reads_cong, (assumption | rule reads_rules reads_candidates [OF cands(1)] reads_ufrag [OF d(1)] reads_pwd [OF d(2)]
        d reads_mids reads_cryptos [OF cands(2)] payloads reads_bandwidth
        reads_video_sources [OF assms(2) ssrc])+)
      (simp add: video_effect_def fp_effect_def put_ufrag_def put_pwd_def put_direction_def put_ssrc_def)
qed

subsection \<open>From section to section\<close>

text \<open>The lines lead from every state of the first section to one of the second.\<close>

definition leads :: "CandidateInfo \<Rightarrow> string list \<Rightarrow> MediaType \<Rightarrow> int \<Rightarrow> SdpInfo \<Rightarrow> MediaType \<Rightarrow> int \<Rightarrow> SdpInfo \<Rightarrow> bool" where
  "leads memory ls m n v m' n' v' \<longleftrightarrow> (\<forall>l\<in>set ls. CHR 0x0A \<notin> set l) \<and> (\<forall>st. in_section m n v st \<longrightarrow>
     (\<exists>st'. process_lines memory ls st = Some st' \<and> in_section m' n' v' st'))"

lemma leads_reads: "reads memory m ls f \<Longrightarrow> leads memory ls m n v m n (f v)"
  by (auto simp: reads_def leads_def)

lemma leads_append:
  assumes "leads memory xs m n v m1 n1 v1" "leads memory ys m1 n1 v1 m2 n2 v2"
  shows "leads memory (xs @ ys) m n v m2 n2 v2"
  unfolding leads_def
proof (intro conjI allI impI)
  show "\<forall>l\<in>set (xs @ ys). CHR 0x0A \<notin> set l" using assms by (auto simp: leads_def)
  fix st
  assume "in_section m n v st"
  then obtain st1 where "process_lines memory xs st = Some st1" "in_section m1 n1 v1 st1" using assms(1) by (auto simp: leads_def)
  then show "\<exists>st'. process_lines memory (xs @ ys) st = Some st' \<and> in_section m2 n2 v2 st'"
    using assms(2) by (auto simp: process_lines_append leads_def)
qed

lemma types_text: "one_attr (audio_types first rtps)" "CHR 0x0A \<notin> set (audio_types first rtps)"
    "one_attr (video_types k i rtps)" "CHR 0x0A \<notin> set (video_types k i rtps)"
proof -
  have a: "set (audio_types first rtps) \<subseteq> {c. isdigit c} \<union> {CHR '' ''}" for first
    by (induction first rtps rule: audio_types.induct) (use show_nat_digits in \<open>auto simp: show_u32_def\<close>)
  have v: "set (video_types k i rtps) \<subseteq> {c. isdigit c} \<union> {CHR '' ''}"
    by (induction k i rtps rule: video_types.induct) (use show_nat_digits in \<open>auto simp: show_u32_def\<close>)
  show "CHR 0x0A \<notin> set (audio_types first rtps)" "CHR 0x0A \<notin> set (video_types k i rtps)"
    using a [of first] v by (auto simp: isdigit_def)
  show "one_attr (audio_types first rtps)" "one_attr (video_types k i rtps)"
    using a [of first] v by (auto simp: isdigit_def intro!: one_attr_plain)
qed

lemma leads_audio_head:
  "leads memory [audio_head s] m n v AUDIO_TYPE (n + 1) (v\<lparr>audioSdpMLine := n + 1, hasAudio := True\<rparr>)"
  unfolding leads_def
proof (intro conjI allI impI)
  show "\<forall>l\<in>set [audio_head s]. CHR 0x0A \<notin> set l" by (simp add: audio_head_def profile_str_def types_text)
  fix st
  assume st: "in_section m n v st"
  have "process_line memory (audio_head s) st =
      Some (on_sdp (\<lambda>s. s\<lparr>audioSdpMLine := n + 1, hasAudio := True\<rparr>) (st\<lparr>ps_mlineNum := n + 1, ps_mtype := AUDIO_TYPE\<rparr>))"
    using st by (auto simp: audio_head_def profile_str_def line_defs attr_simps types_text in_section_def)
  then show "\<exists>st'. process_lines memory [audio_head s] st = Some st' \<and>
      in_section AUDIO_TYPE (n + 1) (v\<lparr>audioSdpMLine := n + 1, hasAudio := True\<rparr>) st'"
    using st by (auto simp: in_section_def on_sdp_def core_def)
qed

lemma leads_video_head:
  "leads memory [video_head s] m n v VIDEO_TYPE (n + 1) (v\<lparr>videoSdpMLine := n + 1, hasVideo := True\<rparr>)"
  unfolding leads_def
proof (intro conjI allI impI)
  show "\<forall>l\<in>set [video_head s]. CHR 0x0A \<notin> set l" by (simp add: video_head_def profile_str_def types_text)
  fix st
  assume st: "in_section m n v st"
  have "process_line memory (video_head s) st =
      Some (on_sdp (\<lambda>s. s\<lparr>videoSdpMLine := n + 1, hasVideo := True\<rparr>) (st\<lparr>ps_mlineNum := n + 1, ps_mtype := VIDEO_TYPE\<rparr>))"
    using st by (auto simp: video_head_def profile_str_def line_defs attr_simps types_text in_section_def)
  then show "\<exists>st'. process_lines memory [video_head s] st = Some st' \<and>
      in_section VIDEO_TYPE (n + 1) (v\<lparr>videoSdpMLine := n + 1, hasVideo := True\<rparr>) st'"
    using st by (auto simp: in_section_def on_sdp_def core_def)
qed

subsection \<open>The first lines\<close>

lemma joined_words:
  "w @ concat (map (\<lambda>x. '' '' @ x) xs) = joined (map (\<lambda>x. (x, CHR '' '')) (butlast (w # xs))) (last (w # xs))"
  by (induction xs arbitrary: w) auto

lemma group_pieces:
  assumes "\<forall>x\<in>set (w # xs). set x \<inter> set group_delims = {} \<and> x \<noteq> []" "length xs \<le> 9"
  shows "splitOneOf (''a=group:'' @ w @ concat (map (\<lambda>x. '' '' @ x) xs)) group_delims 10 = ''a=group'' # w # xs"
proof -
  let ?ps = "(''a=group'', CHR '':'') # map (\<lambda>x. (x, CHR '' '')) (butlast (w # xs))"
  have l: "set (butlast (w # xs)) \<subseteq> set (w # xs)" "last (w # xs) \<in> set (w # xs)"
    using last_in_set [of "w # xs"] by (auto dest: in_set_butlastD simp del: butlast.simps last.simps)
  have "splitOneOf (joined ?ps (last (w # xs))) group_delims 10 = map fst ?ps @ [last (w # xs)]"
  proof (rule splitOneOf_joined)
    show "\<forall>(p, d)\<in>set ?ps. set p \<inter> set group_delims = {} \<and> d \<in> set group_delims"
      using assms(1) l(1) by (fastforce simp: group_delims_def simp del: butlast.simps)
    show "last (w # xs) \<noteq> []" using assms(1) l(2) by blast
    show "10 = (0 :: nat) \<and> set (last (w # xs)) \<inter> set group_delims = {} \<or>
        (10 :: nat) \<noteq> 0 \<and> length ?ps \<le> 10 \<and> (set (last (w # xs)) \<inter> set group_delims = {} \<or> length ?ps = 10)"
      using assms l(2) by (auto simp del: last.simps)
  qed
  moreover have "map fst ?ps @ [last (w # xs)] = ''a=group'' # w # xs"
    using append_butlast_last_id [of "w # xs"] by (simp add: comp_def del: butlast.simps last.simps)
  ultimately show ?thesis using joined_words [of w xs] by simp
qed

lemma one_attr_words:
  assumes "one_attr w" "\<forall>x\<in>set xs. one_attr x"
  shows "one_attr (w @ concat (map (\<lambda>x. '' '' @ x) xs))"
  using assms by (induction xs arbitrary: w) (auto simp: attr_simps)

definition fresh_tags :: "SdpInfo \<Rightarrow> BundleTag list" where
  "fresh_tags s = map (\<lambda>t. \<lparr>bt_id = bt_id t, bt_mediaType = OTHER\<rparr>) (bundleTags s)"

lemma leads_group:
  assumes "describable s" "bundleTags v = []"
  shows "leads memory [''a=group:BUNDLE'' @ concat (map (\<lambda>t. '' '' @ bt_id t) (bundleTags s))] m n v m n
    (v\<lparr>isBundle := True, bundleTags := fresh_tags s\<rparr>)"
  unfolding leads_def
proof (intro conjI allI impI)
  let ?ids = "map bt_id (bundleTags s)"
  let ?r = "''BUNDLE'' @ concat (map (\<lambda>x. '' '' @ x) ?ids)"
  let ?l = "''a=group:'' @ ?r"
  have t: "\<forall>x\<in>set ?ids. tag_text x" using assms(1) by (auto simp: describable_def)
  have line: "''a=group:BUNDLE'' @ concat (map (\<lambda>t. '' '' @ bt_id t) (bundleTags s)) = ?l" by (simp add: comp_def)
  show "\<forall>l\<in>set [''a=group:BUNDLE'' @ concat (map (\<lambda>t. '' '' @ bt_id t) (bundleTags s))]. CHR 0x0A \<notin> set l"
    using t by (auto simp: tag_text_def)
  fix st
  assume st: "in_section m n v st"
  have "\<forall>x\<in>set (''BUNDLE'' # ?ids). set x \<inter> set group_delims = {} \<and> x \<noteq> []"
    using t by (auto simp: tag_text_def clean_def group_delims_def)
  from group_pieces [OF this] have p: "splitOneOf ?l group_delims 10 = ''a=group'' # ''BUNDLE'' # ?ids"
    using assms(1) by (simp add: describable_def)
  have "one_attr ?r" using t by (intro one_attr_words) (auto simp: tag_text_def key_char_def)
  then have a: "one_attr (CHR ''='' # ''group:'' @ ?r)" by (simp add: attr_simps)
  note h = contains_head [OF a]
  define r where "r = ?r"
  have state: "in_section m n (v\<lparr>isBundle := True, bundleTags := fresh_tags s\<rparr>)
      (on_sdp (\<lambda>s'. s'\<lparr>isBundle := True, bundleTags := fresh_tags s\<rparr>) st)"
    using st assms(1) by (auto simp: in_section_def on_sdp_def core_def fresh_tags_def describable_def)
  have "process_line memory ?l st = Some (on_sdp (\<lambda>s'. s'\<lparr>isBundle := True, bundleTags := fresh_tags s\<rparr>) st)"
    using st assms(2) h p unfolding r_def [symmetric]
    by (auto simp: line_defs piece_def in_section_def fresh_tags_def comp_def)
  then show "\<exists>st'. process_lines memory [''a=group:BUNDLE'' @ concat (map (\<lambda>t. '' '' @ bt_id t) (bundleTags s))] st = Some st' \<and>
      in_section m n (v\<lparr>isBundle := True, bundleTags := fresh_tags s\<rparr>) st'"
    unfolding line process_lines.simps bind_runit using state by blast
qed

definition head_effect :: "SdpInfo \<Rightarrow> SdpInfo \<Rightarrow> SdpInfo" where
  "head_effect s v = (if isBundle s then v\<lparr>isBundle := True, bundleTags := fresh_tags s\<rparr> else v)"

lemma leads_head:
  assumes "describable s" "line_text msid" "bundleTags v = []"
  shows "leads memory (head_lines msid s) m n v m n (head_effect s v)"
proof -
  have fix4: "reads memory m [''v=0'', ''o=- 0 0 IN IP4 127.0.0.1'', ''s=Orbit'', ''t=0 0''] (\<lambda>v. v)"
    by (rule reads_same) (auto intro!: reads_noise simp: key_char_def)
  have sem: "reads memory m [''a=msid-semantic: WMS '' @ msid] (\<lambda>v. v)"
    using assms(2) by (simp add: reads_noise attr_simps attributes_def)
  show ?thesis
  proof (cases "isBundle s")
    case True
    have "leads memory ([''v=0'', ''o=- 0 0 IN IP4 127.0.0.1'', ''s=Orbit'', ''t=0 0''] @
        [''a=group:BUNDLE'' @ concat (map (\<lambda>t. '' '' @ bt_id t) (bundleTags s))] @ [''a=msid-semantic: WMS '' @ msid]) m n v m n
        (head_effect s v)"
      unfolding head_effect_def if_P [OF True]
      by (rule leads_append [OF leads_reads [OF fix4] leads_append [OF leads_group [OF assms(1,3)] leads_reads [OF sem]]])
    then show ?thesis using True by (simp add: head_lines_def)
  next
    case False
    then show ?thesis using leads_reads [OF fix4, of n v] by (simp add: head_lines_def head_effect_def)
  qed
qed

subsection \<open>The end of the text\<close>

lemma core_core [simp]: "core (core s) = core s"
  by (simp add: core_def)

lemma fill_credentials_core: "fill_credentials (core s) = map_option core (fill_credentials s)"
  by (simp add: fill_credentials_def core_def)

lemma fill_candidates_core: "fill_candidates (core s) = core (fill_candidates s)"
  by (simp add: fill_candidates_def core_def)

lemma fill_feedback_total:
  assumes "\<forall>l\<in>set ls. 3 \<le> length (splitOneOf l '' :'' 2)"
  shows "\<exists>r. fill_feedback ls s = Some r \<and> core r = core s"
  using assms
proof (induction ls arbitrary: s)
  case (Cons l ls)
  let ?s = "s\<lparr>payloadVector := map (\<lambda>rtp. if rm_payloadType rtp = to_uint (splitOneOf l '' :'' 2 ! 1)
        then rtp\<lparr>rm_feedbackTypes := rm_feedbackTypes rtp @ [splitOneOf l '' :'' 2 ! 2]\<rparr> else rtp) (payloadVector s)\<rparr>"
  obtain r where "fill_feedback ls ?s = Some r" "core r = core ?s" using Cons.IH [of ?s] Cons.prems by auto
  moreover have "fill_feedback (l # ls) s = fill_feedback ls ?s" using Cons.prems by (simp add: piece_def Let_def)
  ultimately show ?case by (auto simp: core_def)
qed simp

lemma processSdp_reads:
  assumes "leads memory ls (start_type media) (-1) (core s) m n v" "profile s = SAVPF" "bundleTags s = []"
    and "fill_credentials v = Some w"
  shows "\<exists>r. processSdp memory (print_lines ls) media s = Some (r, True) \<and> core r = core (fill_candidates w)"
proof -
  let ?st = "\<lparr>ps_sdp = s, ps_mlineNum = -1, ps_mtype = start_type media, ps_feedback = []\<rparr>"
  have "in_section (start_type media) (-1) (core s) ?st" using assms(2,3) by (simp add: in_section_def)
  then obtain st where st: "process_lines memory ls ?st = Some st" "in_section m n v st" using assms(1) by (auto simp: leads_def)
  have v: "core (ps_sdp st) = v" and fb: "\<forall>l\<in>set (ps_feedback st). 3 \<le> length (splitOneOf l '' :'' 2)"
    using st(2) by (simp_all add: in_section_def)
  obtain w' where w': "fill_credentials (ps_sdp st) = Some w'" "core w' = w"
    using assms(4) v fill_credentials_core [of "ps_sdp st"] by (cases "fill_credentials (ps_sdp st)") auto
  obtain r where r: "fill_feedback (ps_feedback st) (fill_candidates w') = Some r" "core r = core (fill_candidates w')"
    using fill_feedback_total [OF fb] by blast
  have "getlines (print_lines ls) = ls" using assms(1) by (intro splitOneOf_lines) (simp add: leads_def)
  then have "processSdp memory (print_lines ls) media s = Some (r, True)" using st(1) w'(1) r(1) by (simp add: processSdp_def)
  moreover have "core (fill_candidates w') = core (fill_candidates w)"
    using fill_candidates_core [of w'] w'(2) by (metis core_core)
  ultimately show ?thesis using r(2) by auto
qed

subsection \<open>The whole text\<close>

lemma store_chars_ok:
  assumes "n \<le> length buf"
  shows "\<exists>buf'. store_chars rand n buf = Some buf' \<and> length buf' = length buf \<and> set (take n buf') \<subseteq> set alphanum"
  using assms
proof (induction n)
  case (Suc n)
  then obtain b where b: "store_chars rand n buf = Some b" "length b = length buf" "set (take n b) \<subseteq> set alphanum" by auto
  have "alphanum ! (rand n mod length alphanum) \<in> set alphanum" by (rule nth_mem) (simp add: alphanum_def)
  then show ?case using b Suc.prems by (auto simp: take_Suc_conv_app_nth)
qed simp

lemma gen_random_text:
  assumes "length stack = 11"
  obtains buf where "gen_random rand 10 stack = Some buf" "set (c_str buf) \<subseteq> set alphanum"
proof -
  obtain b where b: "store_chars rand 10 stack = Some b" "length b = 11" "set (take 10 b) \<subseteq> set alphanum"
    using store_chars_ok [of 10 stack rand] assms by auto
  have "b[10 := CHR 0x00] = take 10 b @ [CHR 0x00]" using b(2) by (simp add: upd_conv_take_nth_drop)
  then have "c_str (b[10 := CHR 0x00]) = takeWhile (\<lambda>c. c \<noteq> CHR 0x00) (take 10 b)"
    by (simp add: c_str_def takeWhile_tail)
  then have "set (c_str (b[10 := CHR 0x00])) \<subseteq> set alphanum" using b(3) set_takeWhileD by fastforce
  then show thesis using b(1,2) that by (simp add: gen_random_def)
qed

lemma alphanum_text: "set w \<subseteq> set alphanum \<Longrightarrow> line_text w"
  unfolding line_text_def by (auto simp: alphanum_def intro!: one_attr_plain)

definition reader :: "SdpInfo \<Rightarrow> bool \<Rightarrow> SdpInfo" where
  "reader mem red = core (SdpInfo_new mem red)"

definition sent_effect :: "CandidateInfo \<Rightarrow> SdpInfo \<Rightarrow> SdpInfo \<Rightarrow> SdpInfo" where
  "sent_effect memory s v =
     (let v = head_effect s v;
          v = (if hasAudio s then audio_effect memory s (v\<lparr>audioSdpMLine := 0, hasAudio := True\<rparr>) else v)
      in if hasVideo s then video_effect memory s (v\<lparr>videoSdpMLine := (if hasAudio s then 1 else 0), hasVideo := True\<rparr>) else v)"

lemma leads_all:
  assumes "describable s" "line_text msid" "bundleTags v = []"
  shows "\<exists>m' n'. leads memory (head_lines msid s @ (if hasAudio s then audio_head s # audio_body nack msid s else []) @
      (if hasVideo s then video_head s # video_body set_min msid s else [])) m (-1) v m' n' (sent_effect memory s v)"
proof -
  note head = leads_head [OF assms, of memory m "-1"]
  note audio = leads_append [OF leads_audio_head [of memory s] leads_reads [OF reads_audio [OF assms(1,2)]], simplified]
  note video = leads_append [OF leads_video_head [of memory s] leads_reads [OF reads_video [OF assms(1,2)]], simplified]
  consider "hasAudio s" "hasVideo s" | "hasAudio s" "\<not> hasVideo s" | "\<not> hasAudio s" "hasVideo s"
    using assms(1) by (auto simp: describable_def)
  then show ?thesis
  proof cases
    case 1
    then show ?thesis
      using leads_append [OF head leads_append [OF audio video [OF 1(2)]], of nack set_min] by (auto simp: sent_effect_def)
  next
    case 2
    then show ?thesis using leads_append [OF head audio, of nack] by (auto simp: sent_effect_def)
  next
    case 3
    then show ?thesis using leads_append [OF head video [OF 3(2)], of set_min] by (auto simp: sent_effect_def)
  qed
qed

text \<open>The tags get the type of the section that names them.\<close>

lemma mark_none: "mark m {} tags = tags"
  by (simp add: mark_def)

lemma mark_tags:
  assumes "distinct (map bt_id tags)"
  shows "mark VIDEO_TYPE {bt_id t |t. t \<in> set tags \<and> bt_mediaType t = VIDEO_TYPE} (mark AUDIO_TYPE
      {bt_id t |t. t \<in> set tags \<and> bt_mediaType t = AUDIO_TYPE} (map (\<lambda>t. \<lparr>bt_id = bt_id t, bt_mediaType = OTHER\<rparr>) tags)) = tags"
proof -
  have inj: "bt_id t \<in> {bt_id u |u. u \<in> set tags \<and> bt_mediaType u = m} \<longleftrightarrow> bt_mediaType t = m" if "t \<in> set tags" for t m
    using assms that by (auto simp: distinct_map dest: inj_onD)
  show ?thesis
    unfolding mark_def map_map
  proof (rule map_idI)
    fix t
    assume t: "t \<in> set tags"
    then show "((\<lambda>u. if bt_id u \<in> {bt_id t |t. t \<in> set tags \<and> bt_mediaType t = VIDEO_TYPE} then u\<lparr>bt_mediaType := VIDEO_TYPE\<rparr> else u) \<circ>
        ((\<lambda>u. if bt_id u \<in> {bt_id t |t. t \<in> set tags \<and> bt_mediaType t = AUDIO_TYPE} then u\<lparr>bt_mediaType := AUDIO_TYPE\<rparr> else u) \<circ>
         (\<lambda>t. \<lparr>bt_id = bt_id t, bt_mediaType = OTHER\<rparr>))) t = t"
      using inj [OF t] by (cases "bt_mediaType t"; cases t) simp_all
  qed
qed

lemma sent_tags:
  assumes "describable s" "bundleTags v = []"
  shows "bundleTags (sent_effect memory s v) = (if isBundle s then bundleTags s else [])"
proof -
  have none: "{bt_id t |t. t \<in> set (bundleTags s) \<and> bt_mediaType t = AUDIO_TYPE} = {}" if "\<not> hasAudio s"
    using assms(1) that by (auto simp: describable_def)
  have none': "{bt_id t |t. t \<in> set (bundleTags s) \<and> bt_mediaType t = VIDEO_TYPE} = {}" if "\<not> hasVideo s"
    using assms(1) that by (auto simp: describable_def)
  have tags: "distinct (map bt_id (bundleTags s))" using assms(1) by (simp add: describable_def)
  have m: "mark m ids [] = []" for m ids by (simp add: mark_def)
  show ?thesis
    using mark_tags [OF tags] assms(2) none none'
    by (cases "hasAudio s"; cases "hasVideo s";
        simp add: sent_effect_def head_effect_def audio_effect_def video_effect_def fresh_tags_def mark_none m Let_def)
qed

lemma new_simps:
  "profile (SdpInfo_new mem red) = SAVPF" "bundleTags (SdpInfo_new mem red) = []" "iceAudioUsername (SdpInfo_new mem red) = []"
  "iceVideoUsername (SdpInfo_new mem red) = []" "audioSsrc (SdpInfo_new mem red) = 0" "videoSsrc (SdpInfo_new mem red) = 0"
  "candidateVector (SdpInfo_new mem red) = []" "cryptoVector (SdpInfo_new mem red) = []" "isRtcpMux (SdpInfo_new mem red) = False"
  "isBundle (SdpInfo_new mem red) = False" "hasAudio (SdpInfo_new mem red) = False" "hasVideo (SdpInfo_new mem red) = False"
  "isFingerprint (SdpInfo_new mem red) = False"
  by (simp_all add: SdpInfo_new_def InitializeRtpMap_def)

text \<open>What the reader of the text of \<open>s\<close> knows of \<open>s\<close>.\<close>

definition known_candidate :: "CandidateInfo \<Rightarrow> MediaType \<Rightarrow> SdpInfo \<Rightarrow> CandidateInfo \<Rightarrow> CandidateInfo" where
  "known_candidate memory m s c = (read_candidate memory m c)\<lparr>c_isBundle := isBundle s,
     c_username := (if m = VIDEO_TYPE then iceVideoUsername s else iceAudioUsername s),
     c_password := (if m = VIDEO_TYPE then iceVideoPassword s else iceAudioPassword s)\<rparr>"

definition knows :: "CandidateInfo \<Rightarrow> SdpInfo \<Rightarrow> SdpInfo \<Rightarrow> bool" where
  "knows memory s r \<longleftrightarrow>
     hasAudio r = hasAudio s \<and> hasVideo r = hasVideo s \<and> isBundle r = isBundle s \<and> isRtcpMux r = isRtcpMux s \<and>
     isFingerprint r = isFingerprint s \<and> (isFingerprint s \<longrightarrow> fingerprint r = fingerprint s) \<and>
     bundleTags r = (if isBundle s then bundleTags s else []) \<and>
     iceAudioUsername r = (if hasAudio s then iceAudioUsername s else iceVideoUsername s) \<and>
     iceAudioPassword r = (if hasAudio s then iceAudioPassword s else iceVideoPassword s) \<and>
     iceVideoUsername r = (if hasVideo s then iceVideoUsername s else iceAudioUsername s) \<and>
     iceVideoPassword r = (if hasVideo s then iceVideoPassword s else iceAudioPassword s) \<and>
     (hasAudio s \<longrightarrow> audioDirection r = audioDirection s \<and> audioSsrc r = audioSsrc s) \<and>
     (hasVideo s \<longrightarrow> videoDirection r = videoDirection s \<and> videoSsrc r = videoSsrc s \<and> videoBandwidth r = target_bandwidth s) \<and>
     candidateVector r =
       (if hasAudio s then map (known_candidate memory AUDIO_TYPE s)
          (filter (\<lambda>c. c_mediaType c = AUDIO_TYPE \<or> isBundle s) (candidateVector s)) else []) @
       (if hasVideo s then map (known_candidate memory VIDEO_TYPE s)
          (filter (\<lambda>c. c_mediaType c = VIDEO_TYPE) (candidateVector s)) else []) \<and>
     cryptoVector r =
       (if hasAudio s then map (cr_tag_update (\<lambda>_. 0)) (filter (\<lambda>c. cr_mediaType c = AUDIO_TYPE) (cryptoVector s)) else []) @
       (if hasVideo s then map (cr_tag_update (\<lambda>_. 0)) (filter (\<lambda>c. cr_mediaType c = VIDEO_TYPE) (cryptoVector s)) else [])"

lemma knows_core: "knows memory s (core r) = knows memory s r"
  by (simp add: knows_def core_def)

lemma read_as_type [simp]: "c_mediaType (read_as c x) = c_mediaType x"
  by (simp add: read_as_def Let_def)

lemma sent_known:
  assumes "describable s"
  shows "\<exists>w. fill_credentials (sent_effect memory s (reader mem red)) = Some w \<and> knows memory s (fill_candidates w)"
proof -
  let ?v = "sent_effect memory s (reader mem red)"
  have u: "iceAudioUsername s \<noteq> []" "iceVideoUsername s \<noteq> []" and some: "hasAudio s \<or> hasVideo s"
    using assms by (auto simp: describable_def clean_def)
  have tags: "bundleTags ?v = (if isBundle s then bundleTags s else [])"
    by (rule sent_tags [OF assms]) (simp add: reader_def new_simps)
  note e = sent_effect_def head_effect_def audio_effect_def video_effect_def fp_effect_def reader_def new_simps Let_def
  show ?thesis
    using u some tags
    by (cases "hasAudio s"; cases "hasVideo s")
      (simp_all add: e fill_credentials_def fill_candidates_def knows_def known_candidate_def)
qed

lemma describable_ssrc: "describable (s\<lparr>audioSsrc := x\<rparr>) = describable s"
  by (simp add: describable_def)

text \<open>C19.
  What \<open>getSdp\<close> prints, \<open>processSdp\<close> of a new description reads with success: the reader knows
  which media there are and their directions, the credentials of ICE (one section lends its
  credentials to the other when that one is absent), the fingerprint, the bundle with its tags and
  their media, the multiplexing flag, the sources, the bandwidth, and every candidate and key in the
  section that announces it.  The printer always ends here, and only the source of an audio section
  without one changes.\<close>

theorem sdp_roundtrip:
  assumes "describable s" "length stack = 11"
  shows "\<exists>text r. getSdp nack set_min rand stack s = Some (text, if hasAudio s \<and> audioSsrc s = 0 then s\<lparr>audioSsrc := 44444\<rparr> else s) \<and>
    processSdp memory text media (SdpInfo_new mem red) = Some (r, True) \<and>
    knows memory (if hasAudio s \<and> audioSsrc s = 0 then s\<lparr>audioSsrc := 44444\<rparr> else s) r"
proof -
  define s' where "s' = (if hasAudio s \<and> audioSsrc s = 0 then s\<lparr>audioSsrc := 44444\<rparr> else s)"
  obtain buf where buf: "gen_random rand 10 stack = Some buf" "set (c_str buf) \<subseteq> set alphanum" using assms(2) by (rule gen_random_text)
  define ls where "ls = head_lines (c_str buf) s' @ (if hasAudio s' then audio_head s' # audio_body nack (c_str buf) s' else []) @
      (if hasVideo s' then video_head s' # video_body set_min (c_str buf) s' else [])"
  have same: "head_lines (c_str buf) s' = head_lines (c_str buf) s" "hasAudio s' = hasAudio s" "hasVideo s' = hasVideo s"
    by (simp_all add: s'_def head_lines_def)
  have "length (bundleTags s) \<le> 255" using assms(1) by (simp add: describable_def)
  then have get: "getSdp nack set_min rand stack s = Some (print_lines ls, s')"
    using buf(1) same by (simp add: getSdp_def ls_def Let_def flip: s'_def)
  have s': "describable s'" using assms(1) by (simp add: s'_def describable_ssrc)
  have v: "bundleTags (reader mem red) = []" by (simp add: reader_def new_simps)
  obtain m n where "leads memory ls (start_type media) (-1) (core (SdpInfo_new mem red)) m n (sent_effect memory s' (reader mem red))"
    using leads_all [OF s' alphanum_text [OF buf(2)] v] unfolding ls_def reader_def by blast
  moreover obtain w where w: "fill_credentials (sent_effect memory s' (reader mem red)) = Some w" "knows memory s' (fill_candidates w)"
    using sent_known [OF s'] by blast
  ultimately obtain r where "processSdp memory (print_lines ls) media (SdpInfo_new mem red) = Some (r, True)"
      "core r = core (fill_candidates w)"
    using processSdp_reads new_simps(1,2) by blast
  moreover from this have "knows memory s' r" using w(2) knows_core by metis
  ultimately show ?thesis using get unfolding s'_def by blast
qed

definition example_sdp :: SdpInfo where
  "example_sdp = (createOfferSdp (set_video_encoding VP8 (SdpInfo_new undefined True)))\<lparr>isFingerprint := True, fingerprint := ''58:8B:E5'',
     iceAudioUsername := ''Bs0jL'', iceAudioPassword := ''ilq+r19'', iceVideoUsername := ''Cs0jL'', iceVideoPassword := ''jlq+r19'',
     candidateVector := [example_candidate], bundleTags := [\<lparr>bt_id = ''audio'', bt_mediaType = AUDIO_TYPE\<rparr>, \<lparr>bt_id = ''video'', bt_mediaType = VIDEO_TYPE\<rparr>]\<rparr>"

lemma example_describable: "describable example_sdp"
proof -
  have c: "candidate_ok example_candidate"
    by (simp add: candidate_ok_def splittable_def example_candidate_def piece_text_def int_range_def relayed_def clean_def line_text_def
        key_char_def del: line_textD)
  have p: "\<forall>rtp\<in>set (payloadVector example_sdp). payload_ok rtp"
    by (simp add: example_sdp_def createOfferSdp_def set_video_encoding_def SdpInfo_new_def InitializeRtpMap_def codec_def payload_ok_def
        name_text_def rtpmap_delims_def line_text_def key_char_def del: line_textD)
  have f: "hasAudio example_sdp" "hasVideo example_sdp" "iceAudioUsername example_sdp = ''Bs0jL''" "iceAudioPassword example_sdp = ''ilq+r19''"
      "iceVideoUsername example_sdp = ''Cs0jL''" "iceVideoPassword example_sdp = ''jlq+r19''" "fingerprint example_sdp = ''58:8B:E5''"
      "sdp_setup example_sdp = []" "candidateVector example_sdp = [example_candidate]" "cryptoVector example_sdp = []"
      "bundleTags example_sdp = [\<lparr>bt_id = ''audio'', bt_mediaType = AUDIO_TYPE\<rparr>, \<lparr>bt_id = ''video'', bt_mediaType = VIDEO_TYPE\<rparr>]"
      "videoSsrc example_sdp = 55543"
    by (simp_all add: example_sdp_def createOfferSdp_def set_video_encoding_def SdpInfo_new_def InitializeRtpMap_def)
  have t: "clean ''Bs0jL''" "clean ''ilq+r19''" "clean ''Cs0jL''" "clean ''jlq+r19''" "clean ''58:8B:E5''" "line_text []"
      "tag_text ''audio''" "tag_text ''video''"
    by (simp_all add: clean_def line_text_def tag_text_def key_char_def del: line_textD)
  show ?thesis unfolding describable_def f using c p t f(1,2) by simp
qed

theorem sdp_roundtrip_witness:
  "\<exists>text r. getSdp True True (\<lambda>i. i) (replicate 11 (CHR ''x'')) example_sdp =
      Some (text, if hasAudio example_sdp \<and> audioSsrc example_sdp = 0 then example_sdp\<lparr>audioSsrc := 44444\<rparr> else example_sdp) \<and>
    processSdp example_candidate text ''video'' (SdpInfo_new undefined True) = Some (r, True) \<and>
    knows example_candidate
      (if hasAudio example_sdp \<and> audioSsrc example_sdp = 0 then example_sdp\<lparr>audioSsrc := 44444\<rparr> else example_sdp) r"
  by (rule sdp_roundtrip [OF example_describable]) simp

end
