(* ===== verification/Str_Util.thy ===== *)
theory Str_Util
  imports Std_String
begin

text \<open>
  The string utilities of \<open>src/orbit/base/strutil.h\<close> and \<open>strutil.cc\<close>.  An output parameter is an argument with the
  contents before the call, and the result is what it holds afterwards.  A \<open>const char*\<close> argument is the
  list of its characters before the terminator.  \<open>vsnprintf\<close> is an argument.
\<close>

section \<open>Characters\<close>

abbreviation code :: "char \<Rightarrow> nat" where "code c \<equiv> of_char c"

text \<open>Characters above 127 are negative in C and lie outside of all the ranges.\<close>

definition ascii_isalnum :: "char \<Rightarrow> bool" where
  "ascii_isalnum c \<longleftrightarrow> (97 \<le> code c \<and> code c \<le> 122) \<or> (65 \<le> code c \<and> code c \<le> 90) \<or> (48 \<le> code c \<and> code c \<le> 57)"

definition ascii_isdigit :: "char \<Rightarrow> bool" where
  "ascii_isdigit c \<longleftrightarrow> 48 \<le> code c \<and> code c \<le> 57"

definition ascii_isspace :: "char \<Rightarrow> bool" where
  "ascii_isspace c \<longleftrightarrow> code c = 32 \<or> code c = 9 \<or> code c = 10 \<or> code c = 11 \<or> code c = 12 \<or> code c = 13"

definition ascii_isupper :: "char \<Rightarrow> bool" where "ascii_isupper c \<longleftrightarrow> 65 \<le> code c \<and> code c \<le> 90"
definition ascii_islower :: "char \<Rightarrow> bool" where "ascii_islower c \<longleftrightarrow> 97 \<le> code c \<and> code c \<le> 122"
definition ascii_toupper :: "char \<Rightarrow> char" where "ascii_toupper c = (if ascii_islower c then char_of (code c - 32) else c)"
definition ascii_tolower :: "char \<Rightarrow> char" where "ascii_tolower c = (if ascii_isupper c then char_of (code c + 32) else c)"

definition hex_digit_to_int :: "char \<Rightarrow> nat" where
  "hex_digit_to_int c = (let x = code c; x = (if x > 57 then x + 9 else x) in x mod 16)"

definition strutil_isxdigit :: "char \<Rightarrow> bool" where
  "strutil_isxdigit c \<longleftrightarrow> (48 \<le> code c \<and> code c \<le> 57) \<or> (97 \<le> code c \<and> code c \<le> 102) \<or> (65 \<le> code c \<and> code c \<le> 70)"

definition LowerString :: "string \<Rightarrow> string" where
  "LowerString s = map (\<lambda>c. if 65 \<le> code c \<and> code c \<le> 90 then char_of (code c + 32) else c) s"

definition UpperString :: "string \<Rightarrow> string" where
  "UpperString s = map (\<lambda>c. if 97 \<le> code c \<and> code c \<le> 122 then char_of (code c - 32) else c) s"

definition ToUpper :: "string \<Rightarrow> string" where "ToUpper s = UpperString s"

section \<open>Prefixes and suffixes\<close>

definition HasPrefixString :: "string \<Rightarrow> string \<Rightarrow> bool" where
  "HasPrefixString str pre \<longleftrightarrow> length pre \<le> length str \<and> take (length pre) str = pre"

definition StripPrefixString :: "string \<Rightarrow> string \<Rightarrow> string" where
  "StripPrefixString str pre = (if HasPrefixString str pre then drop (length pre) str else str)"

definition HasSuffixString :: "string \<Rightarrow> string \<Rightarrow> bool" where
  "HasSuffixString str suf \<longleftrightarrow> length suf \<le> length str \<and> drop (length str - length suf) str = suf"

definition StripSuffixString :: "string \<Rightarrow> string \<Rightarrow> string" where
  "StripSuffixString str suf = (if HasSuffixString str suf then take (length str - length suf) str else str)"

section \<open>Trimming\<close>

definition TRIM_NONE :: u32 where "TRIM_NONE = 0"
definition TRIM_LEADING :: u32 where "TRIM_LEADING = 1"
definition TRIM_TRAILING :: u32 where "TRIM_TRAILING = 2"
definition TRIM_ALL :: u32 where "TRIM_ALL = TRIM_LEADING OR TRIM_TRAILING"
definition kWhitespaceASCII :: string where "kWhitespaceASCII = map char_of [9, 10, 11, 12, 13, 32 :: nat]"

definition find_first_not_of :: "string \<Rightarrow> string \<Rightarrow> nat option" where
  "find_first_not_of s cs =
     (let n = length (takeWhile (\<lambda>c. c \<in> set cs) s) in if n < length s then Some n else None)"

definition find_last_not_of :: "string \<Rightarrow> string \<Rightarrow> nat option" where
  "find_last_not_of s cs = map_option (\<lambda>n. length s - 1 - n) (find_first_not_of (rev s) cs)"

definition TrimStringT :: "string \<Rightarrow> string \<Rightarrow> u32 \<Rightarrow> u32 \<times> string" where
  "TrimStringT input trim_chars positions =
     (let last_char = length input - 1;
          first_good_char = (if positions AND TRIM_LEADING \<noteq> 0 then find_first_not_of input trim_chars else Some 0);
          last_good_char = (if positions AND TRIM_TRAILING \<noteq> 0 then find_last_not_of input trim_chars else Some last_char)
      in if input = [] then (TRIM_NONE, [])
         else case (first_good_char, last_good_char) of
                (Some first, Some lst) \<Rightarrow>
                  ((if first = 0 then TRIM_NONE else TRIM_LEADING) OR (if lst = last_char then TRIM_NONE else TRIM_TRAILING),
                   take (lst + 1 - first) (drop first input))
              | _ \<Rightarrow> (positions, []))"

definition TrimString :: "string \<Rightarrow> string \<Rightarrow> bool \<times> string" where
  "TrimString input trim_chars = (let (r, output) = TrimStringT input trim_chars TRIM_ALL in (r \<noteq> TRIM_NONE, output))"

definition TrimWhitespaceASCII :: "string \<Rightarrow> u32 \<Rightarrow> u32 \<times> string" where
  "TrimWhitespaceASCII input positions = TrimStringT input kWhitespaceASCII positions"

text \<open>The loops of \<open>StripWhitespace\<close>; the second one works on \<open>last + 1\<close>.\<close>

function skip_first :: "string \<Rightarrow> nat \<Rightarrow> nat" where
  "skip_first str first = (if first < length str \<and> ascii_isspace (str ! first) then skip_first str (first + 1) else first)"
  by pat_completeness auto

termination by (relation "measure (\<lambda>(str, first). length str - first)") auto

declare skip_first.simps [simp del]

fun skip_last :: "string \<Rightarrow> nat \<Rightarrow> nat" where
  "skip_last str 0 = 0"
| "skip_last str (Suc lst) = (if ascii_isspace (str ! lst) then skip_last str lst else Suc lst)"

definition StripWhitespace :: "string \<Rightarrow> string" where
  "StripWhitespace str =
     (let first = skip_first str 0
      in if first = length str then []
         else let str = (if first > 0 then drop first str else str);
                  lst = skip_last str (length str)
              in if lst \<noteq> length str \<and> lst > 0 then take lst str else str)"

lemma c_str_length: "length (c_str s) \<le> length s"
  by (simp add: c_str_def length_takeWhile_le)

text \<open>\<open>strpbrk\<close> stops at the first terminator.\<close>

function StripString :: "string \<Rightarrow> string \<Rightarrow> char \<Rightarrow> string" where
  "StripString s remove replacewith =
     (case find_first_of (c_str s) remove of
        None \<Rightarrow> s
      | Some n \<Rightarrow> take n s @ replacewith # StripString (drop (n + 1) s) remove replacewith)"
  by pat_completeness auto

termination
proof (relation "measure (\<lambda>(s, _, _). length s)", goal_cases)
  case (2 s remove replacewith n)
  then show ?case using find_first_of_Some(1) [OF 2] c_str_length [of s] by simp
qed simp

declare StripString.simps [simp del]

section \<open>Replacing\<close>

text \<open>\<open>s.find (p)\<close>, and from a position.\<close>

fun find_sub :: "string \<Rightarrow> string \<Rightarrow> nat option" where
  "find_sub p [] = (if p = [] then Some 0 else None)"
| "find_sub p (c # s) = (if take (length p) (c # s) = p then Some 0 else map_option Suc (find_sub p s))"

definition find_from :: "string \<Rightarrow> string \<Rightarrow> nat \<Rightarrow> nat option" where
  "find_from s p start_pos = (if start_pos \<le> length s then map_option ((+) start_pos) (find_sub p (drop start_pos s)) else None)"

lemma find_sub_Some: "find_sub p s = Some n \<Longrightarrow> n + length p \<le> length s \<and> take (length p) (drop n s) = p"
proof (induction p s arbitrary: n rule: find_sub.induct)
  case (2 p c s)
  show ?case
  proof (cases "take (length p) (c # s) = p")
    case True
    then have "length p \<le> Suc (length s)" by (metis length_Cons length_take min.absorb_iff2 min.commute)
    then show ?thesis using 2(2) True by auto
  next
    case False
    then obtain m where m: "find_sub p s = Some m" "n = Suc m" using 2(2) by (cases "find_sub p s") (auto split: if_splits)
    show ?thesis using 2(1) [OF False m(1)] m(2) by simp
  qed
qed (simp split: if_splits)

text \<open>The loop, entered with a non-empty \<open>oldsub\<close>.\<close>

function StringReplace_loop :: "string \<Rightarrow> string \<Rightarrow> string \<Rightarrow> bool \<Rightarrow> nat \<Rightarrow> string \<Rightarrow> string" where
  "StringReplace_loop s oldsub newsub replace_all start_pos res =
     (if oldsub = [] then res @ s
      else case find_from s oldsub start_pos of
             None \<Rightarrow> res @ drop start_pos s
           | Some pos \<Rightarrow>
               let res = res @ take (pos - start_pos) (drop start_pos s) @ newsub;
                   start_pos = pos + length oldsub
               in if replace_all then StringReplace_loop s oldsub newsub replace_all start_pos res
                  else res @ drop start_pos s)"
  by pat_completeness auto

termination
proof (relation "measure (\<lambda>(s, _, _, _, start_pos, _). length s - start_pos)", goal_cases)
  case (2 s oldsub newsub replace_all start_pos res pos x xa)
  obtain n where n: "find_sub oldsub (drop start_pos s) = Some n" "pos = start_pos + n" "start_pos \<le> length s"
    using 2(2) by (auto simp: find_from_def split: if_splits)
  have "n + length oldsub \<le> length s - start_pos" using find_sub_Some [OF n(1)] by simp
  moreover obtain k where "length oldsub = Suc k" using 2(1) by (cases oldsub) auto
  ultimately show ?case using 2(4) n(2) by simp
qed simp

declare StringReplace_loop.simps [simp del]

definition StringReplace :: "string \<Rightarrow> string \<Rightarrow> string \<Rightarrow> bool \<Rightarrow> string" where
  "StringReplace s oldsub newsub replace_all = StringReplace_loop s oldsub newsub replace_all 0 []"

section \<open>Splitting and joining\<close>

text \<open>The branch for a single delimiter.\<close>

function split_char :: "char \<Rightarrow> string \<Rightarrow> string list" where
  "split_char c [] = []"
| "split_char c (x # xs) =
     (if x = c then split_char c xs
      else (x # takeWhile (\<lambda>y. y \<noteq> c) xs) # split_char c (dropWhile (\<lambda>y. y \<noteq> c) xs))"
  by pat_completeness auto

termination
  by (relation "measure (\<lambda>(_, s). length s)") (auto simp: le_imp_less_Suc length_dropWhile_le)

lemma find_first_not_of_less: "find_first_not_of s cs = Some n \<Longrightarrow> n < length s \<and> s ! n \<notin> set cs"
  using nth_length_takeWhile [of "\<lambda>c. c \<in> set cs" s] by (auto simp: find_first_not_of_def Let_def split: if_splits)

text \<open>The general branch; the strings are those from \<open>begin_index\<close> on.\<close>

function split_any :: "string \<Rightarrow> string \<Rightarrow> string list" where
  "split_any delim full =
     (case find_first_not_of full delim of
        None \<Rightarrow> []
      | Some begin_index \<Rightarrow>
          let full = drop begin_index full
          in case find_first_of full delim of
               None \<Rightarrow> [full]
             | Some end_index \<Rightarrow> take end_index full # split_any delim (drop end_index full))"
  by pat_completeness auto

termination
proof (relation "measure (\<lambda>(_, s). length s)", goal_cases)
  case (2 delim full b f e)
  have b: "b < length full" "full ! b \<notin> set delim" using find_first_not_of_less [OF 2(1)] by auto
  have "e \<noteq> 0"
  proof
    assume "e = 0"
    then have "drop b full ! 0 \<in> set delim" using find_first_of_Some(3) [OF 2(3)] 2(2) by simp
    then show False using b by (simp add: nth_drop)
  qed
  then show ?case using b(1) 2(2) by simp
qed simp

declare split_any.simps [simp del]

definition SplitStringUsing :: "string \<Rightarrow> string \<Rightarrow> string list \<Rightarrow> string list" where
  "SplitStringUsing full delim result = result @ (case delim of [c] \<Rightarrow> split_char c full | _ \<Rightarrow> split_any delim full)"

function split_allow_empty :: "string \<Rightarrow> int \<Rightarrow> int \<Rightarrow> string \<Rightarrow> string list" where
  "split_allow_empty delim pieces i full =
     (if i < pieces - 1 \<or> pieces = 0
      then case find_first_of full delim of
             None \<Rightarrow> [full]
           | Some end_index \<Rightarrow> take end_index full # split_allow_empty delim pieces (i + 1) (drop (end_index + 1) full)
      else [full])"
  by pat_completeness auto

termination
  by (relation "measure (\<lambda>(_, _, _, s). length s)") (auto dest: find_first_of_Some(1))

declare split_allow_empty.simps [simp del]

definition SplitStringAllowEmpty :: "string \<Rightarrow> string \<Rightarrow> string list \<Rightarrow> string list" where
  "SplitStringAllowEmpty full delim result = result @ split_allow_empty delim 0 0 full"

definition Split :: "string \<Rightarrow> string \<Rightarrow> bool \<Rightarrow> string list" where
  "Split full delim skip_empty = (if skip_empty then SplitStringUsing full delim [] else SplitStringAllowEmpty full delim [])"

fun join_from :: "bool \<Rightarrow> string \<Rightarrow> string list \<Rightarrow> string" where
  "join_from at_start delim [] = []"
| "join_from at_start delim (c # cs) = (if \<not> at_start then delim else []) @ c @ join_from False delim cs"

definition JoinStrings :: "string list \<Rightarrow> string \<Rightarrow> string" where
  "JoinStrings components delim = join_from True delim components"

definition GetFilePath :: "string \<Rightarrow> string" where
  "GetFilePath file =
     (let file_parts = SplitStringUsing file ''/'' []
      in if length file_parts > 1 then StripSuffixString file (last file_parts) else [])"

section \<open>Printing\<close>

text \<open>\<open>vsn n\<close> is the effect of \<open>vsnprintf\<close> on a buffer of \<open>n\<close> characters: the result, the text in the buffer and
  \<open>errno\<close>.  Both places that test whether the text fit are the head of the loop; the buffer is never empty.\<close>

definition EOVERFLOW :: int where "EOVERFLOW = 75"

function append_loop :: "(nat \<Rightarrow> int \<times> string \<times> int) \<Rightarrow> string \<Rightarrow> int \<times> string \<times> int \<Rightarrow> nat \<Rightarrow> string" where
  "append_loop vsn dst (result, buf, errno) 0 = dst"
| "append_loop vsn dst (result, buf, errno) (Suc m) =
     (if 0 \<le> result \<and> result < int (Suc m) then dst @ take (nat result) buf
      else if result < 0 \<and> errno \<noteq> 0 \<and> errno \<noteq> EOVERFLOW then dst
      else let mem_length = (if result < 0 then Suc m * 2 else nat result + 1)
           in if mem_length > 32 * 1024 * 1024 then dst else append_loop vsn dst (vsn mem_length) mem_length)"
  by pat_completeness auto

termination
  by (relation "measure (\<lambda>(_, _, _, n). 32 * 1024 * 1024 - n)") (auto split: if_splits)

definition StringAppendV :: "string \<Rightarrow> (nat \<Rightarrow> int \<times> string \<times> int) \<Rightarrow> string" where
  "StringAppendV dst vsn = append_loop vsn dst (vsn 1024) 1024"

definition StringPrintf :: "(nat \<Rightarrow> int \<times> string \<times> int) \<Rightarrow> string" where
  "StringPrintf vsn = StringAppendV [] vsn"

section \<open>Splitting, trimming and joining agree\<close>

text \<open>The fields between the characters for which \<open>P\<close> holds.\<close>

fun fields :: "(char \<Rightarrow> bool) \<Rightarrow> string \<Rightarrow> string list" where
  "fields P [] = [[]]"
| "fields P (c # s) = (if P c then [] # fields P s else case fields P s of [] \<Rightarrow> [] | f # fs \<Rightarrow> (c # f) # fs)"

lemma fields_nonempty [simp]: "fields P s \<noteq> []"
  by (induction s) (auto split: list.split)

lemma fields_none: "list_all (\<lambda>c. \<not> P c) s \<Longrightarrow> fields P s = [s]"
  by (induction s) auto

lemma fields_at: "list_all (\<lambda>c. \<not> P c) p \<Longrightarrow> P d \<Longrightarrow> fields P (p @ d # r) = p # fields P r"
  by (induction p) auto

abbreviation kept :: "string list \<Rightarrow> string list" where "kept \<equiv> filter (\<lambda>p. p \<noteq> [])"

lemma kept_skip: "list_all P p \<Longrightarrow> kept (fields P (p @ s)) = kept (fields P s)"
  by (induction p) auto

lemma kept_all: "list_all P p \<Longrightarrow> kept (fields P p) = []"
  using kept_skip [of P p "[]"] by simp

text \<open>What a search finds, as a decomposition of the string.\<close>

lemma first_of_split:
  assumes "find_first_of s delim = Some n"
  obtains p d r where "s = p @ d # r" "n = length p" "d \<in> set delim" "list_all (\<lambda>c. c \<notin> set delim) p"
proof -
  note f = find_first_of_Some [OF assms]
  have "list_all (\<lambda>c. c \<notin> set delim) (take n s)" using f(4) by (auto simp: list_all_iff)
  then show ?thesis using that [OF f(2) _ f(3)] f(1) by simp
qed

lemma first_of_none: "find_first_of s delim = None \<longleftrightarrow> list_all (\<lambda>c. c \<notin> set delim) s"
  by (auto simp: find_first_of_None list_all_iff)

lemma split_allow_empty_fields: "split_allow_empty delim 0 i s = fields (\<lambda>c. c \<in> set delim) s"
proof (induction "length s" arbitrary: i s rule: less_induct)
  case less
  show ?case
  proof (cases "find_first_of s delim")
    case None
    then have "list_all (\<lambda>c. c \<notin> set delim) s" by (simp only: first_of_none)
    then show ?thesis using None by (subst split_allow_empty.simps) (simp add: fields_none)
  next
    case (Some n)
    then obtain p d r where s: "s = p @ d # r" "n = length p" "d \<in> set delim" "list_all (\<lambda>c. c \<notin> set delim) p" by (rule first_of_split)
    have "split_allow_empty delim 0 (i + 1) r = fields (\<lambda>c. c \<in> set delim) r" using less [of r "i + 1"] s(1) by simp
    then show ?thesis using Some s by (subst split_allow_empty.simps) (simp add: fields_at)
  qed
qed

lemma split_char_fields: "split_char c s = kept (fields (\<lambda>x. x = c) s)"
proof (induction c s rule: split_char.induct)
  case (2 c x xs)
  let ?t = "takeWhile (\<lambda>y. y \<noteq> c) xs" and ?r = "dropWhile (\<lambda>y. y \<noteq> c) xs"
  show ?case
  proof (cases "x = c")
    case False
    have t: "list_all (\<lambda>y. y \<noteq> c) (x # ?t)" using False by (auto simp: list_all_iff dest: set_takeWhileD)
    show ?thesis
    proof (cases ?r)
      case Nil
      then have "?t = xs" by (metis append_Nil2 takeWhile_dropWhile_id)
      then have "fields (\<lambda>x. x = c) (x # xs) = [x # xs]" using t fields_none by metis
      then show ?thesis using Nil False \<open>?t = xs\<close> by (simp del: fields.simps dropWhile_eq_Nil_conv)
    next
      case (Cons y r)
      then have y: "y = c" by (metis (mono_tags) hd_dropWhile list.sel(1) list.distinct(1))
      have "x # xs = (x # ?t) @ c # r" using Cons y by (metis append_Cons takeWhile_dropWhile_id)
      then have "fields (\<lambda>x. x = c) (x # xs) = (x # ?t) # fields (\<lambda>x. x = c) r" using fields_at [OF t, of c r] by simp
      then show ?thesis using "2.IH"(2) False Cons y by simp
    qed
  qed (use "2.IH"(1) in simp)
qed simp

lemma first_not_of_split:
  assumes "find_first_not_of s cs = Some n"
  shows "s = take n s @ drop n s" "list_all (\<lambda>c. c \<in> set cs) (take n s)" "drop n s \<noteq> []" "hd (drop n s) \<notin> set cs"
proof -
  have n: "n = length (takeWhile (\<lambda>c. c \<in> set cs) s)" "n < length s" using assms by (auto simp: find_first_not_of_def Let_def split: if_splits)
  show "list_all (\<lambda>c. c \<in> set cs) (take n s)" unfolding n(1) by (simp add: list_all_iff flip: takeWhile_eq_take) (meson set_takeWhileD)
  show "hd (drop n s) \<notin> set cs" using find_first_not_of_less [OF assms] by (simp add: hd_drop_conv_nth)
qed (use find_first_not_of_less [OF assms] in simp_all)

lemma split_any_fields: "split_any delim s = kept (fields (\<lambda>c. c \<in> set delim) s)"
proof (induction "length s" arbitrary: s rule: less_induct)
  case less
  show ?case
  proof (cases "find_first_not_of s delim")
    case None
    then have "list_all (\<lambda>c. c \<in> set delim) s"
      by (auto simp: find_first_not_of_def Let_def takeWhile_shorter list_all_iff split: if_splits)
    then show ?thesis using None by (subst split_any.simps) (simp add: kept_all)
  next
    case (Some b)
    note b = first_not_of_split [OF Some]
    have k: "kept (fields (\<lambda>c. c \<in> set delim) s) = kept (fields (\<lambda>c. c \<in> set delim) (drop b s))"
      using kept_skip [OF b(2), of "drop b s"] by simp
    show ?thesis
    proof (cases "find_first_of (drop b s) delim")
      case None
      then have "list_all (\<lambda>c. c \<notin> set delim) (drop b s)" by (simp only: first_of_none)
      then show ?thesis using Some None b(3) k by (subst split_any.simps) (simp add: fields_none)
    next
      case e: (Some e)
      then obtain p d r where s: "drop b s = p @ d # r" "e = length p" "d \<in> set delim" "list_all (\<lambda>c. c \<notin> set delim) p" by (rule first_of_split)
      have p: "p \<noteq> []" using b(4) s by auto
      have "length (d # r) < length s" using arg_cong [OF s(1), of length] p by (cases p) auto
      then have "split_any delim (d # r) = kept (fields (\<lambda>c. c \<in> set delim) r)" using less [of "d # r"] s(3) by simp
      then show ?thesis using Some e s p k by (subst split_any.simps) (simp add: fields_at)
    qed
  qed
qed

text \<open>C38.
  \<open>SplitStringUsing\<close>, with its special loop for a single delimiter and its general one, yields the pieces of
  \<open>SplitStringAllowEmpty\<close> without the empty ones, for every string and every set of delimiters, as the
  header says.\<close>

theorem split_using_drops_empty:
  "SplitStringUsing full delim result = result @ filter (\<lambda>p. p \<noteq> []) (SplitStringAllowEmpty full delim [])"
  by (auto simp: SplitStringUsing_def SplitStringAllowEmpty_def split_allow_empty_fields split_char_fields split_any_fields split: list.split)

lemma join_fields:
  assumes "ps \<noteq> []" "P d" "\<forall>p\<in>set ps. list_all (\<lambda>c. \<not> P c) p"
  shows "fields P (join_from True [d] ps) = ps"
  using assms
proof (induction ps)
  case (Cons p ps)
  show ?case
  proof (cases ps)
    case Nil
    then show ?thesis using Cons.prems(3) by (simp add: fields_none)
  next
    case (Cons q qs)
    have "join_from True [d] (p # ps) = p @ d # join_from True [d] ps" by (simp add: Cons)
    then show ?thesis using Cons.IH Cons.prems Cons by (simp add: fields_at del: join_from.simps)
  qed
qed simp

text \<open>\<open>SplitStringAllowEmpty\<close> recovers the pieces that \<open>JoinStrings\<close> put together, empty ones included, when
  no piece contains a delimiter.\<close>

theorem join_split_roundtrip:
  assumes "ps \<noteq> []" "d \<in> set delim" "\<forall>p\<in>set ps. set p \<inter> set delim = {}"
  shows "SplitStringAllowEmpty (JoinStrings ps [d]) delim result = result @ ps"
  using join_fields [of ps "\<lambda>c. c \<in> set delim" d] assms
  by (auto simp: SplitStringAllowEmpty_def JoinStrings_def split_allow_empty_fields list_all_iff)

theorem join_split_roundtrip_witness:
  "SplitStringAllowEmpty (JoinStrings [''a'', [], ''bc''] '';'') '',;'' [''x''] = [''x'', ''a'', [], ''bc'']"
  using join_split_roundtrip [of "[''a'', [], ''bc'']" "CHR '';''" "'',;''" "[''x'']"] by simp

text \<open>Both routines that strip white space are the same function.\<close>

lemma char_of_code: "c = char_of n \<longleftrightarrow> code c = n" if "n < 256"
  using that char_of_eq_iff [of n c] by (auto simp: take_bit_nat_eq_self)

lemma isspace_whitespace: "c \<in> set kWhitespaceASCII \<longleftrightarrow> ascii_isspace c"
  by (auto simp: kWhitespaceASCII_def ascii_isspace_def char_of_code)

definition trimmed :: "(char \<Rightarrow> bool) \<Rightarrow> string \<Rightarrow> string" where
  "trimmed P s = rev (dropWhile P (rev (dropWhile P s)))"

lemma skip_first_eq: "skip_first s n = n + length (takeWhile ascii_isspace (drop n s))"
proof (induction s n rule: skip_first.induct)
  case (1 s n)
  show ?case
  proof (cases "n < length s")
    case True
    then have "drop n s = s ! n # drop (n + 1) s" by (simp add: Cons_nth_drop_Suc)
    then show ?thesis using 1 True by (subst skip_first.simps) simp
  qed (subst skip_first.simps, simp)
qed

lemma skip_last_eq: "n \<le> length s \<Longrightarrow> skip_last s n = n - length (takeWhile ascii_isspace (rev (take n s)))"
  by (induction n) (simp_all add: take_Suc_conv_app_nth)

lemma drop_takeWhile: "drop (length (takeWhile P s)) s = dropWhile P s"
  by (metis append_eq_conv_conj takeWhile_dropWhile_id)

lemma rev_dropWhile_rev: "rev (dropWhile P (rev s)) = take (length s - length (takeWhile P (rev s))) s"
  by (simp add: rev_drop flip: drop_takeWhile)

lemma StripWhitespace_trimmed: "StripWhitespace s = trimmed ascii_isspace s"
proof (cases "skip_first s 0 = length s")
  case True
  then have "dropWhile ascii_isspace s = []" using drop_takeWhile [of ascii_isspace s] by (simp add: skip_first_eq)
  then show ?thesis using True by (simp add: StripWhitespace_def trimmed_def del: dropWhile_eq_Nil_conv)
next
  case False
  let ?t = "dropWhile ascii_isspace s" and ?k = "length (takeWhile ascii_isspace (rev (dropWhile ascii_isspace s)))"
  have d: "(if skip_first s 0 > 0 then drop (skip_first s 0) s else s) = ?t" using drop_takeWhile [of ascii_isspace s] by (auto simp: skip_first_eq)
  have ne: "?t \<noteq> []" using False drop_takeWhile [of ascii_isspace s] by (metis skip_first_eq add_0 drop0 length_takeWhile_le drop_eq_Nil le_antisym)
  have "?k < length ?t"
    using ne hd_dropWhile [of ascii_isspace s] takeWhile_shorter [of ascii_isspace "rev ?t"] by (metis hd_in_set length_rev set_rev dropWhile_eq_Nil_conv)
  then have "StripWhitespace s = (if ?k \<noteq> 0 then take (length ?t - ?k) ?t else ?t)"
    using False d by (auto simp: StripWhitespace_def Let_def skip_last_eq)
  then show ?thesis by (simp add: trimmed_def rev_dropWhile_rev)
qed

lemma TrimString_trimmed: "snd (TrimStringT s cs TRIM_ALL) = trimmed (\<lambda>c. c \<in> set cs) s"
proof (cases "dropWhile (\<lambda>c. c \<in> set cs) s = []")
  case True
  then have "find_first_not_of s cs = None" by (auto simp: find_first_not_of_def Let_def takeWhile_shorter)
  then show ?thesis using True by (simp add: TrimStringT_def trimmed_def TRIM_ALL_def TRIM_LEADING_def TRIM_TRAILING_def del: dropWhile_eq_Nil_conv)
next
  case False
  let ?P = "\<lambda>c. c \<in> set cs"
  let ?a = "length (takeWhile ?P s)" and ?b = "length (takeWhile ?P (rev s))" and ?n = "length s"
  have ex: "\<exists>x\<in>set s. \<not> ?P x" using False by auto
  have a: "?a < ?n" "?b < ?n" using ex takeWhile_shorter [of ?P s] takeWhile_shorter [of ?P "rev s"] by auto
  have f: "find_first_not_of s cs = Some ?a" "find_last_not_of s cs = Some (?n - 1 - ?b)" using a by (simp_all add: find_first_not_of_def find_last_not_of_def Let_def)
  have t: "snd (TrimStringT s cs TRIM_ALL) = take (?n - 1 - ?b + 1 - ?a) (drop ?a s)"
    using f a by (auto simp: TrimStringT_def TRIM_ALL_def TRIM_LEADING_def TRIM_TRAILING_def Let_def)
  have s: "s = takeWhile ?P s @ dropWhile ?P s" by simp
  have "takeWhile ?P (rev s) = takeWhile ?P (rev (dropWhile ?P s))"
    using ex False hd_dropWhile [of ?P s] by (subst s, subst rev_append, subst takeWhile_append1) (auto intro: hd_in_set simp del: dropWhile_eq_Nil_conv takeWhile_dropWhile_id)
  then have b: "?b = length (takeWhile ?P (rev (dropWhile ?P s)))" by simp
  have l: "length (dropWhile ?P s) = ?n - ?a" using drop_takeWhile [of ?P s] by (metis length_drop)
  have "?n - 1 - ?b + 1 - ?a = ?n - ?a - ?b" using a by simp
  then show ?thesis unfolding t trimmed_def rev_dropWhile_rev b [symmetric] l by (simp add: drop_takeWhile)
qed

text \<open>\<open>StripWhitespace\<close> and \<open>TrimWhitespaceASCII\<close> (\<open>TRIM_ALL\<close>), two implementations with index arithmetic of their own,
  compute the same: the string without the white space at its start and at its end.\<close>

theorem strip_is_trim:
  "StripWhitespace s = snd (TrimWhitespaceASCII s TRIM_ALL) \<and> StripWhitespace s = rev (dropWhile ascii_isspace (rev (dropWhile ascii_isspace s)))"
  by (simp add: TrimWhitespaceASCII_def TrimString_trimmed StripWhitespace_trimmed trimmed_def isspace_whitespace)

lemma StripString_map: "CHR 0x00 \<notin> set s \<Longrightarrow> StripString s remove r = map (\<lambda>c. if c \<in> set remove then r else c) s"
proof (induction s remove r rule: StripString.induct)
  case (1 s remove r)
  have c: "c_str s = s" using 1(2) by (auto simp: c_str_def takeWhile_eq_all_conv)
  show ?case
  proof (cases "find_first_of s remove")
    case None
    then have "list_all (\<lambda>c. c \<notin> set remove) s" by (simp only: first_of_none)
    then have "map (\<lambda>c. if c \<in> set remove then r else c) s = s" by (intro map_idI) (auto simp: list_all_iff)
    then show ?thesis using None c by (subst StripString.simps) simp
  next
    case (Some n)
    then obtain p d q where s: "s = p @ d # q" "n = length p" "d \<in> set remove" "list_all (\<lambda>c. c \<notin> set remove) p" by (rule first_of_split)
    have "map (\<lambda>c. if c \<in> set remove then r else c) p = p" using s(4) by (intro map_idI) (auto simp: list_all_iff)
    then show ?thesis using 1 Some s c by (subst StripString.simps) simp
  qed
qed

section \<open>Replacing, file names and printing\<close>

text \<open>The text between the occurrences that a search from the left finds.\<close>

function pieces :: "string \<Rightarrow> string \<Rightarrow> string list" where
  "pieces old s = (if old = [] then [s] else case find_sub old s of None \<Rightarrow> [s] | Some n \<Rightarrow> take n s # pieces old (drop (n + length old) s))"
  by pat_completeness auto

termination
proof (relation "measure (\<lambda>(_, s). length s)", goal_cases)
  case (2 old s n)
  then show ?case using find_sub_Some [OF 2(2)] by (cases old) auto
qed simp

declare pieces.simps [simp del]

lemma pieces_ne [simp]: "pieces old s \<noteq> []"
  by (subst pieces.simps) (auto split: option.split)

lemma replace_pieces:
  assumes "old \<noteq> []" "start \<le> length s"
  shows "StringReplace_loop s old new True start res = res @ JoinStrings (pieces old (drop start s)) new"
  using assms
proof (induction "length s - start" arbitrary: start res rule: less_induct)
  case less
  show ?case
  proof (cases "find_sub old (drop start s)")
    case None
    then show ?thesis using less.prems by (subst StringReplace_loop.simps, subst pieces.simps) (simp add: find_from_def JoinStrings_def)
  next
    case (Some n)
    have n: "n + length old \<le> length s - start" using find_sub_Some [OF Some] by simp
    obtain k where k: "length old = Suc k" using less.prems(1) by (cases old) auto
    have IH: "StringReplace_loop s old new True (start + n + length old) res' = res' @ JoinStrings (pieces old (drop (start + n + length old) s)) new" for res'
      using n k less.prems by (intro less.hyps) auto
    have j: "JoinStrings (p # ps) new = p @ new @ JoinStrings ps new" if "ps \<noteq> []" for p ps
      using that by (cases ps) (simp_all add: JoinStrings_def)
    have d: "drop (n + length old) (drop start s) = drop (start + n + length old) s" by (simp add: add.commute add.left_commute)
    show ?thesis using Some less.prems
      by (subst StringReplace_loop.simps, subst pieces.simps) (simp add: find_from_def Let_def IH j d del: drop_drop)
  qed
qed

lemma contains_find: "contains p s \<longleftrightarrow> find_sub p s \<noteq> None"
  by (induction s) (auto simp: map_option_case split: option.splits)

lemma find_sub_first: "find_sub p s = Some n \<Longrightarrow> m < n \<Longrightarrow> take (length p) (drop m s) \<noteq> p"
proof (induction p s arbitrary: n m rule: find_sub.induct)
  case (2 p c s)
  then show ?case by (cases m) (auto split: if_splits)
qed (simp split: if_splits)

lemma find_sub_least: "take (length p) (drop m s) = p \<Longrightarrow> m \<le> length s \<Longrightarrow> \<exists>n. find_sub p s = Some n \<and> n \<le> m"
proof (induction s arbitrary: m)
  case (Cons c s)
  show ?case
  proof (cases m)
    case (Suc k)
    then obtain n where "find_sub p s = Some n" "n \<le> k" using Cons.IH [of k] Cons.prems by auto
    then show ?thesis using Suc by auto
  qed (use Cons.prems in simp)
qed simp

lemma contains_iff: "contains p s \<longleftrightarrow> (\<exists>m\<le>length s. take (length p) (drop m s) = p)"
proof
  assume "contains p s"
  then obtain n where "find_sub p s = Some n" by (auto simp: contains_find)
  from find_sub_Some [OF this] show "\<exists>m\<le>length s. take (length p) (drop m s) = p" by (intro exI [of _ n]) simp
qed (use find_sub_least [of p _ s] in \<open>auto simp: contains_find\<close>)

lemma pieces_join:
  assumes "old \<noteq> []"
  shows "JoinStrings (pieces old s) old = s"
proof (induction "length s" arbitrary: s rule: less_induct)
  case less
  show ?case
  proof (cases "find_sub old s")
    case None
    then show ?thesis by (subst pieces.simps) (simp add: JoinStrings_def)
  next
    case (Some n)
    note f = find_sub_Some [OF Some]
    obtain k where k: "length old = Suc k" using assms by (cases old) auto
    let ?r = "drop (n + length old) s"
    have IH: "JoinStrings (pieces old ?r) old = ?r" using f k by (intro less.hyps) auto
    have "s = take n s @ old @ ?r"
      using f append_take_drop_id [of n s] append_take_drop_id [of "length old" "drop n s"] by (simp add: add.commute)
    moreover have "JoinStrings (take n s # pieces old ?r) old = take n s @ old @ JoinStrings (pieces old ?r) old"
      by (cases "pieces old ?r") (simp_all add: JoinStrings_def)
    ultimately show ?thesis using Some assms by (subst pieces.simps) (simp add: IH)
  qed
qed

lemma no_early_match:
  assumes "find_sub old s = Some n" "old \<noteq> []" "m < length old"
  shows "\<not> contains old (take (n + m) s)"
proof
  assume "contains old (take (n + m) s)"
  then obtain k where "take (length old) (drop k (take (n + m) s)) = old" by (auto simp: contains_iff)
  then have k: "take (length old) (take (n + m - k) (drop k s)) = old" by (simp add: drop_take)
  then have "length old \<le> n + m - k" by (metis length_take min.bounded_iff min.cobounded1 order_refl take_take)
  moreover from this k have "take (length old) (drop k s) = old" by (simp add: min_def)
  ultimately show False using find_sub_first [OF assms(1), of k] assms(3) by force
qed

lemma pieces_free:
  assumes "old \<noteq> []" "p \<in> set (pieces old s)"
  shows "\<not> contains old p"
  using assms(2)
proof (induction "length s" arbitrary: s rule: less_induct)
  case less
  show ?case
  proof (cases "find_sub old s")
    case None
    then show ?thesis using less.prems assms(1) by (subst (asm) pieces.simps) (simp add: contains_find)
  next
    case (Some n)
    have "length (drop (n + length old) s) < length s" using find_sub_Some [OF Some] assms(1) by (cases old) auto
    from less.hyps [OF this] show ?thesis
      using less.prems Some assms(1) no_early_match [OF Some assms(1), of 0] by (subst (asm) pieces.simps) auto
  qed
qed

text \<open>\<open>StringReplace\<close> with \<open>replace_all\<close>: the string is cut at the occurrences of \<open>oldsub\<close>, found from the left and
  without overlap, into pieces that do not contain it, and the result joins these pieces with
  \<open>newsub\<close>; the new text is not searched again.\<close>

theorem replace_joins_pieces:
  assumes "oldsub \<noteq> []"
  shows "\<exists>ps. JoinStrings ps oldsub = s \<and> (\<forall>p\<in>set ps. \<not> contains oldsub p) \<and> StringReplace s oldsub newsub True = JoinStrings ps newsub"
  using pieces_join [OF assms, of s] pieces_free [OF assms, of _ s] replace_pieces [OF assms, of 0 s newsub "[]"]
  by (intro exI [of _ "pieces oldsub s"]) (simp add: StringReplace_def)

theorem replace_joins_pieces_witness:
  "\<exists>ps. JoinStrings ps ''aa'' = ''xaaayaa'' \<and> (\<forall>p\<in>set ps. \<not> contains ''aa'' p) \<and> StringReplace ''xaaayaa'' ''aa'' ''b'' True = JoinStrings ps ''b''"
  by (rule replace_joins_pieces) simp

lemma fields_append: "P d \<Longrightarrow> fields P (s @ d # r) = fields P s @ fields P r"
  by (induction s) (auto split: list.split)

lemma kept_some: "\<exists>c\<in>set s. \<not> P c \<Longrightarrow> kept (fields P s) \<noteq> []"
  by (induction s) (auto split: list.split)

text \<open>\<open>GetFilePath\<close> returns the directory of a file, with the final slash, so that directory and name together are
  the file again, for every directory that does not consist of slashes only.\<close>

theorem file_path_of_file:
  assumes "name \<noteq> []" "CHR ''/'' \<notin> set name" "\<exists>c\<in>set dir. c \<noteq> CHR ''/''"
  shows "GetFilePath (dir @ ''/'' @ name) = dir @ ''/''"
proof -
  let ?P = "\<lambda>c. c = CHR ''/''" and ?f = "dir @ ''/'' @ name"
  have n: "fields ?P name = [name]" using assms(2) by (intro fields_none) (auto simp: list_all_iff)
  have "SplitStringUsing ?f ''/'' [] = kept (fields ?P dir) @ [name]"
    using assms(1) by (simp add: SplitStringUsing_def split_char_fields fields_append n)
  moreover have "kept (fields ?P dir) \<noteq> []" using kept_some [of dir ?P] assms(3) by blast
  moreover have "StripSuffixString ?f name = dir @ ''/''" by (simp add: StripSuffixString_def HasSuffixString_def)
  ultimately show ?thesis by (auto simp: GetFilePath_def Let_def)
qed

theorem file_path_of_file_witness: "GetFilePath ''./orbit//html/ss.tpl'' = ''./orbit//html/''"
  using file_path_of_file [of "''ss.tpl''" "''./orbit//html''"] by simp

text \<open>A file in the root directory has no path.\<close>

lemma root_file_has_no_path: "GetFilePath ''/a'' = []"
  by (simp add: GetFilePath_def SplitStringUsing_def)

lemma append_loop_pos:
  assumes "0 < n"
  shows "append_loop vsn dst (result, buf, errno) n =
    (if 0 \<le> result \<and> result < int n then dst @ take (nat result) buf
     else if result < 0 \<and> errno \<noteq> 0 \<and> errno \<noteq> EOVERFLOW then dst
     else let mem_length = (if result < 0 then n * 2 else nat result + 1)
          in if mem_length > 32 * 1024 * 1024 then dst else append_loop vsn dst (vsn mem_length) mem_length)"
  using assms by (cases n) simp_all



lemma hex_digit: "strutil_isxdigit c \<Longrightarrow> hex_digit_to_int c =
    (if code c \<le> 57 then code c - 48 else if code c \<le> 70 then code c - 55 else code c - 87)"
  by (auto simp: strutil_isxdigit_def hex_digit_to_int_def Let_def intro!: mod_nat_eqI)

lemma UpperString_map: "UpperString s = map ascii_toupper s" "LowerString s = map ascii_tolower s"
  by (simp_all add: UpperString_def LowerString_def ascii_toupper_def ascii_tolower_def ascii_islower_def ascii_isupper_def)

end
