(* ===== verification/Http_Server.thy ===== *)
theory Http_Server
  imports Str_Util
begin

text \<open>
  The embedded web server: sessions, requests and responses of \<open>src/orbit/http_server/http_common.h\<close>, the handlers
  of \<open>http_handler.h\<close> and \<open>http_handler.cc\<close>, and the dispatch of \<open>http_server.cc\<close>.

  libmicrohttpd, zlib, the file system and the handlers that other modules register are arguments.  A
  request arrives in rounds: each call of \<open>HttpRequestHandler\<close> gets the context pointer that the previous one
  left.  The result \<open>None\<close> is undefined behaviour: a read past the end of a cookie, an access through the
  dummy or an uninitialised request.  The terminator of a session id is written into the padding
  behind its array and read there.
\<close>

section \<open>Maps without regard to case\<close>

definition fold_case :: "string \<Rightarrow> string" where "fold_case s = map ascii_tolower (c_str s)"

definition iless :: "string \<Rightarrow> string \<Rightarrow> bool" where "iless lhs rhs \<longleftrightarrow> fold_case lhs < fold_case rhs"

text \<open>\<open>insert\<close> keeps an element that is there.\<close>

definition sm_new :: "('k \<Rightarrow> 'k \<Rightarrow> bool) \<Rightarrow> 'k \<Rightarrow> 'v \<Rightarrow> ('k, 'v) std_map \<Rightarrow> ('k, 'v) std_map" where
  "sm_new lt k v m = (case sm_find lt k m of None \<Rightarrow> sm_set lt k v m | Some _ \<Rightarrow> m)"

section \<open>Sessions\<close>

definition kSessionSize :: nat where "kSessionSize = 33"

record HttpSession =
  sid :: string
  session_data :: "(string, string) std_map"

definition HttpSession_new :: "string \<Rightarrow> HttpSession" where
  "HttpSession_new random = \<lparr>sid = take kSessionSize random, session_data = []\<rparr>"

text \<open>\<open>sid\<close> is a C string with its terminator.\<close>

definition SetSessionId :: "string \<Rightarrow> HttpSession \<Rightarrow> HttpSession option" where
  "SetSessionId s h = (if kSessionSize \<le> length s + 1 then Some (h\<lparr>sid := take kSessionSize (s @ [CHR 0x00])\<rparr>) else None)"

definition GetSessionId :: "HttpSession \<Rightarrow> string" where "GetSessionId h = c_str (sid h)"

definition session_GetValue :: "string \<Rightarrow> HttpSession \<Rightarrow> bool \<times> string" where
  "session_GetValue key h = (case sm_find iless key (session_data h) of None \<Rightarrow> (False, []) | Some v \<Rightarrow> (True, v))"

definition session_SetValue :: "string \<Rightarrow> string \<Rightarrow> HttpSession \<Rightarrow> HttpSession" where
  "session_SetValue key v h = h\<lparr>session_data := sm_new iless key v (session_data h)\<rparr>"

definition DeleteValue :: "string \<Rightarrow> HttpSession \<Rightarrow> HttpSession option" where
  "DeleteValue key h =
     (case sm_find iless key (session_data h) of None \<Rightarrow> None | Some _ \<Rightarrow> Some (h\<lparr>session_data := sm_erase iless key (session_data h)\<rparr>))"

type_synonym HttpSessionManager = "(string, HttpSession) std_map"

definition CreateSession :: "HttpSession \<Rightarrow> HttpSessionManager \<Rightarrow> string \<times> HttpSessionManager" where
  "CreateSession h m = (let cookie_value = GetSessionId h in (cookie_value, sm_new (<) cookie_value h m))"

definition FindSessionByCookie :: "string \<Rightarrow> HttpSessionManager \<Rightarrow> HttpSession option" where
  "FindSessionByCookie cookie_value m = sm_find (<) cookie_value m"

definition UpdateSession :: "string \<Rightarrow> HttpSession \<Rightarrow> HttpSessionManager \<Rightarrow> HttpSessionManager" where
  "UpdateSession cookie_value h m = sm_set (<) cookie_value h m"

section \<open>Requests and responses\<close>

datatype HttpMethod = METHOD_UNKNOWN | METHOD_GET | METHOD_HEAD | METHOD_POST | METHOD_PUT | METHOD_DELETE
  | METHOD_PATCH | METHOD_CONNECT | METHOD_OPTIONS

record HttpRequest =
  query_map :: "(string, string) std_map"
  header_map :: "(string, string) std_map"
  rq_method :: HttpMethod
  method_string :: string
  rq_url :: string
  temp_data :: string
  rq_session :: HttpSession

definition HttpRequest_new :: "string \<Rightarrow> HttpRequest" where
  "HttpRequest_new random =
     \<lparr>query_map = [], header_map = [], rq_method = METHOD_UNKNOWN, method_string = [], rq_url = [], temp_data = [], rq_session = HttpSession_new random\<rparr>"

definition GetQueryValue :: "string \<Rightarrow> HttpRequest \<Rightarrow> bool \<times> string" where
  "GetQueryValue key r = (case sm_find iless key (query_map r) of None \<Rightarrow> (False, []) | Some v \<Rightarrow> (True, v))"

definition GetHeaderValue :: "string \<Rightarrow> HttpRequest \<Rightarrow> bool \<times> string" where
  "GetHeaderValue key r = (case sm_find iless key (header_map r) of None \<Rightarrow> (False, []) | Some v \<Rightarrow> (True, v))"

definition AddHeader :: "string \<Rightarrow> string \<Rightarrow> HttpRequest \<Rightarrow> HttpRequest" where
  "AddHeader key v r = r\<lparr>header_map := sm_new iless key v (header_map r)\<rparr>"

definition AppendHeader :: "string \<Rightarrow> string \<Rightarrow> HttpRequest \<Rightarrow> HttpRequest" where
  "AppendHeader key v r =
     (case GetHeaderValue key r of
        (True, old_value) \<Rightarrow> r\<lparr>header_map := sm_set iless key (old_value @ v) (header_map r)\<rparr>
      | (False, _) \<Rightarrow> r\<lparr>header_map := sm_new iless key v (header_map r)\<rparr>)"

definition AddQueryParam :: "string \<Rightarrow> string \<Rightarrow> HttpRequest \<Rightarrow> HttpRequest" where
  "AddQueryParam key v r = r\<lparr>query_map := sm_new iless key v (query_map r)\<rparr>"

definition AppendQueryParam :: "string \<Rightarrow> string \<Rightarrow> HttpRequest \<Rightarrow> HttpRequest" where
  "AppendQueryParam key v r =
     (case GetQueryValue key r of
        (True, old_value) \<Rightarrow> r\<lparr>query_map := sm_set iless key (old_value @ v) (query_map r)\<rparr>
      | (False, _) \<Rightarrow> r\<lparr>query_map := sm_new iless key v (query_map r)\<rparr>)"

text \<open>\<open>strcasecmp\<close> with zero as result; the third test repeats the first.\<close>

definition strcaseeq :: "string \<Rightarrow> string \<Rightarrow> bool" where "strcaseeq a b \<longleftrightarrow> fold_case a = fold_case b"

definition set_method :: "string \<Rightarrow> HttpRequest \<Rightarrow> HttpRequest" where
  "set_method s r = r\<lparr>method_string := s, rq_method :=
     (if strcaseeq s ''GET'' then METHOD_GET else if strcaseeq s ''HEAD'' then METHOD_HEAD
      else if strcaseeq s ''GET'' then METHOD_POST else if strcaseeq s ''PUT'' then METHOD_PUT
      else if strcaseeq s ''OPTIONS'' then METHOD_OPTIONS else METHOD_UNKNOWN)\<rparr>"

definition AppendTempData :: "string \<Rightarrow> HttpRequest \<Rightarrow> HttpRequest" where
  "AppendTempData upload_data r = r\<lparr>temp_data := (if temp_data r = [] then upload_data else temp_data r @ upload_data)\<rparr>"

record HttpResponse =
  rs_code :: nat
  content :: string
  content_type :: string
  location :: string
  rs_session :: HttpSession

definition HTTP_OK :: nat where "HTTP_OK = 200"
definition HTTP_MOVED_PERMANENTLY :: nat where "HTTP_MOVED_PERMANENTLY = 301"
definition HTTP_TEMPORARY_REDIRECT :: nat where "HTTP_TEMPORARY_REDIRECT = 307"
definition HTTP_NOT_FOUND :: nat where "HTTP_NOT_FOUND = 404"
definition HTTP_NOT_IMPLEMENTED :: nat where "HTTP_NOT_IMPLEMENTED = 501"

definition HttpResponse_new :: "string \<Rightarrow> HttpResponse" where
  "HttpResponse_new random = \<lparr>rs_code = HTTP_OK, content = [], content_type = ''text/plain'', location = [], rs_session = HttpSession_new random\<rparr>"

definition CopyFrom :: "HttpResponse \<Rightarrow> HttpResponse \<Rightarrow> HttpResponse" where
  "CopyFrom r self = self\<lparr>rs_code := rs_code r, content := content r, content_type := content_type r, rs_session := rs_session r, location := location r\<rparr>"

section \<open>Handlers\<close>

record 'h HttpHandler =
  impl :: 'h
  auth_mode :: bool
  auth_location :: string
  auth_session_key :: string
  next_url :: string

definition SetAuthMode :: "bool \<Rightarrow> string \<Rightarrow> string \<Rightarrow> string \<Rightarrow> 'h HttpHandler \<Rightarrow> 'h HttpHandler" where
  "SetAuthMode mode loc key nxt h =
     h\<lparr>auth_mode := mode, auth_location := loc, auth_session_key := key, next_url := (if nxt = [] then ''/'' else nxt)\<rparr>"

definition HttpHandler_new :: "'h \<Rightarrow> 'h HttpHandler" where
  "HttpHandler_new i = SetAuthMode False [] [] [] \<lparr>impl = i, auth_mode = False, auth_location = [], auth_session_key = [], next_url = []\<rparr>"

text \<open>The default of the method with two arguments calls the method with one.\<close>

definition HandleRequest_default :: "(HttpRequest \<Rightarrow> HttpResponse option) \<Rightarrow> HttpRequest \<Rightarrow> HttpResponse \<Rightarrow> HttpResponse" where
  "HandleRequest_default handle1 request response =
     (case handle1 request of None \<Rightarrow> response
      | Some response1 \<Rightarrow> CopyFrom (response1\<lparr>rs_session := rq_session request\<rparr>) response)"

definition HandleRequestInternal ::
    "('h \<Rightarrow> HttpRequest \<Rightarrow> HttpResponse \<Rightarrow> HttpResponse) \<Rightarrow> 'h HttpHandler \<Rightarrow> HttpRequest \<Rightarrow> HttpResponse \<Rightarrow> HttpResponse" where
  "HandleRequestInternal HandleRequest h request response =
     (let (found, v) = session_GetValue (auth_session_key h) (rq_session request)
      in if auth_mode h \<and> (\<not> found \<or> v = [])
         then response\<lparr>rs_session := session_SetValue ''next_url'' (next_url h) (rs_session response),
                rs_code := HTTP_TEMPORARY_REDIRECT, location := auth_location h, content_type := ''text/html''\<rparr>
         else HandleRequest (impl h) request response)"

subsection \<open>Files\<close>

text \<open>\<open>ReadFile\<close> of \<open>src/orbit/base/base.h\<close>: the lines with a line break behind each.  \<open>fs\<close> is the file system.\<close>

function ReadLines :: "string \<Rightarrow> string list" where
  "ReadLines [] = []"
| "ReadLines (c # s) = takeWhile (\<lambda>x. x \<noteq> CHR 0x0A) (c # s) # ReadLines (drop 1 (dropWhile (\<lambda>x. x \<noteq> CHR 0x0A) (c # s)))"
  by pat_completeness auto

termination
proof (relation "measure length", goal_cases)
  case (2 c s)
  have "length (dropWhile (\<lambda>x. x \<noteq> CHR 0x0A) (c # s)) \<le> length (c # s)" by (rule length_dropWhile_le)
  then show ?case by simp
qed simp

definition ReadFile :: "(string \<Rightarrow> string option) \<Rightarrow> string \<Rightarrow> string \<Rightarrow> bool \<times> string" where
  "ReadFile fs filename txt0 =
     (case fs (c_str filename) of None \<Rightarrow> (False, txt0)
      | Some c \<Rightarrow> (True, concat (map (\<lambda>line. line @ [CHR 0x0A]) (ReadLines c))))"

record SimpleFileHandler =
  filepath_root :: string
  single_file_mode :: bool

definition SimpleFileHandler_new :: "string \<Rightarrow> SimpleFileHandler" where
  "SimpleFileHandler_new dir = \<lparr>filepath_root = dir, single_file_mode = HasSuffixString dir ''.html'' \<or> HasSuffixString dir ''.htm''\<rparr>"

definition requested_file :: "SimpleFileHandler \<Rightarrow> HttpRequest \<Rightarrow> string" where
  "requested_file h request =
     (case GetQueryValue ''file'' request of
        (True, v) \<Rightarrow> if v \<noteq> [] then StringReplace v ''..'' [] True else v
      | (False, _) \<Rightarrow>
          if single_file_mode h then []
          else if HasPrefixString (rq_url request) ''/'' then StripPrefixString (rq_url request) ''/'' else rq_url request)"

definition not_found_page :: string where
  "not_found_page = ''<html><meta http-equiv=\"content-type\" content=\"text/html; charset=utf-8\"><body>File not found.</body></html>''"

definition file_HandleRequest :: "(string \<Rightarrow> string option) \<Rightarrow> string \<Rightarrow> SimpleFileHandler \<Rightarrow> HttpRequest \<Rightarrow> HttpResponse option" where
  "file_HandleRequest fs random h request =
     (let filename = requested_file h request;
          out = snd (ReadFile fs (filepath_root h @ filename) []);
          response = HttpResponse_new random
      in Some (if out \<noteq> []
               then response\<lparr>rs_code := HTTP_OK, content := out, content_type :=
                      (if filename = [] then ''text/html''
                       else if HasSuffixString filename ''.js'' then ''text/javascript''
                       else if HasSuffixString filename ''.css'' then ''text/css'' else ''text/plain'')\<rparr>
               else response\<lparr>rs_code := HTTP_NOT_FOUND, content := not_found_page, content_type := ''text/html''\<rparr>))"

section \<open>The server\<close>

record 'h HttpServer =
  handlers :: "(string, 'h HttpHandler) std_map"
  session_manager :: HttpSessionManager

definition RegisterHandler :: "string \<Rightarrow> 'h HttpHandler \<Rightarrow> 'h HttpServer \<Rightarrow> bool \<times> 'h HttpServer" where
  "RegisterHandler uri h s =
     (case sm_find (<) uri (handlers s) of Some _ \<Rightarrow> (False, s) | None \<Rightarrow> (True, s\<lparr>handlers := sm_set (<) uri h (handlers s)\<rparr>))"

definition GetHttpHandler :: "string \<Rightarrow> 'h HttpServer \<Rightarrow> 'h HttpHandler option" where
  "GetHttpHandler uri s = sm_find (<) uri (handlers s)"

text \<open>The iterators that libmicrohttpd calls for every pair it has.\<close>

datatype MHD_ValueKind = MHD_HEADER_KIND | MHD_COOKIE_KIND | MHD_GET_ARGUMENT_KIND | MHD_POSTDATA_KIND

definition KeyValueIterator :: "MHD_ValueKind \<Rightarrow> string option \<Rightarrow> string option \<Rightarrow> HttpRequest \<Rightarrow> bool \<times> HttpRequest" where
  "KeyValueIterator kind k v r =
     (case (k, v) of
        (Some k, Some v) \<Rightarrow>
          (True, case kind of MHD_HEADER_KIND \<Rightarrow> AddHeader k v r | MHD_COOKIE_KIND \<Rightarrow> AddHeader k v r
                 | MHD_GET_ARGUMENT_KIND \<Rightarrow> AddQueryParam k v r | _ \<Rightarrow> r)
      | _ \<Rightarrow> (False, r))"

definition PostKeyValueIterator :: "MHD_ValueKind \<Rightarrow> string \<Rightarrow> string \<Rightarrow> HttpRequest \<Rightarrow> HttpRequest" where
  "PostKeyValueIterator kind k v r =
     (if v \<noteq> []
      then case kind of MHD_COOKIE_KIND \<Rightarrow> AppendHeader k v r | MHD_HEADER_KIND \<Rightarrow> AppendHeader k v r
           | MHD_POSTDATA_KIND \<Rightarrow> AppendQueryParam k v r | _ \<Rightarrow> r
      else r)"

text \<open>The iteration ends when the iterator says so.\<close>

fun get_connection_values :: "MHD_ValueKind \<Rightarrow> (string option \<times> string option) list \<Rightarrow> HttpRequest \<Rightarrow> HttpRequest" where
  "get_connection_values kind [] r = r"
| "get_connection_values kind ((k, v) # kvs) r =
     (case KeyValueIterator kind k v r of (True, r) \<Rightarrow> get_connection_values kind kvs r | (False, r) \<Rightarrow> r)"

text \<open>What the connection offers: the arguments and cookies, and whether the client accepts \<open>deflate\<close>.
  \<open>post_process\<close> yields the pairs of an uploaded form, or nothing when no processor is created.\<close>

record mhd_connection =
  arguments :: "(string option \<times> string option) list"
  cookies :: "(string option \<times> string option) list"
  encodings :: string
  post_process :: "string \<Rightarrow> (MHD_ValueKind \<times> string \<times> string) list option"

text \<open>The context pointer: null, the address of the dummy, a request, or a request that was deleted.\<close>

datatype con_ptr = NullPtr | Dummy | Request HttpRequest | Freed

record mhd_response =
  code_sent :: nat
  page_sent :: string
  headers_sent :: "(string \<times> string) list"

definition MaybeCompressContent :: "bool \<Rightarrow> (string \<Rightarrow> string) \<Rightarrow> mhd_connection \<Rightarrow> string \<Rightarrow> string \<times> string" where
  "MaybeCompressContent use_http_compress ZlibCompress con buf =
     (if contains ''deflate'' (encodings con) \<and> use_http_compress then (ZlibCompress buf, ''deflate'') else (buf, []))"

definition root_url_of :: "string \<Rightarrow> string" where
  "root_url_of url = (let result = SplitStringUsing url ''/'' [] in if length result > 1 then ''/'' @ hd result else url)"

definition ORBIT_COOKIE_MAGIC :: string where "ORBIT_COOKIE_MAGIC = ''orbit_cookie''"

text \<open>The session of a request: the cookie, the session and the cookie that is to be set.\<close>

definition session_of :: "string \<Rightarrow> HttpRequest \<Rightarrow> HttpSessionManager \<Rightarrow> (string \<times> HttpSession \<times> string \<times> HttpSessionManager) option" where
  "session_of random request m =
     (let session_value = HttpSession_new random
      in case GetHeaderValue ORBIT_COOKIE_MAGIC request of
           (False, _) \<Rightarrow> (case CreateSession session_value m of (cookie_value, m) \<Rightarrow> Some (cookie_value, session_value, cookie_value, m))
         | (True, cookie_value) \<Rightarrow>
             (case FindSessionByCookie cookie_value m of
                Some found \<Rightarrow> Some (cookie_value, found, [], m)
              | None \<Rightarrow> do {
                  session_value \<leftarrow> SetSessionId (c_str cookie_value) session_value;
                  Some (cookie_value, session_value, [], UpdateSession cookie_value session_value m) }))"

text \<open>The part of \<open>HttpRequestHandler\<close> behind the reading of the request.\<close>

definition answer ::
    "('h \<Rightarrow> HttpRequest \<Rightarrow> HttpResponse \<Rightarrow> HttpResponse) \<Rightarrow> bool \<Rightarrow> (string \<Rightarrow> string) \<Rightarrow> string \<Rightarrow> string \<Rightarrow> mhd_connection \<Rightarrow> string
     \<Rightarrow> HttpRequest \<Rightarrow> 'h HttpServer \<Rightarrow> (mhd_response \<times> 'h HttpServer) option" where
  "answer HandleRequest use_http_compress ZlibCompress cache_policy random con url request s = do {
     let handler = GetHttpHandler (root_url_of url) s;
     (cookie_value, session_value, should_create, m) \<leftarrow> session_of random request (session_manager s);
     let (http_code, ctype, page, enc, redirect, m) =
       (case handler of
          None \<Rightarrow> (HTTP_NOT_FOUND, ''text/plain'', ''ERROR URL:'' @ url, [], [], m)
        | Some h \<Rightarrow>
            let response = HandleRequestInternal HandleRequest h (request\<lparr>rq_session := session_value\<rparr>)
                  ((HttpResponse_new random)\<lparr>rs_session := session_value\<rparr>);
                (page, enc) = MaybeCompressContent use_http_compress ZlibCompress con (content response)
            in (rs_code response, (if content_type response \<noteq> [] then content_type response else ''text/plain''), page, enc, location response,
                UpdateSession cookie_value (rs_session response) m));
     let headers = [(''Content-Type'', ctype)]
       @ (if enc \<noteq> [] then [(''Content-Encoding'', enc)]
            @ (if ctype = ''text/javascript'' \<or> ctype = ''text/css'' then [(''Cache-Control'', cache_policy)] else []) else [])
       @ (if should_create \<noteq> [] then [(''Set-Cookie'', take 255 (ORBIT_COOKIE_MAGIC @ ''='' @ should_create))] else [])
       @ (if http_code = HTTP_MOVED_PERMANENTLY \<or> http_code = HTTP_TEMPORARY_REDIRECT then [(''Location'', redirect)] else []);
     Some (\<lparr>code_sent = http_code, page_sent = page, headers_sent = headers\<rparr>, s\<lparr>session_manager := m\<rparr>) }"

text \<open>A round of \<open>HttpRequestHandler\<close>: the result, what is sent, the context pointer and the server.\<close>

definition HttpRequestHandler ::
    "('h \<Rightarrow> HttpRequest \<Rightarrow> HttpResponse \<Rightarrow> HttpResponse) \<Rightarrow> bool \<Rightarrow> (string \<Rightarrow> string) \<Rightarrow> string \<Rightarrow> string \<Rightarrow> mhd_connection \<Rightarrow> string \<Rightarrow> string
     \<Rightarrow> string \<Rightarrow> con_ptr \<Rightarrow> 'h HttpServer \<Rightarrow> (bool \<times> mhd_response option \<times> con_ptr \<times> 'h HttpServer) option" where
  "HttpRequestHandler HandleRequest use_http_compress ZlibCompress cache_policy random con url meth upload_data ptr s =
     (if meth \<noteq> ''POST'' \<and> meth \<noteq> ''GET'' then Some (False, None, ptr, s)
      else if ptr = NullPtr then Some (True, None, Dummy, s)
      else if meth = ''GET''
      then if upload_data \<noteq> []
           then Some (True, Some \<lparr>code_sent = HTTP_NOT_IMPLEMENTED, page_sent = ''<html><body><p>Error!</p></body></html>'', headers_sent = []\<rparr>, ptr, s)
           else do {
             let request = (set_method meth (HttpRequest_new random))\<lparr>rq_url := url\<rparr>;
             let request = get_connection_values MHD_GET_ARGUMENT_KIND (arguments con) request;
             let request = get_connection_values MHD_COOKIE_KIND (cookies con) request;
             (response, s) \<leftarrow> answer HandleRequest use_http_compress ZlibCompress cache_policy random con url request s;
             Some (True, Some response, Freed, s) }
      else if upload_data \<noteq> []
      then (case ptr of
              Dummy \<Rightarrow> Some (True, None, Request (AppendTempData upload_data
                         (get_connection_values MHD_COOKIE_KIND (cookies con) (HttpRequest_new random))), s)
            | _ \<Rightarrow> None)
      else case ptr of
             Request request \<Rightarrow>
               (case post_process con (temp_data request) of
                  None \<Rightarrow> Some (False, None, Freed, s)
                | Some kvs \<Rightarrow> do {
                    let request = fold (\<lambda>(kind, k, v). PostKeyValueIterator kind k v) kvs request;
                    let request = (set_method meth request)\<lparr>rq_url := url\<rparr>;
                    (response, s) \<leftarrow> answer HandleRequest use_http_compress ZlibCompress cache_policy random con url request s;
                    Some (True, Some response, Freed, s) })
           | _ \<Rightarrow> None)"

section \<open>What is served\<close>

text \<open>Names without two consecutive dots.\<close>

fun no_dots :: "string \<Rightarrow> bool" where
  "no_dots (a # b # s) \<longleftrightarrow> \<not> (a = CHR ''.'' \<and> b = CHR ''.'') \<and> no_dots (b # s)"
| "no_dots _ \<longleftrightarrow> True"

lemma no_dots_contains: "no_dots s \<longleftrightarrow> \<not> contains ''..'' s"
  by (induction s rule: no_dots.induct) auto

lemma no_dots_append:
  "no_dots (a @ b) \<longleftrightarrow> no_dots a \<and> no_dots b \<and> (a = [] \<or> b = [] \<or> \<not> (last a = CHR ''.'' \<and> hd b = CHR ''.''))"
proof (induction a rule: no_dots.induct, goal_cases)
  case (3 x)
  then show ?case by (cases b) auto
qed auto

lemma no_dots_take: "no_dots s \<Longrightarrow> no_dots (take n s)"
  using no_dots_append [of "take n s" "drop n s"] by simp

lemma no_dots_pieces: "no_dots (JoinStrings (pieces ''..'' s) [])"
proof (induction "length s" arbitrary: s rule: less_induct)
  case less
  show ?case
  proof (cases "find_sub ''..'' s")
    case None
    then show ?thesis by (subst pieces.simps) (simp add: JoinStrings_def no_dots_contains contains_find)
  next
    case (Some n)
    let ?r = "drop (n + 2) s"
    note f = find_sub_Some [OF Some]
    have IH: "no_dots (JoinStrings (pieces ''..'' ?r) [])" using f by (intro less) auto
    have d: "take (n + 1) s = take n s @ ''.''" using f by (simp add: take_Suc_conv_app_nth) (metis Cons_nth_drop_Suc Suc_leD Suc_le_lessD list.inject take_Suc_Cons)
    have "no_dots (take (n + 1) s)" using no_early_match [OF Some, of 1] by (simp add: no_dots_contains)
    then have "no_dots (take n s)" "take n s = [] \<or> last (take n s) \<noteq> CHR ''.''" unfolding d no_dots_append by auto
    moreover have "JoinStrings (take n s # pieces ''..'' ?r) [] = take n s @ JoinStrings (pieces ''..'' ?r) []"
      by (cases "pieces ''..'' ?r") (simp_all add: JoinStrings_def)
    ultimately show ?thesis using Some IH by (subst pieces.simps) (auto simp: no_dots_append)
  qed
qed

lemma no_dots_replaced: "no_dots (StringReplace s ''..'' [] True)"
  using replace_pieces [of "''..''" 0 s "[]" "[]"] no_dots_pieces [of s] by (simp add: StringReplace_def)

text \<open>C36.
  A request that names a file by the query \<open>file\<close> is answered from a single file: its path is the directory
  of the handler followed by a name without two consecutive dots, so the name cannot climb
  out of the directory; the response does not depend on any other file.\<close>

theorem query_stays_in_directory:
  assumes "fst (GetQueryValue ''file'' request)"
  shows "\<exists>name. \<not> contains ''..'' name \<and> (\<forall>fs fs'. fs (c_str (filepath_root h @ name)) = fs' (c_str (filepath_root h @ name)) \<longrightarrow>
    file_HandleRequest fs random h request = file_HandleRequest fs' random h request)"
proof (intro exI conjI)
  obtain v where v: "GetQueryValue ''file'' request = (True, v)" using assms by (cases "GetQueryValue ''file'' request") auto
  show "\<not> contains ''..'' (requested_file h request)"
    using no_dots_replaced [of v] by (auto simp: requested_file_def v no_dots_contains)
  show "\<forall>fs fs'. fs (c_str (filepath_root h @ requested_file h request)) = fs' (c_str (filepath_root h @ requested_file h request)) \<longrightarrow>
    file_HandleRequest fs random h request = file_HandleRequest fs' random h request"
    by (simp add: file_HandleRequest_def ReadFile_def Let_def)
qed

theorem query_stays_in_directory_witness:
  "\<exists>name. \<not> contains ''..'' name \<and> (\<forall>fs fs'. fs (c_str (''html/'' @ name)) = fs' (c_str (''html/'' @ name)) \<longrightarrow>
    file_HandleRequest fs [] (SimpleFileHandler_new ''html/'') (AddQueryParam ''file'' ''../../etc/passwd'' (HttpRequest_new [])) =
    file_HandleRequest fs' [] (SimpleFileHandler_new ''html/'') (AddQueryParam ''file'' ''../../etc/passwd'' (HttpRequest_new [])))"
  using query_stays_in_directory [of "AddQueryParam ''file'' ''../../etc/passwd'' (HttpRequest_new [])" "SimpleFileHandler_new ''html/''" "[]"]
  by (simp add: AddQueryParam_def HttpRequest_new_def GetQueryValue_def sm_new_def iless_def SimpleFileHandler_new_def)

text \<open>Without the query the URL is taken as it is.\<close>

lemma url_leaves_directory:
  "file_HandleRequest (\<lambda>p. if p = ''html/../key'' then Some ''secret'' else None) [] (SimpleFileHandler_new ''html/'')
     ((HttpRequest_new [])\<lparr>rq_url := ''/../key''\<rparr>) = Some ((HttpResponse_new [])\<lparr>content := ''secret'' @ [CHR 0x0A]\<rparr>)"
  by code_simp

section \<open>Sessions and authentication\<close>

text \<open>Nobody has a value under the key of the handler.\<close>

definition nobody_signed_in :: "string \<Rightarrow> HttpSessionManager \<Rightarrow> bool" where
  "nobody_signed_in key m \<longleftrightarrow> list_all (\<lambda>p. snd (session_GetValue key (snd p)) = []) m"

lemma sm_find_in: "sm_find lt k m = Some v \<Longrightarrow> \<exists>k'. (k', v) \<in> set m"
  by (induction lt k m rule: sm_find.induct) (auto split: if_splits)

lemma session_of_cases:
  assumes "session_of random request m = Some (cookie_value, session_value, should_create, m')"
  shows "session_data session_value = [] \<or> (\<exists>k. (k, session_value) \<in> set m)"
  using assms
  by (auto simp: session_of_def CreateSession_def FindSessionByCookie_def SetSessionId_def HttpSession_new_def Let_def
      dest!: sm_find_in split: prod.splits option.splits bool.splits bind_splits if_splits)

lemma unsigned_session:
  assumes "session_of random request m = Some (cookie_value, session_value, should_create, m')" "nobody_signed_in key m"
  shows "snd (session_GetValue key session_value) = []"
  using session_of_cases [OF assms(1)] assms(2) by (auto simp: nobody_signed_in_def session_GetValue_def list_all_iff)

lemma redirect_unsigned:
  assumes "auth_mode h" "snd (session_GetValue (auth_session_key h) (rq_session request)) = []"
  shows "HandleRequestInternal HandleRequest h request response =
    response\<lparr>rs_session := session_SetValue ''next_url'' (next_url h) (rs_session response),
      rs_code := HTTP_TEMPORARY_REDIRECT, location := auth_location h, content_type := ''text/html''\<rparr>"
  using assms by (simp add: HandleRequestInternal_def split_beta Let_def)

lemma answer_unsigned:
  assumes "GetHttpHandler (root_url_of url) s = Some h" "auth_mode h" "nobody_signed_in (auth_session_key h) (session_manager s)"
  shows "answer HandleRequest uc zc cache random con url request s = answer HandleRequest' uc zc cache random con url request s"
    "answer HandleRequest uc zc cache random con url request s = Some (response, s') \<Longrightarrow>
      code_sent response = 307 \<and> (''Location'', auth_location h) \<in> set (headers_sent response)"
proof -
  have r: "HandleRequestInternal H h (request\<lparr>rq_session := session_value\<rparr>) rs =
      rs\<lparr>rs_session := session_SetValue ''next_url'' (next_url h) (rs_session rs),
        rs_code := HTTP_TEMPORARY_REDIRECT, location := auth_location h, content_type := ''text/html''\<rparr>"
    if "session_of random request (session_manager s) = Some (cookie_value, session_value, should_create, m)"
    for H cookie_value session_value should_create m rs
    using unsigned_session [OF that assms(3)] assms(2) by (intro redirect_unsigned) simp_all
  show "answer HandleRequest uc zc cache random con url request s = answer HandleRequest' uc zc cache random con url request s"
    by (cases "session_of random request (session_manager s)") (auto simp: answer_def assms(1) r Let_def)
  show "code_sent response = 307 \<and> (''Location'', auth_location h) \<in> set (headers_sent response)"
    if "answer HandleRequest uc zc cache random con url request s = Some (response, s')"
    using that by (cases "session_of random request (session_manager s)")
      (auto simp: answer_def assms(1) r Let_def HTTP_TEMPORARY_REDIRECT_def split_beta)
qed


definition example_handler :: "nat HttpHandler" where
  "example_handler = SetAuthMode True ''/signin'' ''user'' [] (HttpHandler_new 0)"

definition example_server :: "nat HttpServer" where
  "example_server = snd (RegisterHandler ''/rooms'' example_handler \<lparr>handlers = [], session_manager = []\<rparr>)"

definition example_connection :: mhd_connection where
  "example_connection = \<lparr>arguments = [], cookies = [], encodings = [], post_process = (\<lambda>_. None)\<rparr>"


text \<open>What a handler leaves in the session of its response is what the next request with the same cookie finds,
  and the sessions of all other cookies stay as they are.\<close>

theorem session_persists:
  assumes "GetHttpHandler (root_url_of url) s = Some h" "sm_sorted (<) (session_manager s)"
    "GetHeaderValue ORBIT_COOKIE_MAGIC request = (True, c)" "FindSessionByCookie c (session_manager s) = Some session_value"
  shows "\<exists>response s'. answer HandleRequest uc zc cache random con url request s = Some (response, s') \<and> handlers s' = handlers s \<and>
    sm_sorted (<) (session_manager s') \<and>
    (\<forall>d. FindSessionByCookie d (session_manager s') =
      (if d = c then Some (rs_session (HandleRequestInternal HandleRequest h (request\<lparr>rq_session := session_value\<rparr>)
          ((HttpResponse_new random)\<lparr>rs_session := session_value\<rparr>)))
       else FindSessionByCookie d (session_manager s)))"
proof -
  have "session_of random request (session_manager s) = Some (c, session_value, [], session_manager s)"
    using assms(3,4) by (simp add: session_of_def Let_def)
  then show ?thesis using assms(1,2)
    by (simp add: answer_def Let_def split_beta UpdateSession_def FindSessionByCookie_def strk.sorted_set strk.find_set)
qed

theorem session_persists_witness:
  "\<exists>response s'. answer (\<lambda>_ _ r. r\<lparr>rs_session := session_SetValue ''user'' ''ann'' (rs_session r)\<rparr>) False id [] [] example_connection ''/signin''
      (AddHeader ORBIT_COOKIE_MAGIC ''k'' (HttpRequest_new []))
      \<lparr>handlers = [(''/signin'', HttpHandler_new (0 :: nat))], session_manager = [(''k'', HttpSession_new [])]\<rparr> = Some (response, s') \<and>
    FindSessionByCookie ''k'' (session_manager s') = Some (session_SetValue ''user'' ''ann'' (HttpSession_new []))"
proof -
  let ?s = "\<lparr>handlers = [(''/signin'', HttpHandler_new 0)], session_manager = [(''k'', HttpSession_new [])]\<rparr> :: nat HttpServer"
  have h: "GetHttpHandler (root_url_of ''/signin'') ?s = Some (HttpHandler_new 0)"
    by (simp add: GetHttpHandler_def root_url_of_def SplitStringUsing_def Let_def)
  have a: "HandleRequestInternal H (HttpHandler_new 0) rq rs = H 0 rq rs" for H :: "nat \<Rightarrow> HttpRequest \<Rightarrow> HttpResponse \<Rightarrow> HttpResponse" and rq rs
    by (simp add: HandleRequestInternal_def HttpHandler_new_def SetAuthMode_def split_beta Let_def)
  have c: "GetHeaderValue ORBIT_COOKIE_MAGIC (AddHeader ORBIT_COOKIE_MAGIC ''k'' (HttpRequest_new [])) = (True, ''k'')"
    by (simp add: GetHeaderValue_def AddHeader_def HttpRequest_new_def sm_new_def iless_def)
  have f: "FindSessionByCookie ''k'' (session_manager ?s) = Some (HttpSession_new [])" "sm_sorted (<) (session_manager ?s)"
    by (simp_all add: FindSessionByCookie_def sm_sorted_def)
  show ?thesis
    using session_persists [OF h f(2) c f(1), where HandleRequest = "\<lambda>_ _ r. r\<lparr>rs_session := session_SetValue ''user'' ''ann'' (rs_session r)\<rparr>"
      and uc = False and zc = id and cache = "[]" and random = "[]" and con = example_connection]
    unfolding a by (elim exE conjE) simp
qed

text \<open>Where the server goes wrong: a form that arrives in two pieces or is empty, a short unknown
  cookie, a value that is set again, and the method of a form.\<close>

lemma second_piece_undefined:
  "upload_data \<noteq> [] \<Longrightarrow> HttpRequestHandler H uc zc cache random con url ''POST'' upload_data (Request r) s = None"
  by (simp add: HttpRequestHandler_def)

lemma empty_form_undefined: "HttpRequestHandler H uc zc cache random con url ''POST'' [] Dummy s = None"
  by (simp add: HttpRequestHandler_def)

lemma short_cookie_undefined:
  assumes "GetHeaderValue ORBIT_COOKIE_MAGIC request = (True, c)" "FindSessionByCookie c (session_manager s) = None" "length c < 32"
  shows "answer H uc zc cache random con url request s = None"
  using assms c_str_length [of c] by (simp add: answer_def session_of_def SetSessionId_def kSessionSize_def Let_def)

lemma value_not_replaced: "session_GetValue k h = (True, v) \<Longrightarrow> session_SetValue k v' h = h"
  by (simp add: session_GetValue_def session_SetValue_def sm_new_def split: option.splits)

lemma post_method_unknown: "rq_method (set_method ''POST'' r) = METHOD_UNKNOWN"
  by (simp add: set_method_def strcaseeq_def fold_case_def c_str_def ascii_tolower_def ascii_isupper_def)

end
