(* ===== verification/Record_Io.thy ===== *)
theory Record_Io
  imports Orbit_Prelude
begin

text \<open>
  Files of records: \<open>File\<close> of \<open>src/orbit/base/file.cc\<close> and \<open>RecordWriter\<close> and \<open>RecordReader\<close> of \<open>src/orbit/base/recordio.h\<close>.

  An open file is its bytes, the position and the number of bytes that may still be written to the
  device.  Messages are serialised by Protocol Buffers and compressed by zlib; both are arguments, with what
  the code relies on in the locale \<open>record_format\<close>.  \<open>None\<close> is the end of the program by a failed check
  of zlib.
\<close>

section \<open>Integers as bytes\<close>

fun to_le :: "nat \<Rightarrow> nat \<Rightarrow> buffer" where
  "to_le 0 x = []"
| "to_le (Suc n) x = of_nat x # to_le n (x div 256)"

fun of_le :: "buffer \<Rightarrow> nat" where
  "of_le [] = 0"
| "of_le (b # bs) = unat b + 256 * of_le bs"

lemma length_to_le [simp]: "length (to_le n x) = n"
  by (induction n arbitrary: x) simp_all

lemma of_to_le_mod: "of_le (to_le n x) = x mod 256 ^ n"
proof (induction n arbitrary: x)
  case (Suc n)
  then show ?case by (simp add: unat_of_nat mod_mult2_eq mult.commute)
qed simp

lemma of_to_le [simp]: "x < 256 ^ n \<Longrightarrow> of_le (to_le n x) = x"
  by (simp add: of_to_le_mod)

section \<open>Files\<close>

record File =
  f_data :: buffer
  f_pos :: nat
  f_space :: nat

definition file_Read :: "nat \<Rightarrow> File \<Rightarrow> buffer \<times> File" where
  "file_Read n f = (let bs = take n (drop (f_pos f) (f_data f)) in (bs, f\<lparr>f_pos := f_pos f + length bs\<rparr>))"

definition file_Write :: "buffer \<Rightarrow> File \<Rightarrow> nat \<times> File" where
  "file_Write bs f =
     (let n = min (length bs) (f_space f)
      in (n, f\<lparr>f_data := f_data f @ take n bs, f_pos := length (f_data f) + n, f_space := f_space f - n\<rparr>))"

definition file_WriteString :: "buffer \<Rightarrow> File \<Rightarrow> nat \<times> File" where
  "file_WriteString line f = file_Write line f"

definition file_WriteLine :: "buffer \<Rightarrow> File \<Rightarrow> bool \<times> File" where
  "file_WriteLine line f =
     (let (n, f) = file_Write line f
      in if n \<noteq> length line then (False, f) else let (n, f) = file_Write [10] f in (n = 1, f))"

text \<open>The loop of \<open>ReadToString\<close>, in pieces of at most two megabytes.\<close>

function read_loop :: "nat \<Rightarrow> nat \<Rightarrow> buffer \<Rightarrow> File \<Rightarrow> buffer \<times> File" where
  "read_loop bufsize needed output f =
     (if needed = 0 then (output, f)
      else let (bs, f) = file_Read (min bufsize needed) f
           in if length bs > 0 then read_loop bufsize (needed - length bs) (output @ bs) f else (output, f))"
  by pat_completeness auto

termination
  by (relation "measure (\<lambda>(_, needed, _, _). needed)") (auto simp: file_Read_def Let_def)

declare read_loop.simps [simp del]

definition ReadToString :: "nat \<Rightarrow> File \<Rightarrow> nat \<times> buffer \<times> File" where
  "ReadToString max_length f =
     (if max_length = 0 then (0, [], f)
      else let (output, f) = read_loop (min max_length (2 * 2 ^ 20)) max_length [] f in (length output, output, f))"

text \<open>Files by name.  \<open>Open\<close> for writing empties the file; \<open>space\<close> is what the device holds.\<close>

definition GetContents :: "('p \<rightharpoonup> buffer) \<Rightarrow> 'p \<Rightarrow> bool \<times> buffer" where
  "GetContents fs name =
     (case fs name of None \<Rightarrow> (False, [])
      | Some d \<Rightarrow> (case ReadToString (length d) \<lparr>f_data = d, f_pos = 0, f_space = 0\<rparr> of (n, output, _) \<Rightarrow> (n = length d, output)))"

definition SetContents :: "nat \<Rightarrow> 'p \<Rightarrow> buffer \<Rightarrow> ('p \<rightharpoonup> buffer) \<Rightarrow> bool \<times> ('p \<rightharpoonup> buffer)" where
  "SetContents space name contents fs =
     (case file_Write contents \<lparr>f_data = [], f_pos = 0, f_space = space\<rparr> of
        (n, f) \<Rightarrow> (n = length contents, fs(name \<mapsto> f_data f)))"

section \<open>Records\<close>

definition kMagicNumber :: nat where "kMagicNumber = 0x3ed7230a"

record 'p proto =
  serialize :: "'p \<Rightarrow> buffer"
  parse :: "buffer \<Rightarrow> 'p"

record zlib =
  compress :: "buffer \<Rightarrow> buffer"
  uncompress :: "buffer \<Rightarrow> nat \<Rightarrow> buffer option"

definition WriteProtocolMessage :: "'p proto \<Rightarrow> zlib \<Rightarrow> bool \<Rightarrow> 'p \<Rightarrow> File \<Rightarrow> bool \<times> File" where
  "WriteProtocolMessage pb z use_compression msg f =
     (let uncompressed_buffer = serialize pb msg;
          compressed_buffer = (if use_compression then compress z uncompressed_buffer else []);
          (n, f) = file_Write (to_le 4 kMagicNumber) f
      in if n \<noteq> 4 then (False, f)
         else let (n, f) = file_Write (to_le 8 (length uncompressed_buffer)) f
              in if n \<noteq> 8 then (False, f)
                 else let (n, f) = file_Write (to_le 8 (length compressed_buffer)) f
                      in if n \<noteq> 8 then (False, f)
                         else if use_compression
                         then let (n, f) = file_Write compressed_buffer f in (n = length compressed_buffer, f)
                         else let (n, f) = file_Write uncompressed_buffer f in (n = length uncompressed_buffer, f))"

definition ReadProtocolMessage :: "'p proto \<Rightarrow> zlib \<Rightarrow> File \<Rightarrow> ('p option \<times> File) option" where
  "ReadProtocolMessage pb z f =
     (let (magic, f) = file_Read 4 f
      in if length magic \<noteq> 4 \<or> of_le magic \<noteq> kMagicNumber then Some (None, f)
         else let (usize, f) = file_Read 8 f
              in if length usize \<noteq> 8 then Some (None, f)
                 else let (csize, f) = file_Read 8 f
                      in if length csize \<noteq> 8 then Some (None, f)
                         else if of_le csize \<noteq> 0
                         then let (compressed_buffer, f) = file_Read (of_le csize) f
                              in if length compressed_buffer \<noteq> of_le csize then Some (None, f)
                                 else do { buf \<leftarrow> uncompress z compressed_buffer (of_le usize); Some (Some (parse pb buf), f) }
                         else let (buf, f) = file_Read (of_le usize) f
                              in if length buf \<noteq> of_le usize then Some (None, f) else Some (Some (parse pb buf), f))"

text \<open>Messages are written, each with or without compression, as long as that succeeds.\<close>

fun write_all :: "'p proto \<Rightarrow> zlib \<Rightarrow> (bool \<times> 'p) list \<Rightarrow> File \<Rightarrow> 'p list \<times> File" where
  "write_all pb z [] f = ([], f)"
| "write_all pb z ((c, m) # ms) f =
     (case WriteProtocolMessage pb z c m f of
        (True, f) \<Rightarrow> (case write_all pb z ms f of (acked, f) \<Rightarrow> (m # acked, f))
      | (False, f) \<Rightarrow> ([], f))"

text \<open>Reading until a message is not there.\<close>

lemma read_advances:
  assumes "ReadProtocolMessage pb z f = Some (Some m, f')"
  shows "f_data f' = f_data f \<and> f_pos f < f_pos f' \<and> f_pos f' \<le> length (f_data f)"
  using assms by (auto simp: ReadProtocolMessage_def file_Read_def Let_def split: if_splits bind_splits)

function read_all :: "'p proto \<Rightarrow> zlib \<Rightarrow> File \<Rightarrow> 'p list option" where
  "read_all pb z f =
     (case ReadProtocolMessage pb z f of
        None \<Rightarrow> None
      | Some (None, _) \<Rightarrow> Some []
      | Some (Some m, f) \<Rightarrow> map_option ((#) m) (read_all pb z f))"
  by pat_completeness auto

termination
  by (relation "measure (\<lambda>(_, _, f). length (f_data f) - f_pos f)") (auto dest!: read_advances)

declare read_all.simps [simp del]

section \<open>What was written is read back\<close>

text \<open>What the code relies on: messages survive serialisation and compression, a compressed text is not
  empty, and the sizes fit their fields.\<close>

definition codec_ok :: "'p proto \<Rightarrow> zlib \<Rightarrow> bool" where
  "codec_ok pb z \<longleftrightarrow> (\<forall>m. parse pb (serialize pb m) = m \<and> length (serialize pb m) < 2 ^ 63) \<and>
     (\<forall>s. uncompress z (compress z s) (length s) = Some s \<and> compress z s \<noteq> [] \<and> (length s < 2 ^ 63 \<longrightarrow> length (compress z s) < 2 ^ 64))"

definition record_payload :: "'p proto \<Rightarrow> zlib \<Rightarrow> bool \<Rightarrow> 'p \<Rightarrow> buffer" where
  "record_payload pb z c m = (if c then compress z (serialize pb m) else serialize pb m)"

definition record_bytes :: "'p proto \<Rightarrow> zlib \<Rightarrow> bool \<Rightarrow> 'p \<Rightarrow> buffer" where
  "record_bytes pb z c m =
     to_le 4 kMagicNumber @ to_le 8 (length (serialize pb m)) @ to_le 8 (if c then length (record_payload pb z c m) else 0) @ record_payload pb z c m"

lemma write_record:
  "WriteProtocolMessage pb z c m f = (r, f') \<Longrightarrow>
    f_data f' = f_data f @ take (f_space f) (record_bytes pb z c m) \<and> (r \<longleftrightarrow> length (record_bytes pb z c m) \<le> f_space f) \<and>
    f_space f' = f_space f - length (record_bytes pb z c m)"
  by (auto simp: WriteProtocolMessage_def record_bytes_def record_payload_def file_Write_def Let_def min_def split: if_splits)

lemma record_length: "length (record_bytes pb z c m) = 20 + length (record_payload pb z c m)"
  by (simp add: record_bytes_def)

lemma magic_size: "kMagicNumber < 256 ^ 4"
  by (simp add: kMagicNumber_def)

lemma sizes_fit:
  assumes "codec_ok pb z"
  shows "length (serialize pb m) < 256 ^ 8" "(if c then length (record_payload pb z c m) else 0) < 256 ^ 8" "c \<Longrightarrow> 0 < length (record_payload pb z c m)"
    "of_le (to_le 8 (length (serialize pb m))) = length (serialize pb m)"
    "of_le (to_le 8 (if c then length (record_payload pb z c m) else 0)) = (if c then length (record_payload pb z c m) else 0)"
proof -
  have s: "length (serialize pb m) < 2 ^ 63" "length (compress z (serialize pb m)) < 2 ^ 64" "compress z (serialize pb m) \<noteq> []"
    using assms by (auto simp: codec_ok_def)
  have e: "(256 :: nat) ^ 8 = 2 ^ 64" by simp
  show "length (serialize pb m) < 256 ^ 8" using s(1) by (simp add: e)
  then show "of_le (to_le 8 (length (serialize pb m))) = length (serialize pb m)" by (rule of_to_le)
  show "(if c then length (record_payload pb z c m) else 0) < 256 ^ 8" using s(2) by (simp add: e record_payload_def)
  then show "of_le (to_le 8 (if c then length (record_payload pb z c m) else 0)) = (if c then length (record_payload pb z c m) else 0)" by (rule of_to_le)
  show "c \<Longrightarrow> 0 < length (record_payload pb z c m)" using s(3) by (simp add: record_payload_def)
qed

lemma read_record:
  assumes "codec_ok pb z" "drop (f_pos f) (f_data f) = record_bytes pb z c m @ rest"
  shows "ReadProtocolMessage pb z f = Some (Some m, f\<lparr>f_pos := f_pos f + length (record_bytes pb z c m)\<rparr>)"
proof -
  let ?u = "to_le 8 (length (serialize pb m))" and ?c = "to_le 8 (if c then length (record_payload pb z c m) else 0)" and ?p = "record_payload pb z c m"
  have d: "drop (n + f_pos f) (f_data f) = drop n (record_bytes pb z c m @ rest)" for n
    using assms(2) by (metis drop_drop)
  have t: "take 4 (drop (f_pos f) (f_data f)) = to_le 4 kMagicNumber" "take 8 (drop (4 + f_pos f) (f_data f)) = ?u"
    "take 8 (drop (12 + f_pos f) (f_data f)) = ?c" "take (length ?p) (drop (20 + f_pos f) (f_data f)) = ?p"
    unfolding d assms(2) by (simp_all add: record_bytes_def)
  have cod: "parse pb (serialize pb m) = m" "uncompress z (compress z (serialize pb m)) (length (serialize pb m)) = Some (serialize pb m)"
    using assms(1) by (auto simp: codec_ok_def)
  note s = sizes_fit(1,4) [OF assms(1), of m] sizes_fit(2,3,5) [OF assms(1), where c = c and m = m]
  have r: "file_Read 4 f = (to_le 4 kMagicNumber, f\<lparr>f_pos := 4 + f_pos f\<rparr>)" "file_Read 8 (f\<lparr>f_pos := 4 + f_pos f\<rparr>) = (?u, f\<lparr>f_pos := 12 + f_pos f\<rparr>)"
    "file_Read 8 (f\<lparr>f_pos := 12 + f_pos f\<rparr>) = (?c, f\<lparr>f_pos := 20 + f_pos f\<rparr>)"
    "file_Read (length ?p) (f\<lparr>f_pos := 20 + f_pos f\<rparr>) = (?p, f\<lparr>f_pos := 20 + length ?p + f_pos f\<rparr>)"
    using t by (simp_all add: file_Read_def Let_def)
  show ?thesis using r s cod magic_size
    by (cases c) (simp_all add: ReadProtocolMessage_def Let_def record_length record_payload_def add.commute add.left_commute)
qed

lemma read_torn:
  assumes "codec_ok pb z" "drop (f_pos f) (f_data f) = take n (record_bytes pb z c m)" "n < length (record_bytes pb z c m)"
  shows "\<exists>f'. ReadProtocolMessage pb z f = Some (None, f')"
proof -
  let ?u = "to_le 8 (length (serialize pb m))" and ?c = "to_le 8 (if c then length (record_payload pb z c m) else 0)" and ?p = "record_payload pb z c m"
  have d: "take k (drop (j + f_pos f) (f_data f)) = take k (drop j (take n (record_bytes pb z c m)))" for j k
    using assms(2) by (metis drop_drop)
  have l: "length (fst (file_Read k (f\<lparr>f_pos := j + f_pos f\<rparr>))) = min k (n - j)" for j k
    using assms(3) by (simp add: file_Read_def Let_def d)
  have h: "take k (drop j (take n (record_bytes pb z c m))) = take k (drop j (record_bytes pb z c m))" if "k + j \<le> n" for j k
    using that by (simp add: drop_take min_absorb2)
  have e: "4 \<le> n \<Longrightarrow> take 4 (take n (record_bytes pb z c m)) = to_le 4 kMagicNumber" "12 \<le> n \<Longrightarrow> take 8 (drop 4 (take n (record_bytes pb z c m))) = ?u"
    "20 \<le> n \<Longrightarrow> take 8 (drop 12 (take n (record_bytes pb z c m))) = ?c"
    using h [of 4 0] h [of 8 4] h [of 8 12] by (simp_all add: record_bytes_def del: take_take)
  have r: "4 \<le> n \<Longrightarrow> file_Read 4 f = (to_le 4 kMagicNumber, f\<lparr>f_pos := 4 + f_pos f\<rparr>)"
    "12 \<le> n \<Longrightarrow> file_Read 8 (f\<lparr>f_pos := 4 + f_pos f\<rparr>) = (?u, f\<lparr>f_pos := 12 + f_pos f\<rparr>)"
    "20 \<le> n \<Longrightarrow> file_Read 8 (f\<lparr>f_pos := 12 + f_pos f\<rparr>) = (?c, f\<lparr>f_pos := 20 + f_pos f\<rparr>)"
    using d [of 4 0] by (simp_all add: file_Read_def Let_def d e del: take_take)
  note s = sizes_fit(1,4) [OF assms(1), of m] sizes_fit(2,3,5) [OF assms(1), where c = c and m = m]
  have L: "length (record_bytes pb z c m) = 20 + length ?p" by (rule record_length)
  consider "n < 4" | "4 \<le> n" "n < 12" | "12 \<le> n" "n < 20" | "20 \<le> n" by linarith
  then show ?thesis
  proof cases
    case 1
    then have "length (fst (file_Read 4 f)) \<noteq> 4" using l [of 4 0] by simp
    then show ?thesis by (simp add: ReadProtocolMessage_def split_beta Let_def)
  next
    case 2
    then have "length (fst (file_Read 8 (f\<lparr>f_pos := 4 + f_pos f\<rparr>))) \<noteq> 8" using l [of 8 4] by simp
    then show ?thesis using r(1) 2 magic_size by (simp add: ReadProtocolMessage_def split_beta Let_def)
  next
    case 3
    then have "length (fst (file_Read 8 (f\<lparr>f_pos := 12 + f_pos f\<rparr>))) \<noteq> 8" using l [of 8 12] by simp
    then show ?thesis using r(1,2) 3 magic_size by (simp add: ReadProtocolMessage_def split_beta Let_def)
  next
    case 4
    have "length (fst (file_Read (length ?p) (f\<lparr>f_pos := 20 + f_pos f\<rparr>))) \<noteq> length ?p" using l [of "length ?p" 20] assms(3) L 4 by simp
    then show ?thesis using r 4 s magic_size
      by (cases c) (simp_all add: ReadProtocolMessage_def split_beta Let_def record_payload_def)
  qed
qed

lemma write_all_extends: "write_all pb z ms f = (acked, f') \<Longrightarrow> \<exists>e. f_data f' = f_data f @ e"
proof (induction ms arbitrary: f acked)
  case (Cons cm ms)
  obtain c m where cm: "cm = (c, m)" by (cases cm)
  obtain r f1 where w: "WriteProtocolMessage pb z c m f = (r, f1)" by fastforce
  show ?case
  proof (cases r)
    case True
    then obtain acked1 where "write_all pb z ms f1 = (acked1, f')" using Cons.prems w by (cases "write_all pb z ms f1") (simp add: cm)
    then show ?thesis using Cons.IH write_record [OF w] by fastforce
  qed (use Cons.prems w write_record [OF w] in \<open>auto simp: cm\<close>)
qed simp

lemma write_read:
  assumes "codec_ok pb z" "write_all pb z ms f = (acked, f')" "drop pos (f_data g) = drop (length (f_data f)) (f_data f')" "f_pos g = pos"
  shows "read_all pb z g = Some acked"
  using assms(2-4)
proof (induction ms arbitrary: f acked g pos)
  case Nil
  then have "drop (f_pos g) (f_data g) = take 0 (record_bytes pb z False undefined)" by simp
  then obtain g' where "ReadProtocolMessage pb z g = Some (None, g')" using read_torn [OF assms(1), of g 0 False undefined] by (auto simp: record_length)
  then show ?case using Nil.prems by (subst read_all.simps) simp
next
  case (Cons cm ms)
  obtain c m where cm: "cm = (c, m)" by (cases cm)
  obtain r f1 where w: "WriteProtocolMessage pb z c m f = (r, f1)" by fastforce
  note wr = write_record [OF w]
  let ?rb = "record_bytes pb z c m"
  show ?case
  proof (cases r)
    case True
    obtain acked1 where a: "write_all pb z ms f1 = (acked1, f')" "acked = m # acked1"
      using Cons.prems(1) w True by (cases "write_all pb z ms f1") (simp add: cm)
    obtain e where e: "f_data f' = f_data f @ ?rb @ e" using write_all_extends [OF a(1)] wr True by auto
    then have g: "drop (f_pos g) (f_data g) = ?rb @ e" using Cons.prems(2,3) by simp
    let ?g = "g\<lparr>f_pos := f_pos g + length ?rb\<rparr>"
    have "drop (f_pos g + length ?rb) (f_data ?g) = e" using g by (metis File.select_convs(1) File.surjective File.update_convs(2) add.commute append_eq_conv_conj drop_drop)
    then have "read_all pb z ?g = Some acked1" using e wr True by (intro Cons.IH [OF a(1), of "f_pos g + length ?rb"]) simp_all
    then show ?thesis using read_record [OF assms(1) g] a(2) by (subst read_all.simps) simp
  next
    case False
    have f': "f' = f1" "acked = []" using Cons.prems(1) w False by (simp_all add: cm)
    have "drop (f_pos g) (f_data g) = take (f_space f) ?rb" using Cons.prems(2,3) wr f' by simp
    then obtain g' where "ReadProtocolMessage pb z g = Some (None, g')" using read_torn [OF assms(1)] wr False by (metis not_le)
    then show ?thesis using f' by (subst read_all.simps) simp
  qed
qed

lemma acked_prefix: "\<exists>k. fst (write_all pb z ms f) = take k (map snd ms)"
proof (induction ms arbitrary: f)
  case (Cons cm ms)
  obtain c m where cm: "cm = (c, m)" by (cases cm)
  obtain r f1 where w: "WriteProtocolMessage pb z c m f = (r, f1)" by fastforce
  obtain k where "fst (write_all pb z ms f1) = take k (map snd ms)" using Cons.IH by blast
  then show ?case using w by (cases r; cases "write_all pb z ms f1") (auto simp: cm intro: exI [of _ "Suc k"] exI [of _ 0])
qed simp

lemma acked_all:
  "(\<Sum>(c, m)\<leftarrow>ms. length (record_bytes pb z c m)) \<le> f_space f \<Longrightarrow> fst (write_all pb z ms f) = map snd ms"
proof (induction ms arbitrary: f)
  case (Cons cm ms)
  obtain c m where cm: "cm = (c, m)" by (cases cm)
  obtain r f1 where w: "WriteProtocolMessage pb z c m f = (r, f1)" by fastforce
  have "r" "fst (write_all pb z ms f1) = map snd ms" using write_record [OF w] Cons.prems by (auto simp: cm intro: Cons.IH)
  then show ?case using w by (cases "write_all pb z ms f1") (simp add: cm)
qed simp


definition example_proto :: "u8 proto" where "example_proto = \<lparr>serialize = (\<lambda>b. [b]), parse = hd\<rparr>"

definition example_zlib :: zlib where
  "example_zlib = \<lparr>compress = (\<lambda>s. 120 # s), uncompress = (\<lambda>s n. if length s = Suc n then Some (tl s) else None)\<rparr>"

lemma example_codec: "codec_ok example_proto example_zlib"
  by (simp add: codec_ok_def example_proto_def example_zlib_def)


section \<open>Contents of files\<close>

lemma take_in_two:
  assumes "k \<le> n"
  shows "take n r = take k r @ take (n - length (take k r)) (drop (length (take k r)) r)"
proof (cases "k \<le> length r")
  case True
  then show ?thesis using assms take_add [of k "n - k" r] by simp
qed (use assms in simp)

lemma read_loop_eq:
  assumes "0 < bufsize"
  shows "fst (read_loop bufsize needed acc f) = acc @ take needed (drop (f_pos f) (f_data f))"
proof (induction needed arbitrary: acc f rule: less_induct)
  case (less needed)
  let ?r = "drop (f_pos f) (f_data f)"
  let ?bs = "take (min bufsize needed) ?r"
  have R: "file_Read (min bufsize needed) f = (?bs, f\<lparr>f_pos := f_pos f + length ?bs\<rparr>)" by (simp add: file_Read_def Let_def)
  show ?case
  proof (cases "needed = 0 \<or> ?bs = []")
    case True
    then have "take needed ?r = []" using assms by auto
    moreover have "fst (read_loop bufsize needed acc f) = acc" using True by (subst read_loop.simps) (auto simp: R)
    ultimately show ?thesis by simp
  next
    case False
    have lt: "needed - length ?bs < needed" using False by (cases "?bs") auto
    have "read_loop bufsize needed acc f = read_loop bufsize (needed - length ?bs) (acc @ ?bs) (f\<lparr>f_pos := f_pos f + length ?bs\<rparr>)"
      using False by (subst read_loop.simps) (simp add: R del: length_take take_eq_Nil)
    then show ?thesis using less.IH [OF lt, of "acc @ ?bs" "f\<lparr>f_pos := f_pos f + length ?bs\<rparr>"] take_in_two [of "min bufsize needed" needed ?r]
      by (simp add: add.commute del: length_take)
  qed
qed

text \<open>What was written to a file is its contents.\<close>

lemma contents_roundtrip:
  assumes "length contents \<le> space"
  shows "fst (SetContents space name contents fs)" "GetContents (snd (SetContents space name contents fs)) name = (True, contents)"
proof -
  show "fst (SetContents space name contents fs)" using assms by (simp add: SetContents_def file_Write_def Let_def)
  have g: "GetContents (fs(name \<mapsto> contents)) name = (True, contents)"
    using read_loop_eq [of "min (length contents) (2 * 2 ^ 20)" "length contents" "[]" "\<lparr>f_data = contents, f_pos = 0, f_space = 0\<rparr>"]
    by (cases "contents = []") (auto simp: GetContents_def ReadToString_def split_beta Let_def)
  then show "GetContents (snd (SetContents space name contents fs)) name = (True, contents)"
    using assms by (simp add: SetContents_def file_Write_def Let_def)
qed

end
