(* ===== verification/Sstable.thy ===== *)
theory Sstable
  imports Record_Io Std_Map
begin

text \<open>
  The key-value tables of \<open>src/orbit/base/sstable/sstable_builder.cc\<close>: \<open>SimpleSSTableBuilder\<close> collects pairs by the hash of
  their key and writes a file of blocks with an index behind them; \<open>SimpleSSTable\<close> opens such a file and looks keys up.

  Protocol Buffers, zlib and \<open>std::hash\<close> are arguments.  A file is its bytes.  \<open>None\<close> is undefined behaviour or the end
  of the program: a buffer that was not filled, a negative array size, a failed check of zlib.
\<close>

section \<open>Data\<close>

record SSTableDataItem =
  item_key :: buffer
  item_data :: buffer

datatype Algorithm = FLAT_STRING | ZIPPY_COMPRESSION | UNDEFINED

record SSTableBlock =
  algorithm :: Algorithm
  block_data :: "SSTableDataItem list"

record SSTableIndex =
  key_range :: int
  offset :: int

type_synonym SSTableMetadata = "SSTableIndex list"

text \<open>The conversion to \<open>int\<close>, and an \<open>int\<close> as its four bytes.\<close>

definition to_int :: "nat \<Rightarrow> int" where "to_int n = sint (of_nat n :: u32)"

definition WriteInteger :: "nat \<Rightarrow> buffer" where "WriteInteger n = to_le 4 n"

text \<open>\<open>read ((char*) &v, sizeof (int))\<close> at a position; bytes that are not there stay as they were.\<close>

definition read_int :: "buffer \<Rightarrow> nat \<Rightarrow> nat \<Rightarrow> int" where
  "read_int file pos init = (let bs = take 4 (drop pos file) in to_int (of_le (bs @ drop (length bs) (to_le 4 init))))"

definition hash_func :: "(buffer \<Rightarrow> u64) \<Rightarrow> buffer \<Rightarrow> int" where
  "hash_func std_hash key = sint (ucast (std_hash key) :: u32)"

section \<open>The builder\<close>

type_synonym key_chains = "(int, SSTableDataItem list) std_map"

definition sst_Add :: "(buffer \<Rightarrow> u64) \<Rightarrow> buffer \<Rightarrow> buffer \<Rightarrow> key_chains \<Rightarrow> key_chains" where
  "sst_Add std_hash key v holder =
     (let item = \<lparr>item_key = key, item_data = v\<rparr>; hash_key = hash_func std_hash key
      in case sm_find (<) hash_key holder of
           Some key_chain \<Rightarrow> sm_set (<) hash_key (key_chain @ [item]) holder
         | None \<Rightarrow> sm_set (<) hash_key [item] holder)"

fun build_blocks ::
    "SSTableBlock proto \<Rightarrow> zlib \<Rightarrow> bool \<Rightarrow> key_chains \<Rightarrow> buffer \<Rightarrow> nat \<Rightarrow> SSTableMetadata \<Rightarrow> buffer \<times> SSTableMetadata" where
  "build_blocks bp z use_compression [] file file_offset metadata = (file, metadata)"
| "build_blocks bp z use_compression ((h, key_chain) # kcs) file file_offset metadata =
     (let block = \<lparr>algorithm = FLAT_STRING, block_data = key_chain\<rparr>;
          out = serialize bp block;
          compressed_buffer = (if use_compression then compress z out else []);
          file = file @ WriteInteger (length out) @ WriteInteger (length compressed_buffer);
          file = file @ (if use_compression then compressed_buffer else out);
          metadata = metadata @ [\<lparr>key_range = h, offset = to_int file_offset\<rparr>]
      in build_blocks bp z use_compression kcs file (length file) metadata)"

definition sst_Build :: "SSTableBlock proto \<Rightarrow> SSTableMetadata proto \<Rightarrow> zlib \<Rightarrow> bool \<Rightarrow> key_chains \<Rightarrow> buffer" where
  "sst_Build bp mp z use_compression holder =
     (let (file, metadata) = build_blocks bp z use_compression holder [] 0 [];
          out = serialize mp metadata;
          compressed_buffer = (if use_compression then compress z out else []);
          file = file @ (if use_compression then compressed_buffer else out)
      in file @ WriteInteger (length out) @ WriteInteger (length compressed_buffer))"

section \<open>The reader\<close>

record SimpleSSTable =
  fs :: buffer
  offset_map :: "(int, int) std_map"
  use_compression :: bool

definition CreateMap :: "SSTableMetadata \<Rightarrow> (int, int) std_map \<Rightarrow> (int, int) std_map" where
  "CreateMap metadata m = fold (\<lambda>i. sm_set (<) (key_range i) (sint (word_of_int (offset i) :: u32))) metadata m"

text \<open>\<open>n\<close> bytes at a position, which have to be there.\<close>

definition bytes_at :: "buffer \<Rightarrow> int \<Rightarrow> int \<Rightarrow> buffer option" where
  "bytes_at file pos n = (if 0 \<le> pos \<and> 0 \<le> n \<and> nat pos + nat n \<le> length file then Some (take (nat n) (drop (nat pos) file)) else None)"

definition Uncompress :: "zlib \<Rightarrow> buffer \<Rightarrow> int \<Rightarrow> buffer option" where
  "Uncompress z source output_size =
     (if output_size < 0 then None
      else do { out \<leftarrow> uncompress z source (nat output_size); if length out = nat output_size then Some out else None })"

definition sst_Open :: "SSTableMetadata proto \<Rightarrow> zlib \<Rightarrow> bool \<Rightarrow> buffer option \<Rightarrow> (bool \<times> SimpleSSTable) option" where
  "sst_Open mp z uc disk =
     (case disk of
        None \<Rightarrow> Some (False, \<lparr>fs = [], offset_map = [], use_compression = uc\<rparr>)
      | Some file \<Rightarrow> do {
          let t = \<lparr>fs = file, offset_map = [], use_compression = uc\<rparr>;
          let file_size = to_int (length file);
          let (metadata_size, metadata_compressed_size) =
            (if file_size < 8 then (0, 0) else (read_int file (nat (file_size - 8)) 0, read_int file (nat (file_size - 4)) 0));
          if metadata_compressed_size \<noteq> 0 \<and> \<not> uc then Some (False, t)
          else if metadata_size \<le> 0 \<or> metadata_size > file_size then Some (False, t)
          else if \<not> uc
          then do {
            metadata_ser \<leftarrow> bytes_at file (file_size - metadata_size - 8) metadata_size;
            Some (True, t\<lparr>offset_map := CreateMap (parse mp metadata_ser) []\<rparr>) }
          else do {
            compressed \<leftarrow> bytes_at file (file_size - metadata_compressed_size - 8) metadata_compressed_size;
            metadata_ser \<leftarrow> Uncompress z compressed metadata_size;
            Some (True, t\<lparr>offset_map := CreateMap (parse mp metadata_ser) []\<rparr>) } })"

definition FindOffset :: "int \<Rightarrow> SimpleSSTable \<Rightarrow> int" where
  "FindOffset key_hash t = (case sm_find (<) key_hash (offset_map t) of Some off \<Rightarrow> off | None \<Rightarrow> -1)"

definition Lookup :: "(buffer \<Rightarrow> u64) \<Rightarrow> SSTableBlock proto \<Rightarrow> zlib \<Rightarrow> buffer \<Rightarrow> SimpleSSTable \<Rightarrow> buffer list option" where
  "Lookup std_hash bp z key t = (
     let off = FindOffset (hash_func std_hash key) t
     in if off = -1 then Some []
        else if off < 0 then None
        else do {
          let data_size = read_int (fs t) (nat off) (2 ^ 32 - 1);
          let data_compressed_size = read_int (fs t) (nat off + 4) 0;
          if \<not> use_compression t \<and> data_compressed_size \<noteq> 0 then Some []
          else do {
            data_ser \<leftarrow> (if use_compression t
              then do { data_str \<leftarrow> bytes_at (fs t) (off + 8) data_compressed_size; Uncompress z data_str data_size }
              else bytes_at (fs t) (off + 8) data_size);
            Some (map item_data (filter (\<lambda>item. item_key item = key) (block_data (parse bp data_ser)))) } })"

definition LookupFirst :: "(buffer \<Rightarrow> u64) \<Rightarrow> SSTableBlock proto \<Rightarrow> zlib \<Rightarrow> buffer \<Rightarrow> SimpleSSTable \<Rightarrow> buffer option" where
  "LookupFirst std_hash bp z key t = map_option (\<lambda>results. if length results < 1 then [] else hd results) (Lookup std_hash bp z key t)"

section \<open>A table is a multimap\<close>

text \<open>What the code relies on.\<close>

definition fits_int :: "int \<Rightarrow> bool" where "fits_int i \<longleftrightarrow> - (2 ^ 31) \<le> i \<and> i < 2 ^ 31"

definition table_codec_ok :: "SSTableBlock proto \<Rightarrow> SSTableMetadata proto \<Rightarrow> zlib \<Rightarrow> bool" where
  "table_codec_ok bp mp z \<longleftrightarrow>
     (\<forall>b. parse bp (serialize bp b) = b) \<and>
     (\<forall>m. list_all (\<lambda>i. fits_int (key_range i) \<and> fits_int (offset i)) m \<longrightarrow> parse mp (serialize mp m) = m \<and> (m \<noteq> [] \<longrightarrow> serialize mp m \<noteq> [])) \<and>
     (\<forall>s. uncompress z (compress z s) (length s) = Some s)"

definition add_all :: "(buffer \<Rightarrow> u64) \<Rightarrow> (buffer \<times> buffer) list \<Rightarrow> key_chains" where
  "add_all std_hash kvs = fold (\<lambda>(k, v). sst_Add std_hash k v) kvs []"

definition items :: "(buffer \<times> buffer) list \<Rightarrow> SSTableDataItem list" where
  "items kvs = map (\<lambda>(k, v). \<lparr>item_key = k, item_data = v\<rparr>) kvs"

lemma add_all_snoc: "add_all std_hash (kvs @ [(k, v)]) = sst_Add std_hash k v (add_all std_hash kvs)"
  by (simp add: add_all_def)

lemma add_all_holder:
  "sm_sorted (<) (add_all std_hash kvs) \<and> sm_find (<) h (add_all std_hash kvs) =
    (let c = filter (\<lambda>i. hash_func std_hash (item_key i) = h) (items kvs) in if c = [] then None else Some c)"
proof (induction kvs arbitrary: h rule: rev_induct)
  case (snoc kv kvs)
  obtain k v where kv: "kv = (k, v)" by (cases kv)
  have s: "sm_sorted (<) (add_all std_hash kvs)" using snoc by blast
  have f: "sm_find (<) j (add_all std_hash kvs) = (let c = filter (\<lambda>i. hash_func std_hash (item_key i) = j) (items kvs) in if c = [] then None else Some c)" for j
    using snoc by blast
  show ?case unfolding kv add_all_snoc using s
    by (auto simp: sst_Add_def f Let_def items_def intk.sorted_set intk.find_set split: option.splits)
qed (simp add: add_all_def items_def sm_sorted_def)

lemma to_int_small: "n < 2 ^ 31 \<Longrightarrow> to_int n = int n"
  by (simp add: to_int_def signed_of_nat signed_take_bit_int_eq_self)

lemma read_int_at:
  assumes "drop pos file = WriteInteger n @ rest" "n < 2 ^ 31"
  shows "read_int file pos init = int n"
  using assms by (simp add: read_int_def WriteInteger_def Let_def to_int_small)

definition block_of :: "SSTableDataItem list \<Rightarrow> SSTableBlock" where
  "block_of key_chain = \<lparr>algorithm = FLAT_STRING, block_data = key_chain\<rparr>"

definition stored :: "zlib \<Rightarrow> bool \<Rightarrow> buffer \<Rightarrow> buffer" where "stored z c out = (if c then compress z out else out)"

definition block_bytes :: "SSTableBlock proto \<Rightarrow> zlib \<Rightarrow> bool \<Rightarrow> SSTableDataItem list \<Rightarrow> buffer" where
  "block_bytes bp z c key_chain =
     (let out = serialize bp (block_of key_chain)
      in WriteInteger (length out) @ WriteInteger (if c then length (stored z c out) else 0) @ stored z c out)"

lemma build_blocks_layout:
  assumes "build_blocks bp z c kcs fl (length fl) metadata = (file', metadata')"
  shows "\<exists>e idx. file' = fl @ e \<and> metadata' = metadata @ idx \<and> map key_range idx = map fst kcs \<and> list_all (\<lambda>i. \<exists>p. offset i = to_int p \<and> p \<le> length file') idx \<and>
    (\<forall>(h, key_chain)\<in>set kcs. \<exists>p r. \<lparr>key_range = h, offset = to_int p\<rparr> \<in> set idx \<and> p \<le> length file' \<and> drop p file' = block_bytes bp z c key_chain @ r)"
  using assms
proof (induction kcs arbitrary: fl metadata)
  case (Cons kc kcs)
  obtain h key_chain where kc: "kc = (h, key_chain)" by (cases kc)
  let ?fl = "fl @ block_bytes bp z c key_chain" and ?i = "\<lparr>key_range = h, offset = to_int (length fl)\<rparr>"
  have "build_blocks bp z c kcs ?fl (length ?fl) (metadata @ [?i]) = (file', metadata')"
    using Cons.prems by (cases c) (simp_all add: kc block_bytes_def block_of_def stored_def Let_def add.assoc)
  from Cons.IH [OF this] obtain e idx where r: "file' = ?fl @ e" "metadata' = (metadata @ [?i]) @ idx" "map key_range idx = map fst kcs"
    "list_all (\<lambda>i. \<exists>p. offset i = to_int p \<and> p \<le> length file') idx"
    "\<forall>(h, key_chain)\<in>set kcs. \<exists>p r. \<lparr>key_range = h, offset = to_int p\<rparr> \<in> set idx \<and> p \<le> length file' \<and> drop p file' = block_bytes bp z c key_chain @ r"
    by blast
  show ?case
  proof (intro exI conjI)
    show "file' = fl @ block_bytes bp z c key_chain @ e" "metadata' = metadata @ ?i # idx" using r(1,2) by simp_all
    show "map key_range (?i # idx) = map fst (kc # kcs)" using r(3) by (simp add: kc)
    show "list_all (\<lambda>i. \<exists>p. offset i = to_int p \<and> p \<le> length file') (?i # idx)" using r(1,4) by auto
    show "\<forall>(h, key_chain)\<in>set (kc # kcs). \<exists>p r. \<lparr>key_range = h, offset = to_int p\<rparr> \<in> set (?i # idx) \<and> p \<le> length file' \<and> drop p file' = block_bytes bp z c key_chain @ r"
    proof
      fix x assume "x \<in> set (kc # kcs)"
      then consider "x = (h, key_chain)" | "x \<in> set kcs" by (auto simp: kc)
      then show "case x of (h, key_chain) \<Rightarrow> \<exists>p r. \<lparr>key_range = h, offset = to_int p\<rparr> \<in> set (?i # idx) \<and> p \<le> length file' \<and> drop p file' = block_bytes bp z c key_chain @ r"
      proof cases
        case 1
        then show ?thesis using r(1) by (auto intro!: exI [of _ "length fl"])
      next
        case 2
        then show ?thesis using r(5) by (fastforce split: prod.splits)
      qed
    qed
  qed
qed simp

lemma create_map_find:
  assumes "sm_sorted (<) m" "distinct (map key_range idx)"
  shows "sm_find (<) h (CreateMap idx m) =
    (case map_of (map (\<lambda>i. (key_range i, sint (word_of_int (offset i) :: u32))) idx) h of Some off \<Rightarrow> Some off | None \<Rightarrow> sm_find (<) h m)"
  using assms
proof (induction idx arbitrary: m)
  case (Cons i idx)
  let ?m = "sm_set (<) (key_range i) (sint (word_of_int (offset i) :: u32)) m"
  have "sm_find (<) h (CreateMap (i # idx) m) = (case map_of (map (\<lambda>i. (key_range i, sint (word_of_int (offset i) :: u32))) idx) h of Some off \<Rightarrow> Some off | None \<Rightarrow> sm_find (<) h ?m)"
    using Cons.IH [of ?m] Cons.prems by (simp add: CreateMap_def intk.sorted_set)
  moreover have "map_of (map (\<lambda>i. (key_range i, sint (word_of_int (offset i) :: u32))) idx) h = None" if "h = key_range i"
    using Cons.prems(2) that by (auto simp: map_of_eq_None_iff)
  ultimately show ?case using Cons.prems(1) by (auto simp: intk.find_set split: option.split)
qed (simp add: CreateMap_def)

lemma lookup_block:
  assumes "table_codec_ok bp mp z" "drop p (fs t) = block_bytes bp z (use_compression t) key_chain @ r" "p \<le> length (fs t)" "length (fs t) < 2 ^ 31"
    "length (serialize bp (block_of key_chain)) < 2 ^ 31" "FindOffset (hash_func std_hash key) t = int p"
  shows "Lookup std_hash bp z key t = Some (map item_data (filter (\<lambda>i. item_key i = key) key_chain))"
proof -
  let ?out = "serialize bp (block_of key_chain)" and ?c = "use_compression t"
  let ?s = "stored z ?c ?out"
  have len: "p + 8 + length ?s \<le> length (fs t)" using arg_cong [OF assms(2), of length] assms(3) by (simp add: block_bytes_def Let_def WriteInteger_def)
  have s: "length ?s < 2 ^ 31" using len assms(4) by simp
  have d: "drop p (fs t) = WriteInteger (length ?out) @ WriteInteger (if ?c then length ?s else 0) @ ?s @ r"
    using assms(2) by (simp add: block_bytes_def Let_def)
  have d4: "drop (p + 4) (fs t) = WriteInteger (if ?c then length ?s else 0) @ ?s @ r" and d8: "drop (p + 8) (fs t) = ?s @ r"
    using arg_cong [OF d, of "drop 4"] arg_cong [OF d, of "drop 8"] by (simp_all add: WriteInteger_def add.commute)
  have i: "read_int (fs t) p (2 ^ 32 - 1) = int (length ?out)" "read_int (fs t) (p + 4) 0 = int (if ?c then length ?s else 0)"
    using read_int_at [OF d4] s by (intro read_int_at [OF d assms(5)], cases ?c) simp_all
  have b: "bytes_at (fs t) (int p + 8) (int (length ?s)) = Some ?s"
    using len d8 by (simp add: bytes_at_def nat_add_distrib)
  have u: "Uncompress z (compress z ?out) (int (length ?out)) = Some ?out" using assms(1) by (simp add: Uncompress_def table_codec_ok_def)
  have pr: "block_data (parse bp ?out) = key_chain" using assms(1) by (simp add: table_codec_ok_def block_of_def)
  show ?thesis
  proof (cases ?c)
    case True
    then show ?thesis using i b u pr by (simp add: Lookup_def assms(6) Let_def stored_def)
  next
    case False
    then show ?thesis using i b pr by (simp add: Lookup_def assms(6) Let_def stored_def)
  qed
qed

lemma hash_keys: "h \<in> fst ` set (add_all std_hash kvs) \<Longrightarrow> fits_int h"
proof (induction kvs rule: rev_induct)
  case (snoc kv kvs)
  obtain k v where kv: "kv = (k, v)" by (cases kv)
  have r: "fits_int (hash_func std_hash k)"
    using sint_greater_eq [of "ucast (std_hash k) :: u32"] sint_less [of "ucast (std_hash k) :: u32"] by (simp add: fits_int_def hash_func_def)
  have "fst ` set (sst_Add std_hash k v m) = insert (hash_func std_hash k) (fst ` set m)" for m
    by (simp add: sst_Add_def Let_def intk.keys_set split: option.split)
  then show ?case using snoc r by (auto simp: kv add_all_snoc)
qed (simp add: add_all_def)

lemma open_table:
  assumes "table_codec_ok bp mp z" "build_blocks bp z c kcs [] 0 [] = (fl, idx)" "f = sst_Build bp mp z c kcs" "length f < 2 ^ 31"
    "length (serialize mp idx) \<le> length f" "list_all (\<lambda>i. fits_int (key_range i) \<and> fits_int (offset i)) idx" "idx \<noteq> []"
  shows "sst_Open mp z c (Some f) = Some (True, \<lparr>fs = f, offset_map = CreateMap idx [], use_compression = c\<rparr>)"
proof -
  let ?out = "serialize mp idx"
  let ?s = "stored z c ?out"
  have f: "f = fl @ ?s @ WriteInteger (length ?out) @ WriteInteger (if c then length ?s else 0)"
    using assms(2,3) by (simp add: sst_Build_def stored_def Let_def)
  have law: "parse mp ?out = idx" "?out \<noteq> []" using assms(1,6,7) by (auto simp: table_codec_ok_def)
  have L: "length f = length fl + length ?s + 8" by (simp add: f WriteInteger_def)
  have sz: "to_int (length f) = int (length f)" using assms(4) by (rule to_int_small)
  have n: "nat (int (length f) - 8) = length fl + length ?s" "nat (int (length f) - 4) = length fl + length ?s + 4" "\<not> length f < 8" using L by simp_all
  have d: "drop (length fl + length ?s) f = WriteInteger (length ?out) @ WriteInteger (if c then length ?s else 0)"
    "drop (length fl + length ?s + 4) f = WriteInteger (if c then length ?s else 0) @ []"
    by (simp_all add: f WriteInteger_def)
  have lim: "length ?out < 2 ^ 31" "(if c then length ?s else 0) < 2 ^ 31" using assms(4,5) L by auto
  have i: "read_int f (length fl + length ?s) 0 = int (length ?out)" "read_int f (length fl + length ?s + 4) 0 = int (if c then length ?s else 0)"
    by (rule read_int_at [OF d(1) lim(1)], rule read_int_at [OF d(2) lim(2)])
  have b: "bytes_at f (int (length f) - int (length ?s) - 8) (int (length ?s)) = Some ?s"
    using L by (simp add: bytes_at_def f)
  have u: "Uncompress z (compress z ?out) (int (length ?out)) = Some ?out" using assms(1) by (simp add: Uncompress_def table_codec_ok_def)
  show ?thesis
  proof (cases c)
    case True
    then show ?thesis using i b u law assms(5) by (simp add: sst_Open_def sz n Let_def stored_def)
  next
    case False
    then show ?thesis using i b law assms(5) by (simp add: sst_Open_def sz n Let_def stored_def)
  qed
qed

lemma add_all_nonempty:
  assumes "kvs \<noteq> []"
  shows "add_all std_hash kvs \<noteq> []"
proof -
  obtain kvs' k v where kvs: "kvs = kvs' @ [(k, v)]" using assms by (cases kvs rule: rev_cases) auto
  have "sm_set (<) h c m \<noteq> []" for h c and m :: key_chains using intk.keys_set [of h c m] by force
  then show ?thesis by (simp add: kvs add_all_snoc sst_Add_def Let_def split: option.split)
qed

lemma index_in_range:
  assumes "map key_range idx = map fst (add_all std_hash kvs)" "list_all (\<lambda>i. \<exists>p. offset i = to_int p \<and> p \<le> length fl) idx" "length fl < 2 ^ 31"
  shows "list_all (\<lambda>i. fits_int (key_range i) \<and> fits_int (offset i)) idx"
  unfolding list_all_iff
proof
  fix i assume i: "i \<in> set idx"
  then have "key_range i \<in> fst ` set (add_all std_hash kvs)" using assms(1) by (metis image_eqI list.set_map)
  moreover obtain p where "offset i = to_int p" "p \<le> length fl" using assms(2) i by (auto simp: list_all_iff)
  ultimately show "fits_int (key_range i) \<and> fits_int (offset i)" using hash_keys assms(3) to_int_small [of p] by (simp add: fits_int_def)
qed

text \<open>C33.
  A table that is built from pairs of keys and values, written to a file and opened again, with or without
  compression, is a multimap: looking a key up yields exactly the values that were added under it, in
  the order in which they were added, and nothing for other keys, whatever collisions the hash has.
  Files are smaller than two gigabytes, and the index is not longer than the file.\<close>

theorem table_is_multimap:
  assumes "table_codec_ok bp mp z" "kvs \<noteq> []" "f = sst_Build bp mp z c (add_all std_hash kvs)" "length f < 2 ^ 31"
    "build_blocks bp z c (add_all std_hash kvs) [] 0 [] = (fl, idx)" "length (serialize mp idx) \<le> length f"
    "list_all (\<lambda>p. length (serialize bp (block_of (snd p))) < 2 ^ 31) (add_all std_hash kvs)"
  shows "\<exists>t. sst_Open mp z c (Some f) = Some (True, t) \<and> (\<forall>key. Lookup std_hash bp z key t = Some (map snd (filter (\<lambda>p. fst p = key) kvs)))"
proof -
  let ?kcs = "add_all std_hash kvs"
  obtain e where lay: "fl = e" "map key_range idx = map fst ?kcs" "list_all (\<lambda>i. \<exists>p. offset i = to_int p \<and> p \<le> length fl) idx"
    "\<forall>(h, key_chain)\<in>set ?kcs. \<exists>p r. \<lparr>key_range = h, offset = to_int p\<rparr> \<in> set idx \<and> p \<le> length fl \<and> drop p fl = block_bytes bp z c key_chain @ r"
    using build_blocks_layout [of bp z c ?kcs "[]" "[]" fl idx] assms(5) by auto
  obtain g where f: "f = fl @ g" using assms(3,5) by (simp add: sst_Build_def Let_def)
  have off: "to_int p = int p" if "p \<le> length fl" for p using that assms(4) f by (intro to_int_small) simp
  have hd: "sm_sorted (<) ?kcs" using add_all_holder by blast
  have dist: "distinct (map key_range idx)" using hd unfolding lay(2) by (simp add: sm_sorted_def strict_sorted_iff)
  have ne: "idx \<noteq> []" using lay(2) add_all_nonempty [OF assms(2), of std_hash] by (cases ?kcs) auto
  have rng: "list_all (\<lambda>i. fits_int (key_range i) \<and> fits_int (offset i)) idx"
    using assms(4) f by (intro index_in_range [OF lay(2,3)]) simp
  let ?t = "\<lparr>fs = f, offset_map = CreateMap idx [], use_compression = c\<rparr>"
  have op: "sst_Open mp z c (Some f) = Some (True, ?t)" by (rule open_table [OF assms(1,5,3,4,6) rng ne])
  have "Lookup std_hash bp z key ?t = Some (map snd (filter (\<lambda>p. fst p = key) kvs))" for key
  proof -
    let ?h = "hash_func std_hash key"
    let ?c = "filter (\<lambda>i. hash_func std_hash (item_key i) = ?h) (items kvs)"
    have res: "map item_data (filter (\<lambda>i. item_key i = key) ?c) = map snd (filter (\<lambda>p. fst p = key) kvs)"
      by (induction kvs) (auto simp: items_def)
    have find: "sm_find (<) ?h (CreateMap idx []) = map_of (map (\<lambda>i. (key_range i, sint (word_of_int (offset i) :: u32))) idx) ?h"
      using create_map_find [OF _ dist, of "[]" ?h] by (simp add: sm_sorted_def split: option.split)
    show ?thesis
    proof (cases "?c = []")
      case True
      then have "?h \<notin> fst ` set ?kcs" using add_all_holder [of std_hash kvs ?h] intk.find_map_of [OF hd, of ?h] by (simp add: map_of_eq_None_iff)
      then have "?h \<notin> key_range ` set idx" using lay(2) by (metis list.set_map)
      then have "map_of (map (\<lambda>i. (key_range i, sint (word_of_int (offset i) :: u32))) idx) ?h = None" by (force simp: map_of_eq_None_iff)
      then have "FindOffset ?h ?t = -1" using find by (simp add: FindOffset_def)
      then show ?thesis using res True by (simp add: Lookup_def)
    next
      case False
      then have "(?h, ?c) \<in> set ?kcs" using add_all_holder [of std_hash kvs ?h] intk.find_map_of [OF hd, of ?h] by (auto dest: map_of_SomeD)
      then obtain p r where p: "\<lparr>key_range = ?h, offset = to_int p\<rparr> \<in> set idx" "p \<le> length fl" "drop p fl = block_bytes bp z c ?c @ r"
        "length (serialize bp (block_of ?c)) < 2 ^ 31" using lay(4) assms(7) by (fastforce simp: list_all_iff)
      have o: "sint (word_of_int (to_int p) :: u32) = int p" using off [OF p(2)] to_int_def by simp
      have "map_of (map (\<lambda>i. (key_range i, sint (word_of_int (offset i) :: u32))) idx) ?h = Some (int p)"
        using dist p(1) o by (intro map_of_is_SomeI) (auto simp: o_def image_iff intro!: bexI [OF _ p(1)])
      then have "FindOffset ?h ?t = int p" using find by (simp add: FindOffset_def)
      then show ?thesis using lookup_block [OF assms(1), of p ?t ?c "r @ g"] p assms(4) f res by simp
    qed
  qed
  then show ?thesis using op by blast
qed

text \<open>Serialisations for an example: every byte of an item with a tag before it, and the two numbers of an index entry
  in four bytes each.\<close>

fun enc_items :: "SSTableDataItem list \<Rightarrow> buffer" where
  "enc_items [] = []"
| "enc_items (i # is) = [2, 0] @ concat (map (\<lambda>b. [0, b]) (item_key i)) @ concat (map (\<lambda>b. [1, b]) (item_data i)) @ enc_items is"

fun dec_items :: "buffer \<Rightarrow> buffer \<times> buffer \<times> SSTableDataItem list" where
  "dec_items (tag # b # r) =
     (case dec_items r of (k, v, is) \<Rightarrow>
        if tag = 0 then (b # k, v, is) else if tag = 1 then (k, b # v, is) else ([], [], \<lparr>item_key = k, item_data = v\<rparr> # is))"
| "dec_items _ = ([], [], [])"

lemma dec_key: "dec_items r = (k', v, is) \<Longrightarrow> dec_items (concat (map (\<lambda>b. [0, b]) k) @ r) = (k @ k', v, is)"
  by (induction k) simp_all

lemma dec_data: "dec_items r = (k, v', is) \<Longrightarrow> dec_items (concat (map (\<lambda>b. [1, b]) v) @ r) = (k, v @ v', is)"
  by (induction v) simp_all

lemma dec_enc: "dec_items (enc_items is) = ([], [], is)"
proof (induction "is")
  case (Cons i "is")
  show ?case using dec_key [OF dec_data [OF Cons.IH, of "item_data i"], of "item_key i"] by simp
qed simp

definition example_blocks :: "SSTableBlock proto" where
  "example_blocks = \<lparr>serialize = (\<lambda>b. (case algorithm b of FLAT_STRING \<Rightarrow> 0 | ZIPPY_COMPRESSION \<Rightarrow> 1 | UNDEFINED \<Rightarrow> 2) # enc_items (block_data b)),
     parse = (\<lambda>s. \<lparr>algorithm = (if hd s = 0 then FLAT_STRING else if hd s = 1 then ZIPPY_COMPRESSION else UNDEFINED), block_data = snd (snd (dec_items (tl s)))\<rparr>)\<rparr>"

definition enc_index :: "SSTableIndex \<Rightarrow> buffer" where
  "enc_index i = to_le 4 (nat (key_range i mod 2 ^ 32)) @ to_le 4 (nat (offset i mod 2 ^ 32))"

function dec_index :: "buffer \<Rightarrow> SSTableMetadata" where
  "dec_index s = (if s = [] then [] else \<lparr>key_range = to_int (of_le (take 4 s)), offset = to_int (of_le (take 4 (drop 4 s)))\<rparr> # dec_index (drop 8 s))"
  by pat_completeness auto

termination by (relation "measure length") auto

declare dec_index.simps [simp del]

definition example_meta :: "SSTableMetadata proto" where
  "example_meta = \<lparr>serialize = (\<lambda>m. concat (map enc_index m)), parse = dec_index\<rparr>"

lemma to_int_mod:
  assumes "fits_int i"
  shows "to_int (of_le (to_le 4 (nat (i mod 2 ^ 32)))) = i"
proof -
  have "nat (i mod 2 ^ 32) < 256 ^ 4" by (simp add: nat_less_iff)
  then have "of_le (to_le 4 (nat (i mod 2 ^ 32))) = nat (i mod 2 ^ 32)" by (rule of_to_le)
  then have "to_int (of_le (to_le 4 (nat (i mod 2 ^ 32)))) = sint (word_of_int (i mod 2 ^ 32) :: u32)" by (simp add: to_int_def)
  also have "(word_of_int (i mod 2 ^ 32) :: u32) = word_of_int i" by (simp add: word_of_int_eq_iff take_bit_eq_mod)
  also have "sint (word_of_int i :: u32) = i" using assms by (simp add: fits_int_def signed_of_int signed_take_bit_int_eq_self)
  finally show ?thesis .
qed

lemma length_enc_index [simp]: "length (enc_index i) = 8"
  by (simp add: enc_index_def)

lemma enc_index_nonempty [simp]: "enc_index i \<noteq> []"
  by (metis length_enc_index list.size(3) zero_neq_numeral)

lemma dec_index_step:
  assumes "fits_int (key_range i)" "fits_int (offset i)"
  shows "dec_index (enc_index i @ r) = i # dec_index r"
proof -
  have "enc_index i @ r \<noteq> []" by simp
  moreover have "take 4 (enc_index i @ r) = to_le 4 (nat (key_range i mod 2 ^ 32))" "take 4 (drop 4 (enc_index i @ r)) = to_le 4 (nat (offset i mod 2 ^ 32))"
    "drop 8 (enc_index i @ r) = r" by (simp_all add: enc_index_def)
  ultimately show ?thesis using to_int_mod [OF assms(1)] to_int_mod [OF assms(2)] by (subst dec_index.simps) simp
qed

lemma dec_index_enc: "list_all (\<lambda>i. fits_int (key_range i) \<and> fits_int (offset i)) m \<Longrightarrow> dec_index (concat (map enc_index m)) = m"
  by (induction m) (simp_all add: dec_index_step, simp add: dec_index.simps)

lemma example_table_codec: "table_codec_ok example_blocks example_meta example_zlib"
proof -
  have "parse example_blocks (serialize example_blocks b) = b" for b by (cases "algorithm b") (simp_all add: example_blocks_def dec_enc)
  moreover have "m \<noteq> [] \<Longrightarrow> serialize example_meta m \<noteq> []" for m by (cases m) (simp_all add: example_meta_def)
  moreover have "uncompress example_zlib (compress example_zlib s) (length s) = Some s" for s by (simp add: example_zlib_def)
  ultimately show ?thesis using dec_index_enc by (auto simp: table_codec_ok_def example_meta_def)
qed

text \<open>Three pairs, two of them under the same key; all keys of the same length collide.\<close>

definition example_pairs :: "(buffer \<times> buffer) list" where "example_pairs = [([97], [1]), ([98], [2]), ([97], [3])]"

definition example_hash :: "buffer \<Rightarrow> u64" where "example_hash key = of_nat (length key)"

theorem table_is_multimap_witness:
  "\<exists>t. sst_Open example_meta example_zlib True (Some (sst_Build example_blocks example_meta example_zlib True (add_all example_hash example_pairs))) = Some (True, t) \<and>
    Lookup example_hash example_blocks example_zlib [97] t = Some [[1], [3]] \<and> Lookup example_hash example_blocks example_zlib [99] t = Some []"
proof -
  let ?f = "sst_Build example_blocks example_meta example_zlib True (add_all example_hash example_pairs)"
  have kcs: "add_all example_hash example_pairs = [(1, [\<lparr>item_key = [97], item_data = [1]\<rparr>, \<lparr>item_key = [98], item_data = [2]\<rparr>, \<lparr>item_key = [97], item_data = [3]\<rparr>])]"
    by (simp add: add_all_def example_pairs_def sst_Add_def hash_func_def example_hash_def)
  obtain fl idx where b: "build_blocks example_blocks example_zlib True (add_all example_hash example_pairs) [] 0 [] = (fl, idx)" by fastforce
  have idx: "length fl = 28" "idx = [\<lparr>key_range = 1, offset = to_int 0\<rparr>]"
    using b by (auto simp: kcs Let_def WriteInteger_def example_blocks_def example_zlib_def)
  have l: "length ?f = 45" "length (serialize example_meta idx) = 8"
    using b idx by (simp_all add: sst_Build_def Let_def WriteInteger_def example_meta_def example_zlib_def)
  have ne: "example_pairs \<noteq> []" by (simp add: example_pairs_def)
  have small: "list_all (\<lambda>p. length (serialize example_blocks (block_of (snd p))) < 2 ^ 31) (add_all example_hash example_pairs)"
    by (simp add: kcs block_of_def example_blocks_def)
  have "\<exists>t. sst_Open example_meta example_zlib True (Some ?f) = Some (True, t) \<and>
      (\<forall>key. Lookup example_hash example_blocks example_zlib key t = Some (map snd (filter (\<lambda>p. fst p = key) example_pairs)))"
    by (rule table_is_multimap [OF example_table_codec ne refl _ b _ small]) (simp_all add: l)
  then show ?thesis by (auto simp: example_pairs_def)
qed

text \<open>A table without pairs cannot be opened: an empty index is serialised to no bytes, and its size 0 counts
  as corrupted.\<close>

lemma empty_table_rejected:
  assumes "serialize mp [] = []"
  shows "\<exists>t. sst_Open mp z False (Some (sst_Build bp mp z False [])) = Some (False, t)"
proof -
  have f: "sst_Build bp mp z False [] = WriteInteger 0 @ WriteInteger 0" using assms by (simp add: sst_Build_def)
  have "read_int (WriteInteger 0 @ WriteInteger 0) 0 0 = 0" using read_int_at [of 0 "WriteInteger 0 @ WriteInteger 0" 0] by simp
  moreover have "read_int (WriteInteger 0 @ WriteInteger 0) 4 0 = 0" using read_int_at [of 4 "WriteInteger 0 @ WriteInteger 0" 0 "[]"] by (simp add: WriteInteger_def)
  moreover have "to_int (length (WriteInteger 0 @ WriteInteger 0)) = 8" by (simp add: WriteInteger_def to_int_small)
  ultimately show ?thesis by (simp add: f sst_Open_def Let_def)
qed

end
