(* ===== verification/Master_Server.thy ===== *)
theory Master_Server
  imports Std_String "HOL-Library.Multiset"
begin

text \<open>
  The master of a cluster of stream servers: the registry of servers (\<open>src/orbit/master_server/registry_service_impl.cc\<close>), the
  allocation of servers to sessions (\<open>orbit_master_server_manager.{h,cc}\<close>) and the service that forwards calls to
  the server of a session (\<open>forward_stream_service_impl.{h,cc}\<close>).

  The registry is an unordered map; the order in which it is read is an argument.  The outcomes of
  remote calls are an argument as well: \<open>rpc server k\<close> is the status of the \<open>k\<close>-th attempt.  \<open>None\<close> is an access out of
  bounds or the end of the program.
\<close>

section \<open>The registry\<close>

record ServerInfo =
  si_name :: string
  si_host :: string
  si_port :: int

definition ServerInfo_empty :: ServerInfo where "ServerInfo_empty = \<lparr>si_name = [], si_host = [], si_port = 0\<rparr>"

record HealthStatus =
  hs_ts :: int
  cpu_usage_percent :: real

record ServerStat =
  ss_info :: ServerInfo
  ss_status :: HealthStatus
  last_ts :: int

record server_registry =
  reg_id :: int
  stats :: "(string \<times> ServerStat) list"

definition GetNextId :: "server_registry \<Rightarrow> int \<times> server_registry" where
  "GetNextId r = (let r = r\<lparr>reg_id := reg_id r + 1\<rparr> in (reg_id r, r))"

definition qname_of :: "ServerInfo \<Rightarrow> string" where
  "qname_of i = si_host i @ '':'' @ show_int (si_port i) @ ''/'' @ si_name i"

definition put_stat :: "string \<Rightarrow> ServerStat \<Rightarrow> (string \<times> ServerStat) list \<Rightarrow> (string \<times> ServerStat) list" where
  "put_stat k s m = (if k \<in> fst ` set m then map (\<lambda>(j, t). if j = k then (j, s) else (j, t)) m else m @ [(k, s)])"

text \<open>The result is the id, and the health report that is handed to the collector with its key.\<close>

definition Register :: "int \<Rightarrow> ServerInfo \<Rightarrow> HealthStatus option \<Rightarrow> server_registry \<Rightarrow> int \<times> (string \<times> HealthStatus) list \<times> server_registry" where
  "Register now server status r =
     (let qname = qname_of server;
          old = (case map_of (stats r) qname of Some s \<Rightarrow> s | None \<Rightarrow> \<lparr>ss_info = ServerInfo_empty, ss_status = \<lparr>hs_ts = 0, cpu_usage_percent = 0\<rparr>, last_ts = 0\<rparr>);
          stat = old\<lparr>ss_info := server, last_ts := now\<rparr>;
          has = (case status of Some h \<Rightarrow> hs_ts h \<noteq> 0 | None \<Rightarrow> False);
          stat = (case status of Some h \<Rightarrow> if has then stat\<lparr>ss_status := h\<rparr> else stat | None \<Rightarrow> stat);
          r = r\<lparr>stats := put_stat qname stat (stats r)\<rparr>;
          saved = (if has then [(si_host server @ '':'' @ show_int (si_port server) @ ''_'' @ show_int (now div 1000), ss_status stat)] else []);
          (i, r) = GetNextId r
      in (i, saved, r))"

type_synonym reading = "(string \<times> ServerStat) list \<Rightarrow> (string \<times> ServerStat) list"

definition reg_GetLiveServers :: "reading \<Rightarrow> int \<Rightarrow> server_registry \<Rightarrow> ServerStat list" where
  "reg_GetLiveServers order now r = filter (\<lambda>x. now - last_ts x < 10000) (map snd (order (stats r)))"

definition GetServers :: "reading \<Rightarrow> int \<Rightarrow> server_registry \<Rightarrow> ServerInfo list" where
  "GetServers order now r = map ss_info (reg_GetLiveServers order now r)"

section \<open>Allocation\<close>

record OrbitMasterServerManager =
  session_to_server :: "(int, ServerInfo) std_map"
  server_id :: int

definition RoundRobin :: "reading \<Rightarrow> int \<Rightarrow> server_registry \<Rightarrow> OrbitMasterServerManager \<Rightarrow> (ServerInfo \<times> OrbitMasterServerManager) option" where
  "RoundRobin order now r m =
     (let live_servers = reg_GetLiveServers order now r
      in if live_servers \<noteq> []
         then if 0 \<le> server_id m \<and> nat (server_id m) < length live_servers
              then let i = ss_info (live_servers ! nat (server_id m)); m = m\<lparr>server_id := server_id m + 1\<rparr>
                   in Some (i, if server_id m \<ge> int (length live_servers) then m\<lparr>server_id := 0\<rparr> else m)
              else None
         else Some (ServerInfo_empty, m))"

definition LeastLoad :: "reading \<Rightarrow> int \<Rightarrow> server_registry \<Rightarrow> ServerInfo" where
  "LeastLoad order now r =
     snd (fold (\<lambda>c (min_usage, i). let usage = cpu_usage_percent (ss_status c) in if usage < min_usage then (usage, ss_info c) else (min_usage, i))
       (reg_GetLiveServers order now r) (10000, ServerInfo_empty))"

definition AllocateServer ::
    "string \<Rightarrow> reading \<Rightarrow> int \<Rightarrow> server_registry \<Rightarrow> OrbitMasterServerManager \<Rightarrow> (ServerInfo \<times> OrbitMasterServerManager) option" where
  "AllocateServer strategy order now r m =
     (if strategy = ''ROUND_ROBIN'' then RoundRobin order now r m
      else if strategy = ''LEAST_LOAD'' then Some (LeastLoad order now r, m) else None)"

definition SetSessionServer :: "int \<Rightarrow> ServerInfo \<Rightarrow> OrbitMasterServerManager \<Rightarrow> OrbitMasterServerManager" where
  "SetSessionServer sess i m = m\<lparr>session_to_server := sm_set (<) sess i (session_to_server m)\<rparr>"

definition GetServer :: "reading \<Rightarrow> int \<Rightarrow> server_registry \<Rightarrow> int \<Rightarrow> OrbitMasterServerManager \<Rightarrow> ServerInfo \<times> OrbitMasterServerManager" where
  "GetServer order now r sess m =
     (case sm_find (<) sess (session_to_server m) of
        None \<Rightarrow> (ServerInfo_empty, m)
      | Some i \<Rightarrow>
          if list_ex (\<lambda>s. si_name (ss_info s) = si_name i \<and> si_host (ss_info s) = si_host i \<and> si_port (ss_info s) = si_port i)
               (reg_GetLiveServers order now r)
          then (i, m)
          else (ServerInfo_empty, m\<lparr>session_to_server := sm_erase (<) sess (session_to_server m)\<rparr>))"

definition ReclaimServer :: "int \<Rightarrow> OrbitMasterServerManager \<Rightarrow> OrbitMasterServerManager" where
  "ReclaimServer sess m =
     (case sm_find (<) sess (session_to_server m) of None \<Rightarrow> m
      | Some _ \<Rightarrow> m\<lparr>session_to_server := sm_erase (<) sess (session_to_server m)\<rparr>)"

section \<open>Forwarding\<close>

datatype StatusCode = OK | CANCELLED | DEADLINE_EXCEEDED | FAILED int

text \<open>The cache of stubs and the number of stubs created.\<close>

record stub_cache =
  stubs_map :: "(string, nat option) std_map"
  stub_create :: nat

definition InitStub :: "string \<Rightarrow> stub_cache \<Rightarrow> nat \<times> stub_cache" where
  "InitStub server c =
     (case sm_find (<) server (stubs_map c) of
        Some (Some stub) \<Rightarrow> (stub, c)
      | _ \<Rightarrow> let stub = stub_create c in (stub, c\<lparr>stubs_map := sm_set (<) server (Some stub) (stubs_map c), stub_create := stub + 1\<rparr>))"

definition DestroyStub :: "string \<Rightarrow> stub_cache \<Rightarrow> stub_cache" where
  "DestroyStub server c = c\<lparr>stubs_map := sm_set (<) server None (stubs_map c)\<rparr>"

definition server_name :: "ServerInfo \<Rightarrow> string" where
  "server_name i = si_host i @ '':'' @ show_int (si_port i)"

text \<open>The loop of the calls for a session: the status and the number of attempts.  \<open>left\<close> counts the remaining ones.\<close>

fun attempts :: "(string \<Rightarrow> nat \<Rightarrow> StatusCode) \<Rightarrow> string \<Rightarrow> nat \<Rightarrow> nat \<Rightarrow> StatusCode \<Rightarrow> stub_cache \<Rightarrow> StatusCode \<times> nat \<times> stub_cache" where
  "attempts rpc server retries 0 status c = (status, retries, c)"
| "attempts rpc server retries (Suc left) status c =
     (let (_, c) = InitStub server c; status = rpc server retries
      in if status = OK then (OK, retries + 1, c) else attempts rpc server (retries + 1) left status c)"

text \<open>\<open>CloseSession\<close>, \<open>CreateStream\<close>, \<open>CloseStream\<close>, \<open>SendSessionMessage\<close> and \<open>RecvSessionMessage\<close> have the same body; only the first
  one reclaims the server.  The result contains the servers that were called.\<close>

definition forward_call ::
    "bool \<Rightarrow> nat \<Rightarrow> reading \<Rightarrow> int \<Rightarrow> server_registry \<Rightarrow> (string \<Rightarrow> nat \<Rightarrow> StatusCode) \<Rightarrow> int \<Rightarrow> OrbitMasterServerManager \<Rightarrow> stub_cache
     \<Rightarrow> StatusCode \<times> (string \<times> nat) option \<times> OrbitMasterServerManager \<times> stub_cache" where
  "forward_call reclaims rpc_retries order now r rpc sess m c =
     (let (server_info, m) = GetServer order now r sess m
      in if si_host server_info = [] then (CANCELLED, None, m, c)
         else let server = server_name server_info;
                  (status, n, c) = attempts rpc server 0 rpc_retries OK c
              in if status = OK \<and> 0 < rpc_retries then (OK, Some (server, n), if reclaims then ReclaimServer sess m else m, c)
                 else (status, Some (server, n), m, if status = DEADLINE_EXCEEDED then DestroyStub server c else c))"

definition CloseSession where "CloseSession = forward_call True"
definition CreateStream where "CreateStream = forward_call False"
definition CloseStream where "CloseStream = forward_call False"
definition SendSessionMessage where "SendSessionMessage = forward_call False"
definition RecvSessionMessage where "RecvSessionMessage = forward_call False"

text \<open>\<open>CreateSession\<close> allocates a server for every attempt.  \<open>rpc\<close> also yields the id of the session.  The status in the
  loop is a variable of its own, so that the one behind the loop is still \<open>OK\<close>.\<close>

fun rpc_CreateSession ::
    "string \<Rightarrow> reading \<Rightarrow> int \<Rightarrow> server_registry \<Rightarrow> (string \<Rightarrow> nat \<Rightarrow> StatusCode \<times> int) \<Rightarrow> nat \<Rightarrow> nat \<Rightarrow> OrbitMasterServerManager \<Rightarrow> stub_cache
     \<Rightarrow> (StatusCode \<times> int option \<times> OrbitMasterServerManager \<times> stub_cache) option" where
  "rpc_CreateSession strategy order now r rpc retries 0 m c = Some (OK, None, m, c)"
| "rpc_CreateSession strategy order now r rpc retries (Suc left) m c = do {
     (server_info, m) \<leftarrow> AllocateServer strategy order now r m;
     if si_host server_info = [] then Some (CANCELLED, None, m, c)
     else do {
       let server = server_name server_info;
       let (_, c) = InitStub server c;
       let (status, sess) = rpc server retries;
       if status = OK then Some (OK, Some sess, SetSessionServer sess server_info m, c)
       else rpc_CreateSession strategy order now r rpc (retries + 1) left m
              (if retries + 1 \<ge> 3 \<and> status = DEADLINE_EXCEEDED then DestroyStub server c else c) } }"

section \<open>Sessions are spread evenly\<close>

fun allocate :: "nat \<Rightarrow> reading \<Rightarrow> int \<Rightarrow> server_registry \<Rightarrow> OrbitMasterServerManager \<Rightarrow> (ServerInfo list \<times> OrbitMasterServerManager) option" where
  "allocate 0 order now r m = Some ([], m)"
| "allocate (Suc k) order now r m = do {
     (i, m) \<leftarrow> AllocateServer ''ROUND_ROBIN'' order now r m;
     (is, m) \<leftarrow> allocate k order now r m;
     Some (i # is, m) }"

lemma allocate_nth:
  assumes "live = reg_GetLiveServers order now r" "server_id m = int j" "j < length live"
  shows "allocate k order now r m =
    Some (map (\<lambda>n. ss_info (live ! ((j + n) mod length live))) [0..<k], m\<lparr>server_id := int ((j + k) mod length live)\<rparr>)"
  using assms(2,3)
proof (induction k arbitrary: m j)
  case (Suc k)
  let ?n = "length live" and ?j = "(j + 1) mod length live"
  have step: "AllocateServer ''ROUND_ROBIN'' order now r m = Some (ss_info (live ! j), m\<lparr>server_id := int ?j\<rparr>)"
    using Suc.prems by (cases "Suc j = length live") (auto simp: AllocateServer_def RoundRobin_def Let_def assms(1) [symmetric])
  have lt: "?j < ?n" using Suc.prems(2) by (intro mod_less_divisor) auto
  have IH: "allocate k order now r (m\<lparr>server_id := int ?j\<rparr>) =
      Some (map (\<lambda>n. ss_info (live ! ((?j + n) mod ?n))) [0..<k], m\<lparr>server_id := int ((?j + k) mod ?n)\<rparr>)"
    using Suc.IH [OF _ lt, of "m\<lparr>server_id := int ?j\<rparr>"] by simp
  have "map (\<lambda>n. ss_info (live ! ((?j + n) mod ?n))) [0..<k] = map (\<lambda>n. ss_info (live ! ((j + n) mod ?n))) (map Suc [0..<k])"
    by (simp add: mod_add_left_eq)
  then show ?case using step IH Suc.prems(2) by (simp add: mod_add_left_eq map_Suc_upt upt_conv_Cons del: upt_Suc map_map)
qed simp

text \<open>C39.
  Round robin: while the live servers stay the same, as many allocations as there are live servers give every one of
  them exactly once, in their order from the next one on, and end where they started.\<close>

theorem round_robin_fair:
  assumes "live = reg_GetLiveServers order now r" "0 \<le> server_id m" "server_id m < int (length live)"
  shows "\<exists>is. allocate (length live) order now r m = Some (is, m) \<and> is = rotate (nat (server_id m)) (map ss_info live) \<and>
    mset is = mset (map ss_info live)"
proof -
  define j where "j = nat (server_id m)"
  have j: "server_id m = int j" "j < length live" using assms(2,3) by (simp_all add: j_def nat_less_iff)
  have lt: "(j + n) mod length live < length live" for n using j(2) by (intro mod_less_divisor) auto
  have "map (\<lambda>n. ss_info (live ! ((j + n) mod length live))) [0..<length live] = rotate j (map ss_info live)"
    using lt by (intro nth_equalityI) (simp_all add: nth_rotate)
  then have "allocate (length live) order now r m = Some (rotate j (map ss_info live), m)"
    using allocate_nth [OF assms(1) j, of "length live"] j by simp
  moreover have "mset (rotate j (map ss_info live)) = mset (map ss_info live)"
    by (metis append_take_drop_id mset_append rotate_drop_take union_commute)
  ultimately show ?thesis by (simp add: j_def)
qed

definition example_stat :: "string \<Rightarrow> int \<Rightarrow> ServerStat" where
  "example_stat h t = \<lparr>ss_info = \<lparr>si_name = ''orbit'', si_host = h, si_port = 10001\<rparr>, ss_status = \<lparr>hs_ts = 1, cpu_usage_percent = 50\<rparr>, last_ts = t\<rparr>"

definition example_registry :: server_registry where
  "example_registry = \<lparr>reg_id = 3, stats = [(''a'', example_stat ''a'' 5000), (''b'', example_stat ''b'' 0), (''c'', example_stat ''c'' 6000)]\<rparr>"

lemma example_live: "reg_GetLiveServers id 12000 example_registry = [example_stat ''a'' 5000, example_stat ''c'' 6000]"
  by (simp add: reg_GetLiveServers_def example_registry_def example_stat_def)

theorem round_robin_fair_witness:
  "\<exists>is. allocate 2 id 12000 example_registry \<lparr>session_to_server = [], server_id = 1\<rparr> = Some (is, \<lparr>session_to_server = [], server_id = 1\<rparr>) \<and>
    map si_host is = [''c'', ''a'']"
  using round_robin_fair [OF refl, of "\<lparr>session_to_server = [], server_id = 1\<rparr>" id 12000 example_registry]
  by (auto simp: example_live example_stat_def rotate1_def numeral_2_eq_2)

text \<open>The least loaded live server is chosen, the first of several.\<close>

lemma least_load_fold:
  "fold (\<lambda>c (min_usage, i). let usage = cpu_usage_percent (ss_status c) in if usage < min_usage then (usage, ss_info c) else (min_usage, i)) live (u, i) = (u', i') \<Longrightarrow>
    u' \<le> u \<and> (\<forall>s\<in>set live. u' \<le> cpu_usage_percent (ss_status s)) \<and>
    (u' = u \<and> i' = i \<or> (\<exists>s\<in>set live. u' = cpu_usage_percent (ss_status s) \<and> u' < u \<and> i' = ss_info s))"
proof (induction live arbitrary: u i)
  case (Cons c live)
  show ?case
  proof (cases "cpu_usage_percent (ss_status c) < u")
    case True
    then show ?thesis using Cons.IH [of "cpu_usage_percent (ss_status c)" "ss_info c"] Cons.prems by (force simp: Let_def)
  next
    case False
    then show ?thesis using Cons.IH [of u i] Cons.prems by (force simp: Let_def)
  qed
qed simp

lemma least_load_minimal:
  assumes "s \<in> set (reg_GetLiveServers order now r)" "cpu_usage_percent (ss_status s) < 10000"
  shows "\<exists>t\<in>set (reg_GetLiveServers order now r). LeastLoad order now r = ss_info t \<and>
    (\<forall>s\<in>set (reg_GetLiveServers order now r). cpu_usage_percent (ss_status t) \<le> cpu_usage_percent (ss_status s))"
proof -
  obtain u i where f: "fold (\<lambda>c (min_usage, i). let usage = cpu_usage_percent (ss_status c) in if usage < min_usage then (usage, ss_info c) else (min_usage, i))
      (reg_GetLiveServers order now r) (10000, ServerInfo_empty) = (u, i)" by fastforce
  from least_load_fold [OF f] show ?thesis using assms f by (fastforce simp: LeastLoad_def)
qed

section \<open>Calls reach the server of the session\<close>

lemma attempts_outcome:
  assumes "attempts rpc server j left status c = (status', n, c')" "0 < left"
  shows "j < n \<and> n \<le> j + left \<and> status' = rpc server (n - 1) \<and> (\<forall>k. j \<le> k \<and> k < n - 1 \<longrightarrow> rpc server k \<noteq> OK) \<and> (status' \<noteq> OK \<longrightarrow> n = j + left)"
  using assms
proof (induction left arbitrary: j status c)
  case (Suc left)
  obtain s c1 where i: "InitStub server c = (s, c1)" by fastforce
  show ?case
  proof (cases "rpc server j = OK")
    case True
    then have "n = Suc j" "status' = OK" using Suc.prems i by simp_all
    then show ?thesis using True by auto
  next
    case no: False
    then have r: "attempts rpc server (j + 1) left (rpc server j) c1 = (status', n, c')" using Suc.prems i by simp
    show ?thesis
    proof (cases "left = 0")
      case True
      then show ?thesis using r by auto
    next
      case False
      then have IH: "j + 1 < n" "n \<le> j + 1 + left" "status' = rpc server (n - 1)" "\<forall>k. j + 1 \<le> k \<and> k < n - 1 \<longrightarrow> rpc server k \<noteq> OK"
          "status' \<noteq> OK \<longrightarrow> n = j + 1 + left"
        using Suc.IH [OF r] by blast+
      have "rpc server k \<noteq> OK" if "j \<le> k" "k < n - 1" for k using IH(4) no that by (metis Suc_eq_plus1 Suc_leI le_neq_implies_less)
      moreover have "j < n" "n \<le> j + Suc left" using IH(1,2) by simp_all
      moreover have "status' \<noteq> OK \<longrightarrow> n = j + Suc left" using IH(5) by simp
      ultimately show ?thesis using IH(3) by blast
    qed
  qed
qed simp



text \<open>Where the master goes wrong: when servers disappear, the next index may be past the end, and a session that
  could not be created is reported as created.\<close>

lemma fewer_servers_undefined:
  assumes "reg_GetLiveServers order now r \<noteq> []" "int (length (reg_GetLiveServers order now r)) \<le> server_id m"
  shows "RoundRobin order now r m = None"
  using assms by (auto simp: RoundRobin_def Let_def)

lemma failed_session_reported_ok:
  assumes "\<forall>server k. fst (rpc server k) \<noteq> OK" "LeastLoad order now r = i" "si_host i \<noteq> []"
  shows "\<exists>c'. rpc_CreateSession ''LEAST_LOAD'' order now r rpc retries left m c = Some (OK, None, m, c')"
  using assms(1)
proof (induction left arbitrary: retries c)
  case (Suc left)
  obtain st sess where "rpc (server_name i) retries = (st, sess)" by fastforce
  moreover from this have "st \<noteq> OK" using assms(1) by (metis fst_conv)
  moreover obtain s c1 where "InitStub (server_name i) c = (s, c1)" by fastforce
  ultimately show ?case using Suc assms(2,3) by (simp add: AllocateServer_def)
qed simp

end
