(* ===== verification/Spec2Isabelle.thy ===== *)
theory Spec2Isabelle
  imports Orbit_Prelude Rtp_Headers Seq_Number Media_Definitions Reorder_Buffer Rtp_Packet_Queue
    Janus_Context Rtcp_Walk Janus_Rtcp Janus_Nack Seq_List Nack_Processor
    Std_Map Network_Counters Network_Status Remb_Processor Rtcp_Sender Rtcp_Processor
    Std_Heap Rtp_Packet_Buffer Video_Frame_Queue Video_Map Video_Forward Session_Info
    Rtp_Sender Speaker_Estimator Video_Positions Audio_Energy Audio_Buffer Audio_Mixer Audio_Delivery Audio_Calls
    Audio_Stable1 Audio_Stable1_Mixer
    Std_String Sdp_Candidate Sdp_Info Sdp_Reading Sdp_Print Sdp_Roundtrip
    Str_Util Http_Server Record_Io Sstable Master_Server
begin

text \<open>
  Verification development for the Orbit streaming server (\<open>src/orbit\<close>), a WebRTC server that
  receives RTP streams, repairs and reorders them, reports on them by RTCP and forwards or mixes
  them in rooms.

  \<^bold>\<open>The program.\<close>  A transport delivers datagrams to \<open>RtcpProcessor\<close>
  (\<open>rtp/rtcp_processor.cc\<close>).  Media packets update the receive context of
  \<open>rtp/janus_rtcp_processor.cc\<close> and the list of missing numbers of \<open>rtp/nack_processor.cc\<close>,
  which asks for retransmission; control packets are dispatched to handlers that measure
  round-trip times, answer NACKs from the stored packets and grade the network
  (\<open>network_status.cc\<close>).  \<open>rtp/rtcp_sender.cc\<close> sends reports from a thread of its own.  The
  rooms take the media packets from reordering buffers (\<open>rtp/rtp_packet_queue.cc\<close>,
  \<open>modules/rtp_packet_buffer.cc\<close>, \<open>modules/video_frame_queue.cc\<close>).  \<open>modules/video_map.cc\<close> decides whose
  video everybody sees and \<open>modules/video_forward_element_new.cc\<close> relays it; \<open>modules/audio_mixer_element.cc\<close>
  mixes the audio of a conference.  Peers describe their
  streams to each other by the texts of \<open>sdp_info.cc\<close>.  The statistics end up on a status page
  (\<open>base/session_info.cc\<close>), which the embedded web server of \<open>http_server\<close> serves.  A master
  (\<open>master_server\<close>) spreads the sessions over several servers and forwards their calls.  Debugging data
  are kept in record files and tables (\<open>base/recordio.h\<close>, \<open>base/sstable\<close>).

  \<^bold>\<open>Modelling conventions.\<close>  A datagram is a list of bytes; the header classes are overlays, so
  a field access is a read or write at an offset, and \<open>None\<close> when it leaves the buffer
  (\<open>Orbit_Prelude\<close>, \<open>Rtp_Headers\<close>).  In general \<open>None\<close> means that the C++ code has no defined
  behaviour there: an access out of bounds, a pop from an empty container, an overflowing \<open>int\<close>.
  Unsigned integers are words and wrap around.  Objects are records, their methods functions from
  state to state; packets that are sent, events and calls of outside components are returned as
  lists of effects in their order.  A method holds its object's mutex and is one step; threads
  are sequences of such steps.  Clocks, uninitialised memory and the rounding of floating-point
  operations are arguments, and theorems hold for every value.  Vendored code (the WebRTC parser,
  depacketizer and estimators, NetEq and Opus, \<open>g_slist_sort\<close>, folly's JSON reader) is an argument too.
  Loops are structural recursions or have a termination measure, so no fuel is used.

  \<^bold>\<open>The theories.\<close>
    \<^item> \<open>Orbit_Prelude\<close>: types, byte order, buffers, the collections \<open>buf_simps\<close> and its lemmas.
    \<^item> \<open>Rtp_Headers\<close> (\<open>rtp/rtp_headers.h\<close>): field accessors; round trips of the REMB exponent
      and of the loss counter, header lengths against RFC 3550.
    \<^item> \<open>Seq_Number\<close>: the three tests on sequence numbers; in the locale \<open>serial_window\<close> they are
      linear orders on half-range windows.
    \<^item> \<open>Reorder_Buffer\<close>: the contract of a reordering buffer as a locale with the client's
      theorem; interpreted by \<open>Rtp_Packet_Queue\<close> and \<open>Video_Frame_Queue\<close>.
    \<^item> \<open>Rtp_Packet_Queue\<close> (\<open>rtp/rtp_packet_queue.cc\<close>): packets leave sorted and once; the queued
      media time is bounded.
    \<^item> \<open>Std_Heap\<close>, \<open>Rtp_Packet_Buffer\<close> (\<open>modules/rtp_packet_buffer.cc\<close>): a binary heap loses
      nothing for any comparison and is a priority queue for a keyed one (locale \<open>keyed_heap\<close>);
      the jitter buffer reorders, the storage buffer starts with its key frame.
    \<^item> \<open>Video_Frame_Queue\<close> (\<open>modules/video_frame_queue.cc\<close>): reordering with a watcher, restart
      at key frames without.
    \<^item> \<open>Janus_Context\<close>, \<open>Rtcp_Walk\<close>, \<open>Janus_Rtcp\<close>, \<open>Janus_Nack\<close>
      (\<open>rtp/janus_rtcp_processor.cc\<close>): receive statistics and report blocks; the walk over a
      compound datagram and all parsers, rewriters and builders as bodies of that walk; REMB and
      NACK round trips.
    \<^item> \<open>Seq_List\<close>, \<open>Nack_Processor\<close> (\<open>rtp/nack_processor.cc\<close>): the circular list over a heap
      of nodes refines a queue; missing packets are asked for when overdue, retransmissions are
      exact copies and bounded.
    \<^item> \<open>Std_Map\<close>: \<open>std::map\<close> as a sorted list, with the locales \<open>dictionary\<close> and
      \<open>key_order\<close> that every key type of the program interprets.
    \<^item> \<open>Network_Counters\<close>, \<open>Network_Status\<close> (\<open>network_status.cc\<close>): loss periods, counters,
      grades; step relations for the status of a stream and for the table of streams.
    \<^item> \<open>Remb_Processor\<close>, \<open>Rtcp_Sender\<close>, \<open>Rtcp_Processor\<close>: the bitrate cap, sender and receiver
      reports, and the object that composes all of these; round-trip times and sender reports are
      followed from the sending to the receiving side.
    \<^item> \<open>Video_Map\<close> (\<open>modules/video_map.cc\<close>): who sees whom in a conference, over a heap of nodes;
      links agree in both directions, everybody faces the master, the conference settles.
    \<^item> \<open>Video_Forward\<close> (\<open>modules/video_forward_element_new.cc\<close>): the element that relays the frame
      queues to the viewers that the map names; no round fails, a key frame switches its viewers.
    \<^item> \<open>Rtp_Sender\<close> (\<open>rtp_sender.cc\<close>): the queue of outgoing packets on the heap of \<open>Std_Heap\<close>; nothing
      is lost, packets of one priority are sent in order.
    \<^item> \<open>Speaker_Estimator\<close> (\<open>modules/speaker_estimator.cc\<close>): the stream that won most frames is announced.
    \<^item> \<open>Audio_Energy\<close> (\<open>audio_processing/audio_energy.cc\<close>): the scaled sum of squares fits 32 bits.
    \<^item> \<open>Audio_Buffer\<close> (\<open>modules/audio_buffer_manager.cc\<close>, \<open>media_packet.h\<close>): packets, codec and buffer of a
      participant; when a participant counts as muted.
    \<^item> \<open>Audio_Mixer\<close>, \<open>Audio_Delivery\<close>, \<open>Audio_Calls\<close> (\<open>modules/audio_mixer_element.cc\<close>): the mixing loops with and
      without encoder threads; everybody hears exactly the sum of the others, both loops deliver the same
      audio, and no history of calls and passes fails.
    \<^item> \<open>Audio_Stable1\<close>, \<open>Audio_Stable1_Mixer\<close> (\<open>AudioBufferManagerOfStable1\<close> and \<open>AudioMixerElementOfStable1\<close> of the
      same files): the audio path before NetEq.  Single lost packets are concealed, so that a frame is played
      for every sequence number, and everybody hears the sum of the others.
    \<^item> \<open>Video_Positions\<close> (\<open>video_mixer/video_mixer_position_manager.cc\<close>): the tiles of the mixed
      picture do not overlap.
    \<^item> \<open>Std_String\<close>, \<open>Sdp_Candidate\<close>, \<open>Sdp_Info\<close>, \<open>Sdp_Reading\<close>, \<open>Sdp_Print\<close>, \<open>Sdp_Roundtrip\<close>
      (\<open>sdp_info.{h,cc}\<close>): session descriptions; when reading is defined and what it yields, the
      translation of payload types, and that printed candidates and descriptions are read back.
    \<^item> \<open>Session_Info\<close> (\<open>base/session_info.cc\<close>): the register of sessions and the status page,
      fed by the effects of \<open>Network_Status\<close>.
    \<^item> \<open>Str_Util\<close> (\<open>base/strutil.{h,cc}\<close>): the two splitters agree up to empty pieces, splitting undoes
      joining, stripping is trimming at both ends, replacing joins the pieces between the matches, and
      the growing buffer of \<open>StringAppendV\<close> appends everything or nothing.
    \<^item> \<open>Http_Server\<close> (\<open>http_server\<close>): sessions and cookies, the iterators over headers and forms, the request
      handler and the handler of files.  Protected pages are not served without a login; a file named by
      a query cannot climb out of the directory.
    \<^item> \<open>Record_Io\<close> (\<open>base/file.cc\<close>, \<open>base/recordio.h\<close>): the records whose writing was acknowledged are read back, also
      when the last ones are cut off.
    \<^item> \<open>Sstable\<close> (\<open>base/sstable\<close>): writing, opening and looking up; a table is the multimap of what was added,
      for every hash function.
    \<^item> \<open>Master_Server\<close> (\<open>master_server\<close>): the register of servers, their allocation and the forwarded calls;
      round robin is fair, and a call reaches the server of its session or fails without another call.

  \<^bold>\<open>What is shown.\<close>  Each component has an invariant that its operations keep, the functional
  behaviour of its operations, and where it has a contract (queue, map, reordering buffer,
  priority queue) a refinement of it.  Several theorems state what the code does where that is
  not what it means to do; they are kept as they are, with the deviation named in the text.

  \<^bold>\<open>Not modelled.\<close>  ICE, DTLS and SRTP, the GStreamer pipelines of the mixers, recorders and live
  streams, the RPC stubs and ZooKeeper and the vendored WebRTC code: what happens there is decided
  by libraries that are not part of the server's own code.  Of the server's own code, the transport
  delegate, the plugins and rooms that glue transports to the elements above, the
  older forwarding element, the other loops of the audio mixer (\<open>MixPacketLoop\<close>,
  \<open>MixPacketLoop_New\<close>, \<open>DecodeLoop\<close>) and the pages and compression of the debugging tools are
  not modelled.
\<close>

end
